(* ===== verification/Rust_Prelude.thy ===== *)
theory Rust_Prelude
  imports "HOL-Library.Word"
begin

text \<open>
  Prelude of the development: the machine integers of the Rust code as words, the checked,
  saturating and wrapping operations of the standard library it calls, the crate's error type
  (src/crates/tierbuf/src/lib.rs), and a small outcome monad in which every early return,
  every panic and every wait that only another thread can end is a value.  The simp
  collections used by the component theories are declared here.
\<close>

unbundle bit_operations_syntax

section \<open>Simp collections\<close>

named_theorems op_simps \<open>equations of the outcome monad and of the operations built on it\<close>
named_theorems frame_simps \<open>which fields of the state an operation leaves alone\<close>

section \<open>Machine integers\<close>

type_synonym u8 = "8 word"
type_synonym u16 = "16 word"
type_synonym u32 = "32 word"
type_synonym u64 = "64 word"
type_synonym page = "u8 list"

text \<open>The constant PAGE_SIZE of lib.rs: 64 KiB.\<close>

definition PAGE_SIZE :: nat where
  "PAGE_SIZE = 64 * 1024"

lemma PAGE_SIZE_pos [simp]: "0 < PAGE_SIZE" "PAGE_SIZE \<noteq> 0"
  by (simp_all add: PAGE_SIZE_def)

definition u64_max :: u64 where
  "u64_max = - 1"

definition checked_add :: "'a::len word \<Rightarrow> 'a word \<Rightarrow> 'a word option" where
  "checked_add a b = (if a \<le> a + b then Some (a + b) else None)"

definition checked_sub :: "'a::len word \<Rightarrow> 'a word \<Rightarrow> 'a word option" where
  "checked_sub a b = (if b \<le> a then Some (a - b) else None)"

definition saturating_add :: "'a::len word \<Rightarrow> 'a word \<Rightarrow> 'a word" where
  "saturating_add a b = (if a \<le> a + b then a + b else - 1)"

definition checked_mul_u64 :: "nat \<Rightarrow> nat \<Rightarrow> nat option" where
  "checked_mul_u64 a b = (if a * b < 2 ^ 64 then Some (a * b) else None)"

definition checked_add_u64 :: "nat \<Rightarrow> nat \<Rightarrow> nat option" where
  "checked_add_u64 a b = (if a + b < 2 ^ 64 then Some (a + b) else None)"

definition div_ceil :: "nat \<Rightarrow> nat \<Rightarrow> nat" where
  "div_ceil a b = (if a mod b = 0 then a div b else a div b + 1)"

text \<open>Decimal rendering, as \<open>format!\<close> does it.\<close>

fun nat_str :: "nat \<Rightarrow> string" where
  "nat_str n = (if n < 10 then [char_of (48 + n)] else nat_str (n div 10) @ [char_of (48 + n mod 10)])"

declare nat_str.simps [simp del]

section \<open>Errors (lib.rs)\<close>

text \<open>
  The kinds of \<open>std::io::ErrorKind\<close> that the crate constructs or tests; an error of the
  operating system keeps its number.
\<close>

datatype io_kind =
  InvalidInput | NotFound | StorageFull | UnexpectedEof | WriteZero | Interrupted
| WouldBlock | BrokenPipe | Unsupported | InvalidData | OtherKind | OsKind nat

datatype io_error = IoError (io_kind_of: io_kind) (io_message: string)

datatype tierbuf_error =
  Io io_error
| PoolExhausted
| TierExhausted string
| InvalidPid u64
| DuplicateHandle u64
| InvalidConfig string
| Contended
| Retry
| ShuttingDown

definition invalid_input :: "string \<Rightarrow> tierbuf_error" where
  "invalid_input message = Io (IoError InvalidInput message)"

section \<open>Outcomes and state-passing operations\<close>

text \<open>
  An operation of the code returns normally (\<open>Ok\<close>), returns an error (\<open>Err\<close>), panics
  (\<open>Panic\<close>, with the message of the assertion or of the \<open>expect\<close>), or waits for a condition
  that only another thread or the holder of a guard can establish (\<open>Blocks\<close>: the spin loops of
  the latch and of the pin retry).  Constructors are prefixed by \<open>o\<close> to keep them apart from
  the sums used for \<open>Result\<close> values that the code inspects.
\<close>

datatype 'a outcome = oOk 'a | oErr tierbuf_error | oPanic string | oBlocks

type_synonym ('s, 'a) operation = "'s \<Rightarrow> 'a outcome \<times> 's"

definition op_return :: "'a \<Rightarrow> ('s, 'a) operation" where
  "op_return a = (\<lambda>s. (oOk a, s))"

definition op_fail :: "tierbuf_error \<Rightarrow> ('s, 'a) operation" where
  "op_fail e = (\<lambda>s. (oErr e, s))"

definition op_panic :: "string \<Rightarrow> ('s, 'a) operation" where
  "op_panic m = (\<lambda>s. (oPanic m, s))"

definition op_blocks :: "('s, 'a) operation" where
  "op_blocks = (\<lambda>s. (oBlocks, s))"

definition op_bind :: "('s, 'a) operation \<Rightarrow> ('a \<Rightarrow> ('s, 'b) operation) \<Rightarrow> ('s, 'b) operation" where
  "op_bind m f = (\<lambda>s. case m s of (r, t) \<Rightarrow>
     (case r of oOk a \<Rightarrow> f a t | oErr e \<Rightarrow> (oErr e, t) | oPanic x \<Rightarrow> (oPanic x, t)
      | oBlocks \<Rightarrow> (oBlocks, t)))"

definition op_assert :: "bool \<Rightarrow> string \<Rightarrow> ('s, unit) operation" where
  "op_assert b m = (if b then op_return () else op_panic m)"

definition op_get :: "('s \<Rightarrow> 'a) \<Rightarrow> ('s, 'a) operation" where
  "op_get f = (\<lambda>s. (oOk (f s), s))"

definition op_modify :: "('s \<Rightarrow> 's) \<Rightarrow> ('s, unit) operation" where
  "op_modify f = (\<lambda>s. (oOk (), f s))"

definition op_seq :: "('s, 'a) operation \<Rightarrow> ('s, 'b) operation \<Rightarrow> ('s, 'b) operation" where
  "op_seq m n = op_bind m (\<lambda>_. n)"

definition op_when :: "bool \<Rightarrow> ('s, unit) operation \<Rightarrow> ('s, unit) operation" where
  "op_when b m = (if b then m else op_return ())"

text \<open>A value that is already an outcome, and an operation on a component of the state.\<close>

definition op_outcome :: "'a outcome \<Rightarrow> ('s, 'a) operation" where
  "op_outcome r = (\<lambda>s. (r, s))"

definition op_lift :: "('s \<Rightarrow> 'c) \<Rightarrow> ('c \<Rightarrow> 's \<Rightarrow> 's) \<Rightarrow> ('c, 'a) operation \<Rightarrow> ('s, 'a) operation" where
  "op_lift sel upd m = (\<lambda>s. case m (sel s) of (r, c) \<Rightarrow> (r, upd c s))"

text \<open>Inspecting a \<open>Result\<close> instead of propagating its error with \<open>?\<close>.\<close>

definition op_try :: "('s, 'a) operation \<Rightarrow> ('s, tierbuf_error + 'a) operation" where
  "op_try m = (\<lambda>s. case m s of (r, t) \<Rightarrow>
     (case r of oOk a \<Rightarrow> (oOk (Inr a), t) | oErr e \<Rightarrow> (oOk (Inl e), t) | oPanic x \<Rightarrow> (oPanic x, t)
      | oBlocks \<Rightarrow> (oBlocks, t)))"

fun of_result :: "tierbuf_error + 'a \<Rightarrow> ('s, 'a) operation" where
  "of_result (Inl e) = op_fail e"
| "of_result (Inr a) = op_return a"

lemmas op_defs = op_return_def op_fail_def op_panic_def op_blocks_def op_get_def op_modify_def

lemma op_bind_simps [op_simps]:
  "m s = (oOk a, t) \<Longrightarrow> op_bind m f s = f a t"
  "m s = (oErr e, t) \<Longrightarrow> op_bind m f s = (oErr e, t)"
  "m s = (oPanic x, t) \<Longrightarrow> op_bind m f s = (oPanic x, t)"
  "m s = (oBlocks, t) \<Longrightarrow> op_bind m f s = (oBlocks, t)"
  by (simp_all add: op_bind_def)

lemma op_bind_okE:
  assumes "op_bind m f s = (oOk b, t)"
  obtains a u where "m s = (oOk a, u)" and "f a u = (oOk b, t)"
  using assms by (auto simp: op_bind_def split: prod.splits outcome.splits)

lemma op_bind_assoc: "op_bind (op_bind m f) g = op_bind m (\<lambda>a. op_bind (f a) g)"
  by (rule ext) (simp add: op_bind_def split: prod.splits outcome.splits)

lemma op_bind_return [simp]: "op_bind (op_return a) f = f a" "op_bind m op_return = m"
  by (rule ext, simp add: op_bind_def op_return_def split: prod.splits outcome.splits)+

section \<open>Facts about the integer operations\<close>

lemma checked_add_Some:
  "checked_add a b = Some c \<longleftrightarrow> unat a + unat b < 2 ^ LENGTH('a) \<and> c = a + b" for a b :: "'a::len word"
  by (auto simp: checked_add_def no_olen_add_nat)

lemma checked_sub_Some:
  "checked_sub a b = Some c \<longleftrightarrow> b \<le> a \<and> c = a - b" for a b :: "'a::len word"
  by (auto simp: checked_sub_def)

lemma unat_saturating_add:
  "unat (saturating_add a b) = min (unat a + unat b) (2 ^ LENGTH('a) - 1)" for a b :: "'a::len word"
proof (cases "a \<le> a + b")
  case True
  then have "unat a + unat b < 2 ^ LENGTH('a)" by (simp add: no_olen_add_nat)
  then show ?thesis by (simp add: saturating_add_def True unat_word_ariths)
next
  case False
  then have "\<not> unat a + unat b < 2 ^ LENGTH('a)" by (simp add: no_olen_add_nat)
  with False show ?thesis by (simp add: saturating_add_def unsigned_minus_1_eq_mask mask_eq_exp_minus_1)
qed

text \<open>Packing two fields of a word: a shifted high part or-ed with a low part that fits.\<close>

lemma nat_concat: "y < 2 ^ n \<Longrightarrow> push_bit n x OR y = x * 2 ^ n + y" for x y :: nat
proof -
  assume "y < 2 ^ n"
  then have y: "take_bit n y = y" by (rule take_bit_nat_eq_self)
  have "\<not> bit (push_bit n x AND take_bit n y) m" for m
    by (auto simp: bit_and_iff bit_push_bit_iff bit_take_bit_iff)
  then have "push_bit n x AND y = 0" by (simp add: bit_eq_iff y)
  from disjunctive_add_eq_or[OF this] show ?thesis
    by (simp add: push_bit_eq_mult)
qed

lemma unat_less_pow: "unat w < 2 ^ LENGTH('a)" for w :: "'a::len word"
  by (rule unsigned_less)

lemma unat_concat:
  fixes v s :: u64
  assumes "n \<le> 64" "unat v < 2 ^ (64 - n)" "unat s < 2 ^ n"
  shows "unat (push_bit n v OR s) = unat v * 2 ^ n + unat s"
proof -
  have "unat v * 2 ^ n < 2 ^ (64 - n) * 2 ^ n" using assms(2) by simp
  also have "\<dots> = 2 ^ 64" using assms(1) by (simp flip: power_add)
  finally have "push_bit n (unat v) < 2 ^ LENGTH(64)" by (simp add: push_bit_eq_mult)
  then have "unat (push_bit n v) = push_bit n (unat v)"
    unfolding unsigned_push_bit_eq by (rule take_bit_nat_eq_self)
  then show ?thesis
    unfolding unsigned_or_eq using nat_concat[OF assms(3)] by simp
qed

lemma unat_ucast_up:
  "LENGTH('a) \<le> LENGTH('b) \<Longrightarrow> unat (ucast w :: 'b::len word) = unat w" for w :: "'a::len word"
  unfolding unsigned_ucast_eq
  by (rule take_bit_nat_eq_self, rule less_le_trans, rule unat_less_pow) simp

lemma unat_take: "unat (take_bit n w) = unat w mod 2 ^ n"
  by (rule trans[OF unsigned_take_bit_eq take_bit_eq_mod])

lemma unat_and_mask: "unat (w AND mask n) = unat w mod 2 ^ n"
  unfolding take_bit_eq_mask[symmetric] by (rule unat_take)

lemma unat_drop: "unat (drop_bit n w) = unat w div 2 ^ n"
  by (rule trans[OF unat_drop_bit_eq drop_bit_eq_div])

lemma div_ceil_bounds:
  assumes "0 < b"
  shows "a \<le> div_ceil a b * b \<and> div_ceil a b * b < a + b"
proof (cases "a mod b = 0")
  case True
  then have "div_ceil a b * b = a" by (auto simp: div_ceil_def)
  with assms show ?thesis by simp
next
  case False
  then have d: "div_ceil a b * b = a div b * b + b" by (simp add: div_ceil_def)
  have m: "a div b * b + a mod b = a" and "0 < a mod b" and "a mod b < b"
    using False assms by simp_all
  then show ?thesis unfolding d by linarith
qed

end
