(* ===== verification/Bench_Random.thy ===== *)
theory Bench_Random
  imports Rust_Prelude "HOL-Library.Multiset"
begin

text \<open>
  The random numbers and the latency statistics of the benchmark driver
  (src/crates/tierbuf-bench/src/main.rs): the xorshift generator, the seeds of the workers, the
  reservoir of latency samples and the nearest-rank percentile.
\<close>

section \<open>The generator\<close>

record XorShift64 =
  xs_state :: u64

definition xorshift_new :: "u64 \<Rightarrow> XorShift64" where
  "xorshift_new seed = \<lparr>xs_state = (if seed = 0 then 1 else seed)\<rparr>"

definition next_u64 :: "XorShift64 \<Rightarrow> u64 \<times> XorShift64" where
  "next_u64 r =
     (let value = xs_state r;
          value = value XOR push_bit 13 value;
          value = value XOR drop_bit 7 value;
          value = value XOR push_bit 17 value
      in (value, r\<lparr>xs_state := value\<rparr>))"

definition WORKLOAD_SEED :: u64 where "WORKLOAD_SEED = 0x6a09e667f3bcc909"
definition MEASUREMENT_SEED_SALT :: u64 where "MEASUREMENT_SEED_SALT = 0xbb67ae8584caa73b"
definition SAMPLE_SEED_SALT :: u64 where "SAMPLE_SEED_SALT = 0x3c6ef372fe94f82b"

definition worker_seed :: "nat \<Rightarrow> u64 \<Rightarrow> u64" where
  "worker_seed worker_id salt =
     (let ordinal = word_of_nat worker_id + 1
      in WORKLOAD_SEED XOR (ordinal * 0x9e3779b97f4a7c15) XOR salt)"

section \<open>The reservoir of latency samples\<close>

record latency_sampler =
  ls_seen :: u64
  ls_values :: "u64 list"
  ls_random :: XorShift64
  ls_capacity :: nat

definition sampler_new :: "u64 \<Rightarrow> nat \<Rightarrow> latency_sampler" where
  "sampler_new seed capacity =
     \<lparr>ls_seen = 0, ls_values = [], ls_random = xorshift_new seed, ls_capacity = capacity\<rparr>"

definition sampler_record :: "u64 \<Rightarrow> latency_sampler \<Rightarrow> latency_sampler" where
  "sampler_record latency_ns s =
     (let s = s\<lparr>ls_seen := saturating_add (ls_seen s) 1\<rparr> in
      if length (ls_values s) < ls_capacity s then s\<lparr>ls_values := ls_values s @ [latency_ns]\<rparr>
      else if ls_capacity s = 0 then s
      else (case next_u64 (ls_random s) of (value, random) \<Rightarrow>
              (let candidate = value mod ls_seen s;
                   s = s\<lparr>ls_random := random\<rparr>;
                   index = unat candidate
               in if index < ls_capacity s then s\<lparr>ls_values := (ls_values s)[index := latency_ns]\<rparr> else s)))"

definition into_values :: "latency_sampler \<Rightarrow> u64 list" where
  "into_values s = ls_values s"

section \<open>Percentiles\<close>

text \<open>
  \<open>percentile\<close> sorts its argument and indexes it; a requested percentile outside 1..=100 fails the
  assertion.  Lengths are values of a 64-bit \<open>usize\<close>.
\<close>

definition percentile :: "u64 list \<Rightarrow> nat \<Rightarrow> u64 option outcome" where
  "percentile samples requested =
     (if \<not> (1 \<le> requested \<and> requested \<le> 100) then oPanic ''percentile must be between 1 and 100''
      else if samples = [] then oOk None
      else (let sorted_samples = sort samples in
            (case checked_mul_u64 (length sorted_samples) requested of
               None \<Rightarrow> oOk None
             | Some numerator \<Rightarrow>
                 (let rank = div_ceil numerator 100 - 1
                  in oOk (if rank < length sorted_samples then Some (sorted_samples ! rank) else None)))))"

section \<open>The generator is a permutation of the states that are not zero\<close>

lemma xor_shift_inj:
  fixes x y :: "'a::len word"
  assumes shift: "\<And>u v n. bit (f (u XOR v)) n = (bit (f u) n \<noteq> bit (f v) n)" and nil: "\<And>z. z XOR f z = 0 \<Longrightarrow> z = 0"
    and eq: "x XOR f x = y XOR f y"
  shows "x = y"
proof -
  have "(x XOR y) XOR f (x XOR y) = 0"
  proof (rule bit_eqI)
    fix n
    have "bit (x XOR f x) n = bit (y XOR f y) n" using eq by simp
    then show "bit ((x XOR y) XOR f (x XOR y)) n = bit (0 :: 'a word) n" by (auto simp: bit_xor_iff shift)
  qed
  then have "x XOR y = 0" by (rule nil)
  then have "bit (x XOR y) n = bit (0 :: 'a word) n" for n by simp
  then show ?thesis by (intro bit_eqI) (auto simp: bit_xor_iff)
qed

lemma xor_push_nil:
  fixes z :: "'a::len word"
  assumes "0 < k" "z XOR push_bit k z = 0"
  shows "z = 0"
proof -
  have s: "bit z n \<longleftrightarrow> n < LENGTH('a) \<and> k \<le> n \<and> bit z (n - k)" for n
  proof -
    have "bit (z XOR push_bit k z) n = bit (0 :: 'a word) n" using assms(2) by simp
    then show ?thesis using bit_imp_le_length[of z n] by (auto simp: bit_xor_iff bit_push_bit_iff)
  qed
  have "\<not> bit z n" for n
  proof (induction n rule: less_induct)
    case (less n)
    then show ?case using s[of n] assms(1) by auto
  qed
  then show ?thesis by (simp add: bit_eq_iff)
qed

lemma xor_drop_nil:
  fixes z :: "'a::len word"
  assumes "0 < k" "z XOR drop_bit k z = 0"
  shows "z = 0"
proof -
  have s: "bit z n \<longleftrightarrow> bit z (n + k)" for n
  proof -
    have "bit (z XOR drop_bit k z) n = bit (0 :: 'a word) n" using assms(2) by simp
    then show ?thesis by (auto simp: bit_xor_iff bit_drop_bit_eq add.commute)
  qed
  have "\<not> bit z n" for n
  proof (induction "LENGTH('a) - n" arbitrary: n rule: less_induct)
    case less
    then show ?case using s[of n] bit_imp_le_length[of z n] bit_imp_le_length[of z "n + k"] assms(1)
      by (cases "n < LENGTH('a)") auto
  qed
  then show ?thesis by (simp add: bit_eq_iff)
qed

lemma xor_push_inj: "0 < k \<Longrightarrow> x XOR push_bit k x = y XOR push_bit k y \<Longrightarrow> x = y" for x y :: "'a::len word"
  by (rule xor_shift_inj[where f = "push_bit k"]) (auto simp: bit_xor_iff bit_push_bit_iff intro: xor_push_nil dest: bit_imp_le_length)

lemma xor_drop_inj: "0 < k \<Longrightarrow> x XOR drop_bit k x = y XOR drop_bit k y \<Longrightarrow> x = y" for x y :: "'a::len word"
  by (rule xor_shift_inj[where f = "drop_bit k"]) (auto simp: bit_xor_iff bit_drop_bit_eq intro: xor_drop_nil)

lemma next_u64_zero: "next_u64 \<lparr>xs_state = 0\<rparr> = (0, \<lparr>xs_state = 0\<rparr>)"
  by (simp add: next_u64_def)

lemma next_u64_inj: "fst (next_u64 r) = fst (next_u64 r') \<Longrightarrow> xs_state r = xs_state r'"
  unfolding next_u64_def Let_def fst_conv
  by (drule xor_push_inj[rotated], simp, drule xor_drop_inj[rotated], simp, drule xor_push_inj[rotated], simp, assumption)

lemma next_u64_state [simp]: "xs_state (snd (next_u64 r)) = fst (next_u64 r)"
  by (simp add: next_u64_def Let_def)

lemma next_u64_nonzero: "xs_state r \<noteq> 0 \<Longrightarrow> fst (next_u64 r) \<noteq> 0"
  using next_u64_inj[of r "\<lparr>xs_state = 0\<rparr>"] next_u64_zero by auto

lemma worker_seed_eq: "worker_seed a salt = worker_seed b salt \<longleftrightarrow> a mod 2 ^ 64 = b mod 2 ^ 64"
proof -
  have "(0x9e3779b97f4a7c15 :: u64) * 0xf1de83e19937733d = 1" by simp
  then have inv: "x * 0x9e3779b97f4a7c15 * 0xf1de83e19937733d = x" for x :: u64 by (simp only: mult.assoc mult_1_right)
  have x: "u XOR v XOR w = u XOR v' XOR w \<longleftrightarrow> v = v'" for u v v' w :: u64
    by (auto simp: bit_eq_iff bit_xor_iff)
  have "worker_seed a salt = worker_seed b salt \<longleftrightarrow>
      (word_of_nat a + 1) * (0x9e3779b97f4a7c15 :: u64) = (word_of_nat b + 1) * 0x9e3779b97f4a7c15"
    unfolding worker_seed_def Let_def x ..
  also have "\<dots> \<longleftrightarrow> (word_of_nat a + 1 :: u64) = word_of_nat b + 1" using inv by metis
  also have "\<dots> \<longleftrightarrow> (word_of_nat a :: u64) = word_of_nat b" by simp
  also have "\<dots> \<longleftrightarrow> a mod 2 ^ 64 = b mod 2 ^ 64" by (simp add: word_of_nat_eq_iff take_bit_eq_mod)
  finally show ?thesis .
qed

text \<open>
  The xorshift generator permutes the states other than zero, a generator never starts at or
  reaches zero, and two workers draw from the same seed only if their numbers agree as 64-bit words.
\<close>

theorem generator_permutes:
  "bij_betw (\<lambda>x. fst (next_u64 \<lparr>xs_state = x\<rparr>)) (- {0}) (- {0}) \<and> xs_state (((snd \<circ> next_u64) ^^ n) (xorshift_new seed)) \<noteq> 0
   \<and> (worker_seed a salt = worker_seed b salt \<longleftrightarrow> a mod 2 ^ 64 = b mod 2 ^ 64)"
proof (intro conjI worker_seed_eq)
  let ?f = "\<lambda>x. fst (next_u64 \<lparr>xs_state = x\<rparr>)"
  have i: "inj_on ?f (- {0})" using next_u64_inj by (intro inj_onI) fastforce
  moreover have "?f ` (- {0}) \<subseteq> - {0}" using next_u64_nonzero[of "\<lparr>xs_state = x\<rparr>" for x] by force
  ultimately show "bij_betw ?f (- {0}) (- {0})" using endo_inj_surj[of "- {0}" ?f] by (simp add: bij_betw_def)
  show "xs_state (((snd \<circ> next_u64) ^^ n) (xorshift_new seed)) \<noteq> 0"
    by (induction n) (simp_all add: xorshift_new_def next_u64_nonzero)
qed

section \<open>The reservoir\<close>

definition sampled :: "u64 list \<Rightarrow> nat \<Rightarrow> latency_sampler \<Rightarrow> bool" where
  "sampled ls capacity s \<longleftrightarrow> unat (ls_seen s) = min (length ls) (2 ^ 64 - 1) \<and> ls_capacity s = capacity
     \<and> length (ls_values s) = min (length ls) capacity \<and> mset (ls_values s) \<subseteq># mset ls \<and> (length ls \<le> capacity \<longrightarrow> ls_values s = ls)"

lemma sampled_record:
  assumes "sampled ls capacity s"
  shows "sampled (ls @ [x]) capacity (sampler_record x s)"
proof (cases "length (ls_values s) < capacity")
  case True
  then have "length ls < capacity" using assms by (auto simp: sampled_def)
  then show ?thesis using assms True
    by (auto simp: sampled_def sampler_record_def Let_def unat_saturating_add min_def)
next
  case full: False
  have seen: "unat (saturating_add (ls_seen s) 1) = min (length (ls @ [x])) (2 ^ 64 - 1)"
    using assms by (auto simp: sampled_def unat_saturating_add min_def)
  have len: "length (ls_values s) = capacity" "capacity \<le> length ls" using full assms by (auto simp: sampled_def)
  have m: "mset (ls_values s) \<subseteq># mset (ls @ [x])" using assms by (simp add: sampled_def subset_mset.order_trans[OF _ mset_subset_eq_add_left, of _ "mset ls" "{#x#}", simplified])
  have "mset ((ls_values s)[i := x]) \<subseteq># mset (ls @ [x])" if "i < capacity" for i
  proof -
    have "mset ((ls_values s)[i := x]) = add_mset x (mset (ls_values s) - {#ls_values s ! i#})" using that len by (simp add: mset_update)
    also have "\<dots> \<subseteq># add_mset x (mset ls)"
      using assms subset_mset.order_trans[OF diff_subset_eq_self] by (auto simp: sampled_def)
    finally show ?thesis by simp
  qed
  then show ?thesis using assms full seen len m
    by (auto simp: sampled_def sampler_record_def Let_def split: prod.splits)
qed

text \<open>
  After any recordings the sampler has counted them (until its counter saturates) and holds as
  many of them as its capacity allows: all of them in order until it is full, then a selection in
  which no recording occurs more often than it was made.
\<close>

theorem reservoir_holds_samples:
  "let s = fold sampler_record ls (sampler_new seed capacity) in
     unat (ls_seen s) = min (length ls) (2 ^ 64 - 1) \<and> length (into_values s) = min (length ls) capacity
     \<and> mset (into_values s) \<subseteq># mset ls \<and> (into_values s = ls \<or> capacity < length ls)"
proof -
  have "sampled ls capacity (fold sampler_record ls (sampler_new seed capacity))"
  proof (induction ls rule: rev_induct)
    case Nil
    then show ?case by (simp add: sampled_def sampler_new_def)
  next
    case (snoc x ls)
    then show ?case using sampled_record by simp
  qed
  then show ?thesis by (auto simp: Let_def sampled_def into_values_def)
qed

section \<open>Nearest rank\<close>

lemma count_le_take:
  assumes "sorted xs" "r < length xs"
  shows "r + 1 \<le> length (filter (\<lambda>x. x \<le> xs ! r) xs)" "w < xs ! r \<Longrightarrow> length (filter (\<lambda>x. x \<le> w) xs) \<le> r"
proof -
  have split: "length (filter P xs) = length (filter P (take k xs)) + length (filter P (drop k xs))" for P k
    by (metis append_take_drop_id filter_append length_append)
  have "\<forall>x \<in> set (take (r + 1) xs). x \<le> xs ! r"
    using assms by (auto simp: in_set_conv_nth sorted_iff_nth_mono)
  then have "filter (\<lambda>x. x \<le> xs ! r) (take (r + 1) xs) = take (r + 1) xs" by (simp add: filter_id_conv)
  then show "r + 1 \<le> length (filter (\<lambda>x. x \<le> xs ! r) xs)" using split[of _ "r + 1"] assms(2) by simp
  assume w: "w < xs ! r"
  have "\<forall>x \<in> set (drop r xs). \<not> x \<le> w" 
  proof (intro ballI)
    fix x assume "x \<in> set (drop r xs)"
    then obtain k where "x = xs ! (r + k)" "r + k < length xs" by (auto simp: in_set_conv_nth)
    then have "xs ! r \<le> x" using assms(1) by (simp add: sorted_iff_nth_mono)
    then show "\<not> x \<le> w" using w by simp
  qed
  then have "filter (\<lambda>x. x \<le> w) (drop r xs) = []" by (simp add: filter_empty_conv)
  then show "length (filter (\<lambda>x. x \<le> w) xs) \<le> r"
    using split[of "\<lambda>x. x \<le> w" r] length_filter_le[of "\<lambda>x. x \<le> w" "take r xs"] by simp
qed

lemma length_filter_sort: "length (filter P (sort xs)) = length (filter P xs)"
  by (metis mset_filter mset_sort size_mset)

text \<open>
  A percentile of a non-empty sample is its nearest-rank value: a sample value that at least the
  requested share of the samples does not exceed, and no smaller value has that property.
\<close>

theorem percentile_nearest_rank:
  assumes "1 \<le> p" "p \<le> 100" "samples \<noteq> []" "length samples * p < 2 ^ 64"
  shows "\<exists>v \<in> set samples. percentile samples p = oOk (Some v)
    \<and> p * length samples \<le> 100 * length (filter (\<lambda>x. x \<le> v) samples)
    \<and> (\<forall>w. w < v \<longrightarrow> 100 * length (filter (\<lambda>x. x \<le> w) samples) < p * length samples)"
proof -
  let ?n = "length samples * p" and ?xs = "sort samples"
  define r where "r = div_ceil ?n 100 - 1"
  have pos: "0 < ?n" using assms(1,3) by simp
  have b: "?n \<le> div_ceil ?n 100 * 100" "div_ceil ?n 100 * 100 < ?n + 100" using div_ceil_bounds[of 100 ?n] by simp_all
  then have r: "div_ceil ?n 100 = r + 1" using pos by (cases "div_ceil ?n 100") (simp_all add: r_def)
  have "r * 100 < ?n" using b(2) unfolding r by simp
  also have "\<dots> \<le> length samples * 100" using assms(2) by (rule mult_le_mono2)
  finally have lt: "r < length ?xs" by simp
  have "percentile samples p = oOk (Some (?xs ! r))" using assms lt r by (simp add: percentile_def checked_mul_u64_def Let_def)
  moreover have "?xs ! r \<in> set samples" using nth_mem[OF lt] by simp
  moreover have "?n \<le> 100 * length (filter (\<lambda>x. x \<le> ?xs ! r) samples)"
    using b(1) count_le_take(1)[OF _ lt] unfolding r length_filter_sort by simp
  moreover have "100 * length (filter (\<lambda>x. x \<le> w) samples) < ?n" if "w < ?xs ! r" for w
    using b(2) count_le_take(2)[OF _ lt that] unfolding r length_filter_sort by simp
  ultimately show ?thesis by (auto simp: mult.commute)
qed

theorem percentile_nearest_rank_witness:
  "\<exists>v \<in> set [4, 1, 3, 2 :: u64]. percentile [4, 1, 3, 2] 50 = oOk (Some v)
    \<and> 50 * 4 \<le> 100 * length (filter (\<lambda>x. x \<le> v) [4, 1, 3, 2])"
proof -
  have "1 \<le> (50::nat)" "(50::nat) \<le> 100" "[4, 1, 3, 2 :: u64] \<noteq> []" "length [4, 1, 3, 2 :: u64] * 50 < 2 ^ 64" by simp_all
  from percentile_nearest_rank[OF this] show ?thesis by auto
qed

end
