(* ===== verification/Atomic_Update.thy ===== *)
theory Atomic_Update
  imports Rust_Prelude
begin

text \<open>
  The compare-and-swap retry loop of src/crates/tierbuf/src/atomic.rs.  The macro
  \<open>define_try_update!\<close> gives the same body for \<open>AtomicU64\<close> and \<open>AtomicUsize\<close>, so the model
  is polymorphic in the value.  Other threads appear as an explicit script: one entry per
  attempt, saying what they stored in the cell between the last observation and the attempt,
  and whether the weak compare-exchange fails spuriously.  When the script is used up no other
  thread interferes any more.
\<close>

section \<open>The cell and its interference\<close>

definition compare_exchange :: "'v \<Rightarrow> 'v \<Rightarrow> 'v \<Rightarrow> ('v + 'v) \<times> 'v" where
  "compare_exchange expected replacement cell =
     (if cell = expected then (Inr cell, replacement) else (Inl cell, cell))"

datatype 'v interference = Interference (env_store: "'v option") (spurious: bool)

definition interfere :: "'v interference \<Rightarrow> 'v \<Rightarrow> 'v" where
  "interfere i cell = (case env_store i of None \<Rightarrow> cell | Some v \<Rightarrow> v)"

definition compare_exchange_weak :: "bool \<Rightarrow> 'v \<Rightarrow> 'v \<Rightarrow> 'v \<Rightarrow> ('v + 'v) \<times> 'v" where
  "compare_exchange_weak sp expected replacement cell =
     (if sp then (Inl cell, cell) else compare_exchange expected replacement cell)"

section \<open>The loop\<close>

function try_update_loop ::
  "('v \<Rightarrow> 'v option) \<Rightarrow> 'v interference list \<Rightarrow> 'v \<Rightarrow> 'v \<Rightarrow> ('v + 'v) \<times> 'v" where
  "try_update_loop update script current cell =
     (case update current of
        None \<Rightarrow> (Inl current, cell)
      | Some next \<Rightarrow>
          (case script of
             [] \<Rightarrow> (case compare_exchange_weak False current next cell of
                     (Inr previous, cell') \<Rightarrow> (Inr previous, cell')
                   | (Inl observed, cell') \<Rightarrow> try_update_loop update [] observed cell')
           | i # rest \<Rightarrow>
               (case compare_exchange_weak (spurious i) current next (interfere i cell) of
                  (Inr previous, cell') \<Rightarrow> (Inr previous, cell')
                | (Inl observed, cell') \<Rightarrow> try_update_loop update rest observed cell')))"
  by pat_completeness auto
termination
  by (relation "measures [\<lambda>(u, s, cu, ce). length s, \<lambda>(u, s, cu, ce). if cu = ce then 0 else 1]")
    (auto simp: compare_exchange_weak_def compare_exchange_def split: if_splits)

declare try_update_loop.simps [simp del]

definition try_update ::
  "('v \<Rightarrow> 'v option) \<Rightarrow> 'v interference list \<Rightarrow> 'v \<Rightarrow> ('v + 'v) \<times> 'v" where
  "try_update update script cell = try_update_loop update script cell cell"

text \<open>The reference: one indivisible read-modify-write.\<close>

definition atomic_update :: "('v \<Rightarrow> 'v option) \<Rightarrow> 'v \<Rightarrow> ('v + 'v) \<times> 'v" where
  "atomic_update update cell =
     (case update cell of None \<Rightarrow> (Inl cell, cell) | Some next \<Rightarrow> (Inr cell, next))"

text \<open>The value other threads have left in the cell after the first entries of the script.\<close>

definition cell_after :: "'v interference list \<Rightarrow> 'v \<Rightarrow> 'v" where
  "cell_after script cell = foldl (\<lambda>c i. interfere i c) cell script"

lemma cell_after_simps [simp]:
  "cell_after [] c = c" "cell_after (i # s) c = cell_after s (interfere i c)"
  by (simp_all add: cell_after_def)

section \<open>Linearisation\<close>

lemma try_update_loop_None:
  "update current = None \<Longrightarrow> try_update_loop update script current cell = (Inl current, cell)"
  by (simp add: try_update_loop.simps)

lemma try_update_loop_Nil:
  "update current = Some nxt \<Longrightarrow>
   try_update_loop update [] current cell = (if cell = current then (Inr current, nxt)
     else try_update_loop update [] cell cell)"
  by (simp add: try_update_loop.simps[of _ _ current] compare_exchange_weak_def compare_exchange_def)

lemma try_update_loop_Cons:
  "update current = Some nxt \<Longrightarrow>
   try_update_loop update (i # rest) current cell =
     (if \<not> spurious i \<and> interfere i cell = current then (Inr current, nxt)
      else try_update_loop update rest (interfere i cell) (interfere i cell))"
  by (auto simp: try_update_loop.simps[of _ _ current] compare_exchange_weak_def compare_exchange_def)

lemma try_update_loop_quiet: "try_update_loop update [] cell cell = atomic_update update cell"
  by (cases "update cell") (simp_all add: try_update_loop_None try_update_loop_Nil atomic_update_def)

lemma try_update_loop_linearises:
  "\<exists>k \<le> length script. try_update_loop update script cell cell
      = atomic_update update (cell_after (take k script) cell)" (is ?same)
  "update current \<noteq> None \<Longrightarrow> \<exists>k \<le> length script. try_update_loop update script current cell
      = atomic_update update (cell_after (take k script) cell)"
proof -
  have gen: "update current \<noteq> None \<Longrightarrow> \<exists>k \<le> length script. try_update_loop update script current cell
      = atomic_update update (cell_after (take k script) cell)" for current cell
  proof (induction script arbitrary: current cell)
    case Nil
    then show ?case
      by (auto simp: try_update_loop_Nil try_update_loop_quiet atomic_update_def)
  next
    case (Cons i rest)
    then obtain nxt where upd: "update current = Some nxt" by auto
    show ?case
    proof (cases "\<not> spurious i \<and> interfere i cell = current")
      case True
      with upd show ?thesis
        by (intro exI[of _ 1]) (simp add: try_update_loop_Cons atomic_update_def)
    next
      case False
      let ?c = "interfere i cell"
      have "\<exists>k \<le> length rest. try_update_loop update rest ?c ?c
          = atomic_update update (cell_after (take k rest) ?c)"
      proof (cases "update ?c")
        case None
        then show ?thesis
          by (intro exI[of _ 0]) (simp add: try_update_loop_None atomic_update_def)
      qed (rule Cons.IH, simp)
      then obtain k where "k \<le> length rest" "try_update_loop update rest ?c ?c
          = atomic_update update (cell_after (take k rest) ?c)" by blast
      with False upd show ?thesis
        by (intro exI[of _ "Suc k"]) (auto simp: try_update_loop_Cons)
    qed
  qed
  show ?same
  proof (cases "update cell")
    case None
    then show ?thesis
      by (intro exI[of _ 0]) (simp add: try_update_loop_None atomic_update_def)
  qed (rule gen, simp)
  show "update current \<noteq> None \<Longrightarrow> \<exists>k \<le> length script. try_update_loop update script current cell
      = atomic_update update (cell_after (take k script) cell)"
    by (rule gen)
qed

text \<open>
  C36. The retry loop is linearisable: whatever other threads store in the cell and however
  often the weak compare-exchange fails, the call returns, and its result and the final value
  of the cell are those of one indivisible update of a value the cell held during the call;
  nothing another thread stored before that point is overwritten unseen.
\<close>

theorem try_update_linearisable:
  "\<exists>k \<le> length script. try_update update script cell
      = atomic_update update (cell_after (take k script) cell)"
  unfolding try_update_def by (rule try_update_loop_linearises)

end
