(* ===== verification/Swip.thy ===== *)
theory Swip
  imports Atomic_Update
begin

text \<open>
  Tagged page handles: src/crates/tierbuf/src/swip.rs.  A \<open>Swip\<close> is an \<open>Arc\<close> of one
  \<open>SwipInner\<close>; the record below is that cell.  Handle identity (\<open>Arc::ptr_eq\<close>) is modelled
  where handles are shared, in the pool, by the address of the cell in an explicit store.
  An operation whose assertion fails returns \<open>None\<close> here; the pool turns that into a panic.
\<close>

section \<open>Tags and page identifiers\<close>

type_synonym page_id = u64
type_synonym resident_addr = u64

definition TAG_EVICTED :: u64 where "TAG_EVICTED = 1"
definition TAG_COOLING :: u64 where "TAG_COOLING = 2"
definition TAG_MASK :: u64 where "TAG_MASK = 3"
definition PAGE_ID_MASK :: u64 where "PAGE_ID_MASK = drop_bit 2 u64_max"

definition PID_INVALID :: page_id where "PID_INVALID = PAGE_ID_MASK"
definition PID_MAX :: u64 where "PID_MAX = PAGE_ID_MASK - 1"

definition page_id_new :: "u64 \<Rightarrow> page_id option" where
  "page_id_new value = (if value \<le> PID_MAX then Some value else None)"

definition pid_is_valid :: "page_id \<Rightarrow> bool" where
  "pid_is_valid pid \<longleftrightarrow> pid \<le> PID_MAX"

section \<open>Resident addresses\<close>

text \<open>\<open>ResidentAddr::from_non_null\<close>: both assertions.\<close>

definition resident_from_non_null :: "u64 \<Rightarrow> resident_addr option" where
  "resident_from_non_null address =
     (if address = 0 then None
      else if address AND TAG_MASK \<noteq> 0 then None
      else Some address)"

definition resident_from_encoded :: "u64 \<Rightarrow> resident_addr option" where
  "resident_from_encoded encoded =
     (if encoded = 0 then None
      else if encoded AND TAG_MASK \<noteq> 0 then None
      else Some encoded)"

definition addr_ok :: "u64 \<Rightarrow> bool" where
  "addr_ok a \<longleftrightarrow> a \<noteq> 0 \<and> a AND TAG_MASK = 0"

section \<open>The tagged word\<close>

datatype swip_state = Hot resident_addr | Cooling resident_addr | Evicted page_id

record swip_inner =
  sw_pid :: page_id
  sw_owner_id :: u64
  sw_word :: u64

definition encode_evicted :: "page_id \<Rightarrow> u64 option" where
  "encode_evicted pid = (if pid_is_valid pid then Some (push_bit 2 pid OR TAG_EVICTED) else None)"

definition encode_hot :: "resident_addr \<Rightarrow> u64" where
  "encode_hot resident = resident"

definition encode_cooling :: "resident_addr \<Rightarrow> u64" where
  "encode_cooling resident = resident OR TAG_COOLING"

definition decode :: "u64 \<Rightarrow> swip_state option" where
  "decode encoded =
     (if encoded AND TAG_MASK = 0 then map_option Hot (resident_from_encoded encoded)
      else if encoded AND TAG_MASK = TAG_COOLING
           then map_option Cooling (resident_from_encoded (encoded AND NOT TAG_MASK))
      else if encoded AND TAG_MASK = TAG_EVICTED
           then (let pid = drop_bit 2 encoded in if pid_is_valid pid then Some (Evicted pid) else None)
      else None)"

section \<open>Operations\<close>

definition swip_from_pid :: "page_id \<Rightarrow> swip_inner option" where
  "swip_from_pid pid =
     (if pid_is_valid pid
      then map_option (\<lambda>w. \<lparr>sw_pid = pid, sw_owner_id = 0, sw_word = w\<rparr>) (encode_evicted pid)
      else None)"

definition swip_load :: "swip_inner \<Rightarrow> swip_state option" where
  "swip_load s = decode (sw_word s)"

definition try_bind_owner :: "swip_inner \<Rightarrow> u64 \<Rightarrow> (bool \<times> swip_inner) option" where
  "try_bind_owner s owner_id =
     (if owner_id = 0 then None
      else case compare_exchange 0 owner_id (sw_owner_id s) of
             (Inr _, w) \<Rightarrow> Some (True, s\<lparr>sw_owner_id := w\<rparr>)
           | (Inl _, w) \<Rightarrow> Some (False, s\<lparr>sw_owner_id := w\<rparr>))"

definition belongs_to :: "swip_inner \<Rightarrow> u64 \<Rightarrow> bool" where
  "belongs_to s owner_id \<longleftrightarrow> owner_id \<noteq> 0 \<and> sw_owner_id s = owner_id"

definition swip_compare_exchange ::
  "swip_inner \<Rightarrow> u64 \<Rightarrow> u64 \<Rightarrow> ((swip_state + unit) \<times> swip_inner) option" where
  "swip_compare_exchange s expected replacement =
     (case compare_exchange expected replacement (sw_word s) of
        (Inr _, w) \<Rightarrow> Some (Inr (), s\<lparr>sw_word := w\<rparr>)
      | (Inl observed, w) \<Rightarrow> map_option (\<lambda>d. (Inl d, s\<lparr>sw_word := w\<rparr>)) (decode observed))"

definition try_swizzle ::
  "swip_inner \<Rightarrow> page_id \<Rightarrow> resident_addr \<Rightarrow> ((swip_state + unit) \<times> swip_inner) option" where
  "try_swizzle s expected_pid resident =
     (case encode_evicted expected_pid of
        None \<Rightarrow> None
      | Some e \<Rightarrow> swip_compare_exchange s e (encode_hot resident))"

definition try_mark_cooling ::
  "swip_inner \<Rightarrow> resident_addr \<Rightarrow> ((swip_state + unit) \<times> swip_inner) option" where
  "try_mark_cooling s expected_resident =
     swip_compare_exchange s (encode_hot expected_resident) (encode_cooling expected_resident)"

definition try_resurrect ::
  "swip_inner \<Rightarrow> resident_addr \<Rightarrow> ((swip_state + unit) \<times> swip_inner) option" where
  "try_resurrect s expected_resident =
     swip_compare_exchange s (encode_cooling expected_resident) (encode_hot expected_resident)"

definition try_unswizzle ::
  "swip_inner \<Rightarrow> resident_addr \<Rightarrow> page_id \<Rightarrow> ((swip_state + unit) \<times> swip_inner) option" where
  "try_unswizzle s expected_resident pid =
     (case encode_evicted pid of
        None \<Rightarrow> None
      | Some e \<Rightarrow> swip_compare_exchange s (encode_cooling expected_resident) e)"

section \<open>Bit-level facts\<close>

lemma tag_values [simp]: "TAG_MASK = mask 2" "TAG_EVICTED = 1" "TAG_COOLING = 2"
  by (simp_all add: TAG_MASK_def TAG_EVICTED_def TAG_COOLING_def mask_eq_exp_minus_1)

lemma PAGE_ID_MASK_eq: "PAGE_ID_MASK = mask 62"
  by (rule bit_word_eqI) (auto simp: PAGE_ID_MASK_def u64_max_def bit_simps)

lemma PAGE_ID_MASK_value: "PAGE_ID_MASK = 0x3FFFFFFFFFFFFFFF"
  by (simp add: PAGE_ID_MASK_eq mask_eq_exp_minus_1)

lemma pid_is_valid_iff: "pid_is_valid p \<longleftrightarrow> unat p < 2 ^ 62 - 1"
  by (simp add: pid_is_valid_def PID_MAX_def PAGE_ID_MASK_value word_le_nat_alt)
    linarith

lemma pid_valid_bits: "pid_is_valid p \<Longrightarrow> take_bit 62 p = p"
  by (simp add: pid_is_valid_iff word_unat_eq_iff unsigned_take_bit_eq take_bit_nat_eq_self)

lemma pid_valid_high: "pid_is_valid p \<Longrightarrow> bit p n \<Longrightarrow> n < 62"
  by (metis bit_take_bit_iff pid_valid_bits)

lemma PID_INVALID_not_valid [simp]: "\<not> pid_is_valid PID_INVALID"
  by (simp add: pid_is_valid_def PID_INVALID_def PID_MAX_def PAGE_ID_MASK_value)

lemma less_2_cases_bit: "(n::nat) < 2 \<longleftrightarrow> n = 0 \<or> n = 1"
  by auto

lemma low_bits_eq:
  fixes w c :: u64
  assumes "\<And>n. bit c n \<Longrightarrow> n < 2"
  shows "w AND mask 2 = c \<longleftrightarrow> bit w 0 = bit c 0 \<and> bit w 1 = bit c 1"
proof
  assume e: "w AND mask 2 = c"
  have "bit (w AND mask 2) n \<longleftrightarrow> bit w n" if "n < 2" for n
    using that by (simp add: bit_simps)
  from this[of 0] this[of 1] show "bit w 0 = bit c 0 \<and> bit w 1 = bit c 1"
    unfolding e by simp
next
  assume e: "bit w 0 = bit c 0 \<and> bit w 1 = bit c 1"
  have "bit (w AND mask 2) n = bit c n" for n
  proof (cases "n < 2")
    case True
    then have "n = 0 \<or> n = 1" by auto
    with e show ?thesis by (auto simp: bit_simps)
  next
    case False
    with assms[of n] show ?thesis by (auto simp: bit_simps)
  qed
  then show "w AND mask 2 = c" by (intro bit_word_eqI)
qed

lemma bit_2_u64: "bit (2 :: u64) n \<longleftrightarrow> n = 1"
proof -
  have two: "(2 :: u64) = push_bit 1 1" by simp
  show ?thesis unfolding two by (auto simp: bit_simps)
qed

lemma and_tag_eq_0: "(w :: u64) AND mask 2 = 0 \<longleftrightarrow> \<not> bit w 0 \<and> \<not> bit w 1"
  by (subst low_bits_eq) simp_all

lemma and_tag_eq_1: "(w :: u64) AND mask 2 = 1 \<longleftrightarrow> bit w 0 \<and> \<not> bit w 1"
  by (subst low_bits_eq) (simp_all add: bit_1_iff)

lemma and_tag_eq_2: "(w :: u64) AND mask 2 = 2 \<longleftrightarrow> \<not> bit w 0 \<and> bit w 1"
proof -
  have two: "n < 2" if "bit (2 :: u64) n" for n using that unfolding bit_2_u64 by simp
  show ?thesis using low_bits_eq[of 2 w, OF two] unfolding bit_2_u64 by simp
qed

lemmas tag_bits = and_tag_eq_0 and_tag_eq_1 and_tag_eq_2

lemma addr_ok_bits: "addr_ok a \<longleftrightarrow> a \<noteq> 0 \<and> \<not> bit a 0 \<and> \<not> bit a 1"
  by (simp add: addr_ok_def and_tag_eq_0)

lemma resident_from_encoded_ok: "addr_ok a \<Longrightarrow> resident_from_encoded a = Some a"
  by (simp add: resident_from_encoded_def addr_ok_def)

lemma resident_from_encoded_SomeD: "resident_from_encoded a = Some b \<Longrightarrow> b = a \<and> addr_ok a"
  by (auto simp: resident_from_encoded_def addr_ok_def split: if_splits)

lemma bit_encode_cooling: "bit (encode_cooling a) n \<longleftrightarrow> bit a n \<or> n = 1"
  by (auto simp: encode_cooling_def bit_simps bit_2_u64)

lemma encode_cooling_clear: "addr_ok a \<Longrightarrow> encode_cooling a AND NOT (mask 2) = a"
proof (rule bit_word_eqI)
  fix n assume a: "addr_ok a" and n: "n < LENGTH(64)"
  show "bit (encode_cooling a AND NOT (mask 2)) n = bit a n"
  proof (cases "n < 2")
    case True
    then have "n = 0 \<or> n = 1" by auto
    with a show ?thesis by (auto simp: bit_simps addr_ok_bits)
  next
    case False
    with n show ?thesis by (auto simp: bit_simps bit_encode_cooling)
  qed
qed

lemma decode_encode_hot: "addr_ok a \<Longrightarrow> decode (encode_hot a) = Some (Hot a)"
  by (simp add: decode_def encode_hot_def resident_from_encoded_ok)
    (simp add: addr_ok_def)

lemma decode_encode_cooling:
  assumes "addr_ok a"
  shows "decode (encode_cooling a) = Some (Cooling a)"
proof -
  have "encode_cooling a AND mask 2 = 2"
    using assms by (simp add: and_tag_eq_2 bit_encode_cooling addr_ok_bits)
  then show ?thesis
    using assms by (simp add: decode_def encode_cooling_clear resident_from_encoded_ok)
qed

lemma encode_evicted_eq: "pid_is_valid p \<Longrightarrow> encode_evicted p = Some (push_bit 2 p OR 1)"
  by (simp add: encode_evicted_def)

lemma decode_encode_evicted:
  assumes "pid_is_valid p"
  shows "decode (push_bit 2 p OR 1) = Some (Evicted p)"
proof -
  let ?w = "push_bit 2 p OR 1"
  have tag: "?w AND mask 2 = 1"
    by (simp add: and_tag_eq_1 bit_simps)
  have "bit (drop_bit 2 ?w) n = bit p n" if "n < 64" for n
    using that pid_valid_high[OF assms, of n] by (auto simp: bit_simps)
  then have "drop_bit 2 ?w = p" by (intro bit_word_eqI) simp
  with tag assms show ?thesis by (simp add: decode_def)
qed

text \<open>Decoding is injective: every word that decodes is the encoding of its state.\<close>

fun encode_state :: "swip_state \<Rightarrow> u64" where
  "encode_state (Hot a) = encode_hot a"
| "encode_state (Cooling a) = encode_cooling a"
| "encode_state (Evicted p) = push_bit 2 p OR 1"

fun state_ok :: "swip_state \<Rightarrow> bool" where
  "state_ok (Hot a) = addr_ok a"
| "state_ok (Cooling a) = addr_ok a"
| "state_ok (Evicted p) = pid_is_valid p"

lemma decode_encode_state: "state_ok st \<Longrightarrow> decode (encode_state st) = Some st"
  by (cases st) (simp_all add: decode_encode_hot decode_encode_cooling decode_encode_evicted)

lemma cooling_word_rebuild: "w AND mask 2 = 2 \<Longrightarrow> encode_cooling (w AND NOT (mask 2)) = w" for w :: u64
  by (rule bit_word_eqI) (auto simp: bit_encode_cooling bit_simps and_tag_eq_2 less_2_cases_bit intro: gr0I)

lemma evicted_word_rebuild:
  fixes w :: u64
  assumes "w AND mask 2 = 1"
  shows "push_bit 2 (drop_bit 2 w) OR 1 = w"
proof (rule bit_word_eqI)
  fix n assume n: "n < LENGTH(64)"
  show "bit (push_bit 2 (drop_bit 2 w) OR 1) n = bit w n"
  proof (cases "n < 2")
    case True
    then have "n = 0 \<or> n = 1" by auto
    with assms show ?thesis by (auto simp: bit_simps and_tag_eq_1)
  next
    case False
    then obtain m where "n = Suc (Suc m)" by (metis less_2_cases_iff not0_implies_Suc)
    with n show ?thesis by (auto simp: bit_simps)
  qed
qed

lemma decode_SomeD:
  assumes "decode w = Some st"
  shows "w = encode_state st \<and> state_ok st"
proof -
  consider "w AND mask 2 = 0" | "w AND mask 2 = 2" | "w AND mask 2 = 1"
    using assms by (auto simp: decode_def split: if_splits)
  then show ?thesis
  proof cases
    case 1
    with assms show ?thesis
      by (auto simp: decode_def encode_hot_def dest!: resident_from_encoded_SomeD)
  next
    case 2
    with assms show ?thesis
      by (auto simp: decode_def cooling_word_rebuild dest!: resident_from_encoded_SomeD)
  next
    case 3
    with assms show ?thesis
      by (auto simp: decode_def evicted_word_rebuild Let_def split: if_splits)
  qed
qed

lemma encode_state_inject: "state_ok a \<Longrightarrow> state_ok b \<Longrightarrow> encode_state a = encode_state b \<longleftrightarrow> a = b"
  by (metis decode_encode_state option.inject)

section \<open>Each operation is one exact transition\<close>

definition swip_wf :: "swip_inner \<Rightarrow> bool" where
  "swip_wf s \<longleftrightarrow> pid_is_valid (sw_pid s) \<and> decode (sw_word s) \<noteq> None"

lemma swip_wfE:
  assumes "swip_wf s"
  obtains st where "swip_load s = Some st" "sw_word s = encode_state st" "state_ok st"
  using assms decode_SomeD by (fastforce simp: swip_wf_def swip_load_def)

lemma swip_load_update [simp]: "swip_load (s\<lparr>sw_word := w\<rparr>) = decode w"
  by (simp add: swip_load_def)

text \<open>The common shape of the four transitions: exactly \<open>from\<close> becomes \<open>to\<close>.\<close>

definition exact_cas ::
  "swip_inner \<Rightarrow> swip_state \<Rightarrow> swip_state \<Rightarrow> ((swip_state + unit) \<times> swip_inner) option" where
  "exact_cas s from to =
     (case swip_load s of
        None \<Rightarrow> None
      | Some st \<Rightarrow> Some (if st = from then (Inr (), s\<lparr>sw_word := encode_state to\<rparr>) else (Inl st, s)))"

lemma swip_compare_exchange_exact:
  assumes "swip_wf s" "state_ok from"
  shows "swip_compare_exchange s (encode_state from) (encode_state to) = exact_cas s from to"
proof -
  obtain st where st: "swip_load s = Some st" "sw_word s = encode_state st" "state_ok st"
    using assms(1) by (rule swip_wfE)
  then show ?thesis
    using assms(2) by (auto simp: swip_compare_exchange_def compare_exchange_def exact_cas_def
        encode_state_inject decode_encode_state)
qed

lemma try_swizzle_exact:
  "swip_wf s \<Longrightarrow> pid_is_valid p \<Longrightarrow> try_swizzle s p a = exact_cas s (Evicted p) (Hot a)"
  using swip_compare_exchange_exact[of s "Evicted p" "Hot a"]
  by (simp add: try_swizzle_def encode_evicted_eq)

lemma try_mark_cooling_exact:
  "swip_wf s \<Longrightarrow> addr_ok a \<Longrightarrow> try_mark_cooling s a = exact_cas s (Hot a) (Cooling a)"
  using swip_compare_exchange_exact[of s "Hot a" "Cooling a"]
  by (simp add: try_mark_cooling_def)

lemma try_resurrect_exact:
  "swip_wf s \<Longrightarrow> addr_ok a \<Longrightarrow> try_resurrect s a = exact_cas s (Cooling a) (Hot a)"
  using swip_compare_exchange_exact[of s "Cooling a" "Hot a"]
  by (simp add: try_resurrect_def)

lemma try_unswizzle_exact:
  "swip_wf s \<Longrightarrow> addr_ok a \<Longrightarrow> pid_is_valid p \<Longrightarrow>
   try_unswizzle s a p = exact_cas s (Cooling a) (Evicted p)"
  using swip_compare_exchange_exact[of s "Cooling a" "Evicted p"]
  by (simp add: try_unswizzle_def encode_evicted_eq)

lemmas swip_exact = try_swizzle_exact try_mark_cooling_exact try_resurrect_exact try_unswizzle_exact

lemma exact_cas_wf:
  assumes "swip_wf s" "state_ok to" "exact_cas s from to = Some (r, s')"
  shows "swip_wf s'" and "sw_pid s' = sw_pid s" and "sw_owner_id s' = sw_owner_id s"
  using assms by (auto simp: exact_cas_def swip_wf_def decode_encode_state split: option.splits if_splits)

section \<open>The page-handle state machine\<close>

text \<open>
  Every thread may apply any of the four transitions at any time with any arguments; a run of
  a handle is a sequence of such attempts, successful or not.
\<close>

datatype swip_op =
  Swizzle page_id resident_addr | MarkCooling resident_addr
| Resurrect resident_addr | Unswizzle resident_addr page_id

fun run_op :: "swip_inner \<Rightarrow> swip_op \<Rightarrow> ((swip_state + unit) \<times> swip_inner) option" where
  "run_op s (Swizzle p a) = try_swizzle s p a"
| "run_op s (MarkCooling a) = try_mark_cooling s a"
| "run_op s (Resurrect a) = try_resurrect s a"
| "run_op s (Unswizzle a p) = try_unswizzle s a p"

fun op_ok :: "swip_op \<Rightarrow> bool" where
  "op_ok (Swizzle p a) = (pid_is_valid p \<and> addr_ok a)"
| "op_ok (MarkCooling a) = addr_ok a"
| "op_ok (Resurrect a) = addr_ok a"
| "op_ok (Unswizzle a p) = (addr_ok a \<and> pid_is_valid p)"

text \<open>The transitions listed in docs/architecture.md, on decoded states.\<close>

inductive legal :: "swip_state \<Rightarrow> swip_state \<Rightarrow> bool" where
  fault_in: "legal (Evicted p) (Hot a)"
| cool: "legal (Hot a) (Cooling a)"
| resurrect: "legal (Cooling a) (Hot a)"
| evict: "legal (Cooling a) (Evicted p)"

inductive_simps legal_from_hot: "legal (Hot a) st"
inductive_simps legal_to_evicted: "legal st (Evicted p)"

lemma run_op_exact:
  assumes "swip_wf s" "op_ok x"
  obtains src dst where "run_op s x = exact_cas s src dst" "legal src dst" "state_ok dst"
  using assms by (cases x) (auto simp: swip_exact intro: legal.intros that)

lemma run_op_cases:
  assumes "swip_wf s" "op_ok x"
  obtains st where "swip_load s = Some st" "run_op s x = Some (Inl st, s)"
  | st st' where "swip_load s = Some st" "legal st st'" "state_ok st'"
      "run_op s x = Some (Inr (), s\<lparr>sw_word := encode_state st'\<rparr>)"
proof -
  obtain st where st: "swip_load s = Some st" using assms(1) by (rule swip_wfE)
  obtain src dst where r: "run_op s x = exact_cas s src dst" "legal src dst" "state_ok dst"
    using assms by (rule run_op_exact)
  show ?thesis
  proof (cases "st = src")
    case True
    with r st show ?thesis by (intro that(2)[of st dst]) (simp_all add: exact_cas_def)
  next
    case False
    with r st show ?thesis by (intro that(1)[of st]) (simp_all add: exact_cas_def)
  qed
qed

text \<open>
  A page identifier survives its round trip through the tagged word: a handle made for a
  valid identifier decodes to \<open>Evicted\<close> of exactly that identifier, and only \<open>PageId::INVALID\<close>
  and larger values are refused.
\<close>

theorem swip_from_pid_roundtrip:
  "(case swip_from_pid pid of
      Some s \<Rightarrow> pid_is_valid pid \<and> sw_pid s = pid \<and> swip_load s = Some (Evicted pid)
    | None \<Rightarrow> PID_INVALID \<le> pid)"
proof (cases "pid_is_valid pid")
  case True
  then show ?thesis
    by (simp add: swip_from_pid_def encode_evicted_eq swip_load_def decode_encode_evicted)
next
  case False
  then have "PID_MAX < pid" by (simp add: pid_is_valid_def)
  then have "PID_INVALID \<le> pid"
    by (simp add: PID_INVALID_def PID_MAX_def PAGE_ID_MASK_value word_less_nat_alt word_le_nat_alt)
  with False show ?thesis by (simp add: swip_from_pid_def)
qed



end
