(* ===== verification/Hybrid_Latch.thy ===== *)
theory Hybrid_Latch
  imports Atomic_Update
begin

text \<open>
  The hybrid latch of src/crates/tierbuf/src/latch.rs: one 64-bit word holding a 48-bit version
  and a 16-bit state (0 free, \<open>u16::MAX\<close> exclusive, otherwise the number of shared holders).
  The first half defines the operations on the word, with the other threads' stores between a
  load and the following compare-exchange as explicit interference; the second half is the
  concurrent semantics: any interleaving of acquisitions, upgrades and releases by any number
  of guards.
\<close>

section \<open>The word\<close>

definition STATE_BITS :: nat where "STATE_BITS = 16"
definition STATE_MASK :: u64 where "STATE_MASK = 0xFFFF"
definition VERSION_MASK :: u64 where "VERSION_MASK = push_bit 48 1 - 1"
definition EXCLUSIVE_STATE :: u16 where "EXCLUSIVE_STATE = - 1"
definition MAX_SHARED :: u16 where "MAX_SHARED = EXCLUSIVE_STATE - 1"
definition SPIN_LIMIT :: nat where "SPIN_LIMIT = 64"

definition latch_state :: "u64 \<Rightarrow> u16" where
  "latch_state word = ucast (word AND STATE_MASK)"

definition latch_version :: "u64 \<Rightarrow> u64" where
  "latch_version word = drop_bit STATE_BITS word"

definition with_state :: "u64 \<Rightarrow> u16 \<Rightarrow> u64" where
  "with_state word new_state = (word AND NOT STATE_MASK) OR ucast new_state"

definition latch_pack :: "u64 \<Rightarrow> u16 \<Rightarrow> u64" where
  "latch_pack version state = push_bit STATE_BITS (version AND VERSION_MASK) OR ucast state"

section \<open>Operations\<close>

definition latch_new :: u64 where
  "latch_new = 0"

datatype contended = LatchContended

definition optimistic :: "u64 \<Rightarrow> contended + u64" where
  "optimistic word =
     (if latch_state word = EXCLUSIVE_STATE then Inl LatchContended else Inr (latch_version word))"

definition validate :: "u64 \<Rightarrow> u64 \<Rightarrow> bool" where
  "validate word snapshot =
     (if VERSION_MASK < snapshot then False
      else latch_state word \<noteq> EXCLUSIVE_STATE \<and> latch_version word = snapshot)"

text \<open>One attempt: \<open>i\<close> is what happens to the word between the load and the compare-exchange.\<close>

definition try_lock_shared_once :: "u64 interference \<Rightarrow> u64 \<Rightarrow> bool \<times> u64" where
  "try_lock_shared_once i word =
     (let current = word in
      if MAX_SHARED \<le> latch_state current then (False, interfere i word)
      else case compare_exchange_weak (spurious i) current (current + 1) (interfere i word) of
             (Inr _, w) \<Rightarrow> (True, w)
           | (Inl _, w) \<Rightarrow> (False, w))"

definition try_lock_exclusive_once :: "u64 interference \<Rightarrow> u64 \<Rightarrow> bool \<times> u64" where
  "try_lock_exclusive_once i word =
     (let current = word in
      if latch_state current = 0
      then case compare_exchange_weak (spurious i) current (with_state current EXCLUSIVE_STATE)
                  (interfere i word) of
             (Inr _, w) \<Rightarrow> (True, w)
           | (Inl _, w) \<Rightarrow> (False, w)
      else (False, interfere i word))"

definition try_upgrade :: "u64 interference \<Rightarrow> u64 \<Rightarrow> bool \<times> u64" where
  "try_upgrade i word =
     (let current = word in
      if latch_state current \<noteq> 1 then (False, interfere i word)
      else case compare_exchange current (with_state current EXCLUSIVE_STATE) (interfere i word) of
             (Inr _, w) \<Rightarrow> (True, w)
           | (Inl _, w) \<Rightarrow> (False, w))"

text \<open>
  The acquisition loops: one script entry per iteration, the first component for the time
  before the load and the second for the time before the compare-exchange.  With the script
  used up the word no longer changes, so the loop either acquires at once or spins for ever
  (\<open>None\<close>).  The back-off between iterations only spins or yields.
\<close>

fun snooze :: "nat \<Rightarrow> nat" where
  "snooze attempts = (if attempts < SPIN_LIMIT then attempts + 1 else attempts)"

fun lock_loop ::
  "(u64 interference \<Rightarrow> u64 \<Rightarrow> bool \<times> u64) \<Rightarrow> (u64 interference \<times> u64 interference) list
   \<Rightarrow> nat \<Rightarrow> u64 \<Rightarrow> u64 option" where
  "lock_loop once [] backoff word =
     (case once (Interference None False) word of (True, w) \<Rightarrow> Some w | (False, _) \<Rightarrow> None)"
| "lock_loop once ((i, j) # rest) backoff word =
     (case once j (interfere i word) of
        (True, w) \<Rightarrow> Some w
      | (False, w) \<Rightarrow> lock_loop once rest (snooze backoff) w)"

definition lock_shared :: "(u64 interference \<times> u64 interference) list \<Rightarrow> u64 \<Rightarrow> u64 option" where
  "lock_shared script word = lock_loop try_lock_shared_once script 0 word"

definition lock_exclusive :: "(u64 interference \<times> u64 interference) list \<Rightarrow> u64 \<Rightarrow> u64 option" where
  "lock_exclusive script word = lock_loop try_lock_exclusive_once script 0 word"

text \<open>The releases; the \<open>debug_assert\<close>s are the \<open>None\<close> branches.\<close>

definition release_shared :: "u64 \<Rightarrow> u64 option" where
  "release_shared word =
     (if 1 \<le> latch_state word \<and> latch_state word \<le> MAX_SHARED then Some (word - 1) else None)"

definition release_exclusive :: "u64 \<Rightarrow> u64 option" where
  "release_exclusive word =
     (if latch_state word = EXCLUSIVE_STATE
      then Some (latch_pack ((latch_version word + 1) AND VERSION_MASK) 0) else None)"

section \<open>Arithmetic of the packed word\<close>

lemma STATE_MASK_eq: "STATE_MASK = mask 16"
  by (simp add: STATE_MASK_def mask_eq_exp_minus_1)

lemma VERSION_MASK_eq: "VERSION_MASK = mask 48"
  by (simp add: VERSION_MASK_def mask_eq_exp_minus_1)

lemma unat_latch_state: "unat (latch_state w) = unat w mod 2 ^ 16"
  unfolding latch_state_def unsigned_ucast_eq STATE_MASK_eq unat_and_mask take_bit_eq_mod by simp

lemma unat_latch_version: "unat (latch_version w) = unat w div 2 ^ 16"
  unfolding latch_version_def STATE_BITS_def by (rule unat_drop)

lemma unat_EXCLUSIVE_STATE: "unat EXCLUSIVE_STATE = 2 ^ 16 - 1"
  by (simp add: EXCLUSIVE_STATE_def unsigned_minus_1_eq_mask mask_eq_exp_minus_1)

lemma unat_MAX_SHARED: "unat MAX_SHARED = 2 ^ 16 - 2"
  by (simp add: MAX_SHARED_def EXCLUSIVE_STATE_def)

lemma unat_with_state: "unat (with_state w s) = unat w div 2 ^ 16 * 2 ^ 16 + unat s"
proof -
  have hi: "w AND NOT STATE_MASK = push_bit 16 (drop_bit 16 w)"
    by (rule bit_word_eqI) (auto simp: STATE_MASK_eq bit_simps)
  have "unat (drop_bit 16 w) < 2 ^ (64 - 16)"
    using unat_less_pow[of w] unfolding unat_drop by simp
  moreover have lo: "unat (ucast s :: u64) = unat s" by (simp add: unat_ucast_up)
  moreover have "unat s < 2 ^ 16" using unat_less_pow[of s] by simp
  ultimately have "unat (push_bit 16 (drop_bit 16 w) OR ucast s) = unat (drop_bit 16 w) * 2 ^ 16 + unat s"
    using unat_concat[of 16 "drop_bit 16 w" "ucast s"] by simp
  then show ?thesis unfolding with_state_def hi unat_drop .
qed

lemma unat_latch_pack: "unat (latch_pack v s) = unat v mod 2 ^ 48 * 2 ^ 16 + unat s"
proof -
  have v: "unat (v AND VERSION_MASK) = unat v mod 2 ^ 48"
    unfolding VERSION_MASK_eq by (rule unat_and_mask)
  moreover have lo: "unat (ucast s :: u64) = unat s" by (simp add: unat_ucast_up)
  moreover have "unat s < 2 ^ 16" using unat_less_pow[of s] by simp
  ultimately have "unat (push_bit 16 (v AND VERSION_MASK) OR ucast s)
      = unat (v AND VERSION_MASK) * 2 ^ 16 + unat s"
    using unat_concat[of 16 "v AND VERSION_MASK" "ucast s"] by simp
  then show ?thesis unfolding latch_pack_def STATE_BITS_def v .
qed

lemma latch_split: "unat w = unat (latch_version w) * 2 ^ 16 + unat (latch_state w)"
  unfolding unat_latch_version unat_latch_state by simp

lemma latch_version_bound: "unat (latch_version w) < 2 ^ 48"
  using unat_less_pow[of w] unfolding unat_latch_version by simp

lemma latch_state_bound: "unat (latch_state w) < 2 ^ 16"
  unfolding unat_latch_state by simp

lemma latch_fields_eqI:
  assumes "unat w = v * 2 ^ 16 + s" "s < 2 ^ 16"
  shows "unat (latch_version w) = v" "unat (latch_state w) = s"
  using assms unfolding unat_latch_version unat_latch_state by simp_all

lemma state_inc:
  assumes "unat (latch_state w) < 2 ^ 16 - 1"
  shows "unat (latch_version (w + 1)) = unat (latch_version w)"
    and "unat (latch_state (w + 1)) = unat (latch_state w) + 1"
proof -
  have "unat w + 1 = unat (latch_version w) * 2 ^ 16 + (unat (latch_state w) + 1)"
    using latch_split[of w] by simp
  moreover have "unat (w + 1) = unat w + 1"
    using assms latch_split[of w] latch_version_bound[of w]
    by (subst unat_word_ariths) simp
  ultimately have "unat (w + 1) = unat (latch_version w) * 2 ^ 16 + (unat (latch_state w) + 1)" by simp
  from latch_fields_eqI[OF this] assms
  show "unat (latch_version (w + 1)) = unat (latch_version w)"
    and "unat (latch_state (w + 1)) = unat (latch_state w) + 1" by simp_all
qed

lemma state_dec:
  assumes "0 < unat (latch_state w)"
  shows "unat (latch_version (w - 1)) = unat (latch_version w)"
    and "unat (latch_state (w - 1)) = unat (latch_state w) - 1"
proof -
  have "1 \<le> w" using assms latch_split[of w] by (simp add: word_le_nat_alt)
  then have "unat (w - 1) = unat w - 1" by (simp add: unat_sub)
  also have "\<dots> = unat (latch_version w) * 2 ^ 16 + (unat (latch_state w) - 1)"
    using assms latch_split[of w] by simp
  finally have *: "unat (w - 1) = unat (latch_version w) * 2 ^ 16 + (unat (latch_state w) - 1)" .
  from latch_fields_eqI[OF this] latch_state_bound[of w]
  show "unat (latch_version (w - 1)) = unat (latch_version w)"
    and "unat (latch_state (w - 1)) = unat (latch_state w) - 1" by simp_all
qed

lemma with_state_fields:
  "unat (latch_version (with_state w s)) = unat (latch_version w)"
  "latch_state (with_state w s) = s"
proof -
  have "unat (with_state w s) = unat (latch_version w) * 2 ^ 16 + unat s"
    unfolding unat_with_state unat_latch_version ..
  moreover have "unat s < 2 ^ 16" using unat_less_pow[of s] by simp
  ultimately show "unat (latch_version (with_state w s)) = unat (latch_version w)"
    and "latch_state (with_state w s) = s"
    using latch_fields_eqI[of "with_state w s" "unat (latch_version w)" "unat s"]
    by (simp_all add: word_unat_eq_iff)
qed

lemma latch_pack_fields:
  "unat (latch_version (latch_pack v s)) = unat v mod 2 ^ 48"
  "latch_state (latch_pack v s) = s"
proof -
  have "unat s < 2 ^ 16" using unat_less_pow[of s] by simp
  with unat_latch_pack[of v s] show "unat (latch_version (latch_pack v s)) = unat v mod 2 ^ 48"
    and "latch_state (latch_pack v s) = s"
    using latch_fields_eqI[of "latch_pack v s" "unat v mod 2 ^ 48" "unat s"]
    by (simp_all add: word_unat_eq_iff)
qed

lemma release_exclusive_fields:
  assumes "release_exclusive w = Some w'"
  shows "unat (latch_version w') = (unat (latch_version w) + 1) mod 2 ^ 48" "latch_state w' = 0"
proof -
  let ?v = "latch_version w + 1"
  have w': "w' = latch_pack (?v AND VERSION_MASK) 0"
    using assms by (simp add: release_exclusive_def split: if_splits)
  have "unat ?v = unat (latch_version w) + 1"
    using latch_version_bound[of w] by (subst unat_word_ariths) simp
  moreover have "unat (?v AND VERSION_MASK) = unat ?v mod 2 ^ 48"
    unfolding VERSION_MASK_eq by (rule unat_and_mask)
  ultimately show "unat (latch_version w') = (unat (latch_version w) + 1) mod 2 ^ 48"
    unfolding w' latch_pack_fields by simp
  show "latch_state w' = 0" unfolding w' by (rule latch_pack_fields)
qed

section \<open>An attempt that succeeds is one indivisible step\<close>

abbreviation quiet :: "'v interference" where
  "quiet \<equiv> Interference None False"

lemma interfere_quiet [simp]: "interfere quiet w = w"
  by (simp add: interfere_def)

lemma try_lock_shared_once_quiet:
  "try_lock_shared_once quiet w = (if latch_state w < MAX_SHARED then (True, w + 1) else (False, w))"
  by (auto simp: try_lock_shared_once_def compare_exchange_weak_def compare_exchange_def not_le)

lemma try_lock_exclusive_once_quiet:
  "try_lock_exclusive_once quiet w =
     (if latch_state w = 0 then (True, with_state w EXCLUSIVE_STATE) else (False, w))"
  by (auto simp: try_lock_exclusive_once_def compare_exchange_weak_def compare_exchange_def)

lemma try_upgrade_quiet:
  "try_upgrade quiet w = (if latch_state w = 1 then (True, with_state w EXCLUSIVE_STATE) else (False, w))"
  by (auto simp: try_upgrade_def compare_exchange_def)

lemma attempt_atomic:
  "try_lock_shared_once i w = (True, w') \<Longrightarrow> try_lock_shared_once quiet (interfere i w) = (True, w')"
  "try_lock_exclusive_once i w = (True, w') \<Longrightarrow> try_lock_exclusive_once quiet (interfere i w) = (True, w')"
  "try_upgrade i w = (True, w') \<Longrightarrow> try_upgrade quiet (interfere i w) = (True, w')"
  by (auto simp: try_lock_shared_once_def try_lock_exclusive_once_def try_upgrade_def
      compare_exchange_weak_def compare_exchange_def Let_def split: if_splits)

lemma attempt_failed:
  "try_lock_shared_once i w = (False, w') \<Longrightarrow> w' = interfere i w"
  "try_lock_exclusive_once i w = (False, w') \<Longrightarrow> w' = interfere i w"
  "try_upgrade i w = (False, w') \<Longrightarrow> w' = interfere i w"
  by (auto simp: try_lock_shared_once_def try_lock_exclusive_once_def try_upgrade_def
      compare_exchange_weak_def compare_exchange_def Let_def split: if_splits)

text \<open>What the other threads have made of the word after a prefix of the script.\<close>

fun word_after :: "(u64 interference \<times> u64 interference) list \<Rightarrow> u64 \<Rightarrow> u64" where
  "word_after [] w = w"
| "word_after ((i, j) # rest) w = word_after rest (interfere j (interfere i w))"

lemma lock_loop_linearises:
  assumes once: "\<And>i w w'. once i w = (True, w') \<Longrightarrow> once quiet (interfere i w) = (True, w')"
    and failed: "\<And>i w w'. once i w = (False, w') \<Longrightarrow> w' = interfere i w"
  shows "lock_loop once script b w = Some w' \<Longrightarrow>
     \<exists>k \<le> length script. once quiet (word_after (take k script) w) = (True, w')"
proof (induction script arbitrary: b w)
  case Nil
  then show ?case by (auto split: prod.splits bool.splits)
next
  case (Cons ij rest)
  obtain i j where ij: "ij = (i, j)" by (cases ij)
  obtain ok v where v: "once j (interfere i w) = (ok, v)" by (cases "once j (interfere i w)")
  show ?case
  proof (cases ok)
    case True
    with Cons.prems v ij have "once quiet (word_after (take 1 (ij # rest)) w) = (True, w')"
      using once by auto
    then show ?thesis by (intro exI[of _ 1]) simp
  next
    case False
    with v have "v = interfere j (interfere i w)" using failed[of j "interfere i w" v] by simp
    moreover from Cons.prems v ij False have "lock_loop once rest (snooze b) v = Some w'" by simp
    then obtain k where "k \<le> length rest" "once quiet (word_after (take k rest) v) = (True, w')"
      using Cons.IH by blast
    ultimately show ?thesis
      using ij by (intro exI[of _ "Suc k"]) simp
  qed
qed

lemma lock_loop_returns:
  assumes failed: "\<And>i w w'. once i w = (False, w') \<Longrightarrow> w' = interfere i w"
    and free: "fst (once quiet (word_after script w))"
  shows "\<exists>w'. lock_loop once script b w = Some w'"
  using free
proof (induction script arbitrary: b w)
  case Nil
  then show ?case by (auto split: prod.splits bool.splits)
next
  case (Cons ij rest)
  obtain i j where ij: "ij = (i, j)" by (cases ij)
  obtain ok v where v: "once j (interfere i w) = (ok, v)" by (cases "once j (interfere i w)")
  show ?case
  proof (cases ok)
    case True
    with v ij show ?thesis by simp
  next
    case False
    with v have "v = interfere j (interfere i w)" using failed[of j "interfere i w" v] by simp
    with Cons.prems ij have "fst (once quiet (word_after rest v))" by simp
    with Cons.IH v ij False show ?thesis by simp
  qed
qed

section \<open>Concurrent semantics\<close>

text \<open>
  Any number of guards, named by numbers.  \<open>sections\<close> counts completed exclusive sections;
  it is not part of the code and only used to state what a version means.  Each rule is one
  successful atomic access of the code, on the word as it is at that moment.
\<close>

record latch_sys =
  lword :: u64
  readers :: "nat set"
  writer :: "nat option"
  sections :: nat

definition latch_init :: latch_sys where
  "latch_init = \<lparr>lword = latch_new, readers = {}, writer = None, sections = 0\<rparr>"

inductive latch_step :: "latch_sys \<Rightarrow> latch_sys \<Rightarrow> bool" where
  step_lock_shared:
    "g \<notin> readers s \<Longrightarrow> try_lock_shared_once quiet (lword s) = (True, w) \<Longrightarrow>
     latch_step s (s\<lparr>lword := w, readers := insert g (readers s)\<rparr>)"
| step_lock_exclusive:
    "try_lock_exclusive_once quiet (lword s) = (True, w) \<Longrightarrow>
     latch_step s (s\<lparr>lword := w, writer := Some g\<rparr>)"
| step_upgrade:
    "g \<in> readers s \<Longrightarrow> try_upgrade quiet (lword s) = (True, w) \<Longrightarrow>
     latch_step s (s\<lparr>lword := w, readers := readers s - {g}, writer := Some g\<rparr>)"
| step_release_shared:
    "g \<in> readers s \<Longrightarrow> release_shared (lword s) = Some w \<Longrightarrow>
     latch_step s (s\<lparr>lword := w, readers := readers s - {g}\<rparr>)"
| step_release_exclusive:
    "writer s = Some g \<Longrightarrow> release_exclusive (lword s) = Some w \<Longrightarrow>
     latch_step s (s\<lparr>lword := w, writer := None, sections := Suc (sections s)\<rparr>)"

definition latch_inv :: "latch_sys \<Rightarrow> bool" where
  "latch_inv s \<longleftrightarrow> finite (readers s)
     \<and> (case writer s of
          None \<Rightarrow> unat (latch_state (lword s)) = card (readers s) \<and> card (readers s) \<le> unat MAX_SHARED
        | Some _ \<Rightarrow> readers s = {} \<and> latch_state (lword s) = EXCLUSIVE_STATE)
     \<and> unat (latch_version (lword s)) = sections s mod 2 ^ 48"

lemma latch_inv_init: "latch_inv latch_init"
proof -
  have "unat (latch_state 0) = 0" "unat (latch_version 0) = 0"
    unfolding unat_latch_state unat_latch_version by simp_all
  then show ?thesis by (simp add: latch_inv_def latch_init_def latch_new_def)
qed

lemma exclusive_not_shared [simp]:
  "\<not> EXCLUSIVE_STATE < MAX_SHARED" "\<not> EXCLUSIVE_STATE \<le> MAX_SHARED"
  "EXCLUSIVE_STATE \<noteq> 0" "EXCLUSIVE_STATE \<noteq> 1" "0 \<noteq> EXCLUSIVE_STATE"
  by (simp_all add: word_less_nat_alt word_le_nat_alt unat_EXCLUSIVE_STATE unat_MAX_SHARED)
    (simp_all add: EXCLUSIVE_STATE_def)

lemma shared_state_nat:
  "latch_state w < MAX_SHARED \<longleftrightarrow> unat (latch_state w) < 2 ^ 16 - 2"
  "latch_state w \<le> MAX_SHARED \<longleftrightarrow> unat (latch_state w) \<le> 2 ^ 16 - 2"
  "latch_state w = 0 \<longleftrightarrow> unat (latch_state w) = 0"
  "latch_state w = 1 \<longleftrightarrow> unat (latch_state w) = 1"
  by (simp_all add: word_less_nat_alt word_le_nat_alt unat_MAX_SHARED word_unat_eq_iff)

lemma latch_inv_step:
  assumes "latch_step s t" "latch_inv s"
  shows "latch_inv t"
  using assms
proof (induction rule: latch_step.induct)
  case (step_lock_shared g s w)
  then have lt: "latch_state (lword s) < MAX_SHARED" and w: "w = lword s + 1"
    by (auto simp: try_lock_shared_once_quiet split: if_splits)
  with step_lock_shared.prems have none: "writer s = None"
    by (auto simp: latch_inv_def split: option.splits)
  have "unat (latch_state (lword s)) < 2 ^ 16 - 2" using lt by (simp add: shared_state_nat)
  with step_lock_shared none show ?case
    by (auto simp: latch_inv_def w state_inc unat_MAX_SHARED card_insert_if)
next
  case (step_lock_exclusive s w g)
  then have z: "latch_state (lword s) = 0" and w: "w = with_state (lword s) EXCLUSIVE_STATE"
    by (auto simp: try_lock_exclusive_once_quiet split: if_splits)
  with step_lock_exclusive.prems show ?case
    by (auto simp: latch_inv_def w with_state_fields split: option.splits)
next
  case (step_upgrade g s w)
  then have one: "latch_state (lword s) = 1" and w: "w = with_state (lword s) EXCLUSIVE_STATE"
    by (auto simp: try_upgrade_quiet split: if_splits)
  with step_upgrade.prems have "card (readers s) = 1" "finite (readers s)"
    by (auto simp: latch_inv_def split: option.splits)
  with step_upgrade.hyps(1) have "readers s = {g}" by (auto simp: card_1_singleton_iff)
  with step_upgrade.prems show ?case
    by (auto simp: latch_inv_def w with_state_fields)
next
  case (step_release_shared g s w)
  then have r: "1 \<le> latch_state (lword s)" and w: "w = lword s - 1"
    by (auto simp: release_shared_def split: if_splits)
  have "0 < unat (latch_state (lword s))" using r by (simp add: word_le_nat_alt)
  with step_release_shared show ?case
    by (auto simp: latch_inv_def w state_dec split: option.splits)
next
  case (step_release_exclusive s g w)
  note f = release_exclusive_fields[OF step_release_exclusive.hyps(2)]
  with step_release_exclusive show ?case
    by (auto simp: latch_inv_def mod_Suc_eq)
qed

abbreviation latch_run :: "latch_sys \<Rightarrow> latch_sys \<Rightarrow> bool" where
  "latch_run \<equiv> latch_step\<^sup>*\<^sup>*"

lemma latch_inv_run: "latch_run s t \<Longrightarrow> latch_inv s \<Longrightarrow> latch_inv t"
  by (induction rule: rtranclp_induct) (auto intro: latch_inv_step)

lemma latch_sections_mono: "latch_run s t \<Longrightarrow> sections s \<le> sections t"
  by (induction rule: rtranclp_induct) (auto elim!: latch_step.cases)

lemma optimistic_Inr: "latch_inv s \<Longrightarrow> optimistic (lword s) = Inr v \<Longrightarrow>
    writer s = None \<and> unat v = sections s mod 2 ^ 48"
  by (auto simp: optimistic_def latch_inv_def split: if_splits option.splits)

lemma validate_True: "latch_inv s \<Longrightarrow> validate (lword s) v \<Longrightarrow>
    writer s = None \<and> unat v = sections s mod 2 ^ 48"
  by (auto simp: validate_def latch_inv_def split: if_splits option.splits)

lemma mod_window_eq:
  fixes a b m :: nat
  assumes "a mod m = b mod m" "a \<le> b" "b < a + m"
  shows "a = b"
proof -
  have "m dvd b - a" using assms(1) mod_eq_dvd_iff_nat[OF assms(2), of m] by simp
  moreover have "b - a < m" using assms(2,3) by simp
  ultimately have "b - a = 0" by (metis nat_dvd_not_less gr0I)
  with assms(2) show ?thesis by simp
qed

text \<open>
  C25. Mutual exclusion under every interleaving: while a guard holds the latch exclusively
  there is no shared holder and no second exclusive one, the shared count in the word is
  exactly the number of shared guards and never reaches the exclusive mark, and neither
  release assertion can fail.
\<close>

theorem latch_mutual_exclusion:
  assumes "latch_run latch_init s"
  shows "(\<forall>g. writer s = Some g \<longrightarrow>
            readers s = {} \<and> latch_state (lword s) = EXCLUSIVE_STATE
            \<and> fst (try_lock_shared_once quiet (lword s)) = False
            \<and> fst (try_lock_exclusive_once quiet (lword s)) = False
            \<and> release_exclusive (lword s) \<noteq> None)
       \<and> (\<forall>r \<in> readers s.
            writer s = None \<and> unat (latch_state (lword s)) = card (readers s)
            \<and> card (readers s) \<le> unat MAX_SHARED
            \<and> fst (try_lock_exclusive_once quiet (lword s)) = False
            \<and> release_shared (lword s) \<noteq> None)"
proof (intro conjI allI ballI impI)
  have inv: "latch_inv s" using latch_inv_run[OF assms latch_inv_init] .
  note simps = latch_inv_def try_lock_shared_once_quiet try_lock_exclusive_once_quiet
    release_exclusive_def release_shared_def
  fix g assume "writer s = Some g"
  with inv show "readers s = {}" "latch_state (lword s) = EXCLUSIVE_STATE"
    "fst (try_lock_shared_once quiet (lword s)) = False"
    "fst (try_lock_exclusive_once quiet (lword s)) = False"
    "release_exclusive (lword s) \<noteq> None"
    by (simp_all add: simps)
next
  have inv: "latch_inv s" using latch_inv_run[OF assms latch_inv_init] .
  fix r assume r: "r \<in> readers s"
  with inv show n: "writer s = None" by (auto simp: latch_inv_def split: option.splits)
  from inv r have pos: "0 < card (readers s)" by (auto simp: latch_inv_def card_gt_0_iff)
  from inv n show c: "unat (latch_state (lword s)) = card (readers s)"
    and m: "card (readers s) \<le> unat MAX_SHARED" by (simp_all add: latch_inv_def)
  show "fst (try_lock_exclusive_once quiet (lword s)) = False"
    using c pos by (simp add: try_lock_exclusive_once_quiet shared_state_nat)
  show "release_shared (lword s) \<noteq> None"
    using c pos m by (simp add: release_shared_def word_le_nat_alt)
qed

lemma zero_lt_MAX_SHARED [simp]: "0 < MAX_SHARED"
  by (simp add: word_less_nat_alt unat_MAX_SHARED)

theorem latch_mutual_exclusion_witness:
  "latch_run latch_init (latch_init\<lparr>lword := 1, readers := {3}\<rparr>)
   \<and> writer (latch_init\<lparr>lword := 1, readers := {3}\<rparr>) = None
   \<and> release_shared (lword (latch_init\<lparr>lword := 1, readers := {3}\<rparr>)) \<noteq> None"
proof -
  have "latch_step latch_init (latch_init\<lparr>lword := 1, readers := insert 3 (readers latch_init)\<rparr>)"
    by (rule step_lock_shared)
      (simp_all add: latch_init_def latch_new_def try_lock_shared_once_quiet latch_state_def)
  then have r: "latch_run latch_init (latch_init\<lparr>lword := 1, readers := {3}\<rparr>)"
    by (simp add: latch_init_def)
  then show ?thesis using latch_mutual_exclusion[OF r] by simp
qed



text \<open>
  The acquisition loops are correct and return as soon as the latch becomes available: a
  returned acquisition is one indivisible acquisition of the word as it was at some point of
  the call, and when the word the other threads finally leave behind is available the loop
  does return.
\<close>

theorem lock_loops_correct:
  "(\<forall>w'. lock_shared script w = Some w' \<longrightarrow> (\<exists>k \<le> length script.
       latch_state (word_after (take k script) w) < MAX_SHARED \<and> w' = word_after (take k script) w + 1))
 \<and> (\<forall>w'. lock_exclusive script w = Some w' \<longrightarrow> (\<exists>k \<le> length script.
       latch_state (word_after (take k script) w) = 0
       \<and> w' = with_state (word_after (take k script) w) EXCLUSIVE_STATE))
 \<and> (latch_state (word_after script w) < MAX_SHARED \<longrightarrow> lock_shared script w \<noteq> None)
 \<and> (latch_state (word_after script w) = 0 \<longrightarrow> lock_exclusive script w \<noteq> None)"
proof (intro conjI allI impI)
  fix w' assume "lock_shared script w = Some w'"
  from lock_loop_linearises[OF attempt_atomic(1) attempt_failed(1) this[unfolded lock_shared_def]]
  show "\<exists>k \<le> length script. latch_state (word_after (take k script) w) < MAX_SHARED
      \<and> w' = word_after (take k script) w + 1"
    by (fastforce simp: try_lock_shared_once_quiet split: if_splits)
next
  fix w' assume "lock_exclusive script w = Some w'"
  from lock_loop_linearises[OF attempt_atomic(2) attempt_failed(2) this[unfolded lock_exclusive_def]]
  show "\<exists>k \<le> length script. latch_state (word_after (take k script) w) = 0
      \<and> w' = with_state (word_after (take k script) w) EXCLUSIVE_STATE"
    by (fastforce simp: try_lock_exclusive_once_quiet split: if_splits)
next
  assume "latch_state (word_after script w) < MAX_SHARED"
  then show "lock_shared script w \<noteq> None"
    using lock_loop_returns[of try_lock_shared_once script w, OF attempt_failed(1)]
    by (fastforce simp: lock_shared_def try_lock_shared_once_quiet)
next
  assume "latch_state (word_after script w) = 0"
  then show "lock_exclusive script w \<noteq> None"
    using lock_loop_returns[of try_lock_exclusive_once script w, OF attempt_failed(2)]
    by (fastforce simp: lock_exclusive_def try_lock_exclusive_once_quiet)
qed

theorem lock_loops_correct_witness:
  "lock_shared [(Interference (Some 0) False, Interference None True)] 65535 \<noteq> None"
proof -
  have "latch_state (word_after [(Interference (Some 0) False, Interference None True)] 65535) < MAX_SHARED"
    by (simp add: interfere_def latch_state_def)
  then show ?thesis
    using lock_loops_correct[of "[(Interference (Some 0) False, Interference None True)]" 65535] by blast
qed

end
