(* ===== verification/Frame_Meta.thy ===== *)
theory Frame_Meta
  imports Swip Hybrid_Latch
begin

text \<open>
  Metadata of one frame: \<open>Frame\<close> of src/crates/tierbuf/src/frame.rs.  An owner handle is the
  address of its \<open>Arc\<close> cell.  An \<open>assert\<close> or \<open>expect\<close> that fails is \<open>oPanic\<close> with the message of
  the source; waiting for a latch that is held is \<open>oBlocks\<close>.  The second half is the concurrent
  semantics of the pin-control word.
\<close>

type_synonym handle = nat

section \<open>Constants and the packed heat word\<close>

definition EVICTING :: u32 where "EVICTING = push_bit 31 1"
definition PIN_COUNT_MASK :: u32 where "PIN_COUNT_MASK = EVICTING - 1"
definition EPOCH_SHIFT :: nat where "EPOCH_SHIFT = 32"

definition pack_heat_epoch :: "u32 \<Rightarrow> u32 \<Rightarrow> u64" where
  "pack_heat_epoch heat epoch = push_bit EPOCH_SHIFT (ucast epoch) OR ucast heat"

definition unpack_heat_epoch :: "u64 \<Rightarrow> u32 \<times> u32" where
  "unpack_heat_epoch packed = (ucast packed, ucast (drop_bit EPOCH_SHIFT packed))"

section \<open>The frame and its accessors\<close>

record frame =
  fr_latch :: u64
  fr_pid :: u64
  fr_owner_swip :: "handle option"
  fr_dirty :: bool
  fr_heat_epoch :: u64
  fr_generation :: u32
  fr_pin_control :: u32

definition frame_new :: frame where
  "frame_new = \<lparr>fr_latch = latch_new, fr_pid = PID_INVALID, fr_owner_swip = None, fr_dirty = False,
     fr_heat_epoch = 0, fr_generation = 0, fr_pin_control = 0\<rparr>"

definition frame_pid :: "frame \<Rightarrow> page_id outcome" where
  "frame_pid f =
     (let raw = fr_pid f in
      if raw = PID_INVALID then oOk PID_INVALID
      else case page_id_new raw of
             Some p \<Rightarrow> oOk p
           | None \<Rightarrow> oPanic ''frame contains an invalid page identifier'')"

definition set_dirty :: "bool \<Rightarrow> frame \<Rightarrow> frame" where
  "set_dirty dirty f = f\<lparr>fr_dirty := dirty\<rparr>"

definition heat_and_epoch :: "frame \<Rightarrow> u32 \<times> u32" where
  "heat_and_epoch f = unpack_heat_epoch (fr_heat_epoch f)"

definition set_heat_and_epoch :: "u32 \<Rightarrow> u32 \<Rightarrow> frame \<Rightarrow> frame" where
  "set_heat_and_epoch heat epoch f = f\<lparr>fr_heat_epoch := pack_heat_epoch heat epoch\<rparr>"

definition compare_exchange_heat_and_epoch ::
  "bool \<Rightarrow> u32 \<times> u32 \<Rightarrow> u32 \<times> u32 \<Rightarrow> frame \<Rightarrow> (u32 \<times> u32 + u32 \<times> u32) \<times> frame" where
  "compare_exchange_heat_and_epoch sp current replacement f =
     (case compare_exchange_weak sp (pack_heat_epoch (fst current) (snd current))
             (pack_heat_epoch (fst replacement) (snd replacement)) (fr_heat_epoch f) of
        (Inr w, w') \<Rightarrow> (Inr (unpack_heat_epoch w), f\<lparr>fr_heat_epoch := w'\<rparr>)
      | (Inl w, w') \<Rightarrow> (Inl (unpack_heat_epoch w), f\<lparr>fr_heat_epoch := w'\<rparr>))"

section \<open>The pin-control word\<close>

text \<open>
  The guard and the new value of each retry iteration.  \<open>try_pin\<close> has the shape of the loop in
  \<open>Atomic_Update\<close>: load, test, compare-exchange, retry with the observed value.
\<close>

definition pin_update :: "u32 \<Rightarrow> u32 option" where
  "pin_update current =
     (if current AND EVICTING \<noteq> 0 \<or> current = PIN_COUNT_MASK then None else Some (current + 1))"

definition try_pin_under :: "u32 interference list \<Rightarrow> frame \<Rightarrow> bool \<times> frame" where
  "try_pin_under script f =
     (case try_update pin_update script (fr_pin_control f) of
        (Inr _, w) \<Rightarrow> (True, f\<lparr>fr_pin_control := w\<rparr>)
      | (Inl _, w) \<Rightarrow> (False, f\<lparr>fr_pin_control := w\<rparr>))"

definition frame_try_pin :: "frame \<Rightarrow> bool \<times> frame" where
  "frame_try_pin = try_pin_under []"

definition unpin_word :: "u32 \<Rightarrow> u32 outcome" where
  "unpin_word current =
     (if current AND EVICTING \<noteq> 0 then oPanic ''cannot unpin a frame reserved for eviction''
      else if \<not> 0 < current then oPanic ''cannot unpin a frame with zero pins''
      else oOk (current - 1))"

definition frame_unpin :: "(frame, unit) operation" where
  "frame_unpin f =
     (case unpin_word (fr_pin_control f) of
        oOk w \<Rightarrow> (oOk (), f\<lparr>fr_pin_control := w\<rparr>)
      | oErr e \<Rightarrow> (oErr e, f)
      | oPanic m \<Rightarrow> (oPanic m, f)
      | oBlocks \<Rightarrow> (oBlocks, f))"

definition pin_count :: "frame \<Rightarrow> u32" where
  "pin_count f = fr_pin_control f AND PIN_COUNT_MASK"

definition is_evicting :: "frame \<Rightarrow> bool" where
  "is_evicting f \<longleftrightarrow> fr_pin_control f = EVICTING"

definition try_claim_eviction :: "frame \<Rightarrow> bool \<times> frame" where
  "try_claim_eviction f =
     (case compare_exchange 0 EVICTING (fr_pin_control f) of
        (Inr _, w) \<Rightarrow> (True, f\<lparr>fr_pin_control := w\<rparr>)
      | (Inl _, w) \<Rightarrow> (False, f\<lparr>fr_pin_control := w\<rparr>))"

definition release_eviction :: "(frame, unit) operation" where
  "release_eviction f =
     (case compare_exchange EVICTING 0 (fr_pin_control f) of
        (Inr _, w) \<Rightarrow> (oOk (), f\<lparr>fr_pin_control := w\<rparr>)
      | (Inl _, w) \<Rightarrow> (oPanic ''only an exact EVICTING reservation can be released'', f))"

definition publish_reserved_pin :: "(frame, unit) operation" where
  "publish_reserved_pin f =
     (case compare_exchange EVICTING 1 (fr_pin_control f) of
        (Inr _, w) \<Rightarrow> (oOk (), f\<lparr>fr_pin_control := w\<rparr>)
      | (Inl _, w) \<Rightarrow> (oPanic ''only a reserved free frame can publish its first pin'', f))"

section \<open>Latched sections and the occupant\<close>

text \<open>Latch acquisition and release on a frame, as the guards of latch.rs do them.\<close>

definition frame_lock_exclusive :: "(frame, unit) operation" where
  "frame_lock_exclusive f =
     (case lock_exclusive [] (fr_latch f) of Some w \<Rightarrow> (oOk (), f\<lparr>fr_latch := w\<rparr>) | None \<Rightarrow> (oBlocks, f))"

definition frame_lock_shared :: "(frame, unit) operation" where
  "frame_lock_shared f =
     (case lock_shared [] (fr_latch f) of Some w \<Rightarrow> (oOk (), f\<lparr>fr_latch := w\<rparr>) | None \<Rightarrow> (oBlocks, f))"

definition frame_drop_exclusive :: "(frame, unit) operation" where
  "frame_drop_exclusive f =
     (case release_exclusive (fr_latch f) of
        Some w \<Rightarrow> (oOk (), f\<lparr>fr_latch := w\<rparr>)
      | None \<Rightarrow> (oPanic ''exclusive guard released an invalid latch state'', f))"

definition frame_drop_shared :: "(frame, unit) operation" where
  "frame_drop_shared f =
     (case release_shared (fr_latch f) of
        Some w \<Rightarrow> (oOk (), f\<lparr>fr_latch := w\<rparr>)
      | None \<Rightarrow> (oPanic ''shared guard released an invalid latch state'', f))"

definition frame_install :: "page_id \<Rightarrow> handle \<Rightarrow> (frame, u32) operation" where
  "frame_install pid owner =
     op_bind (op_assert (pid_is_valid pid) ''cannot install PageId::INVALID'') (\<lambda>_.
     op_bind (op_get (\<lambda>f. fr_pin_control f)) (\<lambda>pin.
     op_bind (op_assert (pin = EVICTING) ''new occupant requires an exclusively reserved free frame'') (\<lambda>_.
     op_bind frame_lock_exclusive (\<lambda>_.
     op_bind (op_modify (\<lambda>f. f\<lparr>fr_owner_swip := Some owner\<rparr>)) (\<lambda>_.
     op_bind (op_modify (\<lambda>f. f\<lparr>fr_dirty := False\<rparr>)) (\<lambda>_.
     op_bind (op_modify (\<lambda>f. f\<lparr>fr_heat_epoch := 0\<rparr>)) (\<lambda>_.
     op_bind (op_modify (\<lambda>f. f\<lparr>fr_generation := fr_generation f + 1\<rparr>)) (\<lambda>_.
     op_bind (op_get (\<lambda>f. fr_generation f)) (\<lambda>generation.
     op_bind (op_modify (\<lambda>f. f\<lparr>fr_pid := pid\<rparr>)) (\<lambda>_.
     op_bind frame_drop_exclusive (\<lambda>_.
     op_return generation)))))))))))"

definition clear_after_eviction :: "(frame, unit) operation" where
  "clear_after_eviction =
     op_bind (op_get is_evicting) (\<lambda>e.
     op_bind (op_assert e ''metadata can be cleared only under an eviction reservation'') (\<lambda>_.
     op_bind frame_lock_exclusive (\<lambda>_.
     op_bind (op_modify (\<lambda>f. f\<lparr>fr_pid := PID_INVALID\<rparr>)) (\<lambda>_.
     op_bind (op_modify (\<lambda>f. f\<lparr>fr_owner_swip := None\<rparr>)) (\<lambda>_.
     op_bind (op_modify (\<lambda>f. f\<lparr>fr_dirty := False\<rparr>)) (\<lambda>_.
     op_bind (op_modify (\<lambda>f. f\<lparr>fr_heat_epoch := 0\<rparr>)) (\<lambda>_.
     frame_drop_exclusive)))))))"

section \<open>Facts about the words\<close>

lemma EVICTING_value: "EVICTING = 0x80000000"
  by (simp add: EVICTING_def)

lemma PIN_COUNT_MASK_value: "PIN_COUNT_MASK = 0x7FFFFFFF"
  by (simp add: PIN_COUNT_MASK_def EVICTING_value)

lemma EVICTING_neq [simp]: "EVICTING \<noteq> 0" "0 \<noteq> EVICTING" "EVICTING \<noteq> 1" "1 \<noteq> EVICTING" "EVICTING AND EVICTING \<noteq> 0"
  by (simp_all add: EVICTING_value)

lemma bit_EVICTING: "bit EVICTING n \<longleftrightarrow> n = 31"
  unfolding EVICTING_def bit_push_bit_iff bit_1_iff by auto

lemma evicting_bit: "w AND EVICTING = 0 \<longleftrightarrow> unat w < 2 ^ 31" for w :: u32
proof -
  have "w AND EVICTING = 0 \<longleftrightarrow> \<not> bit w 31"
  proof
    show "\<not> bit w 31" if "w AND EVICTING = 0"
      using that bit_and_iff[of w EVICTING 31] unfolding bit_EVICTING by simp
    show "w AND EVICTING = 0" if "\<not> bit w 31"
      by (rule bit_word_eqI) (use that in \<open>auto simp only: bit_and_iff bit_EVICTING bit_0_eq bot_apply bot_bool_def\<close>)
  qed
  also have "\<dots> \<longleftrightarrow> unat w < 2 ^ 31"
  proof -
    define q where "q = unat w div 2 ^ 31"
    have "q < 2" using unat_less_pow[of w] by (simp add: q_def)
    then have "q = 0 \<or> q = 1" by auto
    moreover have "bit w 31 \<longleftrightarrow> odd q"
      using bit_unsigned_iff[of w 31, where 'a = nat] bit_iff_odd[of "unat w" 31] by (simp add: q_def)
    ultimately have "\<not> bit w 31 \<longleftrightarrow> q = 0" by auto
    then show ?thesis by (simp add: q_def div_eq_0_iff)
  qed
  finally show ?thesis .
qed

lemma pin_update_Some:
  "pin_update w = Some v \<longleftrightarrow> unat w < 2 ^ 31 - 1 \<and> v = w + 1"
proof -
  have "w = PIN_COUNT_MASK \<longleftrightarrow> unat w = 2 ^ 31 - 1"
    by (simp add: word_unat_eq_iff PIN_COUNT_MASK_value)
  then show ?thesis by (auto simp: pin_update_def evicting_bit)
qed

lemma unat_pin_inc: "unat w < 2 ^ 31 - 1 \<Longrightarrow> unat (w + 1) = unat w + 1" for w :: u32
  by (subst unat_word_ariths) simp

lemma unpin_word_ok: "0 < unat w \<Longrightarrow> unat w < 2 ^ 31 \<Longrightarrow> unpin_word w = oOk (w - 1) \<and> unat (w - 1) = unat w - 1"
  by (simp add: unpin_word_def evicting_bit word_less_nat_alt unat_sub word_le_nat_alt)

lemma try_claim_eviction_eq:
  "try_claim_eviction f = (if fr_pin_control f = 0 then (True, f\<lparr>fr_pin_control := EVICTING\<rparr>) else (False, f))"
  by (simp add: try_claim_eviction_def compare_exchange_def)

lemma release_eviction_eq:
  "release_eviction f = (if fr_pin_control f = EVICTING then (oOk (), f\<lparr>fr_pin_control := 0\<rparr>)
     else (oPanic ''only an exact EVICTING reservation can be released'', f))"
  by (simp add: release_eviction_def compare_exchange_def)

lemma publish_reserved_pin_eq:
  "publish_reserved_pin f = (if fr_pin_control f = EVICTING then (oOk (), f\<lparr>fr_pin_control := 1\<rparr>)
     else (oPanic ''only a reserved free frame can publish its first pin'', f))"
  by (simp add: publish_reserved_pin_def compare_exchange_def)

lemma frame_try_pin_eq:
  "frame_try_pin f =
     (case pin_update (fr_pin_control f) of
        Some w \<Rightarrow> (True, f\<lparr>fr_pin_control := w\<rparr>) | None \<Rightarrow> (False, f))"
  by (simp add: frame_try_pin_def try_pin_under_def try_update_def try_update_loop_quiet
      atomic_update_def split: option.splits)

lemma heat_epoch_roundtrip: "unpack_heat_epoch (pack_heat_epoch heat epoch) = (heat, epoch)"
proof -
  let ?e = "ucast epoch :: u64" and ?h = "ucast heat :: u64"
  have u: "unat ?e = unat epoch" "unat ?h = unat heat" by (simp_all add: unat_ucast_up)
  have b: "unat epoch < 2 ^ 32" "unat heat < 2 ^ 32"
    using unat_less_pow[of epoch] unat_less_pow[of heat] by simp_all
  have p: "unat (pack_heat_epoch heat epoch) = unat epoch * 2 ^ 32 + unat heat"
    unfolding pack_heat_epoch_def EPOCH_SHIFT_def
    using unat_concat[of 32 ?e ?h] u b by simp
  have lo: "unat (ucast w :: u32) = unat w mod 2 ^ 32" for w :: u64
    unfolding unsigned_ucast_eq take_bit_eq_mod by simp
  have "unat (ucast (pack_heat_epoch heat epoch) :: u32) = unat heat"
    unfolding lo p using b by simp
  moreover have "unat (ucast (drop_bit EPOCH_SHIFT (pack_heat_epoch heat epoch)) :: u32) = unat epoch"
    unfolding lo unat_drop p EPOCH_SHIFT_def using b by simp
  ultimately show ?thesis by (simp add: unpack_heat_epoch_def word_unat_eq_iff)
qed

section \<open>Concurrent semantics of pinning\<close>

text \<open>
  Any number of pins, named by numbers, and reservations by evictors or by the owner of a free
  frame.  Each rule is the successful atomic access of one operation above; \<open>publish_reserved_pin\<close>
  turns the reservation into the pin \<open>g\<close>.
\<close>

record pin_sys =
  pin_frame :: frame
  pins :: "nat set"
  reserved_by :: "nat option"

definition pin_init :: pin_sys where
  "pin_init = \<lparr>pin_frame = frame_new, pins = {}, reserved_by = None\<rparr>"

inductive pin_step :: "pin_sys \<Rightarrow> pin_sys \<Rightarrow> bool" where
  step_pin: "g \<notin> pins s \<Longrightarrow> frame_try_pin (pin_frame s) = (True, f) \<Longrightarrow>
     pin_step s (s\<lparr>pin_frame := f, pins := insert g (pins s)\<rparr>)"
| step_unpin: "g \<in> pins s \<Longrightarrow> frame_unpin (pin_frame s) = (oOk (), f) \<Longrightarrow>
     pin_step s (s\<lparr>pin_frame := f, pins := pins s - {g}\<rparr>)"
| step_claim: "try_claim_eviction (pin_frame s) = (True, f) \<Longrightarrow>
     pin_step s (s\<lparr>pin_frame := f, reserved_by := Some e\<rparr>)"
| step_release: "reserved_by s = Some e \<Longrightarrow> release_eviction (pin_frame s) = (oOk (), f) \<Longrightarrow>
     pin_step s (s\<lparr>pin_frame := f, reserved_by := None\<rparr>)"
| step_publish: "reserved_by s = Some e \<Longrightarrow> publish_reserved_pin (pin_frame s) = (oOk (), f) \<Longrightarrow>
     pin_step s (s\<lparr>pin_frame := f, pins := {g}, reserved_by := None\<rparr>)"

definition pin_inv :: "pin_sys \<Rightarrow> bool" where
  "pin_inv s \<longleftrightarrow> finite (pins s) \<and>
     (case reserved_by s of
        None \<Rightarrow> unat (fr_pin_control (pin_frame s)) = card (pins s) \<and> card (pins s) < 2 ^ 31
      | Some _ \<Rightarrow> pins s = {} \<and> fr_pin_control (pin_frame s) = EVICTING)"

lemma frame_unpin_ok:
  "0 < unat (fr_pin_control f) \<Longrightarrow> unat (fr_pin_control f) < 2 ^ 31 \<Longrightarrow>
   frame_unpin f = (oOk (), f\<lparr>fr_pin_control := fr_pin_control f - 1\<rparr>)"
  using unpin_word_ok[of "fr_pin_control f"] by (simp add: frame_unpin_def)

lemma pin_inv_step:
  assumes "pin_step s t" "pin_inv s"
  shows "pin_inv t"
  using assms
proof (induction rule: pin_step.induct)
  case (step_pin g s f)
  then have *: "unat (fr_pin_control (pin_frame s)) < 2 ^ 31 - 1"
      "f = (pin_frame s)\<lparr>fr_pin_control := fr_pin_control (pin_frame s) + 1\<rparr>"
    by (auto simp: frame_try_pin_eq pin_update_Some split: option.splits)
  then have "reserved_by s = None" using step_pin.prems
    by (auto simp: pin_inv_def EVICTING_value split: option.splits)
  with step_pin * show ?case by (auto simp: pin_inv_def unat_pin_inc)
next
  case (step_unpin g s f)
  then have n: "reserved_by s = None" by (auto simp: pin_inv_def split: option.splits)
  with step_unpin have pos: "0 < card (pins s)" by (auto simp: pin_inv_def card_gt_0_iff)
  with step_unpin n have "f = (pin_frame s)\<lparr>fr_pin_control := fr_pin_control (pin_frame s) - 1\<rparr>"
    using frame_unpin_ok[of "pin_frame s"] by (auto simp: pin_inv_def)
  moreover have "unat (fr_pin_control (pin_frame s) - 1) = card (pins s) - 1"
    using unpin_word_ok[of "fr_pin_control (pin_frame s)"] step_unpin n pos by (auto simp: pin_inv_def)
  ultimately show ?case using step_unpin n pos by (auto simp: pin_inv_def)
next
  case (step_claim s f e)
  then have "fr_pin_control (pin_frame s) = 0" by (auto simp: try_claim_eviction_eq split: if_splits)
  with step_claim show ?case
    by (auto simp: pin_inv_def try_claim_eviction_eq split: option.splits)
next
  case (step_release s e f)
  then show ?case by (auto simp: pin_inv_def release_eviction_eq split: if_splits)
next
  case (step_publish s e f g)
  then show ?case by (auto simp: pin_inv_def publish_reserved_pin_eq split: if_splits)
qed

lemma pin_inv_init: "pin_inv pin_init"
  by (simp add: pin_inv_def pin_init_def frame_new_def)

abbreviation pin_run :: "pin_sys \<Rightarrow> pin_sys \<Rightarrow> bool" where
  "pin_run \<equiv> pin_step\<^sup>*\<^sup>*"

lemma pin_inv_run: "pin_run pin_init s \<Longrightarrow> pin_inv s"
  by (induction rule: rtranclp_induct) (auto intro: pin_inv_init pin_inv_step)

text \<open>
  C27. Pinning and eviction exclude each other under every interleaving: a frame with a live pin
  cannot be reserved, a reserved frame cannot be pinned or reserved again, the holder of a pin
  can always release it and the holder of a reservation can always release or publish it, none
  of these panicking.
\<close>

theorem pin_eviction_exclusion:
  assumes "pin_run pin_init s"
  shows "(\<forall>g \<in> pins s. reserved_by s = None \<and> fst (try_claim_eviction (pin_frame s)) = False
            \<and> fst (frame_unpin (pin_frame s)) = oOk ()
            \<and> unat (pin_count (pin_frame s)) = card (pins s))
       \<and> (\<forall>e. reserved_by s = Some e \<longrightarrow> pins s = {} \<and> is_evicting (pin_frame s)
            \<and> fst (frame_try_pin (pin_frame s)) = False
            \<and> fst (try_claim_eviction (pin_frame s)) = False
            \<and> fst (release_eviction (pin_frame s)) = oOk ()
            \<and> fst (publish_reserved_pin (pin_frame s)) = oOk ())"
proof (intro conjI ballI allI impI)
  have inv: "pin_inv s" using pin_inv_run[OF assms] .
  fix g assume g: "g \<in> pins s"
  with inv show n: "reserved_by s = None" by (auto simp: pin_inv_def split: option.splits)
  with inv g have c: "unat (fr_pin_control (pin_frame s)) = card (pins s)" "card (pins s) < 2 ^ 31"
    "0 < card (pins s)" by (auto simp: pin_inv_def card_gt_0_iff)
  then show "fst (try_claim_eviction (pin_frame s)) = False" by (auto simp: try_claim_eviction_eq)
  show "fst (frame_unpin (pin_frame s)) = oOk ()" using c by (simp add: frame_unpin_ok)
  have "pin_count (pin_frame s) = fr_pin_control (pin_frame s) AND mask 31"
    by (simp add: pin_count_def PIN_COUNT_MASK_value mask_eq_exp_minus_1)
  then show "unat (pin_count (pin_frame s)) = card (pins s)" using c by (simp add: unat_and_mask)
next
  have inv: "pin_inv s" using pin_inv_run[OF assms] .
  fix e assume "reserved_by s = Some e"
  with inv have p: "pins s = {}" "fr_pin_control (pin_frame s) = EVICTING" by (auto simp: pin_inv_def)
  then show "pins s = {}" "is_evicting (pin_frame s)" "fst (frame_try_pin (pin_frame s)) = False"
    "fst (try_claim_eviction (pin_frame s)) = False" "fst (release_eviction (pin_frame s)) = oOk ()"
    "fst (publish_reserved_pin (pin_frame s)) = oOk ()"
    by (simp_all add: is_evicting_def frame_try_pin_eq pin_update_def try_claim_eviction_eq
        release_eviction_eq publish_reserved_pin_eq)
qed

theorem pin_eviction_exclusion_witness:
  "\<exists>s. pin_run pin_init s \<and> pins s = {5} \<and> fst (try_claim_eviction (pin_frame s)) = False"
proof -
  let ?s = "pin_init\<lparr>pin_frame := frame_new\<lparr>fr_pin_control := 1\<rparr>, pins := {5}\<rparr>"
  have "pin_step pin_init (pin_init\<lparr>pin_frame := frame_new\<lparr>fr_pin_control := 1\<rparr>, pins := insert 5 (pins pin_init)\<rparr>)"
    by (rule step_pin)
      (simp_all add: pin_init_def frame_try_pin_eq frame_new_def pin_update_def PIN_COUNT_MASK_value)
  then have r: "pin_run pin_init ?s" by (simp add: pin_init_def)
  then show ?thesis using pin_eviction_exclusion[OF r] by (intro exI[of _ ?s]) simp
qed

end
