(* ===== verification/Heat_Tracker.thy ===== *)
theory Heat_Tracker
  imports Frame_Meta
begin

text \<open>
  Lazy heat: src/crates/tierbuf/src/policy/heat.rs.  The tracker is its epoch counter; the heat of
  a frame is the packed word of \<open>Frame_Meta\<close>.  \<open>on_access_loop\<close> is the retry loop under an
  arbitrary script of stores by other threads between two attempts.
\<close>

definition HEAT_FRACTION_BITS :: nat where "HEAT_FRACTION_BITS = 24"
definition HEAT_ONE :: u32 where "HEAT_ONE = push_bit HEAT_FRACTION_BITS 1"
definition MAX_DECAY_SHIFT :: u32 where "MAX_DECAY_SHIFT = 32"

record heat_tracker =
  ht_epoch :: u32

definition heat_tracker_new :: heat_tracker where
  "heat_tracker_new = \<lparr>ht_epoch = 0\<rparr>"

definition on_epoch :: "heat_tracker \<Rightarrow> u32 \<times> heat_tracker" where
  "on_epoch h = (ht_epoch h + 1, h\<lparr>ht_epoch := ht_epoch h + 1\<rparr>)"

definition decay :: "u32 \<Rightarrow> u32 \<Rightarrow> u32" where
  "decay heat elapsed_epochs =
     (if MAX_DECAY_SHIFT \<le> elapsed_epochs then 0 else drop_bit (unat elapsed_epochs) heat)"

lemma pack_unpack: "pack_heat_epoch (fst (unpack_heat_epoch w)) (snd (unpack_heat_epoch w)) = w"
proof -
  let ?l = "ucast w :: u32" and ?h = "ucast (drop_bit 32 w) :: u32"
  have lo: "unat (ucast v :: u32) = unat v mod 2 ^ 32" for v :: u64
    unfolding unsigned_ucast_eq take_bit_eq_mod by simp
  have up: "unat (ucast v :: u64) = unat v" for v :: u32 by (rule unat_ucast_up) simp
  have l: "unat (ucast ?l :: u64) = unat w mod 2 ^ 32" unfolding up lo by simp
  have "unat w div 2 ^ 32 < 2 ^ 32" using unat_less_pow[of w] by simp
  then have h: "unat (ucast ?h :: u64) = unat w div 2 ^ 32"
    unfolding up lo unat_drop by simp
  have "unat (pack_heat_epoch ?l ?h) = unat w"
    unfolding pack_heat_epoch_def EPOCH_SHIFT_def
    using unat_concat[of 32 "ucast ?h" "ucast ?l"] l h unat_less_pow[of w] by simp
  then show ?thesis by (simp add: unpack_heat_epoch_def EPOCH_SHIFT_def word_unat_eq_iff)
qed

lemma pack_eq_iff: "pack_heat_epoch (fst o1) (snd o1) = w \<longleftrightarrow> o1 = unpack_heat_epoch w"
  by (metis pack_unpack heat_epoch_roundtrip prod.collapse)

definition heat_replacement :: "u32 \<Rightarrow> u32 \<times> u32 \<Rightarrow> u32 \<times> u32" where
  "heat_replacement epoch observed =
     (let decayed = decay (fst observed) (epoch - snd observed)
      in (saturating_add decayed HEAT_ONE, epoch))"

lemma cas_heat:
  "compare_exchange_heat_and_epoch sp o1 r f =
     (if \<not> sp \<and> o1 = heat_and_epoch f
      then (Inr o1, f\<lparr>fr_heat_epoch := pack_heat_epoch (fst r) (snd r)\<rparr>)
      else (Inl (heat_and_epoch f), f))"
proof -
  have "pack_heat_epoch (fst o1) (snd o1) = fr_heat_epoch f \<longleftrightarrow> o1 = heat_and_epoch f"
    by (simp add: pack_eq_iff heat_and_epoch_def)
  then show ?thesis
    by (auto simp: compare_exchange_heat_and_epoch_def compare_exchange_weak_def compare_exchange_def
        heat_and_epoch_def dest: sym)
qed

function on_access_loop ::
  "u32 \<Rightarrow> u64 interference list \<Rightarrow> u32 \<times> u32 \<Rightarrow> frame \<Rightarrow> u32 \<times> frame" where
  "on_access_loop epoch script observed f =
     (let replacement = heat_replacement epoch observed in
      case script of
        [] \<Rightarrow> (case compare_exchange_heat_and_epoch False observed replacement f of
                (Inr _, f') \<Rightarrow> (fst replacement, f')
              | (Inl current, f') \<Rightarrow> on_access_loop epoch [] current f')
      | i # rest \<Rightarrow>
          (case compare_exchange_heat_and_epoch (spurious i) observed replacement
                  (f\<lparr>fr_heat_epoch := interfere i (fr_heat_epoch f)\<rparr>) of
             (Inr _, f') \<Rightarrow> (fst replacement, f')
           | (Inl current, f') \<Rightarrow> on_access_loop epoch rest current f'))"
  by pat_completeness auto
termination
  by (relation "measures [\<lambda>(e, s, ob, f). length s, \<lambda>(e, s, ob, f). if ob = heat_and_epoch f then 0 else 1]")
    (auto simp: cas_heat split: if_splits)

declare on_access_loop.simps [simp del]

definition heat_on_access :: "heat_tracker \<Rightarrow> u64 interference list \<Rightarrow> frame \<Rightarrow> u32 \<times> frame" where
  "heat_on_access h script f = on_access_loop (ht_epoch h) script (heat_and_epoch f) f"

definition current_heat_raw :: "heat_tracker \<Rightarrow> frame \<Rightarrow> u32" where
  "current_heat_raw h f =
     (case heat_and_epoch f of (heat, last_epoch) \<Rightarrow> decay heat (ht_epoch h - last_epoch))"

section \<open>One access\<close>

definition atomic_access :: "u32 \<Rightarrow> frame \<Rightarrow> u32 \<times> frame" where
  "atomic_access epoch f =
     (let r = heat_replacement epoch (heat_and_epoch f)
      in (fst r, f\<lparr>fr_heat_epoch := pack_heat_epoch (fst r) (snd r)\<rparr>))"

lemma on_access_loop_Nil: "on_access_loop epoch [] observed f = atomic_access epoch f"
proof -
  have same: "on_access_loop epoch [] (heat_and_epoch f) f = atomic_access epoch f" for f
    by (simp add: on_access_loop.simps[of _ "[]"] cas_heat atomic_access_def Let_def)
  then show ?thesis
    by (cases "observed = heat_and_epoch f")
      (simp_all add: on_access_loop.simps[of _ "[]" observed] cas_heat Let_def)
qed

lemma heat_and_epoch_store [simp]:
  "heat_and_epoch (f\<lparr>fr_heat_epoch := pack_heat_epoch h e\<rparr>) = (h, e)"
  by (simp add: heat_and_epoch_def heat_epoch_roundtrip)

lemma on_access_loop_linearises:
  "\<exists>k \<le> length script. on_access_loop epoch script observed f
     = atomic_access epoch (f\<lparr>fr_heat_epoch := cell_after (take k script) (fr_heat_epoch f)\<rparr>)"
proof (induction script arbitrary: observed f)
  case Nil
  show ?case by (simp add: on_access_loop_Nil)
next
  case (Cons i rest)
  let ?f = "f\<lparr>fr_heat_epoch := interfere i (fr_heat_epoch f)\<rparr>"
  show ?case
  proof (cases "\<not> spurious i \<and> observed = heat_and_epoch ?f")
    case True
    then have "on_access_loop epoch (i # rest) observed f = atomic_access epoch ?f"
      by (simp add: on_access_loop.simps[of _ "i # rest"] cas_heat atomic_access_def Let_def)
    then show ?thesis by (intro exI[of _ 1]) simp
  next
    case False
    then have "on_access_loop epoch (i # rest) observed f = on_access_loop epoch rest (heat_and_epoch ?f) ?f"
      by (auto simp: on_access_loop.simps[of _ "i # rest"] cas_heat Let_def)
    with Cons.IH[of "heat_and_epoch ?f" ?f] obtain k where "k \<le> length rest"
      "on_access_loop epoch (i # rest) observed f
        = atomic_access epoch (?f\<lparr>fr_heat_epoch := cell_after (take k rest) (fr_heat_epoch ?f)\<rparr>)" by auto
    then show ?thesis by (intro exI[of _ "Suc k"]) simp
  qed
qed

section \<open>Lazy decay against eager decay\<close>

text \<open>
  The reference keeps the heat of one frame eagerly: every epoch halves it, every access adds one.
  The lazy pair is the tracker and the frame.
\<close>

datatype heat_event = Epoch | Access

fun eager_step :: "heat_event \<Rightarrow> u32 \<Rightarrow> u32" where
  "eager_step Epoch heat = drop_bit 1 heat"
| "eager_step Access heat = saturating_add heat HEAT_ONE"

fun lazy_step :: "heat_event \<Rightarrow> heat_tracker \<times> frame \<Rightarrow> heat_tracker \<times> frame" where
  "lazy_step Epoch (h, f) = (snd (on_epoch h), f)"
| "lazy_step Access (h, f) = (h, snd (heat_on_access h [] f))"

definition heat_age :: "heat_tracker \<times> frame \<Rightarrow> nat" where
  "heat_age s = unat (ht_epoch (fst s) - snd (heat_and_epoch (snd s)))"

lemma decay_step: "unat e + 1 < 2 ^ 32 \<Longrightarrow> decay heat (e + 1) = drop_bit 1 (decay heat e)"
proof -
  assume "unat e + 1 < 2 ^ 32"
  then have u: "unat (e + 1) = Suc (unat e)" by (subst unat_word_ariths) simp
  show ?thesis
  proof (cases "unat e < 31")
    case True
    then show ?thesis by (simp add: decay_def MAX_DECAY_SHIFT_def word_le_nat_alt u)
  next
    case False
    have "unat (drop_bit 1 (drop_bit 31 heat)) = 0"
      using unat_less_pow[of heat] by (simp add: unat_drop flip: drop_bit_drop_bit)
    then have "drop_bit 1 (drop_bit 31 heat) = 0" unfolding unat_eq_zero .
    with False show ?thesis
      by (cases "unat e = 31") (simp_all add: decay_def MAX_DECAY_SHIFT_def word_le_nat_alt u)
  qed
qed

lemma lazy_epoch:
  assumes "heat_age s + 1 < 2 ^ 32"
  shows "current_heat_raw (fst (lazy_step Epoch s)) (snd (lazy_step Epoch s)) = drop_bit 1 (current_heat_raw (fst s) (snd s))"
    and "heat_age (lazy_step Epoch s) = heat_age s + 1"
proof -
  obtain h f where s: "s = (h, f)" by fastforce
  obtain w e where w: "heat_and_epoch f = (w, e)" by fastforce
  have lt: "unat (ht_epoch h - e) + 1 < 2 ^ 32" using assms by (simp add: heat_age_def s w)
  have eq: "ht_epoch h + 1 - e = (ht_epoch h - e) + 1" by (simp add: algebra_simps)
  show "current_heat_raw (fst (lazy_step Epoch s)) (snd (lazy_step Epoch s)) = drop_bit 1 (current_heat_raw (fst s) (snd s))"
    using decay_step[OF lt] by (simp add: s current_heat_raw_def on_epoch_def w eq)
  show "heat_age (lazy_step Epoch s) = heat_age s + 1"
    using lt by (simp add: s heat_age_def on_epoch_def w eq) (subst unat_word_ariths, simp)
qed

lemma lazy_access:
  "current_heat_raw (fst (lazy_step Access s)) (snd (lazy_step Access s))
     = saturating_add (current_heat_raw (fst s) (snd s)) HEAT_ONE"
  "heat_age (lazy_step Access s) = 0"
proof -
  obtain h f where s: "s = (h, f)" by fastforce
  show "current_heat_raw (fst (lazy_step Access s)) (snd (lazy_step Access s))
     = saturating_add (current_heat_raw (fst s) (snd s)) HEAT_ONE"
    "heat_age (lazy_step Access s) = 0"
    by (simp_all add: s heat_on_access_def on_access_loop_Nil atomic_access_def heat_replacement_def
        current_heat_raw_def heat_age_def decay_def MAX_DECAY_SHIFT_def split: prod.splits)
qed

text \<open>
  C35. Lazy decay is exact: for one frame and any sequence of epochs and accesses shorter than
  the wrap of the epoch counter, the heat read lazily equals the heat of a reference that halves
  the value at every epoch, although the code touches the frame only on an access.
\<close>

theorem lazy_heat_refines_eager:
  assumes "heat_age s + length events < 2 ^ 32"
  shows "(let s' = fold lazy_step events s in current_heat_raw (fst s') (snd s'))
       = fold eager_step events (current_heat_raw (fst s) (snd s))"
  using assms
proof (induction events arbitrary: s)
  case (Cons ev events)
  show ?case
  proof (cases ev)
    case Epoch
    have lt: "heat_age s + 1 < 2 ^ 32" using Cons.prems by simp
    have lt2: "heat_age (lazy_step Epoch s) + length events < 2 ^ 32"
      using Cons.prems lazy_epoch(2)[OF lt] by simp
    from Cons.IH[OF lt2] lazy_epoch(1)[OF lt] show ?thesis by (simp add: Epoch)
  next
    case Access
    have lt2: "heat_age (lazy_step Access s) + length events < 2 ^ 32"
      using Cons.prems lazy_access(2)[of s] by simp
    from Cons.IH[OF lt2] lazy_access(1)[of s] show ?thesis by (simp add: Access)
  qed
qed simp

theorem lazy_heat_refines_eager_witness:
  "let s' = fold lazy_step [Access, Epoch, Access, Epoch, Epoch] (heat_tracker_new, frame_new)
   in current_heat_raw (fst s') (snd s') = 0x600000"
proof -
  have "heat_age (heat_tracker_new, frame_new) = 0"
    "current_heat_raw heat_tracker_new frame_new = 0"
    by (simp_all add: heat_age_def heat_tracker_new_def frame_new_def heat_and_epoch_def
        unpack_heat_epoch_def current_heat_raw_def decay_def)
  with lazy_heat_refines_eager[of "(heat_tracker_new, frame_new)" "[Access, Epoch, Access, Epoch, Epoch]"]
  show ?thesis by (simp add: saturating_add_def HEAT_ONE_def HEAT_FRACTION_BITS_def)
qed

text \<open>
  A concurrent access linearises to one indivisible decay-and-increment of a word the frame
  held during the call.
\<close>

theorem heat_access_linearisable:
  "\<exists>k \<le> length script. heat_on_access h script f
     = atomic_access (ht_epoch h) (f\<lparr>fr_heat_epoch := cell_after (take k script) (fr_heat_epoch f)\<rparr>)"
  unfolding heat_on_access_def by (rule on_access_loop_linearises)

text \<open>
  C38. The epoch is read once, before the loop.  If the epoch advances and another thread records
  its access with the new epoch before this thread's compare-exchange, the elapsed count wraps to
  the maximum: the accumulated heat is dropped to a single access and the stored epoch goes back,
  however hot the frame is.
\<close>

theorem stale_epoch_forgets_heat:
  "heat_on_access \<lparr>ht_epoch = e\<rparr> [Interference (Some (pack_heat_epoch heat (e + 1))) sp] f
     = (HEAT_ONE, f\<lparr>fr_heat_epoch := pack_heat_epoch HEAT_ONE e\<rparr>)"
proof -
  let ?f = "f\<lparr>fr_heat_epoch := pack_heat_epoch heat (e + 1)\<rparr>"
  have r: "heat_replacement e (heat, e + 1) = (HEAT_ONE, e)"
    by (simp add: heat_replacement_def decay_def MAX_DECAY_SHIFT_def saturating_add_def)
  have "atomic_access e ?f = (HEAT_ONE, f\<lparr>fr_heat_epoch := pack_heat_epoch HEAT_ONE e\<rparr>)"
    by (simp add: atomic_access_def r Let_def)
  then show ?thesis
    by (auto simp: heat_on_access_def on_access_loop.simps[of _ "[_]"] interfere_def cas_heat r
        on_access_loop_Nil Let_def)
qed

end
