(* ===== verification/Float64.thy ===== *)
theory Float64
  imports Complex_Main "HOL-Library.Log_Nat"
begin

text \<open>
  The \<open>f64\<close> arithmetic of the policy, the cost accounting and the pool configuration: IEEE 754
  binary64 with round-to-nearest, ties to even.  A finite value is a sign and a non-negative
  rational magnitude (so that the two zeros are distinct); an operation computes exactly and
  rounds once.  The sign and payload of a NaN are not kept: the code orders values by
  \<open>total_cmp\<close> only after testing that they are finite.
\<close>

section \<open>Values and rounding\<close>

datatype f64 = F_NaN | F_Inf bool | F_Fin bool rat

definition ilog2 :: "rat \<Rightarrow> int" where
  "ilog2 q = (case quotient_of q of (n, d) \<Rightarrow>
     (let k = int (floorlog 2 (nat n)) - int (floorlog 2 (nat d)) in
      if 2 powi k \<le> q then k else k - 1))"

definition round_even :: "rat \<Rightarrow> int" where
  "round_even x =
     (let f = \<lfloor>x\<rfloor>; r = x - of_int f in
      if r < 1 / 2 then f else if 1 / 2 < r then f + 1 else if even f then f else f + 1)"

definition ulp_exp :: "rat \<Rightarrow> int" where
  "ulp_exp q = max (ilog2 q - 52) (- 1074)"

definition round_mag :: "rat \<Rightarrow> rat" where
  "round_mag q = of_int (round_even (q / 2 powi ulp_exp q)) * 2 powi ulp_exp q"

definition f_round :: "bool \<Rightarrow> rat \<Rightarrow> f64" where
  "f_round s q =
     (if q = 0 then F_Fin s 0
      else (let m = round_mag q in if 2 ^ 1024 \<le> m then F_Inf s else F_Fin s m))"

section \<open>Operations\<close>

definition f_signed :: "bool \<Rightarrow> rat \<Rightarrow> rat" where
  "f_signed s q = (if s then - q else q)"

definition f_round_signed :: "bool \<Rightarrow> rat \<Rightarrow> f64" where
  "f_round_signed s x = (if x < 0 then f_round True (- x) else if x = 0 then F_Fin s 0 else f_round False x)"

fun f_mul :: "f64 \<Rightarrow> f64 \<Rightarrow> f64" where
  "f_mul F_NaN _ = F_NaN"
| "f_mul _ F_NaN = F_NaN"
| "f_mul (F_Inf s) (F_Inf t) = F_Inf (s \<noteq> t)"
| "f_mul (F_Inf s) (F_Fin t q) = (if q = 0 then F_NaN else F_Inf (s \<noteq> t))"
| "f_mul (F_Fin s p) (F_Inf t) = (if p = 0 then F_NaN else F_Inf (s \<noteq> t))"
| "f_mul (F_Fin s p) (F_Fin t q) = f_round (s \<noteq> t) (p * q)"

fun f_div :: "f64 \<Rightarrow> f64 \<Rightarrow> f64" where
  "f_div F_NaN _ = F_NaN"
| "f_div _ F_NaN = F_NaN"
| "f_div (F_Inf s) (F_Inf t) = F_NaN"
| "f_div (F_Inf s) (F_Fin t q) = F_Inf (s \<noteq> t)"
| "f_div (F_Fin s p) (F_Inf t) = F_Fin (s \<noteq> t) 0"
| "f_div (F_Fin s p) (F_Fin t q) =
     (if q = 0 then (if p = 0 then F_NaN else F_Inf (s \<noteq> t)) else f_round (s \<noteq> t) (p / q))"

fun f_add :: "f64 \<Rightarrow> f64 \<Rightarrow> f64" where
  "f_add F_NaN _ = F_NaN"
| "f_add _ F_NaN = F_NaN"
| "f_add (F_Inf s) (F_Inf t) = (if s = t then F_Inf s else F_NaN)"
| "f_add (F_Inf s) (F_Fin t q) = F_Inf s"
| "f_add (F_Fin s p) (F_Inf t) = F_Inf t"
| "f_add (F_Fin s p) (F_Fin t q) = f_round_signed (s \<and> t) (f_signed s p + f_signed t q)"

fun f_le :: "f64 \<Rightarrow> f64 \<Rightarrow> bool" where
  "f_le F_NaN _ = False"
| "f_le _ F_NaN = False"
| "f_le (F_Inf s) (F_Inf t) = (s \<or> \<not> t)"
| "f_le (F_Inf s) (F_Fin t q) = s"
| "f_le (F_Fin s p) (F_Inf t) = (\<not> t)"
| "f_le (F_Fin s p) (F_Fin t q) = (f_signed s p \<le> f_signed t q)"

definition f_lt :: "f64 \<Rightarrow> f64 \<Rightarrow> bool" where
  "f_lt x y \<longleftrightarrow> f_le x y \<and> \<not> f_le y x"

definition f_eq :: "f64 \<Rightarrow> f64 \<Rightarrow> bool" where
  "f_eq x y \<longleftrightarrow> f_le x y \<and> f_le y x"

definition f_zero :: f64 where "f_zero = F_Fin False 0"

fun f_is_finite :: "f64 \<Rightarrow> bool" where
  "f_is_finite (F_Fin _ _) = True"
| "f_is_finite _ = False"

fun f_is_sign_negative :: "f64 \<Rightarrow> bool" where
  "f_is_sign_negative F_NaN = False"
| "f_is_sign_negative (F_Inf s) = s"
| "f_is_sign_negative (F_Fin s _) = s"

text \<open>\<open>total_cmp\<close> as the order it induces on values that are not NaN.\<close>

fun f_total_le :: "f64 \<Rightarrow> f64 \<Rightarrow> bool" where
  "f_total_le _ F_NaN = True"
| "f_total_le F_NaN _ = False"
| "f_total_le (F_Fin s p) (F_Fin t q) = (if p = 0 \<and> q = 0 then s \<or> \<not> t else f_signed s p \<le> f_signed t q)"
| "f_total_le x y = f_le x y"

fun f_floor :: "f64 \<Rightarrow> f64" where
  "f_floor (F_Fin s q) = (let k = \<lfloor>f_signed s q\<rfloor> in if k = 0 then F_Fin s 0 else F_Fin s (of_int \<bar>k\<bar>))"
| "f_floor x = x"

fun f_ceil :: "f64 \<Rightarrow> f64" where
  "f_ceil (F_Fin s q) = (let k = \<lceil>f_signed s q\<rceil> in if k = 0 then F_Fin s 0 else F_Fin s (of_int \<bar>k\<bar>))"
| "f_ceil x = x"

definition f_min :: "f64 \<Rightarrow> f64 \<Rightarrow> f64" where
  "f_min x y = (if x = F_NaN then y else if y = F_NaN then x else if f_lt y x then y else x)"

definition f_max :: "f64 \<Rightarrow> f64 \<Rightarrow> f64" where
  "f_max x y = (if x = F_NaN then y else if y = F_NaN then x else if f_lt x y then y else x)"

fun f_neg :: "f64 \<Rightarrow> f64" where
  "f_neg F_NaN = F_NaN"
| "f_neg (F_Inf s) = F_Inf (\<not> s)"
| "f_neg (F_Fin s q) = F_Fin (\<not> s) q"

definition f_sub :: "f64 \<Rightarrow> f64 \<Rightarrow> f64" where
  "f_sub x y = f_add x (f_neg y)"

definition f_of_nat :: "nat \<Rightarrow> f64" where
  "f_of_nat n = f_round False (of_nat n)"

text \<open>The saturating cast \<open>as u64\<close> (and \<open>as usize\<close>).\<close>

fun f_as_u64 :: "f64 \<Rightarrow> nat" where
  "f_as_u64 F_NaN = 0"
| "f_as_u64 (F_Inf s) = (if s then 0 else 2 ^ 64 - 1)"
| "f_as_u64 (F_Fin s q) = (if s then 0 else min (nat \<lfloor>q\<rfloor>) (2 ^ 64 - 1))"

definition f_wf :: "f64 \<Rightarrow> bool" where
  "f_wf x \<longleftrightarrow> (case x of F_Fin _ q \<Rightarrow> 0 \<le> q \<and> round_mag q = q \<and> q < 2 ^ 1024 | _ \<Rightarrow> True)"

section \<open>Rounding\<close>

lemma ilog2_bounds:
  assumes "0 < q"
  shows "2 powi ilog2 q \<le> q" and "q < 2 powi (ilog2 q + 1)"
proof -
  obtain n d where nd: "quotient_of q = (n, d)" by (cases "quotient_of q")
  have d: "0 < d" and q: "q = of_int n / of_int d"
    using quotient_of_denom_pos[OF nd] quotient_of_div[OF nd] by auto
  with assms have n: "0 < n" by (simp add: zero_less_divide_iff)
  define a b where "a = floorlog 2 (nat n)" and "b = floorlog 2 (nat d)"
  have a: "2 ^ (a - 1) \<le> nat n \<and> nat n < 2 ^ a" "0 < a"
    and b: "2 ^ (b - 1) \<le> nat d \<and> nat d < 2 ^ b" "0 < b"
    using floorlog_bounds[of "nat n" 2] floorlog_bounds[of "nat d" 2] n d
      floorlog_eq_zero_iff[of 2 "nat n"] floorlog_eq_zero_iff[of 2 "nat d"]
    by (auto simp: a_def b_def)
  have p: "2 powi (int x - int y) = (2 ^ x / 2 ^ y :: rat)" for x y
    by (simp add: power_int_diff)
  have N: "(2 ^ (a - 1) :: rat) \<le> of_int n" "of_int n < (2 ^ a :: rat)"
    using a(1) n by (metis of_nat_le_iff of_nat_nat of_nat_numeral of_nat_power less_imp_le,
      metis of_nat_less_iff of_nat_nat of_nat_numeral of_nat_power less_imp_le)
  have D: "(2 ^ (b - 1) :: rat) \<le> of_int d" "of_int d < (2 ^ b :: rat)"
    using b(1) d by (metis of_nat_le_iff of_nat_nat of_nat_numeral of_nat_power less_imp_le,
      metis of_nat_less_iff of_nat_nat of_nat_numeral of_nat_power less_imp_le)
  have dpos: "(0::rat) < of_int d" using d by simp
  have hi: "q < 2 powi (int a - int b + 1)"
  proof -
    have "q < 2 ^ a / of_int d" unfolding q using N(2) dpos by (simp add: divide_strict_right_mono)
    also have "\<dots> \<le> 2 ^ a / 2 ^ (b - 1)" using D(1) dpos by (intro divide_left_mono) auto
    also have "\<dots> = 2 powi (int a - int b + 1)" using p[of a "b - 1"] b(2) by (simp add: algebra_simps)
    finally show ?thesis .
  qed
  have lo: "2 powi (int a - int b - 1) \<le> q"
  proof -
    have "2 powi (int a - int b - 1) = (2 ^ (a - 1) / 2 ^ b :: rat)"
      using p[of "a - 1" b] a(2) by (simp add: algebra_simps)
    also have "\<dots> \<le> 2 ^ (a - 1) / of_int d" using D(2) dpos by (intro divide_left_mono) auto
    also have "\<dots> \<le> q" unfolding q using N(1) dpos by (intro divide_right_mono) auto
    finally show ?thesis .
  qed
  have e: "ilog2 q = (if 2 powi (int a - int b) \<le> q then int a - int b else int a - int b - 1)"
    by (simp add: ilog2_def nd a_def b_def Let_def)
  show "2 powi ilog2 q \<le> q" using lo by (simp add: e)
  show "q < 2 powi (ilog2 q + 1)" using hi by (simp add: e)
qed

lemma ilog2_mono: "0 < p \<Longrightarrow> p \<le> q \<Longrightarrow> ilog2 p \<le> ilog2 q"
proof (rule ccontr)
  assume a: "0 < p" "p \<le> q" "\<not> ilog2 p \<le> ilog2 q"
  then have "(2::rat) powi (ilog2 q + 1) \<le> 2 powi ilog2 p" by (intro power_int_increasing) auto
  with ilog2_bounds[OF a(1)] ilog2_bounds[of q] a show False by linarith
qed

lemma round_even_int [simp]: "round_even (of_int k) = k"
  by (simp add: round_even_def Let_def)

lemma round_even_mono: "x \<le> y \<Longrightarrow> round_even x \<le> round_even y"
proof -
  assume le: "x \<le> y"
  then have f: "\<lfloor>x\<rfloor> \<le> \<lfloor>y\<rfloor>" by (rule floor_mono)
  show ?thesis
  proof (cases "\<lfloor>x\<rfloor> = \<lfloor>y\<rfloor>")
    case True
    with le show ?thesis by (auto simp: round_even_def Let_def)
  next
    case False
    then have "\<lfloor>x\<rfloor> + 1 \<le> \<lfloor>y\<rfloor>" using f by simp
    moreover have "round_even x \<le> \<lfloor>x\<rfloor> + 1" "\<lfloor>y\<rfloor> \<le> round_even y" by (auto simp: round_even_def Let_def)
    ultimately show ?thesis by linarith
  qed
qed

lemma powi_pos [simp]: "(0::rat) < 2 powi e"
  by simp

text \<open>A multiple of the unit in the last place is a fixed point, and rounding never passes one.\<close>

lemma grid_le:
  assumes "q \<le> of_int k * 2 powi ulp_exp q"
  shows "round_mag q \<le> of_int k * 2 powi ulp_exp q"
proof -
  have "q / 2 powi ulp_exp q \<le> of_int k" using assms by (simp add: pos_divide_le_eq)
  from round_even_mono[OF this] show ?thesis by (simp add: round_mag_def)
qed

lemma grid_ge:
  assumes "of_int k * 2 powi ulp_exp q \<le> q"
  shows "of_int k * 2 powi ulp_exp q \<le> round_mag q"
proof -
  have "of_int k \<le> q / 2 powi ulp_exp q" using assms by (simp add: pos_le_divide_eq)
  from round_even_mono[OF this] show ?thesis by (simp add: round_mag_def)
qed

lemma powi_grid:
  assumes "e \<le> f"
  obtains k :: int where "(2::rat) powi f = of_int k * 2 powi e"
proof -
  have "(2::rat) powi f = 2 powi (f - e) * 2 powi e" by (simp add: power_int_diff)
  moreover have "(2::rat) powi (f - e) = of_int (2 ^ nat (f - e))"
    using assms by (simp add: power_int_def)
  ultimately show ?thesis using that by metis
qed

lemma round_mag_exact:
  assumes "q = of_int k * 2 powi e" "ulp_exp q \<le> e"
  shows "round_mag q = q"
proof -
  obtain j where "(2::rat) powi e = of_int j * 2 powi ulp_exp q" using powi_grid[OF assms(2)] .
  with assms(1) have "q = of_int (k * j) * 2 powi ulp_exp q" by simp
  with grid_le[of q "k * j"] grid_ge[of "k * j" q] show ?thesis by simp
qed

lemma round_mag_nonneg: "0 \<le> q \<Longrightarrow> 0 \<le> round_mag q"
  using grid_ge[of 0 q] by simp

lemma round_mag_mono:
  assumes "0 \<le> p" "p \<le> q"
  shows "round_mag p \<le> round_mag q"
proof (cases "p = 0")
  case True
  then show ?thesis using assms round_mag_nonneg[of q] round_even_int[of 0] by (simp add: round_mag_def)
next
  case False
  then have p: "0 < p" "0 < q" using assms by auto
  show ?thesis
  proof (cases "ulp_exp p = ulp_exp q")
    case True
    then show ?thesis using assms(2) unfolding round_mag_def True
      by (intro mult_right_mono) (auto intro!: round_even_mono simp: divide_right_mono)
  next
    case False
    then have le: "ilog2 p < ilog2 q" "ulp_exp p \<le> ilog2 q" "ulp_exp q \<le> ilog2 q"
      using ilog2_mono[OF p(1) assms(2)] by (auto simp: ulp_exp_def)
    obtain i where i: "(2::rat) powi ilog2 q = of_int i * 2 powi ulp_exp p" using powi_grid[OF le(2)] .
    obtain j where j: "(2::rat) powi ilog2 q = of_int j * 2 powi ulp_exp q" using powi_grid[OF le(3)] .
    have "p < 2 powi (ilog2 p + 1)" by (rule ilog2_bounds) (rule p)
    also have "\<dots> \<le> 2 powi ilog2 q" using le(1) by (intro power_int_increasing) auto
    finally have "round_mag p \<le> 2 powi ilog2 q" using grid_le[of p i] unfolding i[symmetric] by simp
    also have "\<dots> \<le> round_mag q" using grid_ge[of j q] ilog2_bounds(1)[OF p(2)] unfolding j[symmetric] by simp
    finally show ?thesis .
  qed
qed

lemma ilog2_upper: "0 < q \<Longrightarrow> q < 2 powi e \<Longrightarrow> ilog2 q < e"
proof (rule ccontr)
  assume a: "0 < q" "q < 2 powi e" "\<not> ilog2 q < e"
  then have "(2::rat) powi e \<le> 2 powi ilog2 q" by (intro power_int_increasing) auto
  with ilog2_bounds(1)[OF a(1)] a(2) show False by linarith
qed

lemma round_mag_of_nat:
  assumes "n \<le> 2 ^ 53"
  shows "round_mag (of_nat n) = of_nat n"
proof (cases "n = 0 \<or> n = 2 ^ 53")
  case True
  have "ilog2 (2 ^ 53) < 54" by (rule ilog2_upper) (simp_all add: power_int_def)
  then have "round_mag (2 ^ 53) = 2 ^ 53"
    by (intro round_mag_exact[of _ 1 53]) (simp_all add: ulp_exp_def power_int_def)
  moreover have "round_mag 0 = 0" using round_even_int[of 0] by (simp add: round_mag_def)
  ultimately show ?thesis using True by auto
next
  case False
  with assms have n: "0 < n" "n < 2 ^ 53" by auto
  then have "(of_nat n :: rat) < of_nat (2 ^ 53)" unfolding of_nat_less_iff by simp
  then have "ilog2 (of_nat n) < 53" using n by (intro ilog2_upper) (simp_all add: power_int_def)
  then show ?thesis by (intro round_mag_exact[of _ "int n" 0]) (simp_all add: ulp_exp_def)
qed

lemma f_of_nat_exact: "n \<le> 2 ^ 53 \<Longrightarrow> f_of_nat n = F_Fin False (of_nat n)"
proof -
  assume n: "n \<le> 2 ^ 53"
  then have "(of_nat n :: rat) \<le> of_nat (2 ^ 53)" unfolding of_nat_le_iff .
  also have "\<dots> < 2 ^ 1024" by simp
  finally show ?thesis using round_mag_of_nat[OF n] by (auto simp: f_of_nat_def f_round_def Let_def)
qed

text \<open>Scaling an exact count down by a factor of at most one never passes the count.\<close>

lemma f_mul_ceil_le:
  assumes n: "n \<le> 2 ^ 53" and r: "f_le f_zero r" "f_le r (F_Fin False 1)" "f_wf r"
  shows "f_as_u64 (f_ceil (f_mul (f_of_nat n) r)) \<le> n"
proof -
  obtain s p where rp: "r = F_Fin s p" using r by (cases r) (auto simp: f_zero_def)
  have p: "0 \<le> p" "s \<Longrightarrow> p = 0" "p \<le> 1"
    using r rp by (auto simp: f_zero_def f_signed_def f_wf_def split: if_splits)
  define m where "m = round_mag (of_nat n * p)"
  have le: "of_nat n * p \<le> of_nat n" using p(1,3) by (simp add: mult_left_le)
  then have "m \<le> of_nat n" unfolding m_def
    using round_mag_mono[of "of_nat n * p" "of_nat n"] p(1) round_mag_of_nat[OF n] by simp
  moreover have "0 \<le> m" unfolding m_def using p(1) by (intro round_mag_nonneg) simp
  moreover have "(of_nat n :: rat) < 2 ^ 1024"
  proof -
    have "(of_nat n :: rat) \<le> of_nat (2 ^ 53)" using n unfolding of_nat_le_iff .
    also have "\<dots> < 2 ^ 1024" by simp
    finally show ?thesis .
  qed
  ultimately have c: "0 \<le> \<lceil>m\<rceil>" "\<lceil>m\<rceil> \<le> int n" "\<not> 2 ^ 1024 \<le> m"
    by (auto simp: ceiling_le_iff)
  have mul: "f_mul (f_of_nat n) r = (if of_nat n * p = 0 then F_Fin s 0 else F_Fin s m)"
    using c(3) unfolding f_of_nat_exact[OF n] rp by (simp add: f_round_def Let_def m_def)
  show ?thesis
  proof (cases "of_nat n * p = 0")
    case True
    then show ?thesis unfolding mul by (simp add: f_signed_def)
  next
    case False
    then have "\<not> s" using p(2) by auto
    then show ?thesis unfolding mul using False c by (auto simp: f_signed_def Let_def)
  qed
qed

text \<open>Rounding is idempotent, so every rounded result is a value of the format.\<close>

lemma ilog2_powi: "ilog2 (2 powi f) = f"
proof -
  have "ilog2 (2 powi f) < f + 1" by (rule ilog2_upper) (simp_all add: power_int_strict_increasing)
  moreover have "(2::rat) powi f < 2 powi (ilog2 (2 powi f) + 1)" by (rule ilog2_bounds) simp
  then have "\<not> ilog2 (2 powi f) + 1 \<le> f" using power_int_increasing[of "ilog2 (2 powi f) + 1" f "2::rat"] by fastforce
  ultimately show ?thesis by simp
qed

lemma round_mag_idem:
  assumes "0 < q"
  shows "round_mag (round_mag q) = round_mag q"
proof -
  define m e f where "m = round_mag q" and "e = ulp_exp q" and "f = max (ilog2 q + 1) e"
  obtain j where j: "(2::rat) powi f = of_int j * 2 powi e" using powi_grid[of e f] by (auto simp: f_def)
  have "q < 2 powi (ilog2 q + 1)" using assms by (rule ilog2_bounds)
  also have "(2::rat) powi (ilog2 q + 1) \<le> 2 powi f" by (intro power_int_increasing) (auto simp: f_def)
  finally have "m \<le> 2 powi f" using grid_le[of q j] by (simp add: m_def e_def j)
  moreover have "0 \<le> m" using assms by (simp add: m_def round_mag_nonneg)
  moreover have k: "m = of_int (round_even (q / 2 powi e)) * 2 powi e" by (simp add: m_def e_def round_mag_def)
  ultimately consider "m = 0" | "m = 2 powi f" | "0 < m" "m < 2 powi f" by fastforce
  then have "round_mag m = m"
  proof cases
    case 1
    then show ?thesis by (simp add: round_mag_def round_even_def)
  next
    case 2
    then show ?thesis by (intro round_mag_exact[of _ 1 f]) (simp_all add: ulp_exp_def ilog2_powi f_def e_def)
  next
    case 3
    show ?thesis
    proof (cases "ilog2 q + 1 \<le> e")
      case True
      then have "m < 2 powi e" using 3(2) by (simp add: f_def)
      then have "round_even (q / 2 powi e) < 1" using k by simp
      moreover have "0 < round_even (q / 2 powi e)" using 3(1) powi_pos[of e] unfolding k zero_less_mult_iff by linarith
      ultimately show ?thesis by simp
    next
      case False
      then have "ilog2 m < ilog2 q + 1" using ilog2_upper[OF 3(1), of f] 3(2) by (simp add: f_def)
      then show ?thesis using k by (intro round_mag_exact[of m "round_even (q / 2 powi e)" e]) (simp_all add: e_def ulp_exp_def)
    qed
  qed
  then show ?thesis by (simp add: m_def)
qed

lemma f_wf_round: "0 \<le> q \<Longrightarrow> f_wf (f_round s q)"
  using round_mag_idem[of q] round_mag_nonneg[of q]
  by (auto simp: f_round_def f_wf_def Let_def round_mag_def round_even_def)

text \<open>Adding a value that is not negative never makes a sum smaller.\<close>

lemma f_add_grows:
  assumes "f_wf a" "f_wf b" "f_le f_zero a" "f_le f_zero b"
  shows "f_wf (f_add a b)" "f_le f_zero (f_add a b)" "f_le a (f_add a b)"
proof -
  have "f_wf (f_add a b) \<and> f_le f_zero (f_add a b) \<and> f_le a (f_add a b)"
  proof (cases a)
    case F_NaN
    then show ?thesis using assms(3) by (simp add: f_zero_def)
  next
    case (F_Inf s)
    then show ?thesis using assms(3,4) by (cases b) (auto simp: f_zero_def f_wf_def)
  next
    case a: (F_Fin s p)
    show ?thesis
    proof (cases b)
      case F_NaN
      then show ?thesis using assms(4) by (simp add: f_zero_def)
    next
      case (F_Inf t)
      then show ?thesis using assms(4) a by (simp add: f_zero_def f_wf_def)
    next
      case b: (F_Fin t q)
      have pq: "0 \<le> p" "0 \<le> q" "s \<Longrightarrow> p = 0" "t \<Longrightarrow> q = 0" "round_mag p = p"
        using assms a b by (auto simp: f_wf_def f_zero_def f_signed_def split: if_splits)
      have sum: "f_signed s p + f_signed t q = p + q" using pq by (auto simp: f_signed_def)
      show ?thesis
      proof (cases "p + q = 0")
        case True
        then have "p = 0" "q = 0" using pq by auto
        then show ?thesis using a b by (simp add: f_round_signed_def f_signed_def f_wf_def f_zero_def round_mag_def round_even_def)
      next
        case False
        then have pos: "0 < p + q" using pq by auto
        have "p \<le> round_mag (p + q)" using round_mag_mono[of p "p + q"] pq by simp
        then show ?thesis using a b pos pq f_wf_round[of "p + q" False]
          by (auto simp: sum f_round_signed_def f_round_def f_zero_def f_signed_def Let_def)
      qed
    qed
  qed
  then show "f_wf (f_add a b)" "f_le f_zero (f_add a b)" "f_le a (f_add a b)" by simp_all
qed

end
