(* ===== verification/Economic_Policy.thy ===== *)
theory Economic_Policy
  imports Heat_Tracker Float64
begin

text \<open>
  Placement policies: the trait of src/crates/tierbuf/src/policy/mod.rs as a record of operations,
  and the built-in policy of src/crates/tierbuf/src/policy/economic.rs.
\<close>

section \<open>The interface (policy/mod.rs)\<close>

datatype access_kind = ReadAccess | WriteAccess

datatype access_hint = NormalHint | ScanHint | PrefetchHint

record tier_info =
  ti_index :: nat
  ti_name :: string
  ti_price_gb_month :: f64
  ti_read_latency_us :: f64
  ti_write_budget_remaining_bytes :: "nat option"

record 'p policy_ops =
  po_on_access :: "'p \<Rightarrow> frame \<Rightarrow> access_kind \<Rightarrow> 'p \<times> frame"
  po_on_epoch :: "'p \<Rightarrow> 'p"
  po_demotion_target :: "'p \<Rightarrow> frame \<Rightarrow> tier_info list \<Rightarrow> nat option"
  po_admit_to_dram :: "'p \<Rightarrow> page_id \<Rightarrow> access_hint \<Rightarrow> bool"

text \<open>
  What the buffer manager relies on: recording an access, as the trait documents it, updates the
  heat of the frame it is given and leaves the pin, the latch, the occupant and the dirty flag alone.
\<close>

locale placement_policy =
  fixes P :: "'p policy_ops"
  assumes heat_only: "\<exists>w. snd (po_on_access P p f kind) = f\<lparr>fr_heat_epoch := w\<rparr>"

section \<open>The economic policy\<close>

definition GIB_BYTES :: f64 where "GIB_BYTES = F_Fin False (2 ^ 30)"
definition MONTH_SECONDS :: f64 where "MONTH_SECONDS = F_Fin False 2592000"

record economic_config =
  ec_dram_price_gb_month :: f64
  ec_epoch_seconds :: f64
  ec_cpu_cost_usd_per_us :: f64
  ec_read_opportunity_cost_usd :: f64

definition economic_config_default :: economic_config where
  "economic_config_default = \<lparr>ec_dram_price_gb_month = F_Fin False (9 / 2), ec_epoch_seconds = F_Fin False 1,
     ec_cpu_cost_usd_per_us = f_round False (1 / 10 ^ 9), ec_read_opportunity_cost_usd = f_round False (1 / 10 ^ 7)\<rparr>"

record economic_policy =
  ep_config :: economic_config
  ep_heat :: heat_tracker

definition economic_validate_config :: "economic_config \<Rightarrow> tierbuf_error + unit" where
  "economic_validate_config c =
     (if \<not> f_is_finite (ec_dram_price_gb_month c) \<or> f_le (ec_dram_price_gb_month c) f_zero
      then Inl (InvalidConfig ''DRAM price must be finite and greater than zero'')
      else if \<not> f_is_finite (ec_epoch_seconds c) \<or> f_le (ec_epoch_seconds c) f_zero
      then Inl (InvalidConfig ''epoch seconds must be finite and greater than zero'')
      else if \<not> f_is_finite (ec_cpu_cost_usd_per_us c) \<or> f_lt (ec_cpu_cost_usd_per_us c) f_zero
      then Inl (InvalidConfig ''CPU opportunity cost must be finite and non-negative'')
      else if \<not> f_is_finite (ec_read_opportunity_cost_usd c) \<or> f_lt (ec_read_opportunity_cost_usd c) f_zero
      then Inl (InvalidConfig ''read opportunity cost must be finite and non-negative'')
      else Inr ())"

definition economic_new :: "economic_config \<Rightarrow> tierbuf_error + economic_policy" where
  "economic_new c =
     (case economic_validate_config c of
        Inl e \<Rightarrow> Inl e
      | Inr _ \<Rightarrow> Inr \<lparr>ep_config = c, ep_heat = heat_tracker_new\<rparr>)"

definition dram_page_cost_per_second :: "economic_policy \<Rightarrow> f64" where
  "dram_page_cost_per_second p =
     f_div (f_div (f_mul (ec_dram_price_gb_month (ep_config p)) (f_of_nat PAGE_SIZE)) GIB_BYTES) MONTH_SECONDS"

definition read_opportunity_cost :: "economic_policy \<Rightarrow> tier_info \<Rightarrow> f64 option" where
  "read_opportunity_cost p tier =
     (if \<not> f_is_finite (ti_read_latency_us tier) \<or> f_lt (ti_read_latency_us tier) f_zero then None
      else (let cost = f_add (f_mul (ti_read_latency_us tier) (ec_cpu_cost_usd_per_us (ep_config p)))
                         (ec_read_opportunity_cost_usd (ep_config p))
            in if f_is_finite cost then Some cost else None))"

definition break_even_seconds :: "economic_policy \<Rightarrow> tier_info \<Rightarrow> f64 option" where
  "break_even_seconds p tier =
     map_option (\<lambda>read_cost. f_div read_cost (dram_page_cost_per_second p)) (read_opportunity_cost p tier)"

definition estimated_reaccess_seconds :: "economic_policy \<Rightarrow> frame \<Rightarrow> f64" where
  "estimated_reaccess_seconds p f =
     (let raw_heat = current_heat_raw (ep_heat p) f in
      if raw_heat = 0 then F_Inf False
      else f_div (f_mul (ec_epoch_seconds (ep_config p)) (f_of_nat (unat HEAT_ONE))) (f_of_nat (unat raw_heat)))"

definition is_eligible :: "economic_policy \<Rightarrow> tier_info \<Rightarrow> bool" where
  "is_eligible p tier \<longleftrightarrow> f_is_finite (ti_price_gb_month tier) \<and> f_le f_zero (ti_price_gb_month tier)
     \<and> read_opportunity_cost p tier \<noteq> None
     \<and> (case ti_write_budget_remaining_bytes tier of None \<Rightarrow> True | Some remaining \<Rightarrow> PAGE_SIZE \<le> remaining)"

definition economic_on_access :: "economic_policy \<Rightarrow> frame \<Rightarrow> access_kind \<Rightarrow> economic_policy \<times> frame" where
  "economic_on_access p f kind = (p, snd (heat_on_access (ep_heat p) [] f))"

definition economic_on_epoch :: "economic_policy \<Rightarrow> economic_policy" where
  "economic_on_epoch p = p\<lparr>ep_heat := snd (on_epoch (ep_heat p))\<rparr>"

text \<open>\<open>Iterator::min_by\<close> keeps the first of several minimal elements.\<close>

definition min_by :: "('a \<Rightarrow> f64) \<Rightarrow> 'a list \<Rightarrow> 'a option" where
  "min_by key xs =
     (case xs of [] \<Rightarrow> None
      | y # ys \<Rightarrow> Some (foldl (\<lambda>best z. if f_total_le (key best) (key z) then best else z) y ys))"

definition worthwhile :: "economic_policy \<Rightarrow> frame \<Rightarrow> tier_info \<Rightarrow> bool" where
  "worthwhile p f tier \<longleftrightarrow>
     (case break_even_seconds p tier of None \<Rightarrow> False
      | Some break_even \<Rightarrow> f_le break_even (estimated_reaccess_seconds p f))"

definition economic_demotion_target :: "economic_policy \<Rightarrow> frame \<Rightarrow> tier_info list \<Rightarrow> nat option" where
  "economic_demotion_target p f tiers =
     (case min_by ti_read_latency_us (filter (is_eligible p) tiers) of
        None \<Rightarrow> None
      | Some fastest \<Rightarrow>
          (case min_by ti_price_gb_month (filter (worthwhile p f) (filter (is_eligible p) tiers)) of
             None \<Rightarrow> Some (ti_index fastest)
           | Some tier \<Rightarrow> Some (ti_index tier)))"

definition economic_admit_to_dram :: "economic_policy \<Rightarrow> page_id \<Rightarrow> access_hint \<Rightarrow> bool" where
  "economic_admit_to_dram p pid hint \<longleftrightarrow> hint \<noteq> ScanHint"

definition economic_ops :: "economic_policy policy_ops" where
  "economic_ops = \<lparr>po_on_access = economic_on_access, po_on_epoch = economic_on_epoch,
     po_demotion_target = economic_demotion_target, po_admit_to_dram = economic_admit_to_dram\<rparr>"

interpretation economic: placement_policy economic_ops
  by unfold_locales (auto simp: economic_ops_def economic_on_access_def heat_on_access_def on_access_loop_Nil atomic_access_def Let_def)

section \<open>The minimum\<close>

lemma f_total_le_refl: "f_total_le x x"
  by (cases x) auto

lemma f_total_le_total: "f_total_le x y \<or> f_total_le y x"
  by (cases x; cases y) (auto simp: f_signed_def)

lemma f_total_le_trans: "f_total_le x y \<Longrightarrow> f_total_le y z \<Longrightarrow> f_total_le x z"
  by (cases x; cases y; cases z) (auto simp: f_signed_def split: if_splits)

lemma foldl_min:
  "foldl (\<lambda>best z. if f_total_le (key best) (key z) then best else z) y ys \<in> insert y (set ys)
   \<and> (\<forall>z \<in> insert y (set ys). f_total_le (key (foldl (\<lambda>best z. if f_total_le (key best) (key z) then best else z) y ys)) (key z))"
proof (induction ys arbitrary: y)
  case Nil
  show ?case by (simp add: f_total_le_refl)
next
  case (Cons z zs)
  let ?b = "if f_total_le (key y) (key z) then y else z"
  have "f_total_le (key ?b) (key y)" "f_total_le (key ?b) (key z)"
    using f_total_le_total[of "key y" "key z"] by (auto simp: f_total_le_refl)
  with Cons.IH[of ?b] show ?case by (auto intro: f_total_le_trans)
qed

lemma min_by_None: "min_by key xs = None \<longleftrightarrow> xs = []"
  by (cases xs) (simp_all add: min_by_def)

lemma min_by_Some:
  assumes "min_by key xs = Some m"
  shows "m \<in> set xs \<and> (\<forall>z \<in> set xs. f_total_le (key m) (key z))"
proof (cases xs)
  case (Cons y ys)
  with assms foldl_min[of key y ys] show ?thesis by (auto simp: min_by_def)
qed (use assms in \<open>simp add: min_by_def\<close>)

text \<open>
  C34. The demotion target is the cheapest tier that pays off, else the fastest usable one: there
  is no target exactly when no tier is eligible; otherwise the target is the index of an eligible
  tier, which has a whole page of write budget left; if some eligible tier's break-even interval
  is at most the estimated reaccess interval the target is such a tier with the lowest price, and
  if none is, the target is an eligible tier with the lowest read latency.
\<close>

theorem demotion_target_optimal:
  "(economic_demotion_target p f tiers = None \<longleftrightarrow> (\<forall>t \<in> set tiers. \<not> is_eligible p t))
   \<and> (\<forall>i. economic_demotion_target p f tiers = Some i \<longrightarrow>
       (\<exists>t \<in> set tiers. ti_index t = i \<and> is_eligible p t
          \<and> (\<forall>r. ti_write_budget_remaining_bytes t = Some r \<longrightarrow> PAGE_SIZE \<le> r)
          \<and> (if \<exists>u \<in> set tiers. is_eligible p u \<and> worthwhile p f u
             then worthwhile p f t \<and> (\<forall>u \<in> set tiers. is_eligible p u \<and> worthwhile p f u \<longrightarrow>
                    f_total_le (ti_price_gb_month t) (ti_price_gb_month u))
             else (\<forall>u \<in> set tiers. is_eligible p u \<longrightarrow> f_total_le (ti_read_latency_us t) (ti_read_latency_us u)))))"
proof (intro conjI allI impI)
  let ?el = "filter (is_eligible p) tiers" and ?ww = "filter (worthwhile p f) (filter (is_eligible p) tiers)"
  show "economic_demotion_target p f tiers = None \<longleftrightarrow> (\<forall>t \<in> set tiers. \<not> is_eligible p t)"
    by (auto simp: economic_demotion_target_def min_by_None filter_empty_conv split: option.splits dest!: min_by_Some)
  fix i assume tgt: "economic_demotion_target p f tiers = Some i"
  have budget: "PAGE_SIZE \<le> r" if "is_eligible p t" "ti_write_budget_remaining_bytes t = Some r" for t r
    using that by (simp add: is_eligible_def)
  show "\<exists>t \<in> set tiers. ti_index t = i \<and> is_eligible p t
          \<and> (\<forall>r. ti_write_budget_remaining_bytes t = Some r \<longrightarrow> PAGE_SIZE \<le> r)
          \<and> (if \<exists>u \<in> set tiers. is_eligible p u \<and> worthwhile p f u
             then worthwhile p f t \<and> (\<forall>u \<in> set tiers. is_eligible p u \<and> worthwhile p f u \<longrightarrow>
                    f_total_le (ti_price_gb_month t) (ti_price_gb_month u))
             else (\<forall>u \<in> set tiers. is_eligible p u \<longrightarrow> f_total_le (ti_read_latency_us t) (ti_read_latency_us u)))"
  proof (cases "?ww = []")
    case True
    then obtain t where "min_by ti_read_latency_us ?el = Some t" "ti_index t = i"
      using tgt min_by_None[of ti_price_gb_month ?ww]
      by (auto simp: economic_demotion_target_def split: option.splits)
    with min_by_Some[of ti_read_latency_us ?el t] True budget show ?thesis
      by (auto simp: filter_empty_conv)
  next
    case False
    then obtain t where t: "min_by ti_price_gb_month ?ww = Some t" "ti_index t = i"
      using tgt min_by_None[of ti_price_gb_month ?ww]
      by (auto simp: economic_demotion_target_def split: option.splits)
    from min_by_Some[OF t(1)] t(2) budget have
      "t \<in> set tiers" "is_eligible p t" "worthwhile p f t"
      "\<And>u. u \<in> set tiers \<Longrightarrow> is_eligible p u \<Longrightarrow> worthwhile p f u \<Longrightarrow> f_total_le (ti_price_gb_month t) (ti_price_gb_month u)"
      by auto
    with t(2) budget show ?thesis by (intro bexI[of _ t]) auto
  qed
qed

theorem demotion_target_optimal_witness:
  "economic_demotion_target \<lparr>ep_config = \<lparr>ec_dram_price_gb_month = F_Fin False 4, ec_epoch_seconds = F_Fin False 1,
       ec_cpu_cost_usd_per_us = f_zero, ec_read_opportunity_cost_usd = f_zero\<rparr>, ep_heat = heat_tracker_new\<rparr> frame_new
     [\<lparr>ti_index = 2, ti_name = ''worn'', ti_price_gb_month = f_zero, ti_read_latency_us = f_zero,
       ti_write_budget_remaining_bytes = Some 5\<rparr>,
      \<lparr>ti_index = 3, ti_name = ''ssd'', ti_price_gb_month = F_Fin False 1, ti_read_latency_us = f_zero,
       ti_write_budget_remaining_bytes = None\<rparr>] = Some 3"
proof -
  let ?p = "\<lparr>ep_config = \<lparr>ec_dram_price_gb_month = F_Fin False 4, ec_epoch_seconds = F_Fin False 1,
       ec_cpu_cost_usd_per_us = f_zero, ec_read_opportunity_cost_usd = f_zero\<rparr>, ep_heat = heat_tracker_new\<rparr>"
  let ?a = "\<lparr>ti_index = 2, ti_name = ''worn'', ti_price_gb_month = f_zero, ti_read_latency_us = f_zero,
       ti_write_budget_remaining_bytes = Some 5\<rparr>"
  let ?b = "\<lparr>ti_index = 3, ti_name = ''ssd'', ti_price_gb_month = F_Fin False 1, ti_read_latency_us = f_zero,
       ti_write_budget_remaining_bytes = None\<rparr>"
  have "is_eligible ?p ?b" "\<not> is_eligible ?p ?a"
    by (simp_all add: is_eligible_def read_opportunity_cost_def f_zero_def f_lt_def f_signed_def
        f_round_def f_round_signed_def PAGE_SIZE_def Let_def)
  with demotion_target_optimal[of ?p frame_new "[?a, ?b]"] show ?thesis
    by (cases "economic_demotion_target ?p frame_new [?a, ?b]") auto
qed

end
