(* ===== verification/Bench_Workload.thy ===== *)
theory Bench_Workload
  imports Bench_Random Economic_Policy
begin

text \<open>
  The accesses a worker of the benchmark makes (src/crates/tierbuf-bench/src/main.rs): the Zipf
  sampler, the choice between point accesses and the sequential scan, the first byte that marks a
  page and the digest of a scanned page.
\<close>

section \<open>The Zipf sampler\<close>

text \<open>
  \<open>powf\<close> is the power function of the platform, whose last bits Rust leaves open: a parameter.  The
  cumulative weights are a partitioned slice, so \<open>partition_point\<close> is the length of the prefix.
\<close>

definition ZIPF_THETA :: f64 where "ZIPF_THETA = f_round False (99 / 100)"

record zipf_sampler =
  zs_cumulative :: "f64 list"
  zs_total :: f64

fun zipf_loop :: "(f64 \<Rightarrow> f64 \<Rightarrow> f64) \<Rightarrow> nat list \<Rightarrow> f64 \<Rightarrow> f64 list \<Rightarrow> f64 list \<times> f64" where
  "zipf_loop powf [] acc cumulative = (cumulative, acc)"
| "zipf_loop powf (rank # ranks) acc cumulative =
     (let acc = f_add acc (f_div (F_Fin False 1) (powf (f_of_nat rank) ZIPF_THETA))
      in zipf_loop powf ranks acc (cumulative @ [acc]))"

definition zipf_new :: "(f64 \<Rightarrow> f64 \<Rightarrow> f64) \<Rightarrow> nat \<Rightarrow> string + zipf_sampler" where
  "zipf_new powf item_count =
     (if item_count = 0 then Inl ''Zipf sampler requires at least one item''
      else (case zipf_loop powf [1..<item_count + 1] f_zero [] of
              (cumulative, acc) \<Rightarrow> Inr \<lparr>zs_cumulative = cumulative, zs_total = acc\<rparr>))"

definition zipf_len :: "zipf_sampler \<Rightarrow> nat" where
  "zipf_len z = length (zs_cumulative z)"

definition partition_point :: "('a \<Rightarrow> bool) \<Rightarrow> 'a list \<Rightarrow> nat" where
  "partition_point p xs = length (takeWhile p xs)"

definition zipf_sample :: "zipf_sampler \<Rightarrow> u64 \<Rightarrow> nat" where
  "zipf_sample z random =
     (let unit = f_div (f_of_nat (unat random)) (f_add (f_of_nat (2 ^ 64 - 1)) (F_Fin False 1));
          target = f_mul unit (zs_total z)
      in min (partition_point (\<lambda>cumulative. f_le cumulative target) (zs_cumulative z)) (length (zs_cumulative z) - 1))"

section \<open>The next access\<close>

definition POINT_ACCESS_PERCENT :: u64 where "POINT_ACCESS_PERCENT = 70"

record access_selection =
  as_index :: nat
  as_hint :: access_hint

record workload_state =
  ws_random :: XorShift64
  ws_scan_cursor :: nat

definition workload_new :: "u64 \<Rightarrow> nat \<Rightarrow> workload_state" where
  "workload_new seed scan_start = \<lparr>ws_random = xorshift_new seed, ws_scan_cursor = scan_start\<rparr>"

definition next_access :: "zipf_sampler \<Rightarrow> u64 \<Rightarrow> workload_state \<Rightarrow> access_selection \<times> workload_state" where
  "next_access z point_access_percent w =
     (case next_u64 (ws_random w) of (value, random) \<Rightarrow>
        (if value mod 100 < point_access_percent
         then (case next_u64 random of (value', random') \<Rightarrow>
                 (\<lparr>as_index = zipf_sample z value', as_hint = NormalHint\<rparr>, w\<lparr>ws_random := random'\<rparr>))
         else (let index = ws_scan_cursor w
               in (\<lparr>as_index = index, as_hint = ScanHint\<rparr>,
                   w\<lparr>ws_random := random, ws_scan_cursor := (ws_scan_cursor w + 1) mod zipf_len z\<rparr>))))"

text \<open>The position at which a worker starts its scan, computed in \<open>run_worker\<close>.\<close>

definition scan_start :: "nat \<Rightarrow> nat \<Rightarrow> nat \<Rightarrow> nat" where
  "scan_start worker_id worker_count len =
     (case checked_mul_u64 worker_id len of
        Some value \<Rightarrow> value div worker_count
      | None \<Rightarrow> worker_id mod len)"

section \<open>Page contents\<close>

definition page_marker :: "nat \<Rightarrow> u8" where
  "page_marker index = word_of_nat ((index * 131 + 17) mod 2 ^ 64 mod 251 + 1)"

definition full_page_digest :: "page \<Rightarrow> u64" where
  "full_page_digest page =
     (case fold (\<lambda>byte (first, second).
                   (let value = ucast byte :: u64
                    in ((first XOR value) * 0x00000100000001b3,
                        (second XOR word_rotl 1 value) * 0x9e3779b185ebca87)))
              page (0xcbf29ce484222325, 0x6c62272e07bb0142) of
        (first, second) \<Rightarrow> first XOR word_rotl 29 second)"

definition duration_as_nanos_u64 :: "nat \<Rightarrow> u64" where
  "duration_as_nanos_u64 nanos = word_of_nat (min nanos (2 ^ 64 - 1))"

section \<open>The sampler\<close>

text \<open>The \<open>n\<close> accesses that follow a state of the workload.\<close>

fun accesses :: "zipf_sampler \<Rightarrow> u64 \<Rightarrow> nat \<Rightarrow> workload_state \<Rightarrow> access_selection list" where
  "accesses z percent 0 w = []"
| "accesses z percent (Suc n) w = (case next_access z percent w of (a, w') \<Rightarrow> a # accesses z percent n w')"

lemma zipf_loop_length: "length (fst (zipf_loop powf ranks acc cumulative)) = length ranks + length cumulative"
  by (induction powf ranks acc cumulative rule: zipf_loop.induct) (simp_all add: Let_def)

lemma zipf_new_len: "zipf_new powf n = Inr z \<Longrightarrow> zipf_len z = n \<and> 0 < n"
  using zipf_loop_length[of powf "[1..<n + 1]" f_zero "[]"]
  by (auto simp: zipf_new_def zipf_len_def split: if_splits prod.splits)

lemma f_le_trans: "f_le a b \<Longrightarrow> f_le b c \<Longrightarrow> f_le a c"
  by (cases a; cases b; cases c) auto

text \<open>What the code relies on of the platform's power function: a rank has a positive weight.\<close>

definition powf_positive :: "(f64 \<Rightarrow> f64 \<Rightarrow> f64) \<Rightarrow> bool" where
  "powf_positive powf \<longleftrightarrow> (\<forall>rank. f_wf (powf (f_of_nat rank) ZIPF_THETA) \<and> (0 < rank \<longrightarrow> f_lt f_zero (powf (f_of_nat rank) ZIPF_THETA)))"

lemma f_inverse_nonneg:
  assumes "f_lt f_zero x" "f_wf x"
  shows "f_wf (f_div (F_Fin False 1) x)" "f_le f_zero (f_div (F_Fin False 1) x)"
proof -
  have "f_wf (f_div (F_Fin False 1) x) \<and> f_le f_zero (f_div (F_Fin False 1) x)"
  proof (cases x)
    case F_NaN
    then show ?thesis using assms by (simp add: f_lt_def f_zero_def)
  next
    case (F_Inf t)
    have "f_wf (F_Fin t 0)" using f_wf_round[of 0 t] by (simp add: f_round_def)
    then show ?thesis using F_Inf by (simp add: f_zero_def f_signed_def)
  next
    case (F_Fin t q)
    show ?thesis
    proof (cases t)
      case False
      then have q: "0 < q" using assms F_Fin by (auto simp: f_lt_def f_zero_def f_signed_def)
      then show ?thesis using F_Fin False f_wf_round[of "1 / q" False] round_mag_nonneg[of "1 / q"]
        by (auto simp: f_round_def f_zero_def f_signed_def Let_def)
    next
      case True
      then show ?thesis using assms F_Fin by (auto simp: f_lt_def f_zero_def f_signed_def f_wf_def)
    qed
  qed
  then show "f_wf (f_div (F_Fin False 1) x)" "f_le f_zero (f_div (F_Fin False 1) x)" by simp_all
qed

lemma zipf_new_ok: "0 < n \<Longrightarrow> \<exists>z. zipf_new powf n = Inr z"
  by (simp add: zipf_new_def split: prod.splits)

lemma zipf_loop_sorted:
  assumes "powf_positive powf" "\<forall>rank \<in> set ranks. 0 < rank"
    and "f_wf acc" "f_le f_zero acc" "sorted_wrt f_le cumulative" "\<forall>c \<in> set cumulative. f_le c acc"
  shows "sorted_wrt f_le (fst (zipf_loop powf ranks acc cumulative))"
  using assms(2-6)
proof (induction ranks arbitrary: acc cumulative)
  case (Cons rank ranks)
  have "f_lt f_zero (powf (f_of_nat rank) ZIPF_THETA)" "f_wf (powf (f_of_nat rank) ZIPF_THETA)"
    using assms(1) Cons.prems(1) by (auto simp: powf_positive_def)
  note q = f_inverse_nonneg[OF this]
  note g = f_add_grows[OF Cons.prems(2) q(1) Cons.prems(3) q(2)]
  have le: "f_le c (f_add acc (f_div (F_Fin False 1) (powf (f_of_nat rank) ZIPF_THETA)))" if "c \<in> set cumulative" for c
    using Cons.prems(5) that g(3) f_le_trans by blast
  have "f_le x x" if "f_le f_zero x" for x using that by (cases x) (auto simp: f_zero_def)
  then show ?case using Cons.IH[OF _ g(1,2)] Cons.prems(1,4) g(2) le by (simp add: Let_def sorted_wrt_append)
qed simp

lemma zipf_sample_lt: "zipf_new powf n = Inr z \<Longrightarrow> zipf_sample z r < n"
  using zipf_new_len[of powf n z] by (auto simp: zipf_sample_def zipf_len_def Let_def min_less_iff_disj)

text \<open>
  The Zipf sampler has a non-decreasing list of cumulative weights, one per item, over which its
  search is defined, and samples by inversion: the chosen item is the first whose cumulative weight
  exceeds the target, or the last item.
\<close>

theorem zipf_samples_by_inversion:
  assumes "powf_positive powf" "zipf_new powf n = Inr z"
  shows "length (zs_cumulative z) = n \<and> sorted_wrt f_le (zs_cumulative z) \<and> zipf_sample z random < n
    \<and> (let target = f_mul (f_div (f_of_nat (unat random)) (f_add (f_of_nat (2 ^ 64 - 1)) (F_Fin False 1))) (zs_total z) in
       (\<forall>j < zipf_sample z random. f_le (zs_cumulative z ! j) target)
       \<and> (zipf_sample z random = n - 1 \<or> \<not> f_le (zs_cumulative z ! zipf_sample z random) target))"
proof -
  have n: "length (zs_cumulative z) = n" "0 < n" using zipf_new_len[OF assms(2)] by (simp_all add: zipf_len_def)
  have "f_wf f_zero" using f_wf_round[of 0 False] by (simp add: f_round_def f_zero_def)
  moreover have "f_le f_zero f_zero" by (simp add: f_zero_def)
  moreover have "\<forall>rank \<in> set [1..<n + 1]. 0 < rank" by auto
  ultimately have "sorted_wrt f_le (fst (zipf_loop powf [1..<n + 1] f_zero []))" using assms(1) by (intro zipf_loop_sorted) simp_all
  then have "sorted_wrt f_le (zs_cumulative z)" using assms(2) by (auto simp: zipf_new_def split: if_splits prod.splits)
  moreover have "zipf_sample z random < n" using zipf_sample_lt[OF assms(2)] .
  moreover define t where "t = f_mul (f_div (f_of_nat (unat random)) (f_add (f_of_nat (2 ^ 64 - 1)) (F_Fin False 1))) (zs_total z)"
  define k where "k = length (takeWhile (\<lambda>c. f_le c t) (zs_cumulative z))"
  have s: "zipf_sample z random = min k (n - 1)" by (simp add: zipf_sample_def Let_def partition_point_def k_def t_def n)
  have "f_le (zs_cumulative z ! j) t" if "j < k" for j
    using that nth_mem[of j "takeWhile (\<lambda>c. f_le c t) (zs_cumulative z)"] set_takeWhileD takeWhile_nth unfolding k_def by metis
  moreover have "\<not> f_le (zs_cumulative z ! k) t" if "k < n"
    using nth_length_takeWhile[of "\<lambda>c. f_le c t" "zs_cumulative z"] that n unfolding k_def by simp
  ultimately show ?thesis using n unfolding Let_def t_def[symmetric] s by (auto simp: min_def)
qed

theorem zipf_samples_by_inversion_witness:
  "\<exists>z. powf_positive (\<lambda>x y. x) \<and> zipf_new (\<lambda>x y. x) 3 = Inr z \<and> sorted_wrt f_le (zs_cumulative z) \<and> zipf_sample z 5 < 3"
proof -
  have "f_wf (f_of_nat rank) \<and> (0 < rank \<longrightarrow> f_lt f_zero (f_of_nat rank))" for rank
  proof -
    have "1 \<le> round_mag (of_nat rank)" if "0 < rank"
      using round_mag_mono[of 1 "of_nat rank"] round_mag_of_nat[of 1] that by simp
    then show ?thesis using f_wf_round[of "of_nat rank" False]
      by (auto simp: f_of_nat_def f_round_def f_lt_def f_zero_def f_signed_def Let_def)
  qed
  then have p: "powf_positive (\<lambda>x y. x)" by (simp add: powf_positive_def)
  obtain z where z: "zipf_new (\<lambda>x y. x) 3 = Inr z" using zipf_new_ok[of 3] by auto
  show ?thesis using zipf_samples_by_inversion[OF p z, of 5] p z by blast
qed

section \<open>The accesses of a worker\<close>

lemma scan_start_lt:
  assumes "worker_id < worker_count" "0 < len"
  shows "scan_start worker_id worker_count len < len"
proof -
  have "worker_id * len < worker_count * len" using assms by simp
  then have "worker_id * len div worker_count < len" by (simp add: less_mult_imp_div_less mult.commute)
  then show ?thesis using assms(2) by (simp add: scan_start_def split: option.splits) (simp add: checked_mul_u64_def split: if_splits)
qed

lemma next_access_cases:
  obtains (point) i w' where "next_access z percent w = (\<lparr>as_index = zipf_sample z i, as_hint = NormalHint\<rparr>, w')"
    "ws_scan_cursor w' = ws_scan_cursor w" "percent \<noteq> 0"
  | (scan) w' where "next_access z percent w = (\<lparr>as_index = ws_scan_cursor w, as_hint = ScanHint\<rparr>, w')"
    "ws_scan_cursor w' = (ws_scan_cursor w + 1) mod zipf_len z"
proof -
  obtain v x v' x' where n: "next_u64 (ws_random w) = (v, x)" "next_u64 x = (v', x')" by (metis surj_pair)
  show ?thesis
  proof (cases "v mod 100 < percent")
    case True
    then have "percent \<noteq> 0" by auto
    then show ?thesis using True n point[of v' "w\<lparr>ws_random := x'\<rparr>"] by (simp add: next_access_def)
  next
    case False
    then show ?thesis using n scan by (simp add: next_access_def)
  qed
qed

text \<open>Every access is to a page of the dataset, and the scan goes round the dataset page by page.\<close>

lemma accesses_ok:
  assumes "zipf_new powf n = Inr z" "ws_scan_cursor w < n"
  shows "(\<forall>a \<in> set (accesses z percent m w). as_index a < n \<and> (as_hint a = ScanHint \<or> as_hint a = NormalHint \<and> percent \<noteq> 0))
    \<and> map as_index (filter (\<lambda>a. as_hint a = ScanHint) (accesses z percent m w))
      = map (\<lambda>k. (ws_scan_cursor w + k) mod n) [0..<length (filter (\<lambda>a. as_hint a = ScanHint) (accesses z percent m w))]
    \<and> length (accesses z percent m w) = m"
  using assms(2)
proof (induction m arbitrary: w)
  case (Suc m)
  have n: "zipf_len z = n" "0 < n" using zipf_new_len[OF assms(1)] by auto
  show ?case
  proof (cases rule: next_access_cases[of z percent w])
    case (point i w')
    then show ?thesis using Suc.IH[of w'] Suc.prems zipf_sample_lt[OF assms(1)] by simp
  next
    case (scan w')
    then have lt: "ws_scan_cursor w' < n" using n by simp
    have e: "(ws_scan_cursor w' + k) mod n = (ws_scan_cursor w + Suc k) mod n" for k
      using scan(2) n by (metis add_Suc_right add_Suc_shift add.commute mod_add_left_eq plus_1_eq_Suc)
    have u: "map f [0..<Suc k] = f 0 # map (\<lambda>j. f (Suc j)) [0..<k]" for f :: "nat \<Rightarrow> nat" and k
      by (simp only: upt_conv_Cons zero_less_Suc list.map map_Suc_upt[symmetric] map_map comp_def)
    show ?thesis using scan(1) Suc.IH[OF lt] Suc.prems unfolding e by (simp add: u del: upt_Suc)
  qed
qed simp

text \<open>
  A worker of the benchmark only accesses pages of the dataset, never with the prefetch hint and
  only by scanning when the share of point accesses is zero; its scans visit the dataset page by page
  from its own starting position, wrapping at the end.
\<close>

theorem workload_in_range:
  assumes "zipf_new powf n = Inr z" "worker_id < worker_count"
  shows "let start = scan_start worker_id worker_count n; xs = accesses z percent m (workload_new seed start);
             scans = filter (\<lambda>a. as_hint a = ScanHint) xs
    in length xs = m \<and> (\<forall>a \<in> set xs. as_index a < n \<and> (as_hint a = ScanHint \<or> as_hint a = NormalHint \<and> percent \<noteq> 0))
     \<and> map as_index scans = map (\<lambda>k. (start + k) mod n) [0..<length scans]"
proof -
  have "0 < n" using zipf_new_len[OF assms(1)] by simp
  then have s: "ws_scan_cursor (workload_new seed (scan_start worker_id worker_count n)) < n"
    using scan_start_lt[OF assms(2)] by (simp add: workload_new_def)
  show ?thesis unfolding Let_def
    using accesses_ok[OF assms(1) s] by (simp add: workload_new_def)
qed

theorem workload_in_range_witness:
  "\<exists>z. zipf_new (\<lambda>x y. F_Fin False 1) 5 = Inr z \<and> (\<forall>a \<in> set (accesses z 70 100 (workload_new 1 (scan_start 1 2 5))). as_index a < 5)"
proof -
  obtain z where z: "zipf_new (\<lambda>x y. F_Fin False 1) 5 = Inr z" using zipf_new_ok[of 5] by auto
  show ?thesis using workload_in_range[OF z, of 1 2 70 100 1] z by (auto simp: Let_def)
qed

section \<open>Markers\<close>

lemma unat_page_marker: "unat (page_marker i) = (i * 131 + 17) mod 2 ^ 64 mod 251 + 1"
proof -
  have "(i * 131 + 17) mod 2 ^ 64 mod 251 < 251" by simp
  then show ?thesis by (simp add: page_marker_def unsigned_of_nat take_bit_eq_mod del: mod_mod_trivial of_nat_add of_nat_Suc add_Suc_right)
qed

text \<open>
  A marker is never zero, so a page that was not initialised is detected, and two pages of a
  dataset carry the same marker only at a distance that is a multiple of 251 pages.
\<close>

theorem page_markers_distinguish:
  assumes "i < 2 ^ 56" "j < 2 ^ 56"
  shows "page_marker i \<noteq> 0 \<and> (page_marker i = page_marker j \<longleftrightarrow> i mod 251 = j mod 251)"
proof -
  have small: "(k * 131 + 17) mod 2 ^ 64 = k * 131 + 17" if "k < 2 ^ 56" for k :: nat using that by simp
  have "page_marker i = page_marker j \<longleftrightarrow> (i * 131 + 17) mod 251 = (j * 131 + 17) mod 251"
    unfolding word_unat_eq_iff unat_page_marker small[OF assms(1)] small[OF assms(2)] by simp
  also have "\<dots> \<longleftrightarrow> i mod 251 = j mod 251"
  proof
    have undo: "(23 * ((k * 131 + 17) mod 251) + 111) mod 251 = k mod 251" for k :: nat
    proof -
      have "(23 * ((k * 131 + 17) mod 251) + 111) mod 251 = (23 * (k * 131 + 17) + 111) mod 251"
        by (metis mod_add_left_eq mod_mult_right_eq)
      also have "23 * (k * 131 + 17) + 111 = k + 251 * (12 * k + 2)" by simp
      finally show ?thesis unfolding mod_mult_self2 .
    qed
    show "i mod 251 = j mod 251" if "(i * 131 + 17) mod 251 = (j * 131 + 17) mod 251"
      using undo[of i] undo[of j] that by simp
    show "(i * 131 + 17) mod 251 = (j * 131 + 17) mod 251" if "i mod 251 = j mod 251"
      using that by (metis mod_add_left_eq mod_mult_left_eq)
  qed
  finally show ?thesis using unat_page_marker[of i] by (metis add_is_0 unat_0 zero_neq_one)
qed

theorem page_markers_distinguish_witness: "page_marker 3 \<noteq> 0 \<and> page_marker 3 \<noteq> page_marker 4 \<and> page_marker 3 = page_marker 254"
  using page_markers_distinguish[of 3 4] page_markers_distinguish[of 3 254] by auto

end
