(* ===== verification/Frame_Table.thy ===== *)
theory Frame_Table
  imports Frame_Meta
begin

text \<open>
  The frame table of src/crates/tierbuf/src/frame.rs and the aligned page pool of
  src/crates/tierbuf/src/sys/mmap.rs.  The bounded queue of free indices is
  \<open>crossbeam_queue::ArrayQueue\<close>, a third-party type: its operations are the parameter \<open>Q\<close>, and
  what the table relies on is the locale \<open>array_queue\<close>.  The address of the metadata slice, its
  element size and the result of \<open>mmap\<close> are parameters as well.
\<close>

section \<open>The bounded queue\<close>

record 'q queue_ops =
  aq_new :: "nat \<Rightarrow> 'q"
  aq_push :: "'q \<Rightarrow> nat \<Rightarrow> (nat + unit) \<times> 'q"
  aq_pop :: "'q \<Rightarrow> nat option \<times> 'q"
  aq_len :: "'q \<Rightarrow> nat"

text \<open>
  The documented behaviour of \<open>ArrayQueue\<close>: first in, first out, with a capacity fixed at
  construction; pushing into a full queue gives the element back.  \<open>elems\<close> is the content from
  the front and \<open>cap\<close> the capacity.
\<close>

locale array_queue =
  fixes Q :: "'q queue_ops"
    and elems :: "'q \<Rightarrow> nat list"
    and cap :: "'q \<Rightarrow> nat"
  assumes new_elems: "elems (aq_new Q n) = []"
    and new_cap: "cap (aq_new Q n) = n"
    and push_room: "length (elems q) < cap q \<Longrightarrow>
          \<exists>q'. aq_push Q q x = (Inr (), q') \<and> elems q' = elems q @ [x] \<and> cap q' = cap q"
    and push_full: "cap q \<le> length (elems q) \<Longrightarrow> aq_push Q q x = (Inl x, q)"
    and pop_empty: "elems q = [] \<Longrightarrow> aq_pop Q q = (None, q)"
    and pop_front: "elems q = x # xs \<Longrightarrow>
          \<exists>q'. aq_pop Q q = (Some x, q') \<and> elems q' = xs \<and> cap q' = cap q"
    and len_elems: "aq_len Q q = length (elems q)"

text \<open>The reference instance: a list with its capacity.\<close>

definition list_queue :: "(nat list \<times> nat) queue_ops" where
  "list_queue = \<lparr>aq_new = (\<lambda>n. ([], n)),
     aq_push = (\<lambda>(xs, n) x. if length xs < n then (Inr (), (xs @ [x], n)) else (Inl x, (xs, n))),
     aq_pop = (\<lambda>(xs, n). case xs of [] \<Rightarrow> (None, (xs, n)) | y # ys \<Rightarrow> (Some y, (ys, n))),
     aq_len = (\<lambda>(xs, n). length xs)\<rparr>"

interpretation lq: array_queue list_queue fst snd
  by unfold_locales (auto simp: list_queue_def)

section \<open>The aligned page pool (sys/mmap.rs)\<close>

record aligned_pool =
  ap_mapping :: nat
  ap_mapping_len :: nat
  ap_aligned_start :: nat
  ap_frame_count :: nat

text \<open>\<open>mmap len\<close> is the address of a fresh anonymous mapping of \<open>len\<close> bytes, or the error.\<close>

definition aligned_pool_new :: "(nat \<Rightarrow> io_error + nat) \<Rightarrow> nat \<Rightarrow> tierbuf_error + aligned_pool" where
  "aligned_pool_new mmap bytes =
     (if bytes = 0 then Inl (invalid_input ''pool size must be greater than zero'')
      else if bytes mod PAGE_SIZE \<noteq> 0
           then Inl (invalid_input ''pool size must be an exact multiple of PAGE_SIZE'')
      else case checked_add_u64 bytes (PAGE_SIZE - 1) of
             None \<Rightarrow> Inl (invalid_input ''pool size overflows with alignment padding'')
           | Some mapping_len \<Rightarrow>
               (case mmap mapping_len of
                  Inl e \<Rightarrow> Inl (Io e)
                | Inr mapping \<Rightarrow>
                    (let alignment_offset = (PAGE_SIZE - mapping mod PAGE_SIZE) mod PAGE_SIZE
                     in Inr \<lparr>ap_mapping = mapping, ap_mapping_len = mapping_len,
                          ap_aligned_start = (mapping + alignment_offset) mod 2 ^ 64,
                          ap_frame_count = bytes div PAGE_SIZE\<rparr>)))"

definition frame_ptr :: "aligned_pool \<Rightarrow> nat \<Rightarrow> nat outcome" where
  "frame_ptr p index =
     (if index < ap_frame_count p then oOk ((ap_aligned_start p + index * PAGE_SIZE) mod 2 ^ 64)
      else oPanic ''frame index is out of bounds'')"

section \<open>The table\<close>

record 'q frame_table =
  ft_pool :: aligned_pool
  ft_data :: "page list"
  ft_frames :: "frame list"
  ft_free :: 'q
  ft_free_membership :: "bool list"
  ft_base :: nat
  ft_elem :: nat

text \<open>Filling the new queue with every index.\<close>

fun push_all :: "'q queue_ops \<Rightarrow> 'q \<Rightarrow> nat list \<Rightarrow> 'q outcome" where
  "push_all Q q [] = oOk q"
| "push_all Q q (i # is) =
     (case aq_push Q q i of
        (Inr _, q') \<Rightarrow> push_all Q q' is
      | (Inl _, q') \<Rightarrow> oPanic ''new free queue must hold every frame exactly once'')"

definition frame_table_new ::
  "'q queue_ops \<Rightarrow> (nat \<Rightarrow> io_error + nat) \<Rightarrow> nat \<Rightarrow> nat \<Rightarrow> nat \<Rightarrow> 'q frame_table outcome" where
  "frame_table_new Q mmap base elem bytes =
     (case aligned_pool_new mmap bytes of
        Inl e \<Rightarrow> oErr e
      | Inr data \<Rightarrow>
          (let n = ap_frame_count data in
           case push_all Q (aq_new Q n) [0..<n] of
             oOk q \<Rightarrow> oOk \<lparr>ft_pool = data, ft_data = replicate n (replicate PAGE_SIZE 0),
                 ft_frames = replicate n frame_new, ft_free = q,
                 ft_free_membership = replicate n True, ft_base = base, ft_elem = elem\<rparr>
           | oErr e \<Rightarrow> oErr e | oPanic m \<Rightarrow> oPanic m | oBlocks \<Rightarrow> oBlocks))"

definition frame_count :: "'q frame_table \<Rightarrow> nat" where
  "frame_count t = length (ft_frames t)"

definition free_count :: "'q queue_ops \<Rightarrow> 'q frame_table \<Rightarrow> nat" where
  "free_count Q t = aq_len Q (ft_free t)"

definition pop_free :: "'q queue_ops \<Rightarrow> ('q frame_table, nat option) operation" where
  "pop_free Q t =
     (case aq_pop Q (ft_free t) of
        (None, q) \<Rightarrow> (oOk None, t\<lparr>ft_free := q\<rparr>)
      | (Some index, q) \<Rightarrow>
          if \<not> index < length (ft_free_membership t)
          then (oPanic ''index out of bounds'', t\<lparr>ft_free := q\<rparr>)
          else (case compare_exchange True False (ft_free_membership t ! index) of
                  (Inr _, b) \<Rightarrow> (oOk (Some index),
                      t\<lparr>ft_free := q, ft_free_membership := (ft_free_membership t)[index := b]\<rparr>)
                | (Inl _, b) \<Rightarrow> (oPanic ''free queue contained a duplicate frame index'', t\<lparr>ft_free := q\<rparr>)))"

definition push_free :: "'q queue_ops \<Rightarrow> nat \<Rightarrow> ('q frame_table, nat + unit) operation" where
  "push_free Q index t =
     (if \<not> index < frame_count t then (oOk (Inl index), t)
      else case compare_exchange False True (ft_free_membership t ! index) of
             (Inl _, _) \<Rightarrow> (oOk (Inl index), t)
           | (Inr _, b) \<Rightarrow>
               (let t1 = t\<lparr>ft_free_membership := (ft_free_membership t)[index := b]\<rparr> in
                case aq_push Q (ft_free t1) index of
                  (Inr _, q) \<Rightarrow> (oOk (Inr ()), t1\<lparr>ft_free := q\<rparr>)
                | (Inl _, q) \<Rightarrow> (oOk (Inl index),
                    t1\<lparr>ft_free := q, ft_free_membership := (ft_free_membership t1)[index := False]\<rparr>)))"

text \<open>\<open>&self.frames[index]\<close> with its bounds check, and an operation on the frame found.\<close>

definition on_frame :: "nat \<Rightarrow> (frame, 'a) operation \<Rightarrow> ('q frame_table, 'a) operation" where
  "on_frame index m t =
     (if index < frame_count t
      then (case m (ft_frames t ! index) of (r, f) \<Rightarrow> (r, t\<lparr>ft_frames := (ft_frames t)[index := f]\<rparr>))
      else (oPanic ''index out of bounds'', t))"

definition read_frame :: "nat \<Rightarrow> ('q frame_table, page) operation" where
  "read_frame index t =
     (case frame_ptr (ft_pool t) index of
        oOk _ \<Rightarrow> (oOk (ft_data t ! index), t) | oErr e \<Rightarrow> (oErr e, t)
      | oPanic m \<Rightarrow> (oPanic m, t) | oBlocks \<Rightarrow> (oBlocks, t))"

definition write_frame :: "nat \<Rightarrow> page \<Rightarrow> ('q frame_table, unit) operation" where
  "write_frame index page t =
     (case frame_ptr (ft_pool t) index of
        oOk _ \<Rightarrow> (oOk (), t\<lparr>ft_data := (ft_data t)[index := page]\<rparr>) | oErr e \<Rightarrow> (oErr e, t)
      | oPanic m \<Rightarrow> (oPanic m, t) | oBlocks \<Rightarrow> (oBlocks, t))"

definition ft_read_with :: "nat \<Rightarrow> (page \<Rightarrow> 'a) \<Rightarrow> ('q frame_table, 'a) operation" where
  "ft_read_with index read =
     op_bind (on_frame index frame_lock_shared) (\<lambda>_.
     op_bind (read_frame index) (\<lambda>page.
     op_bind (on_frame index frame_drop_shared) (\<lambda>_.
     op_return (read page))))"

definition ft_write_with :: "nat \<Rightarrow> (page \<Rightarrow> 'a \<times> page) \<Rightarrow> ('q frame_table, 'a) operation" where
  "ft_write_with index write =
     op_bind (on_frame index frame_lock_exclusive) (\<lambda>_.
     op_bind (read_frame index) (\<lambda>page.
     op_bind (write_frame index (snd (write page))) (\<lambda>_.
     op_bind (on_frame index frame_drop_exclusive) (\<lambda>_.
     op_return (fst (write page))))))"

section \<open>Resident identities\<close>

definition resident_addr_of :: "'q frame_table \<Rightarrow> nat \<Rightarrow> resident_addr outcome" where
  "resident_addr_of t index =
     (if index < frame_count t
      then case resident_from_non_null (word_of_nat (ft_base t + index * ft_elem t)) of
             Some a \<Rightarrow> oOk a
           | None \<Rightarrow> oPanic ''resident frame address must be non-null and have its low two bits clear''
      else oPanic ''index out of bounds'')"

definition index_of_resident :: "'q frame_table \<Rightarrow> resident_addr \<Rightarrow> nat option" where
  "index_of_resident t resident =
     (let address = unat resident; base = ft_base t; element_size = ft_elem t in
      case checked_mul_u64 element_size (frame_count t) of
        None \<Rightarrow> None
      | Some allocation_size \<Rightarrow>
          (case checked_add_u64 base allocation_size of
             None \<Rightarrow> None
           | Some the_end \<Rightarrow>
               if address < base \<or> the_end \<le> address then None
               else (let displacement = address - base in
                     if displacement mod element_size \<noteq> 0 then None
                     else (let index = displacement div element_size in
                           if resident_addr_of t index = oOk resident then Some index else None))))"

section \<open>The pool's frames\<close>

lemma align_up_mod: "0 < p \<Longrightarrow> (a + (p - a mod p) mod p) mod p = (0::nat)"
proof -
  assume "0 < p"
  then have "a mod p + (p - a mod p) = p" by (simp add: less_imp_le)
  then have "(a mod p + (p - a mod p)) mod p = 0" by simp
  then show ?thesis by (simp add: mod_add_left_eq mod_add_right_eq)
qed

lemma aligned_pool_new_Inr:
  assumes "aligned_pool_new mmap bytes = Inr p"
    and addr: "\<And>len a. mmap len = Inr a \<Longrightarrow> a + len \<le> 2 ^ 64"
  shows "ap_frame_count p * PAGE_SIZE = bytes" and "ap_aligned_start p mod PAGE_SIZE = 0"
    and "ap_mapping p \<le> ap_aligned_start p"
    and "ap_aligned_start p + bytes \<le> ap_mapping p + ap_mapping_len p"
    and "ap_mapping p + ap_mapping_len p \<le> 2 ^ 64" and "0 < ap_frame_count p"
proof -
  let ?off = "(PAGE_SIZE - ap_mapping p mod PAGE_SIZE) mod PAGE_SIZE"
  from assms(1) have b: "0 < bytes" "bytes mod PAGE_SIZE = 0"
    and m: "mmap (ap_mapping_len p) = Inr (ap_mapping p)" "ap_mapping_len p = bytes + (PAGE_SIZE - 1)"
    and st: "ap_aligned_start p = (ap_mapping p + ?off) mod 2 ^ 64"
    and c: "ap_frame_count p = bytes div PAGE_SIZE"
    by (auto simp: aligned_pool_new_def checked_add_u64_def Let_def split: if_splits option.splits sum.splits)
  have off: "?off \<le> PAGE_SIZE - 1" by (metis PAGE_SIZE_pos(1) Suc_pred' less_Suc_eq_le mod_less_divisor)
  show le: "ap_mapping p + ap_mapping_len p \<le> 2 ^ 64" using addr[OF m(1)] .
  then have "ap_mapping p + ?off < 2 ^ 64" using off b m(2) by linarith
  then have st: "ap_aligned_start p = ap_mapping p + ?off" using st by simp
  show "ap_frame_count p * PAGE_SIZE = bytes" using b c by auto
  show "ap_aligned_start p mod PAGE_SIZE = 0" unfolding st by (rule align_up_mod) simp
  show "ap_mapping p \<le> ap_aligned_start p" using st by simp
  show "ap_aligned_start p + bytes \<le> ap_mapping p + ap_mapping_len p" using st m(2) off by linarith
  show "0 < ap_frame_count p" using b c by (simp add: div_greater_zero_iff mod_eq_0_iff_dvd dvd_imp_le)
qed

lemma frame_ptr_ok:
  assumes "aligned_pool_new mmap bytes = Inr p"
    and addr: "\<And>len a. mmap len = Inr a \<Longrightarrow> a + len \<le> 2 ^ 64"
    and "i < ap_frame_count p"
  shows "frame_ptr p i = oOk (ap_aligned_start p + i * PAGE_SIZE)"
    and "ap_aligned_start p + i * PAGE_SIZE + PAGE_SIZE \<le> ap_mapping p + ap_mapping_len p"
proof -
  note f = aligned_pool_new_Inr[OF assms(1) addr]
  have "Suc i * PAGE_SIZE \<le> ap_frame_count p * PAGE_SIZE" using assms(3) by (intro mult_le_mono1) simp
  then have le: "i * PAGE_SIZE + PAGE_SIZE \<le> bytes" using f(1) by simp
  with f(4) show "ap_aligned_start p + i * PAGE_SIZE + PAGE_SIZE \<le> ap_mapping p + ap_mapping_len p" by linarith
  with f(5) PAGE_SIZE_pos(1) have "ap_aligned_start p + i * PAGE_SIZE < 2 ^ 64" by linarith
  then show "frame_ptr p i = oOk (ap_aligned_start p + i * PAGE_SIZE)"
    using assms(3) by (simp add: frame_ptr_def)
qed

text \<open>
  C37. A pool that is created has exactly the requested bytes in frames; every frame is aligned to
  the page size, lies inside the mapping, and two frames never overlap.  The mapping is assumed
  to lie in the address space, as \<open>mmap\<close> documents.
\<close>

theorem pool_frames_disjoint:
  assumes "aligned_pool_new mmap bytes = Inr p"
    and "\<And>len a. mmap len = Inr a \<Longrightarrow> a + len \<le> 2 ^ 64"
  shows "ap_frame_count p * PAGE_SIZE = bytes
     \<and> (\<forall>i < ap_frame_count p. \<exists>a. frame_ptr p i = oOk a \<and> a mod PAGE_SIZE = 0
           \<and> ap_mapping p \<le> a \<and> a + PAGE_SIZE \<le> ap_mapping p + ap_mapping_len p
           \<and> (\<forall>j < ap_frame_count p. i \<noteq> j \<longrightarrow>
                (\<exists>b. frame_ptr p j = oOk b \<and> (a + PAGE_SIZE \<le> b \<or> b + PAGE_SIZE \<le> a))))"
proof (intro conjI allI impI)
  note f = aligned_pool_new_Inr[OF assms] and ok = frame_ptr_ok[OF assms]
  show "ap_frame_count p * PAGE_SIZE = bytes" by (rule f)
  fix i assume i: "i < ap_frame_count p"
  let ?a = "\<lambda>i. ap_aligned_start p + i * PAGE_SIZE"
  have step: "?a k + PAGE_SIZE \<le> ?a l" if "k < l" for k l
    using mult_le_mono1[of "Suc k" l PAGE_SIZE] that by simp
  have "?a i + PAGE_SIZE \<le> ?a j \<or> ?a j + PAGE_SIZE \<le> ?a i" if "i \<noteq> j" for j
    using step[of i j] step[of j i] that by linarith
  then show "\<exists>a. frame_ptr p i = oOk a \<and> a mod PAGE_SIZE = 0
           \<and> ap_mapping p \<le> a \<and> a + PAGE_SIZE \<le> ap_mapping p + ap_mapping_len p
           \<and> (\<forall>j < ap_frame_count p. i \<noteq> j \<longrightarrow>
                (\<exists>b. frame_ptr p j = oOk b \<and> (a + PAGE_SIZE \<le> b \<or> b + PAGE_SIZE \<le> a)))"
    using ok i f(2,3) by (intro exI[of _ "?a i"]) (auto simp: trans_le_add1)
qed

theorem pool_frames_disjoint_witness:
  "\<exists>p. aligned_pool_new (\<lambda>len. if len \<le> 2 ^ 20 then Inr 4096 else Inl (IoError OtherKind ''ENOMEM'')) (3 * PAGE_SIZE) = Inr p
     \<and> frame_ptr p 1 = oOk (2 * PAGE_SIZE) \<and> ap_frame_count p * PAGE_SIZE = 3 * PAGE_SIZE"
proof -
  let ?m = "\<lambda>len. if len \<le> 2 ^ 20 then Inr 4096 else Inl (IoError OtherKind ''ENOMEM'') :: io_error + nat"
  let ?p = "\<lparr>ap_mapping = 4096, ap_mapping_len = 262143, ap_aligned_start = 65536, ap_frame_count = 3\<rparr>"
  have e: "aligned_pool_new ?m (3 * PAGE_SIZE) = Inr ?p"
    by (simp add: aligned_pool_new_def checked_add_u64_def PAGE_SIZE_def Let_def)
  show ?thesis
    using pool_frames_disjoint[OF e] e
    by (intro exI[of _ ?p]) (auto simp: frame_ptr_def PAGE_SIZE_def split: if_splits)
qed

section \<open>Resident identities are invertible\<close>

text \<open>
  What the Rust allocator guarantees for a boxed slice of \<open>Frame\<close>: a non-null address, aligned
  at least to four, that does not wrap around the address space.
\<close>

definition slice_ok :: "'q frame_table \<Rightarrow> bool" where
  "slice_ok t \<longleftrightarrow> 0 < ft_base t \<and> 4 dvd ft_base t \<and> 4 dvd ft_elem t \<and> 0 < ft_elem t
     \<and> ft_base t + ft_elem t * frame_count t < 2 ^ 64"

lemma and_mask2_dvd: "(word_of_nat n :: u64) AND TAG_MASK = 0" if "4 dvd n" "n < 2 ^ 64"
proof -
  have "unat (word_of_nat n :: u64) = n" using that(2) by (simp add: unat_of_nat)
  then have "unat ((word_of_nat n :: u64) AND mask 2) = 0"
    unfolding unat_and_mask using that(1) by (simp add: mod_eq_0_iff_dvd)
  then have "(word_of_nat n :: u64) AND mask 2 = 0" unfolding unat_eq_zero .
  then show ?thesis by simp
qed

lemma slice_addr:
  assumes "slice_ok t" "i < frame_count t"
  shows "ft_base t + i * ft_elem t < 2 ^ 64" and "i * ft_elem t < ft_elem t * frame_count t"
proof -
  show "i * ft_elem t < ft_elem t * frame_count t" using assms by (simp add: slice_ok_def)
  moreover have "ft_base t + ft_elem t * frame_count t < 2 ^ 64" using assms by (simp add: slice_ok_def)
  ultimately show "ft_base t + i * ft_elem t < 2 ^ 64" by linarith
qed

lemma resident_addr_of_ok:
  assumes "slice_ok t" "i < frame_count t"
  shows "resident_addr_of t i = oOk (word_of_nat (ft_base t + i * ft_elem t))"
    and "addr_ok (word_of_nat (ft_base t + i * ft_elem t))"
proof -
  let ?n = "ft_base t + i * ft_elem t"
  have n: "?n < 2 ^ 64" "0 < ?n" "4 dvd ?n" using slice_addr[OF assms] assms(1) by (auto simp: slice_ok_def)
  have "unat (word_of_nat ?n :: u64) = ?n" using n(1) by (simp only: unat_of_nat) simp
  then have nz: "(word_of_nat ?n :: u64) \<noteq> 0" using n(2) by (metis unat_0 less_irrefl)
  note tag = and_mask2_dvd[OF n(3,1)]
  show "resident_addr_of t i = oOk (word_of_nat ?n)"
    using nz tag assms(2) by (simp add: resident_addr_of_def resident_from_non_null_def)
  show "addr_ok (word_of_nat ?n)" using nz tag by (simp add: addr_ok_def)
qed

lemma index_of_resident_ok:
  assumes "slice_ok t" "i < frame_count t"
  shows "index_of_resident t (word_of_nat (ft_base t + i * ft_elem t)) = Some i"
proof -
  note a = slice_addr[OF assms] and r = resident_addr_of_ok[OF assms]
  have u: "unat (word_of_nat (ft_base t + i * ft_elem t) :: u64) = ft_base t + i * ft_elem t"
    using a(1) by (simp only: unat_of_nat) simp
  have s: "0 < ft_elem t" "ft_base t + ft_elem t * frame_count t < 2 ^ 64" using assms(1) by (auto simp: slice_ok_def)
  then have m: "checked_mul_u64 (ft_elem t) (frame_count t) = Some (ft_elem t * frame_count t)"
    "checked_add_u64 (ft_base t) (ft_elem t * frame_count t) = Some (ft_base t + ft_elem t * frame_count t)"
    by (simp_all add: checked_mul_u64_def checked_add_u64_def)
  show ?thesis
    unfolding index_of_resident_def u Let_def m option.case using a(2) s(1) r(1) m(2) by simp
qed

text \<open>
  Resident identities are a bijection with the frame indices: a frame's identity is a word
  the tagged handle can store, it resolves to that index in constant time, and an identity that
  resolves at all is the identity of the index it resolves to.
\<close>

theorem resident_identity_roundtrip:
  assumes "slice_ok t"
  shows "(\<forall>i < frame_count t. \<exists>a. resident_addr_of t i = oOk a \<and> addr_ok a \<and> index_of_resident t a = Some i)
     \<and> (\<forall>a i. index_of_resident t a = Some i \<longrightarrow> i < frame_count t \<and> resident_addr_of t i = oOk a)"
proof (intro conjI allI impI)
  show "\<exists>a. resident_addr_of t i = oOk a \<and> addr_ok a \<and> index_of_resident t a = Some i"
    if "i < frame_count t" for i
    using resident_addr_of_ok[OF assms that] index_of_resident_ok[OF assms that] by blast
  fix a i assume "index_of_resident t a = Some i"
  then have "resident_addr_of t i = oOk a"
    by (auto simp: index_of_resident_def Let_def split: option.splits if_splits)
  then show "resident_addr_of t i = oOk a" "i < frame_count t"
    by (auto simp: resident_addr_of_def split: if_splits)
qed

theorem resident_identity_roundtrip_witness:
  "\<exists>t :: (nat list \<times> nat) frame_table. slice_ok t \<and> frame_count t = 2 \<and> resident_addr_of t 1 = oOk 0x1048
     \<and> index_of_resident t 0x1048 = Some 1"
proof -
  let ?t = "\<lparr>ft_pool = \<lparr>ap_mapping = 0, ap_mapping_len = 0, ap_aligned_start = 0, ap_frame_count = 2\<rparr>,
    ft_data = [], ft_frames = [frame_new, frame_new], ft_free = ([], 2), ft_free_membership = [False, False],
    ft_base = 0x1000, ft_elem = 72\<rparr> :: (nat list \<times> nat) frame_table"
  have ok: "slice_ok ?t" "frame_count ?t = 2" by (simp_all add: slice_ok_def frame_count_def)
  have "resident_addr_of ?t 1 = oOk 0x1048"
    using resident_addr_of_ok(1)[OF ok(1), of 1] ok(2) by simp
  with resident_identity_roundtrip[OF ok(1)] ok show ?thesis
    by (intro exI[of _ ?t]) (metis one_less_numeral_iff outcome.inject(1) semiring_norm(76))
qed

end
