(* ===== verification/Free_List.thy ===== *)
theory Free_List
  imports Frame_Table
begin

text \<open>
  The free list of the frame table (\<open>pop_free\<close> and \<open>push_free\<close> of src/crates/tierbuf/src/frame.rs):
  its invariant, the functional behaviour of each operation under the contract of the bounded
  queue, and the interleavings of the separate atomic accesses the two operations are made of.
\<close>

section \<open>The invariant\<close>

definition free_inv :: "('q \<Rightarrow> nat list) \<Rightarrow> ('q \<Rightarrow> nat) \<Rightarrow> 'q frame_table \<Rightarrow> bool" where
  "free_inv elems cap t \<longleftrightarrow> length (ft_free_membership t) = frame_count t
     \<and> cap (ft_free t) = frame_count t \<and> distinct (elems (ft_free t))
     \<and> set (elems (ft_free t)) = {i. i < frame_count t \<and> ft_free_membership t ! i}"

section \<open>Atomic accesses of the two operations\<close>

text \<open>
  \<open>popping\<close> holds the indices a thread has taken from the queue without having cleared their
  membership flag yet, \<open>pushing\<close> those whose flag is set again but which are not in the queue
  yet, \<open>owned\<close> those held by a \<open>FreeFrame\<close> or by a resident page.
\<close>

record 'q free_sys =
  fs_table :: "'q frame_table"
  popping :: "nat set"
  owned :: "nat set"
  pushing :: "nat set"

inductive free_step :: "'q queue_ops \<Rightarrow> 'q free_sys \<Rightarrow> 'q free_sys \<Rightarrow> bool" for Q where
  pop_queue: "aq_pop Q (ft_free (fs_table s)) = (Some i, q) \<Longrightarrow>
     free_step Q s (s\<lparr>fs_table := (fs_table s)\<lparr>ft_free := q\<rparr>, popping := insert i (popping s)\<rparr>)"
| pop_flag: "i \<in> popping s \<Longrightarrow>
     compare_exchange True False (ft_free_membership (fs_table s) ! i) = (Inr u, b) \<Longrightarrow>
     free_step Q s (s\<lparr>fs_table := (fs_table s)\<lparr>ft_free_membership := (ft_free_membership (fs_table s))[i := b]\<rparr>,
       popping := popping s - {i}, owned := insert i (owned s)\<rparr>)"
| push_flag: "i \<in> owned s \<Longrightarrow>
     compare_exchange False True (ft_free_membership (fs_table s) ! i) = (Inr u, b) \<Longrightarrow>
     free_step Q s (s\<lparr>fs_table := (fs_table s)\<lparr>ft_free_membership := (ft_free_membership (fs_table s))[i := b]\<rparr>,
       owned := owned s - {i}, pushing := insert i (pushing s)\<rparr>)"
| push_queue: "i \<in> pushing s \<Longrightarrow> aq_push Q (ft_free (fs_table s)) i = (Inr (), q) \<Longrightarrow>
     free_step Q s (s\<lparr>fs_table := (fs_table s)\<lparr>ft_free := q\<rparr>, pushing := pushing s - {i}\<rparr>)"

definition free_start :: "'q frame_table \<Rightarrow> 'q free_sys" where
  "free_start t = \<lparr>fs_table = t, popping = {}, owned = {}, pushing = {}\<rparr>"

abbreviation free_run :: "'q queue_ops \<Rightarrow> 'q free_sys \<Rightarrow> 'q free_sys \<Rightarrow> bool" where
  "free_run Q \<equiv> (free_step Q)\<^sup>*\<^sup>*"

text \<open>Every index is in exactly one place, and its flag is clear exactly when it is owned.\<close>

definition parts :: "nat \<Rightarrow> nat set \<Rightarrow> nat set \<Rightarrow> nat set \<Rightarrow> nat set \<Rightarrow> bool" where
  "parts n A B C D \<longleftrightarrow> (\<forall>i. (i < n \<longleftrightarrow> i \<in> A \<or> i \<in> B \<or> i \<in> C \<or> i \<in> D)
     \<and> (i \<in> A \<longrightarrow> i \<notin> B \<and> i \<notin> C \<and> i \<notin> D) \<and> (i \<in> B \<longrightarrow> i \<notin> C \<and> i \<notin> D) \<and> (i \<in> C \<longrightarrow> i \<notin> D))"

definition sys_inv :: "('q \<Rightarrow> nat list) \<Rightarrow> ('q \<Rightarrow> nat) \<Rightarrow> 'q free_sys \<Rightarrow> bool" where
  "sys_inv elems cap s \<longleftrightarrow>
     (let t = fs_table s; n = frame_count t in
      length (ft_free_membership t) = n \<and> cap (ft_free t) = n \<and> distinct (elems (ft_free t))
      \<and> parts n (set (elems (ft_free t))) (popping s) (owned s) (pushing s)
      \<and> (\<forall>i < n. ft_free_membership t ! i \<longleftrightarrow> i \<notin> owned s))"

lemma parts_move:
  "parts n A B C D \<Longrightarrow> i \<in> A \<Longrightarrow> parts n (A - {i}) (insert i B) C D"
  "parts n A B C D \<Longrightarrow> i \<in> B \<Longrightarrow> parts n A (B - {i}) (insert i C) D"
  "parts n A B C D \<Longrightarrow> i \<in> C \<Longrightarrow> parts n A B (C - {i}) (insert i D)"
  "parts n A B C D \<Longrightarrow> i \<in> D \<Longrightarrow> parts n (insert i A) B C (D - {i})"
  unfolding parts_def by (simp, metis)+

lemma parts_less:
  "parts n A B C D \<Longrightarrow> i \<in> A \<union> B \<union> C \<union> D \<Longrightarrow> i < n"
  unfolding parts_def by blast

lemma parts_apart:
  "parts n A B C D \<Longrightarrow> (i \<in> A \<longrightarrow> i \<notin> B \<and> i \<notin> C \<and> i \<notin> D) \<and> (i \<in> B \<longrightarrow> i \<notin> C \<and> i \<notin> D) \<and> (i \<in> C \<longrightarrow> i \<notin> D)"
  unfolding parts_def by blast

section \<open>Behaviour under the queue's contract\<close>

lemma frame_count_update [simp]:
  "frame_count (t\<lparr>ft_free := q\<rparr>) = frame_count t"
  "frame_count (t\<lparr>ft_free_membership := m\<rparr>) = frame_count t"
  "frame_count (t\<lparr>ft_data := d\<rparr>) = frame_count t"
  "frame_count (t\<lparr>ft_frames := (ft_frames t)[i := f]\<rparr>) = frame_count t"
  by (simp_all add: frame_count_def)

context array_queue
begin

lemma push_all_ok:
  "length (elems q) + length xs \<le> cap q \<Longrightarrow>
   \<exists>q'. push_all Q q xs = oOk q' \<and> elems q' = elems q @ xs \<and> cap q' = cap q"
proof (induction xs arbitrary: q)
  case Nil
  show ?case by (intro exI[of _ q]) simp
next
  case (Cons x xs)
  then have "length (elems q) < cap q" by simp
  from push_room[OF this, of x] obtain p where p: "aq_push Q q x = (Inr (), p)"
    "elems p = elems q @ [x]" "cap p = cap q" by blast
  with Cons show ?case using Cons.IH[of p] by simp
qed

lemma frame_table_new_ok:
  assumes "aligned_pool_new mmap bytes = Inr p"
  shows "\<exists>t. frame_table_new Q mmap base elem bytes = oOk t \<and> free_inv elems cap t
     \<and> frame_count t = ap_frame_count p \<and> ft_pool t = p \<and> elems (ft_free t) = [0..<ap_frame_count p]
     \<and> ft_frames t = replicate (ap_frame_count p) frame_new
     \<and> ft_data t = replicate (ap_frame_count p) (replicate PAGE_SIZE 0)
     \<and> ft_base t = base \<and> ft_elem t = elem"
  using push_all_ok[of "aq_new Q (ap_frame_count p)" "[0..<ap_frame_count p]"] assms
  by (auto simp: frame_table_new_def new_elems new_cap free_inv_def frame_count_def Let_def)

lemma pop_free_empty: "elems (ft_free t) = [] \<Longrightarrow> pop_free Q t = (oOk None, t)"
  by (simp add: pop_free_def pop_empty)

lemma pop_free_front:
  assumes "free_inv elems cap t" "elems (ft_free t) = i # rest"
  shows "\<exists>q. pop_free Q t = (oOk (Some i), t\<lparr>ft_free := q, ft_free_membership := (ft_free_membership t)[i := False]\<rparr>)
     \<and> elems q = rest \<and> cap q = cap (ft_free t)"
proof -
  from pop_front[OF assms(2)] obtain q where q: "aq_pop Q (ft_free t) = (Some i, q)"
    "elems q = rest" "cap q = cap (ft_free t)" by blast
  have "i \<in> set (elems (ft_free t))" using assms(2) by simp
  then have "i < frame_count t" "ft_free_membership t ! i" using assms(1) by (auto simp: free_inv_def)
  with q assms(1) show ?thesis
    by (intro exI[of _ q]) (simp add: pop_free_def compare_exchange_def free_inv_def)
qed

lemma free_room:
  assumes "free_inv elems cap t" "i < frame_count t" "\<not> ft_free_membership t ! i"
  shows "length (elems (ft_free t)) < cap (ft_free t)"
proof -
  have "set (elems (ft_free t)) \<subseteq> {..<frame_count t} - {i}" using assms by (auto simp: free_inv_def)
  then have "card (set (elems (ft_free t))) \<le> card ({..<frame_count t} - {i})" by (intro card_mono) auto
  moreover have "distinct (elems (ft_free t))" "cap (ft_free t) = frame_count t"
    using assms(1) unfolding free_inv_def by blast+
  moreover note distinct_card[OF this(1)]
  ultimately show ?thesis using assms(2) by simp
qed

lemma push_free_ok:
  assumes "free_inv elems cap t" "i < frame_count t" "\<not> ft_free_membership t ! i"
  shows "\<exists>q. push_free Q i t = (oOk (Inr ()), t\<lparr>ft_free := q, ft_free_membership := (ft_free_membership t)[i := True]\<rparr>)
     \<and> elems q = elems (ft_free t) @ [i] \<and> cap q = cap (ft_free t)"
proof -
  from push_room[OF free_room[OF assms], of i] obtain q where
    "aq_push Q (ft_free t) i = (Inr (), q)" "elems q = elems (ft_free t) @ [i]" "cap q = cap (ft_free t)" by blast
  with assms(2,3) show ?thesis
    by (intro exI[of _ q]) (simp add: push_free_def compare_exchange_def Let_def)
qed

lemma push_free_refused:
  assumes "frame_count t \<le> i \<or> ft_free_membership t ! i"
  shows "push_free Q i t = (oOk (Inl i), t)"
  using assms by (auto simp: push_free_def compare_exchange_def)

lemma pop_free_inv:
  assumes "free_inv elems cap t"
  shows "\<exists>r t'. pop_free Q t = (oOk r, t') \<and> free_inv elems cap t'"
proof (cases "elems (ft_free t)")
  case Nil
  then show ?thesis using pop_free_empty assms by simp
next
  case (Cons i rest)
  note inv = assms[unfolded free_inv_def Cons]
  from pop_free_front[OF assms Cons] obtain q where q: "elems q = rest" "cap q = cap (ft_free t)"
    "pop_free Q t = (oOk (Some i), t\<lparr>ft_free := q, ft_free_membership := (ft_free_membership t)[i := False]\<rparr>)" by blast
  have "j \<in> set rest \<longleftrightarrow> j < frame_count t \<and> (ft_free_membership t)[i := False] ! j" for j
  proof -
    have "j = i \<or> j \<in> set rest \<longleftrightarrow> j < frame_count t \<and> ft_free_membership t ! j" "i \<notin> set rest"
      using inv by (simp_all add: set_eq_iff)
    then show ?thesis using inv by (cases "j = i") simp_all
  qed
  then have "set rest = {j. j < frame_count t \<and> (ft_free_membership t)[i := False] ! j}" by blast
  then have "free_inv elems cap (t\<lparr>ft_free := q, ft_free_membership := (ft_free_membership t)[i := False]\<rparr>)"
    using inv q by (simp add: free_inv_def)
  with q show ?thesis by blast
qed

lemma push_free_inv:
  assumes "free_inv elems cap t"
  shows "\<exists>r t'. push_free Q i t = (oOk r, t') \<and> free_inv elems cap t'"
proof (cases "frame_count t \<le> i \<or> ft_free_membership t ! i")
  case True
  then show ?thesis using push_free_refused assms by simp
next
  case False
  then have i: "i < frame_count t" "\<not> ft_free_membership t ! i" by auto
  note inv = assms[unfolded free_inv_def]
  from push_free_ok[OF assms i] obtain q where q: "elems q = elems (ft_free t) @ [i]" "cap q = cap (ft_free t)"
    "push_free Q i t = (oOk (Inr ()), t\<lparr>ft_free := q, ft_free_membership := (ft_free_membership t)[i := True]\<rparr>)" by blast
  have "i \<notin> set (elems (ft_free t))" using inv i by simp
  moreover have "j = i \<or> j \<in> set (elems (ft_free t)) \<longleftrightarrow> j < frame_count t \<and> (ft_free_membership t)[i := True] ! j" for j
    using inv i by (cases "j = i") simp_all
  then have "insert i (set (elems (ft_free t))) = {j. j < frame_count t \<and> (ft_free_membership t)[i := True] ! j}" by blast
  ultimately have "free_inv elems cap (t\<lparr>ft_free := q, ft_free_membership := (ft_free_membership t)[i := True]\<rparr>)"
    using inv q by (simp add: free_inv_def)
  with q show ?thesis by blast
qed

lemma sys_inv_start:
  assumes "free_inv elems cap t" "elems (ft_free t) = [0..<frame_count t]"
  shows "sys_inv elems cap (free_start t)"
proof -
  have "\<forall>i < frame_count t. ft_free_membership t ! i"
    using assms by (auto simp: free_inv_def set_eq_iff)
  moreover have "length (ft_free_membership t) = frame_count t" "cap (ft_free t) = frame_count t"
    using assms(1) by (auto simp: free_inv_def)
  ultimately show ?thesis by (simp add: sys_inv_def parts_def free_start_def assms(2) atLeast0LessThan)
qed

lemma sys_room:
  assumes "sys_inv elems cap s" "i \<in> pushing s"
  shows "length (elems (ft_free (fs_table s))) < cap (ft_free (fs_table s))"
proof -
  let ?t = "fs_table s"
  have "set (elems (ft_free ?t)) \<subseteq> {..<frame_count ?t} - {i}" "i < frame_count ?t"
    using assms parts_less parts_apart unfolding sys_inv_def Let_def by fastforce+
  then have "card (set (elems (ft_free ?t))) \<le> frame_count ?t - 1" "0 < frame_count ?t"
    using card_mono[of "{..<frame_count ?t} - {i}" "set (elems (ft_free ?t))"] by auto
  moreover have "distinct (elems (ft_free ?t))" "cap (ft_free ?t) = frame_count ?t"
    using assms(1) unfolding sys_inv_def Let_def by blast+
  moreover note distinct_card[OF this(1)]
  ultimately show ?thesis by simp
qed

lemma sys_inv_step:
  assumes "free_step Q s u" "sys_inv elems cap s"
  shows "sys_inv elems cap u"
  using assms
proof (induction rule: free_step.induct)
  case (pop_queue s i q)
  from pop_queue(1) obtain rest where r: "elems (ft_free (fs_table s)) = i # rest"
    and q: "elems q = rest" "cap q = cap (ft_free (fs_table s))"
    using pop_empty[of "ft_free (fs_table s)"] pop_front[of "ft_free (fs_table s)"]
    by (cases "elems (ft_free (fs_table s))") fastforce+
  note inv = pop_queue.prems[unfolded sys_inv_def Let_def r]
  then have "set (i # rest) - {i} = set rest" by simp
  with inv q parts_move(1)[of _ "set (i # rest)" _ _ _ i] show ?case
    unfolding sys_inv_def Let_def by simp
next
  case (pop_flag i s u b)
  then have b: "b = False" by (auto simp: compare_exchange_def split: if_splits)
  note inv = pop_flag.prems[unfolded sys_inv_def Let_def]
  with parts_move(2) parts_less[of _ _ _ _ _ i] pop_flag(1) show ?case
    unfolding sys_inv_def Let_def b by (auto simp: nth_list_update split: if_splits)
next
  case (push_flag i s u b)
  then have b: "b = True" by (auto simp: compare_exchange_def split: if_splits)
  note inv = push_flag.prems[unfolded sys_inv_def Let_def]
  with parts_move(3) parts_less[of _ _ _ _ _ i] push_flag(1) show ?case
    unfolding sys_inv_def Let_def b by (auto simp: nth_list_update split: if_splits)
next
  case (push_queue i s q)
  with push_room[OF sys_room[OF push_queue(3,1)], of i]
  have q: "elems q = elems (ft_free (fs_table s)) @ [i]" "cap q = cap (ft_free (fs_table s))" by auto
  note inv = push_queue.prems[unfolded sys_inv_def Let_def]
  then have p: "parts (frame_count (fs_table s)) (set (elems (ft_free (fs_table s)))) (popping s) (owned s) (pushing s)"
    by blast
  with push_queue(1) have "i \<notin> set (elems (ft_free (fs_table s)))" using parts_apart by blast
  with inv q parts_move(4)[OF p push_queue(1)] show ?case unfolding sys_inv_def Let_def by simp
qed

lemma sys_inv_run: "free_run Q s u \<Longrightarrow> sys_inv elems cap s \<Longrightarrow> sys_inv elems cap u"
  by (induction rule: rtranclp_induct) (auto intro: sys_inv_step)

end

section \<open>Properties\<close>

text \<open>
  Creating a table from a mapping succeeds with every frame on the free list exactly once,
  and popping and pushing never panic and keep the invariant that the queue holds each index
  whose membership flag is set, once: a pop hands out the front index and clears its flag, a push
  of a handed-out index is accepted, and a push of an index that is out of range or already free
  is refused and changes nothing.
\<close>

theorem free_list_behaviour:
  assumes "array_queue Q elems cap" and "aligned_pool_new mmap bytes = Inr p"
  shows "(\<exists>t. frame_table_new Q mmap base elem bytes = oOk t \<and> free_inv elems cap t
             \<and> elems (ft_free t) = [0..<frame_count t] \<and> frame_count t * PAGE_SIZE = bytes)
     \<and> (\<forall>t. free_inv elems cap t \<longrightarrow>
          (\<exists>t'. pop_free Q t = (oOk (if elems (ft_free t) = [] then None else Some (hd (elems (ft_free t)))), t')
             \<and> free_inv elems cap t' \<and> elems (ft_free t') = tl (elems (ft_free t)))
        \<and> (\<forall>i. \<exists>t'. push_free Q i t
               = (oOk (if i < frame_count t \<and> i \<notin> set (elems (ft_free t)) then Inr () else Inl i), t')
             \<and> free_inv elems cap t'
             \<and> elems (ft_free t') = elems (ft_free t) @ (if i < frame_count t \<and> i \<notin> set (elems (ft_free t)) then [i] else [])))"
proof (intro conjI allI impI)
  note L = assms(1)
  have "bytes mod PAGE_SIZE = 0" "ap_frame_count p = bytes div PAGE_SIZE"
    using assms(2) by (auto simp: aligned_pool_new_def Let_def split: if_splits option.splits sum.splits)
  then have "ap_frame_count p * PAGE_SIZE = bytes" by auto
  with array_queue.frame_table_new_ok[OF L assms(2), of base elem]
  show "\<exists>t. frame_table_new Q mmap base elem bytes = oOk t \<and> free_inv elems cap t
             \<and> elems (ft_free t) = [0..<frame_count t] \<and> frame_count t * PAGE_SIZE = bytes" by auto
  fix t :: "'a frame_table" assume inv: "free_inv elems cap t"
  show "\<exists>t'. pop_free Q t = (oOk (if elems (ft_free t) = [] then None else Some (hd (elems (ft_free t)))), t')
             \<and> free_inv elems cap t' \<and> elems (ft_free t') = tl (elems (ft_free t))"
    using array_queue.pop_free_inv[OF L inv] array_queue.pop_free_empty[OF L, of t]
      array_queue.pop_free_front[OF L inv] inv
    by (cases "elems (ft_free t)") fastforce+
  fix i
  have m: "i \<in> set (elems (ft_free t)) \<longleftrightarrow> i < frame_count t \<and> ft_free_membership t ! i"
    using inv by (simp add: free_inv_def)
  show "\<exists>t'. push_free Q i t
               = (oOk (if i < frame_count t \<and> i \<notin> set (elems (ft_free t)) then Inr () else Inl i), t')
             \<and> free_inv elems cap t'
             \<and> elems (ft_free t') = elems (ft_free t) @ (if i < frame_count t \<and> i \<notin> set (elems (ft_free t)) then [i] else [])"
    using array_queue.push_free_inv[OF L inv, of i] array_queue.push_free_refused[OF L, of t i]
      array_queue.push_free_ok[OF L inv, of i] inv m by (cases "frame_count t \<le> i \<or> ft_free_membership t ! i") fastforce+
qed

theorem free_list_behaviour_witness:
  "\<exists>t. frame_table_new list_queue (\<lambda>_. Inr 0) 64 72 (2 * PAGE_SIZE) = oOk t \<and> fst (ft_free t) = [0..<2]"
proof -
  have p: "aligned_pool_new (\<lambda>_. Inr 0) (2 * PAGE_SIZE)
      = Inr \<lparr>ap_mapping = 0, ap_mapping_len = 196607, ap_aligned_start = 0, ap_frame_count = 2\<rparr>"
    by (simp add: aligned_pool_new_def checked_add_u64_def PAGE_SIZE_def Let_def)
  have n: "n * PAGE_SIZE = 2 * PAGE_SIZE \<longleftrightarrow> n = 2" for n by (simp add: PAGE_SIZE_def)
  show ?thesis
    using conjunct1[OF free_list_behaviour[OF lq.array_queue_axioms p, of 64 72]] unfolding n by auto
qed

text \<open>
  C28. Under every interleaving of the separate queue and flag accesses of any number of pops and
  pushes, starting from a new table: an index taken from the queue has its flag set, so the
  duplicate assertion of \<open>pop_free\<close> never fires and nobody else owns it; the owner's push is
  accepted by the flag and then by the queue; and no two threads ever hold the same index.
\<close>

theorem free_list_linear:
  assumes "array_queue Q elems cap" and "frame_table_new Q mmap base elem bytes = oOk t"
    and "free_run Q (free_start t) s"
  shows "(\<forall>i \<in> popping s. i \<notin> owned s \<and> fst (compare_exchange True False (ft_free_membership (fs_table s) ! i)) = Inr True)
     \<and> (\<forall>i \<in> owned s. i \<notin> pushing s \<and> i \<notin> set (elems (ft_free (fs_table s)))
          \<and> fst (compare_exchange False True (ft_free_membership (fs_table s) ! i)) = Inr False)
     \<and> (\<forall>i \<in> pushing s. \<exists>q. aq_push Q (ft_free (fs_table s)) i = (Inr (), q))
     \<and> distinct (elems (ft_free (fs_table s)))"
proof -
  note L = assms(1)
  from assms(2) obtain p where "aligned_pool_new mmap bytes = Inr p"
    by (auto simp: frame_table_new_def split: sum.splits)
  from array_queue.frame_table_new_ok[OF L this, of base elem] assms(2)
  have "free_inv elems cap t" "elems (ft_free t) = [0..<frame_count t]" by auto
  from array_queue.sys_inv_run[OF L assms(3) array_queue.sys_inv_start[OF L this]]
  have inv: "sys_inv elems cap s" .
  then have P: "parts (frame_count (fs_table s)) (set (elems (ft_free (fs_table s)))) (popping s) (owned s) (pushing s)"
    and F: "\<forall>i < frame_count (fs_table s). ft_free_membership (fs_table s) ! i \<longleftrightarrow> i \<notin> owned s"
    and D: "distinct (elems (ft_free (fs_table s)))"
    unfolding sys_inv_def Let_def by blast+
  have "\<exists>q. aq_push Q (ft_free (fs_table s)) i = (Inr (), q)" if "i \<in> pushing s" for i
    using array_queue.push_room[OF L array_queue.sys_room[OF L inv that]] by blast
  moreover have "i \<notin> owned s \<and> ft_free_membership (fs_table s) ! i" if "i \<in> popping s" for i
    using F parts_less[OF P, of i] parts_apart[OF P, of i] that by blast
  moreover have "i \<notin> pushing s \<and> i \<notin> set (elems (ft_free (fs_table s))) \<and> \<not> ft_free_membership (fs_table s) ! i"
    if "i \<in> owned s" for i
    using F parts_less[OF P, of i] parts_apart[OF P, of i] that by blast
  ultimately show ?thesis using D by (simp add: compare_exchange_def)
qed

theorem free_list_linear_witness:
  "\<exists>t s. frame_table_new list_queue (\<lambda>_. Inr 0) 64 72 PAGE_SIZE = oOk t
     \<and> free_run list_queue (free_start t) s \<and> popping s = {0} \<and> 0 \<notin> owned s
     \<and> fst (compare_exchange True False (ft_free_membership (fs_table s) ! 0)) = Inr True"
proof -
  have "aligned_pool_new (\<lambda>_. Inr 0) PAGE_SIZE
      = Inr \<lparr>ap_mapping = 0, ap_mapping_len = 131071, ap_aligned_start = 0, ap_frame_count = 1\<rparr>"
    by (simp add: aligned_pool_new_def checked_add_u64_def PAGE_SIZE_def Let_def)
  from lq.frame_table_new_ok[OF this, of 64 72] obtain t where
    t: "frame_table_new list_queue (\<lambda>_. Inr 0) 64 72 PAGE_SIZE = oOk t" and "fst (ft_free t) = [0]" by auto
  then have "aq_pop list_queue (ft_free t) = (Some 0, ([], snd (ft_free t)))"
    by (cases "ft_free t") (simp add: list_queue_def)
  from pop_queue[of list_queue "free_start t", unfolded free_start_def free_sys.simps, OF this]
  have r: "free_run list_queue (free_start t) (free_start t\<lparr>fs_table := t\<lparr>ft_free := ([], snd (ft_free t))\<rparr>, popping := {0}\<rparr>)"
    by (intro r_into_rtranclp) (simp add: free_start_def)
  show ?thesis
    using free_list_linear[OF lq.array_queue_axioms t r] t r by (auto simp: free_start_def)
qed

end
