(* ===== verification/Cooling_Queue.thy ===== *)
theory Cooling_Queue
  imports Swip
begin

text \<open>
  The cooling queue of src/crates/tierbuf/src/cooling.rs: a mutex around a \<open>VecDeque\<close> of exact
  tickets.  Each operation holds the mutex for its whole body, so it is one indivisible step on
  the list of entries.
\<close>

record cooling_ticket =
  ct_frame_index :: nat
  ct_pid :: page_id
  ct_generation :: u32
  ct_resident :: resident_addr

type_synonym cooling_queue = "cooling_ticket list"

definition push_unique :: "cooling_ticket \<Rightarrow> cooling_queue \<Rightarrow> cooling_queue" where
  "push_unique ticket entries = (if ticket \<in> set entries then entries else entries @ [ticket])"

definition cooling_pop :: "cooling_queue \<Rightarrow> cooling_ticket option \<times> cooling_queue" where
  "cooling_pop entries = (case entries of [] \<Rightarrow> (None, []) | t # ts \<Rightarrow> (Some t, ts))"

definition cooling_len :: "cooling_queue \<Rightarrow> nat" where
  "cooling_len entries = length entries"

lemma push_unique_simps [simp]:
  "set (push_unique t q) = insert t (set q)"
  "distinct (push_unique t q) = distinct q"
  by (auto simp: push_unique_def)

lemma push_unique_prefix: "\<exists>r. push_unique t q = q @ r"
  by (auto simp: push_unique_def)

section \<open>Sequences of operations\<close>

datatype cooling_op = PushUnique cooling_ticket | PopTicket

fun cooling_step :: "cooling_op \<Rightarrow> cooling_ticket list \<times> cooling_queue \<Rightarrow> cooling_ticket list \<times> cooling_queue" where
  "cooling_step (PushUnique t) (popped, q) = (popped, push_unique t q)"
| "cooling_step PopTicket (popped, q) =
     (case cooling_pop q of (None, q') \<Rightarrow> (popped, q') | (Some t, q') \<Rightarrow> (popped @ [t], q'))"

definition cooling_run :: "cooling_op list \<Rightarrow> cooling_ticket list \<times> cooling_queue" where
  "cooling_run ops = fold cooling_step ops ([], [])"

text \<open>The tickets that were really enqueued, in order: a push of a pending ticket is dropped.\<close>

fun accepted :: "cooling_op list \<Rightarrow> cooling_queue \<Rightarrow> cooling_ticket list" where
  "accepted [] q = []"
| "accepted (PushUnique t # ops) q = (if t \<in> set q then accepted ops q else t # accepted ops (q @ [t]))"
| "accepted (PopTicket # ops) q = accepted ops (tl q)"

lemma cooling_fold:
  "distinct q \<Longrightarrow> fold cooling_step ops (p, q) = (p', q') \<Longrightarrow>
   p' @ q' = p @ q @ accepted ops q \<and> distinct q'"
proof (induction ops arbitrary: p q)
  case (Cons op ops)
  show ?case
  proof (cases op)
    case (PushUnique t)
    with Cons.IH[of "push_unique t q" p] Cons.prems show ?thesis
      by (auto simp: push_unique_def split: if_splits)
  next
    case PopTicket
    with Cons.IH[of "tl q" "p @ [hd q]"] Cons.IH[of q p] Cons.prems show ?thesis
      by (cases q) (auto simp: cooling_pop_def)
  qed
qed simp

text \<open>
  The cooling queue is first in, first out without duplicates: after any sequence of pushes
  and pops the tickets handed out, followed by those still pending, are exactly the accepted
  tickets in the order of acceptance, and no ticket is pending twice.
\<close>

theorem cooling_queue_fifo:
  "fst (cooling_run ops) @ snd (cooling_run ops) = accepted ops [] \<and> distinct (snd (cooling_run ops))"
proof -
  obtain p q where "fold cooling_step ops ([], []) = (p, q)" by fastforce
  with cooling_fold[of "[]" ops "[]" p q] show ?thesis by (simp add: cooling_run_def)
qed

end
