(* ===== verification/Write_Budget.thy ===== *)
theory Write_Budget
  imports Atomic_Update Float64
begin

text \<open>
  The token bucket \<open>WriteBudget\<close> of src/crates/tierbuf/src/tier/mod.rs.  A \<open>Duration\<close> is its number
  of nanoseconds; the products of \<open>tick\<close> are computed in \<open>u128\<close> by the code and as naturals here,
  \<open>tick_no_overflow\<close> showing that they stay below 2^128.
\<close>

definition NANOS_PER_DAY :: nat where "NANOS_PER_DAY = 86400 * 1000000000"

record write_budget =
  wb_daily_allowance_bytes :: u64
  wb_available_bytes :: u64
  wb_refill_remainder :: u64

definition from_daily_allowance :: "u64 \<Rightarrow> write_budget" where
  "from_daily_allowance daily =
     \<lparr>wb_daily_allowance_bytes = daily, wb_available_bytes = daily, wb_refill_remainder = 0\<rparr>"

definition from_dwpd :: "u64 \<Rightarrow> f64 \<Rightarrow> tierbuf_error + write_budget" where
  "from_dwpd device_capacity_bytes dwpd =
     (if \<not> f_is_finite dwpd \<or> f_lt dwpd f_zero
      then Inl (invalid_input ''DWPD must be finite and greater than or equal to zero'')
      else (let allowance = f_as_u64 (f_min (f_floor (f_mul (f_of_nat (unat device_capacity_bytes)) dwpd))
                                        (f_of_nat (2 ^ 64 - 1)))
            in Inr (from_daily_allowance (word_of_nat allowance))))"

definition try_consume_under :: "u64 interference list \<Rightarrow> u64 \<Rightarrow> write_budget \<Rightarrow> bool \<times> write_budget" where
  "try_consume_under script bytes b =
     (case try_update (\<lambda>available. checked_sub available bytes) script (wb_available_bytes b) of
        (Inr _, w) \<Rightarrow> (True, b\<lparr>wb_available_bytes := w\<rparr>)
      | (Inl _, w) \<Rightarrow> (False, b\<lparr>wb_available_bytes := w\<rparr>))"

definition try_consume :: "u64 \<Rightarrow> write_budget \<Rightarrow> bool \<times> write_budget" where
  "try_consume = try_consume_under []"

definition refill_step :: "u64 \<Rightarrow> bool \<Rightarrow> nat \<Rightarrow> u64 \<Rightarrow> u64 \<times> u64" where
  "refill_step daily includes_full_day partial_credit old_remainder =
     (let credit = partial_credit + unat old_remainder;
          partial_bytes = credit div NANOS_PER_DAY;
          new_remainder = word_of_nat (credit mod NANOS_PER_DAY);
          refill_bytes = (if includes_full_day then daily
                          else if partial_bytes < 2 ^ 64 then word_of_nat partial_bytes else daily)
      in (refill_bytes, new_remainder))"

text \<open>
  The remainder loop: each entry of the script is what other threads store before the load and
  before the compare-exchange of one iteration.
\<close>

fun tick_loop ::
  "u64 \<Rightarrow> bool \<Rightarrow> nat \<Rightarrow> (u64 interference \<times> u64 interference) list \<Rightarrow> u64 \<Rightarrow> u64 \<times> u64" where
  "tick_loop daily full credit [] cell = refill_step daily full credit cell"
| "tick_loop daily full credit ((before_load, before_cas) # script) cell =
     (let old_remainder = interfere before_load cell;
          (refill_bytes, new_remainder) = refill_step daily full credit old_remainder
      in case compare_exchange_weak (spurious before_cas) old_remainder new_remainder
                (interfere before_cas old_remainder) of
           (Inr _, cell') \<Rightarrow> (refill_bytes, cell')
         | (Inl _, cell') \<Rightarrow> tick_loop daily full credit script cell')"

definition tick_under ::
  "(u64 interference \<times> u64 interference) list \<Rightarrow> u64 interference list \<Rightarrow> nat \<Rightarrow> write_budget \<Rightarrow> write_budget" where
  "tick_under script1 script2 elapsed_nanos b =
     (if wb_daily_allowance_bytes b = 0 \<or> elapsed_nanos = 0 then b
      else (let includes_full_day = NANOS_PER_DAY \<le> elapsed_nanos;
                partial_nanos = elapsed_nanos mod NANOS_PER_DAY;
                partial_credit = partial_nanos * unat (wb_daily_allowance_bytes b);
                (added, remainder) = tick_loop (wb_daily_allowance_bytes b) includes_full_day partial_credit
                                       script1 (wb_refill_remainder b);
                b1 = b\<lparr>wb_refill_remainder := remainder\<rparr>
            in if added = 0 then b1
               else b1\<lparr>wb_available_bytes :=
                      snd (try_update (\<lambda>available. Some (min (saturating_add available added) (wb_daily_allowance_bytes b)))
                             script2 (wb_available_bytes b1))\<rparr>))"

definition tick :: "nat \<Rightarrow> write_budget \<Rightarrow> write_budget" where
  "tick = tick_under [] []"

section \<open>Invariant and closed forms\<close>

definition budget_wf :: "write_budget \<Rightarrow> bool" where
  "budget_wf b \<longleftrightarrow> wb_available_bytes b \<le> wb_daily_allowance_bytes b \<and> unat (wb_refill_remainder b) < NANOS_PER_DAY"

abbreviation daily :: "write_budget \<Rightarrow> nat" where "daily b \<equiv> unat (wb_daily_allowance_bytes b)"
abbreviation available :: "write_budget \<Rightarrow> nat" where "available b \<equiv> unat (wb_available_bytes b)"
abbreviation remainder :: "write_budget \<Rightarrow> nat" where "remainder b \<equiv> unat (wb_refill_remainder b)"

lemma NPD [simp]: "0 < NANOS_PER_DAY" "NANOS_PER_DAY < 2 ^ 64"
  by (simp_all add: NANOS_PER_DAY_def)

lemma try_update_quiet: "try_update u [] c = atomic_update u c"
  by (simp add: try_update_def try_update_loop_quiet)

lemma try_consume_eq:
  "try_consume bytes b =
     (if bytes \<le> wb_available_bytes b then (True, b\<lparr>wb_available_bytes := wb_available_bytes b - bytes\<rparr>) else (False, b))"
  by (simp add: try_consume_def try_consume_under_def try_update_quiet atomic_update_def checked_sub_def)

lemma refill_step_eq:
  assumes "partial_nanos < NANOS_PER_DAY" "unat old < NANOS_PER_DAY"
  shows "unat (fst (refill_step d full (partial_nanos * unat d) old))
           = (if full then unat d else (partial_nanos * unat d + unat old) div NANOS_PER_DAY)"
    and "unat (snd (refill_step d full (partial_nanos * unat d) old)) = (partial_nanos * unat d + unat old) mod NANOS_PER_DAY"
    and "(partial_nanos * unat d + unat old) div NANOS_PER_DAY \<le> unat d"
proof -
  let ?c = "partial_nanos * unat d + unat old"
  have "partial_nanos * unat d \<le> (NANOS_PER_DAY - 1) * unat d" using assms(1) by (intro mult_le_mono1) simp
  then have "?c < NANOS_PER_DAY * (unat d + 1)" using assms(2) by (cases "unat d") (auto simp: diff_mult_distrib algebra_simps)
  then have le: "?c div NANOS_PER_DAY < unat d + 1" by (metis less_mult_imp_div_less mult.commute)
  then show "?c div NANOS_PER_DAY \<le> unat d" by simp
  then have lt: "?c div NANOS_PER_DAY < 2 ^ 64" using unat_less_pow[of d] by simp
  have "?c mod NANOS_PER_DAY < 2 ^ 64" by (rule less_trans[OF mod_less_divisor[OF NPD(1)] NPD(2)])
  then show "unat (snd (refill_step d full (partial_nanos * unat d) old)) = ?c mod NANOS_PER_DAY"
    by (simp add: refill_step_def Let_def unat_of_nat)
  show "unat (fst (refill_step d full (partial_nanos * unat d) old)) = (if full then unat d else ?c div NANOS_PER_DAY)"
    using lt by (simp add: refill_step_def Let_def unat_of_nat)
qed

lemma unat_min: "unat (min a b) = min (unat a) (unat b)" for a b :: "'a::len word"
  by (simp add: min_def word_le_nat_alt)

text \<open>
  The effect of one tick, whatever its length: the credit of the interval is added to the kept
  remainder, whole bytes go to the bucket up to its capacity and the rest is kept.
\<close>

definition credit :: "nat \<Rightarrow> write_budget \<Rightarrow> nat" where
  "credit x b = remainder b + x * daily b"

lemma tick_closed_form:
  assumes wf: "budget_wf b"
  shows "available (tick x b) = min (available b + credit x b div NANOS_PER_DAY) (daily b)"
    and "remainder (tick x b) = credit x b mod NANOS_PER_DAY"
    and "wb_daily_allowance_bytes (tick x b) = wb_daily_allowance_bytes b"
proof -
  let ?N = NANOS_PER_DAY and ?d = "daily b" and ?r = "remainder b" and ?full = "NANOS_PER_DAY \<le> x"
  have a: "available b \<le> ?d" and r: "?r < ?N" using wf by (auto simp: budget_wf_def word_le_nat_alt)
  show "wb_daily_allowance_bytes (tick x b) = wb_daily_allowance_bytes b"
    by (simp add: tick_def tick_under_def Let_def split: prod.splits)
  have split: "credit x b = (x mod ?N * ?d + ?r) + ?N * (x div ?N * ?d)"
  proof -
    have "x * ?d = (x mod ?N + ?N * (x div ?N)) * ?d" by (simp only: mod_mult_div_eq)
    also have "\<dots> = x mod ?N * ?d + ?N * (x div ?N * ?d)" by (simp only: distrib_right mult.assoc)
    finally show ?thesis by (simp add: credit_def)
  qed
  obtain ad rm where st: "refill_step (wb_daily_allowance_bytes b) ?full (x mod ?N * ?d) (wb_refill_remainder b) = (ad, rm)"
    by fastforce
  note e = refill_step_eq[OF mod_less_divisor[OF NPD(1), of x] r, where d = "wb_daily_allowance_bytes b"]
  have ad: "unat ad = (if ?full then ?d else (x mod ?N * ?d + ?r) div ?N)"
    and rm: "unat rm = (x mod ?N * ?d + ?r) mod ?N" and small: "(x mod ?N * ?d + ?r) div ?N \<le> ?d"
    using e(1)[of ?full] e(2)[of ?full] e(3) unfolding st by simp_all
  have cdiv: "credit x b div ?N = (x mod ?N * ?d + ?r) div ?N + x div ?N * ?d"
    and cmod: "credit x b mod ?N = (x mod ?N * ?d + ?r) mod ?N"
    unfolding split by simp_all
  show "remainder (tick x b) = credit x b mod ?N"
  proof (cases "?d = 0 \<or> x = 0")
    case True
    then show ?thesis using r by (auto simp: tick_def tick_under_def credit_def unat_eq_zero)
  next
    case False
    then show ?thesis using rm cmod st
      by (auto simp: tick_def tick_under_def Let_def unat_eq_zero)
  qed
  have full_or: "min (available b + unat ad) ?d = min (available b + credit x b div ?N) ?d"
  proof (cases ?full)
    case True
    then have "1 \<le> x div ?N" by (simp add: div_greater_zero_iff Suc_le_eq)
    then have "?d \<le> x div ?N * ?d" by simp
    then have "?d \<le> available b + credit x b div ?N" using cdiv by linarith
    then show ?thesis using True ad by simp
  qed (use ad cdiv in simp)
  show "available (tick x b) = min (available b + credit x b div ?N) ?d"
  proof (cases "?d = 0 \<or> x = 0")
    case True
    then show ?thesis using a r by (auto simp: tick_def tick_under_def credit_def unat_eq_zero)
  next
    case False
    have sat: "min (min (available b + unat ad) (2 ^ 64 - 1)) ?d = min (available b + unat ad) ?d"
      using unat_less_pow[of "wb_daily_allowance_bytes b"] by simp
    show ?thesis
    proof (cases "ad = 0")
      case True
      then show ?thesis using full_or False st a by (auto simp: tick_def tick_under_def Let_def unat_eq_zero)
    next
      case ad0: False
      then show ?thesis using full_or False st sat
        by (auto simp: tick_def tick_under_def Let_def unat_eq_zero try_update_quiet atomic_update_def
            unat_min unat_saturating_add)
    qed
  qed
qed

lemma budget_eqI:
  "available a = available b \<Longrightarrow> remainder a = remainder b \<Longrightarrow>
   wb_daily_allowance_bytes a = wb_daily_allowance_bytes b \<Longrightarrow> a = (b :: write_budget)"
  by (cases a, cases b) (auto simp: word_unat_eq_iff)

lemma tick_wf: "budget_wf b \<Longrightarrow> budget_wf (tick x b)"
  using tick_closed_form[of b x] by (auto simp: budget_wf_def word_le_nat_alt)

lemma consume_wf: "budget_wf b \<Longrightarrow> budget_wf (snd (try_consume n b))"
  by (auto simp: try_consume_eq budget_wf_def word_le_nat_alt unat_sub)

text \<open>
  The refill clock is exact: for a well-formed bucket, ticking by two intervals in turn
  leaves exactly the state of one tick by their sum, so that splitting time into many small
  ticks neither loses nor gains a byte; the products of the code fit in 128 bits.
\<close>

theorem budget_tick_additive:
  assumes "budget_wf b"
  shows "tick y (tick x b) = tick (x + y) b
     \<and> x mod NANOS_PER_DAY * daily b + remainder b < 2 ^ 128"
proof
  let ?N = NANOS_PER_DAY
  note tx = tick_closed_form[OF assms, of x] and txy = tick_closed_form[OF assms, of "x + y"]
    and ty = tick_closed_form[OF tick_wf[OF assms, of x], of y]
  have c: "credit y (tick x b) = credit x b mod ?N + y * daily b" using tx by (simp add: credit_def)
  have s: "credit (x + y) b = credit x b mod ?N + y * daily b + ?N * (credit x b div ?N)"
  proof -
    have "credit x b mod ?N + ?N * (credit x b div ?N) = credit x b" by (rule mod_mult_div_eq)
    moreover have "credit (x + y) b = credit x b + y * daily b" by (simp add: credit_def distrib_right)
    ultimately show ?thesis by simp
  qed
  have d: "credit (x + y) b div ?N = credit x b div ?N + credit y (tick x b) div ?N"
    unfolding c s by (rule div_mult_self2) (simp add: NANOS_PER_DAY_def)
  have m: "credit (x + y) b mod ?N = credit y (tick x b) mod ?N"
    unfolding c s by (rule mod_mult_self2)
  show "tick y (tick x b) = tick (x + y) b"
    by (rule budget_eqI) (use tx ty txy d m in auto)
  have "x mod ?N * daily b \<le> 2 ^ 47 * 2 ^ 64"
    using unat_less_pow[of "wb_daily_allowance_bytes b"] mod_less_divisor[OF NPD(1), of x]
    by (intro mult_mono) (auto simp: NANOS_PER_DAY_def)
  then show "x mod ?N * daily b + remainder b < 2 ^ 128"
    using unat_less_pow[of "wb_refill_remainder b"] by simp
qed

theorem budget_tick_additive_witness:
  "tick 43200000000000 (tick 43200000000000 ((from_daily_allowance 10)\<lparr>wb_available_bytes := 3\<rparr>))
     = tick (43200000000000 + 43200000000000) ((from_daily_allowance 10)\<lparr>wb_available_bytes := 3\<rparr>)
   \<and> budget_wf ((from_daily_allowance 10)\<lparr>wb_available_bytes := 3\<rparr>)"
proof -
  have wf: "budget_wf ((from_daily_allowance 10)\<lparr>wb_available_bytes := 3\<rparr>)"
    by (simp add: budget_wf_def from_daily_allowance_def)
  with budget_tick_additive[OF wf, of 43200000000000 43200000000000] show ?thesis by simp
qed

section \<open>Runs of the bucket\<close>

datatype budget_op = Consume u64 | Tick nat

fun budget_step :: "budget_op \<Rightarrow> nat \<times> write_budget \<Rightarrow> nat \<times> write_budget" where
  "budget_step (Consume n) (granted, b) =
     (case try_consume n b of (ok, b') \<Rightarrow> (if ok then granted + unat n else granted, b'))"
| "budget_step (Tick x) (granted, b) = (granted, tick x b)"

fun op_time :: "budget_op \<Rightarrow> nat" where
  "op_time (Consume _) = 0"
| "op_time (Tick x) = x"

lemma budget_run:
  assumes "budget_wf b" "fold budget_step ops (g, b) = (g', b')"
  shows "budget_wf b' \<and> wb_daily_allowance_bytes b' = wb_daily_allowance_bytes b
    \<and> (g' + available b') * NANOS_PER_DAY + remainder b'
        \<le> (g + available b) * NANOS_PER_DAY + remainder b + sum_list (map op_time ops) * daily b"
  using assms
proof (induction ops arbitrary: g b)
  case (Cons op ops)
  show ?case
  proof (cases op)
    case (Consume n)
    let ?g = "if n \<le> wb_available_bytes b then g + unat n else g"
    have st: "budget_step op (g, b) = (?g, snd (try_consume n b))" by (simp add: Consume try_consume_eq)
    have "fold budget_step ops (?g, snd (try_consume n b)) = (g', b')" using Cons.prems(2) st by simp
    note ih = Cons.IH[OF consume_wf[OF Cons.prems(1)] this]
    have "?g + available (snd (try_consume n b)) = g + available b"
      by (auto simp: try_consume_eq word_le_nat_alt unat_sub)
    moreover have "remainder (snd (try_consume n b)) = remainder b"
      "wb_daily_allowance_bytes (snd (try_consume n b)) = wb_daily_allowance_bytes b" by (auto simp: try_consume_eq)
    ultimately show ?thesis using ih by (simp add: Consume)
  next
    case (Tick x)
    have "fold budget_step ops (g, tick x b) = (g', b')" using Cons.prems(2) Tick by simp
    note ih = Cons.IH[OF tick_wf[OF Cons.prems(1)] this] and t = tick_closed_form[OF Cons.prems(1), of x]
    have "(g + available (tick x b)) * NANOS_PER_DAY + remainder (tick x b)
        \<le> (g + available b + credit x b div NANOS_PER_DAY) * NANOS_PER_DAY + credit x b mod NANOS_PER_DAY"
      unfolding t(1,2) by (rule add_le_mono1, rule mult_le_mono1) simp
    also have "\<dots> = (g + available b) * NANOS_PER_DAY + credit x b" by (simp add: algebra_simps)
    finally show ?thesis using ih t(3) by (simp add: Tick credit_def algebra_simps)
  qed
qed simp

text \<open>
  C33. The bucket never lets through more than its capacity plus what time has refilled: over any
  sequence of write attempts and ticks on a new bucket the granted bytes are bounded by the daily
  allowance plus the allowance of the elapsed time, the bucket stays within its capacity, and an
  attempt is granted exactly when enough bytes are available and takes exactly that many.
\<close>

theorem budget_never_overdrawn:
  "(let (granted, b) = fold budget_step ops (0, from_daily_allowance d);
        elapsed = sum_list (map op_time ops)
    in granted * NANOS_PER_DAY \<le> unat d * NANOS_PER_DAY + elapsed * unat d
     \<and> available b \<le> unat d \<and> wb_daily_allowance_bytes b = d
     \<and> (\<forall>n. fst (try_consume n b) = (n \<le> wb_available_bytes b)
          \<and> available (snd (try_consume n b)) = available b - (if n \<le> wb_available_bytes b then unat n else 0)))"
proof -
  obtain g b where gb: "fold budget_step ops (0, from_daily_allowance d) = (g, b)" by fastforce
  have "budget_wf (from_daily_allowance d)" by (simp add: budget_wf_def from_daily_allowance_def)
  from budget_run[OF this gb] have r: "budget_wf b" "wb_daily_allowance_bytes b = d"
    "(g + available b) * NANOS_PER_DAY + remainder b
       \<le> unat d * NANOS_PER_DAY + sum_list (map op_time ops) * unat d"
    by (auto simp: from_daily_allowance_def)
  have "g * NANOS_PER_DAY \<le> (g + available b) * NANOS_PER_DAY" by simp
  then have "g * NANOS_PER_DAY \<le> unat d * NANOS_PER_DAY + sum_list (map op_time ops) * unat d"
    using r(3) by linarith
  moreover have "available b \<le> unat d" using r by (simp add: budget_wf_def word_le_nat_alt)
  ultimately show ?thesis using r(2) by (auto simp: gb try_consume_eq unat_sub)
qed

end
