(* ===== verification/Tier_Backend.thy ===== *)
theory Tier_Backend
  imports Write_Budget
begin

text \<open>
  The storage-tier interface of src/crates/tierbuf/src/tier/mod.rs.  The trait \<open>TierBackend\<close> is a
  record of operations on a tier state; what the buffer manager relies on is the locale
  \<open>tier_backend\<close>, interpreted on the in-memory tier and on the file tier in their theories.
\<close>

record latency_profile =
  lp_read_us_p50 :: nat
  lp_write_us_p50 :: nat
  lp_seq_gbps :: f64

definition latency_default :: latency_profile where
  "latency_default = \<lparr>lp_read_us_p50 = 0, lp_write_us_p50 = 0, lp_seq_gbps = f_zero\<rparr>"

text \<open>
  \<open>tb_read\<close> returns the new content of the caller's buffer next to the result, since a failed read
  may have overwritten part of it.  \<open>write_budget\<close> hands out a shared reference to a bucket with
  interior mutability: a getter and a setter.
\<close>

record 't tier_ops =
  tb_name :: "'t \<Rightarrow> string"
  tb_read :: "nat \<Rightarrow> u8 list \<Rightarrow> 't \<Rightarrow> (unit outcome \<times> u8 list) \<times> 't"
  tb_write :: "u8 list \<Rightarrow> ('t, nat) operation"
  tb_free :: "nat \<Rightarrow> ('t, unit) operation"
  tb_capacity_bytes :: "'t \<Rightarrow> nat"
  tb_used_bytes :: "'t \<Rightarrow> nat"
  tb_price_gb_month :: "'t \<Rightarrow> f64"
  tb_write_budget :: "'t \<Rightarrow> write_budget option"
  tb_set_budget :: "write_budget \<Rightarrow> 't \<Rightarrow> 't"
  tb_latency :: "'t \<Rightarrow> latency_profile"

text \<open>The check both backends make of the caller's buffer.\<close>

definition validate_page_buffer :: "nat \<Rightarrow> tierbuf_error + unit" where
  "validate_page_buffer len =
     (if len \<noteq> PAGE_SIZE then Inl (invalid_input ''tier I/O buffer length must equal PAGE_SIZE'') else Inr ())"

definition vec_pop :: "'a list \<Rightarrow> 'a option \<times> 'a list" where
  "vec_pop xs = (if xs = [] then (None, xs) else (Some (last xs), butlast xs))"

text \<open>
  The contract: \<open>contents\<close> is the page stored at each offset.  A read that succeeds returns the
  stored page and no read changes what is stored; a write that succeeds stores the page at an
  offset that was vacant and a failed one stores nothing; freeing empties exactly one offset and
  is idempotent; the bytes in use are those of the stored pages; none of them panics.
\<close>

locale tier_backend =
  fixes T :: "'t tier_ops"
    and contents :: "'t \<Rightarrow> nat \<Rightarrow> page option"
    and ok :: "'t \<Rightarrow> bool"
  assumes page_law: "ok t \<Longrightarrow> contents t l = Some p \<Longrightarrow> length p = PAGE_SIZE"
    and read_law: "ok t \<Longrightarrow> length b = PAGE_SIZE \<Longrightarrow> tb_read T l b t = ((r, b'), t') \<Longrightarrow>
          ok t' \<and> contents t' = contents t \<and> length b' = PAGE_SIZE
          \<and> (r = oOk () \<and> contents t l = Some b' \<or> (\<exists>e. r = oErr e))"
    and write_law: "ok t \<Longrightarrow> tb_write T b t = (w, t') \<Longrightarrow>
          ok t' \<and> ((\<exists>l. w = oOk l \<and> contents t l = None \<and> contents t' = (contents t)(l \<mapsto> b) \<and> length b = PAGE_SIZE)
                 \<or> (\<exists>e. w = oErr e \<and> contents t' = contents t))"
    and free_law: "ok t \<Longrightarrow> \<exists>t'. tb_free T l t = (oOk (), t') \<and> ok t' \<and> contents t' = (contents t)(l := None)"
    and budget_law: "ok t \<Longrightarrow> ok (tb_set_budget T g t) \<and> contents (tb_set_budget T g t) = contents t"
    and used_law: "ok t \<Longrightarrow> finite (dom (contents t)) \<and> tb_used_bytes T t = card (dom (contents t)) * PAGE_SIZE"
begin

lemma write_then_read:
  assumes "ok t" "tb_write T b t = (oOk l, t')" "tb_read T l b0 t' = ((oOk (), b'), t'')" "length b0 = PAGE_SIZE"
  shows "b' = b"
  using write_law[OF assms(1,2)] read_law[OF _ assms(4,3)] by auto

lemma write_keeps_others:
  assumes "ok t" "tb_write T b t = (r, t')" "contents t l = Some p"
  shows "contents t' l = Some p"
  using write_law[OF assms(1,2)] assms(3) by auto

lemma free_twice:
  assumes "ok t" "tb_free T l t = (r, t')"
  shows "\<exists>t''. tb_free T l t' = (oOk (), t'') \<and> contents t'' = contents t'"
  using free_law[OF assms(1), of l] assms(2) free_law[of t' l] by fastforce

end

end
