(* ===== verification/Mock_Tier.thy ===== *)
theory Mock_Tier
  imports Tier_Backend "HOL-Library.AList"
begin

text \<open>
  The in-memory tier of src/crates/tierbuf/src/tier/mock.rs.  The hash map of pages is an
  association list with distinct keys; each operation holds the mutex for the whole of its state
  access, so it is one indivisible step.  The artificial delays have no effect on the state.
\<close>

record mock_state =
  ms_pages :: "(nat \<times> page) list"
  ms_free_slots :: "nat list"
  ms_next_slot :: nat
  ms_read_attempts :: nat
  ms_fail_read_at :: "nat option"

record mock_tier =
  mt_name :: string
  mt_capacity_bytes :: nat
  mt_slot_count :: nat
  mt_price_gb_month :: f64
  mt_latency :: latency_profile
  mt_write_budget :: "write_budget option"
  mt_state :: mock_state

definition mock_state_default :: mock_state where
  "mock_state_default = \<lparr>ms_pages = [], ms_free_slots = [], ms_next_slot = 0, ms_read_attempts = 0, ms_fail_read_at = None\<rparr>"

definition mock_with_options ::
  "string \<Rightarrow> nat \<Rightarrow> f64 \<Rightarrow> latency_profile \<Rightarrow> write_budget option \<Rightarrow> tierbuf_error + mock_tier" where
  "mock_with_options name capacity_bytes price latency budget =
     (if capacity_bytes = 0 \<or> capacity_bytes mod PAGE_SIZE \<noteq> 0
      then Inl (invalid_input ''mock tier capacity must be a non-zero multiple of PAGE_SIZE'')
      else if name = [] then Inl (invalid_input ''mock tier name must not be empty'')
      else if \<not> f_is_finite price \<or> f_lt price f_zero
      then Inl (invalid_input ''mock tier price must be finite and greater than or equal to zero'')
      else if \<not> f_is_finite (lp_seq_gbps latency) \<or> f_lt (lp_seq_gbps latency) f_zero
      then Inl (invalid_input ''mock tier throughput must be finite and greater than or equal to zero'')
      else Inr \<lparr>mt_name = name, mt_capacity_bytes = capacity_bytes, mt_slot_count = capacity_bytes div PAGE_SIZE,
             mt_price_gb_month = price, mt_latency = latency, mt_write_budget = budget,
             mt_state = mock_state_default\<rparr>)"

definition mock_new :: "nat \<Rightarrow> tierbuf_error + mock_tier" where
  "mock_new capacity_bytes = mock_with_options ''mock'' capacity_bytes f_zero latency_default None"

definition fail_nth_read :: "nat option \<Rightarrow> (mock_tier, unit) operation" where
  "fail_nth_read n t =
     (if n = Some 0 then (oErr (invalid_input ''injected read number must be at least one''), t)
      else (oOk (), t\<lparr>mt_state := (mt_state t)\<lparr>ms_read_attempts := 0, ms_fail_read_at := n\<rparr>\<rparr>))"

definition mock_validate_location :: "mock_tier \<Rightarrow> nat \<Rightarrow> tierbuf_error + unit" where
  "mock_validate_location t location =
     (if location mod PAGE_SIZE \<noteq> 0 \<or> mt_capacity_bytes t \<le> location
      then Inl (invalid_input ''mock tier offset must identify an aligned slot within capacity'')
      else Inr ())"

definition mock_read :: "nat \<Rightarrow> u8 list \<Rightarrow> mock_tier \<Rightarrow> (unit outcome \<times> u8 list) \<times> mock_tier" where
  "mock_read location buffer t =
     (case validate_page_buffer (length buffer) of
        Inl e \<Rightarrow> ((oErr e, buffer), t)
      | Inr _ \<Rightarrow>
      (case mock_validate_location t location of
        Inl e \<Rightarrow> ((oErr e, buffer), t)
      | Inr _ \<Rightarrow>
          (let attempts = min (ms_read_attempts (mt_state t) + 1) (2 ^ 64 - 1);
               st = (mt_state t)\<lparr>ms_read_attempts := attempts\<rparr>
           in if ms_fail_read_at st = Some attempts
              then ((oErr (Io (IoError OtherKind ''injected mock tier read failure'')), buffer),
                    t\<lparr>mt_state := st\<lparr>ms_fail_read_at := None\<rparr>\<rparr>)
              else (case map_of (ms_pages st) location of
                      None \<Rightarrow> ((oErr (Io (IoError NotFound ''mock tier page not found'')), buffer), t\<lparr>mt_state := st\<rparr>)
                    | Some page \<Rightarrow>
                        (if length page = length buffer then ((oOk (), page), t\<lparr>mt_state := st\<rparr>)
                         else ((oPanic ''copy_from_slice: source slice length does not match destination slice length'', buffer),
                               t\<lparr>mt_state := st\<rparr>))))))"

text \<open>
  The slot a write takes: the most recently freed one, or the next never-used one.  The last
  component is the state with that slot taken.
\<close>

definition mock_take_slot :: "nat \<Rightarrow> mock_state \<Rightarrow> (tierbuf_error + nat) \<times> mock_state" where
  "mock_take_slot slot_count st =
     (case vec_pop (ms_free_slots st) of
        (Some reused, rest) \<Rightarrow> (Inr reused, st\<lparr>ms_free_slots := rest\<rparr>)
      | (None, _) \<Rightarrow>
          (if ms_next_slot st < slot_count
           then (case checked_mul_u64 (ms_next_slot st) PAGE_SIZE of
                   None \<Rightarrow> (Inl (Io (IoError OtherKind ''mock tier offset overflow'')), st)
                 | Some byte_offset \<Rightarrow> (Inr byte_offset, st\<lparr>ms_next_slot := ms_next_slot st + 1\<rparr>))
           else (Inl (Io (IoError StorageFull ''mock tier capacity exhausted'')), st)))"

definition mock_write :: "u8 list \<Rightarrow> (mock_tier, nat) operation" where
  "mock_write buffer t =
     (case validate_page_buffer (length buffer) of
        Inl e \<Rightarrow> (oErr e, t)
      | Inr _ \<Rightarrow>
          (case mock_take_slot (mt_slot_count t) (mt_state t) of
             (Inl e, _) \<Rightarrow> (oErr e, t)
           | (Inr location, st) \<Rightarrow>
               (let t' = t\<lparr>mt_state := st\<lparr>ms_pages := AList.update location buffer (ms_pages st)\<rparr>\<rparr>
                in if map_of (ms_pages st) location = None then (oOk location, t')
                   else (oPanic ''allocated mock slot was already occupied'', t'))))"

definition mock_free :: "nat \<Rightarrow> (mock_tier, unit) operation" where
  "mock_free location t =
     (case mock_validate_location t location of
        Inl _ \<Rightarrow> (oOk (), t)
      | Inr _ \<Rightarrow>
          (let st = mt_state t in
           case map_of (ms_pages st) location of
             None \<Rightarrow> (oOk (), t)
           | Some _ \<Rightarrow> (oOk (), t\<lparr>mt_state := st\<lparr>ms_pages := AList.delete location (ms_pages st),
                                         ms_free_slots := ms_free_slots st @ [location]\<rparr>\<rparr>)))"

definition mock_used_bytes :: "mock_tier \<Rightarrow> nat" where
  "mock_used_bytes t = length (ms_pages (mt_state t)) * PAGE_SIZE"

definition mock_ops :: "mock_tier tier_ops" where
  "mock_ops = \<lparr>tb_name = mt_name, tb_read = mock_read, tb_write = mock_write, tb_free = mock_free,
     tb_capacity_bytes = mt_capacity_bytes, tb_used_bytes = mock_used_bytes,
     tb_price_gb_month = mt_price_gb_month, tb_write_budget = mt_write_budget,
     tb_set_budget = (\<lambda>w t. t\<lparr>mt_write_budget := Some w\<rparr>), tb_latency = mt_latency\<rparr>"

section \<open>Invariant\<close>

definition mock_contents :: "mock_tier \<Rightarrow> nat \<Rightarrow> page option" where
  "mock_contents t = map_of (ms_pages (mt_state t))"

definition slots_wf :: "nat \<Rightarrow> mock_state \<Rightarrow> bool" where
  "slots_wf n st \<longleftrightarrow> distinct (map fst (ms_pages st)) \<and> distinct (ms_free_slots st)
     \<and> fst ` set (ms_pages st) \<inter> set (ms_free_slots st) = {}
     \<and> fst ` set (ms_pages st) \<union> set (ms_free_slots st) = (\<lambda>k. k * PAGE_SIZE) ` {..<ms_next_slot st}
     \<and> ms_next_slot st \<le> n \<and> (\<forall>p \<in> snd ` set (ms_pages st). length p = PAGE_SIZE)"

definition mock_wf :: "mock_tier \<Rightarrow> bool" where
  "mock_wf t \<longleftrightarrow> mt_capacity_bytes t = mt_slot_count t * PAGE_SIZE \<and> mt_capacity_bytes t < 2 ^ 64
     \<and> slots_wf (mt_slot_count t) (mt_state t)"

lemma slots_wfI:
  assumes "ms_pages st = ps" "ms_free_slots st = fs" "ms_next_slot st = m"
    and "distinct (map fst ps)" "distinct fs" "fst ` set ps = K" "K \<inter> set fs = {}"
    and "K \<union> set fs = (\<lambda>k. k * PAGE_SIZE) ` {..<m}" "m \<le> n" "\<And>p. p \<in> snd ` set ps \<Longrightarrow> length p = PAGE_SIZE"
  shows "slots_wf n st"
  using assms unfolding slots_wf_def by simp

lemma slots_wfD:
  assumes "slots_wf n st"
  shows "distinct (map fst (ms_pages st))" "distinct (ms_free_slots st)"
    "fst ` set (ms_pages st) \<inter> set (ms_free_slots st) = {}"
    "fst ` set (ms_pages st) \<union> set (ms_free_slots st) = (\<lambda>k. k * PAGE_SIZE) ` {..<ms_next_slot st}"
    "ms_next_slot st \<le> n" "p \<in> snd ` set (ms_pages st) \<Longrightarrow> length p = PAGE_SIZE"
  using assms unfolding slots_wf_def by blast+

lemma mock_new_wf:
  "mock_with_options name cap price latency budget = Inr t \<Longrightarrow> cap < 2 ^ 64 \<Longrightarrow>
   mock_wf t \<and> mock_contents t = Map.empty"
  by (auto simp: mock_with_options_def mock_wf_def slots_wf_def mock_state_default_def mock_contents_def
      split: if_splits)

lemma validate_page_buffer_simps [simp]:
  "validate_page_buffer PAGE_SIZE = Inr ()"
  "validate_page_buffer n = Inr u \<longleftrightarrow> n = PAGE_SIZE"
  by (auto simp: validate_page_buffer_def)

lemma slots_page_length: "slots_wf n st \<Longrightarrow> map_of (ms_pages st) l = Some p \<Longrightarrow> length p = PAGE_SIZE"
  by (auto simp: slots_wf_def dest!: map_of_SomeD)

lemma mock_read_frame:
  assumes "mock_read l b t = (rb, t')"
  shows "mt_capacity_bytes t' = mt_capacity_bytes t \<and> mt_slot_count t' = mt_slot_count t
    \<and> ms_pages (mt_state t') = ms_pages (mt_state t) \<and> ms_free_slots (mt_state t') = ms_free_slots (mt_state t)
    \<and> ms_next_slot (mt_state t') = ms_next_slot (mt_state t)"
  using assms by (auto simp: mock_read_def Let_def split: sum.splits if_splits option.splits)

lemma mock_read_keeps:
  assumes "mock_wf t" "mock_read l b t = (rb, t')"
  shows "mock_wf t' \<and> mock_contents t' = mock_contents t"
  using assms(1) mock_read_frame[OF assms(2)] by (simp add: mock_wf_def slots_wf_def mock_contents_def)

lemma mock_read_result:
  assumes "mock_wf t" "length b = PAGE_SIZE" "mock_read l b t = ((r, b'), t')"
  shows "length b' = PAGE_SIZE \<and> (r = oOk () \<and> mock_contents t l = Some b' \<or> (\<exists>e. r = oErr e))"
  using assms slots_page_length[of "mt_slot_count t" "mt_state t" l]
  by (auto simp: mock_read_def mock_wf_def mock_contents_def Let_def
      split: sum.splits if_splits option.splits)

lemma take_slot_spec:
  assumes wf: "slots_wf n st" and b: "n * PAGE_SIZE < 2 ^ 64" and t: "mock_take_slot n st = (Inr l, st')"
  shows "map_of (ms_pages st) l = None \<and> ms_pages st' = ms_pages st \<and> ms_next_slot st' \<le> n
    \<and> distinct (ms_free_slots st') \<and> l \<notin> set (ms_free_slots st')
    \<and> fst ` set (ms_pages st) \<inter> set (ms_free_slots st') = {}
    \<and> insert l (fst ` set (ms_pages st) \<union> set (ms_free_slots st')) = (\<lambda>k. k * PAGE_SIZE) ` {..<ms_next_slot st'}"
proof (cases "ms_free_slots st = []")
  case False
  then obtain xs where xs: "ms_free_slots st = xs @ [l]" and st': "st' = st\<lparr>ms_free_slots := xs\<rparr>"
    using t by (cases "ms_free_slots st" rule: rev_cases) (auto simp: mock_take_slot_def vec_pop_def)
  have "map_of (ms_pages st) l = None" using wf xs by (auto simp: slots_wf_def map_of_eq_None_iff)
  with wf xs st' show ?thesis by (auto simp: slots_wf_def)
next
  case True
  then have l: "l = ms_next_slot st * PAGE_SIZE" "ms_next_slot st < n" "st' = st\<lparr>ms_next_slot := ms_next_slot st + 1\<rparr>"
    using t by (auto simp: mock_take_slot_def vec_pop_def checked_mul_u64_def split: if_splits)
  have fresh: "l \<notin> (\<lambda>k. k * PAGE_SIZE) ` {..<ms_next_slot st}" using l(1) by auto
  have pages: "fst ` set (ms_pages st) = (\<lambda>k. k * PAGE_SIZE) ` {..<ms_next_slot st}"
    using wf True by (simp add: slots_wf_def)
  with fresh have "map_of (ms_pages st) l = None" by (simp add: map_of_eq_None_iff)
  with wf True l pages show ?thesis by (simp add: slots_wf_def lessThan_Suc)
qed

lemma snd_update_subset: "snd ` set (AList.update k v xs) \<subseteq> insert v (snd ` set xs)"
  by (induction xs) auto

lemma alist_delete_images:
  "fst ` set (AList.delete k xs) = fst ` set xs - {k}"
  "snd ` set (AList.delete k xs) \<subseteq> snd ` set xs"
  unfolding AList.delete_eq by force+

lemma mock_write_law:
  assumes wf: "mock_wf t" and w: "mock_write b t = (r, t')"
  shows "mock_wf t' \<and> ((\<exists>l. r = oOk l \<and> mock_contents t l = None
       \<and> mock_contents t' = (mock_contents t)(l \<mapsto> b) \<and> length b = PAGE_SIZE)
     \<or> (\<exists>e. r = oErr e \<and> mock_contents t' = mock_contents t))"
proof (cases "\<exists>l st. length b = PAGE_SIZE \<and> mock_take_slot (mt_slot_count t) (mt_state t) = (Inr l, st)")
  case False
  then have "t' = t" "\<exists>e. r = oErr e"
    using w by (auto simp: mock_write_def validate_page_buffer_def split: sum.splits if_splits prod.splits)
  with wf show ?thesis by auto
next
  case True
  then obtain l st where b: "length b = PAGE_SIZE"
    and ts: "mock_take_slot (mt_slot_count t) (mt_state t) = (Inr l, st)" by blast
  have "slots_wf (mt_slot_count t) (mt_state t)" "mt_slot_count t * PAGE_SIZE < 2 ^ 64"
    using wf by (auto simp: mock_wf_def)
  note s = take_slot_spec[OF this ts]
  then have r: "r = oOk l" "t' = t\<lparr>mt_state := st\<lparr>ms_pages := AList.update l b (ms_pages (mt_state t))\<rparr>\<rparr>"
    using w b ts by (auto simp: mock_write_def Let_def)
  let ?ps = "ms_pages (mt_state t)"
  note wfD = slots_wfD[OF \<open>slots_wf (mt_slot_count t) (mt_state t)\<close>]
  have k: "fst ` set (AList.update l b ?ps) = insert l (fst ` set ?ps)"
    using dom_update[of l b ?ps] by (simp add: dom_map_of_conv_image_fst)
  have len: "length p = PAGE_SIZE" if "p \<in> snd ` set (AList.update l b ?ps)" for p
    using that snd_update_subset[of l b ?ps] wfD(6) b by blast
  have "slots_wf (mt_slot_count t) (mt_state t')"
    by (rule slots_wfI[where ps = "AList.update l b ?ps" and fs = "ms_free_slots st", OF _ _ refl _ _ k])
      (use r s wfD(1) len in \<open>auto simp: distinct_update\<close>)
  then have "mock_wf t'" using wf r by (simp add: mock_wf_def)
  then show ?thesis using r s b by (auto simp: mock_contents_def update_conv')
qed

lemma mock_free_law:
  assumes wf: "mock_wf t"
  shows "\<exists>t'. mock_free l t = (oOk (), t') \<and> mock_wf t' \<and> mock_contents t' = (mock_contents t)(l := None)"
proof (cases "mock_contents t l")
  case None
  then have "mock_free l t = (oOk (), t)"
    by (auto simp: mock_free_def mock_contents_def Let_def split: sum.splits)
  with wf None show ?thesis by (auto simp: fun_upd_idem)
next
  case (Some p)
  let ?st = "mt_state t"
  have l: "l \<in> fst ` set (ms_pages ?st)" using Some by (force simp: mock_contents_def dest: map_of_SomeD)
  moreover have "fst ` set (ms_pages ?st) \<union> set (ms_free_slots ?st) = (\<lambda>k. k * PAGE_SIZE) ` {..<ms_next_slot ?st}"
    using wf by (simp add: mock_wf_def slots_wf_def)
  ultimately obtain k where k: "l = k * PAGE_SIZE" "k < ms_next_slot ?st" by blast
  then have "l < mt_capacity_bytes t" using wf by (auto simp: mock_wf_def slots_wf_def)
  then have f: "mock_free l t = (oOk (), t\<lparr>mt_state := ?st\<lparr>ms_pages := AList.delete l (ms_pages ?st),
      ms_free_slots := ms_free_slots ?st @ [l]\<rparr>\<rparr>)"
    using Some k by (simp add: mock_free_def mock_validate_location_def mock_contents_def Let_def)
  let ?ps = "ms_pages ?st" and ?t = "snd (mock_free l t)"
  have wfs: "slots_wf (mt_slot_count t) ?st" using wf by (simp add: mock_wf_def)
  note wfD = slots_wfD[OF wfs]
  have len: "length p = PAGE_SIZE" if "p \<in> snd ` set (AList.delete l ?ps)" for p
    using that alist_delete_images(2)[of l ?ps] wfD(6) by blast
  have all: "(fst ` set ?ps - {l}) \<union> insert l (set (ms_free_slots ?st)) = (\<lambda>k. k * PAGE_SIZE) ` {..<ms_next_slot ?st}"
    using l wfD(4) by blast
  have apart: "l \<notin> set (ms_free_slots ?st)" "(fst ` set ?ps - {l}) \<inter> insert l (set (ms_free_slots ?st)) = {}"
    using l wfD(3) by blast+
  have "slots_wf (mt_slot_count t) (mt_state ?t)"
    by (rule slots_wfI[where ps = "AList.delete l ?ps" and fs = "ms_free_slots ?st @ [l]", OF _ _ refl _ _ alist_delete_images(1)])
      (use f wfD(1,2,5) len all apart in \<open>simp_all add: distinct_delete\<close>)
  then have "mock_wf ?t" using wf f by (simp add: mock_wf_def)
  then show ?thesis unfolding f by (auto simp: mock_contents_def delete_conv')
qed

lemma mock_card:
  "mock_wf t \<Longrightarrow> card (dom (map_of (ms_pages (mt_state t)))) = length (ms_pages (mt_state t))"
  using distinct_card[of "map fst (ms_pages (mt_state t))"]
  by (simp add: mock_wf_def slots_wf_def dom_map_of_conv_image_fst)

interpretation mock: tier_backend mock_ops mock_contents mock_wf
proof
  show "\<And>t l p. mock_wf t \<Longrightarrow> mock_contents t l = Some p \<Longrightarrow> length p = PAGE_SIZE"
    by (auto simp: mock_wf_def mock_contents_def intro: slots_page_length)
  show "\<And>t b l r b' t'. mock_wf t \<Longrightarrow> length b = PAGE_SIZE \<Longrightarrow> tb_read mock_ops l b t = ((r, b'), t') \<Longrightarrow>
      mock_wf t' \<and> mock_contents t' = mock_contents t \<and> length b' = PAGE_SIZE
      \<and> (r = oOk () \<and> mock_contents t l = Some b' \<or> (\<exists>e. r = oErr e))"
    using mock_read_keeps mock_read_result by (simp add: mock_ops_def)
  show "\<And>t b r t'. mock_wf t \<Longrightarrow> tb_write mock_ops b t = (r, t') \<Longrightarrow> mock_wf t' \<and>
      ((\<exists>l. r = oOk l \<and> mock_contents t l = None \<and> mock_contents t' = (mock_contents t)(l \<mapsto> b) \<and> length b = PAGE_SIZE)
       \<or> (\<exists>e. r = oErr e \<and> mock_contents t' = mock_contents t))"
    using mock_write_law by (simp add: mock_ops_def)
  show "\<And>t l. mock_wf t \<Longrightarrow> \<exists>t'. tb_free mock_ops l t = (oOk (), t') \<and> mock_wf t' \<and> mock_contents t' = (mock_contents t)(l := None)"
    using mock_free_law by (simp add: mock_ops_def)
  show "\<And>t w. mock_wf t \<Longrightarrow> mock_wf (tb_set_budget mock_ops w t) \<and> mock_contents (tb_set_budget mock_ops w t) = mock_contents t"
    by (simp add: mock_ops_def mock_wf_def mock_contents_def)
  show "\<And>t. mock_wf t \<Longrightarrow> finite (dom (mock_contents t)) \<and> tb_used_bytes mock_ops t = card (dom (mock_contents t)) * PAGE_SIZE"
    by (simp add: mock_ops_def mock_used_bytes_def mock_contents_def finite_dom_map_of mock_card)
qed

section \<open>Properties\<close>

lemma mock_full:
  assumes wf: "mock_wf t"
  shows "fst (mock_take_slot (mt_slot_count t) (mt_state t)) =
     Inl (Io (IoError StorageFull ''mock tier capacity exhausted'')) \<longleftrightarrow> mock_used_bytes t = mt_capacity_bytes t"
    and "mock_used_bytes t \<le> mt_capacity_bytes t"
    and "(\<exists>l. fst (mock_take_slot (mt_slot_count t) (mt_state t)) = Inr l) \<longleftrightarrow> mock_used_bytes t < mt_capacity_bytes t"
proof -
  let ?st = "mt_state t"
  have wfs: "slots_wf (mt_slot_count t) ?st" and cap: "mt_capacity_bytes t = mt_slot_count t * PAGE_SIZE"
    "mt_slot_count t * PAGE_SIZE < 2 ^ 64" using wf by (auto simp: mock_wf_def)
  note D = slots_wfD[OF wfs]
  have "card (fst ` set (ms_pages ?st)) = length (ms_pages ?st)"
    using distinct_card[OF D(1)] by simp
  moreover have "card (set (ms_free_slots ?st)) = length (ms_free_slots ?st)" by (rule distinct_card[OF D(2)])
  moreover have "card ((\<lambda>k. k * PAGE_SIZE) ` {..<ms_next_slot ?st}) = ms_next_slot ?st"
    by (subst card_image) (auto simp: inj_on_def)
  ultimately have n: "length (ms_pages ?st) + length (ms_free_slots ?st) = ms_next_slot ?st"
    using card_Un_disjoint[OF _ _ D(3)] D(4) by simp
  have ov: "checked_mul_u64 (ms_next_slot ?st) PAGE_SIZE \<noteq> None" if "ms_next_slot ?st < mt_slot_count t"
  proof -
    have "ms_next_slot ?st * PAGE_SIZE < mt_slot_count t * PAGE_SIZE" using that by simp
    from less_trans[OF this cap(2)] show ?thesis by (simp add: checked_mul_u64_def)
  qed
  show "mock_used_bytes t \<le> mt_capacity_bytes t" using n D(5) by (simp add: mock_used_bytes_def cap)
  have used: "mock_used_bytes t = length (ms_pages ?st) * PAGE_SIZE" by (simp add: mock_used_bytes_def)
  have "(fst (mock_take_slot (mt_slot_count t) ?st) = Inl (Io (IoError StorageFull ''mock tier capacity exhausted''))
      \<longleftrightarrow> mock_used_bytes t = mt_capacity_bytes t)
    \<and> ((\<exists>l. fst (mock_take_slot (mt_slot_count t) ?st) = Inr l) \<longleftrightarrow> mock_used_bytes t < mt_capacity_bytes t)"
  proof (cases "ms_free_slots ?st = []")
    case True
    then have m: "length (ms_pages ?st) = ms_next_slot ?st" using n by simp
    show ?thesis
      by (cases "ms_next_slot ?st < mt_slot_count t")
        (use True ov D(5) in \<open>auto simp: mock_take_slot_def vec_pop_def used m cap(1) split: option.splits\<close>)
  next
    case False
    then have "length (ms_pages ?st) < mt_slot_count t" using n D(5) by (cases "ms_free_slots ?st") auto
    then show ?thesis using False by (simp add: mock_take_slot_def vec_pop_def used cap(1))
  qed
  then show "fst (mock_take_slot (mt_slot_count t) ?st) = Inl (Io (IoError StorageFull ''mock tier capacity exhausted''))
      \<longleftrightarrow> mock_used_bytes t = mt_capacity_bytes t"
    "(\<exists>l. fst (mock_take_slot (mt_slot_count t) ?st) = Inr l) \<longleftrightarrow> mock_used_bytes t < mt_capacity_bytes t"
    by blast+
qed

text \<open>
  C32. The in-memory tier is a page store with exact capacity: while a slot is left, writing a
  page succeeds at an aligned vacant offset inside the capacity, changes nothing else, accounts
  one more page and is read back verbatim; once every slot is used, writing fails with
  StorageFull and changes nothing.
\<close>

theorem mock_tier_stores_pages:
  assumes "mock_wf t" and "length p = PAGE_SIZE"
  shows "(if mock_used_bytes t < mt_capacity_bytes t
     then \<exists>l t'. mock_write p t = (oOk l, t') \<and> mock_wf t' \<and> l mod PAGE_SIZE = 0 \<and> l < mt_capacity_bytes t
        \<and> mock_contents t l = None \<and> mock_contents t' = (mock_contents t)(l \<mapsto> p)
        \<and> mock_used_bytes t' = mock_used_bytes t + PAGE_SIZE
        \<and> (ms_fail_read_at (mt_state t) = None \<longrightarrow> fst (mock_read l (replicate PAGE_SIZE 0) t') = (oOk (), p))
     else mock_write p t = (oErr (Io (IoError StorageFull ''mock tier capacity exhausted'')), t))"
proof (cases "mock_used_bytes t < mt_capacity_bytes t")
  case False
  then have "mock_used_bytes t = mt_capacity_bytes t" using mock_full(2)[OF assms(1)] by simp
  then have "fst (mock_take_slot (mt_slot_count t) (mt_state t)) = Inl (Io (IoError StorageFull ''mock tier capacity exhausted''))"
    using mock_full(1)[OF assms(1)] by simp
  then show ?thesis using False assms(2)
    by (auto simp: mock_write_def split: prod.splits)
next
  case True
  obtain l st where ts: "mock_take_slot (mt_slot_count t) (mt_state t) = (Inr l, st)"
    using True mock_full(3)[OF assms(1)] by (metis prod.collapse)
  have wfs: "slots_wf (mt_slot_count t) (mt_state t)" "mt_slot_count t * PAGE_SIZE < 2 ^ 64"
    using assms(1) by (auto simp: mock_wf_def)
  note sp = take_slot_spec[OF wfs ts]
  let ?t = "t\<lparr>mt_state := st\<lparr>ms_pages := AList.update l p (ms_pages (mt_state t))\<rparr>\<rparr>"
  have w: "mock_write p t = (oOk l, ?t)" using sp assms(2) ts by (simp add: mock_write_def Let_def)
  note law = mock_write_law[OF assms(1) w]
  from law have wf': "mock_wf ?t" and cs: "mock_contents t l = None"
    "mock_contents ?t = (mock_contents t)(l \<mapsto> p)" by auto
  have "l \<in> (\<lambda>k. k * PAGE_SIZE) ` {..<ms_next_slot st}" using sp by blast
  then obtain k where k: "l = k * PAGE_SIZE" "k < mt_slot_count t" using sp by force
  then have loc: "l mod PAGE_SIZE = 0" "l < mt_capacity_bytes t" using assms(1) by (auto simp: mock_wf_def)
  have "mock_used_bytes ?t = card (dom (mock_contents ?t)) * PAGE_SIZE"
    "mock_used_bytes t = card (dom (mock_contents t)) * PAGE_SIZE" "finite (dom (mock_contents t))"
    using mock.used_law[OF wf'] mock.used_law[OF assms(1)] by (simp_all add: mock_ops_def)
  then have used: "mock_used_bytes ?t = mock_used_bytes t + PAGE_SIZE" using cs by (simp add: card_insert_if domIff)
  have "ms_fail_read_at st = ms_fail_read_at (mt_state t)"
    using ts by (auto simp: mock_take_slot_def vec_pop_def split: if_splits option.splits)
  moreover have "map_of (AList.update l p (ms_pages (mt_state t))) l = Some p" by (simp add: update_conv')
  ultimately have "ms_fail_read_at (mt_state t) = None \<longrightarrow> fst (mock_read l (replicate PAGE_SIZE 0) ?t) = (oOk (), p)"
    using loc assms(2) by (simp add: mock_read_def mock_validate_location_def Let_def)
  with True w wf' cs loc used show ?thesis by auto
qed

theorem mock_tier_stores_pages_witness:
  "\<exists>t l t'. mock_new (2 * PAGE_SIZE) = Inr t \<and> mock_write (replicate PAGE_SIZE 7) t = (oOk l, t')
     \<and> fst (mock_read l (replicate PAGE_SIZE 0) t') = (oOk (), replicate PAGE_SIZE 7)"
proof -
  have "f_is_finite f_zero" "\<not> f_lt f_zero f_zero" by (simp_all add: f_zero_def f_lt_def)
  then obtain t where t: "mock_new (2 * PAGE_SIZE) = Inr t" "ms_fail_read_at (mt_state t) = None"
    "mock_used_bytes t < mt_capacity_bytes t"
    by (auto simp: mock_new_def mock_with_options_def latency_default_def mock_state_default_def mock_used_bytes_def)
  have "2 * PAGE_SIZE < 2 ^ 64" by (simp add: PAGE_SIZE_def)
  then have "mock_wf t" using t(1) mock_new_wf unfolding mock_new_def by blast
  from mock_tier_stores_pages[OF this, of "replicate PAGE_SIZE 7"] t show ?thesis by auto
qed

end
