(* ===== verification/File_Tier.thy ===== *)
theory File_Tier
  imports Tier_Backend
begin

text \<open>
  The file tier of src/crates/tierbuf/src/tier/file.rs with src/crates/tierbuf/src/sys/file.rs.
  A file is its bytes together with a script of what the operating system answers to the next
  positioned reads and writes: a short transfer, an interruption or another error.  An exhausted
  script transfers everything that is asked for.
\<close>

section \<open>Files and positioned I/O\<close>

datatype io_step = Transfer nat | IoFail io_error

record os_file =
  fl_bytes :: "u8 list"
  fl_script :: "io_step list"

text \<open>Replacing a segment of a list; bytes beyond the end extend it, as \<open>pwrite\<close> does.\<close>

definition overwrite :: "nat \<Rightarrow> 'a list \<Rightarrow> 'a list \<Rightarrow> 'a list" where
  "overwrite off d xs = take off xs @ d @ drop (off + length d) xs"

definition file_read_at :: "nat \<Rightarrow> nat \<Rightarrow> os_file \<Rightarrow> (io_error + u8 list) \<times> os_file" where
  "file_read_at len off f =
     (case fl_script f of
        [] \<Rightarrow> (Inr (take len (drop off (fl_bytes f))), f)
      | Transfer k # s \<Rightarrow> (Inr (take (min k len) (drop off (fl_bytes f))), f\<lparr>fl_script := s\<rparr>)
      | IoFail e # s \<Rightarrow> (Inl e, f\<lparr>fl_script := s\<rparr>))"

definition file_write_at :: "u8 list \<Rightarrow> nat \<Rightarrow> os_file \<Rightarrow> (io_error + nat) \<times> os_file" where
  "file_write_at d off f =
     (case fl_script f of
        [] \<Rightarrow> (Inr (length d), f\<lparr>fl_bytes := overwrite off d (fl_bytes f)\<rparr>)
      | Transfer k # s \<Rightarrow> (Inr (min k (length d)), f\<lparr>fl_bytes := overwrite off (take k d) (fl_bytes f), fl_script := s\<rparr>)
      | IoFail e # s \<Rightarrow> (Inl e, f\<lparr>fl_script := s\<rparr>))"

function read_exact_loop :: "nat \<Rightarrow> nat \<Rightarrow> u8 list \<Rightarrow> os_file \<Rightarrow> (io_error + unit) \<times> u8 list \<times> os_file" where
  "read_exact_loop offset filled buffer f =
     (if filled < length buffer
      then (case checked_add_u64 offset filled of
              None \<Rightarrow> (Inl (IoError OtherKind ''file tier read offset overflow''), buffer, f)
            | Some read_offset \<Rightarrow>
                (case file_read_at (length buffer - filled) read_offset f of
                   (Inr chunk, f') \<Rightarrow>
                     (if chunk = []
                      then (Inl (IoError UnexpectedEof ''file tier page ended before PAGE_SIZE bytes''), buffer, f')
                      else read_exact_loop offset (filled + length chunk) (overwrite filled chunk buffer) f')
                 | (Inl e, f') \<Rightarrow>
                     (if io_kind_of e = Interrupted then read_exact_loop offset filled buffer f'
                      else (Inl e, buffer, f'))))
      else (Inr (), buffer, f))"
  by pat_completeness auto

text \<open>Each iteration consumes an answer of the script or, once it is exhausted, fills bytes.\<close>

lemma file_read_at_Inr:
  "file_read_at len off f = (Inr chunk, f') \<Longrightarrow> length chunk \<le> len \<and> fl_bytes f' = fl_bytes f
     \<and> (\<exists>k. chunk = take k (drop off (fl_bytes f)))
     \<and> (length (fl_script f') < length (fl_script f) \<or> f' = f)"
  by (cases "fl_script f") (auto simp: file_read_at_def split: io_step.splits)

lemma file_read_at_Inl:
  "file_read_at len off f = (Inl e, f') \<Longrightarrow> fl_bytes f' = fl_bytes f \<and> length (fl_script f') < length (fl_script f)"
  by (cases "fl_script f") (auto simp: file_read_at_def split: io_step.splits)

lemma length_overwrite: "off + length d \<le> length xs \<Longrightarrow> length (overwrite off d xs) = length xs"
  by (simp add: overwrite_def)

termination read_exact_loop
  by (relation "measures [\<lambda>(off, n, b, f). length (fl_script f), \<lambda>(off, n, b, f). length b - n]")
    (auto simp: length_overwrite dest!: file_read_at_Inr[OF sym] file_read_at_Inl[OF sym])

declare read_exact_loop.simps [simp del]

definition read_exact_at :: "os_file \<Rightarrow> u8 list \<Rightarrow> nat \<Rightarrow> (io_error + unit) \<times> u8 list \<times> os_file" where
  "read_exact_at f buffer offset = read_exact_loop offset 0 buffer f"

function write_all_loop :: "nat \<Rightarrow> nat \<Rightarrow> u8 list \<Rightarrow> os_file \<Rightarrow> (io_error + unit) \<times> os_file" where
  "write_all_loop offset written buffer f =
     (if written < length buffer
      then (case checked_add_u64 offset written of
              None \<Rightarrow> (Inl (IoError OtherKind ''file tier write offset overflow''), f)
            | Some write_offset \<Rightarrow>
                (case file_write_at (drop written buffer) write_offset f of
                   (Inr n, f') \<Rightarrow>
                     (if n = 0
                      then (Inl (IoError WriteZero ''file tier could not write a complete page''), f')
                      else write_all_loop offset (written + n) buffer f')
                 | (Inl e, f') \<Rightarrow>
                     (if io_kind_of e = Interrupted then write_all_loop offset written buffer f'
                      else (Inl e, f'))))
      else (Inr (), f))"
  by pat_completeness auto

lemma file_write_at_Inr:
  "file_write_at d off f = (Inr n, f') \<Longrightarrow> n \<le> length d \<and> fl_bytes f' = overwrite off (take n d) (fl_bytes f)
     \<and> length (fl_script f') \<le> length (fl_script f)"
  by (cases "fl_script f") (auto simp: file_write_at_def min_def split: io_step.splits if_splits)

lemma file_write_at_Inl:
  "file_write_at d off f = (Inl e, f') \<Longrightarrow> fl_bytes f' = fl_bytes f \<and> length (fl_script f') < length (fl_script f)"
  by (cases "fl_script f") (auto simp: file_write_at_def split: io_step.splits)

termination write_all_loop
  by (relation "measures [\<lambda>(off, n, b, f). length (fl_script f), \<lambda>(off, n, b, f). length b - n]")
    (auto dest!: file_write_at_Inr[OF sym] file_write_at_Inl[OF sym])

declare write_all_loop.simps [simp del]

definition write_all_at :: "os_file \<Rightarrow> u8 list \<Rightarrow> nat \<Rightarrow> (io_error + unit) \<times> os_file" where
  "write_all_at f buffer offset = write_all_loop offset 0 buffer f"

section \<open>Transfers are complete or reported\<close>

lemma nth_overwrite:
  "off + length d \<le> length xs \<Longrightarrow> i < length xs \<Longrightarrow>
   overwrite off d xs ! i = (if off \<le> i \<and> i < off + length d then d ! (i - off) else xs ! i)"
  by (auto simp: overwrite_def nth_append min_def)

lemma overwrite_Nil [simp]: "overwrite off [] xs = xs"
  by (simp add: overwrite_def)

lemma overwrite_append:
  assumes "off + length d + length e \<le> length xs"
  shows "overwrite (off + length d) e (overwrite off d xs) = overwrite off (d @ e) xs"
  by (rule nth_equalityI) (use assms in \<open>auto simp: length_overwrite nth_overwrite nth_append\<close>)

lemma overwrite_segment:
  assumes "off + length d \<le> length xs"
  shows "take (length d) (drop off (overwrite off d xs)) = d"
  using assms by (simp add: overwrite_def)

lemma overwrite_other:
  assumes "off + length d \<le> length xs" "l + n \<le> off \<or> off + length d \<le> l" "l + n \<le> length xs"
  shows "take n (drop l (overwrite off d xs)) = take n (drop l xs)"
  by (rule nth_equalityI) (use assms in \<open>auto simp: length_overwrite nth_overwrite\<close>)

lemma read_exact_step:
  assumes "filled < length buffer" "checked_add_u64 offset filled = Some ro"
    "file_read_at (length buffer - filled) ro f = (ans, g)"
  shows "read_exact_loop offset filled buffer f =
     (case ans of
        Inr chunk \<Rightarrow> (if chunk = [] then (Inl (IoError UnexpectedEof ''file tier page ended before PAGE_SIZE bytes''), buffer, g)
           else read_exact_loop offset (filled + length chunk) (overwrite filled chunk buffer) g)
      | Inl e \<Rightarrow> (if io_kind_of e = Interrupted then read_exact_loop offset filled buffer g else (Inl e, buffer, g)))"
  unfolding read_exact_loop.simps[of offset filled buffer f] using assms by (auto split: sum.splits)

lemma read_exact_loop_spec:
  assumes "read_exact_loop offset filled buffer f = (r, buffer', f')"
    and "offset + length buffer \<le> length (fl_bytes f)" "filled \<le> length buffer"
    and "take filled buffer = take filled (drop offset (fl_bytes f))"
  shows "fl_bytes f' = fl_bytes f \<and> length buffer' = length buffer
     \<and> (r = Inr () \<longrightarrow> buffer' = take (length buffer) (drop offset (fl_bytes f)))"
  using assms
proof (induction offset filled buffer f rule: read_exact_loop.induct)
  case (1 offset filled buffer f)
  show ?case
  proof (cases "filled < length buffer \<and> checked_add_u64 offset filled = Some (offset + filled)")
    case False
    then show ?thesis using "1.prems"
      by (auto simp: read_exact_loop.simps[of offset filled] checked_add_u64_def split: if_splits)
  next
    case True
    then have lt: "filled < length buffer" "checked_add_u64 offset filled = Some (offset + filled)" by auto
    obtain ans g where rd: "file_read_at (length buffer - filled) (offset + filled) f = (ans, g)" by fastforce
    note eq = "1.prems"(1)[unfolded read_exact_step[OF lt rd]]
    show ?thesis
    proof (cases ans)
      case (Inl e)
      note b = file_read_at_Inl[OF rd[unfolded Inl]]
      show ?thesis
      proof (cases "io_kind_of e = Interrupted")
        case False
        then show ?thesis using eq b Inl by auto
      next
        case intr: True
        then have "read_exact_loop offset filled buffer g = (r, buffer', f')" using eq Inl by simp
        with "1.IH"(1)[OF lt rd[symmetric] Inl intr] "1.prems" b show ?thesis by simp
      qed
    next
      case (Inr chunk)
      note b = file_read_at_Inr[OF rd[unfolded Inr]]
      show ?thesis
      proof (cases "chunk = []")
        case True
        then show ?thesis using eq b Inr by auto
      next
        case ne: False
        have len: "filled + length chunk \<le> length buffer" using b lt(1) by linarith
        obtain k where k: "chunk = take k (drop (offset + filled) (fl_bytes f))" using b by blast
        then have ck: "take (length chunk) (drop (offset + filled) (fl_bytes f)) = chunk"
          by (metis append_eq_conv_conj append_take_drop_id)
        have pre: "take (filled + length chunk) (overwrite filled chunk buffer)
            = take (filled + length chunk) (drop offset (fl_bytes f))"
          using "1.prems"(2,4) len ck by (simp add: overwrite_def take_add add.commute)
        have "read_exact_loop offset (filled + length chunk) (overwrite filled chunk buffer) g = (r, buffer', f')"
          using eq Inr ne by simp
        with "1.IH"(2)[OF lt rd[symmetric] Inr ne] "1.prems"(2) b len pre show ?thesis
          by (simp add: length_overwrite)
      qed
    qed
  qed
qed

lemma write_all_step:
  assumes "written < length buffer" "checked_add_u64 offset written = Some wo"
    "file_write_at (drop written buffer) wo f = (ans, g)"
  shows "write_all_loop offset written buffer f =
     (case ans of
        Inr n \<Rightarrow> (if n = 0 then (Inl (IoError WriteZero ''file tier could not write a complete page''), g)
           else write_all_loop offset (written + n) buffer g)
      | Inl e \<Rightarrow> (if io_kind_of e = Interrupted then write_all_loop offset written buffer g else (Inl e, g)))"
  unfolding write_all_loop.simps[of offset written buffer f] using assms by (auto split: sum.splits)

text \<open>A write leaves a prefix of the page at the offset, all of it when it succeeds.\<close>

lemma write_all_loop_spec:
  assumes "write_all_loop offset written buffer f = (r, f')"
    and "offset + length buffer \<le> length bs" "written \<le> length buffer"
    and "fl_bytes f = overwrite offset (take written buffer) bs"
  shows "\<exists>n \<le> length buffer. fl_bytes f' = overwrite offset (take n buffer) bs \<and> (r = Inr () \<longrightarrow> n = length buffer)"
  using assms
proof (induction offset written buffer f rule: write_all_loop.induct)
  case (1 offset written buffer f)
  show ?case
  proof (cases "written < length buffer \<and> checked_add_u64 offset written = Some (offset + written)")
    case False
    then show ?thesis using "1.prems"
      by (auto simp: write_all_loop.simps[of offset written] checked_add_u64_def intro!: exI[of _ written] split: if_splits)
  next
    case True
    then have lt: "written < length buffer" "checked_add_u64 offset written = Some (offset + written)" by auto
    obtain ans g where wr: "file_write_at (drop written buffer) (offset + written) f = (ans, g)" by fastforce
    note eq = "1.prems"(1)[unfolded write_all_step[OF lt wr]]
    show ?thesis
    proof (cases ans)
      case (Inl e)
      note b = file_write_at_Inl[OF wr[unfolded Inl]]
      show ?thesis
      proof (cases "io_kind_of e = Interrupted")
        case False
        then show ?thesis using eq b Inl "1.prems" by (intro exI[of _ written]) auto
      next
        case intr: True
        then have "write_all_loop offset written buffer g = (r, f')" using eq Inl by simp
        with "1.IH"(1)[OF lt wr[symmetric] Inl intr] "1.prems" b show ?thesis by simp
      qed
    next
      case (Inr n)
      note b = file_write_at_Inr[OF wr[unfolded Inr]]
      have len: "written + n \<le> length buffer" using conjunct1[OF b] lt(1) by simp
      have app: "overwrite (offset + length (take written buffer)) (take n (drop written buffer)) (overwrite offset (take written buffer) bs)
          = overwrite offset (take written buffer @ take n (drop written buffer)) bs"
        by (rule overwrite_append) (use len "1.prems"(2) in simp)
      have wl: "length (take written buffer) = written" using lt(1) by simp
      have pre: "fl_bytes g = overwrite offset (take (written + n) buffer) bs"
        using b app unfolding "1.prems"(4) wl by (simp add: take_add)
      show ?thesis
      proof (cases "n = 0")
        case True
        then show ?thesis using eq Inr pre len by (intro exI[of _ written]) auto
      next
        case ne: False
        then have "write_all_loop offset (written + n) buffer g = (r, f')" using eq Inr by simp
        with "1.IH"(2)[OF lt wr[symmetric] Inr ne] "1.prems"(2) len pre show ?thesis by simp
      qed
    qed
  qed
qed

text \<open>Interruptions and short transfers alone never make a transfer fail.\<close>

fun benign :: "io_step \<Rightarrow> bool" where
  "benign (Transfer k) = (0 < k)"
| "benign (IoFail e) = (io_kind_of e = Interrupted)"

lemma file_read_at_benign:
  assumes "list_all benign (fl_script f)" "file_read_at len off f = (ans, g)" "0 < len" "off < length (fl_bytes f)"
  shows "list_all benign (fl_script g) \<and> (\<forall>e. ans = Inl e \<longrightarrow> io_kind_of e = Interrupted) \<and> ans \<noteq> Inr []"
  using assms by (cases "fl_script f") (auto simp: file_read_at_def split: io_step.splits)

lemma read_exact_loop_live:
  assumes "offset + length buffer \<le> length (fl_bytes f)" "length (fl_bytes f) < 2 ^ 64"
    and "list_all benign (fl_script f)" "filled \<le> length buffer"
  shows "fst (read_exact_loop offset filled buffer f) = Inr ()"
  using assms
proof (induction offset filled buffer f rule: read_exact_loop.induct)
  case (1 offset filled buffer f)
  show ?case
  proof (cases "filled < length buffer")
    case False
    then show ?thesis by (simp add: read_exact_loop.simps[of offset filled])
  next
    case lt: True
    have ad: "checked_add_u64 offset filled = Some (offset + filled)"
      using lt "1.prems"(1,2) by (simp add: checked_add_u64_def)
    obtain ans g where rd: "file_read_at (length buffer - filled) (offset + filled) f = (ans, g)" by fastforce
    have bn: "list_all benign (fl_script g) \<and> (\<forall>e. ans = Inl e \<longrightarrow> io_kind_of e = Interrupted) \<and> ans \<noteq> Inr []"
      by (rule file_read_at_benign[OF "1.prems"(3) rd]) (use lt "1.prems"(1) in auto)
    show ?thesis
    proof (cases ans)
      case (Inl e)
      with bn have intr: "io_kind_of e = Interrupted" by simp
      from "1.IH"(1)[OF lt ad rd[symmetric] Inl intr] file_read_at_Inl[OF rd[unfolded Inl]] "1.prems" bn
      show ?thesis by (simp add: read_exact_step[OF lt ad rd] Inl intr)
    next
      case (Inr chunk)
      with bn have ne: "chunk \<noteq> []" by simp
      note b = file_read_at_Inr[OF rd[unfolded Inr]]
      have len: "filled + length chunk \<le> length buffer" using b lt by linarith
      from "1.IH"(2)[OF lt ad rd[symmetric] Inr ne] b len "1.prems" bn
      show ?thesis by (simp add: read_exact_step[OF lt ad rd] Inr ne length_overwrite)
    qed
  qed
qed

lemma file_write_at_benign:
  assumes "list_all benign (fl_script f)" "file_write_at d off f = (ans, g)" "d \<noteq> []"
  shows "list_all benign (fl_script g) \<and> (\<forall>e. ans = Inl e \<longrightarrow> io_kind_of e = Interrupted) \<and> ans \<noteq> Inr 0"
  using assms by (cases "fl_script f") (auto simp: file_write_at_def min_def split: io_step.splits if_splits)

lemma write_all_loop_live:
  assumes "offset + length buffer < 2 ^ 64" "list_all benign (fl_script f)"
  shows "fst (write_all_loop offset written buffer f) = Inr ()"
  using assms
proof (induction offset written buffer f rule: write_all_loop.induct)
  case (1 offset written buffer f)
  show ?case
  proof (cases "written < length buffer")
    case False
    then show ?thesis by (simp add: write_all_loop.simps[of offset written])
  next
    case lt: True
    have ad: "checked_add_u64 offset written = Some (offset + written)"
      using lt "1.prems"(1) by (simp add: checked_add_u64_def)
    obtain ans g where wr: "file_write_at (drop written buffer) (offset + written) f = (ans, g)" by fastforce
    have bn: "list_all benign (fl_script g) \<and> (\<forall>e. ans = Inl e \<longrightarrow> io_kind_of e = Interrupted) \<and> ans \<noteq> Inr 0"
      by (rule file_write_at_benign[OF "1.prems"(2) wr]) (use lt in simp)
    show ?thesis
    proof (cases ans)
      case (Inl e)
      with bn have intr: "io_kind_of e = Interrupted" by simp
      from "1.IH"(1)[OF lt ad wr[symmetric] Inl intr] "1.prems" bn
      show ?thesis by (simp add: write_all_step[OF lt ad wr] Inl intr)
    next
      case (Inr n)
      with bn have ne: "n \<noteq> 0" by simp
      from "1.IH"(2)[OF lt ad wr[symmetric] Inr ne] "1.prems" bn
      show ?thesis by (simp add: write_all_step[OF lt ad wr] Inr ne)
    qed
  qed
qed

section \<open>Opening the backing file\<close>

datatype direct_io = DirectOff | DirectPreferred | DirectRequired

record file_tier_config =
  fc_name :: string
  fc_capacity_bytes :: nat
  fc_price_gb_month :: f64
  fc_latency :: latency_profile
  fc_write_budget :: "write_budget option"
  fc_direct_io :: direct_io

definition file_tier_config_new :: "nat \<Rightarrow> file_tier_config" where
  "file_tier_config_new capacity_bytes =
     \<lparr>fc_name = ''file'', fc_capacity_bytes = capacity_bytes, fc_price_gb_month = f_zero,
      fc_latency = latency_default, fc_write_budget = None, fc_direct_io = DirectPreferred\<rparr>"

definition file_validate_config :: "file_tier_config \<Rightarrow> tierbuf_error + unit" where
  "file_validate_config c =
     (if fc_capacity_bytes c = 0 \<or> fc_capacity_bytes c mod PAGE_SIZE \<noteq> 0
      then Inl (invalid_input ''file tier capacity must be a non-zero multiple of PAGE_SIZE'')
      else if fc_name c = [] then Inl (invalid_input ''file tier name must not be empty'')
      else if \<not> f_is_finite (fc_price_gb_month c) \<or> f_is_sign_negative (fc_price_gb_month c)
      then Inl (invalid_input ''file tier price must be finite and greater than or equal to zero'')
      else if \<not> f_is_finite (lp_seq_gbps (fc_latency c)) \<or> f_is_sign_negative (lp_seq_gbps (fc_latency c))
      then Inl (invalid_input ''file tier throughput must be finite and greater than or equal to zero'')
      else Inr ())"

text \<open>
  What the operating system answers while a file is opened with truncation (\<open>os_open direct\<close>), sized
  (\<open>os_set_len\<close>) and preallocated (\<open>os_fallocate\<close>, an error number), with and without \<open>O_DIRECT\<close>,
  and its answers to later positioned I/O.
\<close>

record open_env =
  os_open :: "bool \<Rightarrow> io_error option"
  os_set_len :: "bool \<Rightarrow> io_error option"
  os_fallocate :: "bool \<Rightarrow> nat"
  os_script :: "io_step list"
  os_no_direct_env :: bool

definition preallocate :: "nat \<Rightarrow> nat \<Rightarrow> io_error + unit" where
  "preallocate errno len =
     (if 2 ^ 63 \<le> len then Inl (IoError InvalidInput ''file capacity is too large'')
      else if errno = 0 then Inr ()
      else if errno \<in> {95, 38, 22} then Inr ()
      else Inl (IoError (OsKind errno) []))"

definition open_and_size :: "open_env \<Rightarrow> nat \<Rightarrow> bool \<Rightarrow> io_error + os_file" where
  "open_and_size env capacity_bytes direct =
     (case os_open env direct of
        Some e \<Rightarrow> Inl e
      | None \<Rightarrow>
     (case os_set_len env direct of
        Some e \<Rightarrow> Inl e
      | None \<Rightarrow>
     (case preallocate (os_fallocate env direct) capacity_bytes of
        Inl e \<Rightarrow> Inl e
      | Inr _ \<Rightarrow> Inr \<lparr>fl_bytes = replicate capacity_bytes 0, fl_script = os_script env\<rparr>)))"

definition open_backing_file :: "open_env \<Rightarrow> nat \<Rightarrow> direct_io \<Rightarrow> tierbuf_error + os_file \<times> bool" where
  "open_backing_file env capacity_bytes direct_io =
     (case direct_io of
        DirectOff \<Rightarrow> (case open_and_size env capacity_bytes False of Inr f \<Rightarrow> Inr (f, False) | Inl e \<Rightarrow> Inl (Io e))
      | DirectRequired \<Rightarrow> (case open_and_size env capacity_bytes True of Inr f \<Rightarrow> Inr (f, True) | Inl e \<Rightarrow> Inl (Io e))
      | DirectPreferred \<Rightarrow>
          (case open_and_size env capacity_bytes True of
             Inr f \<Rightarrow> Inr (f, True)
           | Inl direct_error \<Rightarrow>
               (case open_and_size env capacity_bytes False of
                  Inr f \<Rightarrow> Inr (f, False)
                | Inl buffered_error \<Rightarrow>
                    Inl (Io (IoError (io_kind_of buffered_error)
                      (''direct open failed ('' @ io_message direct_error @ ''); buffered fallback failed (''
                        @ io_message buffered_error @ '')''))))))"

section \<open>The tier\<close>

record slot_state =
  ss_allocated :: "bool list"
  ss_free_slots :: "nat list"
  ss_next_slot :: nat
  ss_used_slots :: nat

record file_tier =
  fi_name :: string
  fi_file :: os_file
  fi_capacity_bytes :: nat
  fi_price_gb_month :: f64
  fi_latency :: latency_profile
  fi_write_budget :: "write_budget option"
  fi_direct_io_active :: bool
  fi_state :: slot_state

definition file_tier_open :: "open_env \<Rightarrow> file_tier_config \<Rightarrow> tierbuf_error + file_tier" where
  "file_tier_open env c =
     (case file_validate_config c of
        Inl e \<Rightarrow> Inl e
      | Inr _ \<Rightarrow>
          (let slot_count = fc_capacity_bytes c div PAGE_SIZE;
               direct = (if os_no_direct_env env then DirectOff else fc_direct_io c)
           in case open_backing_file env (fc_capacity_bytes c) direct of
                Inl e \<Rightarrow> Inl e
              | Inr (f, active) \<Rightarrow>
                  Inr \<lparr>fi_name = fc_name c, fi_file = f, fi_capacity_bytes = fc_capacity_bytes c,
                    fi_price_gb_month = fc_price_gb_month c, fi_latency = fc_latency c,
                    fi_write_budget = fc_write_budget c, fi_direct_io_active = active,
                    fi_state = \<lparr>ss_allocated = replicate slot_count False, ss_free_slots = [],
                                ss_next_slot = 0, ss_used_slots = 0\<rparr>\<rparr>))"

definition slot_for_location :: "file_tier \<Rightarrow> nat \<Rightarrow> tierbuf_error + nat" where
  "slot_for_location t offset =
     (if offset mod PAGE_SIZE \<noteq> 0 \<or> fi_capacity_bytes t \<le> offset
      then Inl (invalid_input ''file tier offset must identify an aligned slot within capacity'')
      else Inr (offset div PAGE_SIZE))"

text \<open>With direct I/O the transfer goes through an aligned bounce page.\<close>

definition read_page :: "file_tier \<Rightarrow> nat \<Rightarrow> u8 list \<Rightarrow> (io_error + unit) \<times> u8 list \<times> file_tier" where
  "read_page t offset buffer =
     (if fi_direct_io_active t
      then (case read_exact_at (fi_file t) (replicate PAGE_SIZE 0) offset of
              (Inr _, aligned, f) \<Rightarrow> (Inr (), aligned, t\<lparr>fi_file := f\<rparr>)
            | (Inl e, _, f) \<Rightarrow> (Inl e, buffer, t\<lparr>fi_file := f\<rparr>))
      else (case read_exact_at (fi_file t) buffer offset of
              (r, buffer', f) \<Rightarrow> (r, buffer', t\<lparr>fi_file := f\<rparr>)))"

definition write_page :: "file_tier \<Rightarrow> nat \<Rightarrow> u8 list \<Rightarrow> (io_error + unit) \<times> file_tier" where
  "write_page t offset buffer =
     (case write_all_at (fi_file t) buffer offset of (r, f) \<Rightarrow> (r, t\<lparr>fi_file := f\<rparr>))"

definition file_tier_read :: "nat \<Rightarrow> u8 list \<Rightarrow> file_tier \<Rightarrow> (unit outcome \<times> u8 list) \<times> file_tier" where
  "file_tier_read location buffer t =
     (case validate_page_buffer (length buffer) of
        Inl e \<Rightarrow> ((oErr e, buffer), t)
      | Inr _ \<Rightarrow>
     (case slot_for_location t location of
        Inl e \<Rightarrow> ((oErr e, buffer), t)
      | Inr slot \<Rightarrow>
          (if length (ss_allocated (fi_state t)) \<le> slot then ((oPanic ''index out of bounds'', buffer), t)
           else if \<not> ss_allocated (fi_state t) ! slot
           then ((oErr (Io (IoError NotFound ''file tier page is not allocated'')), buffer), t)
           else (case read_page t location buffer of
                   (Inr _, buffer', t') \<Rightarrow> ((oOk (), buffer'), t')
                 | (Inl e, buffer', t') \<Rightarrow> ((oErr (Io e), buffer'), t')))))"

definition file_tier_write :: "u8 list \<Rightarrow> (file_tier, nat) operation" where
  "file_tier_write buffer t =
     (case validate_page_buffer (length buffer) of
        Inl e \<Rightarrow> (oErr e, t)
      | Inr _ \<Rightarrow>
          (let st = fi_state t;
               reused_slot = fst (vec_pop (ss_free_slots st));
               choice = (case reused_slot of
                           Some slot \<Rightarrow> Some slot
                         | None \<Rightarrow> (if ss_next_slot st < length (ss_allocated st) then Some (ss_next_slot st) else None))
           in case choice of
                None \<Rightarrow> (oErr (Io (IoError StorageFull ''file tier capacity exhausted'')), t)
              | Some slot \<Rightarrow>
                  (if length (ss_allocated st) \<le> slot then (oPanic ''index out of bounds'', t)
                   else if ss_allocated st ! slot then (oPanic ''allocated slot selected for write'', t)
                   else (case checked_mul_u64 slot PAGE_SIZE of
                           None \<Rightarrow> (oErr (Io (IoError OtherKind ''file tier offset overflow'')), t)
                         | Some offset \<Rightarrow>
                             (case write_page t offset buffer of
                                (Inl e, t') \<Rightarrow> (oErr (Io e), t')
                              | (Inr _, t') \<Rightarrow>
                                  (let st1 = (if reused_slot \<noteq> None
                                              then st\<lparr>ss_free_slots := snd (vec_pop (ss_free_slots st))\<rparr>
                                              else st\<lparr>ss_next_slot := ss_next_slot st + 1\<rparr>)
                                   in (oOk offset, t'\<lparr>fi_state := st1\<lparr>ss_allocated := (ss_allocated st1)[slot := True],
                                         ss_used_slots := ss_used_slots st1 + 1\<rparr>\<rparr>)))))))"

definition file_tier_free :: "nat \<Rightarrow> (file_tier, unit) operation" where
  "file_tier_free location t =
     (case slot_for_location t location of
        Inl _ \<Rightarrow> (oOk (), t)
      | Inr slot \<Rightarrow>
          (let st = fi_state t in
           if length (ss_allocated st) \<le> slot then (oPanic ''index out of bounds'', t)
           else if ss_allocated st ! slot
           then (if ss_used_slots st = 0 then (oPanic ''attempt to subtract with overflow'', t)
                 else (oOk (), t\<lparr>fi_state := st\<lparr>ss_allocated := (ss_allocated st)[slot := False],
                        ss_free_slots := ss_free_slots st @ [slot], ss_used_slots := ss_used_slots st - 1\<rparr>\<rparr>))
           else (oOk (), t)))"

definition file_used_bytes :: "file_tier \<Rightarrow> nat" where
  "file_used_bytes t = ss_used_slots (fi_state t) * PAGE_SIZE"

definition file_ops :: "file_tier tier_ops" where
  "file_ops = \<lparr>tb_name = fi_name, tb_read = file_tier_read, tb_write = file_tier_write, tb_free = file_tier_free,
     tb_capacity_bytes = fi_capacity_bytes, tb_used_bytes = file_used_bytes,
     tb_price_gb_month = fi_price_gb_month, tb_write_budget = fi_write_budget,
     tb_set_budget = (\<lambda>w t. t\<lparr>fi_write_budget := Some w\<rparr>), tb_latency = fi_latency\<rparr>"

section \<open>Invariant\<close>

definition slot_wf :: "slot_state \<Rightarrow> bool" where
  "slot_wf st \<longleftrightarrow> ss_next_slot st \<le> length (ss_allocated st) \<and> distinct (ss_free_slots st)
     \<and> (\<forall>i < length (ss_allocated st). ss_allocated st ! i \<longleftrightarrow> i < ss_next_slot st \<and> i \<notin> set (ss_free_slots st))
     \<and> (\<forall>i \<in> set (ss_free_slots st). i < ss_next_slot st)
     \<and> ss_used_slots st = card {i. i < length (ss_allocated st) \<and> ss_allocated st ! i}"

definition file_wf :: "file_tier \<Rightarrow> bool" where
  "file_wf t \<longleftrightarrow> fi_capacity_bytes t = length (ss_allocated (fi_state t)) * PAGE_SIZE \<and> fi_capacity_bytes t < 2 ^ 64
     \<and> length (fl_bytes (fi_file t)) = fi_capacity_bytes t \<and> slot_wf (fi_state t)"

definition file_contents :: "file_tier \<Rightarrow> nat \<Rightarrow> page option" where
  "file_contents t l =
     (if l mod PAGE_SIZE = 0 \<and> l < fi_capacity_bytes t \<and> ss_allocated (fi_state t) ! (l div PAGE_SIZE)
      then Some (take PAGE_SIZE (drop l (fl_bytes (fi_file t)))) else None)"

lemma file_slot:
  assumes "file_wf t" "l mod PAGE_SIZE = 0" "l < fi_capacity_bytes t"
  shows "l div PAGE_SIZE < length (ss_allocated (fi_state t))" "l div PAGE_SIZE * PAGE_SIZE = l"
    "l + PAGE_SIZE \<le> length (fl_bytes (fi_file t))"
proof -
  show e: "l div PAGE_SIZE * PAGE_SIZE = l" using assms(2) by auto
  have c: "fi_capacity_bytes t = length (ss_allocated (fi_state t)) * PAGE_SIZE"
    "length (fl_bytes (fi_file t)) = fi_capacity_bytes t" using assms(1) by (auto simp: file_wf_def)
  have "l div PAGE_SIZE * PAGE_SIZE < length (ss_allocated (fi_state t)) * PAGE_SIZE"
    using assms(3) unfolding e c(1) .
  then show lt: "l div PAGE_SIZE < length (ss_allocated (fi_state t))" by simp
  then have "Suc (l div PAGE_SIZE) * PAGE_SIZE \<le> length (ss_allocated (fi_state t)) * PAGE_SIZE"
    by (intro mult_le_mono1) simp
  then show "l + PAGE_SIZE \<le> length (fl_bytes (fi_file t))" unfolding c using e by simp
qed

lemma slot_location:
  assumes "file_wf t" "i < length (ss_allocated (fi_state t))"
  shows "i * PAGE_SIZE < fi_capacity_bytes t" "i * PAGE_SIZE + PAGE_SIZE \<le> length (fl_bytes (fi_file t))"
    "checked_mul_u64 i PAGE_SIZE = Some (i * PAGE_SIZE)"
proof -
  have c: "fi_capacity_bytes t = length (ss_allocated (fi_state t)) * PAGE_SIZE" "fi_capacity_bytes t < 2 ^ 64"
    using assms(1) by (auto simp: file_wf_def)
  show lt: "i * PAGE_SIZE < fi_capacity_bytes t" using assms(2) by (simp add: c(1))
  from file_slot(3)[OF assms(1) _ lt] show "i * PAGE_SIZE + PAGE_SIZE \<le> length (fl_bytes (fi_file t))" by simp
  show "checked_mul_u64 i PAGE_SIZE = Some (i * PAGE_SIZE)"
    using less_trans[OF lt c(2)] by (simp add: checked_mul_u64_def)
qed

lemma file_page_length: "file_wf t \<Longrightarrow> file_contents t l = Some p \<Longrightarrow> length p = PAGE_SIZE"
  using file_slot(3)[of t l] by (auto simp: file_contents_def split: if_splits)

lemma read_page_spec:
  assumes wf: "file_wf t" and b: "length b = PAGE_SIZE" and l: "l + PAGE_SIZE \<le> length (fl_bytes (fi_file t))"
    and r: "read_page t l b = (r, b', t')"
  shows "(\<exists>f. t' = t\<lparr>fi_file := f\<rparr> \<and> fl_bytes f = fl_bytes (fi_file t)) \<and> length b' = PAGE_SIZE
     \<and> (r = Inr () \<longrightarrow> b' = take PAGE_SIZE (drop l (fl_bytes (fi_file t))))"
proof -
  define c where "c = (if fi_direct_io_active t then replicate PAGE_SIZE 0 else b)"
  obtain q c' f where e: "read_exact_loop l 0 c (fi_file t) = (q, c', f)" using prod_cases3 by blast
  have "length c = PAGE_SIZE" using b by (simp add: c_def)
  with read_exact_loop_spec[OF e] l have "fl_bytes f = fl_bytes (fi_file t)" "length c' = PAGE_SIZE"
    "q = Inr () \<longrightarrow> c' = take PAGE_SIZE (drop l (fl_bytes (fi_file t)))" by auto
  with r e b show ?thesis
    by (auto simp: read_page_def read_exact_at_def c_def split: if_splits sum.splits)
qed

lemma file_read_law:
  assumes wf: "file_wf t" and b: "length b = PAGE_SIZE" and r: "file_tier_read l b t = ((r, b'), t')"
  shows "file_wf t' \<and> file_contents t' = file_contents t \<and> length b' = PAGE_SIZE
     \<and> (r = oOk () \<and> file_contents t l = Some b' \<or> (\<exists>e. r = oErr e))"
proof (cases "l mod PAGE_SIZE = 0 \<and> l < fi_capacity_bytes t \<and> ss_allocated (fi_state t) ! (l div PAGE_SIZE)")
  case False
  then have "t' = t \<and> b' = b \<and> (\<exists>e. r = oErr e)"
    using r b file_slot(1)[OF wf, of l]
    by (auto simp: file_tier_read_def slot_for_location_def validate_page_buffer_def split: if_splits)
  with wf b show ?thesis by auto
next
  case True
  then have s: "slot_for_location t l = Inr (l div PAGE_SIZE)" by (simp add: slot_for_location_def)
  note sl = file_slot[OF wf, of l]
  obtain q c u where rp: "read_page t l b = (q, c, u)" using prod_cases3 by blast
  have len: "l + PAGE_SIZE \<le> length (fl_bytes (fi_file t))" using sl(3) True by simp
  note sp = read_page_spec[OF wf b len rp]
  then obtain f where u: "u = t\<lparr>fi_file := f\<rparr>" "fl_bytes f = fl_bytes (fi_file t)" by blast
  have ans: "b' = c" "t' = u" "r = (case q of Inr _ \<Rightarrow> oOk () | Inl e \<Rightarrow> oErr (Io e))"
    using r b True s sl(1) rp
    by (auto simp: file_tier_read_def validate_page_buffer_def split: sum.splits if_splits)
  have keep: "file_wf u" "file_contents u = file_contents t"
    using wf u by (auto simp: file_wf_def file_contents_def fun_eq_iff)
  have "file_contents t l = Some (take PAGE_SIZE (drop l (fl_bytes (fi_file t))))"
    using True by (simp add: file_contents_def)
  with sp ans keep show ?thesis by (cases q) auto
qed

lemma choice_wf:
  assumes wf: "slot_wf st"
    and c: "(case fst (vec_pop (ss_free_slots st)) of Some slot \<Rightarrow> Some slot
        | None \<Rightarrow> (if ss_next_slot st < length (ss_allocated st) then Some (ss_next_slot st) else None)) = Some slot"
    and st1: "st1 = (if fst (vec_pop (ss_free_slots st)) \<noteq> None
        then st\<lparr>ss_free_slots := snd (vec_pop (ss_free_slots st))\<rparr> else st\<lparr>ss_next_slot := ss_next_slot st + 1\<rparr>)"
  shows "slot < length (ss_allocated st)" "\<not> ss_allocated st ! slot"
    "slot_wf (st1\<lparr>ss_allocated := (ss_allocated st1)[slot := True], ss_used_slots := ss_used_slots st1 + 1\<rparr>)"
    "ss_allocated st1 = ss_allocated st"
proof -
  have W: "ss_next_slot st \<le> length (ss_allocated st)" "distinct (ss_free_slots st)"
    "\<And>i. i < length (ss_allocated st) \<Longrightarrow> ss_allocated st ! i \<longleftrightarrow> i < ss_next_slot st \<and> i \<notin> set (ss_free_slots st)"
    "\<And>i. i \<in> set (ss_free_slots st) \<Longrightarrow> i < ss_next_slot st"
    "ss_used_slots st = card {i. i < length (ss_allocated st) \<and> ss_allocated st ! i}"
    using wf by (auto simp: slot_wf_def)
  show al: "ss_allocated st1 = ss_allocated st" by (simp add: st1)
  have two: "(\<exists>xs. ss_free_slots st = xs @ [slot] \<and> st1 = st\<lparr>ss_free_slots := xs\<rparr>)
      \<or> (ss_free_slots st = [] \<and> slot = ss_next_slot st \<and> slot < length (ss_allocated st)
          \<and> st1 = st\<lparr>ss_next_slot := ss_next_slot st + 1\<rparr>)"
    using c st1 by (cases "ss_free_slots st" rule: rev_cases) (auto simp: vec_pop_def split: if_splits)
  then show lt: "slot < length (ss_allocated st)" and na: "\<not> ss_allocated st ! slot"
    using W(1,3) W(4)[of slot] by (force, force)
  have "{i. i < length (ss_allocated st) \<and> (ss_allocated st)[slot := True] ! i}
      = insert slot {i. i < length (ss_allocated st) \<and> ss_allocated st ! i}"
    using lt by (auto simp: nth_list_update)
  then have card: "card {i. i < length (ss_allocated st) \<and> (ss_allocated st)[slot := True] ! i} = ss_used_slots st + 1"
    using na W(5) by simp
  from two show "slot_wf (st1\<lparr>ss_allocated := (ss_allocated st1)[slot := True], ss_used_slots := ss_used_slots st1 + 1\<rparr>)"
  proof
    assume "\<exists>xs. ss_free_slots st = xs @ [slot] \<and> st1 = st\<lparr>ss_free_slots := xs\<rparr>"
    then obtain xs where "ss_free_slots st = xs @ [slot]" "st1 = st\<lparr>ss_free_slots := xs\<rparr>" by blast
    then show ?thesis using W card lt by (auto simp: slot_wf_def nth_list_update)
  next
    assume "ss_free_slots st = [] \<and> slot = ss_next_slot st \<and> slot < length (ss_allocated st)
          \<and> st1 = st\<lparr>ss_next_slot := ss_next_slot st + 1\<rparr>"
    then show ?thesis using W card lt by (auto simp: slot_wf_def nth_list_update)
  qed
qed

text \<open>Writing into the slot of a page that is not allocated changes no stored page.\<close>

lemma write_page_spec:
  assumes wf: "file_wf t" and b: "length b = PAGE_SIZE" and i: "i < length (ss_allocated (fi_state t))"
    and w: "write_page t (i * PAGE_SIZE) b = (r, t')"
  shows "\<exists>f. t' = t\<lparr>fi_file := f\<rparr> \<and> length (fl_bytes f) = length (fl_bytes (fi_file t))
     \<and> (\<forall>l. l mod PAGE_SIZE = 0 \<longrightarrow> l < fi_capacity_bytes t \<longrightarrow> l div PAGE_SIZE \<noteq> i \<longrightarrow>
            take PAGE_SIZE (drop l (fl_bytes f)) = take PAGE_SIZE (drop l (fl_bytes (fi_file t))))
     \<and> (r = Inr () \<longrightarrow> take PAGE_SIZE (drop (i * PAGE_SIZE) (fl_bytes f)) = b)"
proof -
  let ?bs = "fl_bytes (fi_file t)" and ?o = "i * PAGE_SIZE"
  obtain f where e: "write_all_loop ?o 0 b (fi_file t) = (r, f)" and t': "t' = t\<lparr>fi_file := f\<rparr>"
    using w by (auto simp: write_page_def write_all_at_def split: prod.splits)
  have o: "?o + length b \<le> length ?bs" using slot_location(2)[OF wf i] b by simp
  from write_all_loop_spec[OF e o] obtain n where n: "n \<le> length b" "fl_bytes f = overwrite ?o (take n b) ?bs"
    "r = Inr () \<longrightarrow> n = length b" by auto
  have len: "?o + length (take n b) \<le> length ?bs" using o by (simp add: min_def)
  have other: "take PAGE_SIZE (drop l (fl_bytes f)) = take PAGE_SIZE (drop l ?bs)"
    if l: "l mod PAGE_SIZE = 0" "l < fi_capacity_bytes t" "l div PAGE_SIZE \<noteq> i" for l
  proof -
    note sl = file_slot[OF wf l(1,2)]
    have "l div PAGE_SIZE < i \<or> i < l div PAGE_SIZE" using l(3) by linarith
    then have "l div PAGE_SIZE * PAGE_SIZE + PAGE_SIZE \<le> ?o \<or> ?o + PAGE_SIZE \<le> l div PAGE_SIZE * PAGE_SIZE"
      using mult_le_mono1[of "Suc (l div PAGE_SIZE)" i PAGE_SIZE] mult_le_mono1[of "Suc i" "l div PAGE_SIZE" PAGE_SIZE]
      by (auto simp: Suc_le_eq)
    then have "l + PAGE_SIZE \<le> ?o \<or> ?o + length (take n b) \<le> l" unfolding sl(2) using b n(1) by auto
    then show ?thesis unfolding n(2) by (intro overwrite_other len sl(3))
  qed
  have "take PAGE_SIZE (drop ?o (fl_bytes f)) = b" if "r = Inr ()"
    using overwrite_segment[of ?o b ?bs] o n that b by simp
  then show ?thesis using t' other n(2) length_overwrite[OF len] by auto
qed

lemma file_write_law:
  assumes wf: "file_wf t" and w: "file_tier_write b t = (r, t')"
  shows "file_wf t' \<and> ((\<exists>l. r = oOk l \<and> file_contents t l = None
       \<and> file_contents t' = (file_contents t)(l \<mapsto> b) \<and> length b = PAGE_SIZE)
     \<or> (\<exists>e. r = oErr e \<and> file_contents t' = file_contents t))"
proof -
  let ?st = "fi_state t"
  let ?c = "case fst (vec_pop (ss_free_slots ?st)) of Some slot \<Rightarrow> Some slot
        | None \<Rightarrow> (if ss_next_slot ?st < length (ss_allocated ?st) then Some (ss_next_slot ?st) else None)"
  show ?thesis
  proof (cases "length b = PAGE_SIZE \<and> ?c \<noteq> None")
    case False
    then have "t' = t \<and> (\<exists>e. r = oErr e)" using w
      by (auto simp: file_tier_write_def validate_page_buffer_def Let_def split: if_splits)
    with wf show ?thesis by auto
  next
    case True
    then obtain i where b: "length b = PAGE_SIZE" and c: "?c = Some i" by blast
    define st1 where "st1 = (if fst (vec_pop (ss_free_slots ?st)) \<noteq> None
        then ?st\<lparr>ss_free_slots := snd (vec_pop (ss_free_slots ?st))\<rparr> else ?st\<lparr>ss_next_slot := ss_next_slot ?st + 1\<rparr>)"
    let ?st2 = "st1\<lparr>ss_allocated := (ss_allocated st1)[i := True], ss_used_slots := ss_used_slots st1 + 1\<rparr>"
    have swf: "slot_wf ?st" using wf by (simp add: file_wf_def)
    note ch = choice_wf[OF swf c st1_def]
    note loc = slot_location[OF wf ch(1)]
    obtain q u where wp: "write_page t (i * PAGE_SIZE) b = (q, u)" by fastforce
    from write_page_spec[OF wf b ch(1) wp] obtain f where u: "u = t\<lparr>fi_file := f\<rparr>"
      "length (fl_bytes f) = length (fl_bytes (fi_file t))"
      and other: "\<And>l. l mod PAGE_SIZE = 0 \<Longrightarrow> l < fi_capacity_bytes t \<Longrightarrow> l div PAGE_SIZE \<noteq> i \<Longrightarrow>
         take PAGE_SIZE (drop l (fl_bytes f)) = take PAGE_SIZE (drop l (fl_bytes (fi_file t)))"
      and seg: "q = Inr () \<Longrightarrow> take PAGE_SIZE (drop (i * PAGE_SIZE) (fl_bytes f)) = b" by blast
    have ans: "r = (case q of Inl e \<Rightarrow> oErr (Io e) | Inr _ \<Rightarrow> oOk (i * PAGE_SIZE))"
      "t' = (case q of Inl e \<Rightarrow> u | Inr _ \<Rightarrow> u\<lparr>fi_state := ?st2\<rparr>)"
      using w b c ch(1,2) loc(3) wp
      by (auto simp: file_tier_write_def st1_def Let_def validate_page_buffer_def split: sum.splits)
    have none: "file_contents t (i * PAGE_SIZE) = None" using ch(2) by (simp add: file_contents_def)
    show ?thesis
    proof (cases q)
      case (Inl e)
      have "file_contents u l = file_contents t l" for l
        using other[of l] ch(2) u by (cases "l div PAGE_SIZE = i") (auto simp: file_contents_def)
      then show ?thesis using wf u Inl ans by (auto simp: file_wf_def)
    next
      case (Inr x)
      then have "take PAGE_SIZE (drop (i * PAGE_SIZE) (fl_bytes f)) = b" using seg by simp
      then have "file_contents t' l = ((file_contents t)(i * PAGE_SIZE \<mapsto> b)) l" for l
        using other[of l] u ans(2) Inr loc(1) ch(1,4) file_slot[OF wf, of l]
        by (cases "l mod PAGE_SIZE = 0 \<and> l < fi_capacity_bytes t \<and> l div PAGE_SIZE = i")
          (auto simp: file_contents_def nth_list_update)
      moreover have "file_wf t'" using wf u ans(2) Inr ch(3,4) by (simp add: file_wf_def)
      ultimately show ?thesis using ans(1) Inr none b by auto
    qed
  qed
qed

lemma file_free_law:
  assumes wf: "file_wf t"
  shows "\<exists>t'. file_tier_free l t = (oOk (), t') \<and> file_wf t' \<and> file_contents t' = (file_contents t)(l := None)"
proof (cases "l mod PAGE_SIZE = 0 \<and> l < fi_capacity_bytes t \<and> ss_allocated (fi_state t) ! (l div PAGE_SIZE)")
  case False
  then have "file_tier_free l t = (oOk (), t)" "file_contents t l = None"
    using file_slot(1)[OF wf, of l]
    by (cases "l mod PAGE_SIZE = 0 \<and> l < fi_capacity_bytes t";
        auto simp: file_tier_free_def slot_for_location_def file_contents_def Let_def)+
  with wf show ?thesis by (auto simp: fun_upd_idem)
next
  case True
  let ?st = "fi_state t" and ?i = "l div PAGE_SIZE"
  note sl = file_slot[OF wf, of l]
  have i: "?i < length (ss_allocated ?st)" "ss_allocated ?st ! ?i" "?i * PAGE_SIZE = l" using sl True by auto
  have W: "slot_wf ?st" using wf by (simp add: file_wf_def)
  have fin: "finite {i. i < length (ss_allocated ?st) \<and> ss_allocated ?st ! i}" by simp
  have "{i. i < length (ss_allocated ?st) \<and> ss_allocated ?st ! i} \<noteq> {}" using i by blast
  then have pos: "0 < ss_used_slots ?st"
    using W fin unfolding slot_wf_def by (metis card_gt_0_iff)
  let ?st2 = "?st\<lparr>ss_allocated := (ss_allocated ?st)[?i := False], ss_free_slots := ss_free_slots ?st @ [?i],
      ss_used_slots := ss_used_slots ?st - 1\<rparr>"
  have f: "file_tier_free l t = (oOk (), t\<lparr>fi_state := ?st2\<rparr>)"
    using True i pos by (simp add: file_tier_free_def slot_for_location_def Let_def)
  have "{i. i < length (ss_allocated ?st) \<and> (ss_allocated ?st)[?i := False] ! i}
      = {i. i < length (ss_allocated ?st) \<and> ss_allocated ?st ! i} - {?i}"
    using i by (auto simp: nth_list_update)
  then have card: "card {i. i < length (ss_allocated ?st) \<and> (ss_allocated ?st)[?i := False] ! i} = ss_used_slots ?st - 1"
    using i fin W by (simp add: slot_wf_def)
  have "slot_wf ?st2" using W i card by (auto simp: slot_wf_def nth_list_update)
  then have "file_wf (t\<lparr>fi_state := ?st2\<rparr>)" using wf by (simp add: file_wf_def)
  moreover have "file_contents (t\<lparr>fi_state := ?st2\<rparr>) k = ((file_contents t)(l := None)) k" for k
  proof (cases "k mod PAGE_SIZE = 0 \<and> k < fi_capacity_bytes t")
    case kin: True
    then have "k div PAGE_SIZE = ?i \<longleftrightarrow> k = l" using file_slot(2)[OF wf, of k] i(3) by metis
    then show ?thesis using kin i(1) by (auto simp: file_contents_def nth_list_update)
  qed (auto simp: file_contents_def)
  ultimately show ?thesis using f by auto
qed

lemma file_used_law:
  assumes wf: "file_wf t"
  shows "finite (dom (file_contents t)) \<and> file_used_bytes t = card (dom (file_contents t)) * PAGE_SIZE"
proof -
  let ?al = "ss_allocated (fi_state t)"
  let ?S = "{i. i < length ?al \<and> ?al ! i}"
  have "dom (file_contents t) = (\<lambda>i. i * PAGE_SIZE) ` ?S"
  proof (intro set_eqI iffI)
    fix l assume "l \<in> dom (file_contents t)"
    then have c: "l mod PAGE_SIZE = 0" "l < fi_capacity_bytes t" "?al ! (l div PAGE_SIZE)"
      by (auto simp: file_contents_def split: if_splits)
    then show "l \<in> (\<lambda>i. i * PAGE_SIZE) ` ?S"
      using file_slot(1,2)[OF wf c(1,2)] by (intro image_eqI[of _ _ "l div PAGE_SIZE"]) simp_all
  next
    fix l assume "l \<in> (\<lambda>i. i * PAGE_SIZE) ` ?S"
    then show "l \<in> dom (file_contents t)" using slot_location(1)[OF wf] by (auto simp: file_contents_def)
  qed
  moreover have "inj_on (\<lambda>i. i * PAGE_SIZE) ?S" by (simp add: inj_on_def)
  moreover have "ss_used_slots (fi_state t) = card ?S" using wf by (simp add: file_wf_def slot_wf_def)
  ultimately show ?thesis by (simp add: file_used_bytes_def card_image)
qed

interpretation filet: tier_backend file_ops file_contents file_wf
proof
  show "\<And>t l p. file_wf t \<Longrightarrow> file_contents t l = Some p \<Longrightarrow> length p = PAGE_SIZE"
    by (rule file_page_length)
  show "\<And>t b l r b' t'. file_wf t \<Longrightarrow> length b = PAGE_SIZE \<Longrightarrow> tb_read file_ops l b t = ((r, b'), t') \<Longrightarrow>
      file_wf t' \<and> file_contents t' = file_contents t \<and> length b' = PAGE_SIZE
      \<and> (r = oOk () \<and> file_contents t l = Some b' \<or> (\<exists>e. r = oErr e))"
    unfolding file_ops_def tier_ops.simps by (rule file_read_law)
  show "\<And>t b r t'. file_wf t \<Longrightarrow> tb_write file_ops b t = (r, t') \<Longrightarrow> file_wf t' \<and>
      ((\<exists>l. r = oOk l \<and> file_contents t l = None \<and> file_contents t' = (file_contents t)(l \<mapsto> b) \<and> length b = PAGE_SIZE)
       \<or> (\<exists>e. r = oErr e \<and> file_contents t' = file_contents t))"
    unfolding file_ops_def tier_ops.simps by (rule file_write_law)
  show "\<And>t l. file_wf t \<Longrightarrow> \<exists>t'. tb_free file_ops l t = (oOk (), t') \<and> file_wf t' \<and> file_contents t' = (file_contents t)(l := None)"
    unfolding file_ops_def tier_ops.simps by (rule file_free_law)
  show "\<And>t w. file_wf t \<Longrightarrow> file_wf (tb_set_budget file_ops w t) \<and> file_contents (tb_set_budget file_ops w t) = file_contents t"
    by (auto simp: file_ops_def file_wf_def file_contents_def fun_eq_iff)
  show "\<And>t. file_wf t \<Longrightarrow> finite (dom (file_contents t)) \<and> tb_used_bytes file_ops t = card (dom (file_contents t)) * PAGE_SIZE"
    using file_used_law by (simp add: file_ops_def)
qed

section \<open>Properties\<close>

lemma file_room:
  assumes wf: "file_wf t" and room: "file_used_bytes t < fi_capacity_bytes t"
  shows "ss_free_slots (fi_state t) \<noteq> [] \<or> ss_next_slot (fi_state t) < length (ss_allocated (fi_state t))"
proof (rule ccontr)
  let ?st = "fi_state t"
  assume "\<not> ?thesis"
  then have "ss_free_slots ?st = []" "ss_next_slot ?st = length (ss_allocated ?st)"
    using wf by (auto simp: file_wf_def slot_wf_def)
  then have "\<forall>i < length (ss_allocated ?st). ss_allocated ?st ! i" using wf by (simp add: file_wf_def slot_wf_def)
  then have "{i. i < length (ss_allocated ?st) \<and> ss_allocated ?st ! i} = {..<length (ss_allocated ?st)}" by auto
  then have "ss_used_slots ?st = card {..<length (ss_allocated ?st)}"
    using wf unfolding file_wf_def slot_wf_def by metis
  then show False using room wf by (simp add: file_used_bytes_def file_wf_def)
qed

lemma file_write_live:
  assumes wf: "file_wf t" and b: "length p = PAGE_SIZE"
    and bn: "list_all benign (fl_script (fi_file t))" and room: "file_used_bytes t < fi_capacity_bytes t"
  shows "\<exists>l t'. file_tier_write p t = (oOk l, t')"
proof -
  let ?st = "fi_state t"
  let ?c = "case fst (vec_pop (ss_free_slots ?st)) of Some slot \<Rightarrow> Some slot
        | None \<Rightarrow> (if ss_next_slot ?st < length (ss_allocated ?st) then Some (ss_next_slot ?st) else None)"
  obtain i where c: "?c = Some i" using file_room[OF wf room] by (cases "ss_free_slots ?st = []") (auto simp: vec_pop_def)
  have "slot_wf ?st" using wf by (simp add: file_wf_def)
  note ch = choice_wf[OF this c refl] and loc = slot_location[OF wf choice_wf(1)[OF \<open>slot_wf ?st\<close> c refl]]
  have "i * PAGE_SIZE + length p < 2 ^ 64 \<or> i * PAGE_SIZE + length p = fi_capacity_bytes t"
    using loc(2) b wf by (auto simp: file_wf_def)
  then have "i * PAGE_SIZE + length p < 2 ^ 64" using wf by (auto simp: file_wf_def)
  from write_all_loop_live[OF this bn, of 0] obtain f where "write_all_loop (i * PAGE_SIZE) 0 p (fi_file t) = (Inr (), f)"
    by (metis prod.collapse)
  then have "write_page t (i * PAGE_SIZE) p = (Inr (), t\<lparr>fi_file := f\<rparr>)" by (simp add: write_page_def write_all_at_def)
  then show ?thesis using b c ch(1,2) loc(3) by (simp add: file_tier_write_def validate_page_buffer_def Let_def)
qed

lemma file_read_live:
  assumes wf: "file_wf t" and bn: "list_all benign (fl_script (fi_file t))" and c: "file_contents t l = Some p"
  shows "fst (file_tier_read l (replicate PAGE_SIZE 0) t) = (oOk (), p)"
proof -
  have l: "l mod PAGE_SIZE = 0" "l < fi_capacity_bytes t" "ss_allocated (fi_state t) ! (l div PAGE_SIZE)"
    and p: "p = take PAGE_SIZE (drop l (fl_bytes (fi_file t)))"
    using c by (auto simp: file_contents_def split: if_splits)
  note sl = file_slot[OF wf l(1,2)]
  let ?z = "replicate PAGE_SIZE 0 :: u8 list"
  have lz: "l + length ?z \<le> length (fl_bytes (fi_file t))" "length (fl_bytes (fi_file t)) < 2 ^ 64"
    using sl(3) wf by (auto simp: file_wf_def)
  obtain b f where e: "read_exact_loop l 0 ?z (fi_file t) = (Inr (), b, f)"
    using read_exact_loop_live[OF lz bn, of 0] by (metis le0 prod.collapse)
  have "b = p" using read_exact_loop_spec[OF e lz(1)] p by simp
  then have "read_page t l ?z = (Inr (), p, t\<lparr>fi_file := f\<rparr>)" using e by (simp add: read_page_def read_exact_at_def)
  then show ?thesis using l sl(1)
    by (simp add: file_tier_read_def validate_page_buffer_def slot_for_location_def)
qed

lemma file_open_succeeds:
  assumes "0 < cap" "cap mod PAGE_SIZE = 0" "cap < 2 ^ 63"
  shows "\<exists>t. file_tier_open \<lparr>os_open = \<lambda>_. None, os_set_len = \<lambda>_. None, os_fallocate = \<lambda>_. 0,
     os_script = script, os_no_direct_env = nd\<rparr> (file_tier_config_new cap) = Inr t"
  using assms by (simp add: file_tier_open_def file_tier_config_new_def file_validate_config_def f_zero_def
      latency_default_def open_backing_file_def open_and_size_def preallocate_def Let_def)

lemma file_open_wf:
  assumes "file_tier_open env c = Inr t" "fc_capacity_bytes c < 2 ^ 64"
  shows "file_wf t" "file_contents t = Map.empty" "fl_script (fi_file t) = os_script env"
    "fi_capacity_bytes t = fc_capacity_bytes c"
proof -
  obtain f a where o: "file_validate_config c = Inr ()" "t = \<lparr>fi_name = fc_name c, fi_file = f, fi_capacity_bytes = fc_capacity_bytes c,
      fi_price_gb_month = fc_price_gb_month c, fi_latency = fc_latency c, fi_write_budget = fc_write_budget c,
      fi_direct_io_active = a, fi_state = \<lparr>ss_allocated = replicate (fc_capacity_bytes c div PAGE_SIZE) False,
        ss_free_slots = [], ss_next_slot = 0, ss_used_slots = 0\<rparr>\<rparr>"
    and f: "\<exists>d. open_and_size env (fc_capacity_bytes c) d = Inr f"
    using assms(1) by (auto simp: file_tier_open_def open_backing_file_def Let_def split: sum.splits direct_io.splits prod.splits)
  have m: "fc_capacity_bytes c mod PAGE_SIZE = 0" using o(1) by (auto simp: file_validate_config_def split: if_splits)
  have fb: "fl_bytes f = replicate (fc_capacity_bytes c) 0" "fl_script f = os_script env"
    using f by (auto simp: open_and_size_def split: option.splits sum.splits)
  show "fl_script (fi_file t) = os_script env" "fi_capacity_bytes t = fc_capacity_bytes c"
    using fb o(2) by simp_all
  have "fc_capacity_bytes c div PAGE_SIZE * PAGE_SIZE = fc_capacity_bytes c" using m by auto
  then show wf: "file_wf t" using assms(2) fb o(2) by (auto simp: file_wf_def slot_wf_def)
  show "file_contents t = Map.empty"
  proof
    fix l show "file_contents t l = None"
      using file_slot(1)[OF wf, of l] o(2) by (auto simp: file_contents_def)
  qed
qed

text \<open>
  C31. The file tier reports or completes every transfer: on a well-formed tier, if the operating
  system only shortens or interrupts its transfers, a write with a slot left succeeds and reading
  it back returns exactly the page, however the transfers are cut; and whatever the operating
  system answers, a write that fails leaves every stored page and the slot accounting unchanged.
\<close>

theorem file_tier_transfers_complete:
  assumes "file_wf t" and "length p = PAGE_SIZE" and "file_tier_write p t = (r, t')"
  shows "(\<forall>e. r = oErr e \<longrightarrow> file_contents t' = file_contents t \<and> file_used_bytes t' = file_used_bytes t)
     \<and> (list_all benign (fl_script (fi_file t)) \<and> file_used_bytes t < fi_capacity_bytes t \<longrightarrow> (\<exists>l. r = oOk l))
     \<and> (\<forall>l. r = oOk l \<longrightarrow> file_contents t' = (file_contents t)(l \<mapsto> p)
          \<and> (list_all benign (fl_script (fi_file t')) \<longrightarrow>
              fst (file_tier_read l (replicate PAGE_SIZE 0) t') = (oOk (), p)))"
proof -
  note wl = file_write_law[OF assms(1,3)]
  have wf': "file_wf t'" using wl by blast
  have used: "file_used_bytes u = card (dom (file_contents u)) * PAGE_SIZE" if "file_wf u" for u
    using file_used_law[OF that] by blast
  have "file_contents t' = file_contents t \<and> file_used_bytes t' = file_used_bytes t" if "r = oErr e" for e
    using wl that used[OF wf'] used[OF assms(1)] by auto
  moreover have "\<exists>l. r = oOk l" if "list_all benign (fl_script (fi_file t)) \<and> file_used_bytes t < fi_capacity_bytes t"
    using file_write_live[OF assms(1,2)] that assms(3) by fastforce
  moreover have "fst (file_tier_read l (replicate PAGE_SIZE 0) t') = (oOk (), p)"
    if r: "r = oOk l" and b: "list_all benign (fl_script (fi_file t'))" for l
    using file_read_live[OF wf' b, of l p] wl r by auto
  ultimately show ?thesis using wl by auto
qed

theorem file_tier_transfers_complete_witness:
  "\<exists>t l t'. file_tier_open \<lparr>os_open = \<lambda>_. None, os_set_len = \<lambda>_. None, os_fallocate = \<lambda>_. 0,
       os_script = [Transfer 100, IoFail (IoError Interrupted ''EINTR''), Transfer 7], os_no_direct_env = True\<rparr>
       (file_tier_config_new PAGE_SIZE) = Inr t
     \<and> file_tier_write (replicate PAGE_SIZE 9) t = (oOk l, t') \<and> file_contents t' l = Some (replicate PAGE_SIZE 9)"
proof -
  let ?env = "\<lparr>os_open = \<lambda>_. None, os_set_len = \<lambda>_. None, os_fallocate = \<lambda>_. 0,
       os_script = [Transfer 100, IoFail (IoError Interrupted ''EINTR''), Transfer 7], os_no_direct_env = True\<rparr>"
  have small: "PAGE_SIZE < 2 ^ 63" by (simp add: PAGE_SIZE_def)
  obtain t where t: "file_tier_open ?env (file_tier_config_new PAGE_SIZE) = Inr t"
    using file_open_succeeds[of PAGE_SIZE] small by auto
  have cap: "fc_capacity_bytes (file_tier_config_new PAGE_SIZE) = PAGE_SIZE" by (simp add: file_tier_config_new_def)
  then have "fc_capacity_bytes (file_tier_config_new PAGE_SIZE) < 2 ^ 64" using small by simp
  note w = file_open_wf[OF t this, unfolded cap]
  obtain r t' where wr: "file_tier_write (replicate PAGE_SIZE 9) t = (r, t')" by fastforce
  have "file_used_bytes t < fi_capacity_bytes t" using file_used_law[OF w(1)] w(2,4) by simp
  with file_tier_transfers_complete[OF w(1) _ wr] w(3) t wr show ?thesis by fastforce
qed

end
