(* ===== verification/Metrics_Recorder.thy ===== *)
theory Metrics_Recorder
  imports Mock_Tier File_Tier "HOL-Library.List_Lexorder" "HOL-Library.Char_ord"
begin

text \<open>
  Operational counters and residency cost: src/crates/tierbuf/src/metrics.rs.  An event of the
  recorder holds the snapshot gate shared for all its counter updates and a snapshot holds it
  exclusively, so that each event is one indivisible step with respect to snapshots; the counters
  saturate.  The ordered map of lower-tier costs is an association list sorted by name.
\<close>

section \<open>The recorder\<close>

record tier_counters =
  tc_name :: string
  tc_demand_hits :: u64
  tc_reads :: u64
  tc_writes :: u64
  tc_bytes_read :: u64
  tc_bytes_written :: u64

record stats =
  st_dram_hits :: u64
  st_faults :: u64
  st_evictions :: u64
  st_second_chances :: u64
  st_prefetch_submitted :: u64
  st_prefetch_hits :: u64
  st_prefetch_skipped :: u64
  st_budget_denied :: u64
  st_tiers :: "tier_counters list"

definition stats_new :: "string list \<Rightarrow> stats" where
  "stats_new names =
     \<lparr>st_dram_hits = 0, st_faults = 0, st_evictions = 0, st_second_chances = 0, st_prefetch_submitted = 0,
      st_prefetch_hits = 0, st_prefetch_skipped = 0, st_budget_denied = 0,
      st_tiers = map (\<lambda>n. \<lparr>tc_name = n, tc_demand_hits = 0, tc_reads = 0, tc_writes = 0,
                            tc_bytes_read = 0, tc_bytes_written = 0\<rparr>) names\<rparr>"

definition counter_add_under :: "u64 interference list \<Rightarrow> u64 \<Rightarrow> u64 \<Rightarrow> u64" where
  "counter_add_under script amount counter = snd (try_update (\<lambda>current. Some (saturating_add current amount)) script counter)"

definition counter_add :: "u64 \<Rightarrow> u64 \<Rightarrow> u64" where
  "counter_add = counter_add_under []"

definition record_dram_hit :: "stats \<Rightarrow> stats" where
  "record_dram_hit s = s\<lparr>st_dram_hits := counter_add 1 (st_dram_hits s)\<rparr>"

definition record_fault :: "stats \<Rightarrow> stats" where
  "record_fault s = s\<lparr>st_faults := counter_add 1 (st_faults s)\<rparr>"

definition record_eviction :: "stats \<Rightarrow> stats" where
  "record_eviction s = s\<lparr>st_evictions := counter_add 1 (st_evictions s)\<rparr>"

definition record_second_chance :: "stats \<Rightarrow> stats" where
  "record_second_chance s = s\<lparr>st_second_chances := counter_add 1 (st_second_chances s)\<rparr>"

definition record_prefetch_submitted :: "u64 \<Rightarrow> stats \<Rightarrow> stats" where
  "record_prefetch_submitted count s = s\<lparr>st_prefetch_submitted := counter_add count (st_prefetch_submitted s)\<rparr>"

definition record_prefetch_hit :: "stats \<Rightarrow> stats" where
  "record_prefetch_hit s = s\<lparr>st_prefetch_hits := counter_add 1 (st_prefetch_hits s)\<rparr>"

definition record_prefetch_skipped :: "u64 \<Rightarrow> stats \<Rightarrow> stats" where
  "record_prefetch_skipped count s = s\<lparr>st_prefetch_skipped := counter_add count (st_prefetch_skipped s)\<rparr>"

definition record_budget_denied :: "stats \<Rightarrow> stats" where
  "record_budget_denied s = s\<lparr>st_budget_denied := counter_add 1 (st_budget_denied s)\<rparr>"

text \<open>\<open>self.tier(tier_index)\<close>: the counters of one tier, or the panic.\<close>

definition on_tier_counters :: "nat \<Rightarrow> (tier_counters \<Rightarrow> tier_counters) \<Rightarrow> (stats, unit) operation" where
  "on_tier_counters tier_index g s =
     (if tier_index < length (st_tiers s)
      then (oOk (), s\<lparr>st_tiers := (st_tiers s)[tier_index := g (st_tiers s ! tier_index)]\<rparr>)
      else (oPanic ''tier index is out of bounds'', s))"

definition record_tier_demand_hit :: "nat \<Rightarrow> (stats, unit) operation" where
  "record_tier_demand_hit tier_index =
     on_tier_counters tier_index (\<lambda>t. t\<lparr>tc_demand_hits := counter_add 1 (tc_demand_hits t)\<rparr>)"

definition record_tier_read :: "nat \<Rightarrow> u64 \<Rightarrow> (stats, unit) operation" where
  "record_tier_read tier_index bytes =
     on_tier_counters tier_index (\<lambda>t. t\<lparr>tc_reads := counter_add 1 (tc_reads t),
        tc_bytes_read := counter_add bytes (tc_bytes_read t)\<rparr>)"

definition record_tier_write :: "nat \<Rightarrow> u64 \<Rightarrow> (stats, unit) operation" where
  "record_tier_write tier_index bytes =
     on_tier_counters tier_index (\<lambda>t. t\<lparr>tc_writes := counter_add 1 (tc_writes t),
        tc_bytes_written := counter_add bytes (tc_bytes_written t)\<rparr>)"

definition snapshot :: "stats \<Rightarrow> stats" where
  "snapshot s = s"

lemma counter_add_eq: "counter_add n c = saturating_add c n"
  by (simp add: counter_add_def counter_add_under_def try_update_quiet atomic_update_def)

section \<open>Sequences of events\<close>

datatype stat_event =
  DramHit | Fault | Eviction | SecondChance | PrefetchSubmitted u64 | PrefetchHit | PrefetchSkipped u64
| BudgetDenied | TierDemandHit nat | TierRead nat u64 | TierWrite nat u64

fun apply_event :: "stat_event \<Rightarrow> stats \<Rightarrow> stats" where
  "apply_event DramHit s = record_dram_hit s"
| "apply_event Fault s = record_fault s"
| "apply_event Eviction s = record_eviction s"
| "apply_event SecondChance s = record_second_chance s"
| "apply_event (PrefetchSubmitted n) s = record_prefetch_submitted n s"
| "apply_event PrefetchHit s = record_prefetch_hit s"
| "apply_event (PrefetchSkipped n) s = record_prefetch_skipped n s"
| "apply_event BudgetDenied s = record_budget_denied s"
| "apply_event (TierDemandHit i) s = snd (record_tier_demand_hit i s)"
| "apply_event (TierRead i b) s = snd (record_tier_read i b s)"
| "apply_event (TierWrite i b) s = snd (record_tier_write i b s)"

text \<open>The exact totals the counters stand for.\<close>

definition total :: "(stat_event \<Rightarrow> nat) \<Rightarrow> stat_event list \<Rightarrow> nat" where
  "total weight events = sum_list (map weight events)"

fun reads_of :: "nat \<Rightarrow> stat_event \<Rightarrow> nat \<times> nat" where
  "reads_of i (TierRead j b) = (if i = j then (1, unat b) else (0, 0))"
| "reads_of i _ = (0, 0)"

fun writes_of :: "nat \<Rightarrow> stat_event \<Rightarrow> nat \<times> nat" where
  "writes_of i (TierWrite j b) = (if i = j then (1, unat b) else (0, 0))"
| "writes_of i _ = (0, 0)"

fun submitted_of :: "stat_event \<Rightarrow> nat" where
  "submitted_of (PrefetchSubmitted n) = unat n"
| "submitted_of _ = 0"

definition cap64 :: "nat \<Rightarrow> nat" where "cap64 n = min n (2 ^ 64 - 1)"

lemma cap64_add: "cap64 (cap64 a + b) = cap64 (a + b)"
  by (simp add: cap64_def min_def)

lemma unat_counter_add: "unat (counter_add n c) = cap64 (unat c + unat n)"
  by (simp add: counter_add_eq unat_saturating_add cap64_def)

lemma counter_fold:
  fixes field :: "stats \<Rightarrow> u64"
  assumes "\<And>ev s. P s \<Longrightarrow> P (apply_event ev s) \<and> unat (field (apply_event ev s)) = cap64 (unat (field s) + weight ev)"
    and "P s"
  shows "P (fold apply_event events s) \<and> unat (field (fold apply_event events s)) = cap64 (unat (field s) + total weight events)"
  using assms(2)
proof (induction events arbitrary: s)
  case Nil
  have "unat (field s) < 2 ^ 64" using unat_less_pow[of "field s"] by simp
  then show ?case using Nil by (simp add: total_def cap64_def)
next
  case (Cons ev events)
  from assms(1)[OF Cons.prems, of ev] Cons.IH[of "apply_event ev s"] show ?case
    by (simp add: total_def cap64_add add.assoc)
qed

lemma st_tiers_length: "length (st_tiers (apply_event ev s)) = length (st_tiers s)"
  by (cases ev) (simp_all add: record_dram_hit_def record_fault_def record_eviction_def record_second_chance_def
      record_prefetch_submitted_def record_prefetch_hit_def record_prefetch_skipped_def record_budget_denied_def
      record_tier_demand_hit_def record_tier_read_def record_tier_write_def on_tier_counters_def)

lemmas record_defs = record_dram_hit_def record_fault_def record_eviction_def record_second_chance_def
  record_prefetch_submitted_def record_prefetch_hit_def record_prefetch_skipped_def record_budget_denied_def
  record_tier_demand_hit_def record_tier_read_def record_tier_write_def on_tier_counters_def

lemma cap64_unat [simp]: "cap64 (unat (c :: u64)) = unat c"
  using unat_less_pow[of c] by (simp add: cap64_def)

text \<open>
  Counters are exact until they saturate: after any sequence of recorded events on a new
  recorder, the snapshot's counters are the number of events of their kind, and the prefetch and
  per-tier byte counters are the sums of the reported amounts, each capped at the largest 64-bit
  value instead of wrapping; recording for a configured tier never panics.
\<close>

theorem stats_exact:
  "let s = snapshot (fold apply_event events (stats_new names)) in
     unat (st_dram_hits s) = cap64 (total (\<lambda>e. if e = DramHit then 1 else 0) events)
   \<and> unat (st_faults s) = cap64 (total (\<lambda>e. if e = Fault then 1 else 0) events)
   \<and> unat (st_evictions s) = cap64 (total (\<lambda>e. if e = Eviction then 1 else 0) events)
   \<and> unat (st_budget_denied s) = cap64 (total (\<lambda>e. if e = BudgetDenied then 1 else 0) events)
   \<and> unat (st_prefetch_submitted s) = cap64 (total submitted_of events)
   \<and> (\<forall>i < length names.
        unat (tc_reads (st_tiers s ! i)) = cap64 (total (\<lambda>e. fst (reads_of i e)) events)
      \<and> unat (tc_bytes_read (st_tiers s ! i)) = cap64 (total (\<lambda>e. snd (reads_of i e)) events)
      \<and> unat (tc_writes (st_tiers s ! i)) = cap64 (total (\<lambda>e. fst (writes_of i e)) events)
      \<and> unat (tc_bytes_written (st_tiers s ! i)) = cap64 (total (\<lambda>e. snd (writes_of i e)) events)
      \<and> (\<forall>b. fst (record_tier_read i b s) = oOk () \<and> fst (record_tier_write i b s) = oOk ()))"
proof -
  let ?s = "fold apply_event events (stats_new names)"
  have z: "st_dram_hits (stats_new names) = 0" "st_faults (stats_new names) = 0" "st_evictions (stats_new names) = 0"
    "st_budget_denied (stats_new names) = 0" "st_prefetch_submitted (stats_new names) = 0"
    by (simp_all add: stats_new_def)
  have top: "unat (field ?s) = cap64 (total weight events)"
    if "\<And>ev s. unat (field (apply_event ev s)) = cap64 (unat (field s) + weight ev)" "field (stats_new names) = 0"
    for field :: "stats \<Rightarrow> u64" and weight
    using counter_fold[of "\<lambda>_. True" field weight "stats_new names" events] that by simp
  have tier: "unat (field (st_tiers ?s ! i)) = cap64 (total weight events) \<and> i < length (st_tiers ?s)"
    if i: "i < length names" and "field (st_tiers (stats_new names) ! i) = 0"
      and "\<And>ev s. i < length (st_tiers s) \<Longrightarrow>
        unat (field (st_tiers (apply_event ev s) ! i)) = cap64 (unat (field (st_tiers s ! i)) + weight ev)"
    for i and field :: "tier_counters \<Rightarrow> u64" and weight
  proof -
    have P: "i < length (st_tiers (stats_new names))" using i by (simp add: stats_new_def)
    have "i < length (st_tiers (fold apply_event events (stats_new names)))
        \<and> unat (field (st_tiers (fold apply_event events (stats_new names)) ! i))
          = cap64 (unat (field (st_tiers (stats_new names) ! i)) + total weight events)"
      by (rule counter_fold[of "\<lambda>s. i < length (st_tiers s)" "\<lambda>s. field (st_tiers s ! i)" weight])
        (use that(3) P in \<open>simp_all add: st_tiers_length\<close>)
    with that(2) show ?thesis by simp
  qed
  have z': "tc_reads (st_tiers (stats_new names) ! i) = 0" "tc_bytes_read (st_tiers (stats_new names) ! i) = 0"
    "tc_writes (st_tiers (stats_new names) ! i) = 0" "tc_bytes_written (st_tiers (stats_new names) ! i) = 0"
    if "i < length names" for i using that by (simp_all add: stats_new_def)
  have e1: "unat (st_dram_hits (apply_event ev s)) = cap64 (unat (st_dram_hits s) + (if ev = DramHit then 1 else 0))"
    "unat (st_faults (apply_event ev s)) = cap64 (unat (st_faults s) + (if ev = Fault then 1 else 0))"
    "unat (st_evictions (apply_event ev s)) = cap64 (unat (st_evictions s) + (if ev = Eviction then 1 else 0))"
    "unat (st_budget_denied (apply_event ev s)) = cap64 (unat (st_budget_denied s) + (if ev = BudgetDenied then 1 else 0))"
    "unat (st_prefetch_submitted (apply_event ev s)) = cap64 (unat (st_prefetch_submitted s) + submitted_of ev)" for ev s
    by (cases ev; simp add: record_defs unat_counter_add)+
  have e2: "unat (tc_reads (st_tiers (apply_event ev s) ! i)) = cap64 (unat (tc_reads (st_tiers s ! i)) + fst (reads_of i ev))"
    "unat (tc_bytes_read (st_tiers (apply_event ev s) ! i)) = cap64 (unat (tc_bytes_read (st_tiers s ! i)) + snd (reads_of i ev))"
    "unat (tc_writes (st_tiers (apply_event ev s) ! i)) = cap64 (unat (tc_writes (st_tiers s ! i)) + fst (writes_of i ev))"
    "unat (tc_bytes_written (st_tiers (apply_event ev s) ! i)) = cap64 (unat (tc_bytes_written (st_tiers s ! i)) + snd (writes_of i ev))"
    if "i < length (st_tiers s)" for ev s i
    by (cases ev; use that in \<open>auto simp: record_defs unat_counter_add nth_list_update\<close>)+
  show ?thesis
    unfolding Let_def snapshot_def
    using top[OF e1(1) z(1)] top[OF e1(2) z(2)] top[OF e1(3) z(3)] top[OF e1(4) z(4)] top[OF e1(5) z(5)]
      tier[OF _ z'(1) e2(1)] tier[OF _ z'(2) e2(2)] tier[OF _ z'(3) e2(3)] tier[OF _ z'(4) e2(4)]
    by (auto simp: record_tier_read_def record_tier_write_def on_tier_counters_def)
qed

theorem stats_exact_witness:
  "unat (tc_bytes_read (st_tiers (snapshot (fold apply_event [Fault, TierRead 0 65536, TierRead 0 65536] (stats_new [''mock'']))) ! 0))
     = cap64 131072"
  using stats_exact[of "[Fault, TierRead 0 65536, TierRead 0 65536]" "[''mock'']"]
  by (simp add: total_def Let_def)

section \<open>Residency cost\<close>

definition BYTES_PER_GIB :: f64 where "BYTES_PER_GIB = F_Fin False (2 ^ 30)"
definition SECONDS_PER_MONTH :: f64 where "SECONDS_PER_MONTH = F_Fin False 2592000"
definition DRAM_TIER_NAME :: string where "DRAM_TIER_NAME = ''dram''"

record tier_residency_sample =
  rs_name :: string
  rs_used_bytes :: nat
  rs_price_gib_month :: f64

record cost_accumulator =
  ca_gib_seconds :: f64
  ca_cost_usd :: f64

record residency_cost =
  rc_dram_price_gib_month :: f64
  rc_dram :: cost_accumulator
  rc_lower_tiers :: "(string \<times> cost_accumulator) list"
  rc_all_dram_cost_usd :: f64

record tier_cost =
  tco_name :: string
  tco_gib_seconds :: f64
  tco_cost_usd :: f64
  tco_average_price_gib_month :: f64

record cost_report =
  cr_tiers :: "tier_cost list"
  cr_actual_cost_usd :: f64
  cr_all_dram_cost_usd :: f64

definition price_valid :: "f64 \<Rightarrow> bool" where
  "price_valid price \<longleftrightarrow> f_is_finite price \<and> \<not> f_is_sign_negative price"

definition assert_valid_price :: "f64 \<Rightarrow> ('s, unit) operation" where
  "assert_valid_price price =
     op_assert (price_valid price) ''tier price must be finite and greater than or equal to zero''"

definition gib_seconds :: "nat \<Rightarrow> f64 \<Rightarrow> f64" where
  "gib_seconds bytes elapsed_seconds = f_mul (f_div (f_of_nat bytes) BYTES_PER_GIB) elapsed_seconds"

definition monthly_cost :: "f64 \<Rightarrow> f64 \<Rightarrow> f64" where
  "monthly_cost gs price = f_div (f_mul gs price) SECONDS_PER_MONTH"

definition accumulate :: "f64 \<Rightarrow> f64 \<Rightarrow> cost_accumulator \<Rightarrow> cost_accumulator" where
  "accumulate gs price a =
     \<lparr>ca_gib_seconds = f_add (ca_gib_seconds a) gs, ca_cost_usd = f_add (ca_cost_usd a) (monthly_cost gs price)\<rparr>"

definition accumulator_default :: cost_accumulator where
  "accumulator_default = \<lparr>ca_gib_seconds = f_zero, ca_cost_usd = f_zero\<rparr>"

text \<open>\<open>BTreeMap::entry(name).or_default()\<close> followed by an update of the entry.\<close>

fun entry_update :: "string \<Rightarrow> (cost_accumulator \<Rightarrow> cost_accumulator) \<Rightarrow> (string \<times> cost_accumulator) list \<Rightarrow>
    (string \<times> cost_accumulator) list" where
  "entry_update name g [] = [(name, g accumulator_default)]"
| "entry_update name g ((k, a) # rest) =
     (if name = k then (k, g a) # rest
      else if name < k then (name, g accumulator_default) # (k, a) # rest
      else (k, a) # entry_update name g rest)"

definition residency_new :: "f64 \<Rightarrow> residency_cost outcome" where
  "residency_new price =
     (if price_valid price
      then oOk \<lparr>rc_dram_price_gib_month = price, rc_dram = accumulator_default, rc_lower_tiers = [], rc_all_dram_cost_usd = f_zero\<rparr>
      else oPanic ''tier price must be finite and greater than or equal to zero'')"

text \<open>\<open>Duration::as_secs_f64\<close> of a duration in nanoseconds.\<close>

definition as_secs_f64 :: "nat \<Rightarrow> f64" where
  "as_secs_f64 nanos =
     f_add (f_of_nat (nanos div 1000000000)) (f_div (f_of_nat (nanos mod 1000000000)) (F_Fin False 1000000000))"

text \<open>The loop over the lower tiers; it returns the interval's GiB-seconds over all tiers.\<close>

fun tick_samples :: "f64 \<Rightarrow> tier_residency_sample list \<Rightarrow> f64 \<Rightarrow> (residency_cost, f64) operation" where
  "tick_samples secs [] acc = op_return acc"
| "tick_samples secs (sample # rest) acc =
     op_bind (op_assert (rs_name sample \<noteq> []) ''tier cost sample name is empty'') (\<lambda>_.
     op_bind (assert_valid_price (rs_price_gib_month sample)) (\<lambda>_.
     op_bind (op_modify (\<lambda>r. r\<lparr>rc_lower_tiers := entry_update (rs_name sample)
        (accumulate (gib_seconds (rs_used_bytes sample) secs) (rs_price_gib_month sample)) (rc_lower_tiers r)\<rparr>)) (\<lambda>_.
     tick_samples secs rest (f_add acc (gib_seconds (rs_used_bytes sample) secs)))))"

definition residency_tick :: "nat \<Rightarrow> nat \<Rightarrow> tier_residency_sample list \<Rightarrow> (residency_cost, unit) operation" where
  "residency_tick elapsed_nanos dram_used_bytes lower_tiers =
     (let secs = as_secs_f64 elapsed_nanos in
      if f_eq secs f_zero then op_return ()
      else (let dram_gs = gib_seconds dram_used_bytes secs in
        op_bind (op_modify (\<lambda>r. r\<lparr>rc_dram := accumulate dram_gs (rc_dram_price_gib_month r) (rc_dram r)\<rparr>)) (\<lambda>_.
        op_bind (tick_samples secs lower_tiers dram_gs) (\<lambda>all_gs.
        op_modify (\<lambda>r. r\<lparr>rc_all_dram_cost_usd :=
           f_add (rc_all_dram_cost_usd r) (monthly_cost all_gs (rc_dram_price_gib_month r))\<rparr>)))))"

definition to_tier_cost :: "string \<Rightarrow> cost_accumulator \<Rightarrow> tier_cost" where
  "to_tier_cost name a =
     \<lparr>tco_name = name, tco_gib_seconds = ca_gib_seconds a, tco_cost_usd = ca_cost_usd a,
      tco_average_price_gib_month = (if f_eq (ca_gib_seconds a) f_zero then f_zero
         else f_div (f_mul (ca_cost_usd a) SECONDS_PER_MONTH) (ca_gib_seconds a))\<rparr>"

definition residency_report :: "residency_cost \<Rightarrow> cost_report" where
  "residency_report r =
     (let tiers = to_tier_cost DRAM_TIER_NAME (rc_dram r) # map (\<lambda>(name, a). to_tier_cost name a) (rc_lower_tiers r)
      in \<lparr>cr_tiers = tiers, cr_actual_cost_usd = foldl f_add f_zero (map tco_cost_usd tiers),
          cr_all_dram_cost_usd = rc_all_dram_cost_usd r\<rparr>)"

definition actual_to_all_dram_ratio :: "cost_report \<Rightarrow> f64 option" where
  "actual_to_all_dram_ratio c =
     (if f_lt f_zero (cr_all_dram_cost_usd c) then Some (f_div (cr_actual_cost_usd c) (cr_all_dram_cost_usd c)) else None)"

section \<open>When a tick panics\<close>

definition sample_valid :: "tier_residency_sample \<Rightarrow> bool" where
  "sample_valid s \<longleftrightarrow> rs_name s \<noteq> [] \<and> price_valid (rs_price_gib_month s)"

lemma entry_update_keys: "set (map fst (entry_update n g xs)) = insert n (set (map fst xs))"
  by (induction n g xs rule: entry_update.induct) auto

lemma entry_update_sorted:
  "sorted_wrt (<) (map fst xs) \<Longrightarrow> sorted_wrt (<) (map fst (entry_update n g xs))"
proof (induction n g xs rule: entry_update.induct)
  case (2 n g k a rest)
  then show ?case using entry_update_keys[of n g rest] by (auto dest: order.strict_trans)
qed simp

lemma tick_samples_ok:
  "list_all sample_valid samples \<Longrightarrow> \<exists>v r'. tick_samples secs samples acc r = (oOk v, r')
     \<and> set (map fst (rc_lower_tiers r')) = set (map fst (rc_lower_tiers r)) \<union> set (map rs_name samples)
     \<and> (sorted_wrt (<) (map fst (rc_lower_tiers r)) \<longrightarrow> sorted_wrt (<) (map fst (rc_lower_tiers r')))"
proof (induction samples arbitrary: acc r)
  case Nil
  show ?case by (simp add: op_return_def)
next
  case (Cons s samples)
  let ?g = "gib_seconds (rs_used_bytes s) secs"
  let ?r = "r\<lparr>rc_lower_tiers := entry_update (rs_name s) (accumulate ?g (rs_price_gib_month s)) (rc_lower_tiers r)\<rparr>"
  have st: "tick_samples secs (s # samples) acc r = tick_samples secs samples (f_add acc ?g) ?r"
    using Cons.prems by (simp add: sample_valid_def assert_valid_price_def op_assert_def op_modify_def op_return_def op_bind_def)
  have v: "list_all sample_valid samples" using Cons.prems by simp
  from Cons.IH[OF v, of "f_add acc ?g" ?r] obtain w r' where
    "tick_samples secs samples (f_add acc ?g) ?r = (oOk w, r')"
    "set (map fst (rc_lower_tiers r')) = set (map fst (rc_lower_tiers ?r)) \<union> set (map rs_name samples)"
    "sorted_wrt (<) (map fst (rc_lower_tiers ?r)) \<longrightarrow> sorted_wrt (<) (map fst (rc_lower_tiers r'))" by blast
  then show ?case unfolding st
    using entry_update_keys entry_update_sorted by (intro exI[of _ w] exI[of _ r']) auto
qed

lemma tick_samples_invalid:
  "\<not> list_all sample_valid samples \<Longrightarrow> \<exists>m r'. tick_samples secs samples acc r = (oPanic m, r')"
proof (induction samples arbitrary: acc r)
  case (Cons s samples)
  then show ?case
    by (cases "sample_valid s")
      (auto simp: sample_valid_def assert_valid_price_def op_assert_def op_modify_def op_bind_def
        op_panic_def op_return_def)
qed simp

text \<open>
  A non-empty accounting interval panics exactly when some sampled tier has an empty name or a
  price that is not finite or has its sign bit set; otherwise it returns, the report lists every
  sampled tier once, in name order, and an interval of length zero changes nothing.
\<close>

theorem residency_tick_panics_iff:
  "(f_eq (as_secs_f64 nanos) f_zero \<longrightarrow> residency_tick nanos used samples r = (oOk (), r))
   \<and> (\<not> f_eq (as_secs_f64 nanos) f_zero \<longrightarrow>
       ((\<exists>m r'. residency_tick nanos used samples r = (oPanic m, r')) \<longleftrightarrow> \<not> list_all sample_valid samples)
     \<and> (list_all sample_valid samples \<longrightarrow> (\<exists>r'. residency_tick nanos used samples r = (oOk (), r')
           \<and> set (map tco_name (tl (cr_tiers (residency_report r')))) = set (map fst (rc_lower_tiers r)) \<union> set (map rs_name samples)
           \<and> (sorted_wrt (<) (map fst (rc_lower_tiers r)) \<longrightarrow>
                sorted_wrt (<) (map tco_name (tl (cr_tiers (residency_report r'))))))))"
proof (cases "f_eq (as_secs_f64 nanos) f_zero")
  case True
  then show ?thesis by (simp add: residency_tick_def op_return_def)
next
  case False
  let ?secs = "as_secs_f64 nanos" and ?g = "gib_seconds used (as_secs_f64 nanos)"
  let ?r = "r\<lparr>rc_dram := accumulate ?g (rc_dram_price_gib_month r) (rc_dram r)\<rparr>"
  have names: "map tco_name (tl (cr_tiers (residency_report q))) = map fst (rc_lower_tiers q)" for q
    by (simp add: residency_report_def Let_def to_tier_cost_def case_prod_beta)
  have eq: "residency_tick nanos used samples r = op_bind (tick_samples ?secs samples ?g) (\<lambda>all_gs.
        op_modify (\<lambda>r. r\<lparr>rc_all_dram_cost_usd :=
           f_add (rc_all_dram_cost_usd r) (monthly_cost all_gs (rc_dram_price_gib_month r))\<rparr>)) ?r"
    using False by (simp add: residency_tick_def Let_def op_modify_def op_bind_def)
  show ?thesis
  proof (cases "list_all sample_valid samples")
    case True
    from tick_samples_ok[OF True, of ?secs ?g ?r] obtain v r' where
      t: "tick_samples ?secs samples ?g ?r = (oOk v, r')"
      "set (map fst (rc_lower_tiers r')) = set (map fst (rc_lower_tiers r)) \<union> set (map rs_name samples)"
      "sorted_wrt (<) (map fst (rc_lower_tiers r)) \<longrightarrow> sorted_wrt (<) (map fst (rc_lower_tiers r'))" by auto
    then have e: "residency_tick nanos used samples r = (oOk (), r'\<lparr>rc_all_dram_cost_usd :=
           f_add (rc_all_dram_cost_usd r') (monthly_cost v (rc_dram_price_gib_month r'))\<rparr>)"
      unfolding eq by (simp add: op_simps op_modify_def)
    show ?thesis unfolding e names using False True t(2,3) by simp
  next
    case inv: False
    from tick_samples_invalid[OF inv, of ?secs ?g ?r] obtain m r' where
      "tick_samples ?secs samples ?g ?r = (oPanic m, r')" by blast
    then have "residency_tick nanos used samples r = (oPanic m, r')" unfolding eq by (simp add: op_simps)
    then show ?thesis using False inv by simp
  qed
qed

theorem residency_tick_panics_iff_witness:
  "\<forall>r. \<exists>m r'. residency_tick 1000000000 0 [\<lparr>rs_name = [], rs_used_bytes = 0, rs_price_gib_month = f_zero\<rparr>] r = (oPanic m, r')"
proof -
  have "as_secs_f64 1000000000 = f_add (f_of_nat 1) (f_div (f_of_nat 0) (F_Fin False 1000000000))"
    by (simp add: as_secs_f64_def)
  also have "\<dots> = f_round_signed False 1"
    by (simp add: f_of_nat_exact f_round_def f_signed_def)
  also have "\<dots> = F_Fin False 1"
    using round_mag_of_nat[of 1] by (simp add: f_round_signed_def f_round_def Let_def)
  finally have "\<not> f_eq (as_secs_f64 1000000000) f_zero" by (simp add: f_eq_def f_zero_def f_signed_def)
  with residency_tick_panics_iff[of 1000000000 0 "[\<lparr>rs_name = [], rs_used_bytes = 0, rs_price_gib_month = f_zero\<rparr>]"]
  show ?thesis by (simp add: sample_valid_def)
qed

text \<open>
  The two backends disagree about a price of negative zero.  A file tier that opens always
  has a price and a name that cost accounting accepts; an in-memory tier is constructed with a price of
  negative zero, and sampling it is a panic of the accounting step.
\<close>

theorem negative_zero_price_panics:
  "(\<forall>env c t. file_tier_open env c = Inr t \<longrightarrow>
      sample_valid \<lparr>rs_name = fi_name t, rs_used_bytes = file_used_bytes t, rs_price_gib_month = fi_price_gb_month t\<rparr>)
   \<and> (\<exists>t. mock_with_options ''mock'' PAGE_SIZE (F_Fin True 0) latency_default None = Inr t
        \<and> \<not> sample_valid \<lparr>rs_name = mt_name t, rs_used_bytes = mock_used_bytes t, rs_price_gib_month = mt_price_gb_month t\<rparr>)"
proof (intro conjI allI impI)
  fix env c t assume "file_tier_open env c = Inr t"
  then have "file_validate_config c = Inr ()" "fi_name t = fc_name c" "fi_price_gb_month t = fc_price_gb_month c"
    by (auto simp: file_tier_open_def Let_def split: sum.splits prod.splits)
  then show "sample_valid \<lparr>rs_name = fi_name t, rs_used_bytes = file_used_bytes t, rs_price_gib_month = fi_price_gb_month t\<rparr>"
    by (auto simp: sample_valid_def price_valid_def file_validate_config_def split: if_splits)
next
  show "\<exists>t. mock_with_options ''mock'' PAGE_SIZE (F_Fin True 0) latency_default None = Inr t
        \<and> \<not> sample_valid \<lparr>rs_name = mt_name t, rs_used_bytes = mock_used_bytes t, rs_price_gib_month = mt_price_gb_month t\<rparr>"
    by (simp add: mock_with_options_def f_lt_def f_zero_def f_signed_def latency_default_def sample_valid_def price_valid_def)
qed

theorem negative_zero_price_panics_witness:
  "\<exists>t. file_tier_open \<lparr>os_open = \<lambda>_. None, os_set_len = \<lambda>_. None, os_fallocate = \<lambda>_. 0, os_script = [], os_no_direct_env = False\<rparr>
       (file_tier_config_new PAGE_SIZE) = Inr t
     \<and> sample_valid \<lparr>rs_name = fi_name t, rs_used_bytes = file_used_bytes t, rs_price_gib_month = fi_price_gb_month t\<rparr>"
proof -
  have "PAGE_SIZE < 2 ^ 63" by (simp add: PAGE_SIZE_def)
  then obtain t where "file_tier_open \<lparr>os_open = \<lambda>_. None, os_set_len = \<lambda>_. None, os_fallocate = \<lambda>_. 0,
      os_script = [], os_no_direct_env = False\<rparr> (file_tier_config_new PAGE_SIZE) = Inr t"
    using file_open_succeeds[of PAGE_SIZE] by auto
  then show ?thesis using negative_zero_price_panics by blast
qed

end
