(* ===== verification/Fault_Coordinator.thy ===== *)
theory Fault_Coordinator
  imports Rust_Prelude
begin

text \<open>
  The per-page fault coordinator of src/crates/tierbuf/src/pool.rs: one leader performs the fault,
  callers that arrive meanwhile wait for it and replay its outcome.  The operations below are the
  critical sections under the coordinator's mutex; \<open>coord_step\<close> interleaves them for any number of
  threads, a condition-variable wait being the absence of a step.
\<close>

section \<open>State and outcomes\<close>

datatype replayable_error =
  R_Io io_kind string
| R_PoolExhausted
| R_TierExhausted string
| R_InvalidPid u64
| R_DuplicateHandle u64
| R_InvalidConfig string
| R_Contended
| R_Retry
| R_ShuttingDown

datatype fault_outcome = Success "nat option" | Failure replayable_error

type_synonym fault_result = "tierbuf_error + nat option"

record active_fault =
  af_generation :: u64
  af_waiters :: nat

record completed_fault =
  cf_generation :: u64
  cf_outcome :: fault_outcome
  cf_remaining_waiters :: nat

record fault_state =
  fs_next_generation :: u64
  fs_active :: "active_fault option"
  fs_completed :: "completed_fault option"

definition fault_state_default :: fault_state where
  "fault_state_default = \<lparr>fs_next_generation = 0, fs_active = None, fs_completed = None\<rparr>"

fun replayable_of :: "tierbuf_error \<Rightarrow> replayable_error" where
  "replayable_of (Io e) = R_Io (io_kind_of e) (io_message e)"
| "replayable_of PoolExhausted = R_PoolExhausted"
| "replayable_of (TierExhausted t) = R_TierExhausted t"
| "replayable_of (InvalidPid p) = R_InvalidPid p"
| "replayable_of (DuplicateHandle p) = R_DuplicateHandle p"
| "replayable_of (InvalidConfig m) = R_InvalidConfig m"
| "replayable_of Contended = R_Contended"
| "replayable_of Retry = R_Retry"
| "replayable_of ShuttingDown = R_ShuttingDown"

fun error_of_replayable :: "replayable_error \<Rightarrow> tierbuf_error" where
  "error_of_replayable (R_Io k m) = Io (IoError k m)"
| "error_of_replayable R_PoolExhausted = PoolExhausted"
| "error_of_replayable (R_TierExhausted t) = TierExhausted t"
| "error_of_replayable (R_InvalidPid p) = InvalidPid p"
| "error_of_replayable (R_DuplicateHandle p) = DuplicateHandle p"
| "error_of_replayable (R_InvalidConfig m) = InvalidConfig m"
| "error_of_replayable R_Contended = Contended"
| "error_of_replayable R_Retry = Retry"
| "error_of_replayable R_ShuttingDown = ShuttingDown"

fun from_result :: "fault_result \<Rightarrow> fault_outcome" where
  "from_result (Inr tier_index) = Success tier_index"
| "from_result (Inl error) = Failure (replayable_of error)"

fun into_result :: "fault_outcome \<Rightarrow> fault_result" where
  "into_result (Success tier_index) = Inr tier_index"
| "into_result (Failure error) = Inl (error_of_replayable error)"

section \<open>Critical sections\<close>

datatype enter_answer = Lead u64 | Register u64 | WaitCompleted

text \<open>
  The section of \<open>enter\<close> before its first wait: become leader, register with the active leader, or
  wait until the previous generation has been replayed.
\<close>

definition coord_enter :: "(fault_state, enter_answer) operation" where
  "coord_enter s =
     (case fs_active s of
        Some a \<Rightarrow>
          (if af_waiters a + 1 < 2 ^ 64
           then (oOk (Register (af_generation a)), s\<lparr>fs_active := Some (a\<lparr>af_waiters := af_waiters a + 1\<rparr>)\<rparr>)
           else (oPanic ''fault waiter count cannot overflow'', s))
      | None \<Rightarrow>
          (case fs_completed s of
             Some _ \<Rightarrow> (oOk WaitCompleted, s)
           | None \<Rightarrow> (oOk (Lead (fs_next_generation s)),
               s\<lparr>fs_next_generation := fs_next_generation s + 1,
                 fs_active := Some \<lparr>af_generation = fs_next_generation s, af_waiters = 0\<rparr>\<rparr>)))"

text \<open>
  The section of a registered waiter after a wake-up: \<open>None\<close> is another wait, otherwise the outcome
  that is replayed.
\<close>

definition coord_wake :: "u64 \<Rightarrow> (fault_state, fault_result option) operation" where
  "coord_wake generation s =
     (case fs_completed s of
        Some c \<Rightarrow>
          (if cf_generation c = generation
           then (if cf_remaining_waiters c = 0
                 then (oPanic ''completed fault must retain every registered waiter'', s)
                 else (let remaining = cf_remaining_waiters c - 1
                       in (oOk (Some (into_result (cf_outcome c))),
                           if remaining = 0 then s\<lparr>fs_completed := None\<rparr>
                           else s\<lparr>fs_completed := Some (c\<lparr>cf_remaining_waiters := remaining\<rparr>)\<rparr>)))
           else (oOk None, s))
      | None \<Rightarrow> (oOk None, s))"

definition coord_complete :: "u64 \<Rightarrow> fault_outcome \<Rightarrow> (fault_state, unit) operation" where
  "coord_complete generation outcome s =
     (case fs_active s of
        None \<Rightarrow> (oOk (), s)
      | Some a \<Rightarrow>
          (let s1 = s\<lparr>fs_active := None\<rparr> in
           if af_generation a \<noteq> generation then (oPanic ''assertion failed: active.generation == generation'', s1)
           else (oOk (), if af_waiters a \<noteq> 0
                  then s1\<lparr>fs_completed := Some \<lparr>cf_generation = generation, cf_outcome = outcome,
                                                 cf_remaining_waiters = af_waiters a\<rparr>\<rparr>
                  else s1)))"

definition leader_finish :: "u64 \<Rightarrow> fault_result \<Rightarrow> (fault_state, unit) operation" where
  "leader_finish generation result = coord_complete generation (from_result result)"

text \<open>Dropping a leader that has not finished.\<close>

definition leader_drop :: "u64 \<Rightarrow> (fault_state, unit) operation" where
  "leader_drop generation = coord_complete generation (Failure R_Contended)"

lemma replay_roundtrip: "into_result (from_result r) = r"
proof (cases r)
  case (Inl e)
  then show ?thesis by (cases e) auto
qed simp

section \<open>Interleavings\<close>

text \<open>
  A round is one leadership, counted without wrap-around; \<open>cs_results\<close> records what each round's
  leader produced and a follower remembers the round it registered in.
\<close>

datatype coord_thread = Outside | Leading u64 | Waiting u64 nat | Replayed nat fault_result

record coord_sys =
  cs_state :: fault_state
  cs_thread :: "nat \<Rightarrow> coord_thread"
  cs_round :: nat
  cs_results :: "nat \<Rightarrow> fault_result option"

definition coord_init :: coord_sys where
  "coord_init = \<lparr>cs_state = fault_state_default, cs_thread = (\<lambda>_. Outside), cs_round = 0, cs_results = (\<lambda>_. None)\<rparr>"

inductive coord_step :: "coord_sys \<Rightarrow> coord_sys \<Rightarrow> bool" where
  enter_lead: "cs_thread s i = Outside \<Longrightarrow> coord_enter (cs_state s) = (oOk (Lead g), st) \<Longrightarrow>
     coord_step s (s\<lparr>cs_state := st, cs_thread := (cs_thread s)(i := Leading g), cs_round := cs_round s + 1\<rparr>)"
| enter_register: "cs_thread s i = Outside \<Longrightarrow> coord_enter (cs_state s) = (oOk (Register g), st) \<Longrightarrow>
     coord_step s (s\<lparr>cs_state := st, cs_thread := (cs_thread s)(i := Waiting g (cs_round s))\<rparr>)"
| wake: "cs_thread s i = Waiting g r \<Longrightarrow> coord_wake g (cs_state s) = (oOk (Some res), st) \<Longrightarrow>
     coord_step s (s\<lparr>cs_state := st, cs_thread := (cs_thread s)(i := Replayed r res)\<rparr>)"
| finish: "cs_thread s i = Leading g \<Longrightarrow> leader_finish g res (cs_state s) = (oOk (), st) \<Longrightarrow>
     coord_step s (s\<lparr>cs_state := st, cs_thread := (cs_thread s)(i := Outside),
       cs_results := (cs_results s)(cs_round s := Some res)\<rparr>)"
| leader_dropped: "cs_thread s i = Leading g \<Longrightarrow> leader_drop g (cs_state s) = (oOk (), st) \<Longrightarrow>
     coord_step s (s\<lparr>cs_state := st, cs_thread := (cs_thread s)(i := Outside),
       cs_results := (cs_results s)(cs_round s := Some (Inl Contended))\<rparr>)"
| leave: "cs_thread s i = Replayed r res \<Longrightarrow> coord_step s (s\<lparr>cs_thread := (cs_thread s)(i := Outside)\<rparr>)"

inductive_cases coord_stepE: "coord_step s t"

abbreviation coord_run :: "coord_sys \<Rightarrow> coord_sys \<Rightarrow> bool" where
  "coord_run \<equiv> coord_step\<^sup>*\<^sup>*"

definition leaders :: "coord_sys \<Rightarrow> nat set" where
  "leaders s = {i. \<exists>g. cs_thread s i = Leading g}"

definition waiters :: "coord_sys \<Rightarrow> nat set" where
  "waiters s = {i. \<exists>g r. cs_thread s i = Waiting g r}"

definition coord_inv :: "coord_sys \<Rightarrow> bool" where
  "coord_inv s \<longleftrightarrow> finite (waiters s)
     \<and> (\<forall>i r res. cs_thread s i = Replayed r res \<longrightarrow> cs_results s r = Some res)
     \<and> (case fs_active (cs_state s) of
          Some a \<Rightarrow> fs_completed (cs_state s) = None
            \<and> (\<exists>l. leaders s = {l} \<and> cs_thread s l = Leading (af_generation a))
            \<and> (\<forall>i g r. cs_thread s i = Waiting g r \<longrightarrow> g = af_generation a \<and> r = cs_round s)
            \<and> af_waiters a = card (waiters s) \<and> cs_results s (cs_round s) = None
        | None \<Rightarrow> leaders s = {}
            \<and> (case fs_completed (cs_state s) of
                 None \<Rightarrow> waiters s = {}
               | Some c \<Rightarrow> cf_remaining_waiters c = card (waiters s) \<and> waiters s \<noteq> {}
                   \<and> (\<forall>i g r. cs_thread s i = Waiting g r \<longrightarrow> g = cf_generation c \<and> r = cs_round s)
                   \<and> cs_results s (cs_round s) = Some (into_result (cf_outcome c))))
     \<and> (\<forall>r > cs_round s. cs_results s r = None)"

lemma leaders_update:
  "cs_thread t = (cs_thread s)(i := x) \<Longrightarrow>
   leaders t = (if \<exists>g. x = Leading g then insert i (leaders s) else leaders s - {i})"
  by (auto simp: leaders_def)

lemma waiters_update:
  "cs_thread t = (cs_thread s)(i := x) \<Longrightarrow>
   waiters t = (if \<exists>g r. x = Waiting g r then insert i (waiters s) else waiters s - {i})"
  by (auto simp: waiters_def)

lemma coord_inv_init: "coord_inv coord_init"
  by (simp add: coord_inv_def coord_init_def fault_state_default_def leaders_def waiters_def)

lemma thread_sets:
  "cs_thread s i = Outside \<Longrightarrow> i \<notin> leaders s \<and> i \<notin> waiters s"
  "cs_thread s i = Leading g \<Longrightarrow> i \<in> leaders s \<and> i \<notin> waiters s"
  "cs_thread s i = Waiting g r \<Longrightarrow> i \<in> waiters s \<and> i \<notin> leaders s"
  "cs_thread s i = Replayed r res \<Longrightarrow> i \<notin> leaders s \<and> i \<notin> waiters s"
  by (auto simp: leaders_def waiters_def)

lemma inv_enter_lead:
  assumes inv: "coord_inv s" and o: "cs_thread s i = Outside" and e: "coord_enter (cs_state s) = (oOk (Lead g), st)"
  shows "coord_inv (s\<lparr>cs_state := st, cs_thread := (cs_thread s)(i := Leading g), cs_round := cs_round s + 1\<rparr>)"
    (is "coord_inv ?t")
proof -
  have none: "fs_active (cs_state s) = None" "fs_completed (cs_state s) = None"
    and st: "fs_active st = Some \<lparr>af_generation = g, af_waiters = 0\<rparr>" "fs_completed st = None"
    using e by (auto simp: coord_enter_def split: option.splits if_splits)
  have s: "leaders s = {}" "waiters s = {}" using inv none by (auto simp: coord_inv_def)
  have "leaders ?t = {i}" "waiters ?t = {}"
    using leaders_update[of ?t s i "Leading g"] waiters_update[of ?t s i "Leading g"] s by auto
  moreover have "\<not> cs_thread s j = Waiting h r" for j h r using s(2) by (auto simp: waiters_def)
  ultimately show ?thesis using inv st none by (auto simp: coord_inv_def)
qed

lemma inv_enter_register:
  assumes inv: "coord_inv s" and o: "cs_thread s i = Outside" and e: "coord_enter (cs_state s) = (oOk (Register g), st)"
  shows "coord_inv (s\<lparr>cs_state := st, cs_thread := (cs_thread s)(i := Waiting g (cs_round s))\<rparr>)"
    (is "coord_inv ?t")
proof -
  obtain a where a: "fs_active (cs_state s) = Some a" "g = af_generation a" "fs_completed st = fs_completed (cs_state s)"
    "fs_active st = Some (a\<lparr>af_waiters := af_waiters a + 1\<rparr>)"
    using e by (auto simp: coord_enter_def split: option.splits if_splits)
  have "leaders ?t = leaders s" "waiters ?t = insert i (waiters s)" "i \<notin> waiters s"
    using leaders_update[of ?t s i "Waiting g (cs_round s)"] waiters_update[of ?t s i "Waiting g (cs_round s)"]
      thread_sets(1)[OF o] by auto
  moreover have "l \<noteq> i" if "l \<in> leaders s" for l using that thread_sets(1)[OF o] by auto
  ultimately show ?thesis using inv a by (auto simp: coord_inv_def)
qed

lemma inv_wake:
  assumes inv: "coord_inv s" and w: "cs_thread s i = Waiting g r"
    and e: "coord_wake g (cs_state s) = (oOk (Some res), st)"
  shows "coord_inv (s\<lparr>cs_state := st, cs_thread := (cs_thread s)(i := Replayed r res)\<rparr>)"
    (is "coord_inv ?t")
proof -
  obtain c where c: "fs_completed (cs_state s) = Some c" "cf_generation c = g" "res = into_result (cf_outcome c)"
    "fs_active st = fs_active (cs_state s)"
    "fs_completed st = (if cf_remaining_waiters c - 1 = 0 then None
        else Some (c\<lparr>cf_remaining_waiters := cf_remaining_waiters c - 1\<rparr>))"
    using e by (auto simp: coord_wake_def Let_def split: option.splits if_splits)
  have na: "fs_active (cs_state s) = None"
    using inv c(1) by (auto simp: coord_inv_def split: option.splits)
  have I: "cf_remaining_waiters c = card (waiters s)" "finite (waiters s)" "leaders s = {}"
    "\<And>j h q. cs_thread s j = Waiting h q \<Longrightarrow> h = cf_generation c \<and> q = cs_round s"
    "cs_results s (cs_round s) = Some (into_result (cf_outcome c))"
    "\<And>j q x. cs_thread s j = Replayed q x \<Longrightarrow> cs_results s q = Some x" "\<forall>q > cs_round s. cs_results s q = None"
    using inv c(1) na by (auto simp: coord_inv_def)
  have i: "i \<in> waiters s" "i \<notin> leaders s" using thread_sets(3)[OF w] by auto
  have L: "leaders ?t = {}" and Wt: "waiters ?t = waiters s - {i}"
    using leaders_update[of ?t s i "Replayed r res"] waiters_update[of ?t s i "Replayed r res"] I(3) by auto
  have r: "r = cs_round s" using I(4)[OF w] by simp
  have card: "card (waiters s - {i}) = card (waiters s) - 1" using i I(2) by simp
  have z: "card (waiters s) - 1 = 0 \<longleftrightarrow> waiters s - {i} = {}" using card I(2) by (metis card_eq_0_iff finite_Diff)
  show ?thesis
    unfolding coord_inv_def using I c na L Wt r card z by (auto split: if_splits)
qed

lemma inv_complete:
  assumes inv: "coord_inv s" and l: "cs_thread s i = Leading g"
    and e: "coord_complete g outcome (cs_state s) = (oOk (), st)" and r: "into_result outcome = res"
  shows "coord_inv (s\<lparr>cs_state := st, cs_thread := (cs_thread s)(i := Outside),
     cs_results := (cs_results s)(cs_round s := Some res)\<rparr>)" (is "coord_inv ?t")
proof -
  have i: "i \<in> leaders s" "i \<notin> waiters s" using thread_sets(2)[OF l] by auto
  then obtain a where a: "fs_active (cs_state s) = Some a" using inv by (auto simp: coord_inv_def split: option.splits)
  then have I: "fs_completed (cs_state s) = None" "leaders s = {i}" "af_waiters a = card (waiters s)" "finite (waiters s)"
    "\<And>j h q. cs_thread s j = Waiting h q \<Longrightarrow> h = af_generation a \<and> q = cs_round s"
    "cs_results s (cs_round s) = None" "\<forall>q > cs_round s. cs_results s q = None"
    "\<And>j q x. cs_thread s j = Replayed q x \<Longrightarrow> cs_results s q = Some x" and ga: "g = af_generation a"
    using inv i l by (auto simp: coord_inv_def)
  have st: "fs_active st = None" "fs_completed st = (if af_waiters a \<noteq> 0
      then Some \<lparr>cf_generation = g, cf_outcome = outcome, cf_remaining_waiters = af_waiters a\<rparr> else None)"
    using e a ga I(1) by (auto simp: coord_complete_def Let_def)
  have L: "leaders ?t = {}" and Wt: "waiters ?t = waiters s"
    using leaders_update[of ?t s i Outside] waiters_update[of ?t s i Outside] I(2) i by auto
  have rep: "q \<noteq> cs_round s" if "cs_thread s j = Replayed q x" for j q x using I(6) I(8)[OF that] by auto
  have z: "card (waiters s) = 0 \<longleftrightarrow> waiters s = {}" using I(4) by simp
  show ?thesis
    unfolding coord_inv_def using I st L Wt ga r rep z by (auto split: if_splits)
qed

lemma inv_leave:
  assumes inv: "coord_inv s" and w: "cs_thread s i = Replayed r res"
  shows "coord_inv (s\<lparr>cs_thread := (cs_thread s)(i := Outside)\<rparr>)" (is "coord_inv ?t")
proof -
  have "leaders ?t = leaders s" "waiters ?t = waiters s"
    using leaders_update[of ?t s i Outside] waiters_update[of ?t s i Outside] thread_sets(4)[OF w] by auto
  moreover have "l \<noteq> i" if "l \<in> leaders s" for l using that thread_sets(4)[OF w] by auto
  ultimately show ?thesis using inv unfolding coord_inv_def by (auto split: option.splits)
qed

lemma coord_inv_step: "coord_step s t \<Longrightarrow> coord_inv s \<Longrightarrow> coord_inv t"
  by (induction rule: coord_step.induct)
    (auto intro: inv_enter_lead[simplified] inv_enter_register inv_wake inv_leave
      inv_complete[where outcome = "from_result _"] inv_complete[where outcome = "Failure R_Contended"]
      simp: leader_finish_def leader_drop_def replay_roundtrip)

lemma coord_inv_run: "coord_run coord_init s \<Longrightarrow> coord_inv s"
  by (induction rule: rtranclp_induct) (auto intro: coord_inv_init coord_inv_step)

text \<open>
  C29. Faults of one page are coalesced correctly under every interleaving: at most one thread
  leads; a follower that has returned replays exactly the result that the leader of the round it
  registered in produced, errors included; no wake-up is lost, since a registered thread can always
  take its outcome once its leader is done; and none of the assertions of the coordinator fires.
\<close>

theorem fault_coalescing_exact:
  assumes "coord_run coord_init s"
  shows "card (leaders s) \<le> 1
     \<and> (\<forall>i r res. cs_thread s i = Replayed r res \<longrightarrow> cs_results s r = Some res)
     \<and> (\<forall>i g r. cs_thread s i = Waiting g r \<longrightarrow>
          (\<exists>l. cs_thread s l = Leading g)
        \<or> (\<exists>res st. coord_wake g (cs_state s) = (oOk (Some res), st) \<and> cs_results s r = Some res))
     \<and> (\<forall>i g outcome. cs_thread s i = Leading g \<longrightarrow> fst (coord_complete g outcome (cs_state s)) = oOk ())
     \<and> (\<forall>i g r m. cs_thread s i = Waiting g r \<longrightarrow> fst (coord_wake g (cs_state s)) \<noteq> oPanic m)"
proof -
  have inv: "coord_inv s" by (rule coord_inv_run[OF assms])
  show ?thesis
  proof (intro conjI allI impI)
    show "card (leaders s) \<le> 1" using inv by (auto simp: coord_inv_def split: option.splits)
    show "cs_results s r = Some res" if "cs_thread s i = Replayed r res" for i r res
      using inv that by (auto simp: coord_inv_def)
    show "fst (coord_complete g outcome (cs_state s)) = oOk ()" if l: "cs_thread s i = Leading g" for i g outcome
      using inv thread_sets(2)[OF l] l
      by (auto simp: coord_inv_def coord_complete_def Let_def split: option.splits)
    fix i g r assume w: "cs_thread s i = Waiting g r"
    then have ne: "waiters s \<noteq> {}" and fin: "finite (waiters s)"
      using thread_sets(3)[OF w] inv by (auto simp: coord_inv_def)
    show woken: "(\<exists>l. cs_thread s l = Leading g)
        \<or> (\<exists>res st. coord_wake g (cs_state s) = (oOk (Some res), st) \<and> cs_results s r = Some res)"
    proof (cases "fs_active (cs_state s)")
      case (Some a)
      then show ?thesis using inv w by (auto simp: coord_inv_def)
    next
      case None
      then obtain c where c: "fs_completed (cs_state s) = Some c" using inv ne by (auto simp: coord_inv_def split: option.splits)
      then have "cf_generation c = g" "r = cs_round s" "cs_results s (cs_round s) = Some (into_result (cf_outcome c))"
        "cf_remaining_waiters c \<noteq> 0"
        using inv None w fin ne by (auto simp: coord_inv_def)
      then show ?thesis using c by (auto simp: coord_wake_def Let_def)
    qed
    show "fst (coord_wake g (cs_state s)) \<noteq> oPanic m" for m
    proof (cases "fs_active (cs_state s)")
      case (Some a)
      then show ?thesis using inv by (auto simp: coord_inv_def coord_wake_def)
    next
      case None
      then show ?thesis using inv fin ne
        by (auto simp: coord_inv_def coord_wake_def Let_def split: option.splits)
    qed
  qed
qed

theorem fault_coalescing_exact_witness:
  "\<exists>s. coord_run coord_init s \<and> cs_thread s 1 = Replayed 1 (Inl PoolExhausted) \<and> cs_results s 1 = Some (Inl PoolExhausted)"
proof -
  let ?f0 = "\<lambda>_. Outside"
  let ?a = "\<lparr>cs_state = \<lparr>fs_next_generation = 1, fs_active = Some \<lparr>af_generation = 0, af_waiters = 0\<rparr>, fs_completed = None\<rparr>,
    cs_thread = ?f0(0 := Leading 0), cs_round = 1, cs_results = (\<lambda>_. None)\<rparr>"
  let ?b = "\<lparr>cs_state = \<lparr>fs_next_generation = 1, fs_active = Some \<lparr>af_generation = 0, af_waiters = 1\<rparr>, fs_completed = None\<rparr>,
    cs_thread = ?f0(0 := Leading 0, 1 := Waiting 0 1), cs_round = 1, cs_results = (\<lambda>_. None)\<rparr>"
  let ?c = "\<lparr>cs_state = \<lparr>fs_next_generation = 1, fs_active = None, fs_completed = Some \<lparr>cf_generation = 0,
      cf_outcome = Failure R_PoolExhausted, cf_remaining_waiters = 1\<rparr>\<rparr>,
    cs_thread = (?f0(0 := Leading 0, 1 := Waiting 0 1))(0 := Outside), cs_round = 1,
    cs_results = (\<lambda>_. None)(1 := Some (Inl PoolExhausted))\<rparr>"
  let ?d = "?c\<lparr>cs_state := \<lparr>fs_next_generation = 1, fs_active = None, fs_completed = None\<rparr>,
    cs_thread := (cs_thread ?c)(1 := Replayed 1 (Inl PoolExhausted))\<rparr>"
  have "coord_step coord_init ?a"
    using enter_lead[of coord_init 0 0] by (simp add: coord_init_def fault_state_default_def coord_enter_def)
  moreover have "coord_step ?a ?b"
    using enter_register[of ?a 1 0] by (simp add: coord_enter_def)
  moreover have "coord_step ?b ?c"
    using finish[of ?b 0 0 "Inl PoolExhausted"] by (simp add: leader_finish_def coord_complete_def Let_def)
  moreover have "coord_step ?c ?d"
    using wake[of ?c 1 0 1 "Inl PoolExhausted"] by (simp add: coord_wake_def Let_def)
  ultimately have r: "coord_run coord_init ?d" by (meson r_into_rtranclp rtranclp_trans)
  have t: "cs_thread ?d 1 = Replayed 1 (Inl PoolExhausted)" by simp
  with fault_coalescing_exact[OF r] have "cs_results ?d 1 = Some (Inl PoolExhausted)" by blast
  with r t show ?thesis by blast
qed

end
