(* ===== verification/Buffer_Pool.thy ===== *)
theory Buffer_Pool
  imports Free_List Cooling_Queue Economic_Policy Metrics_Recorder Fault_Coordinator
    "HOL-Library.Product_Lexorder"
begin

text \<open>
  State of the buffer manager of src/crates/tierbuf/src/pool.rs and its cooling and eviction
  operations.  The queue of free indices, the storage tiers and the placement policy are reached
  through the records of operations of an environment \<open>E\<close>.  A \<open>Swip\<close> is the address of its cell in
  the explicit store \<open>bm_swips\<close>, so that \<open>shares_state_with\<close> is equality of addresses.  An operation
  runs to completion against the state it finds; where the code waits for another thread (a latch
  that is held, a pin that only its holder releases) the operation is \<open>oBlocks\<close>.
\<close>

section \<open>Configuration and state\<close>

definition MAX_COOLING_SAMPLE :: nat where "MAX_COOLING_SAMPLE = 64"
definition MAX_PREFETCH_IN_FLIGHT :: nat where "MAX_PREFETCH_IN_FLIGHT = 128"

record ('q, 't, 'p) env =
  en_queue :: "'q queue_ops"
  en_tier :: "'t tier_ops"
  en_policy :: "'p policy_ops"

record economics =
  eco_dram_price_gb_month :: f64
  eco_epoch :: nat

datatype eviction_mode = Demand | Watermark

datatype fix_source = Dram | LowerTier

record 't buf_config =
  cfg_dram_pool_bytes :: nat
  cfg_cooling_ratio :: f64
  cfg_eviction_mode :: eviction_mode
  cfg_economics :: economics
  cfg_tiers :: "'t list"

record location =
  loc_tier_index :: nat
  loc_offset :: nat

record page_directory =
  pd_entries :: "page_id \<Rightarrow> location option"
  pd_lookups :: u64

record page_control =
  pc_swip :: handle
  pc_fault :: fault_state

record prefetch_marker =
  pm_resident :: resident_addr
  pm_generation :: u32

text \<open>The checkout of a task is the index of its reserved frame.\<close>

record prefetch_task =
  pt_pid :: page_id
  pt_swip :: handle
  pt_checkout :: "nat option"

datatype eviction_outcome = Freed | Stale | Busy

text \<open>The join handles of the background threads, each with whether its thread has panicked.\<close>

datatype worker = CoolerWorker | EpochWorker | PrefetchWorker nat

record ('q, 't, 'p) manager =
  bm_id :: u64
  bm_frames :: "'q frame_table"
  bm_tiers :: "'t list"
  bm_policy :: 'p
  bm_stats :: stats
  bm_residency_cost :: residency_cost
  bm_directory :: page_directory
  bm_pages :: "page_id \<Rightarrow> page_control option"
  bm_next_pid :: u64
  bm_cooling :: cooling_queue
  bm_cooling_target :: nat
  bm_low_watermark :: nat
  bm_eviction_mode :: eviction_mode
  bm_fault_ins_this_epoch :: u64
  bm_exhausted_frame_request :: bool
  bm_sample_cursor :: u64
  bm_stopping :: bool
  bm_epoch :: nat
  bm_worker_signal :: u64
  bm_cooler_signal :: u64
  bm_workers :: "(worker \<times> bool) list"
  bm_prefetch_queue :: "prefetch_task list"
  bm_prefetch_running :: "prefetch_task option"
  bm_prefetch_in_flight :: nat
  bm_prefetch_pending :: "page_id set"
  bm_prefetched :: "page_id \<Rightarrow> prefetch_marker option"
  bm_swips :: "handle \<Rightarrow> swip_inner option"
  bm_next_handle :: handle

section \<open>Page directory\<close>

definition dir_lookup :: "page_id \<Rightarrow> (page_directory, location option) operation" where
  "dir_lookup pid d = (oOk (pd_entries d pid), d\<lparr>pd_lookups := pd_lookups d + 1\<rparr>)"

definition dir_insert :: "page_id \<Rightarrow> location \<Rightarrow> (page_directory, location option) operation" where
  "dir_insert pid l d = (oOk (pd_entries d pid), d\<lparr>pd_entries := (pd_entries d)(pid \<mapsto> l)\<rparr>)"

definition dir_backing :: "page_id \<Rightarrow> page_directory \<Rightarrow> location option" where
  "dir_backing pid d = pd_entries d pid"

definition dir_restore :: "page_id \<Rightarrow> location option \<Rightarrow> (page_directory, unit) operation" where
  "dir_restore pid l d = (oOk (), d\<lparr>pd_entries := (pd_entries d)(pid := l)\<rparr>)"

section \<open>Access to the parts of the manager\<close>

definition on_frames :: "('q frame_table, 'a) operation \<Rightarrow> (('q, 't, 'p) manager, 'a) operation" where
  "on_frames = op_lift bm_frames (\<lambda>t s. s\<lparr>bm_frames := t\<rparr>)"

definition on_meta :: "nat \<Rightarrow> (frame, 'a) operation \<Rightarrow> (('q, 't, 'p) manager, 'a) operation" where
  "on_meta index m = on_frames (on_frame index m)"

definition on_meta_bool :: "nat \<Rightarrow> (frame \<Rightarrow> bool \<times> frame) \<Rightarrow> (('q, 't, 'p) manager, bool) operation" where
  "on_meta_bool index g = on_meta index (\<lambda>f. case g f of (b, f') \<Rightarrow> (oOk b, f'))"

definition frame_pid_of :: "nat \<Rightarrow> (('q, 't, 'p) manager, page_id) operation" where
  "frame_pid_of index = on_meta index (\<lambda>f. (frame_pid f, f))"

definition resident_of :: "nat \<Rightarrow> (('q, 't, 'p) manager, resident_addr) operation" where
  "resident_of index = on_frames (\<lambda>t. (resident_addr_of t index, t))"

definition on_stats :: "(stats, 'a) operation \<Rightarrow> (('q, 't, 'p) manager, 'a) operation" where
  "on_stats = op_lift bm_stats (\<lambda>t s. s\<lparr>bm_stats := t\<rparr>)"

definition bump :: "(stats \<Rightarrow> stats) \<Rightarrow> (('q, 't, 'p) manager, unit) operation" where
  "bump g = on_stats (op_modify g)"

definition on_directory :: "(page_directory, 'a) operation \<Rightarrow> (('q, 't, 'p) manager, 'a) operation" where
  "on_directory = op_lift bm_directory (\<lambda>t s. s\<lparr>bm_directory := t\<rparr>)"

definition on_tier :: "nat \<Rightarrow> ('t \<Rightarrow> 'a \<times> 't) \<Rightarrow> (('q, 't, 'p) manager, 'a) operation" where
  "on_tier i m s =
     (if i < length (bm_tiers s)
      then (case m (bm_tiers s ! i) of (a, t) \<Rightarrow> (oOk a, s\<lparr>bm_tiers := (bm_tiers s)[i := t]\<rparr>))
      else (oPanic ''index out of bounds'', s))"

definition load_swip :: "handle \<Rightarrow> (('q, 't, 'p) manager, swip_state) operation" where
  "load_swip h s =
     (case Option.bind (bm_swips s h) swip_load of
        Some st \<Rightarrow> (oOk st, s) | None \<Rightarrow> (oPanic ''invalid Swip encoding'', s))"

definition cas_swip ::
  "handle \<Rightarrow> (swip_inner \<Rightarrow> ((swip_state + unit) \<times> swip_inner) option) \<Rightarrow> (('q, 't, 'p) manager, bool) operation" where
  "cas_swip h g s =
     (case Option.bind (bm_swips s h) g of
        Some (Inr _, c) \<Rightarrow> (oOk True, s\<lparr>bm_swips := (bm_swips s)(h \<mapsto> c)\<rparr>)
      | Some (Inl _, c) \<Rightarrow> (oOk False, s\<lparr>bm_swips := (bm_swips s)(h \<mapsto> c)\<rparr>)
      | None \<Rightarrow> (oPanic ''invalid Swip encoding'', s))"

definition swip_pid_of :: "handle \<Rightarrow> (('q, 't, 'p) manager, page_id) operation" where
  "swip_pid_of h s = (case bm_swips s h of Some c \<Rightarrow> (oOk (sw_pid c), s) | None \<Rightarrow> (oPanic ''dangling Swip'', s))"

definition ensure_running :: "(('q, 't, 'p) manager, unit) operation" where
  "ensure_running s = (if bm_stopping s then (oErr ShuttingDown, s) else (oOk (), s))"

definition notify_cooler :: "(('q, 't, 'p) manager, unit) operation" where
  "notify_cooler = op_modify (\<lambda>s. s\<lparr>bm_cooler_signal := bm_cooler_signal s + 1\<rparr>)"

definition notify_workers :: "(('q, 't, 'p) manager, unit) operation" where
  "notify_workers = op_modify (\<lambda>s. s\<lparr>bm_worker_signal := bm_worker_signal s + 1\<rparr>)"

definition consume_prefetched :: "page_id \<Rightarrow> resident_addr \<Rightarrow> u32 \<Rightarrow> (('q, 't, 'p) manager, bool) operation" where
  "consume_prefetched pid resident generation s =
     (oOk (bm_prefetched s pid = Some \<lparr>pm_resident = resident, pm_generation = generation\<rparr>),
      s\<lparr>bm_prefetched := (bm_prefetched s)(pid := None)\<rparr>)"

section \<open>Checked-out frames\<close>

text \<open>
  \<open>FreeFrame::from_index\<close> spins until the reservation succeeds, which only another thread's unpin
  can bring about; \<open>FreeFrame::drop\<close> and \<open>OwnedFreeFrame::drop\<close> of an active checkout.
\<close>

definition free_frame_from_index :: "nat \<Rightarrow> (('q, 't, 'p) manager, nat) operation" where
  "free_frame_from_index index =
     op_bind (on_meta_bool index try_claim_eviction) (\<lambda>claimed.
     if claimed then op_return index else op_blocks)"

definition free_frame_drop :: "('q, 't, 'p) env \<Rightarrow> bool \<Rightarrow> nat \<Rightarrow> (('q, 't, 'p) manager, unit) operation" where
  "free_frame_drop E reserved index =
     op_seq (op_when reserved (on_meta index release_eviction))
     (op_bind (on_frames (push_free (en_queue E) index)) (\<lambda>r.
      case r of Inr _ \<Rightarrow> op_return () | Inl _ \<Rightarrow> op_panic ''checked-out frame must fit back in its free queue''))"

definition free_frame_publish_pin :: "nat \<Rightarrow> (('q, 't, 'p) manager, unit) operation" where
  "free_frame_publish_pin index = on_meta index publish_reserved_pin"

definition clear_unpublished_frame :: "nat \<Rightarrow> (('q, 't, 'p) manager, unit) operation" where
  "clear_unpublished_frame index =
     op_bind (on_meta_bool index try_claim_eviction) (\<lambda>claimed.
     op_seq (op_assert claimed ''unpublished frame must be unpinned'')
     (op_seq (on_meta index clear_after_eviction)
     (on_meta index release_eviction)))"

section \<open>Cooling\<close>

definition enqueue_ticket :: "nat \<Rightarrow> page_id \<Rightarrow> resident_addr \<Rightarrow> (('q, 't, 'p) manager, unit) operation" where
  "enqueue_ticket index pid resident =
     op_bind (frame_pid_of index) (\<lambda>observed_pid.
     if observed_pid \<noteq> pid then op_return () else
     op_bind (resident_of index) (\<lambda>observed_resident.
     if observed_resident \<noteq> resident then op_return () else
     op_bind (on_meta index (op_get fr_owner_swip)) (\<lambda>owner.
     (case owner of
        None \<Rightarrow> op_return ()
      | Some h \<Rightarrow>
          op_bind (load_swip h) (\<lambda>st.
          if st \<noteq> Cooling resident then op_return () else
          op_bind (on_meta index (op_get fr_generation)) (\<lambda>generation.
          op_modify (\<lambda>s. s\<lparr>bm_cooling := push_unique \<lparr>ct_frame_index = index, ct_pid = pid,
             ct_generation = generation, ct_resident = resident\<rparr> (bm_cooling s)\<rparr>)))))))"

text \<open>The sampled frames that hold an unpinned page, with their stored heat.\<close>

fun sample_candidates :: "nat list \<Rightarrow> (('q, 't, 'p) manager, (u32 \<times> nat) list) operation" where
  "sample_candidates [] = op_return []"
| "sample_candidates (index # rest) =
     op_bind (frame_pid_of index) (\<lambda>pid.
     op_bind (on_meta index (op_get (\<lambda>f. f))) (\<lambda>f.
     op_bind (sample_candidates rest) (\<lambda>cs.
     op_return (if pid_is_valid pid \<and> pin_count f = 0 \<and> \<not> is_evicting f
                then (fst (heat_and_epoch f), index) # cs else cs))))"

fun cool_candidates :: "nat \<Rightarrow> nat list \<Rightarrow> (('q, 't, 'p) manager, unit) operation" where
  "cool_candidates desired [] = op_return ()"
| "cool_candidates desired (index # rest) =
     op_bind (op_get (\<lambda>s. cooling_len (bm_cooling s))) (\<lambda>len.
     if desired \<le> len then op_return () else
     op_bind (on_meta index (op_get (\<lambda>f. f))) (\<lambda>f.
     if pin_count f \<noteq> 0 \<or> is_evicting f then cool_candidates desired rest else
     op_bind (frame_pid_of index) (\<lambda>pid.
     op_bind (resident_of index) (\<lambda>resident.
     (case fr_owner_swip f of
        None \<Rightarrow> cool_candidates desired rest
      | Some h \<Rightarrow>
          op_bind (load_swip h) (\<lambda>st.
          op_seq
            (if st = Hot resident
             then op_bind (cas_swip h (\<lambda>c. try_mark_cooling c resident)) (\<lambda>ok.
                  op_when ok (enqueue_ticket index pid resident))
             else op_when (st = Cooling resident) (enqueue_ticket index pid resident))
            (cool_candidates desired rest)))))))"

definition enqueue_cold_candidates :: "bool \<Rightarrow> (('q, 't, 'p) manager, unit) operation" where
  "enqueue_cold_candidates force_one =
     op_bind (op_get (\<lambda>s. s)) (\<lambda>s.
     (let len = cooling_len (bm_cooling s);
          desired = (if force_one then max (len + 1) (bm_cooling_target s) else bm_cooling_target s)
      in if desired = 0 \<or> desired \<le> len then op_return ()
         else (let frame_cnt = frame_count (bm_frames s);
                   sample_count = min frame_cnt MAX_COOLING_SAMPLE;
                   start = unat (bm_sample_cursor s) mod frame_cnt
               in op_seq (op_modify (\<lambda>s. s\<lparr>bm_sample_cursor := bm_sample_cursor s + word_of_nat sample_count\<rparr>))
                  (op_bind (sample_candidates (map (\<lambda>offset. (start + offset) mod frame_cnt) [0..<sample_count])) (\<lambda>candidates.
                   cool_candidates desired (map snd (sort_key (\<lambda>(heat, index). (heat, index)) candidates)))))))"

section \<open>Eviction\<close>

definition exact_cooling_owner :: "cooling_ticket \<Rightarrow> (('q, 't, 'p) manager, handle option) operation" where
  "exact_cooling_owner ticket =
     op_bind (op_get (\<lambda>s. frame_count (bm_frames s))) (\<lambda>n.
     if n \<le> ct_frame_index ticket then op_return None else
     op_bind (resident_of (ct_frame_index ticket)) (\<lambda>resident.
     if resident \<noteq> ct_resident ticket then op_return None else
     op_bind (frame_pid_of (ct_frame_index ticket)) (\<lambda>pid.
     if pid \<noteq> ct_pid ticket then op_return None else
     op_bind (on_meta (ct_frame_index ticket) (op_get (\<lambda>f. f))) (\<lambda>f.
     if fr_generation f \<noteq> ct_generation ticket then op_return None else
     (case fr_owner_swip f of
        None \<Rightarrow> op_return None
      | Some owner \<Rightarrow>
          op_bind (swip_pid_of owner) (\<lambda>owner_pid.
          if owner_pid \<noteq> ct_pid ticket then op_return None else
          op_bind (load_swip owner) (\<lambda>st.
          if st \<noteq> Cooling (ct_resident ticket) then op_return None else
          op_bind (op_get (\<lambda>s. bm_pages s (ct_pid ticket))) (\<lambda>control.
          (case control of
             None \<Rightarrow> op_return None
           | Some pc \<Rightarrow> op_return (if pc_swip pc = owner then Some owner else None))))))))))"

definition live_tier_info :: "('q, 't, 'p) env \<Rightarrow> ('q, 't, 'p) manager \<Rightarrow> tier_info list" where
  "live_tier_info E s =
     map (\<lambda>(index, tier). \<lparr>ti_index = index, ti_name = tb_name (en_tier E) tier,
            ti_price_gb_month = tb_price_gb_month (en_tier E) tier,
            ti_read_latency_us = f_of_nat (lp_read_us_p50 (tb_latency (en_tier E) tier)),
            ti_write_budget_remaining_bytes = map_option (\<lambda>b. unat (wb_available_bytes b)) (tb_write_budget (en_tier E) tier)\<rparr>)
       (zip [0..<length (bm_tiers s)] (bm_tiers s))"

text \<open>\<open>budget.try_consume\<close> through the reference that \<open>write_budget\<close> hands out.\<close>

definition tier_consume :: "('q, 't, 'p) env \<Rightarrow> u64 \<Rightarrow> 't \<Rightarrow> bool \<times> 't" where
  "tier_consume E bytes tier =
     (case tb_write_budget (en_tier E) tier of
        None \<Rightarrow> (True, tier)
      | Some b \<Rightarrow> (case try_consume bytes b of (ok, b') \<Rightarrow> (ok, tb_set_budget (en_tier E) b' tier)))"

text \<open>The loop over the tiers from the target on: the new location, or the last error.\<close>

fun demote_loop :: "('q, 't, 'p) env \<Rightarrow> nat \<Rightarrow> nat list \<Rightarrow> tierbuf_error option \<Rightarrow>
    (('q, 't, 'p) manager, location option \<times> tierbuf_error option) operation" where
  "demote_loop E index [] last_error = op_return (None, last_error)"
| "demote_loop E index (tier_index # rest) last_error =
     op_bind (on_tier tier_index (tier_consume E (word_of_nat PAGE_SIZE))) (\<lambda>granted.
     if \<not> granted
     then op_seq (bump record_budget_denied)
          (op_bind (op_get (\<lambda>s. tb_name (en_tier E) (bm_tiers s ! tier_index))) (\<lambda>name.
           demote_loop E index rest (Some (TierExhausted name))))
     else op_bind (on_frames (read_frame index)) (\<lambda>page.
          op_bind (on_tier tier_index (tb_write (en_tier E) page)) (\<lambda>written.
          (case written of
             oOk offset \<Rightarrow>
               op_seq (on_stats (record_tier_write tier_index (word_of_nat PAGE_SIZE)))
               (op_return (Some \<lparr>loc_tier_index = tier_index, loc_offset = offset\<rparr>, last_error))
           | oErr e \<Rightarrow> demote_loop E index rest (Some e)
           | oPanic m \<Rightarrow> op_panic m
           | oBlocks \<Rightarrow> op_blocks))))"

text \<open>What follows when the ticket is exact: write the page if it is dirty or has no backing.\<close>

definition evict_write_back :: "('q, 't, 'p) env \<Rightarrow> cooling_ticket \<Rightarrow> bool \<Rightarrow>
    (('q, 't, 'p) manager, location option \<times> tierbuf_error option) operation" where
  "evict_write_back E ticket needs_write =
     (if \<not> needs_write then op_return (None, None)
      else op_bind (on_meta (ct_frame_index ticket) (op_get (\<lambda>f. f))) (\<lambda>f.
           op_bind (op_get (\<lambda>s. s)) (\<lambda>s.
           (let n = length (bm_tiers s);
                start = (case po_demotion_target (en_policy E) (bm_policy s) f (live_tier_info E s) of
                           Some i \<Rightarrow> (if i < n then i else 0) | None \<Rightarrow> 0)
            in demote_loop E (ct_frame_index ticket) [start..<n] None))))"

definition evict_commit :: "('q, 't, 'p) env \<Rightarrow> cooling_ticket \<Rightarrow> handle \<Rightarrow> bool \<Rightarrow> location option \<Rightarrow> location option \<Rightarrow>
    (('q, 't, 'p) manager, eviction_outcome) operation" where
  "evict_commit E ticket owner was_dirty old_location new_location =
     (let index = ct_frame_index ticket in
      (case (case new_location of Some l \<Rightarrow> Some l | None \<Rightarrow> old_location) of
         None \<Rightarrow> op_panic ''dirty-or-unbacked eviction must write; clean eviction must have backing''
       | Some replacement \<Rightarrow>
      op_bind (case new_location of
                 None \<Rightarrow> op_return None
               | Some l \<Rightarrow> op_bind (on_directory (dir_insert (ct_pid ticket) l)) (\<lambda>prev. op_return (Some prev))) (\<lambda>replaced.
      op_seq (on_meta index (op_modify (set_dirty False)))
      (op_bind (cas_swip owner (\<lambda>c. try_unswizzle c (ct_resident ticket) (ct_pid ticket))) (\<lambda>unswizzled.
       if \<not> unswizzled
       then op_seq (case replaced of
                 None \<Rightarrow> op_return ()
               | Some previous \<Rightarrow>
                   op_seq (on_directory (dir_restore (ct_pid ticket) previous))
                   (if previous \<noteq> Some replacement
                    then op_bind (on_tier (loc_tier_index replacement) (tb_free (en_tier E) (loc_offset replacement))) op_outcome
                    else op_return ()))
            (op_seq (on_meta index (op_modify (set_dirty was_dirty)))
            (op_seq (cas_swip owner (\<lambda>c. try_resurrect c (ct_resident ticket)))
            (op_seq (on_meta index frame_drop_exclusive)
            (op_seq (on_meta index release_eviction)
            (op_return Stale)))))
       else op_seq (consume_prefetched (ct_pid ticket) (ct_resident ticket) (ct_generation ticket))
            (op_seq (on_meta index frame_drop_exclusive)
            (op_seq (on_meta index clear_after_eviction)
            (op_seq (on_meta index release_eviction)
            (op_bind (on_frames (push_free (en_queue E) index)) (\<lambda>pushed.
            op_seq (op_assert (pushed = Inr ()) ''an evicted frame must fit back in its free queue'')
            (op_seq (bump record_eviction)
            (op_bind (op_get (\<lambda>s. length (bm_tiers s))) (\<lambda>n.
            (case old_location of
               Some old \<Rightarrow>
                 (if old \<noteq> replacement \<and> new_location \<noteq> None \<and> loc_tier_index old < n
                  then op_seq (op_bind (on_tier (loc_tier_index old) (tb_free (en_tier E) (loc_offset old))) op_outcome)
                       (op_return Freed)
                  else op_return Freed)
             | None \<Rightarrow> op_return Freed))))))))))))))"

definition evict_ticket :: "('q, 't, 'p) env \<Rightarrow> cooling_ticket \<Rightarrow> (('q, 't, 'p) manager, eviction_outcome) operation" where
  "evict_ticket E ticket =
     (let index = ct_frame_index ticket in
      op_bind (exact_cooling_owner ticket) (\<lambda>exact.
      (case exact of
         None \<Rightarrow> op_return Stale
       | Some owner \<Rightarrow>
      op_bind (on_meta_bool index try_claim_eviction) (\<lambda>claimed.
      if \<not> claimed then op_return Busy else
      op_seq (on_meta index frame_lock_exclusive)
      (op_bind (exact_cooling_owner ticket) (\<lambda>observed.
       if observed \<noteq> Some owner
       then op_bind (frame_pid_of index) (\<lambda>pid.
            op_bind (on_meta index (op_get (\<lambda>f. f))) (\<lambda>f.
            op_seq (if pid = ct_pid ticket \<and> fr_generation f = ct_generation ticket \<and> fr_owner_swip f = Some owner
                    then op_seq (cas_swip owner (\<lambda>c. try_resurrect c (ct_resident ticket))) (op_return ())
                    else op_return ())
            (op_seq (on_meta index frame_drop_exclusive)
            (op_seq (on_meta index release_eviction)
            (op_return Stale)))))
       else op_bind (op_get (\<lambda>s. dir_backing (ct_pid ticket) (bm_directory s))) (\<lambda>old_location.
            op_bind (on_meta index (op_get fr_dirty)) (\<lambda>was_dirty.
            (let needs_write = (was_dirty \<or> old_location = None) in
             op_bind (evict_write_back E ticket needs_write) (\<lambda>(new_location, last_error).
             if needs_write \<and> new_location = None
             then op_seq (cas_swip owner (\<lambda>c. try_resurrect c (ct_resident ticket)))
                  (op_seq (on_meta index frame_drop_exclusive)
                  (op_seq (on_meta index release_eviction)
                  (op_bind (op_get (\<lambda>s. s)) (\<lambda>s.
                   op_fail (case last_error of
                              Some e \<Rightarrow> e
                            | None \<Rightarrow> TierExhausted (if bm_tiers s = [] then ''unknown''
                                                      else tb_name (en_tier E) (last (bm_tiers s))))))))
             else evict_commit E ticket owner was_dirty old_location new_location))))))))))"

section \<open>Acquiring a frame and the background cooler\<close>

text \<open>The inner loop of \<open>acquire_frame\<close>: up to \<open>attempts\<close> tickets; a frame, or the last error.\<close>

fun evict_attempts :: "('q, 't, 'p) env \<Rightarrow> nat \<Rightarrow> tierbuf_error option \<Rightarrow>
    (('q, 't, 'p) manager, nat option \<times> tierbuf_error option) operation" where
  "evict_attempts E 0 last_error = op_return (None, last_error)"
| "evict_attempts E (Suc n) last_error =
     op_bind (op_lift bm_cooling (\<lambda>c s. s\<lparr>bm_cooling := c\<rparr>) (\<lambda>q. case cooling_pop q of (t, q') \<Rightarrow> (oOk t, q'))) (\<lambda>popped.
     (case popped of
        None \<Rightarrow> op_return (None, last_error)
      | Some ticket \<Rightarrow>
          op_bind (op_try (evict_ticket E ticket)) (\<lambda>r.
          (case r of
             Inl error \<Rightarrow> evict_attempts E n (Some error)
           | Inr Freed \<Rightarrow>
               op_bind (on_frames (pop_free (en_queue E))) (\<lambda>free.
               (case free of
                  Some index \<Rightarrow> op_bind (free_frame_from_index index) (\<lambda>i. op_return (Some i, last_error))
                | None \<Rightarrow> evict_attempts E n last_error))
           | Inr Busy \<Rightarrow>
               op_seq (op_modify (\<lambda>s. s\<lparr>bm_cooling := push_unique ticket (bm_cooling s)\<rparr>)) (evict_attempts E n last_error)
           | Inr Stale \<Rightarrow> evict_attempts E n last_error))))"

fun acquire_windows :: "('q, 't, 'p) env \<Rightarrow> nat \<Rightarrow> tierbuf_error option \<Rightarrow> (('q, 't, 'p) manager, nat) operation" where
  "acquire_windows E 0 last_error = op_fail (case last_error of None \<Rightarrow> PoolExhausted | Some e \<Rightarrow> e)"
| "acquire_windows E (Suc n) last_error =
     op_seq ensure_running
     (op_bind (on_frames (pop_free (en_queue E))) (\<lambda>free.
      (case free of
         Some index \<Rightarrow> free_frame_from_index index
       | None \<Rightarrow>
           op_seq (enqueue_cold_candidates True)
           (op_bind (op_get (\<lambda>s. cooling_len (bm_cooling s))) (\<lambda>attempts.
            op_bind (evict_attempts E attempts last_error) (\<lambda>(got, last_error').
            (case got of Some index \<Rightarrow> op_return index | None \<Rightarrow> acquire_windows E n last_error')))))))"

definition acquire_frame :: "('q, 't, 'p) env \<Rightarrow> (('q, 't, 'p) manager, nat) operation" where
  "acquire_frame E =
     op_seq ensure_running
     (op_bind (on_frames (pop_free (en_queue E))) (\<lambda>free.
      (case free of
         Some index \<Rightarrow> free_frame_from_index index
       | None \<Rightarrow>
           op_seq (op_modify (\<lambda>s. s\<lparr>bm_exhausted_frame_request := True\<rparr>))
           (op_seq notify_cooler
           (op_bind (op_get (\<lambda>s. div_ceil (frame_count (bm_frames s)) MAX_COOLING_SAMPLE)) (\<lambda>windows.
            acquire_windows E (windows + 2) None))))))"

fun cooler_attempts :: "('q, 't, 'p) env \<Rightarrow> nat \<Rightarrow> (('q, 't, 'p) manager, unit) operation" where
  "cooler_attempts E 0 = op_return ()"
| "cooler_attempts E (Suc n) =
     op_bind (op_get (\<lambda>s. s)) (\<lambda>s.
     if bm_low_watermark s \<le> free_count (en_queue E) (bm_frames s) then op_return () else
     op_bind (op_lift bm_cooling (\<lambda>c s. s\<lparr>bm_cooling := c\<rparr>) (\<lambda>q. case cooling_pop q of (t, q') \<Rightarrow> (oOk t, q'))) (\<lambda>popped.
     (case popped of
        None \<Rightarrow> op_return ()
      | Some ticket \<Rightarrow>
          op_bind (op_try (evict_ticket E ticket)) (\<lambda>r.
          op_seq (op_when (r = Inr Busy) (op_modify (\<lambda>s. s\<lparr>bm_cooling := push_unique ticket (bm_cooling s)\<rparr>)))
          (cooler_attempts E n)))))"

definition background_cooling_step :: "('q, 't, 'p) env \<Rightarrow> (('q, 't, 'p) manager, unit) operation" where
  "background_cooling_step E =
     op_bind (op_get (\<lambda>s. s)) (\<lambda>s.
     if bm_stopping s \<or> bm_low_watermark s \<le> free_count (en_queue E) (bm_frames s) \<or> bm_cooling_target s = 0
     then op_return ()
     else op_seq (op_modify (\<lambda>s. s\<lparr>bm_exhausted_frame_request := False\<rparr>))
       (if bm_eviction_mode s = Demand \<and> bm_fault_ins_this_epoch s = 0 \<and> \<not> bm_exhausted_frame_request s
        then op_return ()
        else op_seq (op_when (cooling_len (bm_cooling s) < bm_cooling_target s) (enqueue_cold_candidates False))
             (op_bind (op_get (\<lambda>s. cooling_len (bm_cooling s))) (\<lambda>attempts. cooler_attempts E attempts))))"

end
