(* ===== verification/Bench_Config.thy ===== *)
theory Bench_Config
  imports Buffer_Pool
begin

text \<open>
  The configuration of the benchmark driver and its command line
  (src/crates/tierbuf-bench/src/main.rs).  Errors are the messages of the code; durations are
  nanoseconds; paths are strings; \<open>usize\<close> has 64 bits.  The parsers of the standard library that
  the code calls (\<open>str::parse\<close> for integers and for \<open>f64\<close>, \<open>Duration::try_from_secs_f64\<close>) are
  modelled by their documented grammar and rounding.
\<close>

section \<open>Numbers\<close>

definition digit_value :: "char \<Rightarrow> nat option" where
  "digit_value c = (let n = of_char c in if 48 \<le> n \<and> n \<le> 57 then Some (n - 48) else None)"

fun parse_digits :: "nat \<Rightarrow> string \<Rightarrow> nat option" where
  "parse_digits acc [] = Some acc"
| "parse_digits acc (c # cs) =
     (case digit_value c of
        None \<Rightarrow> None
      | Some d \<Rightarrow> (if acc * 10 + d < 2 ^ 64 then parse_digits (acc * 10 + d) cs else None))"

definition u64_from_str :: "string \<Rightarrow> nat option" where
  "u64_from_str s =
     (case s of
        [] \<Rightarrow> None
      | c # cs \<Rightarrow> (if c = CHR ''+'' then (if cs = [] then None else parse_digits 0 cs) else parse_digits 0 s))"

definition quoted :: "string \<Rightarrow> string" where
  "quoted s = [CHR 0x27] @ s @ [CHR 0x27]"

definition parse_u64 :: "string \<Rightarrow> string \<Rightarrow> string + nat" where
  "parse_u64 value flag =
     (case u64_from_str value of
        Some n \<Rightarrow> Inr n
      | None \<Rightarrow> Inl (flag @ '' expects a non-negative integer, got '' @ quoted value))"

definition parse_usize :: "string \<Rightarrow> string \<Rightarrow> string + nat" where
  "parse_usize value flag =
     (case u64_from_str value of
        Some n \<Rightarrow> Inr n
      | None \<Rightarrow> Inl (flag @ '' expects a non-negative integer, got '' @ quoted value))"

text \<open>
  \<open>f64::from_str\<close>: an optional sign, then \<open>inf\<close>, \<open>infinity\<close> or \<open>nan\<close> in any case, or digits with an
  optional point and an optional exponent; the value is rounded once.
\<close>

definition is_digit :: "char \<Rightarrow> bool" where
  "is_digit c \<longleftrightarrow> digit_value c \<noteq> None"

definition digits_value :: "string \<Rightarrow> nat" where
  "digits_value ds = foldl (\<lambda>acc c. acc * 10 + the (digit_value c)) 0 ds"

definition to_lower :: "char \<Rightarrow> char" where
  "to_lower c = (let n = of_char c :: nat in if 65 \<le> n \<and> n \<le> 90 then char_of (n + 32) else c)"

definition split_sign :: "string \<Rightarrow> bool \<times> string" where
  "split_sign s =
     (case s of
        [] \<Rightarrow> (False, [])
      | c # cs \<Rightarrow> (if c = CHR ''-'' then (True, cs) else if c = CHR ''+'' then (False, cs) else (False, s)))"

definition parse_exponent :: "string \<Rightarrow> int option" where
  "parse_exponent s =
     (case s of
        [] \<Rightarrow> Some 0
      | c # cs \<Rightarrow>
          (if to_lower c = CHR ''e''
           then (case split_sign cs of (negative, ds) \<Rightarrow>
                   (if ds \<noteq> [] \<and> list_all is_digit ds
                    then Some (if negative then - int (digits_value ds) else int (digits_value ds)) else None))
           else None))"

definition parse_number :: "bool \<Rightarrow> string \<Rightarrow> f64 option" where
  "parse_number negative s =
     (let whole = takeWhile is_digit s;
          rest = dropWhile is_digit s;
          (fraction, rest) = (case rest of
              [] \<Rightarrow> ([], rest)
            | c # cs \<Rightarrow> (if c = CHR ''.'' then (takeWhile is_digit cs, dropWhile is_digit cs) else ([], rest)))
      in if whole = [] \<and> fraction = [] then None
         else map_option (\<lambda>e. f_round negative (of_nat (digits_value (whole @ fraction)) * 10 powi (e - int (length fraction))))
                (parse_exponent rest))"

definition f64_from_str :: "string \<Rightarrow> f64 option" where
  "f64_from_str s =
     (case split_sign s of (negative, body) \<Rightarrow>
        (let lower = map to_lower body in
         if lower = ''inf'' \<or> lower = ''infinity'' then Some (F_Inf negative)
         else if lower = ''nan'' then Some F_NaN
         else parse_number negative body))"

text \<open>\<open>Duration::try_from_secs_f64\<close>: the nearest nanosecond, ties to even.\<close>

fun try_from_secs_f64 :: "f64 \<Rightarrow> nat option" where
  "try_from_secs_f64 (F_Fin s q) =
     (if s \<and> q \<noteq> 0 \<or> 2 ^ 64 \<le> q then None else Some (nat (round_even (q * 10 ^ 9))))"
| "try_from_secs_f64 _ = None"

definition parse_duration :: "string \<Rightarrow> string \<Rightarrow> string + nat" where
  "parse_duration value flag =
     (case f64_from_str value of
        None \<Rightarrow> Inl (flag @ '' expects seconds as a number, got '' @ quoted value)
      | Some seconds \<Rightarrow>
          (if \<not> f_is_finite seconds \<or> f_le seconds f_zero then Inl (flag @ '' must be finite and greater than zero'')
           else (case try_from_secs_f64 seconds of
                   None \<Rightarrow> Inl (flag @ '' is outside the supported duration range'')
                 | Some d \<Rightarrow> Inr d)))"

section \<open>Fractions and the configuration\<close>

record dram_fraction =
  df_tenths :: nat

definition fraction_new :: "nat \<Rightarrow> dram_fraction" where
  "fraction_new tenths = \<lparr>df_tenths = tenths\<rparr>"

definition fraction_label :: "dram_fraction \<Rightarrow> string" where
  "fraction_label f = nat_str (df_tenths f div 10) @ ''.'' @ nat_str (df_tenths f mod 10)"

definition dram_pages :: "dram_fraction \<Rightarrow> nat \<Rightarrow> string + nat" where
  "dram_pages f dataset_pages =
     (case checked_mul_u64 dataset_pages (df_tenths f) of
        Some pages \<Rightarrow> Inr (max (pages div 10) 1)
      | None \<Rightarrow> Inl ''DRAM page count overflowed usize'')"

definition DRAM_FRACTIONS :: "dram_fraction list" where
  "DRAM_FRACTIONS = map fraction_new [10, 8, 6, 4, 2, 1]"

definition MIB :: nat where "MIB = 1024 * 1024"
definition DEFAULT_DATASET_MIB :: nat where "DEFAULT_DATASET_MIB = 4 * 1024"
definition DEFAULT_WARMUP :: nat where "DEFAULT_WARMUP = 10 * 10 ^ 9"
definition DEFAULT_MEASUREMENT :: nat where "DEFAULT_MEASUREMENT = 30 * 10 ^ 9"
definition DEFAULT_WORKERS :: nat where "DEFAULT_WORKERS = 4"
definition DEFAULT_MOCK_LATENCY_US :: nat where "DEFAULT_MOCK_LATENCY_US = 80"
definition DEFAULT_OUTPUT :: string where "DEFAULT_OUTPUT = ''results/curve.csv''"
definition DEFAULT_STATS_OUTPUT :: string where "DEFAULT_STATS_OUTPUT = ''results/stats.json''"

record dataset_layout =
  dl_page_count :: nat
  dl_tier_capacity_bytes :: nat

record config =
  cf_dataset_mib :: nat
  cf_warmup :: nat
  cf_measurement :: nat
  cf_workers :: nat
  cf_mock_latency_us :: nat
  cf_prefetch_scan :: bool
  cf_scan_only :: bool
  cf_file_tier :: "string option"
  cf_output :: string
  cf_stats_output :: string
  cf_fractions :: "dram_fraction list"
  cf_eviction_mode :: eviction_mode

definition config_default :: config where
  "config_default =
     \<lparr>cf_dataset_mib = DEFAULT_DATASET_MIB, cf_warmup = DEFAULT_WARMUP, cf_measurement = DEFAULT_MEASUREMENT,
      cf_workers = DEFAULT_WORKERS, cf_mock_latency_us = DEFAULT_MOCK_LATENCY_US, cf_prefetch_scan = False, cf_scan_only = False,
      cf_file_tier = None, cf_output = DEFAULT_OUTPUT, cf_stats_output = DEFAULT_STATS_OUTPUT,
      cf_fractions = DRAM_FRACTIONS, cf_eviction_mode = Demand\<rparr>"

definition config_quick :: config where
  "config_quick = config_default\<lparr>cf_dataset_mib := 256, cf_warmup := 1 * 10 ^ 9, cf_measurement := 5 * 10 ^ 9\<rparr>"

definition config_ci :: config where
  "config_ci = config_default\<lparr>cf_dataset_mib := 32, cf_warmup := 100 * 10 ^ 6, cf_measurement := 500 * 10 ^ 6\<rparr>"

definition dataset_layout_of :: "config \<Rightarrow> string + dataset_layout" where
  "dataset_layout_of c =
     (case checked_mul_u64 (cf_dataset_mib c) MIB of
        None \<Rightarrow> Inl ''--dataset-mib is too large''
      | Some dataset_bytes \<Rightarrow>
     (case checked_mul_u64 dataset_bytes 2 of
        None \<Rightarrow> Inl ''--dataset-mib is too large for a 2x MockTier''
      | Some tier_capacity_bytes \<Rightarrow>
          (let page_count = dataset_bytes div PAGE_SIZE in
           if page_count = 0 \<or> dataset_bytes mod PAGE_SIZE \<noteq> 0
           then Inl ''--dataset-mib must describe at least one complete tierbuf page''
           else Inr \<lparr>dl_page_count = page_count, dl_tier_capacity_bytes = tier_capacity_bytes\<rparr>)))"

definition config_validate :: "config \<Rightarrow> string + unit" where
  "config_validate c =
     (if cf_dataset_mib c = 0 then Inl ''--dataset-mib must be greater than zero''
      else if cf_warmup c = 0 then Inl ''--warmup-secs must be greater than zero''
      else if cf_measurement c = 0 then Inl ''--measure-secs must be greater than zero''
      else if cf_workers c = 0 then Inl ''--workers must be greater than zero''
      else if cf_output c = [] then Inl ''--output must not be empty''
      else if cf_stats_output c = [] then Inl ''--stats-output must not be empty''
      else if cf_fractions c = [] then Inl ''at least one DRAM fraction must be selected''
      else if cf_file_tier c = Some [] then Inl ''--file-tier must not be empty''
      else (case dataset_layout_of c of Inl e \<Rightarrow> Inl e | Inr _ \<Rightarrow> Inr ()))"

section \<open>The command line\<close>

datatype profile = Quick | Ci

datatype cli_action = Help | Run config

definition parse_fraction :: "string \<Rightarrow> string \<Rightarrow> string + dram_fraction" where
  "parse_fraction value flag =
     (case find (\<lambda>f. fraction_label f = value) DRAM_FRACTIONS of
        Some f \<Rightarrow> Inr f
      | None \<Rightarrow> Inl (flag @ '' expects one of 1.0, 0.8, 0.6, 0.4, 0.2, or 0.1; got '' @ quoted value))"

definition parse_eviction_mode :: "string \<Rightarrow> string \<Rightarrow> string + eviction_mode" where
  "parse_eviction_mode value flag =
     (if value = ''demand'' then Inr Demand
      else if value = ''watermark'' then Inr Watermark
      else Inl (flag @ '' expects '' @ quoted ''demand'' @ '' or '' @ quoted ''watermark'' @ ''; got '' @ quoted value))"

definition set_profile :: "profile option \<Rightarrow> profile \<Rightarrow> string + profile option" where
  "set_profile selected requested =
     (case selected of
        Some current \<Rightarrow> (if current \<noteq> requested then Inl ''--quick and --ci are mutually exclusive'' else Inr (Some requested))
      | None \<Rightarrow> Inr (Some requested))"

text \<open>The local variables of \<open>parse_cli\<close>.\<close>

record cli =
  cl_profile :: "profile option"
  cl_dataset_mib :: "nat option"
  cl_warmup :: "nat option"
  cl_measurement :: "nat option"
  cl_workers :: "nat option"
  cl_mock_latency_us :: "nat option"
  cl_prefetch_scan :: bool
  cl_scan_only :: bool
  cl_file_tier :: "string option"
  cl_output :: "string option"
  cl_stats_output :: "string option"
  cl_fraction :: "dram_fraction option"
  cl_eviction_mode :: "eviction_mode option"

definition cli_empty :: cli where
  "cli_empty =
     \<lparr>cl_profile = None, cl_dataset_mib = None, cl_warmup = None, cl_measurement = None, cl_workers = None,
      cl_mock_latency_us = None, cl_prefetch_scan = False, cl_scan_only = False, cl_file_tier = None, cl_output = None,
      cl_stats_output = None, cl_fraction = None, cl_eviction_mode = None\<rparr>"

definition split_once :: "string \<Rightarrow> string \<times> string option" where
  "split_once argument =
     (case dropWhile (\<lambda>c. c \<noteq> CHR ''='') argument of
        [] \<Rightarrow> (argument, None)
      | _ # value \<Rightarrow> (takeWhile (\<lambda>c. c \<noteq> CHR ''='') argument, Some value))"

text \<open>The closure \<open>next_value\<close>: the inline value, else the next argument.\<close>

definition next_value :: "string \<Rightarrow> string option \<Rightarrow> string list \<Rightarrow> string + string \<times> string list" where
  "next_value flag inline_value arguments =
     (case inline_value of
        Some value \<Rightarrow> Inr (value, arguments)
      | None \<Rightarrow> (case arguments of
                    [] \<Rightarrow> Inl (flag @ '' requires a value'')
                  | value # arguments' \<Rightarrow> Inr (value, arguments')))"

text \<open>One option with a value: fetch, parse and store it.\<close>

definition with_value :: "string \<Rightarrow> string option \<Rightarrow> string list \<Rightarrow> (string \<Rightarrow> string \<Rightarrow> string + 'a) \<Rightarrow> ('a \<Rightarrow> cli) \<Rightarrow>
    string + cli \<times> string list" where
  "with_value flag inline_value arguments parse store =
     (case next_value flag inline_value arguments of
        Inl e \<Rightarrow> Inl e
      | Inr (value, arguments') \<Rightarrow>
          (case parse value flag of Inl e \<Rightarrow> Inl e | Inr v \<Rightarrow> Inr (store v, arguments')))"

definition parse_option :: "string \<Rightarrow> string list \<Rightarrow> cli \<Rightarrow> string + cli \<times> string list" where
  "parse_option argument arguments c =
     (case split_once argument of (flag, inline_value) \<Rightarrow>
        (if flag = ''--dataset-mib''
         then with_value flag inline_value arguments parse_u64 (\<lambda>v. c\<lparr>cl_dataset_mib := Some v\<rparr>)
         else if flag = ''--warmup-secs''
         then with_value flag inline_value arguments parse_duration (\<lambda>v. c\<lparr>cl_warmup := Some v\<rparr>)
         else if flag = ''--measure-secs''
         then with_value flag inline_value arguments parse_duration (\<lambda>v. c\<lparr>cl_measurement := Some v\<rparr>)
         else if flag = ''--workers''
         then with_value flag inline_value arguments parse_usize (\<lambda>v. c\<lparr>cl_workers := Some v\<rparr>)
         else if flag = ''--mock-latency-us''
         then with_value flag inline_value arguments parse_u64 (\<lambda>v. c\<lparr>cl_mock_latency_us := Some v\<rparr>)
         else if flag = ''--file-tier''
         then with_value flag inline_value arguments (\<lambda>v _. Inr v) (\<lambda>v. c\<lparr>cl_file_tier := Some v\<rparr>)
         else if flag = ''--output''
         then with_value flag inline_value arguments (\<lambda>v _. Inr v) (\<lambda>v. c\<lparr>cl_output := Some v\<rparr>)
         else if flag = ''--stats-output''
         then with_value flag inline_value arguments (\<lambda>v _. Inr v) (\<lambda>v. c\<lparr>cl_stats_output := Some v\<rparr>)
         else if flag = ''--fraction''
         then (if cl_fraction c \<noteq> None then Inl ''--fraction may be specified only once''
               else with_value flag inline_value arguments parse_fraction (\<lambda>v. c\<lparr>cl_fraction := Some v\<rparr>))
         else if flag = ''--eviction-mode''
         then with_value flag inline_value arguments parse_eviction_mode (\<lambda>v. c\<lparr>cl_eviction_mode := Some v\<rparr>)
         else Inl (''unknown argument '' @ quoted argument @ ''; use --help for usage'')))"

lemma with_value_shorter: "with_value flag inline_value arguments p st = Inr (c, arguments') \<Longrightarrow> length arguments' \<le> length arguments"
  by (auto simp: with_value_def next_value_def split: sum.splits option.splits list.splits)

lemma parse_option_shorter: "parse_option argument arguments c = Inr (c', arguments') \<Longrightarrow> length arguments' \<le> length arguments"
  by (auto simp: parse_option_def dest!: with_value_shorter split: prod.splits if_splits)

text \<open>The loop over the arguments: \<open>Inr None\<close> is the early return for help.\<close>

function parse_loop :: "cli \<Rightarrow> string list \<Rightarrow> string + cli option" where
  "parse_loop c [] = Inr (Some c)"
| "parse_loop c (argument # arguments) =
     (if argument = ''-h'' \<or> argument = ''--help'' then Inr None
      else if argument = ''--quick''
      then (case set_profile (cl_profile c) Quick of Inl e \<Rightarrow> Inl e | Inr p \<Rightarrow> parse_loop (c\<lparr>cl_profile := p\<rparr>) arguments)
      else if argument = ''--ci''
      then (case set_profile (cl_profile c) Ci of Inl e \<Rightarrow> Inl e | Inr p \<Rightarrow> parse_loop (c\<lparr>cl_profile := p\<rparr>) arguments)
      else if argument = ''--prefetch-scan'' then parse_loop (c\<lparr>cl_prefetch_scan := True\<rparr>) arguments
      else if argument = ''--scan-only'' then parse_loop (c\<lparr>cl_scan_only := True\<rparr>) arguments
      else (case parse_option argument arguments c of
              Inl e \<Rightarrow> Inl e
            | Inr (c', arguments') \<Rightarrow> parse_loop c' arguments'))"
  by pat_completeness auto
termination
  by (relation "measure (\<lambda>(c, arguments). length arguments)") (auto dest!: parse_option_shorter)

text \<open>\<open>if let Some(value) = option { config.field = value }\<close>.\<close>

definition override :: "'a option \<Rightarrow> ('a \<Rightarrow> config \<Rightarrow> config) \<Rightarrow> config \<Rightarrow> config" where
  "override choice assign config = (case choice of Some v \<Rightarrow> assign v config | None \<Rightarrow> config)"

definition cli_config :: "cli \<Rightarrow> config" where
  "cli_config c =
     (let config = (case cl_profile c of Some Quick \<Rightarrow> config_quick | Some Ci \<Rightarrow> config_ci | None \<Rightarrow> config_default);
          config = override (cl_dataset_mib c) (\<lambda>v r. r\<lparr>cf_dataset_mib := v\<rparr>) config;
          config = override (cl_warmup c) (\<lambda>v r. r\<lparr>cf_warmup := v\<rparr>) config;
          config = override (cl_measurement c) (\<lambda>v r. r\<lparr>cf_measurement := v\<rparr>) config;
          config = override (cl_workers c) (\<lambda>v r. r\<lparr>cf_workers := v\<rparr>) config;
          config = override (cl_mock_latency_us c) (\<lambda>v r. r\<lparr>cf_mock_latency_us := v\<rparr>) config;
          config = config\<lparr>cf_prefetch_scan := cl_prefetch_scan c, cf_scan_only := cl_scan_only c\<rparr>;
          config = override (cl_file_tier c) (\<lambda>v r. r\<lparr>cf_file_tier := Some v\<rparr>) config;
          config = override (cl_output c) (\<lambda>v r. r\<lparr>cf_output := v\<rparr>) config;
          config = override (cl_stats_output c) (\<lambda>v r. r\<lparr>cf_stats_output := v\<rparr>) config;
          config = override (cl_fraction c) (\<lambda>v r. r\<lparr>cf_fractions := [v]\<rparr>) config
      in override (cl_eviction_mode c) (\<lambda>v r. r\<lparr>cf_eviction_mode := v\<rparr>) config)"

definition parse_cli :: "string list \<Rightarrow> string + cli_action" where
  "parse_cli arguments =
     (case parse_loop cli_empty arguments of
        Inl e \<Rightarrow> Inl e
      | Inr None \<Rightarrow> Inr Help
      | Inr (Some c) \<Rightarrow>
          (case config_validate (cli_config c) of Inl e \<Rightarrow> Inl e | Inr _ \<Rightarrow> Inr (Run (cli_config c))))"

section \<open>Every accepted configuration can run\<close>

lemma with_value_cli:
  assumes "with_value flag inline_value arguments p st = Inr (c, arguments')"
  obtains v x where "p x flag = Inr v" "c = st v"
  using assms by (auto simp: with_value_def split: sum.splits prod.splits)

lemma parse_fraction_listed: "parse_fraction value flag = Inr f \<Longrightarrow> f \<in> set DRAM_FRACTIONS"
  by (auto simp: parse_fraction_def find_Some_iff split: option.splits)

definition fraction_listed :: "cli \<Rightarrow> bool" where
  "fraction_listed c \<longleftrightarrow> (\<forall>f. cl_fraction c = Some f \<longrightarrow> f \<in> set DRAM_FRACTIONS)"

lemma parse_option_listed:
  "parse_option argument arguments c = Inr (c', arguments') \<Longrightarrow> fraction_listed c \<Longrightarrow> fraction_listed c'"
  by (auto simp: parse_option_def fraction_listed_def parse_fraction_listed elim!: with_value_cli split: prod.splits if_splits)

lemma fraction_listed_update [simp]:
  "fraction_listed (c\<lparr>cl_profile := p\<rparr>) = fraction_listed c" "fraction_listed (c\<lparr>cl_prefetch_scan := b\<rparr>) = fraction_listed c"
  "fraction_listed (c\<lparr>cl_scan_only := b\<rparr>) = fraction_listed c"
  by (simp_all add: fraction_listed_def)

lemma parse_loop_listed: "parse_loop c arguments = Inr (Some c') \<Longrightarrow> fraction_listed c \<Longrightarrow> fraction_listed c'"
proof (induction c arguments rule: parse_loop.induct)
  case (2 c argument arguments)
  show ?case
  proof (cases "argument \<in> {''-h'', ''--help'', ''--quick'', ''--ci'', ''--prefetch-scan'', ''--scan-only''}")
    case True
    then consider "argument = ''-h'' \<or> argument = ''--help''" | "argument = ''--quick''" | "argument = ''--ci''"
      | "argument = ''--prefetch-scan''" | "argument = ''--scan-only''"
      unfolding insert_iff empty_iff by meson
    then show ?thesis
    proof cases
      case 1
      then show ?thesis using "2.prems"(1) by auto
    next
      case a: 2
      then obtain p where "set_profile (cl_profile c) Quick = Inr p" "parse_loop (c\<lparr>cl_profile := p\<rparr>) arguments = Inr (Some c')"
        using "2.prems"(1) by (auto split: sum.splits)
      then show ?thesis using "2.IH"(1)[of p] "2.prems"(2) a by simp
    next
      case a: 3
      then obtain p where "set_profile (cl_profile c) Ci = Inr p" "parse_loop (c\<lparr>cl_profile := p\<rparr>) arguments = Inr (Some c')"
        using "2.prems"(1) by (auto split: sum.splits)
      then show ?thesis using "2.IH"(2)[of p] "2.prems"(2) a by simp
    next
      case a: 4
      then show ?thesis using "2.IH"(3) "2.prems" by simp
    next
      case a: 5
      then show ?thesis using "2.IH"(4) "2.prems" by simp
    qed
  next
    case False
    then obtain c1 rest where o: "parse_option argument arguments c = Inr (c1, rest)" "parse_loop c1 rest = Inr (Some c')"
      using "2.prems"(1) by (simp split: sum.splits prod.splits)
    have "fraction_listed c1" using parse_option_listed[OF o(1) "2.prems"(2)] .
    then show ?thesis using "2.IH"(5)[OF _ _ _ _ _ o(1) refl o(2)] False by simp
  qed
qed simp

lemma override_Some [simp]: "override (Some v) assign c = assign v c" "override None assign c = c"
  by (simp_all add: override_def)

lemma override_fractions:
  "cf_fractions (override x0 (\<lambda>v r. r\<lparr>cf_dataset_mib := v\<rparr>) c) = cf_fractions c"
  "cf_fractions (override x1 (\<lambda>v r. r\<lparr>cf_warmup := v\<rparr>) c) = cf_fractions c"
  "cf_fractions (override x2 (\<lambda>v r. r\<lparr>cf_measurement := v\<rparr>) c) = cf_fractions c"
  "cf_fractions (override x3 (\<lambda>v r. r\<lparr>cf_workers := v\<rparr>) c) = cf_fractions c"
  "cf_fractions (override x4 (\<lambda>v r. r\<lparr>cf_mock_latency_us := v\<rparr>) c) = cf_fractions c"
  "cf_fractions (override x5 (\<lambda>v r. r\<lparr>cf_output := v\<rparr>) c) = cf_fractions c"
  "cf_fractions (override x6 (\<lambda>v r. r\<lparr>cf_stats_output := v\<rparr>) c) = cf_fractions c"
  "cf_fractions (override x7 (\<lambda>v r. r\<lparr>cf_eviction_mode := v\<rparr>) c) = cf_fractions c"
  "cf_fractions (override y (\<lambda>v r. r\<lparr>cf_file_tier := Some v\<rparr>) c) = cf_fractions c"
  by (simp_all add: override_def split: option.splits)

lemma cli_config_fractions: "cf_fractions (cli_config c) = (case cl_fraction c of Some f \<Rightarrow> [f] | None \<Rightarrow> DRAM_FRACTIONS)"
proof -
  have base: "cf_fractions (case cl_profile c of Some Quick \<Rightarrow> config_quick | Some Ci \<Rightarrow> config_ci | None \<Rightarrow> config_default) = DRAM_FRACTIONS"
    by (simp add: config_quick_def config_ci_def config_default_def split: option.splits profile.splits)
  show ?thesis by (cases "cl_fraction c") (simp_all add: cli_config_def Let_def override_fractions base)
qed

lemma dataset_layout_bounds:
  assumes "dataset_layout_of c = Inr layout"
  shows "dl_page_count layout * PAGE_SIZE = cf_dataset_mib c * MIB" "dl_tier_capacity_bytes layout = 2 * (dl_page_count layout * PAGE_SIZE)"
    "0 < dl_page_count layout" "dl_page_count layout * PAGE_SIZE < 2 ^ 63"
  using assms by (auto simp: dataset_layout_of_def checked_mul_u64_def Let_def mult.commute split: if_splits option.splits)

lemma dram_pages_bounds:
  assumes "f \<in> set DRAM_FRACTIONS" "0 < n" "n * PAGE_SIZE < 2 ^ 63"
  shows "\<exists>k. dram_pages f n = Inr k \<and> 1 \<le> k \<and> k \<le> n \<and> k * PAGE_SIZE < 2 ^ 63"
proof -
  have t: "df_tenths f \<le> 10" using assms(1) by (auto simp: DRAM_FRACTIONS_def fraction_new_def)
  have "n * df_tenths f \<le> n * 10" using t by (rule mult_le_mono2)
  also have n: "n < 2 ^ 63 div 65536 + 1" using assms(3) by (simp add: PAGE_SIZE_def)
  finally have "n * df_tenths f < 2 ^ 64" by simp
  then have "dram_pages f n = Inr (max (n * df_tenths f div 10) 1)" by (simp add: dram_pages_def checked_mul_u64_def)
  moreover have k: "max (n * df_tenths f div 10) 1 \<le> n"
    using div_le_mono[OF mult_le_mono2[OF t, of n], of 10] assms(2) by simp
  moreover have "max (n * df_tenths f div 10) 1 * PAGE_SIZE \<le> n * PAGE_SIZE" using k by (rule mult_le_mono1)
  ultimately show ?thesis using le_less_trans[OF _ assms(3)] max.cobounded2 by blast
qed

text \<open>
  A command line that the driver accepts gives a configuration with positive durations and
  worker count whose dataset is a positive number of whole pages, whose tier holds it twice, and for
  each of whose fractions the pool size is computed without overflow, between one page and the dataset.
\<close>

lemma cli_runnable:
  assumes "parse_cli arguments = Inr (Run c)"
  shows "\<exists>layout. dataset_layout_of c = Inr layout \<and> 0 < dl_page_count layout \<and> dl_page_count layout * PAGE_SIZE = cf_dataset_mib c * MIB
    \<and> dl_tier_capacity_bytes layout = 2 * (dl_page_count layout * PAGE_SIZE) \<and> dl_tier_capacity_bytes layout < 2 ^ 64
    \<and> cf_fractions c \<noteq> [] \<and> 0 < cf_warmup c \<and> 0 < cf_measurement c \<and> 0 < cf_workers c
    \<and> (\<forall>f \<in> set (cf_fractions c). \<exists>k. dram_pages f (dl_page_count layout) = Inr k \<and> 1 \<le> k \<and> k \<le> dl_page_count layout \<and> k * PAGE_SIZE < 2 ^ 63)"
proof -
  obtain cl where cl: "parse_loop cli_empty arguments = Inr (Some cl)" "c = cli_config cl" and v: "config_validate c = Inr ()"
    using assms by (auto simp: parse_cli_def split: sum.splits option.splits)
  have "fraction_listed cl" using parse_loop_listed[OF cl(1)] by (simp add: fraction_listed_def cli_empty_def)
  then have fs: "set (cf_fractions c) \<subseteq> set DRAM_FRACTIONS" unfolding cl(2) cli_config_fractions
    by (auto simp: fraction_listed_def split: option.splits)
  obtain layout where l: "dataset_layout_of c = Inr layout" and p: "cf_fractions c \<noteq> []" "0 < cf_warmup c" "0 < cf_measurement c" "0 < cf_workers c"
    using v by (auto simp: config_validate_def split: if_splits sum.splits)
  note B = dataset_layout_bounds[OF l]
  have "\<forall>f \<in> set (cf_fractions c). \<exists>k. dram_pages f (dl_page_count layout) = Inr k \<and> 1 \<le> k \<and> k \<le> dl_page_count layout \<and> k * PAGE_SIZE < 2 ^ 63"
    using dram_pages_bounds[OF _ B(3,4)] fs by blast
  moreover have "dl_tier_capacity_bytes layout < 2 ^ 64" unfolding B(2) using B(4) by (simp add: mult.commute)
  ultimately show ?thesis using B l p by blast
qed

section \<open>Numbers that were printed parse back\<close>

lemma digit_value_char: "d < 10 \<Longrightarrow> digit_value (char_of (48 + d)) = Some d"
  by (simp add: digit_value_def Let_def)

lemma nat_str_digits: "nat_str n \<noteq> [] \<and> list_all is_digit (nat_str n) \<and> digits_value (nat_str n) = n"
proof (induction n rule: nat_str.induct)
  case (1 n)
  show ?case
  proof (cases "n < 10")
    case True
    then show ?thesis using digit_value_char[of n] by (subst (1 2 3) nat_str.simps) (simp add: is_digit_def digits_value_def)
  next
    case False
    then show ?thesis using 1[OF False] digit_value_char[of "n mod 10"]
      by (subst (1 2 3) nat_str.simps) (simp add: is_digit_def[of "char_of _"] digits_value_def)
  qed
qed

lemma foldl_digits_mono: "acc \<le> foldl (\<lambda>acc c. acc * 10 + the (digit_value c)) acc ds"
proof (induction ds arbitrary: acc)
  case (Cons c ds)
  have "acc \<le> acc * 10 + the (digit_value c)" by simp
  from le_trans[OF this Cons] show ?case by simp
qed simp

lemma parse_digits_ok:
  assumes "list_all is_digit ds" "foldl (\<lambda>acc c. acc * 10 + the (digit_value c)) acc ds < 2 ^ 64"
  shows "parse_digits acc ds = Some (foldl (\<lambda>acc c. acc * 10 + the (digit_value c)) acc ds)"
  using assms
proof (induction ds arbitrary: acc)
  case (Cons c ds)
  obtain d where d: "digit_value c = Some d" using Cons.prems(1) by (auto simp: is_digit_def)
  have "acc * 10 + d < 2 ^ 64" using foldl_digits_mono[of "acc * 10 + d" ds] Cons.prems(2) d by simp
  then show ?case using Cons.IH[of "acc * 10 + d"] Cons.prems d by simp
qed simp

lemma digit_not_sign: "is_digit c \<Longrightarrow> c \<noteq> CHR ''+'' \<and> c \<noteq> CHR ''-''"
  by (auto simp: is_digit_def digit_value_def)

lemma u64_from_nat_str: "n < 2 ^ 64 \<Longrightarrow> u64_from_str (nat_str n) = Some n"
proof -
  assume n: "n < 2 ^ 64"
  obtain c cs where c: "nat_str n = c # cs" using nat_str_digits[of n] by (cases "nat_str n") auto
  have "parse_digits 0 (nat_str n) = Some n"
    using parse_digits_ok[of "nat_str n" 0] nat_str_digits[of n] n by (simp add: digits_value_def)
  moreover have "c \<noteq> CHR ''+''" using nat_str_digits[of n] digit_not_sign[of c] c by simp
  ultimately show ?thesis using c by (simp add: u64_from_str_def)
qed

lemma f64_from_nat_str: "f64_from_str (nat_str n) = Some (f_of_nat n)"
proof -
  note d = nat_str_digits[of n]
  obtain c cs where c: "nat_str n = c # cs" using d by (cases "nat_str n") auto
  have dc: "is_digit c" using d c by simp
  have sign: "split_sign (nat_str n) = (False, nat_str n)" using digit_not_sign[OF dc] c by (simp add: split_sign_def)
  have "to_lower c = c" using dc by (auto simp: is_digit_def digit_value_def to_lower_def Let_def split: if_splits)
  moreover have "c \<noteq> CHR ''i''" "c \<noteq> CHR ''n''" using dc by (auto simp: is_digit_def digit_value_def)
  ultimately have "map to_lower (nat_str n) \<notin> {''inf'', ''infinity'', ''nan''}" using c by auto
  moreover have "takeWhile is_digit (nat_str n) = nat_str n" "dropWhile is_digit (nat_str n) = []"
    using d by (auto simp: list_all_iff)
  then have "parse_number False (nat_str n) = Some (f_of_nat n)"
    unfolding parse_number_def Let_def using d by (simp only:) (simp add: parse_exponent_def f_of_nat_def)
  ultimately show ?thesis using sign by (simp add: f64_from_str_def Let_def)
qed

lemma parse_duration_seconds:
  assumes "0 < k" "k \<le> 2 ^ 53"
  shows "parse_duration (nat_str k) flag = Inr (k * 10 ^ 9)"
proof -
  have e: "f_of_nat k = F_Fin False (of_nat k)" using f_of_nat_exact[OF assms(2)] .
  have "(of_nat k :: rat) \<le> of_nat (2 ^ 53)" using assms(2) unfolding of_nat_le_iff .
  also have "\<dots> < 2 ^ 64" by simp
  finally have "\<not> (2 ^ 64 :: rat) \<le> of_nat k" by simp
  moreover have "round_even (of_nat k * 10 ^ 9) = int k * 10 ^ 9"
    using round_even_int[of "int k * 10 ^ 9"] by simp
  moreover have "\<not> f_le (F_Fin False (of_nat k)) f_zero" using assms(1) by (simp add: f_zero_def f_signed_def)
  ultimately show ?thesis using e by (simp add: parse_duration_def f64_from_nat_str nat_mult_distrib)
qed

section \<open>A configuration written as a command line\<close>

definition mode_name :: "eviction_mode \<Rightarrow> string" where
  "mode_name m = (case m of Demand \<Rightarrow> ''demand'' | Watermark \<Rightarrow> ''watermark'')"

definition inline :: "string \<Rightarrow> string \<Rightarrow> string" where
  "inline flag x = flag @ CHR ''='' # x"

definition cli_arguments :: "config \<Rightarrow> string list" where
  "cli_arguments c =
     [''--dataset-mib'', nat_str (cf_dataset_mib c), inline ''--warmup-secs'' (nat_str (cf_warmup c div 10 ^ 9)),
      ''--measure-secs'', nat_str (cf_measurement c div 10 ^ 9), inline ''--workers'' (nat_str (cf_workers c)),
      ''--mock-latency-us'', nat_str (cf_mock_latency_us c)]
     @ (if cf_prefetch_scan c then [''--prefetch-scan''] else []) @ (if cf_scan_only c then [''--scan-only''] else [])
     @ (case cf_file_tier c of None \<Rightarrow> [] | Some path \<Rightarrow> [''--file-tier'', path])
     @ [''--output'', cf_output c, inline ''--stats-output'' (cf_stats_output c),
        ''--fraction'', fraction_label (hd (cf_fractions c)), inline ''--eviction-mode'' (mode_name (cf_eviction_mode c))]"

text \<open>One option of the loop, its value in the next argument or inline.\<close>

definition plain_flag :: "string \<Rightarrow> bool" where
  "plain_flag flag \<longleftrightarrow> flag \<notin> {''-h'', ''--help'', ''--quick'', ''--ci'', ''--prefetch-scan'', ''--scan-only''} \<and> CHR ''='' \<notin> set flag"

lemma split_once_plain: "CHR ''='' \<notin> set flag \<Longrightarrow> split_once flag = (flag, None)"
  unfolding split_once_def by (subst dropWhile_eq_Nil_conv[THEN iffD2]) auto

lemma split_once_inline: "CHR ''='' \<notin> set flag \<Longrightarrow> split_once (inline flag x) = (flag, Some x)"
proof -
  assume "CHR ''='' \<notin> set flag"
  then have "\<forall>c \<in> set flag. c \<noteq> CHR ''=''" by auto
  then show ?thesis by (simp add: split_once_def inline_def)
qed

lemma parse_loop_plain:
  assumes "plain_flag flag" "parse_option flag (x # rest) c = Inr (c', rest)"
  shows "parse_loop c (flag # x # rest) = parse_loop c' rest"
  using assms unfolding plain_flag_def by (subst parse_loop.simps) simp

lemma parse_loop_inline:
  assumes "parse_option (inline flag x) rest c = Inr (c', rest)"
  shows "parse_loop c (inline flag x # rest) = parse_loop c' rest"
proof -
  have "CHR ''='' \<in> set (inline flag x)" by (simp add: inline_def)
  then have "inline flag x \<notin> {''-h'', ''--help'', ''--quick'', ''--ci'', ''--prefetch-scan'', ''--scan-only''}" by fastforce
  then show ?thesis using assms by (subst parse_loop.simps) simp
qed

lemmas option_value = parse_option_def split_once_plain split_once_inline with_value_def next_value_def

lemma loop_steps:
  "n < 2 ^ 64 \<Longrightarrow> parse_loop c (''--dataset-mib'' # nat_str n # rest) = parse_loop (c\<lparr>cl_dataset_mib := Some n\<rparr>) rest"
  "0 < k \<Longrightarrow> k \<le> 2 ^ 53 \<Longrightarrow> parse_loop c (inline ''--warmup-secs'' (nat_str k) # rest) = parse_loop (c\<lparr>cl_warmup := Some (k * 10 ^ 9)\<rparr>) rest"
  "0 < k \<Longrightarrow> k \<le> 2 ^ 53 \<Longrightarrow> parse_loop c (''--measure-secs'' # nat_str k # rest) = parse_loop (c\<lparr>cl_measurement := Some (k * 10 ^ 9)\<rparr>) rest"
  "n < 2 ^ 64 \<Longrightarrow> parse_loop c (inline ''--workers'' (nat_str n) # rest) = parse_loop (c\<lparr>cl_workers := Some n\<rparr>) rest"
  "n < 2 ^ 64 \<Longrightarrow> parse_loop c (''--mock-latency-us'' # nat_str n # rest) = parse_loop (c\<lparr>cl_mock_latency_us := Some n\<rparr>) rest"
  "parse_loop c (''--file-tier'' # x # rest) = parse_loop (c\<lparr>cl_file_tier := Some x\<rparr>) rest"
  "parse_loop c (''--output'' # x # rest) = parse_loop (c\<lparr>cl_output := Some x\<rparr>) rest"
  "parse_loop c (inline ''--stats-output'' x # rest) = parse_loop (c\<lparr>cl_stats_output := Some x\<rparr>) rest"
  "parse_loop c (inline ''--eviction-mode'' (mode_name m) # rest) = parse_loop (c\<lparr>cl_eviction_mode := Some m\<rparr>) rest"
  by (rule parse_loop_plain parse_loop_inline;
      simp add: plain_flag_def option_value parse_u64_def parse_usize_def u64_from_nat_str parse_duration_seconds
        parse_eviction_mode_def mode_name_def split: eviction_mode.splits)+

lemma fraction_labels:
  "fraction_label \<lparr>df_tenths = 10\<rparr> = ''1.0''" "fraction_label \<lparr>df_tenths = 8\<rparr> = ''0.8''" "fraction_label \<lparr>df_tenths = 6\<rparr> = ''0.6''"
  "fraction_label \<lparr>df_tenths = 4\<rparr> = ''0.4''" "fraction_label \<lparr>df_tenths = 2\<rparr> = ''0.2''" "fraction_label \<lparr>df_tenths = 1\<rparr> = ''0.1''"
  by (simp_all add: fraction_label_def nat_str.simps char_of_eq_iff)

lemma parse_label: "f \<in> set DRAM_FRACTIONS \<Longrightarrow> parse_fraction (fraction_label f) flag = Inr f"
  by (simp add: DRAM_FRACTIONS_def fraction_new_def, elim disjE)
    (simp_all add: parse_fraction_def DRAM_FRACTIONS_def fraction_new_def fraction_labels fraction_labels(6)[simplified])

lemma loop_fraction:
  assumes "f \<in> set DRAM_FRACTIONS" "cl_fraction c = None"
  shows "parse_loop c (''--fraction'' # fraction_label f # rest) = parse_loop (c\<lparr>cl_fraction := Some f\<rparr>) rest"
  by (rule parse_loop_plain) (simp_all add: plain_flag_def option_value parse_label[OF assms(1)] assms(2))

text \<open>
  C40. Writing a valid configuration with one listed fraction and durations of whole seconds as
  command-line options, some inline and some as separate arguments, and parsing it gives the
  configuration back.
\<close>

theorem cli_roundtrip:
  assumes valid: "config_validate c = Inr ()" and sizes: "cf_dataset_mib c < 2 ^ 64" "cf_workers c < 2 ^ 64" "cf_mock_latency_us c < 2 ^ 64"
    and seconds: "cf_warmup c = w * 10 ^ 9" "w \<le> 2 ^ 53" "cf_measurement c = m * 10 ^ 9" "m \<le> 2 ^ 53"
    and fraction: "cf_fractions c = [f]" "f \<in> set DRAM_FRACTIONS"
  shows "parse_cli (cli_arguments c) = Inr (Run c)"
proof -
  have wm: "0 < w" "0 < m" using valid seconds by (auto simp: config_validate_def split: if_splits)
  define cl where "cl = \<lparr>cl_profile = None, cl_dataset_mib = Some (cf_dataset_mib c), cl_warmup = Some (cf_warmup c),
    cl_measurement = Some (cf_measurement c), cl_workers = Some (cf_workers c), cl_mock_latency_us = Some (cf_mock_latency_us c),
    cl_prefetch_scan = cf_prefetch_scan c, cl_scan_only = cf_scan_only c, cl_file_tier = cf_file_tier c, cl_output = Some (cf_output c),
    cl_stats_output = Some (cf_stats_output c), cl_fraction = Some f, cl_eviction_mode = Some (cf_eviction_mode c)\<rparr>"
  have flags: "parse_loop k (''--prefetch-scan'' # rest) = parse_loop (k\<lparr>cl_prefetch_scan := True\<rparr>) rest"
    "parse_loop k (''--scan-only'' # rest) = parse_loop (k\<lparr>cl_scan_only := True\<rparr>) rest" for k rest by simp_all
  have "w * 10 ^ 9 div 10 ^ 9 = w" "m * 10 ^ 9 div 10 ^ 9 = m" by simp_all
  then have "parse_loop cli_empty (cli_arguments c) = Inr (Some cl)"
    using fraction wm seconds sizes unfolding cli_arguments_def
    by (cases "cf_prefetch_scan c"; cases "cf_scan_only c"; cases "cf_file_tier c")
      (simp_all del: parse_loop.simps add: parse_loop.simps(1) loop_steps loop_fraction flags cl_def cli_empty_def)
  moreover have "cli_config cl = c" using fraction
    by (cases "cf_file_tier c") (simp_all add: cl_def cli_config_def config_default_def)
  ultimately show ?thesis using valid by (simp add: parse_cli_def)
qed

theorem cli_roundtrip_witness:
  "\<exists>c. cf_scan_only c \<and> cf_file_tier c = Some ''/tmp/t=1'' \<and> parse_cli (cli_arguments c) = Inr (Run c)"
proof -
  let ?c = "config_quick\<lparr>cf_fractions := [fraction_new 6], cf_file_tier := Some ''/tmp/t=1'', cf_scan_only := True\<rparr>"
  have "parse_cli (cli_arguments ?c) = Inr (Run ?c)"
    by (rule cli_roundtrip[where w = 1 and m = 5 and f = "fraction_new 6"])
      (simp_all add: config_validate_def config_quick_def config_default_def dataset_layout_of_def checked_mul_u64_def MIB_def PAGE_SIZE_def
        DEFAULT_WORKERS_def DEFAULT_OUTPUT_def DEFAULT_STATS_OUTPUT_def DEFAULT_MOCK_LATENCY_US_def DRAM_FRACTIONS_def)
  then show ?thesis by (intro exI[of _ ?c]) simp
qed

end
