(* ===== verification/Pool_Fix.thy ===== *)
theory Pool_Fix
  imports Buffer_Pool
begin

text \<open>
  Allocation, faulting and the three kinds of fix of src/crates/tierbuf/src/pool.rs, with the guards
  they hand out.  The loop of a fix repeats until the handle is resident and revalidated; \<open>fuel\<close>
  bounds its iterations, and running out of it is \<open>oBlocks\<close>, as is a wait for another thread.
\<close>

section \<open>Guards\<close>

record shared_guard =
  sg_index :: nat
  sg_pid :: page_id
  sg_swip :: handle
  sg_source :: fix_source

record exclusive_guard =
  eg_index :: nat
  eg_pid :: page_id
  eg_swip :: handle

record optimistic_guard =
  og_pid :: page_id
  og_swip :: handle
  og_resident :: resident_addr
  og_version :: u64
  og_snapshot :: page

section \<open>Handles and page identifiers\<close>

definition validate_handle :: "handle \<Rightarrow> (('q, 't, 'p) manager, page_id) operation" where
  "validate_handle h s =
     (case bm_swips s h of
        None \<Rightarrow> (oPanic ''dangling Swip'', s)
      | Some c \<Rightarrow>
          (if belongs_to c (bm_id s) then (oOk (sw_pid c), s)
           else if bm_pages s (sw_pid c) \<noteq> None then (oErr (DuplicateHandle (sw_pid c)), s)
           else (oErr (InvalidPid (sw_pid c)), s)))"

definition allocate_pid :: "(('q, 't, 'p) manager, page_id) operation" where
  "allocate_pid s =
     (case try_update (\<lambda>current. if current \<le> PID_MAX then Some (current + 1) else None) [] (bm_next_pid s) of
        (Inl _, w) \<Rightarrow> (oErr (InvalidConfig ''logical page identifier space exhausted''), s\<lparr>bm_next_pid := w\<rparr>)
      | (Inr raw, w) \<Rightarrow>
          (case page_id_new raw of
             Some pid \<Rightarrow> (oOk pid, s\<lparr>bm_next_pid := w\<rparr>)
           | None \<Rightarrow> (oErr (InvalidPid raw), s\<lparr>bm_next_pid := w\<rparr>)))"

text \<open>\<open>Swip::from_pid\<close>: a new cell, at an address no handle has yet.\<close>

definition new_swip :: "page_id \<Rightarrow> (('q, 't, 'p) manager, handle) operation" where
  "new_swip pid s =
     (case swip_from_pid pid of
        None \<Rightarrow> (oPanic ''cannot encode PageId::INVALID in a Swip'', s)
      | Some c \<Rightarrow> (oOk (bm_next_handle s), s\<lparr>bm_swips := (bm_swips s)(bm_next_handle s \<mapsto> c), bm_next_handle := bm_next_handle s + 1\<rparr>))"

definition bind_owner :: "handle \<Rightarrow> (('q, 't, 'p) manager, bool) operation" where
  "bind_owner h s =
     (case Option.bind (bm_swips s h) (\<lambda>c. try_bind_owner c (bm_id s)) of
        None \<Rightarrow> (oPanic ''buffer-manager identity zero is reserved'', s)
      | Some (b, c) \<Rightarrow> (oOk b, s\<lparr>bm_swips := (bm_swips s)(h \<mapsto> c)\<rparr>))"

definition resident_is_exact :: "handle \<Rightarrow> page_id \<Rightarrow> resident_addr \<Rightarrow> nat \<Rightarrow> (('q, 't, 'p) manager, bool) operation" where
  "resident_is_exact h pid resident index =
     op_bind (load_swip h) (\<lambda>st.
     op_bind (on_meta index (op_get fr_owner_swip)) (\<lambda>owner.
     if st = Hot resident \<or> st = Cooling resident
     then op_bind (frame_pid_of index) (\<lambda>observed. op_return (observed = pid \<and> owner = Some h))
     else op_return False))"

section \<open>Allocation\<close>

text \<open>The part of \<open>allocate\<close> after the frame and the identifier have been obtained.\<close>

definition allocate_into :: "('q, 't, 'p) env \<Rightarrow> nat \<Rightarrow> page_id \<Rightarrow> (('q, 't, 'p) manager, exclusive_guard) operation" where
  "allocate_into E index pid =
     op_bind (new_swip pid) (\<lambda>h.
     op_bind (bind_owner h) (\<lambda>bound.
     op_seq (op_assert bound ''a fresh Swip must accept its manager identity'')
     (op_seq (on_frames (ft_write_with index (\<lambda>page. ((), replicate (length page) 0))))
     (op_seq (on_meta index (frame_install pid h))
     (op_seq (on_meta index (op_modify (set_dirty True)))
     (op_seq (free_frame_publish_pin index)
     (op_bind (resident_of index) (\<lambda>resident.
     op_bind (cas_swip h (\<lambda>c. try_swizzle c pid resident)) (\<lambda>swizzled.
     if \<not> swizzled
     then op_seq (on_meta index frame_unpin)
          (op_seq (clear_unpublished_frame index)
          (op_seq (free_frame_drop E False index)
          (op_fail Contended)))
     else op_seq (on_meta index frame_lock_exclusive)
          (op_bind (resident_is_exact h pid resident index) (\<lambda>exact.
           op_seq (op_assert exact ''newly installed frame must revalidate'')
           (op_bind (op_get (\<lambda>s. bm_pages s pid)) (\<lambda>previous.
            op_seq (op_modify (\<lambda>s. s\<lparr>bm_pages := (bm_pages s)(pid \<mapsto> \<lparr>pc_swip = h, pc_fault = fault_state_default\<rparr>)\<rparr>))
            (op_seq (op_assert (previous = None) ''allocated PageId must be unique'')
            (op_return \<lparr>eg_index = index, eg_pid = pid, eg_swip = h\<rparr>)))))))))))))))"

definition allocate :: "('q, 't, 'p) env \<Rightarrow> (('q, 't, 'p) manager, exclusive_guard) operation" where
  "allocate E =
     op_seq ensure_running
     (op_bind (acquire_frame E) (\<lambda>index.
      op_bind (op_try allocate_pid) (\<lambda>r.
      (case r of
         Inl e \<Rightarrow> op_seq (free_frame_drop E True index) (op_fail e)
       | Inr pid \<Rightarrow> allocate_into E index pid))))"

section \<open>Faulting a page in\<close>

text \<open>
  \<open>frames.write_with\<close> around \<open>read_backing_page\<close>: the tier reads into the frame under its exclusive
  latch, which is released whether or not the read succeeds.
\<close>

definition read_backing_page :: "('q, 't, 'p) env \<Rightarrow> nat \<Rightarrow> location \<Rightarrow> (('q, 't, 'p) manager, unit) operation" where
  "read_backing_page E index l =
     op_seq (on_meta index frame_lock_exclusive)
     (op_bind (on_frames (read_frame index)) (\<lambda>page.
      op_bind (on_tier (loc_tier_index l) (tb_read (en_tier E) (loc_offset l) page)) (\<lambda>(r, page').
      op_seq (on_frames (write_frame index page'))
      (op_seq (on_meta index frame_drop_exclusive)
      (op_outcome r)))))"

text \<open>The checks both kinds of fault make first: \<open>None\<close> when the page is resident already.\<close>

definition fault_location :: "handle \<Rightarrow> page_id \<Rightarrow> (('q, 't, 'p) manager, location option) operation" where
  "fault_location h pid =
     op_seq ensure_running
     (op_bind (load_swip h) (\<lambda>st.
      (case st of
         Hot _ \<Rightarrow> op_return None
       | Cooling _ \<Rightarrow> op_return None
       | Evicted observed \<Rightarrow>
           (if observed \<noteq> pid then op_fail (InvalidPid observed)
            else op_bind (on_directory (dir_lookup pid)) (\<lambda>found.
                 (case found of
                    None \<Rightarrow> op_fail (InvalidPid pid)
                  | Some l \<Rightarrow>
                      op_bind (op_get (\<lambda>s. length (bm_tiers s))) (\<lambda>n.
                      if loc_tier_index l < n then op_return (Some l)
                      else op_fail (InvalidConfig (''page '' @ nat_str (unat pid) @ '' refers to missing tier '' @ nat_str (loc_tier_index l))))))))))"

text \<open>What follows once the frame holds the page: publish it, or undo the installation.\<close>

definition publish_frame :: "handle \<Rightarrow> page_id \<Rightarrow> nat \<Rightarrow> (('q, 't, 'p) manager, unit) operation" where
  "publish_frame h pid index =
     op_seq (on_meta index (frame_install pid h)) (free_frame_publish_pin index)"

text \<open>The part of \<open>perform_demand_fault\<close> after the frame has been acquired.\<close>

definition demand_fault_into :: "('q, 't, 'p) env \<Rightarrow> handle \<Rightarrow> page_id \<Rightarrow> location \<Rightarrow> nat \<Rightarrow> (('q, 't, 'p) manager, nat option) operation" where
  "demand_fault_into E h pid l index =
     op_bind (op_try (read_backing_page E index l)) (\<lambda>filled.
     (case filled of
        Inl e \<Rightarrow> op_seq (free_frame_drop E True index) (op_fail e)
      | Inr _ \<Rightarrow>
     op_seq (on_stats (record_tier_read (loc_tier_index l) (word_of_nat PAGE_SIZE)))
     (op_seq (publish_frame h pid index)
     (op_bind (resident_of index) (\<lambda>resident.
      op_bind (cas_swip h (\<lambda>c. try_swizzle c pid resident)) (\<lambda>swizzled.
      if \<not> swizzled
      then op_seq (on_meta index frame_unpin)
           (op_seq (clear_unpublished_frame index)
           (op_seq (free_frame_drop E False index)
           (op_fail Contended)))
      else op_seq (on_meta index frame_unpin)
           (op_return (Some (loc_tier_index l)))))))))"

definition perform_demand_fault :: "('q, 't, 'p) env \<Rightarrow> handle \<Rightarrow> page_id \<Rightarrow> (('q, 't, 'p) manager, nat option) operation" where
  "perform_demand_fault E h pid =
     op_bind (fault_location h pid) (\<lambda>found.
     (case found of
        None \<Rightarrow> op_return None
      | Some l \<Rightarrow>
     op_bind (op_get bm_eviction_mode) (\<lambda>mode.
     op_seq (op_when (mode = Demand) (op_modify (\<lambda>s. s\<lparr>bm_fault_ins_this_epoch := bm_fault_ins_this_epoch s + 1\<rparr>)))
     (op_bind (acquire_frame E) (demand_fault_into E h pid l)))))"

text \<open>
  One caller's passage through the coordinator of its page.  A leader that panics drops its
  leadership, which completes the generation as contended; a caller that has to wait blocks.
\<close>

definition on_fault :: "page_id \<Rightarrow> (fault_state, 'a) operation \<Rightarrow> (('q, 't, 'p) manager, 'a) operation" where
  "on_fault pid m s =
     (case bm_pages s pid of
        None \<Rightarrow> (oPanic ''missing page control'', s)
      | Some pc \<Rightarrow> (case m (pc_fault pc) of (r, f) \<Rightarrow> (r, s\<lparr>bm_pages := (bm_pages s)(pid \<mapsto> pc\<lparr>pc_fault := f\<rparr>)\<rparr>)))"

definition run_as_leader :: "page_id \<Rightarrow> u64 \<Rightarrow> (('q, 't, 'p) manager, nat option) operation \<Rightarrow>
    (('q, 't, 'p) manager, nat option) operation" where
  "run_as_leader pid generation perform s =
     (case perform s of
        (oOk a, s') \<Rightarrow> op_seq (on_fault pid (leader_finish generation (Inr a))) (op_return a) s'
      | (oErr e, s') \<Rightarrow> op_seq (on_fault pid (leader_finish generation (Inl e))) (op_fail e) s'
      | (oPanic m, s') \<Rightarrow> op_seq (on_fault pid (leader_drop generation)) (op_panic m) s'
      | (oBlocks, s') \<Rightarrow> (oBlocks, s'))"

text \<open>The canonical control of the page, then the turn: shared by demand faults and prefetches.\<close>

definition coordinated :: "handle \<Rightarrow> page_id \<Rightarrow> (('q, 't, 'p) manager, nat option) operation \<Rightarrow>
    (('q, 't, 'p) manager, nat option) operation" where
  "coordinated h pid perform =
     op_seq ensure_running
     (op_bind (op_get (\<lambda>s. bm_pages s pid)) (\<lambda>control.
      (case control of
         None \<Rightarrow> op_fail (InvalidPid pid)
       | Some pc \<Rightarrow>
           (if pc_swip pc \<noteq> h then op_fail (DuplicateHandle pid)
            else op_bind (on_fault pid coord_enter) (\<lambda>turn.
                 (case turn of
                    Lead generation \<Rightarrow> run_as_leader pid generation perform
                  | Register _ \<Rightarrow> op_blocks
                  | WaitCompleted \<Rightarrow> op_blocks))))))"

definition fault :: "('q, 't, 'p) env \<Rightarrow> handle \<Rightarrow> page_id \<Rightarrow> (('q, 't, 'p) manager, nat option) operation" where
  "fault E h pid = coordinated h pid (perform_demand_fault E h pid)"

section \<open>Fixing\<close>

definition on_access :: "('q, 't, 'p) env \<Rightarrow> nat \<Rightarrow> access_kind \<Rightarrow> (('q, 't, 'p) manager, unit) operation" where
  "on_access E index kind =
     op_bind (op_get bm_policy) (\<lambda>p.
     op_bind (on_meta index (\<lambda>f. case po_on_access (en_policy E) p f kind of (p', f') \<Rightarrow> (oOk p', f'))) (\<lambda>p'.
     op_modify (\<lambda>s. s\<lparr>bm_policy := p'\<rparr>)))"

definition second_chance :: "handle \<Rightarrow> resident_addr \<Rightarrow> (('q, 't, 'p) manager, unit) operation" where
  "second_chance h resident =
     op_bind (cas_swip h (\<lambda>c. try_resurrect c resident)) (\<lambda>resurrected.
     op_when resurrected (bump record_second_chance))"

definition record_fix :: "bool \<Rightarrow> nat option \<Rightarrow> (('q, 't, 'p) manager, unit) operation" where
  "record_fix faulted faulted_tier =
     (if faulted
      then (case faulted_tier of
              Some tier_index \<Rightarrow> on_stats (record_tier_demand_hit tier_index)
            | None \<Rightarrow> bump record_dram_hit)
      else bump record_dram_hit)"

definition count_prefetch_hit :: "page_id \<Rightarrow> resident_addr \<Rightarrow> nat \<Rightarrow> (('q, 't, 'p) manager, unit) operation" where
  "count_prefetch_hit pid resident index =
     op_bind (on_meta index (op_get fr_generation)) (\<lambda>generation.
     op_bind (consume_prefetched pid resident generation) (\<lambda>hit.
     op_when hit (bump record_prefetch_hit)))"

text \<open>The part of \<open>fix_shared_with\<close> after the pinned and latched frame has revalidated.\<close>

definition shared_fixed :: "('q, 't, 'p) env \<Rightarrow> handle \<Rightarrow> access_hint \<Rightarrow> page_id \<Rightarrow> bool \<Rightarrow> nat option \<Rightarrow>
    resident_addr \<Rightarrow> nat \<Rightarrow> (('q, 't, 'p) manager, shared_guard) operation" where
  "shared_fixed E h hint pid faulted faulted_tier resident index =
     op_seq (second_chance h resident)
     (op_seq (on_access E index ReadAccess)
     (op_seq (op_when (\<not> faulted \<and> (hint = NormalHint \<or> hint = ScanHint)) (count_prefetch_hit pid resident index))
     (op_seq (record_fix faulted faulted_tier)
     (op_seq
       (op_when faulted
         (op_bind (op_get bm_policy) (\<lambda>p.
          if po_admit_to_dram (en_policy E) p pid hint then op_return ()
          else op_bind (cas_swip h (\<lambda>c. try_mark_cooling c resident)) (\<lambda>marked.
               op_when marked (enqueue_ticket index pid resident)))))
     (op_return \<lparr>sg_index = index, sg_pid = pid, sg_swip = h,
                  sg_source = (if faulted_tier \<noteq> None then LowerTier else Dram)\<rparr>)))))"

fun fix_shared_loop :: "('q, 't, 'p) env \<Rightarrow> handle \<Rightarrow> access_hint \<Rightarrow> page_id \<Rightarrow> nat \<Rightarrow> bool \<Rightarrow> nat option \<Rightarrow>
    (('q, 't, 'p) manager, shared_guard) operation" where
  "fix_shared_loop E h hint pid 0 faulted faulted_tier = op_blocks"
| "fix_shared_loop E h hint pid (Suc fuel) faulted faulted_tier =
     op_seq ensure_running
     (op_bind (load_swip h) (\<lambda>st.
      (case st of
         Evicted observed \<Rightarrow>
           (if observed \<noteq> pid then op_fail (InvalidPid observed)
            else op_seq (op_when (\<not> faulted) (bump record_fault))
                 (op_bind (fault E h pid) (\<lambda>tier.
                  fix_shared_loop E h hint pid fuel True (if faulted_tier = None then tier else faulted_tier))))
       | resident_state \<Rightarrow>
           (let resident = (case resident_state of Hot a \<Rightarrow> a | Cooling a \<Rightarrow> a | Evicted _ \<Rightarrow> 0) in
            op_bind (op_get (\<lambda>s. index_of_resident (bm_frames s) resident)) (\<lambda>found.
            (case found of
               None \<Rightarrow> op_fail (InvalidPid pid)
             | Some index \<Rightarrow>
                 op_bind (on_meta_bool index frame_try_pin) (\<lambda>pinned.
                 if \<not> pinned then op_blocks
                 else op_seq (on_meta index frame_lock_shared)
                      (op_bind (resident_is_exact h pid resident index) (\<lambda>exact.
                       if exact then shared_fixed E h hint pid faulted faulted_tier resident index
                       else op_seq (on_meta index frame_drop_shared)
                            (op_seq (on_meta index frame_unpin)
                            (fix_shared_loop E h hint pid fuel faulted faulted_tier)))))))))))"

definition fix_shared_with :: "('q, 't, 'p) env \<Rightarrow> nat \<Rightarrow> handle \<Rightarrow> access_hint \<Rightarrow> (('q, 't, 'p) manager, shared_guard) operation" where
  "fix_shared_with E fuel h hint =
     op_seq ensure_running
     (op_bind (validate_handle h) (\<lambda>pid. fix_shared_loop E h hint pid fuel False None))"

definition fix_shared :: "('q, 't, 'p) env \<Rightarrow> nat \<Rightarrow> handle \<Rightarrow> (('q, 't, 'p) manager, shared_guard) operation" where
  "fix_shared E fuel h = fix_shared_with E fuel h NormalHint"

definition exclusive_fixed :: "('q, 't, 'p) env \<Rightarrow> handle \<Rightarrow> page_id \<Rightarrow> bool \<Rightarrow> nat option \<Rightarrow>
    resident_addr \<Rightarrow> nat \<Rightarrow> (('q, 't, 'p) manager, exclusive_guard) operation" where
  "exclusive_fixed E h pid faulted faulted_tier resident index =
     op_seq (second_chance h resident)
     (op_seq (on_access E index WriteAccess)
     (op_seq (op_when (\<not> faulted) (count_prefetch_hit pid resident index))
     (op_seq (record_fix faulted faulted_tier)
     (op_return \<lparr>eg_index = index, eg_pid = pid, eg_swip = h\<rparr>))))"

fun fix_exclusive_loop :: "('q, 't, 'p) env \<Rightarrow> handle \<Rightarrow> page_id \<Rightarrow> nat \<Rightarrow> bool \<Rightarrow> nat option \<Rightarrow>
    (('q, 't, 'p) manager, exclusive_guard) operation" where
  "fix_exclusive_loop E h pid 0 faulted faulted_tier = op_blocks"
| "fix_exclusive_loop E h pid (Suc fuel) faulted faulted_tier =
     op_seq ensure_running
     (op_bind (load_swip h) (\<lambda>st.
      (case st of
         Evicted observed \<Rightarrow>
           (if observed \<noteq> pid then op_fail (InvalidPid observed)
            else op_seq (op_when (\<not> faulted) (bump record_fault))
                 (op_bind (fault E h pid) (\<lambda>tier.
                  fix_exclusive_loop E h pid fuel True (if faulted_tier = None then tier else faulted_tier))))
       | resident_state \<Rightarrow>
           (let resident = (case resident_state of Hot a \<Rightarrow> a | Cooling a \<Rightarrow> a | Evicted _ \<Rightarrow> 0) in
            op_bind (op_get (\<lambda>s. index_of_resident (bm_frames s) resident)) (\<lambda>found.
            (case found of
               None \<Rightarrow> op_fail (InvalidPid pid)
             | Some index \<Rightarrow>
                 op_bind (on_meta_bool index frame_try_pin) (\<lambda>pinned.
                 if \<not> pinned then op_blocks
                 else op_seq (on_meta index frame_lock_exclusive)
                      (op_bind (resident_is_exact h pid resident index) (\<lambda>exact.
                       if exact then exclusive_fixed E h pid faulted faulted_tier resident index
                       else op_seq (on_meta index frame_drop_exclusive)
                            (op_seq (on_meta index frame_unpin)
                            (fix_exclusive_loop E h pid fuel faulted faulted_tier)))))))))))"

definition fix_exclusive :: "('q, 't, 'p) env \<Rightarrow> nat \<Rightarrow> handle \<Rightarrow> (('q, 't, 'p) manager, exclusive_guard) operation" where
  "fix_exclusive E fuel h =
     op_seq ensure_running
     (op_bind (validate_handle h) (\<lambda>pid. fix_exclusive_loop E h pid fuel False None))"

section \<open>Guard operations\<close>

text \<open>Dropping a guard unpins in \<open>drop\<close> and then releases the latch with the guard's fields.\<close>

definition shared_read_with :: "shared_guard \<Rightarrow> (page \<Rightarrow> 'a) \<Rightarrow> (('q, 't, 'p) manager, 'a) operation" where
  "shared_read_with g read = op_bind (on_frames (read_frame (sg_index g))) (\<lambda>page. op_return (read page))"

definition shared_guard_drop :: "shared_guard \<Rightarrow> (('q, 't, 'p) manager, unit) operation" where
  "shared_guard_drop g = op_seq (on_meta (sg_index g) frame_unpin) (on_meta (sg_index g) frame_drop_shared)"

definition exclusive_read_with :: "exclusive_guard \<Rightarrow> (page \<Rightarrow> 'a) \<Rightarrow> (('q, 't, 'p) manager, 'a) operation" where
  "exclusive_read_with g read = op_bind (on_frames (read_frame (eg_index g))) (\<lambda>page. op_return (read page))"

definition exclusive_write_with :: "exclusive_guard \<Rightarrow> (page \<Rightarrow> 'a \<times> page) \<Rightarrow> (('q, 't, 'p) manager, 'a) operation" where
  "exclusive_write_with g write =
     op_seq (on_meta (eg_index g) (op_modify (set_dirty True)))
     (op_bind (on_frames (read_frame (eg_index g))) (\<lambda>page.
      op_seq (on_frames (write_frame (eg_index g) (snd (write page))))
      (op_return (fst (write page)))))"

definition exclusive_guard_drop :: "exclusive_guard \<Rightarrow> (('q, 't, 'p) manager, unit) operation" where
  "exclusive_guard_drop g = op_seq (on_meta (eg_index g) frame_unpin) (on_meta (eg_index g) frame_drop_exclusive)"

definition fix_optimistic :: "('q, 't, 'p) env \<Rightarrow> nat \<Rightarrow> handle \<Rightarrow> (('q, 't, 'p) manager, optimistic_guard) operation" where
  "fix_optimistic E fuel h =
     op_bind (fix_shared E fuel h) (\<lambda>shared.
     op_bind (resident_of (sg_index shared)) (\<lambda>resident.
     op_bind (on_meta (sg_index shared) (op_get (\<lambda>f. optimistic (fr_latch f)))) (\<lambda>version.
     (case version of
        Inl _ \<Rightarrow> op_seq (shared_guard_drop shared) (op_fail Contended)
      | Inr v \<Rightarrow>
          op_bind (shared_read_with shared (\<lambda>page. page)) (\<lambda>snap.
          op_seq (shared_guard_drop shared)
          (op_return \<lparr>og_pid = sg_pid shared, og_swip = h, og_resident = resident, og_version = v, og_snapshot = snap\<rparr>))))))"

definition optimistic_read_with :: "optimistic_guard \<Rightarrow> (page \<Rightarrow> 'a) \<Rightarrow> (('q, 't, 'p) manager, 'a) operation" where
  "optimistic_read_with g read =
     op_bind (op_get (\<lambda>s. index_of_resident (bm_frames s) (og_resident g))) (\<lambda>found.
     (case found of
        None \<Rightarrow> op_fail Retry
      | Some index \<Rightarrow>
          op_bind (resident_is_exact (og_swip g) (og_pid g) (og_resident g) index) (\<lambda>exact.
          op_bind (on_meta index (op_get (\<lambda>f. validate (fr_latch f) (og_version g)))) (\<lambda>valid.
          if exact \<and> valid then op_return (read (og_snapshot g)) else op_fail Retry))))"

end
