(* ===== verification/Pool_Lifecycle.thy ===== *)
theory Pool_Lifecycle
  imports Pool_Fix Mock_Tier
begin

text \<open>
  Construction, prefetching, the epoch tick, the background threads, flushing, shutdown and drop of
  the buffer manager of src/crates/tierbuf/src/pool.rs.  The task that a prefetch worker has received
  is kept in \<open>bm_prefetch_running\<close> until the worker drops it.
\<close>

section \<open>Prefetch admission\<close>

definition canonical_evicted_pid :: "handle \<Rightarrow> (('q, 't, 'p) manager, page_id option) operation" where
  "canonical_evicted_pid h =
     op_bind (swip_pid_of h) (\<lambda>pid.
     op_bind (op_get (\<lambda>s. (bm_id s, bm_swips s h, bm_pages s pid))) (\<lambda>(mid, cell, control).
     if (case cell of None \<Rightarrow> True | Some c \<Rightarrow> \<not> belongs_to c mid) then op_return None
     else op_bind (load_swip h) (\<lambda>st.
          if st \<noteq> Evicted pid then op_return None
          else op_return (case control of Some pc \<Rightarrow> (if pc_swip pc = h then Some pid else None) | None \<Rightarrow> None))))"

definition owned_frame_drop :: "('q, 't, 'p) env \<Rightarrow> bool \<Rightarrow> nat \<Rightarrow> (('q, 't, 'p) manager, unit) operation" where
  "owned_frame_drop E reserved index =
     op_seq (op_when reserved (on_meta index release_eviction))
     (op_bind (on_frames (push_free (en_queue E) index)) (\<lambda>r.
      op_assert (r = Inr ()) ''prefetch frame must fit back in its free queue''))"

definition try_checkout :: "('q, 't, 'p) env \<Rightarrow> (('q, 't, 'p) manager, nat option) operation" where
  "try_checkout E =
     op_bind (on_frames (pop_free (en_queue E))) (\<lambda>popped.
     (case popped of
        None \<Rightarrow> op_return None
      | Some index \<Rightarrow>
          op_bind (on_meta_bool index try_claim_eviction) (\<lambda>claimed.
          if claimed then op_return (Some index)
          else op_bind (on_frames (push_free (en_queue E) index)) (\<lambda>r.
               op_seq (op_assert (r = Inr ()) ''temporarily pinned free frame must return to its queue'')
               (op_return None)))))"

definition reservation_drop :: "page_id \<Rightarrow> (('q, 't, 'p) manager, unit) operation" where
  "reservation_drop pid s =
     (let s1 = s\<lparr>bm_prefetch_pending := bm_prefetch_pending s - {pid}\<rparr> in
      if 0 < bm_prefetch_in_flight s1 then (oOk (), s1\<lparr>bm_prefetch_in_flight := bm_prefetch_in_flight s1 - 1\<rparr>)
      else (oPanic ''prefetch in-flight count cannot underflow'', s1))"

text \<open>The fields of a dropped task are dropped in the order of their declaration.\<close>

definition task_drop :: "('q, 't, 'p) env \<Rightarrow> prefetch_task \<Rightarrow> (('q, 't, 'p) manager, unit) operation" where
  "task_drop E task =
     op_seq (case pt_checkout task of None \<Rightarrow> op_return () | Some index \<Rightarrow> owned_frame_drop E True index)
     (reservation_drop (pt_pid task))"

definition try_send :: "prefetch_task \<Rightarrow> (('q, 't, 'p) manager, bool) operation" where
  "try_send task s =
     (if length (bm_prefetch_queue s) < MAX_PREFETCH_IN_FLIGHT
      then (oOk True, s\<lparr>bm_prefetch_queue := bm_prefetch_queue s @ [task]\<rparr>)
      else (oOk False, s))"

text \<open>One handle of a prefetch call: whether it was submitted, and the identifiers seen so far.\<close>

definition prefetch_one :: "('q, 't, 'p) env \<Rightarrow> u64 \<Rightarrow> page_id set \<Rightarrow> handle \<Rightarrow> (('q, 't, 'p) manager, bool \<times> page_id set) operation" where
  "prefetch_one E submitted seen h =
     op_bind (op_get bm_stopping) (\<lambda>stopping.
     if stopping \<or> word_of_nat MAX_PREFETCH_IN_FLIGHT \<le> submitted then op_return (False, seen)
     else op_bind (canonical_evicted_pid h) (\<lambda>canonical.
     (case canonical of
        None \<Rightarrow> op_return (False, seen)
      | Some pid \<Rightarrow>
     op_bind (op_get bm_policy) (\<lambda>p.
     if pid \<in> seen \<or> \<not> po_admit_to_dram (en_policy E) p pid PrefetchHint then op_return (False, insert pid seen)
     else op_bind (op_get (\<lambda>s. (bm_prefetch_pending s, bm_prefetch_in_flight s))) (\<lambda>(pending, in_flight).
     if pid \<in> pending then op_return (False, insert pid seen)
     else op_seq (op_modify (\<lambda>s. s\<lparr>bm_prefetch_pending := insert pid (bm_prefetch_pending s)\<rparr>))
     (if \<not> in_flight < MAX_PREFETCH_IN_FLIGHT
      then op_seq (op_modify (\<lambda>s. s\<lparr>bm_prefetch_pending := bm_prefetch_pending s - {pid}\<rparr>))
           (op_return (False, insert pid seen))
      else op_seq (op_modify (\<lambda>s. s\<lparr>bm_prefetch_in_flight := bm_prefetch_in_flight s + 1\<rparr>))
     (op_bind (try_checkout E) (\<lambda>checkout.
      if checkout = None
      then op_seq (reservation_drop pid) (op_return (False, insert pid seen))
      else (let task = \<lparr>pt_pid = pid, pt_swip = h, pt_checkout = checkout\<rparr> in
            op_bind (op_get bm_stopping) (\<lambda>now_stopping.
            if now_stopping then op_seq (task_drop E task) (op_return (False, insert pid seen))
            else op_bind (try_send task) (\<lambda>sent.
                 if sent then op_return (True, insert pid seen)
                 else op_seq (task_drop E task) (op_return (False, insert pid seen)))))))))))))"

fun prefetch_loop :: "('q, 't, 'p) env \<Rightarrow> handle list \<Rightarrow> u64 \<Rightarrow> u64 \<Rightarrow> page_id set \<Rightarrow> (('q, 't, 'p) manager, u64 \<times> u64) operation" where
  "prefetch_loop E [] submitted skipped seen = op_return (submitted, skipped)"
| "prefetch_loop E (h # rest) submitted skipped seen =
     op_bind (prefetch_one E submitted seen h) (\<lambda>(sent, seen').
     if sent then prefetch_loop E rest (saturating_add submitted 1) skipped seen'
     else prefetch_loop E rest submitted (saturating_add skipped 1) seen')"

definition prefetch :: "('q, 't, 'p) env \<Rightarrow> handle list \<Rightarrow> (('q, 't, 'p) manager, unit) operation" where
  "prefetch E swips =
     op_bind (prefetch_loop E swips 0 0 {}) (\<lambda>(submitted, skipped).
     op_seq (bump (record_prefetch_submitted submitted)) (bump (record_prefetch_skipped skipped)))"

section \<open>Reports\<close>

definition manager_stats :: "('q, 't, 'p) manager \<Rightarrow> stats" where
  "manager_stats s = snapshot (bm_stats s)"

definition manager_cost_report :: "('q, 't, 'p) manager \<Rightarrow> cost_report" where
  "manager_cost_report s = residency_report (bm_residency_cost s)"

section \<open>Prefetch workers\<close>

text \<open>\<open>task.checkout.take()\<close> of the task that is running.\<close>

definition take_checkout :: "(('q, 't, 'p) manager, nat) operation" where
  "take_checkout s =
     (case Option.bind (bm_prefetch_running s) pt_checkout of
        None \<Rightarrow> (oPanic ''accepted prefetch must retain its frame'', s)
      | Some index \<Rightarrow> (oOk index, s\<lparr>bm_prefetch_running := map_option (\<lambda>t. t\<lparr>pt_checkout := None\<rparr>) (bm_prefetch_running s)\<rparr>))"

text \<open>The part of \<open>perform_prefetch_fault\<close> after the task has given up its frame.\<close>

definition prefetch_fault_into :: "('q, 't, 'p) env \<Rightarrow> handle \<Rightarrow> page_id \<Rightarrow> location \<Rightarrow> nat \<Rightarrow> (('q, 't, 'p) manager, nat option) operation" where
  "prefetch_fault_into E h pid l index =
     op_bind (op_try (read_backing_page E index l)) (\<lambda>filled.
     (case filled of
        Inl e \<Rightarrow> op_seq (owned_frame_drop E True index) (op_fail e)
      | Inr _ \<Rightarrow>
     op_seq (on_stats (record_tier_read (loc_tier_index l) (word_of_nat PAGE_SIZE)))
     (op_seq (publish_frame h pid index)
     (op_bind (resident_of index) (\<lambda>resident.
      op_bind (on_meta index (op_get fr_generation)) (\<lambda>generation.
      let marker = \<lparr>pm_resident = resident, pm_generation = generation\<rparr> in
      op_bind (op_get (\<lambda>s. bm_prefetched s pid)) (\<lambda>previous.
      op_seq (op_modify (\<lambda>s. s\<lparr>bm_prefetched := (bm_prefetched s)(pid \<mapsto> marker)\<rparr>))
      (op_seq (op_assert (previous = None) ''an evicted page cannot retain a prior prefetch marker'')
      (op_bind (cas_swip h (\<lambda>c. try_swizzle c pid resident)) (\<lambda>swizzled.
       if \<not> swizzled
       then op_seq (op_modify (\<lambda>s. if bm_prefetched s pid = Some marker
                                    then s\<lparr>bm_prefetched := (bm_prefetched s)(pid := None)\<rparr> else s))
            (op_seq (on_meta index frame_unpin)
            (op_seq (clear_unpublished_frame index)
            (op_seq (owned_frame_drop E False index)
            (op_fail Contended))))
       else op_seq (on_meta index frame_unpin)
            (op_return (Some (loc_tier_index l)))))))))))))"

definition perform_prefetch_fault :: "('q, 't, 'p) env \<Rightarrow> handle \<Rightarrow> page_id \<Rightarrow> (('q, 't, 'p) manager, nat option) operation" where
  "perform_prefetch_fault E h pid =
     op_bind (fault_location h pid) (\<lambda>found.
     (case found of
        None \<Rightarrow> op_return None
      | Some l \<Rightarrow>
     op_bind take_checkout (\<lambda>index.
     op_seq (bump record_fault) (prefetch_fault_into E h pid l index))))"

definition prefetch_fault :: "('q, 't, 'p) env \<Rightarrow> prefetch_task \<Rightarrow> (('q, 't, 'p) manager, bool) operation" where
  "prefetch_fault E task =
     op_bind (coordinated (pt_swip task) (pt_pid task) (perform_prefetch_fault E (pt_swip task) (pt_pid task))) (\<lambda>tier_index.
     op_return (tier_index \<noteq> None))"

definition receive_prefetch_task :: "(('q, 't, 'p) manager, prefetch_task option) operation" where
  "receive_prefetch_task s =
     (case bm_prefetch_queue s of
        t # ts \<Rightarrow> (oOk (Some t), s\<lparr>bm_prefetch_queue := ts\<rparr>)
      | [] \<Rightarrow> if bm_stopping s then (oOk None, s) else (oBlocks, s))"

text \<open>One iteration of a prefetch thread; the answer is whether the thread goes on.\<close>

definition finish_task :: "('q, 't, 'p) env \<Rightarrow> (('q, 't, 'p) manager, unit) operation" where
  "finish_task E =
     op_bind (op_get bm_prefetch_running) (\<lambda>running.
     op_seq (op_modify (\<lambda>s. s\<lparr>bm_prefetch_running := None\<rparr>))
     (case running of None \<Rightarrow> op_return () | Some task \<Rightarrow> task_drop E task))"

definition prefetch_worker_step :: "('q, 't, 'p) env \<Rightarrow> (('q, 't, 'p) manager, bool) operation" where
  "prefetch_worker_step E =
     op_bind receive_prefetch_task (\<lambda>received.
     (case received of
        None \<Rightarrow> op_return False
      | Some task \<Rightarrow>
          op_seq (op_modify (\<lambda>s. s\<lparr>bm_prefetch_running := Some task\<rparr>))
          (op_bind (op_get bm_stopping) (\<lambda>stopping.
           if stopping then op_seq (finish_task E) (op_return True)
           else op_seq (op_try (prefetch_fault E task)) (op_seq (finish_task E) (op_return True))))))"

section \<open>Background threads\<close>

text \<open>
  \<open>wait_for_worker\<close>: \<open>woken\<close> is the generation and the stop flag when the condition-variable wait
  ends.  The answer is whether to stop, the new observed generation, and whether it waited at all.
\<close>

definition wait_for_worker :: "bool \<Rightarrow> u64 \<Rightarrow> u64 \<Rightarrow> u64 \<times> bool \<Rightarrow> bool \<times> u64 \<times> bool" where
  "wait_for_worker stopping generation observed woken =
     (if stopping then (True, observed, False)
      else if generation \<noteq> observed then (False, generation, False)
      else (snd woken, fst woken, True))"

text \<open>The budget ticks of one epoch.\<close>

definition tick_budget :: "('q, 't, 'p) env \<Rightarrow> nat \<Rightarrow> 't \<Rightarrow> 't" where
  "tick_budget E elapsed tier =
     (case tb_write_budget (en_tier E) tier of
        None \<Rightarrow> tier | Some b \<Rightarrow> tb_set_budget (en_tier E) (tick elapsed b) tier)"

fun count_resident :: "nat list \<Rightarrow> (('q, 't, 'p) manager, nat) operation" where
  "count_resident [] = op_return 0"
| "count_resident (index # rest) =
     op_bind (frame_pid_of index) (\<lambda>pid.
     op_bind (count_resident rest) (\<lambda>n. op_return (if pid_is_valid pid then n + 1 else n)))"

definition tick_epoch :: "('q, 't, 'p) env \<Rightarrow> nat \<Rightarrow> (('q, 't, 'p) manager, unit) operation" where
  "tick_epoch E elapsed =
     op_seq (op_modify (\<lambda>s. s\<lparr>bm_fault_ins_this_epoch := 0\<rparr>))
     (op_seq (op_modify (\<lambda>s. s\<lparr>bm_policy := po_on_epoch (en_policy E) (bm_policy s)\<rparr>))
     (op_seq (op_modify (\<lambda>s. s\<lparr>bm_tiers := map (tick_budget E elapsed) (bm_tiers s)\<rparr>))
     (op_bind (op_get (\<lambda>s. frame_count (bm_frames s))) (\<lambda>n.
      op_bind (count_resident [0..<n]) (\<lambda>resident_frames.
      (case checked_mul_u64 resident_frames PAGE_SIZE of
         None \<Rightarrow> op_panic ''DRAM residency bytes must fit u64''
       | Some dram_used_bytes \<Rightarrow>
           op_bind (op_get (\<lambda>s. map (\<lambda>tier. \<lparr>rs_name = tb_name (en_tier E) tier, rs_used_bytes = tb_used_bytes (en_tier E) tier,
              rs_price_gib_month = tb_price_gb_month (en_tier E) tier\<rparr>) (bm_tiers s))) (\<lambda>samples.
           op_lift bm_residency_cost (\<lambda>r s. s\<lparr>bm_residency_cost := r\<rparr>) (residency_tick elapsed dram_used_bytes samples))))))))"

text \<open>
  One iteration of a background thread while the manager is alive: \<open>False\<close> when it leaves its loop.
  A panic ends the thread and is what \<open>join\<close> reports later.
\<close>

definition worker_iteration :: "worker \<Rightarrow> (('q, 't, 'p) manager, bool) operation \<Rightarrow> (('q, 't, 'p) manager, bool) operation" where
  "worker_iteration w m s =
     (case m s of
        (oPanic x, s') \<Rightarrow> (oOk False, s'\<lparr>bm_workers := map (\<lambda>(v, b). (v, b \<or> v = w)) (bm_workers s')\<rparr>)
      | (r, s') \<Rightarrow> (r, s'))"

definition worker_step :: "('q, 't, 'p) env \<Rightarrow> worker \<Rightarrow> (('q, 't, 'p) manager, bool) operation" where
  "worker_step E w =
     worker_iteration w
       (case w of
          CoolerWorker \<Rightarrow>
            op_bind (op_get bm_stopping) (\<lambda>stopping.
            if stopping then op_return False else op_seq (background_cooling_step E) (op_return True))
        | EpochWorker \<Rightarrow>
            op_bind (op_get (\<lambda>s. (bm_stopping s, bm_epoch s))) (\<lambda>(stopping, epoch).
            if stopping then op_return False else op_seq (tick_epoch E epoch) (op_return True))
        | PrefetchWorker _ \<Rightarrow> prefetch_worker_step E)"

section \<open>Shutdown\<close>

text \<open>
  Joining: the remaining prefetch workers first drop every queued task, since the stop flag is set.
\<close>

fun drain_prefetch :: "('q, 't, 'p) env \<Rightarrow> nat \<Rightarrow> (('q, 't, 'p) manager, unit) operation" where
  "drain_prefetch E 0 = op_return ()"
| "drain_prefetch E (Suc n) = op_seq (prefetch_worker_step E) (drain_prefetch E n)"

definition live_prefetch_worker :: "(worker \<times> bool) list \<Rightarrow> bool" where
  "live_prefetch_worker ws \<longleftrightarrow> (\<exists>(w, panicked) \<in> set ws. (case w of PrefetchWorker _ \<Rightarrow> True | _ \<Rightarrow> False) \<and> \<not> panicked)"

definition join_workers :: "('q, 't, 'p) env \<Rightarrow> (('q, 't, 'p) manager, unit) operation" where
  "join_workers E =
     op_bind (op_get bm_workers) (\<lambda>ws.
     op_seq (op_modify (\<lambda>s. s\<lparr>bm_workers := []\<rparr>))
     (op_bind (op_get (\<lambda>s. length (bm_prefetch_queue s))) (\<lambda>n.
      op_seq (op_when (live_prefetch_worker ws) (drain_prefetch E n))
      (if list_ex snd ws then op_fail (Io (IoError OtherKind ''a tierbuf background worker panicked''))
       else op_return ()))))"

text \<open>
  One pass over the frames: how many were occupied and whether one was freed.
\<close>

fun flush_frames :: "('q, 't, 'p) env \<Rightarrow> nat list \<Rightarrow> nat \<Rightarrow> bool \<Rightarrow> (('q, 't, 'p) manager, nat \<times> bool) operation" where
  "flush_frames E [] resident made_progress = op_return (resident, made_progress)"
| "flush_frames E (index # rest) resident made_progress =
     op_bind (frame_pid_of index) (\<lambda>pid.
     if \<not> pid_is_valid pid then flush_frames E rest resident made_progress
     else op_bind (resident_of index) (\<lambda>addr.
     op_bind (on_meta index (op_get fr_owner_swip)) (\<lambda>owner.
     (case owner of
        None \<Rightarrow> flush_frames E rest (resident + 1) made_progress
      | Some h \<Rightarrow>
     op_bind (load_swip h) (\<lambda>st.
     op_bind (if st = Hot addr then cas_swip h (\<lambda>c. try_mark_cooling c addr) else op_return (st = Cooling addr)) (\<lambda>cooling.
     if \<not> cooling then flush_frames E rest (resident + 1) made_progress
     else op_bind (on_meta index (op_get fr_generation)) (\<lambda>generation.
          op_bind (evict_ticket E \<lparr>ct_frame_index = index, ct_pid = pid, ct_generation = generation, ct_resident = addr\<rparr>) (\<lambda>outcome.
          flush_frames E rest (resident + 1) (made_progress \<or> outcome = Freed)))))))))"

text \<open>
  \<open>clock\<close> holds, for each pass, whether the deadline has passed when the pass ends; a script that
  ends leaves the loop still running.
\<close>

fun flush_resident_pages :: "('q, 't, 'p) env \<Rightarrow> bool list \<Rightarrow> (('q, 't, 'p) manager, unit) operation" where
  "flush_resident_pages E [] = op_blocks"
| "flush_resident_pages E (expired # clock) =
     op_bind (op_get (\<lambda>s. frame_count (bm_frames s))) (\<lambda>n.
     op_bind (flush_frames E [0..<n] 0 False) (\<lambda>(resident, made_progress).
     if resident = 0 then op_return ()
     else if \<not> made_progress \<and> expired then op_fail Contended
     else flush_resident_pages E clock))"

definition shutdown :: "('q, 't, 'p) env \<Rightarrow> bool list \<Rightarrow> (('q, 't, 'p) manager, unit) operation" where
  "shutdown E clock =
     op_seq (op_modify (\<lambda>s. s\<lparr>bm_stopping := True\<rparr>))
     (op_seq notify_workers
     (op_seq notify_cooler
     (op_bind (op_try (join_workers E)) (\<lambda>worker_result.
      op_bind (op_try (flush_resident_pages E clock)) (\<lambda>flush_result.
      (case flush_result of
         Inl e \<Rightarrow> op_fail e
       | Inr _ \<Rightarrow> of_result worker_result))))))"

text \<open>
  \<open>Drop\<close>: every handle is left evicted.  \<open>pids\<close> is the iteration order of the page map; the loop per
  handle needs at most two rounds.
\<close>

fun unswizzle_handle :: "nat \<Rightarrow> page_id \<Rightarrow> handle \<Rightarrow> (('q, 't, 'p) manager, unit) operation" where
  "unswizzle_handle 0 pid h = op_blocks"
| "unswizzle_handle (Suc fuel) pid h =
     op_bind (load_swip h) (\<lambda>st.
     (case st of
        Hot resident \<Rightarrow> op_seq (cas_swip h (\<lambda>c. try_mark_cooling c resident)) (unswizzle_handle fuel pid h)
      | Cooling resident \<Rightarrow> op_seq (cas_swip h (\<lambda>c. try_unswizzle c resident pid)) (op_return ())
      | Evicted _ \<Rightarrow> op_return ()))"

fun drop_pages :: "page_id list \<Rightarrow> (('q, 't, 'p) manager, unit) operation" where
  "drop_pages [] = op_return ()"
| "drop_pages (pid # rest) =
     op_bind (op_get (\<lambda>s. bm_pages s pid)) (\<lambda>control.
     op_seq (case control of None \<Rightarrow> op_return () | Some pc \<Rightarrow> unswizzle_handle 2 pid (pc_swip pc))
     (drop_pages rest))"

definition manager_drop :: "page_id list \<Rightarrow> (('q, 't, 'p) manager, unit) operation" where
  "manager_drop pids =
     op_seq (op_modify (\<lambda>s. s\<lparr>bm_stopping := True\<rparr>))
     (op_seq notify_workers (op_seq notify_cooler (drop_pages pids)))"

section \<open>Construction\<close>

definition PREFETCH_WORKERS :: nat where "PREFETCH_WORKERS = 4"

definition economics_default :: economics where
  "economics_default = \<lparr>eco_dram_price_gb_month = F_Fin False (9 / 2), eco_epoch = 1000000000\<rparr>"

definition validate_config :: "'t buf_config \<Rightarrow> tierbuf_error + unit" where
  "validate_config config =
     (if cfg_dram_pool_bytes config = 0 \<or> cfg_dram_pool_bytes config mod PAGE_SIZE \<noteq> 0
      then Inl (InvalidConfig ''dram_pool_bytes must be a non-zero multiple of PAGE_SIZE'')
      else if \<not> f_is_finite (cfg_cooling_ratio config)
              \<or> \<not> (f_le f_zero (cfg_cooling_ratio config) \<and> f_le (cfg_cooling_ratio config) (F_Fin False 1))
      then Inl (InvalidConfig ''cooling_ratio must be finite and within 0.0..=1.0'')
      else if \<not> f_is_finite (eco_dram_price_gb_month (cfg_economics config))
              \<or> f_is_sign_negative (eco_dram_price_gb_month (cfg_economics config))
      then Inl (InvalidConfig ''DRAM price must be finite and non-negative'')
      else if eco_epoch (cfg_economics config) = 0
      then Inl (InvalidConfig ''economics epoch must be greater than zero'')
      else if cfg_tiers config = []
      then Inl (InvalidConfig ''at least one lower storage tier is required'')
      else Inr ())"

definition allocate_manager_id :: "(u64, u64) operation" where
  "allocate_manager_id next_id =
     (case try_update (\<lambda>current. checked_add current 1) [] next_id of
        (Inr current, w) \<Rightarrow> (oOk current, w)
      | (Inl _, w) \<Rightarrow> (oErr (InvalidConfig ''buffer-manager identity space exhausted''), w))"

definition start_workers :: "(worker \<times> bool) list" where
  "start_workers = (CoolerWorker, False) # (EpochWorker, False) # map (\<lambda>i. (PrefetchWorker i, False)) [0..<PREFETCH_WORKERS]"

text \<open>
  The state of the operation is the global identity counter.  \<open>mmap\<close>, \<open>base\<close> and \<open>elem\<close> are the
  parameters of the frame table.
\<close>

definition new_with_policy :: "('q, 't, 'p) env \<Rightarrow> (nat \<Rightarrow> io_error + nat) \<Rightarrow> nat \<Rightarrow> nat \<Rightarrow> 't buf_config \<Rightarrow> 'p \<Rightarrow>
    (u64, ('q, 't, 'p) manager) operation" where
  "new_with_policy E mmap base elem config policy =
     op_seq (of_result (validate_config config))
     (op_bind allocate_manager_id (\<lambda>mid.
      op_bind (op_outcome (frame_table_new (en_queue E) mmap base elem (cfg_dram_pool_bytes config))) (\<lambda>frames.
      op_bind (op_outcome (residency_new (eco_dram_price_gb_month (cfg_economics config)))) (\<lambda>cost.
      let n = frame_count frames in
      op_return \<lparr>bm_id = mid, bm_frames = frames, bm_tiers = cfg_tiers config, bm_policy = policy,
        bm_stats = stats_new (map (tb_name (en_tier E)) (cfg_tiers config)), bm_residency_cost = cost,
        bm_directory = \<lparr>pd_entries = Map.empty, pd_lookups = 0\<rparr>, bm_pages = Map.empty, bm_next_pid = 0, bm_cooling = [],
        bm_cooling_target = f_as_u64 (f_ceil (f_mul (f_of_nat n) (cfg_cooling_ratio config))),
        bm_low_watermark = max (div_ceil n 10) 1, bm_eviction_mode = cfg_eviction_mode config,
        bm_fault_ins_this_epoch = 0, bm_exhausted_frame_request = False, bm_sample_cursor = 0, bm_stopping = False,
        bm_epoch = eco_epoch (cfg_economics config), bm_worker_signal = 0, bm_cooler_signal = 0, bm_workers = start_workers,
        bm_prefetch_queue = [], bm_prefetch_running = None, bm_prefetch_in_flight = 0, bm_prefetch_pending = {},
        bm_prefetched = Map.empty, bm_swips = Map.empty, bm_next_handle = 0\<rparr>))))"

definition manager_new :: "('q, 't, economic_policy) env \<Rightarrow> (nat \<Rightarrow> io_error + nat) \<Rightarrow> nat \<Rightarrow> nat \<Rightarrow> 't buf_config \<Rightarrow>
    (u64, ('q, 't, economic_policy) manager) operation" where
  "manager_new E mmap base elem config =
     op_bind (of_result (economic_new \<lparr>ec_dram_price_gb_month = eco_dram_price_gb_month (cfg_economics config),
        ec_epoch_seconds = as_secs_f64 (eco_epoch (cfg_economics config)),
        ec_cpu_cost_usd_per_us = ec_cpu_cost_usd_per_us economic_config_default,
        ec_read_opportunity_cost_usd = ec_read_opportunity_cost_usd economic_config_default\<rparr>)) (\<lambda>policy.
     new_with_policy E mmap base elem config policy)"

end
