(* ===== verification/Pool_Counters.thy ===== *)
theory Pool_Counters
  imports Pool_Lifecycle
begin

text \<open>
  What the operations of src/crates/tierbuf/src/pool.rs do to the counters of the pool: no counter
  ever goes back, a shared fix that succeeds counts exactly one hit, of DRAM or of the tier it read
  from, and nothing else counts a hit.
\<close>

section \<open>Counters that only grow\<close>

definition tier_grown :: "tier_counters \<Rightarrow> tier_counters \<Rightarrow> bool" where
  "tier_grown b a \<longleftrightarrow> tc_name b = tc_name a \<and> tc_demand_hits b \<le> tc_demand_hits a \<and> tc_reads b \<le> tc_reads a \<and> tc_writes b \<le> tc_writes a
     \<and> tc_bytes_read b \<le> tc_bytes_read a \<and> tc_bytes_written b \<le> tc_bytes_written a"

definition stats_grown :: "stats \<Rightarrow> stats \<Rightarrow> bool" where
  "stats_grown b a \<longleftrightarrow> list_all2 tier_grown (st_tiers b) (st_tiers a) \<and> st_dram_hits b \<le> st_dram_hits a \<and> st_faults b \<le> st_faults a
     \<and> st_evictions b \<le> st_evictions a \<and> st_second_chances b \<le> st_second_chances a \<and> st_prefetch_submitted b \<le> st_prefetch_submitted a
     \<and> st_prefetch_hits b \<le> st_prefetch_hits a \<and> st_prefetch_skipped b \<le> st_prefetch_skipped a \<and> st_budget_denied b \<le> st_budget_denied a"

lemma tier_grown_refl [simp]: "tier_grown t t"
  by (simp add: tier_grown_def)

lemma stats_grown_refl [simp]: "stats_grown s s"
  by (simp add: stats_grown_def list_all2_same)

lemma stats_grown_trans: "stats_grown a b \<Longrightarrow> stats_grown b c \<Longrightarrow> stats_grown a c"
proof -
  assume g: "stats_grown a b" "stats_grown b c"
  have "tier_grown x z" if "tier_grown x y" "tier_grown y z" for x y z using that by (auto simp: tier_grown_def)
  then have "list_all2 tier_grown (st_tiers a) (st_tiers c)"
    using g list_all2_trans[of tier_grown tier_grown tier_grown] unfolding stats_grown_def by blast
  then show ?thesis using g by (auto simp: stats_grown_def)
qed

lemma counter_add_le [simp]: "c \<le> counter_add n c"
  using unat_less_pow[of c] by (simp add: word_le_nat_alt unat_counter_add cap64_def min_def)

text \<open>The hits of a snapshot: of DRAM, and of each tier.\<close>

definition hits :: "stats \<Rightarrow> u64 \<times> u64 list" where
  "hits s = (st_dram_hits s, map tc_demand_hits (st_tiers s))"

section \<open>Operations that count no hit\<close>

definition no_hit :: "stats \<Rightarrow> stats \<Rightarrow> bool" where
  "no_hit t t' \<longleftrightarrow> stats_grown t t' \<and> hits t' = hits t"

lemma no_hit_refl [simp]: "no_hit t t"
  by (simp add: no_hit_def)

lemma no_hit_trans: "no_hit a b \<Longrightarrow> no_hit b c \<Longrightarrow> no_hit a c"
  using stats_grown_trans by (auto simp: no_hit_def)

definition counts_kept :: "(('q, 't, 'p) manager, 'a) operation \<Rightarrow> bool" where
  "counts_kept m \<longleftrightarrow> (\<forall>s r s'. m s = (r, s') \<longrightarrow> no_hit (bm_stats s) (bm_stats s'))"

named_theorems counts \<open>operations that count no hit\<close>

lemma counts_keptD: "counts_kept m \<Longrightarrow> m s = (r, s') \<Longrightarrow> no_hit (bm_stats s) (bm_stats s')"
  by (simp add: counts_kept_def)

lemma counts_same: "(\<And>s. bm_stats (snd (m s)) = bm_stats s) \<Longrightarrow> counts_kept m"
  unfolding counts_kept_def by (metis no_hit_refl snd_conv)

lemma counts_basic [counts]:
  "counts_kept (op_return a)" "counts_kept (op_fail e)" "counts_kept (op_panic x)" "counts_kept op_blocks" "counts_kept (op_get f)"
  "counts_kept (op_assert b x)" "counts_kept (op_outcome r)"
  by (rule counts_same, simp add: op_defs op_assert_def op_outcome_def)+

lemma counts_of_result [counts]: "counts_kept (of_result w)"
  by (cases w) (simp_all add: counts_basic)

lemma counts_bind [counts]:
  assumes "counts_kept m" "\<And>a. counts_kept (f a)"
  shows "counts_kept (op_bind m f)"
  unfolding counts_kept_def
proof (intro allI impI)
  fix s r s' assume e: "op_bind m f s = (r, s')"
  obtain x t where m: "m s = (x, t)" by (cases "m s")
  have "no_hit (bm_stats s) (bm_stats t)" using counts_keptD[OF assms(1) m] .
  moreover have "no_hit (bm_stats t) (bm_stats s')" using e m counts_keptD[OF assms(2)] by (cases x) (auto simp: op_bind_def)
  ultimately show "no_hit (bm_stats s) (bm_stats s')" by (rule no_hit_trans)
qed

lemma counts_seq [counts]: "counts_kept m \<Longrightarrow> counts_kept n \<Longrightarrow> counts_kept (op_seq m n)"
  unfolding op_seq_def by (rule counts_bind)

lemma counts_when [counts]: "counts_kept m \<Longrightarrow> counts_kept (op_when b m)"
  by (simp add: op_when_def counts_basic)

lemma counts_try [counts]: "counts_kept m \<Longrightarrow> counts_kept (op_try m)"
  by (fastforce simp: op_try_def counts_kept_def split: prod.splits outcome.splits)

lemma counts_modify [counts]: "(\<And>s. bm_stats (f s) = bm_stats s) \<Longrightarrow> counts_kept (op_modify f)"
  by (rule counts_same) (simp add: op_modify_def)

lemma counts_parts [counts]:
  "counts_kept (on_frames mf)" "counts_kept (on_meta i mm)" "counts_kept (on_meta_bool i g)" "counts_kept (frame_pid_of i)"
  "counts_kept (resident_of i)" "counts_kept (on_directory md)" "counts_kept (on_tier j mt)" "counts_kept (load_swip h)"
  "counts_kept (cas_swip h gc)" "counts_kept (swip_pid_of h)" "counts_kept ensure_running" "counts_kept notify_cooler"
  "counts_kept (consume_prefetched p r k)" "counts_kept (new_swip p)" "counts_kept (bind_owner h)" "counts_kept (on_fault p mp)"
  "counts_kept (op_lift bm_cooling (\<lambda>c s. s\<lparr>bm_cooling := c\<rparr>) mc)" "counts_kept (op_lift bm_residency_cost (\<lambda>c s. s\<lparr>bm_residency_cost := c\<rparr>) mr)"
  "counts_kept (validate_handle h)" "counts_kept allocate_pid" "counts_kept (reservation_drop p)" "counts_kept (try_send t)"
  "counts_kept take_checkout" "counts_kept receive_prefetch_task"
  by (rule counts_same,
      simp add: on_frames_def on_meta_def on_meta_bool_def frame_pid_of_def resident_of_def on_directory_def on_tier_def load_swip_def cas_swip_def
        swip_pid_of_def ensure_running_def notify_cooler_def consume_prefetched_def new_swip_def bind_owner_def on_fault_def op_lift_def op_modify_def
        validate_handle_def allocate_pid_def reservation_drop_def try_send_def take_checkout_def receive_prefetch_task_def Let_def
        split: prod.splits option.splits sum.splits list.splits)+

lemma counts_bump: "(\<And>t. no_hit t (g t)) \<Longrightarrow> counts_kept (bump g)"
  by (auto simp: counts_kept_def bump_def on_stats_def op_lift_def op_modify_def)

lemma counts_events [counts]:
  "counts_kept (bump record_fault)" "counts_kept (bump record_eviction)" "counts_kept (bump record_second_chance)"
  "counts_kept (bump (record_prefetch_submitted n))" "counts_kept (bump record_prefetch_hit)" "counts_kept (bump (record_prefetch_skipped n))"
  "counts_kept (bump record_budget_denied)"
  by (rule counts_bump, simp add: no_hit_def stats_grown_def hits_def list_all2_same record_fault_def record_eviction_def record_second_chance_def
      record_prefetch_submitted_def record_prefetch_hit_def record_prefetch_skipped_def record_budget_denied_def)+

lemma tier_update_grown:
  assumes "\<And>t. tier_grown t (g t)" "on_stats (on_tier_counters i g) s = (r, s')"
  shows "stats_grown (bm_stats s) (bm_stats s')"
proof -
  have "list_all2 tier_grown ts (ts[i := g (ts ! i)])" for ts
    unfolding list_all2_conv_all_nth using assms(1) by (metis length_list_update nth_list_update nth_list_update_neq tier_grown_refl)
  then show ?thesis using assms(2) by (auto simp: on_stats_def op_lift_def on_tier_counters_def stats_grown_def list_all2_same split: if_splits)
qed

lemma counts_tier_counters:
  assumes "\<And>t. tier_grown t (g t) \<and> tc_demand_hits (g t) = tc_demand_hits t"
  shows "counts_kept (on_stats (on_tier_counters i g))"
  unfolding counts_kept_def
proof (intro allI impI)
  fix s r s' assume e: "on_stats (on_tier_counters i g) s = (r, s')"
  have m: "map tc_demand_hits (ts[i := g (ts ! i)]) = map tc_demand_hits ts" if "i < length ts" for ts
    using assms that by (simp add: map_update list_update_same_conv)
  have "stats_grown (bm_stats s) (bm_stats s')" using tier_update_grown[OF _ e] assms by blast
  then show "no_hit (bm_stats s) (bm_stats s')"
    using e m by (auto simp: no_hit_def on_stats_def op_lift_def on_tier_counters_def hits_def split: if_splits)
qed

lemma counts_tier [counts]:
  "counts_kept (on_stats (record_tier_read i b))" "counts_kept (on_stats (record_tier_write i b))"
  unfolding record_tier_read_def record_tier_write_def by (rule counts_tier_counters, simp add: tier_grown_def)+

section \<open>Cooling, eviction and faults\<close>

lemma counts_frames [counts]:
  "counts_kept (free_frame_from_index i)" "counts_kept (free_frame_drop E b i)" "counts_kept (free_frame_publish_pin i)"
  "counts_kept (clear_unpublished_frame i)" "counts_kept (owned_frame_drop E b i)" "counts_kept (resident_is_exact h p r i)"
  "counts_kept (publish_frame h p i)" "counts_kept (second_chance h r)" "counts_kept (on_access E i k)" "counts_kept (count_prefetch_hit p r i)"
  "counts_kept (read_backing_page E i l)"
  by (auto simp: free_frame_from_index_def free_frame_drop_def free_frame_publish_pin_def clear_unpublished_frame_def owned_frame_drop_def
      resident_is_exact_def publish_frame_def second_chance_def on_access_def count_prefetch_hit_def read_backing_page_def
      intro!: counts split: sum.split)

lemma counts_enqueue [counts]: "counts_kept (enqueue_ticket i p r)"
  by (auto simp: enqueue_ticket_def intro!: counts split: option.split)

lemma counts_sample [counts]: "counts_kept (sample_candidates is)"
  by (induction "is") (auto intro!: counts)

lemma counts_cool [counts]: "counts_kept (cool_candidates desired is)"
  by (induction "is") (auto intro!: counts split: option.split)

lemma counts_cold [counts]: "counts_kept (enqueue_cold_candidates b)"
  by (auto simp: enqueue_cold_candidates_def Let_def intro!: counts)

lemma counts_owner [counts]: "counts_kept (exact_cooling_owner t)"
  by (auto simp: exact_cooling_owner_def intro!: counts split: option.split)

lemma counts_demote [counts]: "counts_kept (demote_loop E i ts e)"
  by (induction ts arbitrary: e) (auto intro!: counts split: outcome.split)

lemma counts_write_back [counts]: "counts_kept (evict_write_back E t b)"
  by (auto simp: evict_write_back_def Let_def intro!: counts)

lemma counts_commit [counts]: "counts_kept (evict_commit E t h b x y)"
  unfolding evict_commit_def Let_def by (auto intro!: counts split: option.split)

lemma counts_evict [counts]: "counts_kept (evict_ticket E t)"
  unfolding evict_ticket_def Let_def by (auto intro!: counts split: option.split)

lemma counts_attempts [counts]: "counts_kept (evict_attempts E n e)" "counts_kept (cooler_attempts E n)" "counts_kept (acquire_windows E n e)"
proof -
  show a: "counts_kept (evict_attempts E n e)" for n e
    by (induction n arbitrary: e) (auto intro!: counts split: option.split sum.split eviction_outcome.split)
  show "counts_kept (cooler_attempts E n)" by (induction n) (auto intro!: counts split: option.split)
  show "counts_kept (acquire_windows E n e)" by (induction n arbitrary: e) (auto intro!: counts a split: option.split)
qed

lemma counts_rounds [counts]: "counts_kept (acquire_frame E)" "counts_kept (background_cooling_step E)"
  by (auto simp: acquire_frame_def background_cooling_step_def intro!: counts split: option.split)

lemma counts_location [counts]: "counts_kept (fault_location h p)"
  by (auto simp: fault_location_def intro!: counts split: swip_state.split option.split)

lemma counts_demand [counts]: "counts_kept (demand_fault_into E h p l i)" "counts_kept (perform_demand_fault E h p)"
proof -
  show d: "counts_kept (demand_fault_into E h p l i)" for l i by (auto simp: demand_fault_into_def intro!: counts split: sum.split)
  show "counts_kept (perform_demand_fault E h p)" by (auto simp: perform_demand_fault_def intro!: counts d split: option.split)
qed

lemma counts_leader [counts]:
  assumes "counts_kept m"
  shows "counts_kept (run_as_leader p g m)"
  unfolding counts_kept_def
proof (intro allI impI)
  fix s r s' assume e: "run_as_leader p g m s = (r, s')"
  obtain x t where m: "m s = (x, t)" by (cases "m s")
  have f: "counts_kept (op_seq (on_fault p k) n)" if "counts_kept n" for k :: "(fault_state, unit) operation" and n :: "(('a, 'b, 'c) manager, nat option) operation"
    using that by (intro counts)
  have "no_hit (bm_stats t) (bm_stats s')"
    using e m by (cases x) (auto simp: run_as_leader_def intro: counts_keptD[OF f] counts_basic)
  with counts_keptD[OF assms m] show "no_hit (bm_stats s) (bm_stats s')" by (rule no_hit_trans)
qed

lemma counts_coordinated [counts]: "counts_kept m \<Longrightarrow> counts_kept (coordinated h p m)"
  by (auto simp: coordinated_def intro!: counts split: option.split enter_answer.split)

lemma counts_fault [counts]: "counts_kept (fault E h p)"
  by (auto simp: fault_def intro!: counts)

section \<open>Allocation, prefetching and the background threads\<close>

lemma counts_allocate [counts]: "counts_kept (allocate E)"
  by (auto simp: allocate_def allocate_into_def intro!: counts split: sum.split)

lemma counts_prefetch_parts [counts]:
  "counts_kept (canonical_evicted_pid h)" "counts_kept (try_checkout E)" "counts_kept (task_drop E t)" "counts_kept (finish_task E)"
proof -
  show t: "counts_kept (task_drop E t)" for t by (auto simp: task_drop_def intro!: counts split: option.split)
  show "counts_kept (canonical_evicted_pid h)" "counts_kept (try_checkout E)" "counts_kept (finish_task E)"
    by (auto simp: canonical_evicted_pid_def try_checkout_def finish_task_def intro!: counts t split: option.split)
qed

lemma counts_prefetch_one [counts]: "counts_kept (prefetch_one E n seen h)"
  by (auto simp: prefetch_one_def Let_def intro!: counts split: option.split)

lemma counts_prefetch_loop [counts]: "counts_kept (prefetch_loop E hs n k seen)"
  by (induction hs arbitrary: n k seen) (auto intro!: counts)

lemma counts_prefetch [counts]: "counts_kept (prefetch E hs)"
  by (auto simp: prefetch_def intro!: counts)

lemma counts_prefetch_fault [counts]: "counts_kept (prefetch_fault E t)"
proof -
  have i: "counts_kept (prefetch_fault_into E h p l i)" for h p l i
    unfolding prefetch_fault_into_def Let_def by (auto intro!: counts split: sum.split)
  have "counts_kept (perform_prefetch_fault E h p)" for h p by (auto simp: perform_prefetch_fault_def intro!: counts i split: option.split)
  then show ?thesis by (auto simp: prefetch_fault_def intro!: counts)
qed

lemma counts_count [counts]: "counts_kept (count_resident is)"
  by (induction "is") (auto intro!: counts)

lemma counts_background [counts]: "counts_kept (prefetch_worker_step E)" "counts_kept (tick_epoch E n)"
  by (auto simp: prefetch_worker_step_def tick_epoch_def intro!: counts split: option.split)

lemma counts_iteration [counts]: "counts_kept m \<Longrightarrow> counts_kept (worker_iteration w m)"
  by (fastforce simp: counts_kept_def worker_iteration_def split: prod.splits outcome.splits)

lemma counts_worker [counts]: "counts_kept (worker_step E w)"
  by (auto simp: worker_step_def intro!: counts split: worker.split)

section \<open>A shared fix counts one hit\<close>

definition hit_from :: "fix_source \<Rightarrow> stats \<Rightarrow> stats \<Rightarrow> bool" where
  "hit_from source t t' \<longleftrightarrow> stats_grown t t' \<and>
     (case source of
        Dram \<Rightarrow> hits t' = (counter_add 1 (fst (hits t)), snd (hits t))
      | LowerTier \<Rightarrow> (\<exists>i < length (snd (hits t)). hits t' = (fst (hits t), (snd (hits t))[i := counter_add 1 (snd (hits t) ! i)])))"

lemma hit_from_before: "no_hit a b \<Longrightarrow> hit_from source b c \<Longrightarrow> hit_from source a c"
  using stats_grown_trans by (auto simp: hit_from_def no_hit_def split: fix_source.splits)

lemma hit_from_after: "hit_from source a b \<Longrightarrow> no_hit b c \<Longrightarrow> hit_from source a c"
  using stats_grown_trans by (auto simp: hit_from_def no_hit_def split: fix_source.splits)

text \<open>One hit on success, none on an error.\<close>

definition counts_hit :: "(('q, 't, 'p) manager, shared_guard) operation \<Rightarrow> bool" where
  "counts_hit m \<longleftrightarrow> (\<forall>s r s'. m s = (r, s') \<longrightarrow>
     (case r of oOk g \<Rightarrow> hit_from (sg_source g) (bm_stats s) (bm_stats s') | oErr e \<Rightarrow> no_hit (bm_stats s) (bm_stats s') | _ \<Rightarrow> True))"

lemma counts_hit_bind:
  assumes "counts_kept m" "\<And>a. counts_hit (f a)"
  shows "counts_hit (op_bind m f)"
  unfolding counts_hit_def
proof (intro allI impI)
  fix s r s' assume e: "op_bind m f s = (r, s')"
  obtain x t where m: "m s = (x, t)" by (cases "m s")
  have k: "no_hit (bm_stats s) (bm_stats t)" using counts_keptD[OF assms(1) m] .
  show "case r of oOk g \<Rightarrow> hit_from (sg_source g) (bm_stats s) (bm_stats s') | oErr e \<Rightarrow> no_hit (bm_stats s) (bm_stats s') | _ \<Rightarrow> True"
  proof (cases x)
    case (oOk a)
    then have "f a t = (r, s')" using e m by (simp add: op_bind_def)
    then have "case r of oOk g \<Rightarrow> hit_from (sg_source g) (bm_stats t) (bm_stats s') | oErr e \<Rightarrow> no_hit (bm_stats t) (bm_stats s') | _ \<Rightarrow> True"
      using assms(2) unfolding counts_hit_def by blast
    then show ?thesis using k hit_from_before no_hit_trans by (auto split: outcome.splits)
  qed (use e m k in \<open>auto simp: op_bind_def\<close>)
qed

lemma counts_hit_seq: "counts_kept m \<Longrightarrow> counts_hit n \<Longrightarrow> counts_hit (op_seq m n)"
  unfolding op_seq_def by (rule counts_hit_bind)

lemma counts_hit_none: "counts_hit (op_fail e)" "counts_hit op_blocks"
  by (simp_all add: counts_hit_def op_fail_def op_blocks_def)

lemma record_fix_hit:
  assumes "faulted_tier \<noteq> None \<longrightarrow> faulted" "record_fix faulted faulted_tier s = (r, s')"
  shows "r = oOk () \<and> hit_from (if faulted_tier \<noteq> None then LowerTier else Dram) (bm_stats s) (bm_stats s') \<or> (\<exists>m. r = oPanic m)"
proof (cases faulted_tier)
  case None
  then have "bump record_dram_hit s = (r, s')" using assms(2) by (auto simp: record_fix_def split: if_splits)
  then show ?thesis using None
    by (auto simp: bump_def on_stats_def op_lift_def op_modify_def hit_from_def stats_grown_def hits_def record_dram_hit_def list_all2_same)
next
  case (Some i)
  then have e: "on_stats (record_tier_demand_hit i) s = (r, s')" using assms by (auto simp: record_fix_def)
  have "stats_grown (bm_stats s) (bm_stats s')" using tier_update_grown[OF _ e[unfolded record_tier_demand_hit_def]] by (simp add: tier_grown_def)
  then show ?thesis using e Some
    by (auto simp: record_tier_demand_hit_def on_stats_def op_lift_def on_tier_counters_def hit_from_def hits_def map_update split: if_splits)
qed

text \<open>What follows the count never returns an error.\<close>

definition no_error :: "('s, 'a) operation \<Rightarrow> bool" where
  "no_error m \<longleftrightarrow> (\<forall>s e. fst (m s) \<noteq> oErr e)"

lemma no_error_bind: "no_error m \<Longrightarrow> (\<And>a. no_error (f a)) \<Longrightarrow> no_error (op_bind m f)"
  unfolding no_error_def op_bind_def by (auto split: prod.splits outcome.splits) (metis fst_conv)+

lemma no_error_parts:
  "no_error (op_return a)" "no_error (op_get f)" "no_error (op_modify g)" "no_error (cas_swip h gc)" "no_error (load_swip h)" "no_error (frame_pid_of i)"
  "no_error (resident_of i)" "no_error (on_meta i (op_get k))"
  by (simp_all add: no_error_def op_defs cas_swip_def load_swip_def frame_pid_of_def resident_of_def on_meta_def on_frames_def on_frame_def op_lift_def
      frame_pid_def resident_addr_of_def Let_def split: option.splits prod.splits sum.splits)

lemma no_error_enqueue: "no_error (enqueue_ticket i p r)"
  unfolding enqueue_ticket_def by (auto intro!: no_error_bind no_error_parts split: option.split)

lemma shared_fixed_hit:
  assumes "faulted_tier \<noteq> None \<longrightarrow> faulted"
  shows "counts_hit (shared_fixed E h hint p faulted faulted_tier resident i)"
proof -
  let ?g = "\<lparr>sg_index = i, sg_pid = p, sg_swip = h, sg_source = (if faulted_tier \<noteq> None then LowerTier else Dram)\<rparr>"
  let ?tail = "op_when faulted (op_bind (op_get bm_policy) (\<lambda>q. if po_admit_to_dram (en_policy E) q p hint then op_return ()
     else op_bind (cas_swip h (\<lambda>c. try_mark_cooling c resident)) (\<lambda>marked. op_when marked (enqueue_ticket i p resident))))"
  have k: "counts_kept ?tail" by (auto intro!: counts)
  have n: "no_error ?tail" unfolding op_when_def by (auto intro!: no_error_bind no_error_parts no_error_enqueue)
  have "counts_hit (op_seq (record_fix faulted faulted_tier) (op_seq ?tail (op_return ?g)))"
    unfolding counts_hit_def
  proof (intro allI impI)
    fix s r s' assume e: "op_seq (record_fix faulted faulted_tier) (op_seq ?tail (op_return ?g)) s = (r, s')"
    obtain x t where x: "record_fix faulted faulted_tier s = (x, t)" by (cases "record_fix faulted faulted_tier s")
    obtain y u where y: "?tail t = (y, u)" by (cases "?tail t")
    have "\<not> (\<exists>e. y = oErr e)" using n y unfolding no_error_def by (metis fst_conv)
    moreover have "no_hit (bm_stats t) (bm_stats u)" using counts_keptD[OF k y] .
    ultimately show "case r of oOk g \<Rightarrow> hit_from (sg_source g) (bm_stats s) (bm_stats s') | oErr e \<Rightarrow> no_hit (bm_stats s) (bm_stats s') | _ \<Rightarrow> True"
      using record_fix_hit[OF assms x] e x y hit_from_after by (cases y) (auto simp: op_seq_def op_bind_def op_return_def)
  qed
  then show ?thesis unfolding shared_fixed_def
    by (rule counts_hit_seq[OF _ counts_hit_seq[OF _ counts_hit_seq], rotated 3]) (intro counts)+
qed

lemma fix_shared_loop_hit: "(faulted_tier \<noteq> None \<longrightarrow> faulted) \<Longrightarrow> counts_hit (fix_shared_loop E h hint p fuel faulted faulted_tier)"
proof (induction fuel arbitrary: faulted faulted_tier)
  case 0
  then show ?case by (simp add: counts_hit_none)
next
  case (Suc fuel)
  have "counts_hit (fix_shared_loop E h hint p fuel True (if faulted_tier = None then tier else faulted_tier))" for tier
    using Suc by simp
  then show ?case using Suc.IH[OF Suc.prems] shared_fixed_hit[OF Suc.prems]
    by (auto simp: Let_def intro!: counts_hit_seq counts_hit_bind counts_hit_none counts split: swip_state.split option.split)
qed

lemma fix_shared_hit: "counts_hit (fix_shared_with E fuel h hint)"
  unfolding fix_shared_with_def by (intro counts_hit_seq counts_hit_bind fix_shared_loop_hit) (auto intro!: counts)

lemma fix_shared_counts:
  "fix_shared_with E fuel h hint s = (oOk g, s') \<Longrightarrow> hit_from (sg_source g) (bm_stats s) (bm_stats s')"
  "fix_shared_with E fuel h hint s = (oErr e, s') \<Longrightarrow> no_hit (bm_stats s) (bm_stats s')"
  using fix_shared_hit[of E fuel h hint] unfolding counts_hit_def by fastforce+

lemma guard_counts [counts]: "counts_kept (shared_read_with g f)" "counts_kept (shared_guard_drop g)" "counts_kept (exclusive_write_with x w)"
  "counts_kept (exclusive_guard_drop x)"
  by (auto simp: shared_read_with_def shared_guard_drop_def exclusive_write_with_def exclusive_guard_drop_def intro!: counts)

end
