(* ===== verification/Bench_Report.thy ===== *)
theory Bench_Report
  imports Bench_Random Bench_Config Pool_Counters
begin

text \<open>
  What the benchmark driver reports (src/crates/tierbuf-bench/src/main.rs): the differences of the
  pool's counters over the measured phase, the row computed from a measurement with its consistency
  checks, and its line of the CSV file.  Errors are the messages of the code.
\<close>

section \<open>Differences of counters\<close>

definition res_bind :: "'e + 'a \<Rightarrow> ('a \<Rightarrow> 'e + 'b) \<Rightarrow> 'e + 'b" where
  "res_bind r f = (case r of Inl e \<Rightarrow> Inl e | Inr a \<Rightarrow> f a)"

definition ok_or :: "'a option \<Rightarrow> 'e \<Rightarrow> 'e + 'a" where
  "ok_or x e = (case x of Some a \<Rightarrow> Inr a | None \<Rightarrow> Inl e)"

text \<open>\<open>iter().map(f).collect::<Result<Vec<_>, _>>()\<close>: the values, or the first error.\<close>

fun collect_results :: "('e + 'a) list \<Rightarrow> 'e + 'a list" where
  "collect_results [] = Inr []"
| "collect_results (r # rs) = res_bind r (\<lambda>a. res_bind (collect_results rs) (\<lambda>as. Inr (a # as)))"

definition same_shape :: "stats \<Rightarrow> stats \<Rightarrow> bool" where
  "same_shape before after \<longleftrightarrow> length (st_tiers before) = length (st_tiers after)
     \<and> list_all (\<lambda>(b, a). tc_name b = tc_name a) (zip (st_tiers before) (st_tiers after))"

definition counter_delta :: "string \<Rightarrow> u64 \<Rightarrow> u64 \<Rightarrow> string + u64" where
  "counter_delta name before after = ok_or (checked_sub after before) (name @ '' counter regressed during measurement'')"

definition tier_delta :: "tier_counters \<Rightarrow> tier_counters \<Rightarrow> string + tier_counters" where
  "tier_delta b a =
     res_bind (counter_delta (tc_name a @ '' demand hits'') (tc_demand_hits b) (tc_demand_hits a)) (\<lambda>demand_hits.
     res_bind (counter_delta (tc_name a @ '' reads'') (tc_reads b) (tc_reads a)) (\<lambda>reads.
     res_bind (counter_delta (tc_name a @ '' writes'') (tc_writes b) (tc_writes a)) (\<lambda>writes.
     res_bind (counter_delta (tc_name a @ '' bytes read'') (tc_bytes_read b) (tc_bytes_read a)) (\<lambda>bytes_read.
     res_bind (counter_delta (tc_name a @ '' bytes written'') (tc_bytes_written b) (tc_bytes_written a)) (\<lambda>bytes_written.
     Inr \<lparr>tc_name = tc_name a, tc_demand_hits = demand_hits, tc_reads = reads, tc_writes = writes,
          tc_bytes_read = bytes_read, tc_bytes_written = bytes_written\<rparr>)))))"

definition tier_stats_delta :: "stats \<Rightarrow> stats \<Rightarrow> string + stats" where
  "tier_stats_delta b a =
     (if \<not> same_shape b a then Inl ''tier stats changed shape during measurement''
      else
      res_bind (collect_results (map (\<lambda>(before_tier, after_tier). tier_delta before_tier after_tier) (zip (st_tiers b) (st_tiers a)))) (\<lambda>tiers.
      res_bind (counter_delta ''DRAM hits'' (st_dram_hits b) (st_dram_hits a)) (\<lambda>dram_hits.
      res_bind (counter_delta ''faults'' (st_faults b) (st_faults a)) (\<lambda>faults.
      res_bind (counter_delta ''evictions'' (st_evictions b) (st_evictions a)) (\<lambda>evictions.
      res_bind (counter_delta ''second chances'' (st_second_chances b) (st_second_chances a)) (\<lambda>second_chances.
      res_bind (counter_delta ''prefetch submitted'' (st_prefetch_submitted b) (st_prefetch_submitted a)) (\<lambda>prefetch_submitted.
      res_bind (counter_delta ''prefetch hits'' (st_prefetch_hits b) (st_prefetch_hits a)) (\<lambda>prefetch_hits.
      res_bind (counter_delta ''prefetch skipped'' (st_prefetch_skipped b) (st_prefetch_skipped a)) (\<lambda>prefetch_skipped.
      res_bind (counter_delta ''budget denied'' (st_budget_denied b) (st_budget_denied a)) (\<lambda>budget_denied.
      Inr \<lparr>st_dram_hits = dram_hits, st_faults = faults, st_evictions = evictions, st_second_chances = second_chances,
           st_prefetch_submitted = prefetch_submitted, st_prefetch_hits = prefetch_hits, st_prefetch_skipped = prefetch_skipped,
           st_budget_denied = budget_denied, st_tiers = tiers\<rparr>))))))))))"

text \<open>The \<open>try_fold\<close> over the tiers: the sum of their differences, with its own overflow check.\<close>

fun lower_tier_fold :: "u64 \<Rightarrow> (tier_counters \<times> tier_counters) list \<Rightarrow> string + u64" where
  "lower_tier_fold acc [] = Inr acc"
| "lower_tier_fold acc ((b, a) # rest) =
     res_bind (ok_or (checked_sub (tc_demand_hits a) (tc_demand_hits b))
                 (''demand hit counter for tier '' @ quoted (tc_name a) @ '' regressed during measurement'')) (\<lambda>delta.
     res_bind (ok_or (checked_add acc delta) ''lower-tier demand hit count overflowed u64'') (\<lambda>acc'.
     lower_tier_fold acc' rest))"

definition demand_hit_delta :: "stats \<Rightarrow> stats \<Rightarrow> string + u64 \<times> u64" where
  "demand_hit_delta b a =
     (if \<not> same_shape b a then Inl ''tier stats changed shape during measurement''
      else
      res_bind (ok_or (checked_sub (st_dram_hits a) (st_dram_hits b)) ''DRAM hit counter regressed during measurement'') (\<lambda>dram_hits.
      res_bind (lower_tier_fold 0 (zip (st_tiers b) (st_tiers a))) (\<lambda>lower_tier_hits.
      Inr (dram_hits, lower_tier_hits))))"

section \<open>The row of a measurement\<close>

record phase_result =
  pr_operations :: u64
  pr_point_operations :: u64
  pr_scan_operations :: u64
  pr_point_dram_hits :: u64
  pr_scan_dram_hits :: u64
  pr_elapsed :: nat
  pr_latencies_ns :: "u64 list"
  pr_point_latencies_ns :: "u64 list"
  pr_scan_latencies_ns :: "u64 list"

record bench_row =
  br_fraction :: dram_fraction
  br_throughput_ops :: f64
  br_p50_us :: f64
  br_p99_us :: f64
  br_cost_usd_per_1e6ops :: f64
  br_point_ops :: u64
  br_point_throughput_ops :: f64
  br_point_p50_us :: f64
  br_point_p99_us :: f64
  br_scan_ops :: u64
  br_scan_throughput_ops :: f64
  br_scan_p50_us :: f64
  br_scan_p99_us :: f64
  br_dram_hit_rate :: f64
  br_lower_tier_hit_rate :: f64
  br_point_dram_hit_rate :: f64
  br_scan_dram_hit_rate :: f64

definition u64_as_f64 :: "u64 \<Rightarrow> f64" where
  "u64_as_f64 w = f_of_nat (unat w)"

definition ratio_or_zero :: "u64 \<Rightarrow> u64 \<Rightarrow> f64" where
  "ratio_or_zero numerator denominator =
     (if denominator = 0 then f_zero else f_div (u64_as_f64 numerator) (u64_as_f64 denominator))"

text \<open>The requests are the constants 50 and 99, for which the assertion of \<open>percentile\<close> holds.\<close>

definition percentile_value :: "u64 list \<Rightarrow> nat \<Rightarrow> u64 option" where
  "percentile_value samples requested = (case percentile samples requested of oOk v \<Rightarrow> v | _ \<Rightarrow> None)"

definition ns_as_us :: "u64 \<Rightarrow> f64" where
  "ns_as_us ns = f_div (u64_as_f64 ns) (F_Fin False 1000)"

definition operation_latency_us :: "u64 \<Rightarrow> u64 list \<Rightarrow> string \<Rightarrow> string + f64 \<times> f64" where
  "operation_latency_us operations latencies_ns operation_name =
     (if operations = 0 then Inr (f_zero, f_zero)
      else (let missing = ''measurement produced no '' @ operation_name @ '' latency samples'' in
            res_bind (ok_or (percentile_value latencies_ns 50) missing) (\<lambda>p50_ns.
            res_bind (ok_or (percentile_value latencies_ns 99) missing) (\<lambda>p99_ns.
            Inr (ns_as_us p50_ns, ns_as_us p99_ns)))))"

definition u64_str :: "u64 \<Rightarrow> string" where
  "u64_str w = nat_str (unat w)"

definition from_measurement :: "dram_fraction \<Rightarrow> phase_result \<Rightarrow> f64 \<Rightarrow> stats \<Rightarrow> stats \<Rightarrow> string + bench_row" where
  "from_measurement fraction m cost before after =
     (if pr_operations m = 0 then Inl (''fraction '' @ fraction_label fraction @ '' completed no measured operations'')
      else if pr_elapsed m = 0 then Inl ''measurement elapsed time was zero''
      else
      res_bind (ok_or (percentile_value (pr_latencies_ns m) 50) ''measurement produced no latency samples'') (\<lambda>p50_ns.
      res_bind (ok_or (percentile_value (pr_latencies_ns m) 99) ''measurement produced no latency samples'') (\<lambda>p99_ns.
      res_bind (operation_latency_us (pr_point_operations m) (pr_point_latencies_ns m) ''point'') (\<lambda>(point_p50_us, point_p99_us).
      res_bind (operation_latency_us (pr_scan_operations m) (pr_scan_latencies_ns m) ''scan'') (\<lambda>(scan_p50_us, scan_p99_us).
      res_bind (ok_or (checked_add (pr_point_operations m) (pr_scan_operations m)) ''classified operation count overflowed u64'') (\<lambda>classified_operations.
      if classified_operations \<noteq> pr_operations m
      then Inl (''operation classification mismatch: total='' @ u64_str (pr_operations m) @ '', point='' @ u64_str (pr_point_operations m)
                @ '', scan='' @ u64_str (pr_scan_operations m))
      else if pr_point_operations m < pr_point_dram_hits m \<or> pr_scan_operations m < pr_scan_dram_hits m
      then Inl ''operation DRAM hit count exceeded its operation count''
      else
      res_bind (demand_hit_delta before after) (\<lambda>(dram_hits, lower_tier_hits).
      res_bind (ok_or (checked_add dram_hits lower_tier_hits) ''demand hit count overflowed u64'') (\<lambda>classified_hits.
      if classified_hits \<noteq> pr_operations m
      then Inl (''tier hit classification mismatch: operations='' @ u64_str (pr_operations m) @ '', DRAM hits='' @ u64_str dram_hits
                @ '', lower-tier hits='' @ u64_str lower_tier_hits)
      else
      res_bind (ok_or (checked_add (pr_point_dram_hits m) (pr_scan_dram_hits m)) ''operation DRAM hit count overflowed u64'') (\<lambda>classified_dram_hits.
      if classified_dram_hits \<noteq> dram_hits
      then Inl (''operation DRAM hit classification mismatch: stats='' @ u64_str dram_hits @ '', point='' @ u64_str (pr_point_dram_hits m)
                @ '', scan='' @ u64_str (pr_scan_dram_hits m))
      else
      (let operations = u64_as_f64 (pr_operations m);
           elapsed_seconds = as_secs_f64 (pr_elapsed m)
       in Inr \<lparr>br_fraction = fraction, br_throughput_ops = f_div operations elapsed_seconds,
               br_p50_us = ns_as_us p50_ns, br_p99_us = ns_as_us p99_ns,
               br_cost_usd_per_1e6ops = f_div (f_mul cost (F_Fin False 1000000)) operations,
               br_point_ops = pr_point_operations m,
               br_point_throughput_ops = f_div (u64_as_f64 (pr_point_operations m)) elapsed_seconds,
               br_point_p50_us = point_p50_us, br_point_p99_us = point_p99_us,
               br_scan_ops = pr_scan_operations m,
               br_scan_throughput_ops = f_div (u64_as_f64 (pr_scan_operations m)) elapsed_seconds,
               br_scan_p50_us = scan_p50_us, br_scan_p99_us = scan_p99_us,
               br_dram_hit_rate = f_div (u64_as_f64 dram_hits) operations,
               br_lower_tier_hit_rate = f_div (u64_as_f64 lower_tier_hits) operations,
               br_point_dram_hit_rate = ratio_or_zero (pr_point_dram_hits m) (pr_point_operations m),
               br_scan_dram_hit_rate = ratio_or_zero (pr_scan_dram_hits m) (pr_scan_operations m)\<rparr>))))))))))"

section \<open>The line of the CSV file\<close>

text \<open>\<open>{:.n}\<close> of an \<open>f64\<close>: \<open>n\<close> decimals of the exact value, ties to even.\<close>

definition fixed_str :: "nat \<Rightarrow> f64 \<Rightarrow> string" where
  "fixed_str digits x =
     (case x of
        F_NaN \<Rightarrow> ''NaN''
      | F_Inf s \<Rightarrow> (if s then ''-inf'' else ''inf'')
      | F_Fin s q \<Rightarrow>
          (let scaled = nat (round_even (q * 10 ^ digits));
               decimals = nat_str (scaled mod 10 ^ digits)
           in (if s then ''-'' else '''') @ nat_str (scaled div 10 ^ digits) @ ''.''
              @ replicate (digits - length decimals) (CHR ''0'') @ decimals))"

fun join_comma :: "string list \<Rightarrow> string" where
  "join_comma [] = []"
| "join_comma [x] = x"
| "join_comma (x # y # zs) = x @ '','' @ join_comma (y # zs)"

definition CSV_HEADER :: string where
  "CSV_HEADER = join_comma [''fraction'', ''throughput_ops'', ''p50_us'', ''p99_us'', ''cost_usd_per_1e6ops'',
     ''point_ops'', ''point_throughput_ops'', ''point_p50_us'', ''point_p99_us'',
     ''scan_ops'', ''scan_throughput_ops'', ''scan_p50_us'', ''scan_p99_us'',
     ''dram_hit_rate'', ''lower_tier_hit_rate'', ''point_dram_hit_rate'', ''scan_dram_hit_rate''] @ [CHR 0x0A]"

definition format_csv_row :: "bench_row \<Rightarrow> string" where
  "format_csv_row row =
     join_comma [fraction_label (br_fraction row), fixed_str 3 (br_throughput_ops row), fixed_str 3 (br_p50_us row), fixed_str 3 (br_p99_us row),
       fixed_str 12 (br_cost_usd_per_1e6ops row),
       u64_str (br_point_ops row), fixed_str 3 (br_point_throughput_ops row), fixed_str 3 (br_point_p50_us row), fixed_str 3 (br_point_p99_us row),
       u64_str (br_scan_ops row), fixed_str 3 (br_scan_throughput_ops row), fixed_str 3 (br_scan_p50_us row), fixed_str 3 (br_scan_p99_us row),
       fixed_str 9 (br_dram_hit_rate row), fixed_str 9 (br_lower_tier_hit_rate row), fixed_str 9 (br_point_dram_hit_rate row),
       fixed_str 9 (br_scan_dram_hit_rate row)] @ [CHR 0x0A]"

section \<open>Differences are exact\<close>

lemma res_bind_Inr [simp]: "res_bind r f = Inr b \<longleftrightarrow> (\<exists>a. r = Inr a \<and> f a = Inr b)"
  by (cases r) (simp_all add: res_bind_def)

lemma ok_or_Inr [simp]: "ok_or x e = Inr a \<longleftrightarrow> x = Some a"
  by (cases x) (simp_all add: ok_or_def)

lemma collect_results_Inr: "collect_results rs = Inr xs \<longleftrightarrow> rs = map Inr xs"
  by (induction rs arbitrary: xs) auto

lemma counter_delta_Inr: "counter_delta n b a = Inr d \<longleftrightarrow> b \<le> a \<and> d = a - b"
  by (auto simp: counter_delta_def checked_sub_Some)

text \<open>The sum of a snapshot and a difference.\<close>

definition tier_plus :: "tier_counters \<Rightarrow> tier_counters \<Rightarrow> tier_counters" where
  "tier_plus b d = \<lparr>tc_name = tc_name b, tc_demand_hits = tc_demand_hits b + tc_demand_hits d, tc_reads = tc_reads b + tc_reads d,
     tc_writes = tc_writes b + tc_writes d, tc_bytes_read = tc_bytes_read b + tc_bytes_read d, tc_bytes_written = tc_bytes_written b + tc_bytes_written d\<rparr>"

definition stats_plus :: "stats \<Rightarrow> stats \<Rightarrow> stats" where
  "stats_plus b d = \<lparr>st_dram_hits = st_dram_hits b + st_dram_hits d, st_faults = st_faults b + st_faults d, st_evictions = st_evictions b + st_evictions d,
     st_second_chances = st_second_chances b + st_second_chances d, st_prefetch_submitted = st_prefetch_submitted b + st_prefetch_submitted d,
     st_prefetch_hits = st_prefetch_hits b + st_prefetch_hits d, st_prefetch_skipped = st_prefetch_skipped b + st_prefetch_skipped d,
     st_budget_denied = st_budget_denied b + st_budget_denied d, st_tiers = map2 tier_plus (st_tiers b) (st_tiers d)\<rparr>"

lemma tier_delta_Inr:
  assumes "tc_name b = tc_name a"
  shows "tier_delta b a = Inr d \<longleftrightarrow> tier_grown b a \<and> d = \<lparr>tc_name = tc_name a, tc_demand_hits = tc_demand_hits a - tc_demand_hits b,
    tc_reads = tc_reads a - tc_reads b, tc_writes = tc_writes a - tc_writes b, tc_bytes_read = tc_bytes_read a - tc_bytes_read b,
    tc_bytes_written = tc_bytes_written a - tc_bytes_written b\<rparr>"
  using assms by (auto simp: tier_delta_def counter_delta_Inr tier_grown_def)

lemma tiers_delta:
  assumes "length bs = length as" "list_all (\<lambda>(b, a). tc_name b = tc_name a) (zip bs as)"
  shows "(\<exists>ds. collect_results (map (\<lambda>(b, a). tier_delta b a) (zip bs as)) = Inr ds) \<longleftrightarrow> list_all2 tier_grown bs as"
    and "collect_results (map (\<lambda>(b, a). tier_delta b a) (zip bs as)) = Inr ds \<Longrightarrow> map2 tier_plus bs ds = as"
proof -
  have "((\<exists>ds. collect_results (map (\<lambda>(b, a). tier_delta b a) (zip bs as)) = Inr ds) \<longleftrightarrow> list_all2 tier_grown bs as)
    \<and> (\<forall>ds. collect_results (map (\<lambda>(b, a). tier_delta b a) (zip bs as)) = Inr ds \<longrightarrow> map2 tier_plus bs ds = as)"
    using assms
  proof (induction bs as rule: list_induct2)
    case (Cons b bs a as)
    then have n: "tc_name b = tc_name a" by simp
    show ?case using Cons n by (auto simp: tier_delta_Inr[OF n] tier_plus_def)
  qed simp
  then show "(\<exists>ds. collect_results (map (\<lambda>(b, a). tier_delta b a) (zip bs as)) = Inr ds) \<longleftrightarrow> list_all2 tier_grown bs as"
    "collect_results (map (\<lambda>(b, a). tier_delta b a) (zip bs as)) = Inr ds \<Longrightarrow> map2 tier_plus bs ds = as" by blast+
qed

lemma shape_grown: "stats_grown b a \<Longrightarrow> same_shape b a"
  by (auto simp: stats_grown_def same_shape_def list_all2_iff list_all_iff tier_grown_def split: prod.splits)

lemma lower_tier_fold_eq:
  assumes "length bs = length as" "collect_results (map (\<lambda>(b, a). tier_delta b a) (zip bs as)) = Inr ds"
  shows "lower_tier_fold acc (zip bs as) =
    (let n = unat acc + sum_list (map (unat \<circ> tc_demand_hits) ds)
     in if n < 2 ^ 64 then Inr (word_of_nat n) else Inl ''lower-tier demand hit count overflowed u64'')"
  using assms
proof (induction bs as arbitrary: acc ds rule: list_induct2)
  case Nil
  then show ?case using unat_less_pow[of acc] by (auto simp: Let_def)
next
  case (Cons b bs a as)
  obtain d ds' where d: "ds = d # ds'" "tier_delta b a = Inr d" "collect_results (map (\<lambda>(b, a). tier_delta b a) (zip bs as)) = Inr ds'"
    using Cons.prems by auto
  have h: "checked_sub (tc_demand_hits a) (tc_demand_hits b) = Some (tc_demand_hits d)"
    using d(2) by (auto simp: tier_delta_def counter_delta_Inr checked_sub_def)
  show ?case
  proof (cases "unat acc + unat (tc_demand_hits d) < 2 ^ 64")
    case True
    then have "checked_add acc (tc_demand_hits d) = Some (acc + tc_demand_hits d)" by (simp add: checked_add_Some)
    moreover have "unat (acc + tc_demand_hits d) = unat acc + unat (tc_demand_hits d)" using True by (simp add: unat_word_ariths)
    ultimately show ?thesis using Cons.IH[OF d(3)] h d(1) by (simp add: res_bind_def ok_or_def add.assoc)
  next
    case False
    then have "checked_add acc (tc_demand_hits d) = None" by (simp add: checked_add_def no_olen_add_nat)
    then show ?thesis using False h d(1) by (simp add: res_bind_def ok_or_def Let_def)
  qed
qed

lemma stats_delta_cases:
  "case tier_stats_delta b a of
     Inl e \<Rightarrow> \<not> stats_grown b a
   | Inr d \<Rightarrow> stats_grown b a \<and> stats_plus b d = a \<and> length (st_tiers d) = length (st_tiers b)
       \<and> demand_hit_delta b a = (let n = sum_list (map (unat \<circ> tc_demand_hits) (st_tiers d))
           in if n < 2 ^ 64 then Inr (st_dram_hits d, word_of_nat n) else Inl ''lower-tier demand hit count overflowed u64'')"
proof (cases "same_shape b a")
  case False
  then show ?thesis using shape_grown by (auto simp: tier_stats_delta_def)
next
  case True
  note shape = True[unfolded same_shape_def]
  note T = tiers_delta[OF conjunct1[OF shape] conjunct2[OF shape]]
  have grown: "(\<exists>d. tier_stats_delta b a = Inr d) \<longleftrightarrow> stats_grown b a"
    using T(1) True by (auto simp: tier_stats_delta_def counter_delta_Inr stats_grown_def)
  show ?thesis
  proof (cases "tier_stats_delta b a")
    case (Inl e)
    then show ?thesis using grown by simp
  next
    case (Inr d)
    then have g: "stats_grown b a" using grown by blast
    have tiers: "collect_results (map (\<lambda>(b, a). tier_delta b a) (zip (st_tiers b) (st_tiers a))) = Inr (st_tiers d)"
      and d: "st_dram_hits d = st_dram_hits a - st_dram_hits b" "stats_plus b d = a"
      using Inr True T(2) by (auto simp: tier_stats_delta_def counter_delta_Inr stats_plus_def)
    have "length (zip (st_tiers b) (st_tiers a)) = length (st_tiers d)" using tiers unfolding collect_results_Inr by (metis length_map)
    then have len: "length (st_tiers d) = length (st_tiers b)" using shape by simp
    have "checked_sub (st_dram_hits a) (st_dram_hits b) = Some (st_dram_hits d)" using g d(1) by (simp add: checked_sub_def stats_grown_def)
    then have "demand_hit_delta b a = (let n = sum_list (map (unat \<circ> tc_demand_hits) (st_tiers d))
           in if n < 2 ^ 64 then Inr (st_dram_hits d, word_of_nat n) else Inl ''lower-tier demand hit count overflowed u64'')"
      using True lower_tier_fold_eq[OF conjunct1[OF shape] tiers, of 0] by (simp add: demand_hit_delta_def res_bind_def ok_or_def Let_def)
    then show ?thesis using Inr g d(2) len by simp
  qed
qed

text \<open>
  The difference of two snapshots of the counters exists exactly when the tiers are the same and
  no counter is behind; adding it to the first snapshot gives the second, and the demand hits the row
  uses are its DRAM hits and the sum over its tiers, unless that sum does not fit.
\<close>

theorem stats_delta_exact:
  "case tier_stats_delta b a of
     Inl e \<Rightarrow> \<not> stats_grown b a
   | Inr d \<Rightarrow> stats_grown b a \<and> stats_plus b d = a
       \<and> demand_hit_delta b a = (let n = sum_list (map (unat \<circ> tc_demand_hits) (st_tiers d))
           in if n < 2 ^ 64 then Inr (st_dram_hits d, word_of_nat n) else Inl ''lower-tier demand hit count overflowed u64'')"
  using stats_delta_cases[of b a] by (auto split: sum.splits)

section \<open>Accepted rows are consistent\<close>

definition mag :: "u64 \<Rightarrow> rat" where
  "mag w = round_mag (of_nat (unat w))"

lemma mag_mono: "a \<le> b \<Longrightarrow> mag a \<le> mag b"
  unfolding mag_def by (intro round_mag_mono) (simp_all add: word_le_nat_alt del: of_nat_unat)

lemma mag_nonneg [simp]: "0 \<le> mag a"
  unfolding mag_def by (intro round_mag_nonneg) (simp del: of_nat_unat)

lemma mag_pos: "a \<noteq> 0 \<Longrightarrow> 1 \<le> mag a"
proof -
  assume "a \<noteq> 0"
  then have "1 \<le> unat a" by (simp add: Suc_le_eq unat_gt_0)
  then show ?thesis using round_mag_mono[of 1 "of_nat (unat a)"] round_mag_of_nat[of 1] by (simp add: mag_def del: of_nat_unat)
qed

lemma u64_as_f64_mag: "u64_as_f64 w = F_Fin False (mag w)"
proof -
  have "(of_nat (unat w) :: rat) \<le> of_nat (2 ^ 64)" using unat_less_pow[of w] unfolding of_nat_le_iff by simp
  then have "mag w \<le> round_mag (2 ^ 64)" unfolding mag_def using round_mag_mono[of "of_nat (unat w)" "2 ^ 64"] by (simp del: of_nat_unat)
  also have "round_mag (2 ^ 64) = 2 ^ 64"
    using round_mag_exact[of "2 ^ 64" 1 64] ilog2_powi[of 64] by (simp add: ulp_exp_def power_int_def)
  also have "(2 ^ 64 :: rat) < 2 ^ 1024" by simp
  finally have "\<not> 2 ^ 1024 \<le> mag w" by simp
  moreover have "round_mag 0 = 0" by (simp add: round_mag_def round_even_def)
  ultimately show ?thesis unfolding u64_as_f64_def f_of_nat_def f_round_def Let_def mag_def by simp
qed

lemma f_div_mono:
  assumes "0 \<le> p" "p \<le> q" "0 < c"
  shows "f_le (f_div (F_Fin False p) (F_Fin False c)) (f_div (F_Fin False q) (F_Fin False c))" "f_le f_zero (f_div (F_Fin False p) (F_Fin False c))"
proof -
  have "round_mag (p / c) \<le> round_mag (q / c)" using assms by (intro round_mag_mono) (simp_all add: divide_right_mono)
  moreover have "0 \<le> round_mag (p / c)" "0 \<le> round_mag (q / c)" using assms by (simp_all add: round_mag_nonneg)
  ultimately show "f_le (f_div (F_Fin False p) (F_Fin False c)) (f_div (F_Fin False q) (F_Fin False c))" "f_le f_zero (f_div (F_Fin False p) (F_Fin False c))"
    using assms by (auto simp: f_round_def Let_def f_signed_def f_zero_def)
qed

lemma ns_as_us_mono: "a \<le> b \<Longrightarrow> f_le (ns_as_us a) (ns_as_us b)"
  unfolding ns_as_us_def u64_as_f64_mag by (intro f_div_mono mag_mono) simp_all

lemma ratio_within:
  assumes "a \<le> b" "b \<noteq> 0"
  shows "f_le f_zero (f_div (u64_as_f64 a) (u64_as_f64 b)) \<and> f_le (f_div (u64_as_f64 a) (u64_as_f64 b)) (F_Fin False 1)"
proof -
  have b: "1 \<le> mag b" using mag_pos[OF assms(2)] .
  then have "f_div (F_Fin False (mag b)) (F_Fin False (mag b)) = F_Fin False 1"
    using round_mag_of_nat[of 1] by (simp add: f_round_def)
  then show ?thesis unfolding u64_as_f64_mag
    using f_div_mono[of "mag a" "mag b" "mag b"] mag_mono[OF assms(1)] b by simp
qed

lemma ratio_or_zero_within: "a \<le> b \<Longrightarrow> f_le f_zero (ratio_or_zero a b) \<and> f_le (ratio_or_zero a b) (F_Fin False 1)"
  using ratio_within[of a b] by (auto simp: ratio_or_zero_def f_zero_def f_signed_def)

lemma div_ceil_mono: "a \<le> b \<Longrightarrow> div_ceil a 100 \<le> div_ceil b 100"
  using div_ceil_bounds[of 100 a] div_ceil_bounds[of 100 b] by simp

lemma percentile_value_mono:
  assumes "percentile_value samples 50 = Some a" "percentile_value samples 99 = Some b"
  shows "a \<le> b"
proof -
  let ?n = "length samples" and ?r = "\<lambda>p. div_ceil (length samples * p) 100 - 1"
  have s: "a = sort samples ! ?r 50" "b = sort samples ! ?r 99" "?r 99 < ?n"
    using assms by (auto simp: percentile_value_def percentile_def Let_def split: if_splits option.splits
        simp: checked_mul_u64_def)
  have "?r 50 \<le> ?r 99" using div_ceil_mono[of "?n * 50" "?n * 99"] by simp
  then show ?thesis using s sorted_iff_nth_mono[of "sort samples"] by simp
qed

lemma operation_latency_ordered:
  "operation_latency_us n samples name = Inr (x, y) \<Longrightarrow> f_le x y"
  by (auto simp: operation_latency_us_def Let_def f_zero_def split: if_splits dest!: percentile_value_mono ns_as_us_mono)

text \<open>
  A row that the driver accepts is consistent: its operations are its point and scan operations
  and its DRAM and lower-tier hits, the DRAM hits of the pool are those of its operations, every hit
  rate lies between zero and one, and no median exceeds its 99th percentile.
\<close>

theorem accepted_rows_consistent:
  assumes "from_measurement fraction m cost before after = Inr row"
  shows "\<exists>h l. demand_hit_delta before after = Inr (h, l) \<and> unat h + unat l = unat (pr_operations m)
      \<and> unat h = unat (pr_point_dram_hits m) + unat (pr_scan_dram_hits m)
    \<and> unat (br_point_ops row) + unat (br_scan_ops row) = unat (pr_operations m) \<and> pr_operations m \<noteq> 0 \<and> br_fraction row = fraction
    \<and> (\<forall>rate \<in> {br_dram_hit_rate row, br_lower_tier_hit_rate row, br_point_dram_hit_rate row, br_scan_dram_hit_rate row}.
        f_le f_zero rate \<and> f_le rate (F_Fin False 1))
    \<and> f_le (br_p50_us row) (br_p99_us row) \<and> f_le (br_point_p50_us row) (br_point_p99_us row) \<and> f_le (br_scan_p50_us row) (br_scan_p99_us row)"
proof -
  let ?ops = "pr_operations m" and ?p = "pr_point_operations m" and ?s = "pr_scan_operations m"
  obtain p50 p99 pp50 pp99 sp50 sp99 h l where
    m: "?ops \<noteq> 0" "percentile_value (pr_latencies_ns m) 50 = Some p50" "percentile_value (pr_latencies_ns m) 99 = Some p99"
      "operation_latency_us ?p (pr_point_latencies_ns m) ''point'' = Inr (pp50, pp99)" "operation_latency_us ?s (pr_scan_latencies_ns m) ''scan'' = Inr (sp50, sp99)"
    and c: "checked_add ?p ?s = Some ?ops" "pr_point_dram_hits m \<le> ?p" "pr_scan_dram_hits m \<le> ?s"
      "demand_hit_delta before after = Inr (h, l)" "checked_add h l = Some ?ops" "checked_add (pr_point_dram_hits m) (pr_scan_dram_hits m) = Some h"
    and row: "br_fraction row = fraction" "br_p50_us row = ns_as_us p50" "br_p99_us row = ns_as_us p99" "br_point_ops row = ?p" "br_scan_ops row = ?s"
      "br_point_p50_us row = pp50" "br_point_p99_us row = pp99" "br_scan_p50_us row = sp50" "br_scan_p99_us row = sp99"
      "br_dram_hit_rate row = f_div (u64_as_f64 h) (u64_as_f64 ?ops)" "br_lower_tier_hit_rate row = f_div (u64_as_f64 l) (u64_as_f64 ?ops)"
      "br_point_dram_hit_rate row = ratio_or_zero (pr_point_dram_hits m) ?p" "br_scan_dram_hit_rate row = ratio_or_zero (pr_scan_dram_hits m) ?s"
    using assms by (fastforce simp: from_measurement_def Let_def not_less split: if_splits prod.splits)
  have add: "unat y + unat z = unat w \<and> y \<le> w \<and> z \<le> w" if "checked_add y z = Some w" for y z w :: u64
    using that unfolding checked_add_Some by (auto simp: word_le_nat_alt unat_word_ariths)
  have "h \<le> ?ops" "l \<le> ?ops" "unat h + unat l = unat ?ops" using add[OF c(5)] by simp_all
  moreover have "unat h = unat (pr_point_dram_hits m) + unat (pr_scan_dram_hits m)" using add[OF c(6)] by simp
  ultimately show ?thesis using row m(1) c(4) add[OF c(1)] ratio_within[of _ ?ops] ratio_or_zero_within c(2,3)
      ns_as_us_mono[OF percentile_value_mono[OF m(2,3)]] operation_latency_ordered[OF m(4)] operation_latency_ordered[OF m(5)] by auto
qed

definition demo_counters :: "u64 \<Rightarrow> tier_counters" where
  "demo_counters n = \<lparr>tc_name = ''mock'', tc_demand_hits = n, tc_reads = n, tc_writes = 0, tc_bytes_read = 0, tc_bytes_written = 0\<rparr>"

definition demo_stats :: "u64 \<Rightarrow> u64 \<Rightarrow> stats" where
  "demo_stats h n = \<lparr>st_dram_hits = h, st_faults = n, st_evictions = 0, st_second_chances = 0, st_prefetch_submitted = 0,
     st_prefetch_hits = 0, st_prefetch_skipped = 0, st_budget_denied = 0, st_tiers = [demo_counters n]\<rparr>"

definition demo_phase :: phase_result where
  "demo_phase = \<lparr>pr_operations = 2, pr_point_operations = 1, pr_scan_operations = 1, pr_point_dram_hits = 1, pr_scan_dram_hits = 0,
     pr_elapsed = 1000, pr_latencies_ns = [700, 300], pr_point_latencies_ns = [300], pr_scan_latencies_ns = [700]\<rparr>"

lemma demo_row: "\<exists>row. from_measurement (fraction_new 6) demo_phase f_zero (demo_stats 5 3) (demo_stats 6 4) = Inr row \<and> br_fraction row = fraction_new 6"
  by (simp add: from_measurement_def demo_phase_def demo_stats_def demo_counters_def percentile_value_def percentile_def div_ceil_def checked_mul_u64_def
      operation_latency_us_def demand_hit_delta_def same_shape_def checked_sub_def checked_add_def res_bind_def ok_or_def Let_def)

theorem accepted_rows_consistent_witness:
  "\<exists>row. from_measurement (fraction_new 6) demo_phase f_zero (demo_stats 5 3) (demo_stats 6 4) = Inr row
     \<and> f_le (br_p50_us row) (br_p99_us row) \<and> unat (br_point_ops row) + unat (br_scan_ops row) = 2"
proof -
  obtain row where r: "from_measurement (fraction_new 6) demo_phase f_zero (demo_stats 5 3) (demo_stats 6 4) = Inr row" using demo_row by blast
  show ?thesis using accepted_rows_consistent[OF r] r by (auto simp: demo_phase_def)
qed

section \<open>Rows read back\<close>

text \<open>A reader of the file: the fields of a line.\<close>

fun split_comma :: "string \<Rightarrow> string list" where
  "split_comma [] = [[]]"
| "split_comma (c # cs) =
     (if c = CHR '','' then [] # split_comma cs
      else (case split_comma cs of [] \<Rightarrow> [[c]] | f # fs \<Rightarrow> (c # f) # fs))"

lemma split_comma_plain: "CHR '','' \<notin> set x \<Longrightarrow> split_comma x = [x]"
  by (induction x) auto

lemma split_comma_append: "CHR '','' \<notin> set x \<Longrightarrow> split_comma (x @ CHR '','' # rest) = x # split_comma rest"
  by (induction x) auto

lemma split_join: "fs \<noteq> [] \<Longrightarrow> \<forall>f \<in> set fs. CHR '','' \<notin> set f \<Longrightarrow> split_comma (join_comma fs) = fs"
  by (induction fs rule: join_comma.induct) (auto simp: split_comma_plain split_comma_append)

lemma join_comma_set: "c \<in> set (join_comma fs) \<Longrightarrow> c = CHR '','' \<or> (\<exists>f \<in> set fs. c \<in> set f)"
  by (induction fs rule: join_comma.induct) auto

text \<open>The characters of a field.\<close>

definition field_char :: "char \<Rightarrow> bool" where
  "field_char c \<longleftrightarrow> is_digit c \<or> c \<in> set ''-.NaNinf''"

lemma field_char_plain: "field_char c \<Longrightarrow> c \<noteq> CHR '','' \<and> c \<noteq> CHR 0x0A"
  by (auto simp: field_char_def is_digit_def digit_value_def)

lemma nat_str_field: "\<forall>c \<in> set (nat_str n). field_char c"
  using nat_str_digits[of n] by (auto simp: field_char_def list_all_iff)

lemma fixed_str_field: "\<forall>c \<in> set (fixed_str k x). field_char c"
proof -
  have z: "field_char (CHR ''0'')" by (simp add: field_char_def is_digit_def digit_value_def)
  have p: "field_char (CHR ''.'')" "field_char (CHR ''-'')" by (simp_all add: field_char_def)
  show ?thesis using nat_str_field z p
    by (cases x) (auto simp: fixed_str_def Let_def, auto simp: field_char_def)
qed

lemma fraction_label_field: "\<forall>c \<in> set (fraction_label f). field_char c"
  using nat_str_field by (auto simp: fraction_label_def field_char_def)

definition row_fields :: "bench_row \<Rightarrow> string list" where
  "row_fields row = split_comma (butlast (format_csv_row row))"

lemma row_read:
  shows row_split: "row_fields row = [fraction_label (br_fraction row), fixed_str 3 (br_throughput_ops row), fixed_str 3 (br_p50_us row), fixed_str 3 (br_p99_us row),
     fixed_str 12 (br_cost_usd_per_1e6ops row),
     u64_str (br_point_ops row), fixed_str 3 (br_point_throughput_ops row), fixed_str 3 (br_point_p50_us row), fixed_str 3 (br_point_p99_us row),
     u64_str (br_scan_ops row), fixed_str 3 (br_scan_throughput_ops row), fixed_str 3 (br_scan_p50_us row), fixed_str 3 (br_scan_p99_us row),
     fixed_str 9 (br_dram_hit_rate row), fixed_str 9 (br_lower_tier_hit_rate row), fixed_str 9 (br_point_dram_hit_rate row),
     fixed_str 9 (br_scan_dram_hit_rate row)]"
    (is "_ = ?fs") and row_one_line: "CHR 0x0A \<notin> set (butlast (format_csv_row row))"
proof -
  define fs where "fs = ?fs"
  have f: "\<forall>f \<in> set fs. \<forall>c \<in> set f. field_char c"
    using fixed_str_field nat_str_field fraction_label_field by (simp add: u64_str_def fs_def)
  then have plain: "\<forall>f \<in> set fs. CHR '','' \<notin> set f" "\<forall>f \<in> set fs. CHR 0x0A \<notin> set f" "fs \<noteq> []" using field_char_plain by (blast, blast, simp add: fs_def)
  have b: "butlast (format_csv_row row) = join_comma fs" unfolding format_csv_row_def fs_def by (rule butlast_snoc)
  show "row_fields row = ?fs" unfolding row_fields_def b fs_def[symmetric] using plain(3,1) by (rule split_join)
  show "CHR 0x0A \<notin> set (butlast (format_csv_row row))" unfolding b using plain(2) join_comma_set[of "CHR 0x0A" fs] by auto
qed

text \<open>
  A line of the CSV file reads back: it is one line with as many fields as the header has, in the
  header's order, the operation counts parse to the counts of the row and the fraction to its fraction.
\<close>

theorem csv_row_reads_back:
  assumes "br_fraction row \<in> set DRAM_FRACTIONS"
  shows "last (format_csv_row row) = CHR 0x0A \<and> CHR 0x0A \<notin> set (butlast (format_csv_row row))
    \<and> length (row_fields row) = length (split_comma (butlast CSV_HEADER))
    \<and> (let header = split_comma (butlast CSV_HEADER); field = (\<lambda>name. the (map_of (zip header (row_fields row)) name)) in
       u64_from_str (field ''point_ops'') = Some (unat (br_point_ops row)) \<and> u64_from_str (field ''scan_ops'') = Some (unat (br_scan_ops row))
       \<and> parse_fraction (field ''fraction'') flag = Inr (br_fraction row) \<and> field ''scan_dram_hit_rate'' = fixed_str 9 (br_scan_dram_hit_rate row))"
proof -
  have h: "split_comma (butlast CSV_HEADER) = [''fraction'', ''throughput_ops'', ''p50_us'', ''p99_us'', ''cost_usd_per_1e6ops'',
     ''point_ops'', ''point_throughput_ops'', ''point_p50_us'', ''point_p99_us'',
     ''scan_ops'', ''scan_throughput_ops'', ''scan_p50_us'', ''scan_p99_us'',
     ''dram_hit_rate'', ''lower_tier_hit_rate'', ''point_dram_hit_rate'', ''scan_dram_hit_rate'']" (is "_ = ?h")
    unfolding CSV_HEADER_def butlast_snoc by (rule split_join) simp_all
  have n: "u64_from_str (u64_str w) = Some (unat w)" for w using u64_from_nat_str[of "unat w"] unat_less_pow[of w] by (simp add: u64_str_def)
  have "last (format_csv_row row) = CHR 0x0A" unfolding format_csv_row_def by (rule last_snoc)
  moreover have "length (row_fields row) = length (split_comma (butlast CSV_HEADER))" unfolding h row_split by simp
  ultimately show ?thesis using row_one_line[of row] parse_label[OF assms] n unfolding h row_split Let_def by simp
qed

theorem csv_row_reads_back_witness:
  "\<exists>row. from_measurement (fraction_new 6) demo_phase f_zero (demo_stats 5 3) (demo_stats 6 4) = Inr row \<and> last (format_csv_row row) = CHR 0x0A
     \<and> length (row_fields row) = length (split_comma (butlast CSV_HEADER))"
proof -
  obtain row where r: "from_measurement (fraction_new 6) demo_phase f_zero (demo_stats 5 3) (demo_stats 6 4) = Inr row" "br_fraction row = fraction_new 6"
    using demo_row by blast
  then have "br_fraction row \<in> set DRAM_FRACTIONS" by (simp add: DRAM_FRACTIONS_def)
  then show ?thesis using csv_row_reads_back[of row "[]"] r(1) by blast
qed

end
