(* ===== verification/Pool_Invariant.thy ===== *)
theory Pool_Invariant
  imports Pool_Lifecycle
begin

text \<open>
  The well-formedness invariant of the buffer manager and the abstraction to a map from page
  identifiers to page contents, with the facts about the small steps all pool proofs share.  The
  locale \<open>buffer_pool\<close> collects the contracts of the queue, the tiers and the policy.
\<close>

section \<open>Parts of the frame table\<close>

definition tfr :: "'q frame_table \<Rightarrow> nat \<Rightarrow> frame" where
  "tfr t i = ft_frames t ! i"

definition tdata :: "'q frame_table \<Rightarrow> nat \<Rightarrow> page" where
  "tdata t i = ft_data t ! i"

definition tfree :: "'q frame_table \<Rightarrow> nat \<Rightarrow> bool" where
  "tfree t i = ft_free_membership t ! i"

definition taddr :: "'q frame_table \<Rightarrow> nat \<Rightarrow> resident_addr" where
  "taddr t i = word_of_nat (ft_base t + i * ft_elem t)"

text \<open>The three ways the operations change the table.\<close>

definition put_frame :: "nat \<Rightarrow> frame \<Rightarrow> 'q frame_table \<Rightarrow> 'q frame_table" where
  "put_frame i f t = t\<lparr>ft_frames := (ft_frames t)[i := f]\<rparr>"

definition put_data :: "nat \<Rightarrow> page \<Rightarrow> 'q frame_table \<Rightarrow> 'q frame_table" where
  "put_data i d t = t\<lparr>ft_data := (ft_data t)[i := d]\<rparr>"

definition put_free :: "'q \<Rightarrow> nat \<Rightarrow> bool \<Rightarrow> 'q frame_table \<Rightarrow> 'q frame_table" where
  "put_free q i b t = t\<lparr>ft_free := q, ft_free_membership := (ft_free_membership t)[i := b]\<rparr>"

lemmas table_defs = tfr_def tdata_def tfree_def taddr_def put_frame_def put_data_def put_free_def

lemma put_frame_simps [simp]:
  "frame_count (put_frame i f t) = frame_count t" "tdata (put_frame i f t) = tdata t"
  "tfree (put_frame i f t) = tfree t" "taddr (put_frame i f t) = taddr t"
  "ft_free (put_frame i f t) = ft_free t" "ft_pool (put_frame i f t) = ft_pool t"
  "put_frame i f (put_frame i g t) = put_frame i f t" "put_frame i (tfr t i) t = t"
  by (auto simp: table_defs fun_eq_iff)

lemma put_data_simps [simp]:
  "frame_count (put_data i d t) = frame_count t" "tfr (put_data i d t) = tfr t"
  "tfree (put_data i d t) = tfree t" "taddr (put_data i d t) = taddr t"
  "ft_free (put_data i d t) = ft_free t" "ft_pool (put_data i d t) = ft_pool t"
  by (auto simp: table_defs fun_eq_iff)

lemma put_free_simps [simp]:
  "frame_count (put_free q i b t) = frame_count t" "tfr (put_free q i b t) = tfr t"
  "tdata (put_free q i b t) = tdata t" "taddr (put_free q i b t) = taddr t"
  "ft_free (put_free q i b t) = q" "ft_pool (put_free q i b t) = ft_pool t"
  by (auto simp: table_defs fun_eq_iff)

lemma tfr_put_frame: "i < frame_count t \<Longrightarrow> tfr (put_frame i f t) j = (if j = i then f else tfr t j)"
  by (auto simp: table_defs frame_count_def)

lemma tfr_put_frame_same [simp]: "i < frame_count t \<Longrightarrow> tfr (put_frame i f t) i = f"
  by (simp add: tfr_put_frame)

lemma tfr_put_frame_other [simp]: "j \<noteq> i \<Longrightarrow> tfr (put_frame i f t) j = tfr t j"
  by (simp add: table_defs)

section \<open>Parts of the state\<close>

abbreviation fcount :: "('q, 't, 'p) manager \<Rightarrow> nat" where
  "fcount s \<equiv> frame_count (bm_frames s)"

abbreviation fr :: "('q, 't, 'p) manager \<Rightarrow> nat \<Rightarrow> frame" where
  "fr s \<equiv> tfr (bm_frames s)"

abbreviation fdata :: "('q, 't, 'p) manager \<Rightarrow> nat \<Rightarrow> page" where
  "fdata s \<equiv> tdata (bm_frames s)"

abbreviation is_free :: "('q, 't, 'p) manager \<Rightarrow> nat \<Rightarrow> bool" where
  "is_free s \<equiv> tfree (bm_frames s)"

abbreviation addr :: "('q, 't, 'p) manager \<Rightarrow> nat \<Rightarrow> resident_addr" where
  "addr s \<equiv> taddr (bm_frames s)"

abbreviation ents :: "('q, 't, 'p) manager \<Rightarrow> page_id \<Rightarrow> location option" where
  "ents s \<equiv> pd_entries (bm_directory s)"

abbreviation set_frame :: "nat \<Rightarrow> frame \<Rightarrow> ('q, 't, 'p) manager \<Rightarrow> ('q, 't, 'p) manager" where
  "set_frame i f s \<equiv> s\<lparr>bm_frames := put_frame i f (bm_frames s)\<rparr>"

abbreviation set_cell :: "handle \<Rightarrow> swip_inner \<Rightarrow> ('q, 't, 'p) manager \<Rightarrow> ('q, 't, 'p) manager" where
  "set_cell h c s \<equiv> s\<lparr>bm_swips := (bm_swips s)(h \<mapsto> c)\<rparr>"

definition cell_state :: "(handle \<Rightarrow> swip_inner option) \<Rightarrow> handle \<Rightarrow> swip_state option" where
  "cell_state m h = Option.bind (m h) swip_load"

abbreviation swst :: "('q, 't, 'p) manager \<Rightarrow> handle \<Rightarrow> swip_state option" where
  "swst s \<equiv> cell_state (bm_swips s)"

lemma cell_state_upd [simp]: "cell_state (m(h \<mapsto> c)) k = (if k = h then swip_load c else cell_state m k)"
  by (simp add: cell_state_def)

definition stored :: "('t \<Rightarrow> nat \<Rightarrow> page option) \<Rightarrow> 't list \<Rightarrow> location \<Rightarrow> page option" where
  "stored contents ts l = (if loc_tier_index l < length ts then contents (ts ! loc_tier_index l) (loc_offset l) else None)"

section \<open>The invariant\<close>

definition blank :: "frame \<Rightarrow> bool" where
  "blank f \<longleftrightarrow> fr_pid f = PID_INVALID \<and> fr_owner_swip f = None \<and> latch_state (fr_latch f) = 0"

definition pin_ok :: "frame \<Rightarrow> bool" where
  "pin_ok f \<longleftrightarrow> unat (fr_pin_control f) < 2 ^ 31 \<and> (fr_pin_control f = 0 \<longrightarrow> latch_state (fr_latch f) = 0)"

text \<open>Frame \<open>i\<close> holds page \<open>p\<close>, whose canonical handle \<open>h\<close> points back at it.\<close>

definition held :: "('q, 't, 'p) manager \<Rightarrow> nat \<Rightarrow> page_id \<Rightarrow> handle \<Rightarrow> bool" where
  "held s i p h \<longleftrightarrow> fr_pid (fr s i) = p \<and> fr_owner_swip (fr s i) = Some h
     \<and> map_option pc_swip (bm_pages s p) = Some h \<and> (swst s h = Some (Hot (addr s i)) \<or> swst s h = Some (Cooling (addr s i)))"

text \<open>A clean frame agrees with the copy the directory points at.\<close>

definition clean_ok :: "('t \<Rightarrow> nat \<Rightarrow> page option) \<Rightarrow> ('q, 't, 'p) manager \<Rightarrow> nat \<Rightarrow> page_id \<Rightarrow> bool" where
  "clean_ok contents s i p \<longleftrightarrow> fr_dirty (fr s i)
     \<or> (\<exists>l. ents s p = Some l \<and> stored contents (bm_tiers s) l = Some (fdata s i))"

text \<open>
  A frame is free, or checked out (in \<open>C\<close>), or it holds a page.
\<close>

definition frame_inv :: "('t \<Rightarrow> nat \<Rightarrow> page option) \<Rightarrow> nat set \<Rightarrow> ('q, 't, 'p) manager \<Rightarrow> nat \<Rightarrow> bool" where
  "frame_inv contents C s i \<longleftrightarrow>
     (if is_free s i then i \<notin> C \<and> blank (fr s i) \<and> fr_pin_control (fr s i) = 0
      else if i \<in> C then blank (fr s i) \<and> fr_pin_control (fr s i) = EVICTING
      else pin_ok (fr s i) \<and> (\<exists>p h. held s i p h \<and> clean_ok contents s i p))"

definition page_inv :: "('q, 't, 'p) manager \<Rightarrow> page_id \<Rightarrow> handle \<Rightarrow> bool" where
  "page_inv s p h \<longleftrightarrow> pid_is_valid p \<and> p < bm_next_pid s
     \<and> (\<exists>c. bm_swips s h = Some c \<and> sw_pid c = p \<and> sw_owner_id c = bm_id s)
     \<and> ((\<exists>i < fcount s. held s i p h)
        \<or> swst s h = Some (Evicted p) \<and> ents s p \<noteq> None \<and> bm_prefetched s p = None)"

definition cell_inv :: "('q, 't, 'p) manager \<Rightarrow> handle \<Rightarrow> swip_inner \<Rightarrow> bool" where
  "cell_inv s h c \<longleftrightarrow> swip_wf c \<and> h < bm_next_handle s
     \<and> (sw_owner_id c = bm_id s \<longrightarrow> map_option pc_swip (bm_pages s (sw_pid c)) = Some h)"

definition table_inv :: "('q \<Rightarrow> nat list) \<Rightarrow> ('q \<Rightarrow> nat) \<Rightarrow> 'q frame_table \<Rightarrow> bool" where
  "table_inv elems cap t \<longleftrightarrow> slice_ok t \<and> free_inv elems cap t \<and> 0 < frame_count t
     \<and> (\<forall>i < frame_count t. \<exists>a. frame_ptr (ft_pool t) i = oOk a)
     \<and> length (ft_data t) = frame_count t \<and> (\<forall>d \<in> set (ft_data t). length d = PAGE_SIZE)"

definition dir_inv :: "('t \<Rightarrow> nat \<Rightarrow> page option) \<Rightarrow> ('q, 't, 'p) manager \<Rightarrow> bool" where
  "dir_inv contents s \<longleftrightarrow> (\<forall>p l. ents s p = Some l \<longrightarrow> bm_pages s p \<noteq> None \<and> stored contents (bm_tiers s) l \<noteq> None)
     \<and> inj_on (ents s) (dom (ents s))"

definition pool_inv :: "('q \<Rightarrow> nat list) \<Rightarrow> ('q \<Rightarrow> nat) \<Rightarrow> ('t \<Rightarrow> nat \<Rightarrow> page option) \<Rightarrow> ('t \<Rightarrow> bool) \<Rightarrow> nat set \<Rightarrow>
    ('q, 't, 'p) manager \<Rightarrow> bool" where
  "pool_inv elems cap contents tok C s \<longleftrightarrow>
     table_inv elems cap (bm_frames s) \<and> (\<forall>i < fcount s. frame_inv contents C s i)
     \<and> (\<forall>p pc. bm_pages s p = Some pc \<longrightarrow> page_inv s p (pc_swip pc))
     \<and> (\<forall>h c. bm_swips s h = Some c \<longrightarrow> cell_inv s h c)
     \<and> dir_inv contents s \<and> (\<forall>t \<in> set (bm_tiers s). tok t)
     \<and> length (st_tiers (bm_stats s)) = length (bm_tiers s) \<and> bm_id s \<noteq> 0 \<and> C \<subseteq> {..<fcount s}"

section \<open>The abstraction\<close>

text \<open>
  The content of every page the manager has handed out: the frame of a resident page, the stored
  copy of an evicted one.
\<close>

definition page_view :: "('t \<Rightarrow> nat \<Rightarrow> page option) \<Rightarrow> ('q, 't, 'p) manager \<Rightarrow> page_id \<Rightarrow> page option" where
  "page_view contents s p =
     (case bm_pages s p of
        None \<Rightarrow> None
      | Some pc \<Rightarrow>
          (case swst s (pc_swip pc) of
             None \<Rightarrow> None
           | Some (Hot a) \<Rightarrow> map_option (fdata s) (index_of_resident (bm_frames s) a)
           | Some (Cooling a) \<Rightarrow> map_option (fdata s) (index_of_resident (bm_frames s) a)
           | Some (Evicted _) \<Rightarrow> Option.bind (ents s p) (stored contents (bm_tiers s))))"

section \<open>The contracts the pool is built on\<close>

locale buffer_pool =
  queue: array_queue "en_queue E" elems cap + tiers: tier_backend "en_tier E" contents tok + policy: placement_policy "en_policy E"
  for E :: "('q, 't, 'p) env" and elems :: "'q \<Rightarrow> nat list" and cap :: "'q \<Rightarrow> nat"
    and contents :: "'t \<Rightarrow> nat \<Rightarrow> page option" and tok :: "'t \<Rightarrow> bool"

section \<open>Single accesses\<close>

lemma on_meta_eq:
  "i < fcount s \<Longrightarrow> on_meta i m s = (fst (m (fr s i)), set_frame i (snd (m (fr s i))) s)"
  by (simp add: on_meta_def on_frames_def op_lift_def on_frame_def table_defs split: prod.split)

lemma on_meta_get [simp]: "i < fcount s \<Longrightarrow> on_meta i (op_get g) s = (oOk (g (fr s i)), s)"
  by (simp add: on_meta_eq op_get_def)

lemma on_meta_bool_eq:
  "i < fcount s \<Longrightarrow> on_meta_bool i g s = (oOk (fst (g (fr s i))), set_frame i (snd (g (fr s i))) s)"
  by (simp add: on_meta_bool_def on_meta_eq split: prod.split)

lemma frame_pid_ok: "fr_pid f = PID_INVALID \<or> pid_is_valid (fr_pid f) \<Longrightarrow> frame_pid f = oOk (fr_pid f)"
  by (auto simp: frame_pid_def page_id_new_def pid_is_valid_def Let_def PID_MAX_def PAGE_ID_MASK_value PID_INVALID_def)

subsection \<open>The table invariant\<close>

lemma slice_ok_put [simp]:
  "slice_ok (put_frame i f t) = slice_ok t" "slice_ok (put_data i d t) = slice_ok t" "slice_ok (put_free q i b t) = slice_ok t"
  by (simp_all add: slice_ok_def table_defs)

lemma index_of_resident_cong:
  assumes "frame_count t = frame_count u" "ft_base t = ft_base u" "ft_elem t = ft_elem u"
  shows "index_of_resident t = index_of_resident u"
proof -
  have r: "resident_addr_of t = resident_addr_of u" by (simp add: fun_eq_iff resident_addr_of_def assms)
  show ?thesis unfolding fun_eq_iff index_of_resident_def r assms by simp
qed

lemma index_of_resident_put [simp]:
  "index_of_resident (put_frame i f t) = index_of_resident t" "index_of_resident (put_data i d t) = index_of_resident t"
  "index_of_resident (put_free q i b t) = index_of_resident t"
  using index_of_resident_cong[of "put_frame i f t" t] index_of_resident_cong[of "put_data i d t" t]
    index_of_resident_cong[of "put_free q i b t" t] by (simp_all add: table_defs)

lemma table_inv_put_frame [simp]: "table_inv elems cap (put_frame i f t) = table_inv elems cap t"
  by (simp add: table_inv_def free_inv_def) (simp add: table_defs)

lemma table_inv_put_data:
  "table_inv elems cap t \<Longrightarrow> length d = PAGE_SIZE \<Longrightarrow> table_inv elems cap (put_data i d t)"
  using set_update_subset_insert[of "ft_data t" i d]
  by (auto simp: table_inv_def free_inv_def) (auto simp: table_defs)

lemma table_inv_put_free:
  "table_inv elems cap t \<Longrightarrow> free_inv elems cap (put_free q i b t) \<Longrightarrow> table_inv elems cap (put_free q i b t)"
  by (simp add: table_inv_def) (simp add: table_defs)

lemma tdata_put_data: "length (ft_data t) = frame_count t \<Longrightarrow> i < frame_count t \<Longrightarrow>
   tdata (put_data i d t) j = (if j = i then d else tdata t j)"
  by (auto simp: table_defs)

lemma tfree_put_free: "length (ft_free_membership t) = frame_count t \<Longrightarrow> i < frame_count t \<Longrightarrow>
   tfree (put_free q i b t) j = (if j = i then b else tfree t j)"
  by (auto simp: table_defs)

lemma slice_addr_facts:
  assumes "slice_ok t" "i < frame_count t"
  shows "resident_addr_of t i = oOk (taddr t i)" "addr_ok (taddr t i)" "index_of_resident t (taddr t i) = Some i"
  using resident_addr_of_ok[OF assms] index_of_resident_ok[OF assms] by (simp_all add: taddr_def)

lemma taddr_inj: "slice_ok t \<Longrightarrow> i < frame_count t \<Longrightarrow> j < frame_count t \<Longrightarrow> taddr t i = taddr t j \<longleftrightarrow> i = j"
  using slice_addr_facts(3) by (metis option.inject)

lemma resident_of_ok:
  "slice_ok (bm_frames s) \<Longrightarrow> i < fcount s \<Longrightarrow> resident_of i s = (oOk (addr s i), s)"
  using slice_addr_facts[of "bm_frames s" i] by (simp add: resident_of_def on_frames_def op_lift_def)

lemma read_frame_ok:
  "table_inv elems cap (bm_frames s) \<Longrightarrow> i < fcount s \<Longrightarrow> on_frames (read_frame i) s = (oOk (fdata s i), s)"
  by (auto simp: table_inv_def on_frames_def op_lift_def read_frame_def tdata_def split: outcome.splits)

lemma write_frame_ok:
  "table_inv elems cap (bm_frames s) \<Longrightarrow> i < fcount s \<Longrightarrow>
   on_frames (write_frame i d) s = (oOk (), s\<lparr>bm_frames := put_data i d (bm_frames s)\<rparr>)"
  by (auto simp: table_inv_def on_frames_def op_lift_def write_frame_def put_data_def split: outcome.splits)

lemma tdata_length: "table_inv elems cap t \<Longrightarrow> i < frame_count t \<Longrightarrow> length (tdata t i) = PAGE_SIZE"
  by (auto simp: table_inv_def tdata_def)

subsection \<open>Handles\<close>

lemma load_swip_ok: "swst s h = Some st \<Longrightarrow> load_swip h s = (oOk st, s)"
  by (simp add: load_swip_def cell_state_def)

definition move_cell :: "handle \<Rightarrow> swip_state \<Rightarrow> (handle \<Rightarrow> swip_inner option) \<Rightarrow> handle \<Rightarrow> swip_inner option" where
  "move_cell h st m = m(h := map_option (\<lambda>c. c\<lparr>sw_word := encode_state st\<rparr>) (m h))"

abbreviation move_swip :: "handle \<Rightarrow> swip_state \<Rightarrow> ('q, 't, 'p) manager \<Rightarrow> ('q, 't, 'p) manager" where
  "move_swip h st s \<equiv> s\<lparr>bm_swips := move_cell h st (bm_swips s)\<rparr>"

lemma cell_state_move:
  "state_ok st \<Longrightarrow> cell_state m h \<noteq> None \<Longrightarrow> cell_state (move_cell h st m) k = (if k = h then Some st else cell_state m k)"
  by (auto simp: move_cell_def cell_state_def decode_encode_state split: bind_splits)

lemma move_cell_Some:
  "move_cell h st m k = Some c \<longleftrightarrow> (if k = h then \<exists>c0. m h = Some c0 \<and> c = c0\<lparr>sw_word := encode_state st\<rparr> else m k = Some c)"
  by (auto simp: move_cell_def)

lemma cas_swip_exact:
  assumes "bm_swips s h = Some c" "g c = exact_cas c src dst" "swst s h = Some st"
  shows "cas_swip h g s = (if st = src then (oOk True, move_swip h dst s) else (oOk False, s))"
  using assms by (auto simp: cas_swip_def exact_cas_def cell_state_def move_cell_def fun_upd_idem)

subsection \<open>Frames\<close>

definition bump_word :: "u64 \<Rightarrow> u64" where
  "bump_word w = latch_pack ((latch_version w + 1) AND VERSION_MASK) 0"

lemma latch_state_simps [simp]: "latch_state (bump_word w) = 0" "latch_state (with_state w st) = st"
  by (simp_all add: bump_word_def latch_pack_fields with_state_fields)

lemma frame_lock_exclusive_ok [simp]:
  "latch_state (fr_latch f) = 0 \<Longrightarrow> frame_lock_exclusive f = (oOk (), f\<lparr>fr_latch := with_state (fr_latch f) EXCLUSIVE_STATE\<rparr>)"
  by (simp add: frame_lock_exclusive_def lock_exclusive_def try_lock_exclusive_once_quiet)

lemma frame_drop_exclusive_ok [simp]:
  "latch_state (fr_latch f) = EXCLUSIVE_STATE \<Longrightarrow> frame_drop_exclusive f = (oOk (), f\<lparr>fr_latch := bump_word (fr_latch f)\<rparr>)"
  by (simp add: frame_drop_exclusive_def release_exclusive_def bump_word_def)

definition cleared :: "frame \<Rightarrow> frame" where
  "cleared f = f\<lparr>fr_latch := bump_word (with_state (fr_latch f) EXCLUSIVE_STATE), fr_pid := PID_INVALID,
     fr_owner_swip := None, fr_dirty := False, fr_heat_epoch := 0\<rparr>"

lemma clear_after_eviction_ok:
  "fr_pin_control f = EVICTING \<Longrightarrow> latch_state (fr_latch f) = 0 \<Longrightarrow> clear_after_eviction f = (oOk (), cleared f)"
  by (simp add: clear_after_eviction_def cleared_def is_evicting_def op_bind_def op_get_def op_modify_def op_assert_def op_return_def)

definition installed :: "page_id \<Rightarrow> handle \<Rightarrow> frame \<Rightarrow> frame" where
  "installed p h f = f\<lparr>fr_latch := bump_word (with_state (fr_latch f) EXCLUSIVE_STATE), fr_pid := p,
     fr_owner_swip := Some h, fr_dirty := False, fr_heat_epoch := 0, fr_generation := fr_generation f + 1\<rparr>"

lemma frame_install_ok:
  "pid_is_valid p \<Longrightarrow> fr_pin_control f = EVICTING \<Longrightarrow> latch_state (fr_latch f) = 0 \<Longrightarrow>
   frame_install p h f = (oOk (fr_generation f + 1), installed p h f)"
  by (simp add: frame_install_def installed_def op_bind_def op_get_def op_modify_def op_assert_def op_return_def)

subsection \<open>The free list\<close>

context buffer_pool
begin

lemma pop_free_cases:
  assumes "table_inv elems cap (bm_frames s)"
  obtains "on_frames (pop_free (en_queue E)) s = (oOk None, s)"
  | i q where "on_frames (pop_free (en_queue E)) s = (oOk (Some i), s\<lparr>bm_frames := put_free q i False (bm_frames s)\<rparr>)"
      "i < fcount s" "is_free s i" "free_inv elems cap (put_free q i False (bm_frames s))"
proof (cases "elems (ft_free (bm_frames s))")
  case Nil
  then show ?thesis using queue.pop_free_empty that(1) by (simp add: on_frames_def op_lift_def)
next
  case (Cons i rest)
  have inv: "free_inv elems cap (bm_frames s)" using assms by (simp add: table_inv_def)
  then have "i < fcount s" "is_free s i" using Cons by (auto simp: free_inv_def tfree_def)
  moreover obtain q where q: "pop_free (en_queue E) (bm_frames s) = (oOk (Some i), put_free q i False (bm_frames s))"
    using queue.pop_free_front[OF inv Cons] by (auto simp: put_free_def)
  ultimately show ?thesis using queue.pop_free_inv[OF inv] that(2)[of i q] by (simp add: on_frames_def op_lift_def)
qed

lemma push_free_put:
  assumes "table_inv elems cap (bm_frames s)" "i < fcount s" "\<not> is_free s i"
  obtains q where "on_frames (push_free (en_queue E) i) s = (oOk (Inr ()), s\<lparr>bm_frames := put_free q i True (bm_frames s)\<rparr>)"
    "free_inv elems cap (put_free q i True (bm_frames s))" "elems q = elems (ft_free (bm_frames s)) @ [i]"
proof -
  have inv: "free_inv elems cap (bm_frames s)" using assms by (simp add: table_inv_def)
  obtain q where q: "push_free (en_queue E) i (bm_frames s) = (oOk (Inr ()), put_free q i True (bm_frames s))"
    "elems q = elems (ft_free (bm_frames s)) @ [i]"
    using queue.push_free_ok[OF inv assms(2)] assms(3) by (auto simp: put_free_def tfree_def)
  then show ?thesis using queue.push_free_inv[OF inv, of i] that[of q] by (simp add: on_frames_def op_lift_def)
qed

end

end
