(* ===== verification/Pool_Eviction.thy ===== *)
theory Pool_Eviction
  imports Pool_Invariant
begin

text \<open>
  Correctness of eviction (\<open>evict_ticket\<close> of src/crates/tierbuf/src/pool.rs): it keeps the pool
  invariant, never panics and never changes the content of any page or a pinned frame.
\<close>

section \<open>Consequences of the invariant\<close>

text \<open>What the exactness checks read: identifiers and handles that decode.\<close>

definition meta_ok :: "('q, 't, 'p) manager \<Rightarrow> bool" where
  "meta_ok s \<longleftrightarrow> slice_ok (bm_frames s) \<and> (\<forall>i < fcount s. (fr_pid (fr s i) = PID_INVALID \<or> pid_is_valid (fr_pid (fr s i)))
     \<and> (\<forall>h. fr_owner_swip (fr s i) = Some h \<longrightarrow> swst s h \<noteq> None))"

lemma meta_ok_set_frame:
  "meta_ok s \<Longrightarrow> i < fcount s \<Longrightarrow> fr_pid f = fr_pid (fr s i) \<Longrightarrow> fr_owner_swip f = fr_owner_swip (fr s i) \<Longrightarrow> meta_ok (set_frame i f s)"
  by (auto simp: meta_ok_def tfr_put_frame)

lemma pool_inv_table: "pool_inv elems cap contents tok C s \<Longrightarrow> table_inv elems cap (bm_frames s)"
  and pool_inv_frame: "pool_inv elems cap contents tok C s \<Longrightarrow> i < fcount s \<Longrightarrow> frame_inv contents C s i"
  and pool_inv_page: "pool_inv elems cap contents tok C s \<Longrightarrow> bm_pages s p = Some pc \<Longrightarrow> page_inv s p (pc_swip pc)"
  and pool_inv_cell: "pool_inv elems cap contents tok C s \<Longrightarrow> bm_swips s h = Some c \<Longrightarrow> cell_inv s h c"
  and pool_inv_dir: "pool_inv elems cap contents tok C s \<Longrightarrow> dir_inv contents s"
  and pool_inv_slice: "pool_inv elems cap contents tok C s \<Longrightarrow> slice_ok (bm_frames s)"
  by (auto simp: pool_inv_def table_inv_def)

lemma held_valid:
  assumes "pool_inv elems cap contents tok C s" "held s i p h"
  shows "pid_is_valid p" "p < bm_next_pid s" "\<exists>c. bm_swips s h = Some c \<and> sw_pid c = p \<and> sw_owner_id c = bm_id s \<and> swip_wf c"
  using assms pool_inv_page[OF assms(1)] pool_inv_cell[OF assms(1)] by (fastforce simp: held_def page_inv_def cell_inv_def)+

lemma held_unique:
  assumes "pool_inv elems cap contents tok C s" "held s i p h" "held s j p' h'" "i < fcount s" "j < fcount s" "p = p' \<or> h = h'"
  shows "i = j \<and> p = p' \<and> h = h'"
proof -
  have "p = p'" using held_valid(3)[OF assms(1,2)] held_valid(3)[OF assms(1,3)] assms(6) by auto
  then have "h = h'" using assms(2,3) by (auto simp: held_def)
  then have "addr s i = addr s j" using assms(2,3) by (auto simp: held_def)
  with taddr_inj[OF pool_inv_slice[OF assms(1)] assms(4,5)] \<open>p = p'\<close> \<open>h = h'\<close> show ?thesis by simp
qed

lemma frame_holder:
  assumes "pool_inv elems cap contents tok C s" "i < fcount s" "fr_owner_swip (fr s i) \<noteq> None"
  obtains p h where "held s i p h" "clean_ok contents s i p" "pin_ok (fr s i)" "\<not> is_free s i" "i \<notin> C"
    "fr_pid (fr s i) = p" "fr_owner_swip (fr s i) = Some h"
  using pool_inv_frame[OF assms(1,2)] assms(3) by (auto simp: frame_inv_def blank_def held_def split: if_splits)

lemma pool_inv_meta:
  assumes "pool_inv elems cap contents tok C s"
  shows "meta_ok s"
proof -
  have "fr_pid (fr s i) = PID_INVALID \<or> pid_is_valid (fr_pid (fr s i))" if "i < fcount s" for i
    using pool_inv_frame[OF assms that] held_valid(1)[OF assms]
    by (auto simp: frame_inv_def blank_def held_def split: if_splits)
  moreover have "swst s h \<noteq> None" if "i < fcount s" "fr_owner_swip (fr s i) = Some h" for i h
    using frame_holder[OF assms that(1)] that(2) by (auto simp: held_def)
  ultimately show ?thesis using pool_inv_slice[OF assms] by (simp add: meta_ok_def)
qed

lemma frame_pid_of_ok: "meta_ok s \<Longrightarrow> i < fcount s \<Longrightarrow> frame_pid_of i s = (oOk (fr_pid (fr s i)), s)"
  by (simp add: frame_pid_of_def on_meta_eq frame_pid_ok meta_ok_def)

lemma meta_owner_state:
  assumes "meta_ok s" "i < fcount s" "fr_owner_swip (fr s i) = Some h"
  obtains st c where "swst s h = Some st" "bm_swips s h = Some c" "swip_load c = Some st"
  using assms by (fastforce simp: meta_ok_def cell_state_def bind_eq_Some_conv)

section \<open>Exactness of a ticket\<close>

definition exact_at :: "cooling_ticket \<Rightarrow> handle \<Rightarrow> ('q, 't, 'p) manager \<Rightarrow> bool" where
  "exact_at t h s \<longleftrightarrow> (let i = ct_frame_index t in
     i < fcount s \<and> addr s i = ct_resident t \<and> fr_pid (fr s i) = ct_pid t \<and> fr_generation (fr s i) = ct_generation t
     \<and> fr_owner_swip (fr s i) = Some h \<and> map_option sw_pid (bm_swips s h) = Some (ct_pid t)
     \<and> swst s h = Some (Cooling (ct_resident t)) \<and> map_option pc_swip (bm_pages s (ct_pid t)) = Some h)"

lemma exact_cooling_owner_eq:
  assumes "meta_ok s"
  shows "\<exists>r. exact_cooling_owner t s = (oOk r, s) \<and> (\<forall>h. r = Some h \<longleftrightarrow> exact_at t h s)"
proof (cases "ct_frame_index t < fcount s")
  case False
  then show ?thesis by (intro exI[of _ None]) (simp add: exact_cooling_owner_def exact_at_def op_bind_def op_get_def op_return_def)
next
  case True
  note r = resident_of_ok[OF _ True] and p = frame_pid_of_ok[OF assms True]
  have sl: "slice_ok (bm_frames s)" using assms by (simp add: meta_ok_def)
  show ?thesis
  proof (cases "fr_owner_swip (fr s (ct_frame_index t))")
    case None
    then show ?thesis using True r[OF sl] p
      by (intro exI[of _ None]) (simp add: exact_cooling_owner_def exact_at_def op_bind_def op_get_def op_return_def
          on_meta_get[unfolded op_get_def])
  next
    case (Some h)
    obtain st c where c: "swst s h = Some st" "bm_swips s h = Some c" using meta_owner_state[OF assms True Some] .
    show ?thesis using True r[OF sl] p c Some load_swip_ok[OF c(1)]
      by (intro exI[of _ "if exact_at t h s then Some h else None"])
        (auto simp: exact_cooling_owner_def exact_at_def op_bind_def op_get_def op_return_def Let_def
          swip_pid_of_def on_meta_get[unfolded op_get_def] split: option.splits)
  qed
qed

lemma exact_at_unique: "exact_at t h s \<Longrightarrow> exact_at t h' s \<Longrightarrow> h = h'"
  by (simp add: exact_at_def Let_def)

lemma exact_cooling_owner_at: "meta_ok s \<Longrightarrow> exact_at t h s \<Longrightarrow> exact_cooling_owner t s = (oOk (Some h), s)"
  using exact_cooling_owner_eq[of s t] by auto

section \<open>Writing a page back\<close>

lemma stored_same:
  "k < length ts \<Longrightarrow> contents t' = contents (ts ! k) \<Longrightarrow> stored contents (ts[k := t']) = stored contents ts"
  by (auto simp: stored_def fun_eq_iff nth_list_update)

lemma stored_write:
  "k < length ts \<Longrightarrow> contents t' = (contents (ts ! k))(off \<mapsto> b) \<Longrightarrow>
   stored contents (ts[k := t']) = (stored contents ts)(\<lparr>loc_tier_index = k, loc_offset = off\<rparr> \<mapsto> b)"
  by (auto simp: stored_def fun_eq_iff nth_list_update)

lemma stored_free:
  "loc_tier_index l < length ts \<Longrightarrow> contents t' = (contents (ts ! loc_tier_index l))(loc_offset l := None) \<Longrightarrow>
   stored contents (ts[loc_tier_index l := t']) = (stored contents ts)(l := None)"
  by (auto simp: stored_def fun_eq_iff nth_list_update)

lemma tiers_ok_update: "\<forall>t \<in> set ts. tok t \<Longrightarrow> tok t' \<Longrightarrow> \<forall>t \<in> set (ts[k := t']). tok t"
  using set_update_subset_insert[of ts k t'] by auto

lemma on_stats_tier:
  assumes "k < length (st_tiers (bm_stats s))"
  obtains st where "on_stats (on_tier_counters k g) s = (oOk (), s\<lparr>bm_stats := st\<rparr>)"
    "length (st_tiers st) = length (st_tiers (bm_stats s))"
  using assms that[of "(bm_stats s)\<lparr>st_tiers := (st_tiers (bm_stats s))[k := g (st_tiers (bm_stats s) ! k)]\<rparr>"]
  by (simp add: on_stats_def op_lift_def on_tier_counters_def)

lemma bump_eq: "bump g s = (oOk (), s\<lparr>bm_stats := g (bm_stats s)\<rparr>)"
  by (simp add: bump_def on_stats_def op_lift_def op_modify_def)

lemma record_lengths [simp]:
  "st_tiers (record_budget_denied st) = st_tiers st" "st_tiers (record_eviction st) = st_tiers st"
  "st_tiers (record_fault st) = st_tiers st" "st_tiers (record_dram_hit st) = st_tiers st"
  "st_tiers (record_second_chance st) = st_tiers st" "st_tiers (record_prefetch_hit st) = st_tiers st"
  by (simp_all add: record_defs)

text \<open>The tiers after a write-back: unchanged contents, or one new location with the page.\<close>

definition written_back :: "('t \<Rightarrow> nat \<Rightarrow> page option) \<Rightarrow> ('t \<Rightarrow> bool) \<Rightarrow> page \<Rightarrow> location option \<Rightarrow>
    't list \<Rightarrow> 't list \<Rightarrow> stats \<Rightarrow> bool" where
  "written_back contents tok page new old ts st \<longleftrightarrow> length ts = length old \<and> (\<forall>t \<in> set ts. tok t)
     \<and> length (st_tiers st) = length ts
     \<and> (case new of None \<Rightarrow> stored contents ts = stored contents old
        | Some l \<Rightarrow> stored contents old l = None \<and> stored contents ts = (stored contents old)(l \<mapsto> page))"

lemma written_back_base:
  "written_back contents tok page new old ts st \<Longrightarrow> stored contents old = stored contents old' \<Longrightarrow> length old = length old' \<Longrightarrow>
   written_back contents tok page new old' ts st"
  by (cases new) (simp_all add: written_back_def)

context buffer_pool
begin

lemma tier_consume_ok:
  assumes "tok t" "tier_consume E n t = (b, t')"
  shows "tok t'" "contents t' = contents t"
  using assms tiers.budget_law[OF assms(1)] by (auto simp: tier_consume_def split: option.splits prod.splits)

lemma demote_loop_ok:
  assumes "table_inv elems cap (bm_frames s)" "i < fcount s" "\<forall>k \<in> set ks. k < length (bm_tiers s)"
    "\<forall>t \<in> set (bm_tiers s). tok t" "length (st_tiers (bm_stats s)) = length (bm_tiers s)"
  shows "\<exists>new e ts st. demote_loop E i ks le s = (oOk (new, e), s\<lparr>bm_tiers := ts, bm_stats := st\<rparr>)
     \<and> written_back contents tok (fdata s i) new (bm_tiers s) ts st"
  using assms
proof (induction ks arbitrary: s le)
  case Nil
  then show ?case by (intro exI[of _ None] exI[of _ le] exI[of _ "bm_tiers s"] exI[of _ "bm_stats s"])
      (simp add: op_return_def written_back_def)
next
  case (Cons k ks)
  then have k: "k < length (bm_tiers s)" and tk: "tok (bm_tiers s ! k)" by auto
  obtain b t1 where c: "tier_consume E (word_of_nat PAGE_SIZE) (bm_tiers s ! k) = (b, t1)" by fastforce
  let ?s1 = "s\<lparr>bm_tiers := (bm_tiers s)[k := t1]\<rparr>"
  note t1 = tier_consume_ok[OF tk c]
  have s1: "stored contents ((bm_tiers s)[k := t1]) = stored contents (bm_tiers s)" "\<forall>t \<in> set ((bm_tiers s)[k := t1]). tok t"
    using stored_same[OF k, of contents t1] t1 tiers_ok_update[OF Cons.prems(4), of t1] by simp_all
  have ct: "on_tier k (tier_consume E (word_of_nat PAGE_SIZE)) s = (oOk b, ?s1)" using k c by (simp add: on_tier_def)
  show ?case
  proof (cases b)
    case False
    let ?s2 = "?s1\<lparr>bm_stats := record_budget_denied (bm_stats s)\<rparr>" and ?le = "Some (TierExhausted (tb_name (en_tier E) t1))"
    have e: "demote_loop E i (k # ks) le s = demote_loop E i ks ?le ?s2"
      using ct False k by (simp add: op_seq_def op_bind_def op_get_def bump_eq)
    obtain new e' ts st where "demote_loop E i ks ?le ?s2 = (oOk (new, e'), ?s2\<lparr>bm_tiers := ts, bm_stats := st\<rparr>)"
      "written_back contents tok (fdata s i) new (bm_tiers ?s2) ts st"
      using Cons.IH[of ?s2 ?le] Cons.prems s1 by auto
    then show ?thesis using e written_back_base[OF _ s1(1)] by (intro exI[of _ new] exI[of _ e'] exI[of _ ts] exI[of _ st]) simp
  next
    case True
    have rd: "on_frames (read_frame i) ?s1 = (oOk (fdata s i), ?s1)" using read_frame_ok[of elems cap ?s1 i] Cons.prems by simp
    obtain r t2 where w: "tb_write (en_tier E) (fdata s i) t1 = (r, t2)" by fastforce
    let ?s2 = "s\<lparr>bm_tiers := (bm_tiers s)[k := t2]\<rparr>"
    have wt: "on_tier k (tb_write (en_tier E) (fdata s i)) ?s1 = (oOk r, ?s2)" using k w by (simp add: on_tier_def)
    have ok2: "\<forall>t \<in> set ((bm_tiers s)[k := t2]). tok t" using tiers.write_law[OF t1(1) w] tiers_ok_update[OF Cons.prems(4), of t2] by simp
    note step = ct True rd wt
    from tiers.write_law[OF t1(1) w] show ?thesis
    proof (elim conjE disjE exE)
      fix off assume r: "r = oOk off" "contents t1 off = None" "contents t2 = (contents t1)(off \<mapsto> fdata s i)"
      obtain st where st: "on_stats (record_tier_write k (word_of_nat PAGE_SIZE)) ?s2 = (oOk (), ?s2\<lparr>bm_stats := st\<rparr>)"
        "length (st_tiers st) = length (bm_tiers s)"
        using on_stats_tier[of k ?s2] k Cons.prems(5) unfolding record_tier_write_def by auto
      have "demote_loop E i (k # ks) le s = (oOk (Some \<lparr>loc_tier_index = k, loc_offset = off\<rparr>, le), ?s2\<lparr>bm_stats := st\<rparr>)"
        using step r(1) st(1) by (simp add: op_seq_def op_bind_def op_return_def)
      moreover have "written_back contents tok (fdata s i) (Some \<lparr>loc_tier_index = k, loc_offset = off\<rparr>) (bm_tiers s) ((bm_tiers s)[k := t2]) st"
        using r st ok2 stored_write[OF k, of contents t2 off "fdata s i"] t1(2) k by (simp add: written_back_def) (simp add: stored_def)
      ultimately show ?thesis by (intro exI conjI) simp_all
    next
      fix e assume r: "r = oErr e" "contents t2 = contents t1"
      have s2: "stored contents ((bm_tiers s)[k := t2]) = stored contents (bm_tiers s)" using stored_same[OF k, of contents t2] r t1 by simp
      have e: "demote_loop E i (k # ks) le s = demote_loop E i ks (Some e) ?s2"
        using step r(1) by (simp add: op_seq_def op_bind_def)
      obtain new e' ts st where "demote_loop E i ks (Some e) ?s2 = (oOk (new, e'), ?s2\<lparr>bm_tiers := ts, bm_stats := st\<rparr>)"
        "written_back contents tok (fdata s i) new (bm_tiers ?s2) ts st"
        using Cons.IH[of ?s2 "Some e"] Cons.prems ok2 by auto
      then show ?thesis using e written_back_base[OF _ s2] by (intro exI[of _ new] exI[of _ e'] exI[of _ ts] exI[of _ st]) simp
    qed
  qed
qed

lemma evict_write_back_ok:
  assumes "table_inv elems cap (bm_frames s)" "ct_frame_index t < fcount s"
    "\<forall>t \<in> set (bm_tiers s). tok t" "length (st_tiers (bm_stats s)) = length (bm_tiers s)"
  shows "\<exists>new e ts st. evict_write_back E t needs s = (oOk (new, e), s\<lparr>bm_tiers := ts, bm_stats := st\<rparr>)
     \<and> written_back contents tok (fdata s (ct_frame_index t)) new (bm_tiers s) ts st \<and> (\<not> needs \<longrightarrow> new = None)"
proof (cases needs)
  case False
  then show ?thesis using assms
    by (intro exI[of _ None] exI[of _ "bm_tiers s"] exI[of _ "bm_stats s"]) (simp add: evict_write_back_def op_return_def written_back_def)
next
  case True
  then show ?thesis using demote_loop_ok[OF assms(1,2) _ assms(3,4)] assms(2)
    by (simp add: evict_write_back_def op_bind_def op_get_def on_meta_get[unfolded op_get_def] Let_def)
qed

end

section \<open>Logical moves that keep the invariant and the pages\<close>

lemma view_held:
  assumes "pool_inv elems cap contents tok C s" "i < fcount s" "held s i p h"
  shows "page_view contents s p = Some (fdata s i)"
  using assms(3) slice_addr_facts(3)[OF pool_inv_slice[OF assms(1)] assms(2)]
  by (auto simp: held_def page_view_def)

lemma view_evicted:
  "map_option pc_swip (bm_pages s p) = Some h \<Longrightarrow> swst s h = Some (Evicted p') \<Longrightarrow>
   page_view contents s p = Option.bind (ents s p) (stored contents (bm_tiers s))"
  by (auto simp: page_view_def)

lemma page_cases:
  assumes "pool_inv elems cap contents tok C s" "bm_pages s p = Some pc"
  obtains i where "i < fcount s" "held s i p (pc_swip pc)"
  | l where "swst s (pc_swip pc) = Some (Evicted p)" "ents s p = Some l" "bm_prefetched s p = None"
  using pool_inv_page[OF assms] by (auto simp: page_inv_def)

text \<open>Two states with the same pages, and for each page the same place or the same content, have the same view.\<close>

lemma page_view_eqI:
  assumes "pool_inv elems cap contents tok C s" "pool_inv elems cap contents tok C' s'"
    and dom: "map_option pc_swip \<circ> bm_pages s = map_option pc_swip \<circ> bm_pages s'"
    and res: "\<And>i p h. i < fcount s \<Longrightarrow> held s i p h \<Longrightarrow> page_view contents s' p = Some (fdata s i)"
    and ev: "\<And>p h l. map_option pc_swip (bm_pages s p) = Some h \<Longrightarrow> swst s h = Some (Evicted p) \<Longrightarrow> ents s p = Some l \<Longrightarrow>
               page_view contents s' p = stored contents (bm_tiers s) l"
  shows "page_view contents s' = page_view contents s"
proof
  fix p
  show "page_view contents s' p = page_view contents s p"
  proof (cases "bm_pages s p")
    case None
    then have "bm_pages s' p = None" using fun_cong[OF dom, of p] by simp
    with None show ?thesis by (simp add: page_view_def)
  next
    case (Some pc)
    show ?thesis
    proof (cases rule: page_cases[OF assms(1) Some])
      case (1 i)
      then show ?thesis using res view_held[OF assms(1)] by simp
    next
      case (2 l)
      then show ?thesis using ev[of p "pc_swip pc" l] Some by (simp add: view_evicted[of s p "pc_swip pc" p])
    qed
  qed
qed

lemma held_cong:
  "held s i p h \<Longrightarrow> fr_pid (fr s' i) = fr_pid (fr s i) \<Longrightarrow> fr_owner_swip (fr s' i) = fr_owner_swip (fr s i) \<Longrightarrow>
   bm_pages s' p = bm_pages s p \<Longrightarrow> swst s' h = swst s h \<Longrightarrow> addr s' i = addr s i \<Longrightarrow> held s' i p h"
  by (simp add: held_def)

lemma cell_inv_move:
  assumes "pool_inv elems cap contents tok C s" "state_ok st" "move_cell h st (bm_swips s) k = Some c"
  shows "cell_inv s k c"
  using assms(3) pool_inv_cell[OF assms(1)] assms(2)
  by (auto simp: move_cell_Some cell_inv_def swip_wf_def decode_encode_state split: if_splits)

text \<open>The page of an occupied frame moves to the lower tiers.\<close>

lemma evict_move:
  assumes inv: "pool_inv elems cap contents tok C s" and i: "i < fcount s" and held: "held s i p h"
    and fr: "bm_frames s' = put_free q i True (put_frame i f (bm_frames s))" "free_inv elems cap (bm_frames s')"
      "blank f" "fr_pin_control f = 0"
    and sw: "bm_swips s' = move_cell h (Evicted p) (bm_swips s)"
    and dir: "ents s' = (ents s)(p \<mapsto> l)" "stored contents (bm_tiers s') l = Some (fdata s i)"
      "\<And>p' l'. p' \<noteq> p \<Longrightarrow> ents s p' = Some l' \<Longrightarrow> l' \<noteq> l \<and> stored contents (bm_tiers s') l' = stored contents (bm_tiers s) l'"
    and tiers: "\<forall>t \<in> set (bm_tiers s'). tok t" "length (st_tiers (bm_stats s')) = length (bm_tiers s')"
    and same: "bm_pages s' = bm_pages s" "bm_id s' = bm_id s" "bm_next_pid s' = bm_next_pid s"
      "bm_next_handle s' = bm_next_handle s" "bm_prefetched s' = (bm_prefetched s)(p := None)"
  shows "pool_inv elems cap contents tok C s'" "page_view contents s' = page_view contents s"
proof -
  note valid = held_valid[OF inv held] and sl = pool_inv_slice[OF inv]
  have occ: "\<not> is_free s i" "i \<notin> C"
    using pool_inv_frame[OF inv i] held by (auto simp: frame_inv_def held_def blank_def split: if_splits)
  have ev: "cell_state (move_cell h (Evicted p) (bm_swips s)) k = (if k = h then Some (Evicted p) else swst s k)" for k
    using valid(1) held by (intro cell_state_move) (auto simp: held_def)
  have tb: "fcount s' = fcount s" "addr s' = addr s" "fdata s' = fdata s" "index_of_resident (bm_frames s') = index_of_resident (bm_frames s)"
    by (simp_all add: fr(1))
  have mem: "length (ft_free_membership (put_frame i f (bm_frames s))) = fcount s"
    using pool_inv_table[OF inv] by (simp add: table_inv_def free_inv_def put_frame_def)
  have free: "is_free s' j = (if j = i then True else is_free s j)" for j
    unfolding fr(1) using mem i by (subst tfree_put_free) auto
  have fr': "fr s' j = (if j = i then f else fr s j)" for j unfolding fr(1) using i by (simp add: tfr_put_frame)
  have other: "j \<noteq> i \<and> p' \<noteq> p \<and> h' \<noteq> h" if "held s j p' h'" "j < fcount s" "j \<noteq> i" for j p' h'
    using held_unique[OF inv that(1) held that(2) i] that(3) by auto
  have keep: "held s' j p' h'" if "held s j p' h'" "j < fcount s" "j \<noteq> i" for j p' h'
    using that other[OF that] by (intro held_cong[OF that(1)]) (auto simp: fr' ev sw same tb)
  have frames: "frame_inv contents C s' j" if j: "j < fcount s" for j
  proof (cases "j = i")
    case True
    then show ?thesis using fr(3,4) occ by (simp add: frame_inv_def free fr')
  next
    case False
    have "clean_ok contents s' j p'" if "held s j p' h'" "clean_ok contents s j p'" for p' h'
      using that(2) other[OF that(1) j False] dir(3)[of p'] False by (auto simp: clean_ok_def fr' dir(1) tb)
    with pool_inv_frame[OF inv j] keep[OF _ j False] False show ?thesis by (simp add: frame_inv_def free fr' split: if_splits) blast
  qed
  have pages: "page_inv s' p' (pc_swip pc)" if pc: "bm_pages s p' = Some pc" for p' pc
  proof (cases "p' = p")
    case True
    then have "pc_swip pc = h" using held pc by (simp add: held_def)
    with True valid show ?thesis by (auto simp: page_inv_def ev dir(1) same sw move_cell_Some)
  next
    case False
    have P: "page_inv s p' (pc_swip pc)" using pool_inv_page[OF inv pc] .
    then have ne: "pc_swip pc \<noteq> h" using False valid(3) by (auto simp: page_inv_def)
    have "\<exists>j < fcount s. held s' j p' (pc_swip pc)" if "j < fcount s" "held s j p' (pc_swip pc)" for j
    proof -
      have "j \<noteq> i" using held_unique[OF inv that(2) held that(1) i] that False held by (auto simp: held_def)
      with keep that show ?thesis by blast
    qed
    with P ne False show ?thesis by (auto simp: page_inv_def ev dir(1) same tb sw move_cell_Some)
  qed
  have cells: "cell_inv s' k c" if "bm_swips s' k = Some c" for k c
    using cell_inv_move[OF inv _ that[unfolded sw]] valid(1) by (simp add: cell_inv_def same)
  have "dir_inv contents s'"
  proof -
    have "inj_on (ents s') (dom (ents s'))"
    proof (rule inj_onI)
      fix a b assume "a \<in> dom (ents s')" "b \<in> dom (ents s')" "ents s' a = ents s' b"
      then show "a = b" using dir(1,3) pool_inv_dir[OF inv] by (auto simp: dir_inv_def inj_on_def split: if_splits) metis+
    qed
    then show ?thesis using pool_inv_dir[OF inv] dir held by (auto simp: dir_inv_def same held_def)
  qed
  moreover have "table_inv elems cap (bm_frames s')"
    using pool_inv_table[OF inv] fr(2) unfolding fr(1) by (intro table_inv_put_free) simp_all
  ultimately show inv': "pool_inv elems cap contents tok C s'"
    using inv frames pages cells tiers same by (simp add: pool_inv_def tb)
  show "page_view contents s' = page_view contents s"
  proof (rule page_view_eqI[OF inv inv'])
    fix j p' h' assume j: "j < fcount s" "held s j p' h'"
    show "page_view contents s' p' = Some (fdata s j)"
    proof (cases "j = i")
      case True
      with j held have "p' = p" "h' = h" by (auto simp: held_def)
      then show ?thesis using view_evicted[of s' p h p] j True dir(1,2) by (auto simp: same held_def sw ev)
    next
      case False
      then show ?thesis using view_held[OF inv' _ keep[OF j(2,1) False]] j by (simp add: tb)
    qed
  next
    fix p' h' l' assume e: "map_option pc_swip (bm_pages s p') = Some h'" "swst s h' = Some (Evicted p')" "ents s p' = Some l'"
    have "p' \<noteq> p" using e held by (auto simp: held_def)
    moreover have "h' \<noteq> h" using e held by (auto simp: held_def)
    ultimately show "page_view contents s' p' = stored contents (bm_tiers s) l'"
      using e dir view_evicted[of s' p' h' p'] by (simp add: same sw ev)
  qed (simp add: same)
qed

lemma page_view_cong:
  assumes "\<And>p. map_option pc_swip (bm_pages s' p) = map_option pc_swip (bm_pages s p)" "swst s' = swst s" "fdata s' = fdata s"
    "index_of_resident (bm_frames s') = index_of_resident (bm_frames s)" "ents s' = ents s"
    "stored contents (bm_tiers s') = stored contents (bm_tiers s)"
  shows "page_view contents s' = page_view contents s"
proof
  fix p
  show "page_view contents s' p = page_view contents s p"
    unfolding page_view_def assms(2-) using assms(1)[of p]
    by (cases "bm_pages s p"; cases "bm_pages s' p") simp_all
qed

text \<open>A change of fields the invariant does not look into, of tiers with the same content, of fault states.\<close>

lemma inv_fields:
  assumes inv: "pool_inv elems cap contents tok C s"
    and "bm_frames s' = bm_frames s" "bm_swips s' = bm_swips s" "ents s' = ents s"
      "map_option pc_swip \<circ> bm_pages s' = map_option pc_swip \<circ> bm_pages s" "bm_id s' = bm_id s" "bm_next_pid s' = bm_next_pid s"
      "bm_next_handle s' = bm_next_handle s" "\<And>p. bm_prefetched s p = None \<Longrightarrow> bm_prefetched s' p = None"
      "stored contents (bm_tiers s') = stored contents (bm_tiers s)" "\<forall>t \<in> set (bm_tiers s'). tok t"
      "length (st_tiers (bm_stats s')) = length (bm_tiers s')"
  shows "pool_inv elems cap contents tok C s' \<and> page_view contents s' = page_view contents s"
proof
  have pg: "map_option pc_swip (bm_pages s' p) = map_option pc_swip (bm_pages s p)" for p
    using fun_cong[OF assms(5), of p] by simp
  have held: "held s' = held s" by (simp add: fun_eq_iff held_def pg assms)
  have "frame_inv contents C s' i = frame_inv contents C s i" for i
    by (simp add: frame_inv_def held clean_ok_def assms)
  moreover have "page_inv s' p h" if "page_inv s p h" for p h using that assms(9)[of p] by (auto simp: page_inv_def held assms)
  then have "page_inv s' p (pc_swip pc)" if "bm_pages s' p = Some pc" for p pc
    using pool_inv_page[OF inv, of p] pg[of p] that by (cases "bm_pages s p") auto
  moreover have "cell_inv s' = cell_inv s" by (simp add: fun_eq_iff cell_inv_def assms pg)
  moreover have "bm_pages s' p = None \<longleftrightarrow> bm_pages s p = None" for p using pg[of p] by auto
  then have "dir_inv contents s' = dir_inv contents s" by (simp add: dir_inv_def assms)
  ultimately show "pool_inv elems cap contents tok C s'" using inv by (simp add: pool_inv_def assms)
  show "page_view contents s' = page_view contents s" by (rule page_view_cong) (simp_all add: pg assms)
qed

text \<open>A change of the pin or the latch of an occupied frame.\<close>

lemma inv_set_frame:
  assumes inv: "pool_inv elems cap contents tok C s" and i: "i < fcount s" "\<not> is_free s i" "i \<notin> C"
    and f: "fr_pid f = fr_pid (fr s i)" "fr_owner_swip f = fr_owner_swip (fr s i)" "fr_dirty f = fr_dirty (fr s i)" "pin_ok f"
  shows "pool_inv elems cap contents tok C (set_frame i f s) \<and> page_view contents (set_frame i f s) = page_view contents s"
proof
  have held: "held (set_frame i f s) = held s" using i(1) f by (auto simp: fun_eq_iff held_def tfr_put_frame)
  have "frame_inv contents C (set_frame i f s) j" if "j < fcount s" for j
    using pool_inv_frame[OF inv that] i f by (auto simp: frame_inv_def held clean_ok_def tfr_put_frame)
  moreover have "page_inv (set_frame i f s) = page_inv s" by (simp add: fun_eq_iff page_inv_def held)
  moreover have "cell_inv (set_frame i f s) = cell_inv s" by (simp add: fun_eq_iff cell_inv_def)
  moreover have "dir_inv contents (set_frame i f s) = dir_inv contents s" by (simp add: dir_inv_def)
  ultimately show "pool_inv elems cap contents tok C (set_frame i f s)" using inv by (simp add: pool_inv_def)
  show "page_view contents (set_frame i f s) = page_view contents s" by (rule page_view_cong) simp_all
qed

text \<open>A resident handle changes between hot and cooling.\<close>

lemma inv_recolour:
  assumes inv: "pool_inv elems cap contents tok C s" and i: "i < fcount s" "held s i p h"
    and st: "st = Hot (addr s i) \<or> st = Cooling (addr s i)"
  shows "pool_inv elems cap contents tok C (move_swip h st s) \<and> page_view contents (move_swip h st s) = page_view contents s"
proof
  let ?s = "move_swip h st s"
  note sl = slice_addr_facts[OF pool_inv_slice[OF inv] i(1)] and valid = held_valid[OF inv i(2)]
  have ok: "state_ok st" using st sl(2) by auto
  have sw: "cell_state (move_cell h st (bm_swips s)) k = (if k = h then Some st else swst s k)" for k
    using ok i(2) by (intro cell_state_move) (auto simp: held_def)
  have own: "j = i" if "j < fcount s" "held s j p' h" for j p' using held_unique[OF inv that(2) i(2) that(1) i(1)] by simp
  have held: "held ?s j p' h' = held s j p' h'" if "j < fcount s" for j p' h'
  proof (cases "h' = h")
    case True
    have "held s j p' h" if "held ?s j p' h"
    proof -
      have "addr s j = addr s i" using that st by (auto simp: held_def sw)
      then have "j = i" using taddr_inj[OF pool_inv_slice[OF inv] \<open>j < fcount s\<close> i(1)] by simp
      with that i(2) show ?thesis by (auto simp: held_def)
    qed
    then show ?thesis using own[OF that] st True by (auto simp: held_def sw)
  qed (simp add: held_def sw)
  have "frame_inv contents C ?s j = frame_inv contents C s j" if "j < fcount s" for j
    using held[OF that] by (simp add: frame_inv_def clean_ok_def)
  moreover have "page_inv ?s p' (pc_swip pc)" if pc: "bm_pages s p' = Some pc" for p' pc
  proof -
    have "swst s h \<noteq> Some (Evicted p')" using i(2) by (auto simp: held_def)
    moreover have "(\<exists>j < fcount s. held ?s j p' (pc_swip pc)) \<longleftrightarrow> (\<exists>j < fcount s. held s j p' (pc_swip pc))" using held by blast
    ultimately show ?thesis using pool_inv_page[OF inv pc] by (auto simp: page_inv_def sw move_cell_Some)
  qed
  moreover have "cell_inv ?s k c" if "move_cell h st (bm_swips s) k = Some c" for k c
    using cell_inv_move[OF inv ok that] by (simp add: cell_inv_def)
  moreover have "dir_inv contents ?s = dir_inv contents s" by (simp add: dir_inv_def)
  ultimately show inv': "pool_inv elems cap contents tok C ?s" using inv by (simp add: pool_inv_def)
  show "page_view contents ?s = page_view contents s"
  proof (rule page_view_eqI[OF inv inv'])
    show "page_view contents ?s p' = Some (fdata s j)" if "j < fcount s" "held s j p' h'" for j p' h'
      using view_held[OF inv', of j p' h'] that held by simp
    show "page_view contents ?s p' = stored contents (bm_tiers s) l"
      if "map_option pc_swip (bm_pages s p') = Some h'" "swst s h' = Some (Evicted p')" "ents s p' = Some l" for p' h' l
    proof -
      have "h' \<noteq> h" using that i(2) by (auto simp: held_def)
      then show ?thesis using that view_evicted[of ?s p' h' p' contents] by (simp add: sw)
    qed
  qed simp
qed

section \<open>Closed forms of the steps of an eviction\<close>

lemma cas_mark_cooling:
  "bm_swips s h = Some c \<Longrightarrow> swip_wf c \<Longrightarrow> addr_ok a \<Longrightarrow> swst s h = Some st \<Longrightarrow>
   cas_swip h (\<lambda>c. try_mark_cooling c a) s = (if st = Hot a then (oOk True, move_swip h (Cooling a) s) else (oOk False, s))"
  by (rule cas_swip_exact[of s h c]) (simp_all add: swip_exact)

lemma cas_resurrect:
  "bm_swips s h = Some c \<Longrightarrow> swip_wf c \<Longrightarrow> addr_ok a \<Longrightarrow> swst s h = Some st \<Longrightarrow>
   cas_swip h (\<lambda>c. try_resurrect c a) s = (if st = Cooling a then (oOk True, move_swip h (Hot a) s) else (oOk False, s))"
  by (rule cas_swip_exact[of s h c]) (simp_all add: swip_exact)

lemma cas_unswizzle:
  "bm_swips s h = Some c \<Longrightarrow> swip_wf c \<Longrightarrow> addr_ok a \<Longrightarrow> pid_is_valid p \<Longrightarrow> swst s h = Some st \<Longrightarrow>
   cas_swip h (\<lambda>c. try_unswizzle c a p) s = (if st = Cooling a then (oOk True, move_swip h (Evicted p) s) else (oOk False, s))"
  by (rule cas_swip_exact[of s h c]) (simp_all add: swip_exact)

lemma cas_swizzle:
  "bm_swips s h = Some c \<Longrightarrow> swip_wf c \<Longrightarrow> pid_is_valid p \<Longrightarrow> swst s h = Some st \<Longrightarrow>
   cas_swip h (\<lambda>c. try_swizzle c p a) s = (if st = Evicted p then (oOk True, move_swip h (Hot a) s) else (oOk False, s))"
  by (rule cas_swip_exact[of s h c]) (simp_all add: swip_exact)

lemmas step_simps = op_seq_def op_bind_def op_return_def op_modify_def op_outcome_def op_assert_def op_when_def op_fail_def

context buffer_pool
begin

definition pushed :: "nat \<Rightarrow> ('q, 't, 'p) manager \<Rightarrow> ('q, 't, 'p) manager" where
  "pushed i s = s\<lparr>bm_frames := put_free (snd (aq_push (en_queue E) (ft_free (bm_frames s)) i)) i True (bm_frames s)\<rparr>"

lemma push_free_eq:
  assumes "table_inv elems cap (bm_frames s)" "i < fcount s" "\<not> is_free s i"
  shows "on_frames (push_free (en_queue E) i) s = (oOk (Inr ()), pushed i s)" "free_inv elems cap (bm_frames (pushed i s))"
proof -
  obtain q where q: "on_frames (push_free (en_queue E) i) s = (oOk (Inr ()), s\<lparr>bm_frames := put_free q i True (bm_frames s)\<rparr>)"
    "free_inv elems cap (put_free q i True (bm_frames s))" "elems q = elems (ft_free (bm_frames s)) @ [i]"
    using push_free_put[OF assms] .
  have "aq_push (en_queue E) (ft_free (bm_frames s)) i = (Inr (), q)"
    using q(1) assms(2,3) arg_cong[of _ _ "\<lambda>s. ft_free (bm_frames s)"]
    by (auto simp: on_frames_def op_lift_def push_free_def compare_exchange_def tfree_def Let_def put_free_def
        split: prod.splits sum.splits if_splits dest!: arg_cong[where f = "\<lambda>s. ft_free (bm_frames s)"])
  with q show "on_frames (push_free (en_queue E) i) s = (oOk (Inr ()), pushed i s)" "free_inv elems cap (bm_frames (pushed i s))"
    by (simp_all add: pushed_def)
qed

definition tier_freed :: "location \<Rightarrow> 't list \<Rightarrow> 't list" where
  "tier_freed l ts = ts[loc_tier_index l := snd (tb_free (en_tier E) (loc_offset l) (ts ! loc_tier_index l))]"

lemma on_tier_free:
  assumes "loc_tier_index l < length (bm_tiers s)" "\<forall>t \<in> set (bm_tiers s). tok t"
  shows "on_tier (loc_tier_index l) (tb_free (en_tier E) (loc_offset l)) s = (oOk (oOk ()), s\<lparr>bm_tiers := tier_freed l (bm_tiers s)\<rparr>)"
    "stored contents (tier_freed l (bm_tiers s)) = (stored contents (bm_tiers s))(l := None)"
    "\<forall>t \<in> set (tier_freed l (bm_tiers s)). tok t" "length (tier_freed l (bm_tiers s)) = length (bm_tiers s)"
proof -
  obtain t' where t': "tb_free (en_tier E) (loc_offset l) (bm_tiers s ! loc_tier_index l) = (oOk (), t')" "tok t'"
    "contents t' = (contents (bm_tiers s ! loc_tier_index l))(loc_offset l := None)"
    using tiers.free_law[of "bm_tiers s ! loc_tier_index l" "loc_offset l"] assms by auto
  show "on_tier (loc_tier_index l) (tb_free (en_tier E) (loc_offset l)) s = (oOk (oOk ()), s\<lparr>bm_tiers := tier_freed l (bm_tiers s)\<rparr>)"
    "stored contents (tier_freed l (bm_tiers s)) = (stored contents (bm_tiers s))(l := None)"
    "\<forall>t \<in> set (tier_freed l (bm_tiers s)). tok t" "length (tier_freed l (bm_tiers s)) = length (bm_tiers s)"
    using t' assms stored_free[OF assms(1), of contents t'] tiers_ok_update[OF assms(2) t'(2)]
    by (simp_all add: on_tier_def tier_freed_def)
qed

text \<open>The state after a commit: the frame is free, the handle evicted, the directory updated.\<close>

definition vacated :: "frame \<Rightarrow> frame" where
  "vacated f = f\<lparr>fr_latch := bump_word (with_state (bump_word (fr_latch f)) EXCLUSIVE_STATE), fr_pid := PID_INVALID,
     fr_owner_swip := None, fr_dirty := False, fr_heat_epoch := 0, fr_pin_control := 0\<rparr>"

definition committed :: "cooling_ticket \<Rightarrow> handle \<Rightarrow> location option \<Rightarrow> ('q, 't, 'p) manager \<Rightarrow> ('q, 't, 'p) manager" where
  "committed t h new s =
     (let i = ct_frame_index t; p = ct_pid t in
      (pushed i (set_frame i (vacated (fr s i)) s))
        \<lparr>bm_directory := (bm_directory s)\<lparr>pd_entries := (case new of None \<Rightarrow> ents s | Some l \<Rightarrow> (ents s)(p \<mapsto> l))\<rparr>,
         bm_swips := move_cell h (Evicted p) (bm_swips s), bm_prefetched := (bm_prefetched s)(p := None),
         bm_stats := record_eviction (bm_stats s)\<rparr>)"

lemmas commit_simps = evict_commit_def step_simps Let_def on_meta_eq cas_unswizzle consume_prefetched_def clear_after_eviction_ok
  release_eviction_eq push_free_eq(1) bump_eq op_get_def committed_def set_dirty_def cleared_def vacated_def pushed_def
  on_directory_def dir_insert_def op_lift_def

lemma evict_commit_run:
  assumes "table_inv elems cap (bm_frames s)" "ct_frame_index t < fcount s" "\<not> is_free s (ct_frame_index t)"
    "fr_pin_control (fr s (ct_frame_index t)) = EVICTING" "latch_state (fr_latch (fr s (ct_frame_index t))) = EXCLUSIVE_STATE"
    "bm_swips s h = Some c" "swip_wf c" "addr_ok (ct_resident t)" "pid_is_valid (ct_pid t)" "swst s h = Some (Cooling (ct_resident t))"
    "new \<noteq> None \<or> old \<noteq> None" "\<forall>t \<in> set (bm_tiers s). tok t" "\<And>l. old = Some l \<Longrightarrow> loc_tier_index l < length (bm_tiers s)"
  shows "evict_commit E t h wd old new s = (oOk Freed,
     (if old \<noteq> None \<and> new \<noteq> None \<and> old \<noteq> new then (committed t h new s)\<lparr>bm_tiers := tier_freed (the old) (bm_tiers s)\<rparr> else committed t h new s))"
proof (cases new)
  case None
  then obtain l where "old = Some l" using assms(11) by auto
  with None show ?thesis
    using assms(1-12) by (simp add: commit_simps)
next
  case (Some l)
  then show ?thesis
    using assms(1-12) assms(13)[of "the old"] by (cases old) (auto simp: commit_simps on_tier_free(1))
qed

end

section \<open>What reclaiming frames may change\<close>

text \<open>
  No page changes its content, an evicted page stays where it is, and a frame that is pinned or
  checked out is not touched at all.
\<close>

definition frames_kept :: "('q, 't, 'p) manager \<Rightarrow> ('q, 't, 'p) manager \<Rightarrow> bool" where
  "frames_kept s s' \<longleftrightarrow> (\<forall>i < fcount s. if fr_pin_control (fr s i) = 0
     then fr_pin_control (fr s' i) = 0 \<or> fr_pin_control (fr s' i) = EVICTING
     else fr s' i = fr s i \<and> fdata s' i = fdata s i)"

lemma frames_kept_refl [simp]: "frames_kept s s"
  by (simp add: frames_kept_def)

lemma frames_kept_trans: "frames_kept s s' \<Longrightarrow> frames_kept s' s'' \<Longrightarrow> fcount s' = fcount s \<Longrightarrow> frames_kept s s''"
  unfolding frames_kept_def by metis

lemma frames_kept_one:
  "i < fcount s \<Longrightarrow> fr_pin_control (fr s i) = 0 \<Longrightarrow> fr_pin_control f = 0 \<or> fr_pin_control f = EVICTING \<Longrightarrow>
   (\<And>j. fr s' j = (if j = i then f else fr s j)) \<Longrightarrow> fdata s' = fdata s \<Longrightarrow> frames_kept s s'"
  by (auto simp: frames_kept_def)

definition evolves :: "('t \<Rightarrow> nat \<Rightarrow> page option) \<Rightarrow> ('q, 't, 'p) manager \<Rightarrow> ('q, 't, 'p) manager \<Rightarrow> bool" where
  "evolves contents s s' \<longleftrightarrow> page_view contents s' = page_view contents s \<and> bm_pages s' = bm_pages s \<and> bm_id s' = bm_id s
     \<and> bm_next_pid s' = bm_next_pid s \<and> bm_next_handle s' = bm_next_handle s \<and> bm_stopping s' = bm_stopping s \<and> bm_workers s' = bm_workers s
     \<and> fcount s' = fcount s \<and> addr s' = addr s \<and> length (bm_tiers s') = length (bm_tiers s)
     \<and> bm_prefetch_queue s' = bm_prefetch_queue s \<and> bm_prefetch_running s' = bm_prefetch_running s
     \<and> bm_prefetch_in_flight s' = bm_prefetch_in_flight s \<and> bm_prefetch_pending s' = bm_prefetch_pending s
     \<and> (\<forall>p h. map_option pc_swip (bm_pages s p) = Some h \<longrightarrow> swst s h = Some (Evicted p) \<longrightarrow>
            swst s' h = Some (Evicted p) \<and> ents s' p = ents s p)
     \<and> frames_kept s s'"

lemma evolves_refl [simp]: "evolves contents s s"
  by (simp add: evolves_def)

lemma evolves_trans: "evolves contents s s' \<Longrightarrow> evolves contents s' s'' \<Longrightarrow> evolves contents s s''"
  unfolding evolves_def by (intro conjI) (auto simp: fun_eq_iff intro: frames_kept_trans)

lemma evolves_fields:
  assumes "page_view contents s' = page_view contents s" "bm_frames s' = bm_frames s" "bm_swips s' = bm_swips s" "ents s' = ents s"
    "bm_pages s' = bm_pages s" "bm_id s' = bm_id s" "bm_next_pid s' = bm_next_pid s" "bm_next_handle s' = bm_next_handle s"
    "bm_stopping s' = bm_stopping s \<and> bm_workers s' = bm_workers s" "length (bm_tiers s') = length (bm_tiers s)"
    "bm_prefetch_queue s' = bm_prefetch_queue s" "bm_prefetch_running s' = bm_prefetch_running s"
    "bm_prefetch_in_flight s' = bm_prefetch_in_flight s" "bm_prefetch_pending s' = bm_prefetch_pending s"
  shows "evolves contents s s'"
  using assms by (simp add: evolves_def frames_kept_def)

context buffer_pool
begin

abbreviation inv :: "nat set \<Rightarrow> ('q, 't, 'p) manager \<Rightarrow> bool" where
  "inv \<equiv> pool_inv elems cap contents tok"

text \<open>An operation that returns or fails, keeps the invariant and only reclaims.\<close>

definition reclaims :: "nat set \<Rightarrow> 'a outcome \<Rightarrow> ('q, 't, 'p) manager \<Rightarrow> ('q, 't, 'p) manager \<Rightarrow> bool" where
  "reclaims C r s s' \<longleftrightarrow> ((\<exists>a. r = oOk a) \<or> (\<exists>e. r = oErr e)) \<and> inv C s' \<and> evolves contents s s'"

lemma evict_failed:
  assumes inv: "inv C s" and i: "i < fcount s" "held s i p h" "fr_pin_control (fr s i) = 0"
    and wb: "written_back contents tok page None (bm_tiers s) ts st"
    and s': "bm_frames s' = put_frame i ((fr s i)\<lparr>fr_latch := bump_word (with_state (fr_latch (fr s i)) EXCLUSIVE_STATE), fr_pin_control := 0\<rparr>) (bm_frames s)"
      "bm_swips s' = move_cell h (Hot (addr s i)) (bm_swips s)" "bm_tiers s' = ts" "bm_stats s' = st" "bm_directory s' = bm_directory s"
      "bm_pages s' = bm_pages s" "bm_id s' = bm_id s" "bm_next_pid s' = bm_next_pid s" "bm_next_handle s' = bm_next_handle s"
      "bm_stopping s' = bm_stopping s \<and> bm_workers s' = bm_workers s" "bm_prefetched s' = bm_prefetched s" "bm_prefetch_queue s' = bm_prefetch_queue s"
      "bm_prefetch_running s' = bm_prefetch_running s" "bm_prefetch_in_flight s' = bm_prefetch_in_flight s"
      "bm_prefetch_pending s' = bm_prefetch_pending s"
  shows "inv C s' \<and> evolves contents s s'"
proof -
  let ?f = "(fr s i)\<lparr>fr_latch := bump_word (with_state (fr_latch (fr s i)) EXCLUSIVE_STATE), fr_pin_control := 0\<rparr>"
  let ?s1 = "move_swip h (Hot (addr s i)) s" and ?s2 = "set_frame i ?f (move_swip h (Hot (addr s i)) s)"
  have own: "fr_owner_swip (fr s i) \<noteq> None" using i(2) by (simp add: held_def)
  have occ: "\<not> is_free s i" "i \<notin> C" using frame_holder[OF inv i(1) own] by blast+
  have 1: "inv C ?s1 \<and> page_view contents ?s1 = page_view contents s" using inv_recolour[OF inv i(1,2)] by simp
  have "pin_ok ?f" using i(3) by (simp add: pin_ok_def)
  then have 2: "inv C ?s2 \<and> page_view contents ?s2 = page_view contents ?s1"
    using inv_set_frame[of elems cap contents tok C ?s1 i ?f] 1 occ i(1) by simp
  have w: "length ts = length (bm_tiers s)" "\<forall>t \<in> set ts. tok t" "length (st_tiers st) = length ts"
    "stored contents ts = stored contents (bm_tiers s)" using wb by (simp_all add: written_back_def)
  have 3: "inv C s' \<and> page_view contents s' = page_view contents ?s2"
    using 2 by (intro inv_fields[of _ _ _ _ _ ?s2]) (simp_all add: s' w)
  have "swst s' k = swst s k" if "k \<noteq> h" for k using that by (simp add: s' cell_state_def move_cell_def)
  then have "swst s' k = Some (Evicted p')" if "swst s k = Some (Evicted p')" for k p'
    using that i(2) by (cases "k = h") (auto simp: held_def)
  moreover have "frames_kept s s'" by (rule frames_kept_one[OF i(1,3), of ?f]) (simp_all add: s' tfr_put_frame i(1))
  ultimately show ?thesis using 1 2 3 w by (simp add: evolves_def s')
qed

lemma evict_committed:
  assumes inv: "inv C s" and i: "i < fcount s" "held s i p h" "fr_pin_control (fr s i) = 0" "latch_state (fr_latch (fr s i)) = 0"
    and t: "ct_frame_index t = i" "ct_pid t = p"
    and wb: "written_back contents tok (fdata s i) new (bm_tiers s) ts st"
    and needs: "new = None \<Longrightarrow> \<not> fr_dirty (fr s i) \<and> ents s p \<noteq> None"
    and s2: "s2 = (set_frame i ((fr s i)\<lparr>fr_pin_control := EVICTING, fr_latch := w\<rparr>) s)\<lparr>bm_tiers := ts, bm_stats := st\<rparr>"
    and s': "s' = (if ents s p \<noteq> None \<and> new \<noteq> None \<and> ents s p \<noteq> new
       then (committed t h new s2)\<lparr>bm_tiers := tier_freed (the (ents s p)) ts\<rparr> else committed t h new s2)"
  shows "inv C s' \<and> evolves contents s s' \<and> is_free s' i \<and> (\<forall>j. j \<noteq> i \<longrightarrow> fr s' j = fr s j)"
proof -
  let ?l = "case new of None \<Rightarrow> the (ents s p) | Some l \<Rightarrow> l"
  let ?f = "vacated ((fr s i)\<lparr>fr_pin_control := EVICTING, fr_latch := w\<rparr>)"
  let ?q = "snd (aq_push (en_queue E) (ft_free (bm_frames s)) i)"
  have occ: "\<not> is_free s i" "i \<notin> C" using frame_holder[OF inv i(1)] i(2) by (auto simp: held_def)
  have frames: "bm_frames s' = put_free ?q i True (put_frame i ?f (bm_frames s))"
    using i(1) by (simp add: s' s2 committed_def pushed_def t Let_def)
  have free: "free_inv elems cap (bm_frames s')"
    using push_free_eq(2)[of "set_frame i ?f s" i] i(1) occ pool_inv_table[OF inv] by (simp add: frames pushed_def)
  have D: "\<And>q m. ents s q = Some m \<Longrightarrow> bm_pages s q \<noteq> None \<and> stored contents (bm_tiers s) m \<noteq> None" "inj_on (ents s) (dom (ents s))"
    using pool_inv_dir[OF inv] by (auto simp: dir_inv_def)
  have W: "length ts = length (bm_tiers s)" "\<forall>t \<in> set ts. tok t" "length (st_tiers st) = length ts"
    "stored contents ts = (case new of None \<Rightarrow> stored contents (bm_tiers s) | Some l \<Rightarrow> (stored contents (bm_tiers s))(l \<mapsto> fdata s i))"
    "\<And>l. new = Some l \<Longrightarrow> stored contents (bm_tiers s) l = None"
    using wb by (auto simp: written_back_def split: option.splits)
  have tier: "loc_tier_index m < length ts" if "ents s q = Some m" for q m
    using D(1)[OF that] W(1) by (auto simp: stored_def split: if_splits)
  note F = on_tier_free(2-4)[of _ "s\<lparr>bm_tiers := ts\<rparr>"]
  have T: "stored contents (bm_tiers s') = (if ents s p \<noteq> None \<and> new \<noteq> None \<and> ents s p \<noteq> new then (stored contents ts)(the (ents s p) := None) else stored contents ts)"
    "\<forall>t \<in> set (bm_tiers s'). tok t" "length (bm_tiers s') = length (bm_tiers s)"
    using F W(1,2) tier[of p] by (auto simp: s' s2 committed_def pushed_def Let_def)
  have clean: "stored contents (bm_tiers s) (the (ents s p)) = Some (fdata s i)" if "new = None"
  proof -
    have "clean_ok contents s i p" using frame_holder[OF inv i(1)] i(2) by (auto simp: held_def)
    then show ?thesis using needs[OF that] by (auto simp: clean_ok_def)
  qed
  have sw: "bm_swips s' = move_cell h (Evicted p) (bm_swips s)" by (simp add: s' s2 committed_def pushed_def Let_def t)
  have dir: "ents s' = (ents s)(p \<mapsto> ?l)" using needs by (auto simp: s' s2 committed_def pushed_def Let_def t split: option.splits)
  have lat: "stored contents (bm_tiers s') ?l = Some (fdata s i)"
    unfolding T(1) using W(4,5) clean D(1)[of p] by (auto split: option.splits)
  have oth: "l' \<noteq> ?l \<and> stored contents (bm_tiers s') l' = stored contents (bm_tiers s) l'" if "p' \<noteq> p" "ents s p' = Some l'" for p' l'
  proof -
    have ne: "ents s p \<noteq> Some l'" using that inj_onD[OF D(2), of p p'] by auto
    moreover have "new \<noteq> Some l'" using W(5)[of l'] D(1)[OF that(2)] by auto
    ultimately show ?thesis unfolding T(1) W(4) using needs by (cases new) auto
  qed
  have same: "bm_pages s' = bm_pages s" "bm_id s' = bm_id s" "bm_next_pid s' = bm_next_pid s" "bm_next_handle s' = bm_next_handle s"
    "bm_prefetched s' = (bm_prefetched s)(p := None)" "length (st_tiers (bm_stats s')) = length (bm_tiers s')"
    "bm_stopping s' = bm_stopping s \<and> bm_workers s' = bm_workers s" "bm_prefetch_queue s' = bm_prefetch_queue s" "bm_prefetch_running s' = bm_prefetch_running s"
    "bm_prefetch_in_flight s' = bm_prefetch_in_flight s" "bm_prefetch_pending s' = bm_prefetch_pending s"
    using W T(3) by (simp_all add: s' s2 committed_def pushed_def Let_def t)
  have "blank ?f" "fr_pin_control ?f = 0" by (simp_all add: vacated_def blank_def)
  note M = evict_move[OF inv i(1,2) frames free this sw dir lat oth T(2) same(6) same(1-5)]
  have "swst s' k = swst s k" if "k \<noteq> h" for k using that by (simp add: sw cell_state_def move_cell_def)
  then have "swst s' k = Some (Evicted p') \<and> ents s' p' = ents s p'"
    if "swst s k = Some (Evicted p')" "map_option pc_swip (bm_pages s p') = Some k" for k p'
    using that i(2) dir by (cases "k = h") (auto simp: held_def)
  moreover have "frames_kept s s'" by (rule frames_kept_one[OF i(1,3), of ?f]) (simp_all add: frames tfr_put_frame i(1) vacated_def)
  moreover have "is_free s' i" using i(1) pool_inv_table[OF inv] by (simp add: frames table_inv_def free_inv_def tfree_def put_free_def put_frame_def)
  ultimately show ?thesis using M T(3) same i(1) by (simp add: evolves_def frames tfr_put_frame)
qed

lemma exact_held:
  assumes "inv C s" "exact_at t h s"
  shows "held s (ct_frame_index t) (ct_pid t) h" "addr_ok (ct_resident t)" "pid_is_valid (ct_pid t)"
    "\<exists>c. bm_swips s h = Some c \<and> swip_wf c" "pin_ok (fr s (ct_frame_index t))" "\<not> is_free s (ct_frame_index t)"
proof -
  have i: "ct_frame_index t < fcount s" and ad: "ct_resident t = addr s (ct_frame_index t)"
    using assms(2) by (simp_all add: exact_at_def Let_def)
  show h: "held s (ct_frame_index t) (ct_pid t) h" using assms(2) by (auto simp: exact_at_def held_def Let_def)
  show "addr_ok (ct_resident t)" using slice_addr_facts(2)[OF pool_inv_slice[OF assms(1)] i] by (simp add: ad)
  show "pid_is_valid (ct_pid t)" "\<exists>c. bm_swips s h = Some c \<and> swip_wf c" using held_valid[OF assms(1) h] by auto
  show "pin_ok (fr s (ct_frame_index t))" "\<not> is_free s (ct_frame_index t)" using frame_holder[OF assms(1) i] h by (auto simp: held_def)
qed

lemma evict_exact:
  assumes inv: "inv C s" and ex: "exact_at t h s" and pin: "fr_pin_control (fr s (ct_frame_index t)) = 0"
  shows "\<exists>r s'. evict_ticket E t s = (r, s') \<and> reclaims C r s s' \<and> (\<forall>j. j \<noteq> ct_frame_index t \<longrightarrow> fr s' j = fr s j)
     \<and> (r = oOk Freed \<and> is_free s' (ct_frame_index t) \<or> (\<exists>e. r = oErr e))"
proof -
  let ?i = "ct_frame_index t" and ?p = "ct_pid t"
  let ?f1 = "(fr s ?i)\<lparr>fr_pin_control := EVICTING, fr_latch := with_state (fr_latch (fr s ?i)) EXCLUSIVE_STATE\<rparr>"
  let ?s1 = "set_frame ?i ?f1 s" and ?needs = "fr_dirty (fr s ?i) \<or> ents s ?p = None"
  note E = exact_held[OF inv ex]
  have i: "?i < fcount s" and ad: "ct_resident t = addr s ?i" and cool: "swst s h = Some (Cooling (ct_resident t))"
    using ex by (simp_all add: exact_at_def Let_def)
  have latch: "latch_state (fr_latch (fr s ?i)) = 0" using E(5) pin by (simp add: pin_ok_def)
  have meta: "meta_ok ?s1" using meta_ok_set_frame[OF pool_inv_meta[OF inv] i, of ?f1] by simp
  have ex1: "exact_at t h ?s1" using ex i by (auto simp: exact_at_def Let_def)
  note x = exact_cooling_owner_at[OF pool_inv_meta[OF inv] ex] exact_cooling_owner_at[OF meta ex1]
  obtain new e ts st where wb: "evict_write_back E t ?needs ?s1 = (oOk (new, e), ?s1\<lparr>bm_tiers := ts, bm_stats := st\<rparr>)"
    "written_back contents tok (fdata s ?i) new (bm_tiers s) ts st" "\<not> ?needs \<longrightarrow> new = None"
  proof -
    have "\<exists>new e ts st. evict_write_back E t ?needs ?s1 = (oOk (new, e), ?s1\<lparr>bm_tiers := ts, bm_stats := st\<rparr>)
      \<and> written_back contents tok (fdata ?s1 ?i) new (bm_tiers ?s1) ts st \<and> (\<not> ?needs \<longrightarrow> new = None)"
      by (rule evict_write_back_ok) (use inv i in \<open>simp_all add: pool_inv_def\<close>)
    then show ?thesis using that by simp blast
  qed
  let ?s2 = "?s1\<lparr>bm_tiers := ts, bm_stats := st\<rparr>"
  obtain c where c: "bm_swips s h = Some c" "swip_wf c" using E(4) by blast
  note run = evict_ticket_def step_simps Let_def on_meta_bool_eq on_meta_eq try_claim_eviction_eq op_get_def dir_backing_def
  show ?thesis
  proof (cases "?needs \<and> new = None")
    case True
    let ?s3 = "set_frame ?i ((fr s ?i)\<lparr>fr_latch := bump_word (with_state (fr_latch (fr s ?i)) EXCLUSIVE_STATE), fr_pin_control := 0\<rparr>)
      (move_swip h (Hot (ct_resident t)) (s\<lparr>bm_tiers := ts, bm_stats := st\<rparr>))"
    have "\<exists>e. evict_ticket E t s = (oErr e, ?s3)"
      using True x wb(1) i pin latch c E(2) cool
      by (simp add: run cas_resurrect release_eviction_eq)
    moreover have "inv C ?s3 \<and> evolves contents s ?s3"
      using wb(2) True ad by (intro evict_failed[OF inv i E(1) pin]) simp_all
    moreover have "fr ?s3 j = fr s j" if "j \<noteq> ?i" for j using that i by (simp add: tfr_put_frame)
    ultimately show ?thesis unfolding reclaims_def by blast
  next
    case False
    define s3 where "s3 = (if ents s ?p \<noteq> None \<and> new \<noteq> None \<and> ents s ?p \<noteq> new
       then (committed t h new ?s2)\<lparr>bm_tiers := tier_freed (the (ents s ?p)) ts\<rparr> else committed t h new ?s2)"
    have tier: "loc_tier_index l < length ts" if "ents s ?p = Some l" for l
      using pool_inv_dir[OF inv] that wb(2) by (auto simp: dir_inv_def stored_def written_back_def split: if_splits)
    have cm: "evict_commit E t h (fr_dirty (fr s ?i)) (ents s ?p) new ?s2 = (oOk Freed, s3)"
      using evict_commit_run[of ?s2 t h c new "ents s ?p" "fr_dirty (fr s ?i)"] pool_inv_table[OF inv] i E c cool tier False wb(2)
      unfolding s3_def by (auto simp: written_back_def)
    have "evict_ticket E t s = (oOk Freed, s3)"
    proof (cases ?needs)
      case True
      then obtain l where "new = Some l" using False by auto
      with True show ?thesis using x wb(1) i pin latch cm by (simp add: run)
    next
      case False
      then obtain l where "ents s ?p = Some l" "\<not> fr_dirty (fr s ?i)" "new = None" using wb(3) by auto
      then show ?thesis using x wb(1) i pin latch cm by (simp add: run)
    qed
    moreover have "inv C s3 \<and> evolves contents s s3 \<and> is_free s3 ?i \<and> (\<forall>j. j \<noteq> ?i \<longrightarrow> fr s3 j = fr s j)"
      using False wb(3) by (intro evict_committed[OF inv i E(1) pin latch refl refl wb(2) _ refl s3_def]) auto
    ultimately show ?thesis by (auto simp: reclaims_def)
  qed
qed

lemma evict_ticket_ok:
  assumes inv: "inv C s"
  obtains r s' where "evict_ticket E t s = (r, s')" "reclaims C r s s'"
proof -
  obtain x where x: "exact_cooling_owner t s = (oOk x, s)" "\<And>h. x = Some h \<longleftrightarrow> exact_at t h s"
    using exact_cooling_owner_eq[OF pool_inv_meta[OF inv], of t] by blast
  show ?thesis
  proof (cases x)
    case None
    then have "evict_ticket E t s = (oOk Stale, s)" using x(1) by (simp add: evict_ticket_def step_simps Let_def)
    then show ?thesis using that inv by (simp add: reclaims_def)
  next
    case (Some h)
    let ?i = "ct_frame_index t"
    have ex: "exact_at t h s" using x(2)[of h] Some by simp
    then have i: "?i < fcount s" by (simp add: exact_at_def Let_def)
    show ?thesis
    proof (cases "fr_pin_control (fr s ?i) = 0")
      case False
      then have "evict_ticket E t s = (oOk Busy, s)"
        using x(1) Some i by (simp add: evict_ticket_def step_simps Let_def on_meta_bool_eq try_claim_eviction_eq)
      then show ?thesis using that inv by (simp add: reclaims_def)
    next
      case True
      then show ?thesis using evict_exact[OF inv ex] that by blast
    qed
  qed
qed

end

end
