(* ===== verification/Pool_Reclaim.thy ===== *)
theory Pool_Reclaim
  imports Pool_Eviction
begin

text \<open>
  Correctness of the clients of an eviction in src/crates/tierbuf/src/pool.rs: sampling and cooling,
  the background cooler, and \<open>acquire_frame\<close>, which hands out a frame that nobody else can reach.
\<close>

section \<open>Single moves\<close>

lemma op_bind_get [simp]: "op_bind (op_get g) f s = f (g s) s"
  by (simp add: op_bind_def op_get_def)

lemma op_bind_meta_get [simp]: "i < fcount s \<Longrightarrow> op_bind (on_meta i (op_get g)) f s = f (g (fr s i)) s"
  by (simp add: op_bind_def)

context buffer_pool
begin

lemma recolour_evolves:
  assumes "inv C s" "i < fcount s" "held s i p h" "st = Hot (addr s i) \<or> st = Cooling (addr s i)"
  shows "inv C (move_swip h st s) \<and> evolves contents s (move_swip h st s)"
proof -
  have "cell_state (move_cell h st (bm_swips s)) k = swst s k" if "k \<noteq> h" for k using that by (simp add: cell_state_def move_cell_def)
  then have "cell_state (move_cell h st (bm_swips s)) k = Some (Evicted p')" if "swst s k = Some (Evicted p')" for k p'
    using that assms(3) by (cases "k = h") (auto simp: held_def)
  with inv_recolour[OF assms] show ?thesis by (simp add: evolves_def frames_kept_def)
qed

lemma idle_evolves:
  assumes "inv C s" "bm_frames s' = bm_frames s" "bm_swips s' = bm_swips s" "ents s' = ents s" "bm_tiers s' = bm_tiers s"
    "bm_pages s' = bm_pages s" "bm_id s' = bm_id s" "bm_next_pid s' = bm_next_pid s" "bm_next_handle s' = bm_next_handle s"
    "bm_stopping s' = bm_stopping s \<and> bm_workers s' = bm_workers s" "\<And>p. bm_prefetched s p = None \<Longrightarrow> bm_prefetched s' p = None"
    "length (st_tiers (bm_stats s')) = length (st_tiers (bm_stats s))"
    "bm_prefetch_queue s' = bm_prefetch_queue s" "bm_prefetch_running s' = bm_prefetch_running s"
    "bm_prefetch_in_flight s' = bm_prefetch_in_flight s" "bm_prefetch_pending s' = bm_prefetch_pending s"
  shows "inv C s' \<and> evolves contents s s'"
proof -
  have "inv C s' \<and> page_view contents s' = page_view contents s"
    by (rule inv_fields[OF assms(1)]) (use assms in \<open>simp_all add: pool_inv_def\<close>)
  then show ?thesis using assms by (simp add: evolves_def frames_kept_def)
qed

lemma cooling_evolves: "inv C s \<Longrightarrow> inv C (s\<lparr>bm_cooling := x\<rparr>) \<and> evolves contents s (s\<lparr>bm_cooling := x\<rparr>)"
  by (rule idle_evolves) simp_all

text \<open>A frame leaves the free list and is reserved.\<close>

lemma checkout_move:
  assumes inv: "inv C s" and i: "i < fcount s" "is_free s i"
    and s': "s' = set_frame i ((fr s i)\<lparr>fr_pin_control := EVICTING\<rparr>) (s\<lparr>bm_frames := put_free q i False (bm_frames s)\<rparr>)"
    and free: "free_inv elems cap (put_free q i False (bm_frames s))"
  shows "i \<notin> C \<and> inv (insert i C) s' \<and> evolves contents s s'"
proof -
  let ?f = "(fr s i)\<lparr>fr_pin_control := EVICTING\<rparr>"
  have C: "i \<notin> C" "blank (fr s i)" "fr_pin_control (fr s i) = 0" using pool_inv_frame[OF inv i(1)] i(2) by (auto simp: frame_inv_def)
  have mem: "length (ft_free_membership (bm_frames s)) = fcount s" using pool_inv_table[OF inv] by (simp add: table_inv_def free_inv_def)
  have fr': "fr s' j = (if j = i then ?f else fr s j)" for j using i(1) by (simp add: s' tfr_put_frame)
  have free': "is_free s' j = (if j = i then False else is_free s j)" for j using tfree_put_free[OF mem i(1)] by (simp add: s')
  have sel: "addr s' = addr s" "bm_swips s' = bm_swips s" "bm_pages s' = bm_pages s" by (simp_all add: s')
  have held: "held s' = held s" by (auto simp: fun_eq_iff held_def fr' sel)
  have "frame_inv contents (insert i C) s' j" if "j < fcount s" for j
  proof (cases "j = i")
    case True
    then show ?thesis using C by (simp add: frame_inv_def free' fr' blank_def)
  next
    case False
    then have "clean_ok contents s' j = clean_ok contents s j" by (simp add: fun_eq_iff clean_ok_def fr') (simp add: s')
    with False show ?thesis using pool_inv_frame[OF inv that] by (auto simp: frame_inv_def free' fr' held split: if_splits)
  qed
  moreover have "page_inv s' = page_inv s" by (simp add: fun_eq_iff page_inv_def held) (simp add: s')
  moreover have "cell_inv s' = cell_inv s" by (simp add: fun_eq_iff cell_inv_def s')
  moreover have "dir_inv contents s' = dir_inv contents s" by (simp add: dir_inv_def s')
  moreover have "table_inv elems cap (bm_frames s')" using table_inv_put_free[OF pool_inv_table[OF inv] free] by (simp add: s')
  ultimately have inv': "inv (insert i C) s'" using inv i(1) by (simp add: pool_inv_def) (simp add: s')
  have "page_view contents s' = page_view contents s" by (rule page_view_cong) (simp_all add: s')
  moreover have "frames_kept s s'" by (rule frames_kept_one[OF i(1) C(3), of ?f]) (simp_all add: s' i(1))
  ultimately have "evolves contents s s'" by (simp add: evolves_def) (simp add: s')
  with C inv' show ?thesis by simp
qed

section \<open>Cooling\<close>

lemma enqueue_ticket_eq:
  assumes "meta_ok s" "i < fcount s"
  obtains x where "enqueue_ticket i p a s = (oOk (), s\<lparr>bm_cooling := x\<rparr>)"
proof -
  have sl: "slice_ok (bm_frames s)" using assms(1) by (simp add: meta_ok_def)
  have "\<exists>x. enqueue_ticket i p a s = (oOk (), s\<lparr>bm_cooling := x\<rparr>)"
  proof (cases "fr_owner_swip (fr s i)")
    case None
    then show ?thesis using assms frame_pid_of_ok[OF assms] resident_of_ok[OF sl assms(2)]
      by (intro exI[of _ "bm_cooling s"]) (simp add: enqueue_ticket_def step_simps)
  next
    case (Some h)
    obtain st where c: "swst s h = Some st" using meta_owner_state[OF assms Some] by blast
    show ?thesis
      using assms(2) Some load_swip_ok[OF c] frame_pid_of_ok[OF assms] resident_of_ok[OF sl assms(2)]
      by (cases "fr_pid (fr s i) = p \<and> addr s i = a \<and> st = Cooling a") (auto simp: enqueue_ticket_def step_simps intro: exI[of _ "bm_cooling s"])
  qed
  then show ?thesis using that by blast
qed

lemma sample_candidates_ok:
  assumes "meta_ok s" "\<forall>i \<in> set is. i < fcount s"
  shows "\<exists>cs. sample_candidates is s = (oOk cs, s) \<and> snd ` set cs \<subseteq> set is"
  using assms(2)
proof (induction "is")
  case Nil
  then show ?case by (simp add: step_simps)
next
  case (Cons i "is")
  then obtain cs where "sample_candidates is s = (oOk cs, s)" "snd ` set cs \<subseteq> set is" by auto
  then show ?case using Cons.prems frame_pid_of_ok[OF assms(1), of i] by (auto simp: step_simps)
qed

text \<open>One candidate: its handle is marked and its ticket queued, or nothing happens.\<close>

lemma mark_and_enqueue:
  assumes inv: "inv C s" and i: "i < fcount s" and owner: "fr_owner_swip (fr s i) = Some h"
  shows "\<exists>st. swst s h = Some st \<and> (\<exists>s'. (if st = Hot (addr s i)
             then op_bind (cas_swip h (\<lambda>c. try_mark_cooling c (addr s i))) (\<lambda>ok. op_when ok (enqueue_ticket i p (addr s i)))
             else op_when (st = Cooling (addr s i)) (enqueue_ticket i p (addr s i))) s = (oOk (), s')
           \<and> inv C s' \<and> evolves contents s s')"
proof -
  obtain p0 where held: "held s i p0 h" using frame_holder[OF inv i] owner by (auto simp: held_def)
  then obtain st where st: "swst s h = Some st" by (auto simp: held_def)
  obtain c where c: "bm_swips s h = Some c" "swip_wf c" using held_valid(3)[OF inv held] by blast
  have ad: "addr_ok (addr s i)" using slice_addr_facts(2)[OF pool_inv_slice[OF inv] i] .
  let ?s1 = "move_swip h (Cooling (addr s i)) s"
  have 1: "inv C ?s1 \<and> evolves contents s ?s1" using recolour_evolves[OF inv i held] by simp
  obtain x where x: "enqueue_ticket i p (addr s i) ?s1 = (oOk (), ?s1\<lparr>bm_cooling := x\<rparr>)"
    using enqueue_ticket_eq[of ?s1 i p "addr s i"] pool_inv_meta[of elems cap contents tok C ?s1] 1 i by auto
  obtain y where y: "enqueue_ticket i p (addr s i) s = (oOk (), s\<lparr>bm_cooling := y\<rparr>)"
    using enqueue_ticket_eq[OF pool_inv_meta[OF inv] i] .
  have "inv C (?s1\<lparr>bm_cooling := x\<rparr>) \<and> evolves contents s (?s1\<lparr>bm_cooling := x\<rparr>)"
    using cooling_evolves[of C ?s1 x] 1 evolves_trans by blast
  with st c ad x y cooling_evolves[OF inv, of y] inv show ?thesis
    by (cases "st = Hot (addr s i)"; cases "st = Cooling (addr s i)") (auto simp: cas_mark_cooling step_simps)
qed

lemma cool_candidates_step:
  assumes inv: "inv C s" and i: "i < fcount s" and room: "\<not> desired \<le> cooling_len (bm_cooling s)"
  shows "\<exists>s'. cool_candidates desired (i # is) s = cool_candidates desired is s' \<and> inv C s' \<and> evolves contents s s'"
proof (cases "pin_count (fr s i) \<noteq> 0 \<or> is_evicting (fr s i) \<or> fr_owner_swip (fr s i) = None")
  case True
  note rd = frame_pid_of_ok[OF pool_inv_meta[OF inv] i] resident_of_ok[OF pool_inv_slice[OF inv] i]
  have "cool_candidates desired (i # is) s = cool_candidates desired is s"
    using True room rd i by (auto simp: op_bind_def op_get_def on_meta_get[unfolded op_get_def])
  then show ?thesis using inv by auto
next
  case False
  then obtain h where h: "fr_owner_swip (fr s i) = Some h" by auto
  note rd = frame_pid_of_ok[OF pool_inv_meta[OF inv] i] resident_of_ok[OF pool_inv_slice[OF inv] i]
  obtain st s' where st: "swst s h = Some st" and s': "(if st = Hot (addr s i)
         then op_bind (cas_swip h (\<lambda>c. try_mark_cooling c (addr s i))) (\<lambda>ok. op_when ok (enqueue_ticket i (fr_pid (fr s i)) (addr s i)))
         else op_when (st = Cooling (addr s i)) (enqueue_ticket i (fr_pid (fr s i)) (addr s i))) s = (oOk (), s')"
    "inv C s'" "evolves contents s s'" using mark_and_enqueue[OF inv i h] by blast
  have "cool_candidates desired (i # is) s = op_seq (if st = Hot (addr s i)
         then op_bind (cas_swip h (\<lambda>c. try_mark_cooling c (addr s i))) (\<lambda>ok. op_when ok (enqueue_ticket i (fr_pid (fr s i)) (addr s i)))
         else op_when (st = Cooling (addr s i)) (enqueue_ticket i (fr_pid (fr s i)) (addr s i))) (cool_candidates desired is) s"
    using False room h
    by (simp add: i rd load_swip_ok[OF st] op_bind_simps(1))
  then show ?thesis using s' by (auto simp: op_seq_def op_bind_def)
qed

lemma cool_candidates_ok:
  assumes "inv C s" "\<forall>i \<in> set is. i < fcount s"
  shows "\<exists>s'. cool_candidates desired is s = (oOk (), s') \<and> inv C s' \<and> evolves contents s s'"
  using assms
proof (induction "is" arbitrary: s)
  case Nil
  then show ?case by (simp add: step_simps)
next
  case (Cons i "is")
  show ?case
  proof (cases "desired \<le> cooling_len (bm_cooling s)")
    case True
    then show ?thesis using Cons.prems(1) by (simp add: step_simps op_get_def)
  next
    case False
    have i: "i < fcount s" using Cons.prems by simp
    obtain s' where s': "cool_candidates desired (i # is) s = cool_candidates desired is s'" "inv C s'" "evolves contents s s'"
      using cool_candidates_step[OF Cons.prems(1) i False] by blast
    have "fcount s' = fcount s" using s'(3) by (simp add: evolves_def)
    then obtain s'' where "cool_candidates desired is s' = (oOk (), s'')" "inv C s''" "evolves contents s' s''"
      using Cons.IH[OF s'(2)] Cons.prems(2) by auto
    then show ?thesis using s' evolves_trans by auto
  qed
qed

lemma enqueue_cold_candidates_ok:
  assumes inv: "inv C s"
  shows "\<exists>s'. enqueue_cold_candidates force s = (oOk (), s') \<and> inv C s' \<and> evolves contents s s'"
proof -
  let ?s1 = "s\<lparr>bm_sample_cursor := bm_sample_cursor s + word_of_nat (min (fcount s) MAX_COOLING_SAMPLE)\<rparr>"
  let ?is = "map (\<lambda>off. (unat (bm_sample_cursor s) mod fcount s + off) mod fcount s) [0..<min (fcount s) MAX_COOLING_SAMPLE]"
  have n: "0 < fcount s" using pool_inv_table[OF inv] by (simp add: table_inv_def)
  have 1: "inv C ?s1 \<and> evolves contents s ?s1" by (rule idle_evolves[OF inv]) simp_all
  have "\<forall>i \<in> set ?is. i < fcount ?s1" using n by auto
  then obtain cs where cs: "sample_candidates ?is ?s1 = (oOk cs, ?s1)" "snd ` set cs \<subseteq> set ?is"
    using sample_candidates_ok[of ?s1 ?is] pool_inv_meta[of elems cap contents tok C ?s1] 1 by blast
  have lt: "\<forall>i \<in> set (map snd (sort_key (\<lambda>(heat, index). (heat, index)) cs)). i < fcount ?s1"
    using cs(2) n by (fastforce simp: subset_iff)
  show ?thesis
  proof (cases "enqueue_cold_candidates force s = (oOk (), s)")
    case True
    then show ?thesis using inv by simp
  next
    case False
    then obtain desired where
      "enqueue_cold_candidates force s = cool_candidates desired (map snd (sort_key (\<lambda>(heat, index). (heat, index)) cs)) ?s1"
      using cs(1) by (auto simp: enqueue_cold_candidates_def step_simps op_get_def Let_def split: if_splits)
    moreover obtain s' where "cool_candidates desired (map snd (sort_key (\<lambda>(heat, index). (heat, index)) cs)) ?s1 = (oOk (), s')"
      "inv C s'" "evolves contents ?s1 s'" using cool_candidates_ok[of C ?s1, OF _ lt] 1 by blast
    ultimately show ?thesis using 1 evolves_trans by auto
  qed
qed

section \<open>Acquiring a frame\<close>

lemma pop_checkout:
  assumes inv: "inv C s"
  obtains "on_frames (pop_free (en_queue E)) s = (oOk None, s)"
  | i s1 s' where "on_frames (pop_free (en_queue E)) s = (oOk (Some i), s1)" "free_frame_from_index i s1 = (oOk i, s')"
      "i \<notin> C" "inv (insert i C) s'" "evolves contents s s'" "bm_swips s' = bm_swips s" "bm_stats s' = bm_stats s"
proof (rule pop_free_cases[OF pool_inv_table[OF inv]])
  fix i q
  assume a: "on_frames (pop_free (en_queue E)) s = (oOk (Some i), s\<lparr>bm_frames := put_free q i False (bm_frames s)\<rparr>)"
    "i < fcount s" "is_free s i" "free_inv elems cap (put_free q i False (bm_frames s))"
  let ?s1 = "s\<lparr>bm_frames := put_free q i False (bm_frames s)\<rparr>"
  let ?s' = "set_frame i ((fr s i)\<lparr>fr_pin_control := EVICTING\<rparr>) ?s1"
  have "fr_pin_control (fr s i) = 0" using pool_inv_frame[OF inv a(2)] a(3) by (simp add: frame_inv_def)
  then have "free_frame_from_index i ?s1 = (oOk i, ?s')"
    using a(2) by (simp add: free_frame_from_index_def step_simps on_meta_bool_eq try_claim_eviction_eq)
  then show thesis using that(2)[OF a(1)] checkout_move[OF inv a(2,3) refl a(4)] by simp
qed (rule that(1))

lemma evict_attempts_ok:
  assumes "inv C s"
  shows "\<exists>got e s'. evict_attempts E n le s = (oOk (got, e), s')
     \<and> (case got of None \<Rightarrow> inv C s' | Some i \<Rightarrow> i \<notin> C \<and> inv (insert i C) s') \<and> evolves contents s s'"
  using assms
proof (induction n arbitrary: s le)
  case 0
  then show ?case by (simp add: step_simps)
next
  case (Suc n)
  have IH: "\<exists>got e s''. evict_attempts E n le' s' = (oOk (got, e), s'')
     \<and> (case got of None \<Rightarrow> inv C s'' | Some i \<Rightarrow> i \<notin> C \<and> inv (insert i C) s'') \<and> evolves contents s s''"
    if "inv C s'" "evolves contents s s'" for s' le'
    using Suc.IH[OF that(1), of le'] evolves_trans[OF that(2)] by blast
  show ?case
  proof (cases "bm_cooling s")
    case Nil
    then show ?thesis using Suc.prems cooling_evolves[OF Suc.prems, of "[]"] by (simp add: step_simps op_lift_def cooling_pop_def)
  next
    case (Cons t ts)
    let ?s1 = "s\<lparr>bm_cooling := ts\<rparr>"
    note 1 = cooling_evolves[OF Suc.prems, of ts]
    obtain r s2 where ev: "evict_ticket E t ?s1 = (r, s2)" and "reclaims C r ?s1 s2" using evict_ticket_ok 1 by blast
    then have r: "(\<exists>a. r = oOk a) \<or> (\<exists>e. r = oErr e)" and 2: "inv C s2" "evolves contents s s2"
      using 1 evolves_trans by (auto simp: reclaims_def)
    have step: "op_lift bm_cooling (\<lambda>c s. s\<lparr>bm_cooling := c\<rparr>) (\<lambda>q. case cooling_pop q of (t, q') \<Rightarrow> (oOk t, q')) s = (oOk (Some t), ?s1)"
      using Cons by (simp add: op_lift_def cooling_pop_def)
    note run = step_simps step op_try_def ev
    from r consider (err) e where "r = oErr e" | (freed) "r = oOk Freed" | (busy) "r = oOk Busy" | (stale) "r = oOk Stale"
      by (metis eviction_outcome.exhaust)
    then show ?thesis
    proof cases
      case err
      then show ?thesis using IH[OF 2, of "Some e"] by (simp add: run)
    next
      case stale
      then show ?thesis using IH[OF 2, of le] by (simp add: run)
    next
      case busy
      have "inv C (s2\<lparr>bm_cooling := push_unique t (bm_cooling s2)\<rparr>)" "evolves contents s (s2\<lparr>bm_cooling := push_unique t (bm_cooling s2)\<rparr>)"
        using cooling_evolves[OF 2(1)] evolves_trans[OF 2(2)] by blast+
      with busy show ?thesis using IH[of "s2\<lparr>bm_cooling := push_unique t (bm_cooling s2)\<rparr>" le] by (simp add: run)
    next
      case freed
      show ?thesis
      proof (rule pop_checkout[OF 2(1)])
        assume "on_frames (pop_free (en_queue E)) s2 = (oOk None, s2)"
        with freed show ?thesis using IH[OF 2, of le] by (simp add: run)
      next
        fix i s3 s4
        assume p: "on_frames (pop_free (en_queue E)) s2 = (oOk (Some i), s3)" "free_frame_from_index i s3 = (oOk i, s4)"
          "i \<notin> C" "inv (insert i C) s4" "evolves contents s2 s4"
        have "evict_attempts E (Suc n) le s = (oOk (Some i, le), s4)" using freed p by (simp add: run)
        then show ?thesis using p evolves_trans[OF 2(2)] by auto
      qed
    qed
  qed
qed

definition acquired :: "nat set \<Rightarrow> nat outcome \<Rightarrow> ('q, 't, 'p) manager \<Rightarrow> ('q, 't, 'p) manager \<Rightarrow> bool" where
  "acquired C r s s' \<longleftrightarrow> evolves contents s s' \<and> (case r of oOk i \<Rightarrow> i \<notin> C \<and> inv (insert i C) s' | oErr e \<Rightarrow> inv C s' | _ \<Rightarrow> False)"

lemma acquire_windows_ok:
  assumes "inv C s"
  shows "\<exists>r s'. acquire_windows E n le s = (r, s') \<and> acquired C r s s'"
  using assms
proof (induction n arbitrary: s le)
  case 0
  then show ?case by (auto simp: step_simps acquired_def)
next
  case (Suc n)
  show ?case
  proof (cases "bm_stopping s")
    case True
    then show ?thesis using Suc.prems by (simp add: step_simps ensure_running_def acquired_def)
  next
    case False
    note run = step_simps ensure_running_def False
    show ?thesis
    proof (rule pop_checkout[OF Suc.prems])
      fix i s1 s'
      assume p: "on_frames (pop_free (en_queue E)) s = (oOk (Some i), s1)" "free_frame_from_index i s1 = (oOk i, s')"
        "i \<notin> C" "inv (insert i C) s'" "evolves contents s s'"
      then show ?thesis by (simp add: run acquired_def)
    next
      assume p: "on_frames (pop_free (en_queue E)) s = (oOk None, s)"
      obtain s1 where 1: "enqueue_cold_candidates True s = (oOk (), s1)" "inv C s1" "evolves contents s s1"
        using enqueue_cold_candidates_ok[OF Suc.prems] by blast
      obtain got e s2 where 2: "evict_attempts E (cooling_len (bm_cooling s1)) le s1 = (oOk (got, e), s2)"
        "case got of None \<Rightarrow> inv C s2 | Some i \<Rightarrow> i \<notin> C \<and> inv (insert i C) s2" "evolves contents s1 s2"
        using evict_attempts_ok[OF 1(2)] by blast
      have e: "evolves contents s s2" using 1(3) 2(3) by (rule evolves_trans)
      show ?thesis
      proof (cases got)
        case (Some i)
        with p 1 2 e show ?thesis by (auto simp: run acquired_def op_get_def)
      next
        case None
        then obtain r s3 where 3: "acquire_windows E n e s2 = (r, s3)" "acquired C r s2 s3" using Suc.IH[of s2 e] 2(2) by auto
        have "acquire_windows E (Suc n) le s = (r, s3)" using None p 1 2 3 by (simp add: run op_get_def)
        with 3 show ?thesis using evolves_trans[OF e] by (auto simp: acquired_def)
      qed
    qed
  qed
qed

lemma acquire_frame_ok:
  assumes inv: "inv C s"
  obtains r s' where "acquire_frame E s = (r, s')" "acquired C r s s'"
proof (cases "bm_stopping s")
  case True
  then show ?thesis using inv that by (simp add: acquire_frame_def step_simps ensure_running_def acquired_def)
next
  case False
  note run = acquire_frame_def step_simps ensure_running_def False
  show ?thesis
  proof (rule pop_checkout[OF inv])
    fix i s1 s'
    assume "on_frames (pop_free (en_queue E)) s = (oOk (Some i), s1)" "free_frame_from_index i s1 = (oOk i, s')"
      "i \<notin> C" "inv (insert i C) s'" "evolves contents s s'"
    then show ?thesis using that by (simp add: run acquired_def)
  next
    assume p: "on_frames (pop_free (en_queue E)) s = (oOk None, s)"
    let ?s1 = "s\<lparr>bm_exhausted_frame_request := True, bm_cooler_signal := bm_cooler_signal s + 1\<rparr>"
    have 1: "inv C ?s1 \<and> evolves contents s ?s1" by (rule idle_evolves[OF inv]) simp_all
    then obtain r s' where 2: "acquire_windows E (div_ceil (fcount s) MAX_COOLING_SAMPLE + 2) None ?s1 = (r, s')" "acquired C r ?s1 s'"
      using acquire_windows_ok by blast
    have "acquire_frame E s = (r, s')" using p 2(1) by (simp add: run notify_cooler_def op_get_def del: acquire_windows.simps)
    moreover have "acquired C r s s'" using 2(2) 1 evolves_trans by (auto simp: acquired_def)
    ultimately show ?thesis using that by blast
  qed
qed

section \<open>The background cooler\<close>

lemma cooler_attempts_ok:
  assumes "inv C s"
  shows "\<exists>s'. cooler_attempts E n s = (oOk (), s') \<and> inv C s' \<and> evolves contents s s'"
  using assms
proof (induction n arbitrary: s)
  case 0
  then show ?case by (simp add: step_simps)
next
  case (Suc n)
  show ?case
  proof (cases "bm_low_watermark s \<le> free_count (en_queue E) (bm_frames s) \<or> bm_cooling s = []")
    case True
    then show ?thesis using Suc.prems cooling_evolves[OF Suc.prems, of "[]"]
      by (cases "bm_cooling s") (auto simp: step_simps op_lift_def cooling_pop_def op_get_def)
  next
    case False
    then obtain t ts where ts: "bm_cooling s = t # ts" by (cases "bm_cooling s") auto
    let ?s1 = "s\<lparr>bm_cooling := ts\<rparr>"
    note 1 = cooling_evolves[OF Suc.prems, of ts]
    obtain r s2 where ev: "evict_ticket E t ?s1 = (r, s2)" and "reclaims C r ?s1 s2" using evict_ticket_ok 1 by blast
    then have r: "(\<exists>a. r = oOk a) \<or> (\<exists>e. r = oErr e)" and 2: "inv C s2" "evolves contents s s2"
      using 1 evolves_trans by (auto simp: reclaims_def)
    let ?s3 = "if r = oOk Busy then s2\<lparr>bm_cooling := push_unique t (bm_cooling s2)\<rparr> else s2"
    have 3: "inv C ?s3" "evolves contents s ?s3" using 2 cooling_evolves[OF 2(1)] evolves_trans[OF 2(2)] by auto
    have "cooler_attempts E (Suc n) s = cooler_attempts E n ?s3"
    proof -
      from r consider "r = oOk Busy" | a where "r = oOk a" "a \<noteq> Busy" | e where "r = oErr e" by blast
      then show ?thesis using False ts ev by cases (simp_all add: step_simps op_lift_def cooling_pop_def op_try_def op_get_def)
    qed
    then show ?thesis using Suc.IH[OF 3(1)] evolves_trans[OF 3(2)] by auto
  qed
qed

lemma background_cooling_step_ok:
  assumes inv: "inv C s"
  obtains s' where "background_cooling_step E s = (oOk (), s')" "inv C s'" "evolves contents s s'"
proof (cases "bm_stopping s \<or> bm_low_watermark s \<le> free_count (en_queue E) (bm_frames s) \<or> bm_cooling_target s = 0")
  case True
  then show ?thesis using that inv by (auto simp: background_cooling_step_def step_simps op_get_def)
next
  case False
  let ?s1 = "s\<lparr>bm_exhausted_frame_request := False\<rparr>"
  have 1: "inv C ?s1" "evolves contents s ?s1" using idle_evolves[OF inv, of ?s1] by simp_all
  show ?thesis
  proof (cases "bm_eviction_mode s = Demand \<and> bm_fault_ins_this_epoch s = 0 \<and> \<not> bm_exhausted_frame_request s")
    case True
    then show ?thesis using that[of ?s1] False 1 by (simp add: background_cooling_step_def step_simps op_get_def)
  next
    case active: False
    obtain s2 where 2: "op_when (cooling_len (bm_cooling s) < bm_cooling_target s) (enqueue_cold_candidates False) ?s1 = (oOk (), s2)"
      "inv C s2" "evolves contents s s2"
    proof (cases "cooling_len (bm_cooling s) < bm_cooling_target s")
      case True
      then show ?thesis using enqueue_cold_candidates_ok[OF 1(1), of False] evolves_trans[OF 1(2)] that by (auto simp: op_when_def)
    qed (use 1 that in \<open>simp add: op_when_def op_return_def\<close>)
    obtain s3 where 3: "cooler_attempts E (cooling_len (bm_cooling s2)) s2 = (oOk (), s3)" "inv C s3" "evolves contents s2 s3"
      using cooler_attempts_ok[OF 2(2)] by blast
    have "background_cooling_step E s = (oOk (), s3)"
      using False active 2(1) 3(1) by (auto simp: background_cooling_step_def op_seq_def op_bind_def op_modify_def op_get_def)
    then show ?thesis using that 3 evolves_trans[OF 2(3)] by blast
  qed
qed

end

end
