(* ===== verification/Pool_Access.thy ===== *)
theory Pool_Access
  imports Pool_Reclaim
begin

text \<open>
  Correctness of faulting (src/crates/tierbuf/src/pool.rs): a page that is faulted in has the content
  it was evicted with, and no step of a fault disturbs a pinned frame or the content of any page.
\<close>

section \<open>What an access may change\<close>

definition faults_idle :: "('q, 't, 'p) manager \<Rightarrow> bool" where
  "faults_idle s \<longleftrightarrow> (\<forall>p pc. bm_pages s p = Some pc \<longrightarrow> fs_active (pc_fault pc) = None \<and> fs_completed (pc_fault pc) = None)"

text \<open>The fields that belong to the clients of an access and to the prefetcher.\<close>

definition same_session :: "('q, 't, 'p) manager \<Rightarrow> ('q, 't, 'p) manager \<Rightarrow> bool" where
  "same_session s s' \<longleftrightarrow> bm_id s' = bm_id s \<and> bm_next_pid s' = bm_next_pid s \<and> bm_next_handle s' = bm_next_handle s
     \<and> bm_stopping s' = bm_stopping s \<and> bm_workers s' = bm_workers s \<and> fcount s' = fcount s \<and> addr s' = addr s \<and> length (bm_tiers s') = length (bm_tiers s)
     \<and> bm_prefetch_queue s' = bm_prefetch_queue s \<and> bm_prefetch_running s' = bm_prefetch_running s
     \<and> bm_prefetch_in_flight s' = bm_prefetch_in_flight s \<and> bm_prefetch_pending s' = bm_prefetch_pending s"

definition serves :: "('t \<Rightarrow> nat \<Rightarrow> page option) \<Rightarrow> ('q, 't, 'p) manager \<Rightarrow> ('q, 't, 'p) manager \<Rightarrow> bool" where
  "serves contents s s' \<longleftrightarrow> page_view contents s' = page_view contents s
     \<and> map_option pc_swip \<circ> bm_pages s' = map_option pc_swip \<circ> bm_pages s \<and> (faults_idle s \<longrightarrow> faults_idle s') \<and> same_session s s' \<and> frames_kept s s'"

lemma same_session_refl [simp]: "same_session s s"
  by (simp add: same_session_def)

lemma serves_refl [simp]: "serves contents s s"
  by (simp add: serves_def)

lemma serves_trans: "serves contents s s' \<Longrightarrow> serves contents s' s'' \<Longrightarrow> serves contents s s''"
  unfolding serves_def same_session_def by (intro conjI) (auto intro: frames_kept_trans)

lemma evolves_serves: "evolves contents s s' \<Longrightarrow> serves contents s s'"
  by (auto simp: serves_def evolves_def same_session_def faults_idle_def)

section \<open>Moves of a checked-out frame\<close>

lemma held_occupied:
  assumes "pool_inv elems cap contents tok C s" "i < fcount s" "held s i p h"
  shows "\<not> is_free s i" "i \<notin> C" "clean_ok contents s i p" "pin_ok (fr s i)"
  using frame_holder[OF assms(1,2)] assms(3) by (auto simp: held_def)

lemma checked_out:
  assumes "pool_inv elems cap contents tok C s" "i \<in> C"
  shows "i < fcount s" "blank (fr s i)" "fr_pin_control (fr s i) = EVICTING" "\<not> is_free s i" "\<And>p h. \<not> held s i p h"
proof -
  show i: "i < fcount s" using assms by (auto simp: pool_inv_def)
  show "blank (fr s i)" "fr_pin_control (fr s i) = EVICTING" "\<not> is_free s i" "\<not> held s i p h" for p h
    using pool_inv_frame[OF assms(1) i] assms(2) by (auto simp: frame_inv_def blank_def held_def split: if_splits)
qed

text \<open>The shared part: one frame that holds no page changes, everything a page consists of stays.\<close>

lemma frame_swap_move:
  assumes inv: "pool_inv elems cap contents tok C s" and i: "i < fcount s" "\<And>p h. \<not> held s i p h"
    and fr': "\<And>j. fr s' j = (if j = i then f else fr s j)" "fcount s' = fcount s" "addr s' = addr s"
      "\<And>j. j \<noteq> i \<Longrightarrow> fdata s' j = fdata s j" "\<And>j. j \<noteq> i \<Longrightarrow> is_free s' j = is_free s j"
      "index_of_resident (bm_frames s') = index_of_resident (bm_frames s)" "table_inv elems cap (bm_frames s')"
    and f: "fr_owner_swip f = None" "frame_inv contents C' s' i" "\<And>j. j \<noteq> i \<Longrightarrow> j \<in> C' \<longleftrightarrow> j \<in> C" "C' \<subseteq> {..<fcount s}"
    and same: "bm_swips s' = bm_swips s" "ents s' = ents s" "bm_pages s' = bm_pages s" "bm_id s' = bm_id s" "bm_next_pid s' = bm_next_pid s"
      "bm_next_handle s' = bm_next_handle s" "bm_prefetched s' = bm_prefetched s"
      "stored contents (bm_tiers s') = stored contents (bm_tiers s)" "\<forall>t \<in> set (bm_tiers s'). tok t"
      "length (st_tiers (bm_stats s')) = length (bm_tiers s')"
  shows "pool_inv elems cap contents tok C' s' \<and> page_view contents s' = page_view contents s"
proof
  have held: "held s' = held s" using i(2) f(1) by (auto simp: fun_eq_iff held_def fr' same)
  have "frame_inv contents C' s' j" if "j < fcount s" for j
  proof (cases "j = i")
    case False
    then have "clean_ok contents s' j = clean_ok contents s j" by (simp add: fun_eq_iff clean_ok_def fr' same)
    with False show ?thesis using pool_inv_frame[OF inv that] by (auto simp: frame_inv_def fr' held f(3) split: if_splits)
  qed (simp add: f)
  moreover have "page_inv s' = page_inv s" by (simp add: fun_eq_iff page_inv_def held same fr')
  moreover have "cell_inv s' = cell_inv s" by (simp add: fun_eq_iff cell_inv_def same)
  moreover have "dir_inv contents s' = dir_inv contents s" by (simp add: dir_inv_def same)
  ultimately show inv': "pool_inv elems cap contents tok C' s'" using inv f(4) same fr' by (simp add: pool_inv_def)
  show "page_view contents s' = page_view contents s"
  proof (rule page_view_eqI[OF inv inv'])
    show "page_view contents s' p = Some (fdata s j)" if "j < fcount s" "held s j p h" for j p h
    proof -
      have "j \<noteq> i" using that(2) i(2) by auto
      then show ?thesis using view_held[OF inv', of j p h] that by (simp add: held fr')
    qed
    show "page_view contents s' p = stored contents (bm_tiers s) l"
      if "map_option pc_swip (bm_pages s p) = Some h" "swst s h = Some (Evicted p)" "ents s p = Some l" for p h l
      using that view_evicted[of s' p h p contents] by (simp add: same)
  qed (simp add: same)
qed

context buffer_pool
begin

text \<open>The content and the latch of a checked-out frame are its holder's to change.\<close>

lemma scratch_move:
  assumes inv: "inv C s" and i: "i \<in> C" and f: "blank f" "fr_pin_control f = EVICTING" and d: "length d = PAGE_SIZE"
    and s': "bm_frames s' = put_frame i f (put_data i d (bm_frames s))"
      "bm_swips s' = bm_swips s" "ents s' = ents s" "bm_pages s' = bm_pages s" "bm_id s' = bm_id s" "bm_next_pid s' = bm_next_pid s"
      "bm_next_handle s' = bm_next_handle s" "bm_prefetched s' = bm_prefetched s"
      "stored contents (bm_tiers s') = stored contents (bm_tiers s)" "\<forall>t \<in> set (bm_tiers s'). tok t"
      "length (st_tiers (bm_stats s')) = length (bm_tiers s')"
  shows "inv C s' \<and> page_view contents s' = page_view contents s"
proof -
  note co = checked_out[OF inv i]
  have tb: "length (ft_data (bm_frames s)) = fcount s" using pool_inv_table[OF inv] by (simp add: table_inv_def)
  have "fdata s' j = fdata s j" if "j \<noteq> i" for j using that tdata_put_data[OF tb co(1)] by (simp add: s')
  moreover have "frame_inv contents C s' i" using co i f by (simp add: frame_inv_def s')
  moreover have "table_inv elems cap (bm_frames s')" using table_inv_put_data[OF pool_inv_table[OF inv] d] by (simp add: s'(1))
  moreover have "C \<subseteq> {..<fcount s}" using inv by (simp add: pool_inv_def)
  ultimately show ?thesis
    using co f s' by (intro frame_swap_move[OF inv co(1,5), of s' f]) (simp_all add: tfr_put_frame blank_def)
qed

lemma return_move:
  assumes inv: "inv C s" and i: "i \<in> C" and f: "blank f" "fr_pin_control f = 0"
    and s': "bm_frames s' = put_free q i True (put_frame i f (bm_frames s))" "free_inv elems cap (bm_frames s')"
      "bm_swips s' = bm_swips s" "ents s' = ents s" "bm_pages s' = bm_pages s" "bm_id s' = bm_id s" "bm_next_pid s' = bm_next_pid s"
      "bm_next_handle s' = bm_next_handle s" "bm_prefetched s' = bm_prefetched s"
      "bm_tiers s' = bm_tiers s" "bm_stats s' = bm_stats s"
  shows "inv (C - {i}) s' \<and> page_view contents s' = page_view contents s"
proof -
  note co = checked_out[OF inv i]
  have mem: "length (ft_free_membership (put_frame i f (bm_frames s))) = fcount s"
    using pool_inv_table[OF inv] by (simp add: table_inv_def free_inv_def put_frame_def)
  have free: "is_free s' j = (if j = i then True else is_free s j)" for j
    unfolding s'(1) using mem co(1) by (subst tfree_put_free) auto
  have "frame_inv contents (C - {i}) s' i" using co f free[of i] by (simp add: frame_inv_def) (simp add: s')
  moreover have "table_inv elems cap (bm_frames s')" using pool_inv_table[OF inv] s'(2) unfolding s'(1) by (intro table_inv_put_free) simp_all
  moreover have "C - {i} \<subseteq> {..<fcount s}" "\<forall>t \<in> set (bm_tiers s). tok t" "length (st_tiers (bm_stats s)) = length (bm_tiers s)"
    using inv by (auto simp: pool_inv_def)
  ultimately show ?thesis
    using co f s' free by (intro frame_swap_move[OF inv co(1,5), of s' f]) (simp_all add: tfr_put_frame blank_def)
qed

text \<open>
  The page \<open>p\<close>, evicted before or new, moves into a checked-out frame that has its content.
\<close>

lemma occupy_move:
  assumes inv: "inv C s" and i: "i \<in> C"
    and fr: "bm_frames s' = put_frame i f (bm_frames s)" "fr_pid f = p" "fr_owner_swip f = Some h" "pin_ok f"
      "fr_dirty f \<or> (\<exists>l. ents s p = Some l \<and> stored contents (bm_tiers s) l = Some (fdata s i))"
    and sw: "\<And>k. k \<noteq> h \<Longrightarrow> bm_swips s' k = bm_swips s k" "bm_swips s' h = Some c" "swip_wf c" "sw_pid c = p" "sw_owner_id c = bm_id s"
      "swst s' h = Some (Hot (addr s i))" "\<And>c. bm_swips s h = Some c \<Longrightarrow> sw_pid c = p" "swst s h = None \<or> swst s h = Some (Evicted p)"
    and pg: "map_option pc_swip \<circ> bm_pages s' = (map_option pc_swip \<circ> bm_pages s)(p \<mapsto> h)"
      "bm_pages s p = None \<or> map_option pc_swip (bm_pages s p) = Some h"
    and new: "pid_is_valid p" "p < bm_next_pid s'" "bm_next_pid s \<le> bm_next_pid s'" "h < bm_next_handle s'" "bm_next_handle s \<le> bm_next_handle s'"
    and same: "ents s' = ents s" "bm_id s' = bm_id s" "\<And>q. q \<noteq> p \<Longrightarrow> bm_prefetched s' q = bm_prefetched s q"
      "bm_tiers s' = bm_tiers s" "length (st_tiers (bm_stats s')) = length (st_tiers (bm_stats s))"
  shows "inv (C - {i}) s' \<and> page_view contents s' = (page_view contents s)(p \<mapsto> fdata s i)"
proof
  note co = checked_out[OF inv i]
  have tb: "fcount s' = fcount s" "addr s' = addr s" "fdata s' = fdata s" "is_free s' = is_free s" by (simp_all add: fr(1))
  have fr': "fr s' j = (if j = i then f else fr s j)" for j using co(1) by (simp add: fr(1) tfr_put_frame)
  have pg': "map_option pc_swip (bm_pages s' q) = (if q = p then Some h else map_option pc_swip (bm_pages s q))" for q
    using fun_cong[OF pg(1), of q] by simp
  have st: "swst s' k = swst s k" if "k \<noteq> h" for k using sw(1)[OF that] by (simp add: cell_state_def)
  have here: "held s' i p h" using sw(6) by (simp add: held_def fr' fr(2,3) pg' tb)
  have other: "j \<noteq> i" "q \<noteq> p" "k \<noteq> h" if "held s j q k" for j q k
    using that co(5) sw(8) pg(2) by (auto simp: held_def)
  have keep: "held s' j q k" if "held s j q k" for j q k
    using that other[OF that] by (simp add: held_def fr' pg' st tb)
  have frames: "frame_inv contents (C - {i}) s' j" if j: "j < fcount s" for j
  proof (cases "j = i")
    case True
    have "clean_ok contents s' i p" using fr(5) by (auto simp: clean_ok_def fr' tb same)
    with True here fr(4) co(4) show ?thesis by (auto simp: frame_inv_def fr' tb)
  next
    case False
    then have "clean_ok contents s' j = clean_ok contents s j" by (simp add: fun_eq_iff clean_ok_def fr' tb same)
    with pool_inv_frame[OF inv j] keep False show ?thesis by (simp add: frame_inv_def fr' tb split: if_splits) blast
  qed
  have ne: "k \<noteq> h" if "map_option pc_swip (bm_pages s q) = Some k" "q \<noteq> p" for q k
    using that pool_inv_page[OF inv, of q] sw(7) by (auto simp: page_inv_def)
  have pages: "page_inv s' q (pc_swip pc)" if pc: "bm_pages s' q = Some pc" for q pc
  proof (cases "q = p")
    case True
    then have "pc_swip pc = h" using pg'[of p] pc by simp
    with True here sw new co(1) show ?thesis by (auto simp: page_inv_def same tb)
  next
    case False
    then obtain pc0 where pc0: "bm_pages s q = Some pc0" "pc_swip pc = pc_swip pc0" using pg'[of q] pc by (cases "bm_pages s q") auto
    have "page_inv s q (pc_swip pc0)" using pool_inv_page[OF inv pc0(1)] .
    with ne[of q "pc_swip pc0"] pc0 False show ?thesis
      using keep sw(1) same(3)[OF False] less_le_trans[OF _ new(3)] by (auto simp: page_inv_def same tb st)
  qed
  have cells: "cell_inv s' k d" if d: "bm_swips s' k = Some d" for k d
  proof (cases "k = h")
    case True
    then show ?thesis using d sw new(4) by (simp add: cell_inv_def same pg')
  next
    case False
    with d sw(1) have "cell_inv s k d" using pool_inv_cell[OF inv] by simp
    with False pg(2) new(5) show ?thesis by (auto simp: cell_inv_def same pg')
  qed
  have "bm_pages s' q \<noteq> None" if "bm_pages s q \<noteq> None" for q using pg'[of q] that by (auto split: if_splits)
  then have "dir_inv contents s'" using pool_inv_dir[OF inv] by (auto simp: dir_inv_def same)
  moreover have "table_inv elems cap (bm_frames s')" using pool_inv_table[OF inv] by (simp add: fr(1))
  ultimately show inv': "inv (C - {i}) s'" using inv frames pages cells same by (auto simp: pool_inv_def tb)
  show "page_view contents s' = (page_view contents s)(p \<mapsto> fdata s i)"
  proof
    fix q
    show "page_view contents s' q = ((page_view contents s)(p \<mapsto> fdata s i)) q"
    proof (cases "q = p")
      case True
      then show ?thesis using view_held[OF inv' _ here] co(1) by (simp add: tb)
    next
      case False
      then have q: "map_option pc_swip (bm_pages s' q) = map_option pc_swip (bm_pages s q)" by (simp add: pg')
      show ?thesis
      proof (cases "bm_pages s q")
        case None
        with q False show ?thesis by (simp add: page_view_def)
      next
        case (Some pc)
        then show ?thesis
        proof (cases rule: page_cases[OF inv Some])
          case (1 j)
          then show ?thesis using view_held[OF inv' _ keep[OF 1(2)]] view_held[OF inv 1] False by (simp add: tb)
        next
          case (2 l)
          have "pc_swip pc \<noteq> h" using ne[of q] Some False by simp
          then show ?thesis using 2 view_evicted[of s' q "pc_swip pc" q contents] view_evicted[of s q "pc_swip pc" q contents] Some q False
            by (simp add: st same)
        qed
      qed
    qed
  qed
qed

section \<open>Faulting\<close>

lemma not_evicting:
  assumes "inv C s" "i < fcount s" "i \<notin> C"
  shows "fr_pin_control (fr s i) \<noteq> EVICTING"
proof
  assume e: "fr_pin_control (fr s i) = EVICTING"
  then have "\<not> pin_ok (fr s i)" by (simp add: pin_ok_def EVICTING_value)
  with pool_inv_frame[OF assms(1,2)] assms(3) e show False by (auto simp: frame_inv_def split: if_splits)
qed

text \<open>A frame that was acquired was not pinned before.\<close>

lemma acquired_fresh:
  assumes "inv C s" "acquired C (oOk i) s s1"
  shows "i < fcount s" "fr_pin_control (fr s i) = 0" "i \<notin> C" "inv (insert i C) s1" "evolves contents s s1"
proof -
  show a: "i \<notin> C" "inv (insert i C) s1" "evolves contents s s1" using assms(2) by (simp_all add: acquired_def)
  show i: "i < fcount s" using checked_out(1)[OF a(2), of i] a(3) by (simp add: evolves_def)
  have "fr_pin_control (fr s1 i) = EVICTING" using checked_out(3)[OF a(2)] by simp
  with not_evicting[OF assms(1) i a(1)] a(3) i show "fr_pin_control (fr s i) = 0" by (metis evolves_def frames_kept_def)
qed

text \<open>A state that differs from \<open>s\<close> by reclaiming, and then in a frame that was not pinned.\<close>

lemma serves_beside:
  assumes "evolves contents s s1" "i < fcount s" "fr_pin_control (fr s i) = 0" "page_view contents s' = page_view contents s1"
    "\<And>j. j \<noteq> i \<Longrightarrow> fr s' j = fr s1 j \<and> fdata s' j = fdata s1 j" "bm_pages s' = bm_pages s1" "same_session s1 s'"
    "fr_pin_control (fr s' i) = 0 \<or> fr_pin_control (fr s' i) = EVICTING"
  shows "serves contents s s'"
proof -
  have "frames_kept s s'" unfolding frames_kept_def
  proof (intro allI impI)
    fix j assume "j < fcount s"
    then show "if fr_pin_control (fr s j) = 0 then fr_pin_control (fr s' j) = 0 \<or> fr_pin_control (fr s' j) = EVICTING
      else fr s' j = fr s j \<and> fdata s' j = fdata s j"
      using assms(1,3,5,8) by (cases "j = i") (auto simp: evolves_def frames_kept_def)
  qed
  then show ?thesis using assms by (simp add: serves_def evolves_def same_session_def faults_idle_def)
qed

definition unpinned_drop :: "nat \<Rightarrow> ('q, 't, 'p) manager \<Rightarrow> ('q, 't, 'p) manager" where
  "unpinned_drop i s = pushed i (set_frame i ((fr s i)\<lparr>fr_pin_control := 0\<rparr>) s)"

lemma free_frame_drop_ok:
  assumes inv: "inv C s" and i: "i \<in> C"
  shows "free_frame_drop E True i s = (oOk (), unpinned_drop i s)" "owned_frame_drop E True i s = (oOk (), unpinned_drop i s)"
    "inv (C - {i}) (unpinned_drop i s)" "page_view contents (unpinned_drop i s) = page_view contents s"
    "j \<noteq> i \<Longrightarrow> fr (unpinned_drop i s) j = fr s j \<and> fdata (unpinned_drop i s) j = fdata s j"
    "bm_pages (unpinned_drop i s) = bm_pages s" "same_session s (unpinned_drop i s)" "fr_pin_control (fr (unpinned_drop i s) i) = 0"
proof -
  note co = checked_out[OF inv i]
  let ?s1 = "set_frame i ((fr s i)\<lparr>fr_pin_control := 0\<rparr>) s"
  have p: "on_frames (push_free (en_queue E) i) ?s1 = (oOk (Inr ()), unpinned_drop i s)" "free_inv elems cap (bm_frames (unpinned_drop i s))"
    using push_free_eq[of ?s1 i] pool_inv_table[OF inv] co by (simp_all add: unpinned_drop_def)
  show "free_frame_drop E True i s = (oOk (), unpinned_drop i s)" "owned_frame_drop E True i s = (oOk (), unpinned_drop i s)"
    using p(1) co by (simp_all add: free_frame_drop_def owned_frame_drop_def step_simps on_meta_eq release_eviction_eq)
  have "blank ((fr s i)\<lparr>fr_pin_control := 0\<rparr>)" using co by (simp add: blank_def)
  from return_move[OF inv i this, of "unpinned_drop i s"] p(2)
  show "inv (C - {i}) (unpinned_drop i s)" "page_view contents (unpinned_drop i s) = page_view contents s"
    by (simp_all add: unpinned_drop_def pushed_def)
  show "j \<noteq> i \<Longrightarrow> fr (unpinned_drop i s) j = fr s j \<and> fdata (unpinned_drop i s) j = fdata s j"
    "bm_pages (unpinned_drop i s) = bm_pages s" "same_session s (unpinned_drop i s)" "fr_pin_control (fr (unpinned_drop i s) i) = 0"
    using co(1) by (simp_all add: unpinned_drop_def pushed_def same_session_def)
qed

text \<open>The frame after its content has been replaced under its latch.\<close>

definition rewritten :: "frame \<Rightarrow> frame" where
  "rewritten f = f\<lparr>fr_latch := bump_word (with_state (fr_latch f) EXCLUSIVE_STATE)\<rparr>"

lemma rewritten_simps [simp]:
  "fr_pin_control (rewritten f) = fr_pin_control f" "latch_state (fr_latch (rewritten f)) = 0" "blank f \<Longrightarrow> blank (rewritten f)"
  by (simp_all add: rewritten_def blank_def)

definition loaded :: "nat \<Rightarrow> page \<Rightarrow> 't list \<Rightarrow> ('q, 't, 'p) manager \<Rightarrow> ('q, 't, 'p) manager" where
  "loaded i d ts s = s\<lparr>bm_frames := put_frame i (rewritten (fr s i)) (put_data i d (bm_frames s)), bm_tiers := ts\<rparr>"

lemma read_backing_page_ok:
  assumes inv: "inv C s" and i: "i \<in> C" and l: "stored contents (bm_tiers s) l = Some d0"
  obtains r d ts where "read_backing_page E i l s = (r, loaded i d ts s)" "inv C (loaded i d ts s)"
    "page_view contents (loaded i d ts s) = page_view contents s" "stored contents ts = stored contents (bm_tiers s)"
    "length ts = length (bm_tiers s)" "r = oOk () \<and> d = d0 \<or> (\<exists>e. r = oErr e)"
proof -
  note co = checked_out[OF inv i]
  let ?k = "loc_tier_index l"
  have k: "?k < length (bm_tiers s)" "contents (bm_tiers s ! ?k) (loc_offset l) = Some d0" using l by (auto simp: stored_def split: if_splits)
  have tok: "tok (bm_tiers s ! ?k)" "\<forall>t \<in> set (bm_tiers s). tok t" "length (st_tiers (bm_stats s)) = length (bm_tiers s)"
    using inv k by (auto simp: pool_inv_def)
  have tb: "table_inv elems cap (bm_frames s)" using pool_inv_table[OF inv] .
  obtain r d t' where rd: "tb_read (en_tier E) (loc_offset l) (fdata s i) (bm_tiers s ! ?k) = ((r, d), t')" by (metis prod.exhaust)
  note R = tiers.read_law[OF tok(1) tdata_length[OF tb co(1)] rd]
  let ?ts = "(bm_tiers s)[?k := t']" and ?f = "(fr s i)\<lparr>fr_latch := with_state (fr_latch (fr s i)) EXCLUSIVE_STATE\<rparr>"
  have st: "stored contents ?ts = stored contents (bm_tiers s)" "\<forall>t \<in> set ?ts. tok t"
    using stored_same[OF k(1)] tiers_ok_update[OF tok(2)] R by auto
  have latch: "latch_state (fr_latch (fr s i)) = 0" using co(2) by (simp add: blank_def)
  have 1: "on_frames (read_frame i) (set_frame i ?f s) = (oOk (fdata s i), set_frame i ?f s)"
    using read_frame_ok[of elems cap "set_frame i ?f s" i] tb co(1) by simp
  have 2: "on_frames (write_frame i d) (set_frame i ?f s\<lparr>bm_tiers := ?ts\<rparr>)
      = (oOk (), s\<lparr>bm_frames := put_data i d (put_frame i ?f (bm_frames s)), bm_tiers := ?ts\<rparr>)"
    using write_frame_ok[of elems cap "set_frame i ?f s\<lparr>bm_tiers := ?ts\<rparr>" i d] tb co(1) by simp
  have sw: "put_data i d (put_frame i g (bm_frames s)) = put_frame i g (put_data i d (bm_frames s))" for g by (simp add: put_data_def put_frame_def)
  have run: "read_backing_page E i l s = (r, loaded i d ?ts s)"
    using co(1) latch 1 2 k(1) rd
    by (simp add: read_backing_page_def step_simps on_meta_eq on_tier_def loaded_def rewritten_def sw)
  have "inv C (loaded i d ?ts s) \<and> page_view contents (loaded i d ?ts s) = page_view contents s"
    by (rule scratch_move[OF inv i, of "rewritten (fr s i)" d]) (use co R st tok in \<open>simp_all add: loaded_def\<close>)
  then show ?thesis using that[OF run] st R k(2) by auto
qed

text \<open>A page that has its handle evicted and a copy in a tier.\<close>

definition evicted_at :: "('q, 't, 'p) manager \<Rightarrow> page_id \<Rightarrow> handle \<Rightarrow> location \<Rightarrow> bool" where
  "evicted_at s p h l \<longleftrightarrow> map_option pc_swip (bm_pages s p) = Some h \<and> swst s h = Some (Evicted p) \<and> ents s p = Some l"

lemma evicted_at_evolves: "evicted_at s p h l \<Longrightarrow> evolves contents s s' \<Longrightarrow> evicted_at s' p h l"
  by (auto simp: evicted_at_def evolves_def)

lemma evicted_at_facts:
  assumes inv: "inv C s" and ev: "evicted_at s p h l"
  obtains c d where "bm_swips s h = Some c" "swip_wf c" "sw_pid c = p" "sw_owner_id c = bm_id s" "pid_is_valid p" "p < bm_next_pid s"
    "h < bm_next_handle s" "bm_prefetched s p = None" "stored contents (bm_tiers s) l = Some d" "page_view contents s p = Some d"
    "loc_tier_index l < length (bm_tiers s)"
proof -
  obtain pc where pc: "bm_pages s p = Some pc" "pc_swip pc = h" using ev by (auto simp: evicted_at_def)
  have "\<not> held s i p h" for i using ev by (auto simp: evicted_at_def held_def)
  then obtain c where c: "pid_is_valid p" "p < bm_next_pid s" "bm_swips s h = Some c" "sw_pid c = p" "sw_owner_id c = bm_id s" "bm_prefetched s p = None"
    using pool_inv_page[OF inv pc(1)] pc(2) by (auto simp: page_inv_def)
  moreover have "cell_inv s h c" using pool_inv_cell[OF inv c(3)] .
  moreover obtain d where d: "stored contents (bm_tiers s) l = Some d" using pool_inv_dir[OF inv] ev by (auto simp: dir_inv_def evicted_at_def)
  moreover have "page_view contents s p = Some d" using view_evicted[of s p h p contents] ev d by (simp add: evicted_at_def)
  moreover have "loc_tier_index l < length (bm_tiers s)" using d by (auto simp: stored_def split: if_splits)
  ultimately show ?thesis using that[of c d] by (simp add: cell_inv_def)
qed

lemma fault_location_ok:
  assumes inv: "inv C s" and pc: "map_option pc_swip (bm_pages s p) = Some h" and run: "\<not> bm_stopping s"
  obtains i where "fault_location h p s = (oOk None, s)" "i < fcount s" "held s i p h"
  | l where "fault_location h p s = (oOk (Some l), s\<lparr>bm_directory := (bm_directory s)\<lparr>pd_lookups := pd_lookups (bm_directory s) + 1\<rparr>\<rparr>)"
      "evicted_at s p h l"
proof -
  obtain pc0 where pc0: "bm_pages s p = Some pc0" "pc_swip pc0 = h" using pc by auto
  show ?thesis
  proof (cases rule: page_cases[OF inv pc0(1)])
    case (1 i)
    then have "fault_location h p s = (oOk None, s)"
      using run load_swip_ok[of s h] pc0(2) by (auto simp: fault_location_def step_simps ensure_running_def held_def)
    then show ?thesis using that(1) 1 pc0 by blast
  next
    case (2 l)
    then have ev: "evicted_at s p h l" using pc pc0 by (simp add: evicted_at_def)
    have "loc_tier_index l < length (bm_tiers s)" using evicted_at_facts[OF inv ev] by blast
    then have "fault_location h p s = (oOk (Some l), s\<lparr>bm_directory := (bm_directory s)\<lparr>pd_lookups := pd_lookups (bm_directory s) + 1\<rparr>\<rparr>)"
      using run load_swip_ok[of s h] 2 pc0(2)
      by (simp add: fault_location_def step_simps ensure_running_def on_directory_def op_lift_def dir_lookup_def op_get_def)
    then show ?thesis using that(2) ev by blast
  qed
qed

text \<open>The frame holds the page, and the handle points at the frame.\<close>

definition faulted_in :: "nat \<Rightarrow> page_id \<Rightarrow> handle \<Rightarrow> ('q, 't, 'p) manager \<Rightarrow> ('q, 't, 'p) manager" where
  "faulted_in i p h s = set_frame i ((installed p h (fr s i))\<lparr>fr_pin_control := 0\<rparr>) (move_swip h (Hot (addr s i)) s)"

lemma publish_frame_ok:
  assumes inv: "inv C s" and i: "i \<in> C" and p: "pid_is_valid p"
  shows "publish_frame h p i s = (oOk (), set_frame i ((installed p h (fr s i))\<lparr>fr_pin_control := 1\<rparr>) s)"
  using checked_out[OF inv i] p
  by (simp add: publish_frame_def free_frame_publish_pin_def step_simps on_meta_eq frame_install_ok blank_def publish_reserved_pin_eq)
    (simp add: installed_def)

lemma swizzle_ok:
  assumes inv: "inv C s" and i: "i \<in> C" and ev: "evicted_at s p h l" and s1: "bm_swips s1 = bm_swips s"
  shows "cas_swip h (\<lambda>c. try_swizzle c p (addr s i)) s1 = (oOk True, move_swip h (Hot (addr s i)) s1)"
proof -
  obtain c where "bm_swips s h = Some c" "swip_wf c" "pid_is_valid p" using evicted_at_facts[OF inv ev] by blast
  then show ?thesis using cas_swizzle[of s1 h c p "Evicted p" "addr s i"] ev by (simp add: s1 evicted_at_def)
qed

lemma faulted_in_ok:
  assumes inv: "inv C s" and i: "i \<in> C" and ev: "evicted_at s p h l" and d: "stored contents (bm_tiers s) l = Some (fdata s i)"
    and pf: "\<And>q. q \<noteq> p \<Longrightarrow> pf q = bm_prefetched s q"
  shows "inv (C - {i}) ((faulted_in i p h s)\<lparr>bm_prefetched := pf\<rparr>)"
    "page_view contents ((faulted_in i p h s)\<lparr>bm_prefetched := pf\<rparr>) = page_view contents s"
    "held ((faulted_in i p h s)\<lparr>bm_prefetched := pf\<rparr>) i p h"
proof -
  let ?s = "(faulted_in i p h s)\<lparr>bm_prefetched := pf\<rparr>" and ?f = "(installed p h (fr s i))\<lparr>fr_pin_control := 0\<rparr>"
  note co = checked_out[OF inv i]
  obtain c where c: "bm_swips s h = Some c" "swip_wf c" "sw_pid c = p" "sw_owner_id c = bm_id s" "pid_is_valid p" "p < bm_next_pid s"
    "h < bm_next_handle s" "page_view contents s p = Some (fdata s i)" using evicted_at_facts[OF inv ev] d by (metis option.inject)
  have ad: "addr_ok (addr s i)" using slice_addr_facts(2)[OF pool_inv_slice[OF inv] co(1)] .
  have st: "cell_state (move_cell h (Hot (addr s i)) (bm_swips s)) k = (if k = h then Some (Hot (addr s i)) else swst s k)" for k
    using ad ev by (intro cell_state_move) (auto simp: evicted_at_def)
  have pin: "pin_ok ?f" by (simp add: pin_ok_def installed_def)
  have pg: "map_option pc_swip \<circ> bm_pages s = (map_option pc_swip \<circ> bm_pages s)(p \<mapsto> h)"
    using ev by (auto simp: fun_eq_iff evicted_at_def)
  have "inv (C - {i}) ?s \<and> page_view contents ?s = (page_view contents s)(p \<mapsto> fdata s i)"
    by (rule occupy_move[OF inv i, of ?s ?f p h "c\<lparr>sw_word := encode_state (Hot (addr s i))\<rparr>"])
      (use c ad st pin pg d ev pf in \<open>simp_all add: faulted_in_def evicted_at_def move_cell_def installed_def swip_wf_def decode_encode_hot\<close>)
  then show "inv (C - {i}) ?s" "page_view contents ?s = page_view contents s" using c(8) by (auto simp: fun_eq_iff)
  show "held ?s i p h" using ev st co(1) by (simp add: held_def faulted_in_def evicted_at_def installed_def)
qed

text \<open>A fault that succeeds leaves the page resident, unpinned if it had to be read.\<close>

definition fault_served :: "nat set \<Rightarrow> nat option outcome \<Rightarrow> page_id \<Rightarrow> handle \<Rightarrow> ('q, 't, 'p) manager \<Rightarrow> ('q, 't, 'p) manager \<Rightarrow> bool" where
  "fault_served C r p h s s' \<longleftrightarrow> inv C s' \<and> serves contents s s'
     \<and> (case r of
          oOk tier \<Rightarrow> (\<exists>i < fcount s'. held s' i p h \<and> (swst s h = Some (Evicted p) \<longrightarrow> fr_pin_control (fr s' i) = 0))
            \<and> (\<forall>k. tier = Some k \<longrightarrow> k < length (bm_tiers s'))
        | oErr _ \<Rightarrow> True | _ \<Rightarrow> False)"

text \<open>From the filled frame to the published page.\<close>

lemma load_run:
  assumes inv: "inv C s" and i: "i \<in> C" and ev: "evicted_at s p h l" and d: "stored contents (bm_tiers s) l = Some d0"
  obtains (failed) e s1 where "read_backing_page E i l s = (oErr e, s1)" "inv C s1" "page_view contents s1 = page_view contents s"
      "bm_pages s1 = bm_pages s" "same_session s s1" "\<And>j. j \<noteq> i \<Longrightarrow> fr s1 j = fr s j \<and> fdata s1 j = fdata s j"
  | (filled) s1 s2 where "read_backing_page E i l s = (oOk (), s1)"
      "on_stats (record_tier_read (loc_tier_index l) (word_of_nat PAGE_SIZE)) s1 = (oOk (), s2)"
      "inv C s2" "evicted_at s2 p h l" "stored contents (bm_tiers s2) l = Some (fdata s2 i)"
      "page_view contents s2 = page_view contents s" "bm_pages s2 = bm_pages s" "same_session s s2" "addr s2 = addr s"
      "bm_prefetched s2 = bm_prefetched s" "\<And>j. j \<noteq> i \<Longrightarrow> fr s2 j = fr s j \<and> fdata s2 j = fdata s j"
proof -
  note co = checked_out[OF inv i]
  obtain r d ts where r: "read_backing_page E i l s = (r, loaded i d ts s)" "inv C (loaded i d ts s)"
    "page_view contents (loaded i d ts s) = page_view contents s" "stored contents ts = stored contents (bm_tiers s)"
    "length ts = length (bm_tiers s)" "r = oOk () \<and> d = d0 \<or> (\<exists>e. r = oErr e)" using read_backing_page_ok[OF inv i d] .
  let ?s1 = "loaded i d ts s"
  have tb: "length (ft_data (bm_frames s)) = fcount s" using pool_inv_table[OF inv] by (simp add: table_inv_def)
  have s1: "bm_pages ?s1 = bm_pages s" "same_session s ?s1" "addr ?s1 = addr s" "bm_prefetched ?s1 = bm_prefetched s"
    "fdata ?s1 i = d" "\<And>j. j \<noteq> i \<Longrightarrow> fr ?s1 j = fr s j \<and> fdata ?s1 j = fdata s j"
    using tdata_put_data[OF tb co(1), of d] r(5) by (simp_all add: loaded_def same_session_def)
  from r(6) show ?thesis
  proof
    assume ok: "r = oOk () \<and> d = d0"
    have k: "loc_tier_index l < length (st_tiers (bm_stats ?s1))"
      using evicted_at_facts[OF inv ev] inv by (auto simp: loaded_def pool_inv_def)
    obtain st where st: "on_stats (record_tier_read (loc_tier_index l) (word_of_nat PAGE_SIZE)) ?s1 = (oOk (), ?s1\<lparr>bm_stats := st\<rparr>)"
      "length (st_tiers st) = length (st_tiers (bm_stats ?s1))" using on_stats_tier[OF k] unfolding record_tier_read_def by auto
    have 2: "inv C (?s1\<lparr>bm_stats := st\<rparr>) \<and> evolves contents ?s1 (?s1\<lparr>bm_stats := st\<rparr>)" by (rule idle_evolves[OF r(2)]) (simp_all add: st)
    then show ?thesis
      using filled[of ?s1 "?s1\<lparr>bm_stats := st\<rparr>"] ok r s1 st ev d
      by (simp add: evolves_def evicted_at_def same_session_def) (simp add: loaded_def)
  next
    assume "\<exists>e. r = oErr e"
    then show ?thesis using failed r s1 by blast
  qed
qed

lemma demand_fault_into_ok:
  assumes inv: "inv (insert i C) s3" and A: "i \<notin> C" "i < fcount s" "fr_pin_control (fr s i) = 0"
    and ev: "evolves contents s s3" and e3: "evicted_at s3 p h l"
  obtains r s' where "demand_fault_into E h p l i s3 = (r, s')" "fault_served C r p h s s'" "bm_pages s' = bm_pages s3"
proof -
  have ins: "insert i C - {i} = C" and iC: "i \<in> insert i C" using A(1) by auto
  obtain d0 where d0: "stored contents (bm_tiers s3) l = Some d0" using evicted_at_facts[OF inv e3] .
  show ?thesis
  proof (rule load_run[OF inv iC e3 d0])
    fix e s4
    assume F: "read_backing_page E i l s3 = (oErr e, s4)" "inv (insert i C) s4" "page_view contents s4 = page_view contents s3"
      "bm_pages s4 = bm_pages s3" "same_session s3 s4" "\<And>j. j \<noteq> i \<Longrightarrow> fr s4 j = fr s3 j \<and> fdata s4 j = fdata s3 j"
    note D = free_frame_drop_ok[OF F(2) iC]
    have "demand_fault_into E h p l i s3 = (oErr e, unpinned_drop i s4)"
      using F(1) D(1) by (simp add: demand_fault_into_def op_bind_def op_try_def op_seq_def op_fail_def)
    moreover have "serves contents s (unpinned_drop i s4)"
      using D F by (intro serves_beside[OF ev A(2,3)]) (simp_all add: same_session_def)
    ultimately show ?thesis using that D F ins by (simp add: fault_served_def)
  next
    fix s4 s5
    assume F: "read_backing_page E i l s3 = (oOk (), s4)"
      "on_stats (record_tier_read (loc_tier_index l) (word_of_nat PAGE_SIZE)) s4 = (oOk (), s5)"
      "inv (insert i C) s5" "evicted_at s5 p h l" "stored contents (bm_tiers s5) l = Some (fdata s5 i)"
      "page_view contents s5 = page_view contents s3" "bm_pages s5 = bm_pages s3" "same_session s3 s5" "addr s5 = addr s3"
      "bm_prefetched s5 = bm_prefetched s3" "\<And>j. j \<noteq> i \<Longrightarrow> fr s5 j = fr s3 j \<and> fdata s5 j = fdata s3 j"
    note co = checked_out[OF F(3) iC] and I = faulted_in_ok[OF F(3) iC F(4,5), of "bm_prefetched s5"]
    let ?s' = "faulted_in i p h s5"
    have v: "pid_is_valid p" using evicted_at_facts[OF F(3,4)] .
    have rs: "resident_of i (set_frame i f s5) = (oOk (addr s5 i), set_frame i f s5)" for f
      using resident_of_ok[of "set_frame i f s5" i] pool_inv_slice[OF F(3)] co(1) by simp
    have "demand_fault_into E h p l i s3 = (oOk (Some (loc_tier_index l)), ?s')"
      using F(1,2) publish_frame_ok[OF F(3) iC v] rs co(1)
        swizzle_ok[OF F(3) iC F(4), of "set_frame i ((installed p h (fr s5 i))\<lparr>fr_pin_control := 1\<rparr>) s5"]
      by (simp add: demand_fault_into_def op_bind_def op_try_def op_seq_def op_return_def on_meta_eq frame_unpin_ok) (simp add: faulted_in_def)
    moreover have I': "inv C ?s'" "page_view contents ?s' = page_view contents s3" "held ?s' i p h"
      using I F(6) ins by (simp_all add: faulted_in_def)
    moreover have "loc_tier_index l < length (bm_tiers ?s')" using evicted_at_facts[OF F(3,4)] by (simp add: faulted_in_def)
    moreover have "bm_pages ?s' = bm_pages s3" "same_session s3 ?s'" "i < fcount ?s'" "fr_pin_control (fr ?s' i) = 0"
      "\<And>j. j \<noteq> i \<Longrightarrow> fr ?s' j = fr s3 j \<and> fdata ?s' j = fdata s3 j"
      using F(7,8,11) co(1) by (simp_all add: faulted_in_def same_session_def)
    moreover from this I' have "serves contents s ?s'" by (intro serves_beside[OF ev A(2,3)]) simp_all
    ultimately show ?thesis using that by (auto simp: fault_served_def)
  qed
qed

lemma perform_demand_fault_ok:
  assumes inv: "inv C s" and pc: "map_option pc_swip (bm_pages s p) = Some h"
  obtains r s' where "perform_demand_fault E h p s = (r, s')" "fault_served C r p h s s'" "bm_pages s' = bm_pages s"
proof (cases "bm_stopping s")
  case True
  then have "perform_demand_fault E h p s = (oErr ShuttingDown, s)"
    by (simp add: perform_demand_fault_def fault_location_def step_simps ensure_running_def)
  then show ?thesis using that inv by (simp add: fault_served_def)
next
  case False
  show ?thesis
  proof (rule fault_location_ok[OF inv pc False])
    fix i assume f: "fault_location h p s = (oOk None, s)" "i < fcount s" "held s i p h"
    moreover from f(3) have "swst s h \<noteq> Some (Evicted p)" by (auto simp: held_def)
    ultimately show ?thesis using that[of "oOk None" s] inv by (auto simp: fault_served_def perform_demand_fault_def step_simps)
  next
    fix l
    let ?s1 = "s\<lparr>bm_directory := (bm_directory s)\<lparr>pd_lookups := pd_lookups (bm_directory s) + 1\<rparr>\<rparr>"
    assume loc: "fault_location h p s = (oOk (Some l), ?s1)" and ev: "evicted_at s p h l"
    define s2 where "s2 = (if bm_eviction_mode s = Demand then ?s1\<lparr>bm_fault_ins_this_epoch := bm_fault_ins_this_epoch s + 1\<rparr> else ?s1)"
    have 2: "inv C s2 \<and> evolves contents s s2" by (rule idle_evolves[OF inv]) (simp_all add: s2_def)
    obtain ra s3 where aq: "acquire_frame E s2 = (ra, s3)" "acquired C ra s2 s3" using acquire_frame_ok 2 by blast
    have fs: "bm_frames s2 = bm_frames s" by (simp add: s2_def)
    have start: "perform_demand_fault E h p s = op_bind (acquire_frame E) (demand_fault_into E h p l) s2"
      using loc by (simp add: perform_demand_fault_def op_seq_def op_bind_def op_get_def op_when_def op_modify_def op_return_def s2_def)
    have ev3: "evolves contents s s3" using aq(2) 2 evolves_trans by (auto simp: acquired_def)
    consider (got) i where "ra = oOk i" | (err) e where "ra = oErr e" using aq(2) by (cases ra) (auto simp: acquired_def)
    then show ?thesis
    proof cases
      case err
      then show ?thesis using that[of "oErr e" s3] start aq ev3 evolves_serves[OF ev3]
        by (simp add: op_bind_def acquired_def fault_served_def evolves_def)
    next
      case (got i)
      have "i < fcount s" "fr_pin_control (fr s i) = 0" "i \<notin> C" "inv (insert i C) s3"
        using acquired_fresh[of C s2 i s3] aq got 2 fs by simp_all
      then obtain r s' where "demand_fault_into E h p l i s3 = (r, s')" "fault_served C r p h s s'" "bm_pages s' = bm_pages s3"
        using demand_fault_into_ok[OF _ _ _ _ ev3 evicted_at_evolves[OF ev ev3]] by blast
      moreover from this have "perform_demand_fault E h p s = (r, s')" using start aq(1) got by (simp add: op_bind_def)
      ultimately show ?thesis using that ev3 by (simp add: evolves_def)
    qed
  qed
qed

text \<open>One passage of a caller that finds the coordinator of its page idle.\<close>

definition led :: "page_id \<Rightarrow> page_control \<Rightarrow> active_fault option \<Rightarrow> ('q, 't, 'p) manager \<Rightarrow> ('q, 't, 'p) manager" where
  "led p pc a s = s\<lparr>bm_pages := (bm_pages s)(p \<mapsto> pc\<lparr>pc_fault := (pc_fault pc)\<lparr>fs_next_generation := fs_next_generation (pc_fault pc) + 1, fs_active := a\<rparr>\<rparr>)\<rparr>"

lemma coordinated_eq:
  assumes run: "\<not> bm_stopping s" and pc: "bm_pages s p = Some pc" "pc_swip pc = h"
    and idle: "fs_active (pc_fault pc) = None" "fs_completed (pc_fault pc) = None"
    and perform: "perform (led p pc (Some \<lparr>af_generation = fs_next_generation (pc_fault pc), af_waiters = 0\<rparr>) s) = (r, s')"
      "bm_pages s' = bm_pages (led p pc (Some \<lparr>af_generation = fs_next_generation (pc_fault pc), af_waiters = 0\<rparr>) s)"
      "\<not> (\<exists>m. r = oPanic m)" "r \<noteq> oBlocks"
  shows "coordinated h p perform s = (r, s'\<lparr>bm_pages := bm_pages (led p pc None s)\<rparr>)"
proof -
  have "coordinated h p perform s = run_as_leader p (fs_next_generation (pc_fault pc)) perform
      (led p pc (Some \<lparr>af_generation = fs_next_generation (pc_fault pc), af_waiters = 0\<rparr>) s)"
    using run pc idle
    by (simp add: coordinated_def op_seq_def op_bind_def ensure_running_def op_get_def on_fault_def coord_enter_def led_def)
  also have "\<dots> = (r, s'\<lparr>bm_pages := bm_pages (led p pc None s)\<rparr>)"
    using perform idle
    by (cases r) (simp_all add: run_as_leader_def op_seq_def op_bind_def on_fault_def leader_finish_def coord_complete_def led_def
        op_return_def op_fail_def)
  finally show ?thesis .
qed

lemma led_ok:
  assumes "inv C s" "bm_pages s p = Some pc"
  shows "inv C (led p pc a s)" "page_view contents (led p pc a s) = page_view contents s" "same_session s (led p pc a s)"
    "map_option pc_swip (bm_pages (led p pc a s) q) = map_option pc_swip (bm_pages s q)" "bm_frames (led p pc a s) = bm_frames s"
    "bm_swips (led p pc a s) = bm_swips s" "bm_prefetched (led p pc a s) = bm_prefetched s"
proof -
  have "inv C (led p pc a s) \<and> page_view contents (led p pc a s) = page_view contents s"
    by (rule inv_fields[OF assms(1)]) (use assms in \<open>auto simp: led_def fun_eq_iff pool_inv_def\<close>)
  then show "inv C (led p pc a s)" "page_view contents (led p pc a s) = page_view contents s" by simp_all
qed (use assms in \<open>auto simp: led_def same_session_def\<close>)

lemma fault_ok:
  assumes inv: "inv C s" and idle: "faults_idle s" and pc: "map_option pc_swip (bm_pages s p) = Some h"
  obtains r s' where "fault E h p s = (r, s')" "fault_served C r p h s s'"
proof (cases "bm_stopping s")
  case True
  then have "fault E h p s = (oErr ShuttingDown, s)" by (simp add: fault_def coordinated_def op_seq_def op_bind_def ensure_running_def)
  then show ?thesis using that inv by (simp add: fault_served_def)
next
  case False
  obtain pc0 where pc0: "bm_pages s p = Some pc0" "pc_swip pc0 = h" using pc by auto
  let ?l = "led p pc0 (Some \<lparr>af_generation = fs_next_generation (pc_fault pc0), af_waiters = 0\<rparr>) s"
  note L = led_ok[OF inv pc0(1), of "Some \<lparr>af_generation = fs_next_generation (pc_fault pc0), af_waiters = 0\<rparr>"]
  obtain r s' where P: "perform_demand_fault E h p ?l = (r, s')" "fault_served C r p h ?l s'" "bm_pages s' = bm_pages ?l"
    using perform_demand_fault_ok[OF L(1), of p h] L(4)[of p] pc by auto
  let ?s = "s'\<lparr>bm_pages := bm_pages (led p pc0 None s)\<rparr>"
  have "fault E h p s = (r, ?s)" unfolding fault_def
    using False pc0 idle P by (intro coordinated_eq) (auto simp: faults_idle_def fault_served_def split: outcome.splits)
  moreover have I: "inv C s'" "serves contents ?l s'" using P(2) by (simp_all add: fault_served_def)
  have pg: "map_option pc_swip \<circ> bm_pages ?s = map_option pc_swip \<circ> bm_pages s'" using P(3) by (auto simp: led_def fun_eq_iff)
  have "inv C ?s \<and> page_view contents ?s = page_view contents s'"
    by (rule inv_fields[OF I(1)]) (use pg I(1) in \<open>simp_all add: pool_inv_def\<close>)
  moreover have "serves contents s ?s"
  proof -
    have "faults_idle ?s" using idle pc0 by (auto simp: faults_idle_def led_def)
    moreover have "map_option pc_swip \<circ> bm_pages ?s = map_option pc_swip \<circ> bm_pages s" using pc0 by (auto simp: led_def fun_eq_iff)
    ultimately show ?thesis using I(2) L \<open>inv C ?s \<and> page_view contents ?s = page_view contents s'\<close>
      by (simp add: serves_def same_session_def frames_kept_def)
  qed
  moreover have "held ?s = held s'" using fun_cong[OF pg] by (simp add: fun_eq_iff held_def)
  ultimately show ?thesis using that P(2) L(6) by (auto simp: fault_served_def split: outcome.splits)
qed

end

end
