(* ===== verification/Pool_Guards.thy ===== *)
theory Pool_Guards
  imports Pool_Access
begin

text \<open>
  Correctness of the fixes and of the guards they hand out (src/crates/tierbuf/src/pool.rs): a fix
  returns within two rounds of its loop, with a guard on the frame that holds the page, unless the
  frame's latch or its pin counter makes it wait.
\<close>

section \<open>Work on a pinned frame\<close>

definition heat_change :: "frame \<Rightarrow> frame \<Rightarrow> bool" where
  "heat_change f g \<longleftrightarrow> (\<exists>w. g = f\<lparr>fr_heat_epoch := w\<rparr>)"

lemma heat_change_refl [simp]: "heat_change f f"
  by (auto simp: heat_change_def intro: exI[of _ "fr_heat_epoch f"])

lemma heat_change_trans: "heat_change f g \<Longrightarrow> heat_change g k \<Longrightarrow> heat_change f k"
  by (auto simp: heat_change_def)

lemma heat_change_fields:
  assumes "heat_change f g"
  shows "fr_pin_control g = fr_pin_control f" "fr_latch g = fr_latch f" "fr_pid g = fr_pid f" "fr_owner_swip g = fr_owner_swip f"
    "fr_dirty g = fr_dirty f" "fr_generation g = fr_generation f" "pin_ok g = pin_ok f"
  using assms by (auto simp: heat_change_def pin_ok_def)

context buffer_pool
begin

text \<open>
  What follows once the frame \<open>i\<close> of page \<open>p\<close> is pinned and latched may change heat, policy,
  statistics, prefetch markers and the colour of the handle.
\<close>

definition tends :: "nat set \<Rightarrow> nat \<Rightarrow> page_id \<Rightarrow> handle \<Rightarrow> ('q, 't, 'p) manager \<Rightarrow> ('q, 't, 'p) manager \<Rightarrow> bool" where
  "tends C i p h s s' \<longleftrightarrow> inv C s' \<and> held s' i p h \<and> page_view contents s' = page_view contents s \<and> bm_pages s' = bm_pages s
     \<and> same_session s s' \<and> fdata s' = fdata s \<and> (\<forall>j. j \<noteq> i \<longrightarrow> fr s' j = fr s j) \<and> heat_change (fr s i) (fr s' i)"

lemma tends_refl: "inv C s \<Longrightarrow> held s i p h \<Longrightarrow> tends C i p h s s"
  by (simp add: tends_def)

lemma tends_trans: "tends C i p h s s' \<Longrightarrow> tends C i p h s' s'' \<Longrightarrow> tends C i p h s s''"
  unfolding tends_def same_session_def by (intro conjI) (auto intro: heat_change_trans)

lemma tends_fields:
  assumes "tends C i p h s s'" "i < fcount s"
  shows "inv C s'" "held s' i p h" "i < fcount s'" "addr s' = addr s" "length (bm_tiers s') = length (bm_tiers s)"
  using assms by (simp_all add: tends_def same_session_def)

text \<open>Steps that leave frames, handles, directory and tiers alone.\<close>

lemma tends_idle:
  assumes "inv C s" "held s i p h" "bm_frames s' = bm_frames s" "bm_swips s' = bm_swips s" "bm_directory s' = bm_directory s"
    "bm_tiers s' = bm_tiers s" "bm_pages s' = bm_pages s" "same_session s s'"
    "\<And>p. bm_prefetched s p = None \<Longrightarrow> bm_prefetched s' p = None" "length (st_tiers (bm_stats s')) = length (st_tiers (bm_stats s))"
  shows "tends C i p h s s'"
proof -
  have "inv C s' \<and> page_view contents s' = page_view contents s"
    by (rule inv_fields[OF assms(1)]) (use assms in \<open>simp_all add: pool_inv_def same_session_def\<close>)
  moreover have "held s' = held s" by (intro ext) (simp add: held_def assms(3-7))
  ultimately show ?thesis using assms by (simp add: tends_def)
qed

lemma tends_recolour:
  assumes "inv C s" "i < fcount s" "held s i p h" "st = Hot (addr s i) \<or> st = Cooling (addr s i)"
  shows "tends C i p h s (move_swip h st s)"
proof -
  have "addr_ok (addr s i)" using slice_addr_facts(2)[OF pool_inv_slice[OF assms(1)] assms(2)] .
  then have "cell_state (move_cell h st (bm_swips s)) h = Some st"
    using assms(3,4) cell_state_move[of st "bm_swips s" h h] by (auto simp: held_def)
  then have "held (move_swip h st s) i p h" using assms(3,4) by (auto simp: held_def)
  with inv_recolour[OF assms] show ?thesis by (simp add: tends_def same_session_def)
qed

lemma held_swip:
  assumes "inv C s" "i < fcount s" "held s i p h"
  obtains c st where "bm_swips s h = Some c" "swip_wf c" "swst s h = Some st" "st = Hot (addr s i) \<or> st = Cooling (addr s i)"
    "addr_ok (addr s i)"
  using held_valid(3)[OF assms(1,3)] assms(3) slice_addr_facts(2)[OF pool_inv_slice[OF assms(1)] assms(2)]
  by (auto simp: held_def)

lemma second_chance_ok:
  assumes inv: "inv C s" and i: "i < fcount s" "held s i p h"
  obtains s' where "second_chance h (addr s i) s = (oOk (), s')" "tends C i p h s s'"
proof -
  obtain c st where c: "bm_swips s h = Some c" "swip_wf c" "swst s h = Some st" "st = Hot (addr s i) \<or> st = Cooling (addr s i)"
    "addr_ok (addr s i)" using held_swip[OF assms] .
  show ?thesis
  proof (cases "st = Cooling (addr s i)")
    case False
    then have "second_chance h (addr s i) s = (oOk (), s)" using c by (simp add: second_chance_def step_simps cas_resurrect)
    then show ?thesis using that tends_refl[OF inv i(2)] by blast
  next
    case True
    let ?s1 = "move_swip h (Hot (addr s i)) s" and ?s2 = "(move_swip h (Hot (addr s i)) s)\<lparr>bm_stats := record_second_chance (bm_stats s)\<rparr>"
    have 1: "tends C i p h s ?s1" using tends_recolour[OF assms] by simp
    have "tends C i p h ?s1 ?s2" by (rule tends_idle) (use 1 in \<open>simp_all add: tends_def same_session_def\<close>)
    moreover have "second_chance h (addr s i) s = (oOk (), ?s2)"
      using c True by (simp add: second_chance_def step_simps cas_resurrect bump_eq)
    ultimately show ?thesis using that tends_trans[OF 1] by blast
  qed
qed

lemma on_access_ok:
  assumes inv: "inv C s" and i: "i < fcount s" "held s i p h"
  obtains s' where "on_access E i kind s = (oOk (), s')" "tends C i p h s s'"
proof -
  obtain p' f' where a: "po_on_access (en_policy E) (bm_policy s) (fr s i) kind = (p', f')" by fastforce
  obtain w where w: "f' = (fr s i)\<lparr>fr_heat_epoch := w\<rparr>" using policy.heat_only[of "bm_policy s" "fr s i" kind] a by auto
  let ?s1 = "set_frame i f' s"
  note occ = held_occupied[OF inv i]
  have "inv C ?s1 \<and> page_view contents ?s1 = page_view contents s"
    by (rule inv_set_frame[OF inv i(1) occ(1,2)]) (use w occ(4) in \<open>simp_all add: pin_ok_def\<close>)
  moreover have "held ?s1 i p h" using i w by (simp add: held_def)
  ultimately have 1: "tends C i p h s ?s1" using i(1) w by (auto simp: tends_def same_session_def heat_change_def)
  have "tends C i p h ?s1 (?s1\<lparr>bm_policy := p'\<rparr>)" by (rule tends_idle) (use 1 in \<open>simp_all add: tends_def same_session_def\<close>)
  moreover have "on_access E i kind s = (oOk (), ?s1\<lparr>bm_policy := p'\<rparr>)"
    using a i(1) by (simp add: on_access_def step_simps op_get_def on_meta_eq)
  ultimately show ?thesis using that tends_trans[OF 1] by blast
qed

lemma count_prefetch_hit_ok:
  assumes inv: "inv C s" and i: "i < fcount s" "held s i p h"
  obtains s' where "count_prefetch_hit p a i s = (oOk (), s')" "tends C i p h s s'"
proof -
  let ?s1 = "s\<lparr>bm_prefetched := (bm_prefetched s)(p := None)\<rparr>"
  have "tends C i p h s ?s1" by (rule tends_idle[OF inv i(2)]) (simp_all add: same_session_def)
  moreover have "tends C i p h s (?s1\<lparr>bm_stats := record_prefetch_hit (bm_stats s)\<rparr>)"
    by (rule tends_idle[OF inv i(2)]) (simp_all add: same_session_def)
  ultimately show ?thesis using that i(1)
    by (cases "bm_prefetched s p = Some \<lparr>pm_resident = a, pm_generation = fr_generation (fr s i)\<rparr>")
      (auto simp: count_prefetch_hit_def step_simps consume_prefetched_def bump_eq)
qed

lemma record_fix_ok:
  assumes inv: "inv C s" and i: "i < fcount s" "held s i p h" and k: "\<And>k. tier = Some k \<Longrightarrow> k < length (bm_tiers s)"
  obtains s' where "record_fix faulted tier s = (oOk (), s')" "tends C i p h s s'"
proof -
  have len: "length (st_tiers (bm_stats s)) = length (bm_tiers s)" using inv by (simp add: pool_inv_def)
  have "\<exists>st. record_fix faulted tier s = (oOk (), s\<lparr>bm_stats := st\<rparr>) \<and> length (st_tiers st) = length (bm_tiers s)"
  proof (cases "faulted \<and> tier \<noteq> None")
    case True
    then obtain k0 where k0: "tier = Some k0" by auto
    with k[of k0] len have "k0 < length (st_tiers (bm_stats s))" by simp
    then obtain st where "on_stats (record_tier_demand_hit k0) s = (oOk (), s\<lparr>bm_stats := st\<rparr>)" "length (st_tiers st) = length (st_tiers (bm_stats s))"
      unfolding record_tier_demand_hit_def by (rule on_stats_tier)
    with True k0 len show ?thesis by (auto simp: record_fix_def)
  next
    case False
    then show ?thesis using len by (intro exI[of _ "record_dram_hit (bm_stats s)"]) (auto simp: record_fix_def bump_eq split: option.splits)
  qed
  then obtain st where st: "record_fix faulted tier s = (oOk (), s\<lparr>bm_stats := st\<rparr>)" "length (st_tiers st) = length (bm_tiers s)" by blast
  have "tends C i p h s (s\<lparr>bm_stats := st\<rparr>)" by (rule tends_idle[OF inv i(2)]) (simp_all add: same_session_def st len)
  with st show ?thesis using that by blast
qed

text \<open>A page that the policy does not admit is cooled at once.\<close>

lemma cool_again_ok:
  assumes inv: "inv C s" and i: "i < fcount s" "held s i p h"
  obtains s' where "op_bind (cas_swip h (\<lambda>c. try_mark_cooling c (addr s i))) (\<lambda>marked. op_when marked (enqueue_ticket i p (addr s i))) s = (oOk (), s')"
    "tends C i p h s s'"
proof -
  obtain c st where c: "bm_swips s h = Some c" "swip_wf c" "swst s h = Some st" "st = Hot (addr s i) \<or> st = Cooling (addr s i)"
    "addr_ok (addr s i)" using held_swip[OF assms] .
  let ?s1 = "move_swip h (Cooling (addr s i)) s"
  have 1: "tends C i p h s ?s1" using tends_recolour[OF assms] by simp
  then obtain x where x: "enqueue_ticket i p (addr s i) ?s1 = (oOk (), ?s1\<lparr>bm_cooling := x\<rparr>)"
    using enqueue_ticket_eq[of ?s1 i p "addr s i"] pool_inv_meta[of elems cap contents tok C ?s1] i(1) by (auto simp: tends_def)
  have "tends C i p h ?s1 (?s1\<lparr>bm_cooling := x\<rparr>)" by (rule tends_idle) (use 1 in \<open>simp_all add: tends_def same_session_def\<close>)
  from tends_trans[OF 1 this] show ?thesis
    using that c x tends_refl[OF inv i(2)] by (cases "st = Hot (addr s i)") (auto simp: step_simps cas_mark_cooling)
qed

text \<open>An operation that tends the frame may be skipped.\<close>

lemma tends_when:
  assumes "inv C s" "held s i p h" "b \<Longrightarrow> \<exists>s'. m s = (oOk (), s') \<and> tends C i p h s s'"
  obtains s' where "op_when b m s = (oOk (), s')" "tends C i p h s s'"
  using assms tends_refl[OF assms(1,2)] by (cases b) (auto simp: op_when_def op_return_def)

lemma common_fixed_ok:
  assumes inv: "inv C s" and i: "i < fcount s" "held s i p h" and k: "\<And>k. tier = Some k \<Longrightarrow> k < length (bm_tiers s)"
  obtains s' where "\<And>rest. op_seq (second_chance h (addr s i)) (op_seq (on_access E i kind)
      (op_seq (op_when b (count_prefetch_hit p (addr s i) i)) (op_seq (record_fix faulted tier) rest))) s = rest s'" "tends C i p h s s'"
proof -
  obtain s1 where 1: "second_chance h (addr s i) s = (oOk (), s1)" "tends C i p h s s1" using second_chance_ok[OF inv i] .
  note f1 = tends_fields[OF 1(2) i(1)]
  obtain s2 where 2: "on_access E i kind s1 = (oOk (), s2)" "tends C i p h s1 s2" using on_access_ok[OF f1(1,3,2)] .
  note f2 = tends_fields[OF 2(2) f1(3)]
  obtain s3 where 3: "op_when b (count_prefetch_hit p (addr s i) i) s2 = (oOk (), s3)" "tends C i p h s2 s3"
    using tends_when[OF f2(1,2)] count_prefetch_hit_ok[OF f2(1,3,2)] by metis
  note f3 = tends_fields[OF 3(2) f2(3)]
  have "k < length (bm_tiers s3)" if "tier = Some k" for k using k[OF that] f1 f2 f3 by simp
  then obtain s4 where 4: "record_fix faulted tier s3 = (oOk (), s4)" "tends C i p h s3 s4" using record_fix_ok[OF f3(1,3,2)] by blast
  have "tends C i p h s s4" using 1(2) 2(2) 3(2) 4(2) tends_trans by blast
  then show ?thesis using that[of s4] 1(1) 2(1) 3(1) 4(1) by (simp add: op_seq_def op_bind_def)
qed

lemma shared_fixed_ok:
  assumes inv: "inv C s" and i: "i < fcount s" "held s i p h" and k: "\<And>k. tier = Some k \<Longrightarrow> k < length (bm_tiers s)"
  obtains s' where "shared_fixed E h hint p faulted tier (addr s i) i s
      = (oOk \<lparr>sg_index = i, sg_pid = p, sg_swip = h, sg_source = (if tier \<noteq> None then LowerTier else Dram)\<rparr>, s')" "tends C i p h s s'"
proof -
  obtain s1 where 1: "\<And>rest :: (('q, 't, 'p) manager, shared_guard) operation. op_seq (second_chance h (addr s i)) (op_seq (on_access E i ReadAccess)
      (op_seq (op_when (\<not> faulted \<and> (hint = NormalHint \<or> hint = ScanHint)) (count_prefetch_hit p (addr s i) i))
      (op_seq (record_fix faulted tier) rest))) s = rest s1" "tends C i p h s s1"
    using common_fixed_ok[where kind = ReadAccess and tier = tier and faulted = faulted, OF inv i k] by blast
  note f1 = tends_fields[OF 1(2) i(1)]
  let ?cool = "op_bind (cas_swip h (\<lambda>c. try_mark_cooling c (addr s i))) (\<lambda>marked. op_when marked (enqueue_ticket i p (addr s i)))"
  obtain s2 where 2: "?cool s1 = (oOk (), s2)" "tends C i p h s1 s2" using cool_again_ok[OF f1(1,3,2)] f1(4) by auto
  have "\<exists>s3. op_when faulted (op_bind (op_get bm_policy) (\<lambda>pol. if po_admit_to_dram (en_policy E) pol p hint then op_return () else ?cool)) s1
     = (oOk (), s3) \<and> tends C i p h s1 s3"
    using 2 tends_refl[OF f1(1,2)] by (cases faulted; cases "po_admit_to_dram (en_policy E) (bm_policy s1) p hint")
      (auto simp: op_when_def op_return_def)
  then obtain s3 where 3: "op_when faulted (op_bind (op_get bm_policy) (\<lambda>pol. if po_admit_to_dram (en_policy E) pol p hint then op_return () else ?cool)) s1
     = (oOk (), s3)" "tends C i p h s1 s3" by blast
  have "shared_fixed E h hint p faulted tier (addr s i) i s
      = (oOk \<lparr>sg_index = i, sg_pid = p, sg_swip = h, sg_source = (if tier \<noteq> None then LowerTier else Dram)\<rparr>, s3)"
    unfolding shared_fixed_def 1(1) using 3(1) by (simp only: op_seq_def op_bind_simps(1)) (simp add: op_return_def)
  then show ?thesis using that tends_trans[OF 1(2) 3(2)] by blast
qed

lemma exclusive_fixed_ok:
  assumes inv: "inv C s" and i: "i < fcount s" "held s i p h" and k: "\<And>k. tier = Some k \<Longrightarrow> k < length (bm_tiers s)"
  obtains s' where "exclusive_fixed E h p faulted tier (addr s i) i s = (oOk \<lparr>eg_index = i, eg_pid = p, eg_swip = h\<rparr>, s')" "tends C i p h s s'"
proof -
  obtain s1 where 1: "\<And>rest :: (('q, 't, 'p) manager, exclusive_guard) operation. op_seq (second_chance h (addr s i)) (op_seq (on_access E i WriteAccess)
      (op_seq (op_when (\<not> faulted) (count_prefetch_hit p (addr s i) i)) (op_seq (record_fix faulted tier) rest))) s = rest s1" "tends C i p h s s1"
    using common_fixed_ok[where kind = WriteAccess and tier = tier and faulted = faulted, OF inv i k] by blast
  then show ?thesis using that unfolding exclusive_fixed_def by (simp add: op_return_def)
qed

section \<open>The fix loops\<close>

lemmas fix_loop_rounds = fix_shared_loop.simps fix_exclusive_loop.simps

declare fix_loop_rounds [simp del]

lemma lock_shared_ok:
  "latch_state (fr_latch f) < MAX_SHARED \<Longrightarrow> frame_lock_shared f = (oOk (), f\<lparr>fr_latch := fr_latch f + 1\<rparr>)"
  "\<not> latch_state (fr_latch f) < MAX_SHARED \<Longrightarrow> frame_lock_shared f = (oBlocks, f)"
  by (simp_all add: frame_lock_shared_def lock_shared_def try_lock_shared_once_quiet)

lemma lock_exclusive_busy: "latch_state (fr_latch f) \<noteq> 0 \<Longrightarrow> frame_lock_exclusive f = (oBlocks, f)"
  by (simp add: frame_lock_exclusive_def lock_exclusive_def try_lock_exclusive_once_quiet)

definition shared_pinned :: "frame \<Rightarrow> frame" where
  "shared_pinned f = f\<lparr>fr_pin_control := fr_pin_control f + 1, fr_latch := fr_latch f + 1\<rparr>"

definition exclusive_pinned :: "frame \<Rightarrow> frame" where
  "exclusive_pinned f = f\<lparr>fr_pin_control := fr_pin_control f + 1, fr_latch := with_state (fr_latch f) EXCLUSIVE_STATE\<rparr>"

definition shared_free :: "frame \<Rightarrow> bool" where
  "shared_free f \<longleftrightarrow> unat (fr_pin_control f) < 2 ^ 31 - 1 \<and> latch_state (fr_latch f) < MAX_SHARED"

definition exclusive_free :: "frame \<Rightarrow> bool" where
  "exclusive_free f \<longleftrightarrow> unat (fr_pin_control f) < 2 ^ 31 - 1 \<and> latch_state (fr_latch f) = 0"

lemma pinned_nonzero: "unat w < 2 ^ 31 - 1 \<Longrightarrow> unat (w + 1) < 2 ^ 31 \<and> w + 1 \<noteq> 0" for w :: u32
  using unat_pin_inc[of w] by (metis One_nat_def Suc_eq_plus1 less_diff_conv nat.simps(3) unsigned_0)

lemma pinned_ok: "shared_free f \<Longrightarrow> pin_ok (shared_pinned f)" "exclusive_free f \<Longrightarrow> pin_ok (exclusive_pinned f)"
  using pinned_nonzero[of "fr_pin_control f"] by (auto simp: shared_free_def exclusive_free_def shared_pinned_def exclusive_pinned_def pin_ok_def)

lemma try_pin_ok: "unat (fr_pin_control f) < 2 ^ 31 - 1 \<Longrightarrow> frame_try_pin f = (True, f\<lparr>fr_pin_control := fr_pin_control f + 1\<rparr>)"
  using pin_update_Some[of "fr_pin_control f" "fr_pin_control f + 1"] by (simp add: frame_try_pin_eq)

lemma resident_is_exact_held:
  assumes "inv C s" "i < fcount s" "held s i p h" "a = addr s i"
  shows "resident_is_exact h p a i s = (oOk True, s)"
proof -
  obtain st where "swst s h = Some st" "st = Hot a \<or> st = Cooling a" using held_swip[OF assms(1-3)] assms(4) by auto
  then show ?thesis using assms(2,3) load_swip_ok[of s h st] frame_pid_of_ok[OF pool_inv_meta[OF assms(1)] assms(2)]
    by (auto simp: resident_is_exact_def op_bind_def op_return_def op_get_def on_meta_get[unfolded op_get_def] held_def)
qed

lemma set_frame_pinned:
  assumes "inv C s" "i < fcount s" "held s i p h" "pin_ok f" "fr_pid f = fr_pid (fr s i)" "fr_owner_swip f = fr_owner_swip (fr s i)"
    "fr_dirty f = fr_dirty (fr s i)"
  shows "inv C (set_frame i f s)" "page_view contents (set_frame i f s) = page_view contents s" "held (set_frame i f s) i p h"
  using inv_set_frame[OF assms(1,2) held_occupied(1,2)[OF assms(1-3)] assms(5-7,4)] assms by (simp_all add: held_def)

lemma try_pin_full: "\<not> unat (fr_pin_control f) < 2 ^ 31 - 1 \<Longrightarrow> frame_try_pin f = (False, f)"
  by (cases "pin_update (fr_pin_control f)") (simp_all add: frame_try_pin_eq pin_update_Some)

text \<open>The start of a round on a resident page: the loop reaches the pin of the frame that holds the page.\<close>

lemma fix_shared_loop_resident:
  assumes inv: "inv C s" and run: "\<not> bm_stopping s" and i: "i < fcount s" "held s i p h"
  shows "fix_shared_loop E h hint p (Suc n) faulted tier s =
     op_bind (on_meta_bool i frame_try_pin) (\<lambda>pinned. if \<not> pinned then op_blocks
       else op_seq (on_meta i frame_lock_shared)
         (op_bind (resident_is_exact h p (addr s i) i) (\<lambda>exact.
          if exact then shared_fixed E h hint p faulted tier (addr s i) i
          else op_seq (on_meta i frame_drop_shared) (op_seq (on_meta i frame_unpin) (fix_shared_loop E h hint p n faulted tier))))) s"
proof -
  have idx: "index_of_resident (bm_frames s) (addr s i) = Some i" using slice_addr_facts(3)[OF pool_inv_slice[OF inv] i(1)] .
  obtain st where "swst s h = Some st" "st = Hot (addr s i) \<or> st = Cooling (addr s i)" using held_swip[OF inv i] by blast
  then show ?thesis using run idx load_swip_ok[of s h st]
    by (auto simp: fix_loop_rounds op_seq_def op_bind_simps(1) ensure_running_def Let_def)
qed

lemma fix_exclusive_loop_resident:
  assumes inv: "inv C s" and run: "\<not> bm_stopping s" and i: "i < fcount s" "held s i p h"
  shows "fix_exclusive_loop E h p (Suc n) faulted tier s =
     op_bind (on_meta_bool i frame_try_pin) (\<lambda>pinned. if \<not> pinned then op_blocks
       else op_seq (on_meta i frame_lock_exclusive)
         (op_bind (resident_is_exact h p (addr s i) i) (\<lambda>exact.
          if exact then exclusive_fixed E h p faulted tier (addr s i) i
          else op_seq (on_meta i frame_drop_exclusive) (op_seq (on_meta i frame_unpin) (fix_exclusive_loop E h p n faulted tier))))) s"
proof -
  have idx: "index_of_resident (bm_frames s) (addr s i) = Some i" using slice_addr_facts(3)[OF pool_inv_slice[OF inv] i(1)] .
  obtain st where "swst s h = Some st" "st = Hot (addr s i) \<or> st = Cooling (addr s i)" using held_swip[OF inv i] by blast
  then show ?thesis using run idx load_swip_ok[of s h st]
    by (auto simp: fix_loop_rounds op_seq_def op_bind_simps(1) ensure_running_def Let_def)
qed

lemma fix_shared_resident:
  assumes inv: "inv C s" and run: "\<not> bm_stopping s" and i: "i < fcount s" "held s i p h" and free: "shared_free (fr s i)"
    and k: "\<And>k. tier = Some k \<Longrightarrow> k < length (bm_tiers s)"
  obtains s' where "fix_shared_loop E h hint p (Suc n) faulted tier s
      = (oOk \<lparr>sg_index = i, sg_pid = p, sg_swip = h, sg_source = (if tier \<noteq> None then LowerTier else Dram)\<rparr>, s')"
    "tends C i p h (set_frame i (shared_pinned (fr s i)) s) s'"
proof -
  let ?f = "shared_pinned (fr s i)" and ?s1 = "set_frame i (shared_pinned (fr s i)) s"
  have S: "inv C ?s1" "held ?s1 i p h" by (rule set_frame_pinned[OF inv i pinned_ok(1)[OF free]]; simp add: shared_pinned_def)+
  obtain s' where s': "shared_fixed E h hint p faulted tier (addr s i) i ?s1
      = (oOk \<lparr>sg_index = i, sg_pid = p, sg_swip = h, sg_source = (if tier \<noteq> None then LowerTier else Dram)\<rparr>, s')" "tends C i p h ?s1 s'"
    using shared_fixed_ok[OF S(1) _ S(2), where tier = tier and hint = hint and faulted = faulted] k i(1) by auto
  have "resident_is_exact h p (addr s i) i ?s1 = (oOk True, ?s1)" using resident_is_exact_held[OF S(1) _ S(2)] i(1) by simp
  then have "fix_shared_loop E h hint p (Suc n) faulted tier s = shared_fixed E h hint p faulted tier (addr s i) i ?s1"
    unfolding fix_shared_loop_resident[OF inv run i] using i(1) free
    by (simp add: op_seq_def op_bind_def on_meta_bool_eq try_pin_ok shared_free_def on_meta_eq lock_shared_ok(1)) (simp add: shared_pinned_def)
  then show ?thesis using that s' by simp
qed

lemma fix_exclusive_resident:
  assumes inv: "inv C s" and run: "\<not> bm_stopping s" and i: "i < fcount s" "held s i p h" and free: "exclusive_free (fr s i)"
    and k: "\<And>k. tier = Some k \<Longrightarrow> k < length (bm_tiers s)"
  obtains s' where "fix_exclusive_loop E h p (Suc n) faulted tier s = (oOk \<lparr>eg_index = i, eg_pid = p, eg_swip = h\<rparr>, s')"
    "tends C i p h (set_frame i (exclusive_pinned (fr s i)) s) s'"
proof -
  let ?f = "exclusive_pinned (fr s i)" and ?s1 = "set_frame i (exclusive_pinned (fr s i)) s"
  have S: "inv C ?s1" "held ?s1 i p h" by (rule set_frame_pinned[OF inv i pinned_ok(2)[OF free]]; simp add: exclusive_pinned_def)+
  obtain s' where s': "exclusive_fixed E h p faulted tier (addr s i) i ?s1 = (oOk \<lparr>eg_index = i, eg_pid = p, eg_swip = h\<rparr>, s')" "tends C i p h ?s1 s'"
    using exclusive_fixed_ok[OF S(1) _ S(2), where tier = tier and faulted = faulted] k i(1) by auto
  have "resident_is_exact h p (addr s i) i ?s1 = (oOk True, ?s1)" using resident_is_exact_held[OF S(1) _ S(2)] i(1) by simp
  then have "fix_exclusive_loop E h p (Suc n) faulted tier s = exclusive_fixed E h p faulted tier (addr s i) i ?s1"
    unfolding fix_exclusive_loop_resident[OF inv run i] using i(1) free
    by (simp add: op_seq_def op_bind_def on_meta_bool_eq try_pin_ok exclusive_free_def on_meta_eq) (simp add: exclusive_pinned_def)
  then show ?thesis using that s' by simp
qed

text \<open>Otherwise the fix waits.\<close>

lemma fix_shared_busy:
  assumes "inv C s" "\<not> bm_stopping s" "i < fcount s" "held s i p h" "\<not> shared_free (fr s i)"
  shows "fst (fix_shared_loop E h hint p (Suc n) faulted tier s) = oBlocks"
  unfolding fix_shared_loop_resident[OF assms(1-4)] using assms(3,5)
  by (cases "unat (fr_pin_control (fr s i)) < 2 ^ 31 - 1")
    (simp_all add: shared_free_def op_seq_def op_bind_def on_meta_bool_eq try_pin_ok try_pin_full on_meta_eq lock_shared_ok(2) op_blocks_def)

lemma fix_exclusive_busy:
  assumes "inv C s" "\<not> bm_stopping s" "i < fcount s" "held s i p h" "\<not> exclusive_free (fr s i)"
  shows "fst (fix_exclusive_loop E h p (Suc n) faulted tier s) = oBlocks"
  unfolding fix_exclusive_loop_resident[OF assms(1-4)] using assms(3,5)
  by (cases "unat (fr_pin_control (fr s i)) < 2 ^ 31 - 1")
    (simp_all add: exclusive_free_def op_seq_def op_bind_def on_meta_bool_eq try_pin_ok try_pin_full on_meta_eq lock_exclusive_busy op_blocks_def)

section \<open>The fixes\<close>

definition frame_kept :: "('q, 't, 'p) manager \<Rightarrow> ('q, 't, 'p) manager \<Rightarrow> nat \<Rightarrow> bool" where
  "frame_kept s s' i \<longleftrightarrow> (if fr_pin_control (fr s i) = 0
     then fr_pin_control (fr s' i) = 0 \<or> fr_pin_control (fr s' i) = EVICTING
     else fr s' i = fr s i \<and> fdata s' i = fdata s i)"

text \<open>A guard on frame \<open>i\<close> for page \<open>p\<close>; the other frames that were pinned are as they were.\<close>

definition granted :: "nat set \<Rightarrow> nat \<Rightarrow> page_id \<Rightarrow> handle \<Rightarrow> ('q, 't, 'p) manager \<Rightarrow> ('q, 't, 'p) manager \<Rightarrow> bool" where
  "granted C i p h s s' \<longleftrightarrow> inv C s' \<and> i < fcount s \<and> held s' i p h \<and> page_view contents s' = page_view contents s
     \<and> map_option pc_swip \<circ> bm_pages s' = map_option pc_swip \<circ> bm_pages s \<and> (faults_idle s \<longrightarrow> faults_idle s') \<and> same_session s s'
     \<and> (\<forall>j < fcount s. j \<noteq> i \<longrightarrow> frame_kept s s' j)
     \<and> unat (fr_pin_control (fr s i)) < 2 ^ 31 - 1 \<and> fr_pin_control (fr s' i) = fr_pin_control (fr s i) + 1
     \<and> (fr_pin_control (fr s i) \<noteq> 0 \<longrightarrow> fr_pid (fr s' i) = fr_pid (fr s i) \<and> fr_owner_swip (fr s' i) = fr_owner_swip (fr s i))"

lemma frames_kept_at: "frames_kept s s' \<Longrightarrow> i < fcount s \<Longrightarrow> frame_kept s s' i"
  by (simp add: frames_kept_def frame_kept_def)

text \<open>From the state \<open>s1\<close> in which the page is resident: the frame had the same pin and latch before.\<close>

lemma granted_after:
  assumes sv: "serves contents s s1" and t: "tends C i p h (set_frame i f s1) s'" and i: "i < fcount s1"
    and v: "page_view contents (set_frame i f s1) = page_view contents s1"
    and pin: "fr_pin_control (fr s1 i) = fr_pin_control (fr s i)" "unat (fr_pin_control (fr s i)) < 2 ^ 31 - 1"
      "fr_pin_control f = fr_pin_control (fr s1 i) + 1"
    and occ: "fr_pid f = fr_pid (fr s1 i)" "fr_owner_swip f = fr_owner_swip (fr s1 i)"
  shows "granted C i p h s s'" "fr_latch (fr s' i) = fr_latch f"
proof -
  have h: "heat_change f (fr s' i)" using t i by (simp add: tends_def)
  then show "fr_latch (fr s' i) = fr_latch f" by (simp add: heat_change_fields)
  have ses: "same_session s1 s'" "bm_pages s' = bm_pages s1" using t by (simp_all add: tends_def same_session_def)
  have "frame_kept s s' j" if "j < fcount s" "j \<noteq> i" for j
  proof -
    have "fr s' j = fr s1 j" "fdata s' j = fdata s1 j" using t that(2) by (simp_all add: tends_def)
    then show ?thesis using frames_kept_at[of s s1 j] sv that(1) by (simp add: serves_def frame_kept_def)
  qed
  moreover have "faults_idle s' \<longleftrightarrow> faults_idle s1" using ses(2) by (simp add: faults_idle_def)
  moreover have "fr_pid (fr s' i) = fr_pid (fr s i) \<and> fr_owner_swip (fr s' i) = fr_owner_swip (fr s i)" if "fr_pin_control (fr s i) \<noteq> 0"
    using frames_kept_at[of s s1 i] sv i that occ h by (simp add: serves_def same_session_def frame_kept_def heat_change_fields)
  ultimately show "granted C i p h s s'"
    using sv t v pin i ses h by (simp add: granted_def serves_def tends_def same_session_def heat_change_fields)
qed

lemma unpinned_unlatched:
  assumes "inv C s" "i < fcount s" "i \<notin> C" "fr_pin_control (fr s i) = 0"
  shows "latch_state (fr_latch (fr s i)) = 0"
  using pool_inv_frame[OF assms(1,2)] assms(3,4) by (auto simp: frame_inv_def blank_def pin_ok_def split: if_splits)

text \<open>The frame a page was faulted into was not pinned before the fault.\<close>

lemma fault_frame:
  assumes inv: "inv C s" and sv: "inv C s1" "serves contents s s1" and i: "i < fcount s1" "held s1 i p h" "fr_pin_control (fr s1 i) = 0"
  shows "fr_pin_control (fr s i) = 0" "latch_state (fr_latch (fr s i)) = 0" "latch_state (fr_latch (fr s1 i)) = 0"
    "shared_free (fr s1 i)" "exclusive_free (fr s1 i)"
proof -
  have c: "i \<notin> C" using held_occupied[OF sv(1) i(1,2)] by simp
  have "i < fcount s" using sv(2) i(1) by (simp add: serves_def same_session_def)
  moreover show 0: "fr_pin_control (fr s i) = 0"
    using frames_kept_at[of s s1 i] sv(2) i \<open>i < fcount s\<close> by (auto simp: frame_kept_def serves_def split: if_splits)
  ultimately show "latch_state (fr_latch (fr s i)) = 0" using unpinned_unlatched[OF inv _ c] by simp
  show 1: "latch_state (fr_latch (fr s1 i)) = 0" using unpinned_unlatched[OF sv(1) i(1) c i(3)] .
  show "shared_free (fr s1 i)" "exclusive_free (fr s1 i)" using 1 i(3) by (simp_all add: shared_free_def exclusive_free_def)
qed

lemma validate_handle_ok:
  assumes "inv C s" "bm_swips s h = Some c"
  obtains "validate_handle h s = (oOk (sw_pid c), s)" "map_option pc_swip (bm_pages s (sw_pid c)) = Some h"
  | e where "validate_handle h s = (oErr e, s)" "sw_owner_id c \<noteq> bm_id s"
proof (cases "sw_owner_id c = bm_id s")
  case True
  then show ?thesis using that(1) assms pool_inv_cell[OF assms] by (auto simp: validate_handle_def belongs_to_def cell_inv_def pool_inv_def)
next
  case False
  then show ?thesis using that(2) assms(2)
    by (cases "bm_pages s (sw_pid c)") (simp_all add: validate_handle_def belongs_to_def)
qed

text \<open>A page that is not resident: the loop faults it in and goes round once more.\<close>

lemma fault_round:
  assumes inv: "inv C s" and idle: "faults_idle s" and pg: "map_option pc_swip (bm_pages s p) = Some h" and ev: "swst s h = Some (Evicted p)"
  obtains (failed) e s1 where "op_seq (bump record_fault) (fault E h p) s = (oErr e, s1)" "inv C s1" "serves contents s s1"
  | (resident) tier i s1 where "op_seq (bump record_fault) (fault E h p) s = (oOk tier, s1)" "inv C s1" "serves contents s s1" "i < fcount s1" "held s1 i p h"
      "fr_pin_control (fr s1 i) = 0" "\<And>k. tier = Some k \<Longrightarrow> k < length (bm_tiers s1)"
proof -
  let ?s0 = "s\<lparr>bm_stats := record_fault (bm_stats s)\<rparr>"
  have 0: "inv C ?s0 \<and> evolves contents s ?s0" by (rule idle_evolves[OF inv]) simp_all
  then obtain r s1 where F: "fault E h p ?s0 = (r, s1)" "fault_served C r p h ?s0 s1"
    using fault_ok[of C ?s0 p h] idle pg by (auto simp: faults_idle_def)
  have "serves contents s ?s0" using 0 evolves_serves by blast
  then have sv: "inv C s1" "serves contents s s1" using F(2) serves_trans[of contents s ?s0 s1] by (simp_all add: fault_served_def)
  have run: "op_seq (bump record_fault) (fault E h p) s = (r, s1)" using F(1) by (simp add: op_seq_def op_bind_def bump_eq)
  from F(2) ev consider e where "r = oErr e"
    | tier i where "r = oOk tier" "i < fcount s1" "held s1 i p h" "fr_pin_control (fr s1 i) = 0" "\<forall>k. tier = Some k \<longrightarrow> k < length (bm_tiers s1)"
    by (auto simp: fault_served_def split: outcome.splits)
  then show ?thesis using failed resident run sv by cases auto
qed

lemma fix_shared_loop_evicted:
  assumes "\<not> bm_stopping s" "swst s h = Some (Evicted p)"
  shows "fix_shared_loop E h hint p (Suc n) False None s =
    op_bind (op_seq (bump record_fault) (fault E h p)) (\<lambda>tier. fix_shared_loop E h hint p n True tier) s"
  using assms by (simp add: fix_loop_rounds op_seq_def op_bind_simps(1) ensure_running_def load_swip_ok op_when_def op_bind_assoc)

lemma fix_exclusive_loop_evicted:
  assumes "\<not> bm_stopping s" "swst s h = Some (Evicted p)"
  shows "fix_exclusive_loop E h p (Suc n) False None s =
    op_bind (op_seq (bump record_fault) (fault E h p)) (\<lambda>tier. fix_exclusive_loop E h p n True tier) s"
  using assms by (simp add: fix_loop_rounds op_seq_def op_bind_simps(1) ensure_running_def load_swip_ok op_when_def op_bind_assoc)

lemma fix_shared_loop_ok:
  assumes inv: "inv C s" and idle: "faults_idle s" and run: "\<not> bm_stopping s" and pg: "map_option pc_swip (bm_pages s p) = Some h"
  obtains (err) e s' where "fix_shared_loop E h hint p (Suc (Suc n)) False None s = (oErr e, s')" "inv C s'" "serves contents s s'"
  | (busy) i s' where "fix_shared_loop E h hint p (Suc (Suc n)) False None s = (oBlocks, s')" "i < fcount s" "held s i p h" "\<not> shared_free (fr s i)"
  | (granted) i src s' where "fix_shared_loop E h hint p (Suc (Suc n)) False None s = (oOk \<lparr>sg_index = i, sg_pid = p, sg_swip = h, sg_source = src\<rparr>, s')"
      "granted C i p h s s'" "latch_state (fr_latch (fr s i)) < MAX_SHARED"
      "unat (latch_state (fr_latch (fr s' i))) = unat (latch_state (fr_latch (fr s i))) + 1"
proof -
  obtain pc where pc: "bm_pages s p = Some pc" "pc_swip pc = h" using pg by auto
  have inc: "unat (latch_state (w + 1)) = unat (latch_state w) + 1" if "latch_state w < MAX_SHARED" for w
    using that state_inc(2)[of w] by (simp add: word_less_nat_alt unat_MAX_SHARED)
  show ?thesis
  proof (cases rule: page_cases[OF inv pc(1)])
    case (1 i)
    then have i: "i < fcount s" "held s i p h" using pc by simp_all
    show ?thesis
    proof (cases "shared_free (fr s i)")
      case False
      then show ?thesis using busy[of "snd (fix_shared_loop E h hint p (Suc (Suc n)) False None s)" i] fix_shared_busy[OF inv run i, of hint "Suc n" False None] i
        by (metis prod.collapse)
    next
      case True
      obtain s' where s': "fix_shared_loop E h hint p (Suc (Suc n)) False None s
          = (oOk \<lparr>sg_index = i, sg_pid = p, sg_swip = h, sg_source = Dram\<rparr>, s')" "tends C i p h (set_frame i (shared_pinned (fr s i)) s) s'"
        using fix_shared_resident[OF inv run i True, of None hint "Suc n" False] by auto
      have "page_view contents (set_frame i (shared_pinned (fr s i)) s) = page_view contents s"
        by (rule set_frame_pinned[OF inv i pinned_ok(1)[OF True]]) (simp_all add: shared_pinned_def)
      note g = granted_after[OF serves_refl s'(2) i(1) this]
      show ?thesis using granted[OF s'(1)] g True inc by (simp add: shared_free_def shared_pinned_def)
    qed
  next
    case (2 l)
    then have ev: "swst s h = Some (Evicted p)" using pc by simp
    show ?thesis
    proof (rule fault_round[OF inv idle pg ev])
      fix e s1 assume "op_seq (bump record_fault) (fault E h p) s = (oErr e, s1)" "inv C s1" "serves contents s s1"
      then show ?thesis using err by (simp add: fix_shared_loop_evicted[OF run ev] op_bind_simps(2))
    next
      fix tier i s1
      assume F: "op_seq (bump record_fault) (fault E h p) s = (oOk tier, s1)" "inv C s1" "serves contents s s1" "i < fcount s1" "held s1 i p h"
        "fr_pin_control (fr s1 i) = 0" "\<And>k. tier = Some k \<Longrightarrow> k < length (bm_tiers s1)"
      note ff = fault_frame[OF inv F(2-6)]
      have run1: "\<not> bm_stopping s1" using F(3) run by (simp add: serves_def same_session_def)
      obtain s' where s': "fix_shared_loop E h hint p (Suc n) True tier s1
          = (oOk \<lparr>sg_index = i, sg_pid = p, sg_swip = h, sg_source = (if tier \<noteq> None then LowerTier else Dram)\<rparr>, s')"
        "tends C i p h (set_frame i (shared_pinned (fr s1 i)) s1) s'"
        using fix_shared_resident[OF F(2) run1 F(4,5) ff(4) F(7)] by blast
      have "page_view contents (set_frame i (shared_pinned (fr s1 i)) s1) = page_view contents s1"
        by (rule set_frame_pinned[OF F(2,4,5) pinned_ok(1)[OF ff(4)]]) (simp_all add: shared_pinned_def)
      note g = granted_after[OF F(3) s'(2) F(4) this]
      have "fix_shared_loop E h hint p (Suc (Suc n)) False None s
          = (oOk \<lparr>sg_index = i, sg_pid = p, sg_swip = h, sg_source = (if tier \<noteq> None then LowerTier else Dram)\<rparr>, s')"
        unfolding fix_shared_loop_evicted[OF run ev] using s'(1) F(1) by (simp add: op_bind_simps(1))
      then show ?thesis by (rule granted) (use g F(6) ff inc[of "fr_latch (fr s1 i)"] in \<open>simp_all add: shared_pinned_def\<close>)
    qed
  qed
qed

lemma fix_exclusive_loop_ok:
  assumes inv: "inv C s" and idle: "faults_idle s" and run: "\<not> bm_stopping s" and pg: "map_option pc_swip (bm_pages s p) = Some h"
  obtains (err) e s' where "fix_exclusive_loop E h p (Suc (Suc n)) False None s = (oErr e, s')" "inv C s'" "serves contents s s'"
  | (busy) i s' where "fix_exclusive_loop E h p (Suc (Suc n)) False None s = (oBlocks, s')" "i < fcount s" "held s i p h" "\<not> exclusive_free (fr s i)"
  | (granted) i s' where "fix_exclusive_loop E h p (Suc (Suc n)) False None s = (oOk \<lparr>eg_index = i, eg_pid = p, eg_swip = h\<rparr>, s')"
      "granted C i p h s s'" "latch_state (fr_latch (fr s i)) = 0" "latch_state (fr_latch (fr s' i)) = EXCLUSIVE_STATE"
proof -
  obtain pc where pc: "bm_pages s p = Some pc" "pc_swip pc = h" using pg by auto
  show ?thesis
  proof (cases rule: page_cases[OF inv pc(1)])
    case (1 i)
    then have i: "i < fcount s" "held s i p h" using pc by simp_all
    show ?thesis
    proof (cases "exclusive_free (fr s i)")
      case False
      then show ?thesis using busy[of "snd (fix_exclusive_loop E h p (Suc (Suc n)) False None s)" i] fix_exclusive_busy[OF inv run i, of "Suc n" False None] i
        by (metis prod.collapse)
    next
      case True
      obtain s' where s': "fix_exclusive_loop E h p (Suc (Suc n)) False None s = (oOk \<lparr>eg_index = i, eg_pid = p, eg_swip = h\<rparr>, s')"
        "tends C i p h (set_frame i (exclusive_pinned (fr s i)) s) s'"
        using fix_exclusive_resident[OF inv run i True, of None "Suc n" False] by auto
      have "page_view contents (set_frame i (exclusive_pinned (fr s i)) s) = page_view contents s"
        by (rule set_frame_pinned[OF inv i pinned_ok(2)[OF True]]) (simp_all add: exclusive_pinned_def)
      note g = granted_after[OF serves_refl s'(2) i(1) this]
      show ?thesis using granted[OF s'(1)] g True by (simp add: exclusive_free_def exclusive_pinned_def)
    qed
  next
    case (2 l)
    then have ev: "swst s h = Some (Evicted p)" using pc by simp
    show ?thesis
    proof (rule fault_round[OF inv idle pg ev])
      fix e s1 assume "op_seq (bump record_fault) (fault E h p) s = (oErr e, s1)" "inv C s1" "serves contents s s1"
      then show ?thesis using err by (simp add: fix_exclusive_loop_evicted[OF run ev] op_bind_simps(2))
    next
      fix tier i s1
      assume F: "op_seq (bump record_fault) (fault E h p) s = (oOk tier, s1)" "inv C s1" "serves contents s s1" "i < fcount s1" "held s1 i p h"
        "fr_pin_control (fr s1 i) = 0" "\<And>k. tier = Some k \<Longrightarrow> k < length (bm_tiers s1)"
      note ff = fault_frame[OF inv F(2-6)]
      have run1: "\<not> bm_stopping s1" using F(3) run by (simp add: serves_def same_session_def)
      obtain s' where s': "fix_exclusive_loop E h p (Suc n) True tier s1 = (oOk \<lparr>eg_index = i, eg_pid = p, eg_swip = h\<rparr>, s')"
        "tends C i p h (set_frame i (exclusive_pinned (fr s1 i)) s1) s'"
        using fix_exclusive_resident[OF F(2) run1 F(4,5) ff(5) F(7)] by blast
      have "page_view contents (set_frame i (exclusive_pinned (fr s1 i)) s1) = page_view contents s1"
        by (rule set_frame_pinned[OF F(2,4,5) pinned_ok(2)[OF ff(5)]]) (simp_all add: exclusive_pinned_def)
      note g = granted_after[OF F(3) s'(2) F(4) this]
      have "fix_exclusive_loop E h p (Suc (Suc n)) False None s = (oOk \<lparr>eg_index = i, eg_pid = p, eg_swip = h\<rparr>, s')"
        unfolding fix_exclusive_loop_evicted[OF run ev] using s'(1) F(1) by (simp add: op_bind_simps(1))
      then show ?thesis by (rule granted) (use g F(6) ff in \<open>simp_all add: exclusive_pinned_def\<close>)
    qed
  qed
qed

end

end
