(* ===== verification/Pool_Client.thy ===== *)
theory Pool_Client
  imports Pool_Guards
begin

text \<open>
  Correctness of allocation and of reading, writing and releasing through guards
  (src/crates/tierbuf/src/pool.rs), one operation at a time.
\<close>

section \<open>Allocation\<close>

definition zero_page :: page where
  "zero_page = replicate PAGE_SIZE 0"

lemma fresh_pid_facts:
  fixes w :: u64
  assumes "w \<le> PID_MAX"
  shows "pid_is_valid w" "w < w + 1" "page_id_new w = Some w"
proof -
  show "pid_is_valid w" "page_id_new w = Some w" using assms by (simp_all add: pid_is_valid_def page_id_new_def)
  then have "unat w < 2 ^ 62 - 1" by (simp add: pid_is_valid_iff)
  then show "w < w + 1" by (simp add: word_less_nat_alt unat_word_ariths)
qed

lemma allocate_pid_eq:
  "allocate_pid s = (if bm_next_pid s \<le> PID_MAX then (oOk (bm_next_pid s), s\<lparr>bm_next_pid := bm_next_pid s + 1\<rparr>)
     else (oErr (InvalidConfig ''logical page identifier space exhausted''), s))"
  by (simp add: allocate_pid_def try_update_def try_update_loop_quiet atomic_update_def fresh_pid_facts)

context buffer_pool
begin

lemma fresh_page:
  assumes "inv C s"
  shows "bm_pages s (bm_next_pid s) = None" "bm_swips s (bm_next_handle s) = None" "page_view contents s (bm_next_pid s) = None"
proof -
  show p: "bm_pages s (bm_next_pid s) = None"
    using pool_inv_page[OF assms, of "bm_next_pid s"] by (cases "bm_pages s (bm_next_pid s)") (auto simp: page_inv_def)
  show "bm_swips s (bm_next_handle s) = None"
    using pool_inv_cell[OF assms, of "bm_next_handle s"] by (cases "bm_swips s (bm_next_handle s)") (auto simp: cell_inv_def)
  show "page_view contents s (bm_next_pid s) = None" using p by (simp add: page_view_def)
qed

definition new_cell :: "page_id \<Rightarrow> u64 \<Rightarrow> swip_state \<Rightarrow> swip_inner" where
  "new_cell p m st = \<lparr>sw_pid = p, sw_owner_id = m, sw_word = encode_state st\<rparr>"

lemma new_cell_simps [simp]:
  "sw_pid (new_cell p m st) = p" "sw_owner_id (new_cell p m st) = m" "state_ok st \<Longrightarrow> swip_load (new_cell p m st) = Some st"
  "state_ok st \<Longrightarrow> pid_is_valid p \<Longrightarrow> swip_wf (new_cell p m st)"
  "(new_cell p m st)\<lparr>sw_word := encode_hot a\<rparr> = new_cell p m (Hot a)"
  by (simp_all add: new_cell_def swip_load_def decode_encode_state swip_wf_def)

text \<open>The new handle, bound to the manager.\<close>

lemma new_handle_run:
  assumes "pid_is_valid p" "bm_id s \<noteq> 0"
  shows "op_bind (new_swip p) (\<lambda>h. op_bind (bind_owner h) (\<lambda>bound. op_seq (op_assert bound m) (rest h))) s
    = rest (bm_next_handle s) (s\<lparr>bm_next_handle := bm_next_handle s + 1, bm_swips := (bm_swips s)(bm_next_handle s \<mapsto> new_cell p (bm_id s) (Evicted p))\<rparr>)"
  using assms encode_evicted_eq[OF assms(1)]
  by (simp add: op_bind_def new_swip_def swip_from_pid_def bind_owner_def try_bind_owner_def compare_exchange_def op_seq_def
      op_assert_def op_return_def new_cell_def)

lemma ft_write_with_ok:
  assumes "table_inv elems cap (bm_frames s)" "i < fcount s" "latch_state (fr_latch (fr s i)) = 0"
  shows "on_frames (ft_write_with i w) s = (oOk (fst (w (fdata s i))),
     s\<lparr>bm_frames := put_frame i (rewritten (fr s i)) (put_data i (snd (w (fdata s i))) (bm_frames s))\<rparr>)"
proof -
  obtain a where a: "frame_ptr (ft_pool (bm_frames s)) i = oOk a" using assms by (auto simp: table_inv_def)
  have "i < length (ft_frames (bm_frames s))" using assms(2) by (simp add: frame_count_def)
  then show ?thesis using assms a
    by (simp add: on_frames_def op_lift_def ft_write_with_def op_bind_def on_frame_def frame_count_def tfr_def read_frame_def write_frame_def
        op_return_def table_inv_def)
      (simp add: put_frame_def put_data_def tdata_def rewritten_def)
qed

definition allocated_frame :: "page_id \<Rightarrow> handle \<Rightarrow> frame \<Rightarrow> frame" where
  "allocated_frame p h f = (let g = installed p h (rewritten f) in
     g\<lparr>fr_dirty := True, fr_pin_control := 1, fr_latch := with_state (fr_latch g) EXCLUSIVE_STATE\<rparr>)"

lemma allocate_into_run:
  assumes inv: "inv C s1" and i: "i \<in> C" and s: "s = s1\<lparr>bm_next_pid := np\<rparr>" and p: "pid_is_valid p" "bm_pages s1 p = None"
  obtains s' where "allocate_into E i p s = (oOk \<lparr>eg_index = i, eg_pid = p, eg_swip = bm_next_handle s1\<rparr>, s')"
    "bm_frames s' = put_frame i (allocated_frame p (bm_next_handle s1) (fr s1 i)) (put_data i zero_page (bm_frames s1))"
    "bm_swips s' = (bm_swips s1)(bm_next_handle s1 \<mapsto> new_cell p (bm_id s1) (Hot (addr s1 i)))"
    "bm_pages s' = (bm_pages s1)(p \<mapsto> \<lparr>pc_swip = bm_next_handle s1, pc_fault = fault_state_default\<rparr>)"
    "bm_next_handle s' = bm_next_handle s1 + 1" "bm_next_pid s' = np" "ents s' = ents s1" "bm_id s' = bm_id s1"
    "bm_prefetched s' = bm_prefetched s1" "bm_tiers s' = bm_tiers s1" "bm_stats s' = bm_stats s1" "bm_stopping s' = bm_stopping s1 \<and> bm_workers s' = bm_workers s1"
    "bm_prefetch_queue s' = bm_prefetch_queue s1" "bm_prefetch_running s' = bm_prefetch_running s1"
    "bm_prefetch_in_flight s' = bm_prefetch_in_flight s1" "bm_prefetch_pending s' = bm_prefetch_pending s1"
proof -
  note co = checked_out[OF inv i] and tb = pool_inv_table[OF inv]
  let ?h = "bm_next_handle s1" and ?f1 = "rewritten (fr s1 i)"
  let ?t = "s\<lparr>bm_next_handle := bm_next_handle s + 1, bm_swips := (bm_swips s)(bm_next_handle s \<mapsto> new_cell p (bm_id s) (Evicted p))\<rparr>"
  let ?F = "put_frame i ?f1 (put_data i zero_page (bm_frames s1))"
  have id: "bm_id s \<noteq> 0" using inv by (simp add: s pool_inv_def)
  have ad: "addr_ok (addr s1 i)" "slice_ok (bm_frames s1)" using slice_addr_facts(2)[OF pool_inv_slice[OF inv] co(1)] pool_inv_slice[OF inv] .
  have len: "length (fdata s1 i) = PAGE_SIZE" using tdata_length[OF tb co(1)] .
  have wr: "on_frames (ft_write_with i (\<lambda>page. ((), replicate (length page) 0))) ?t = (oOk (), ?t\<lparr>bm_frames := ?F\<rparr>)"
    using ft_write_with_ok[of ?t i "\<lambda>page. ((), replicate (length page) 0)"] tb co len by (simp add: s blank_def zero_page_def)
  have rs: "resident_of i u = (oOk (addr s1 i), u)" if "bm_frames u = put_frame i g (put_data i zero_page (bm_frames s1))" for u :: "('q, 't, 'p) manager" and g
    using resident_of_ok[of u i] that ad co(1) by simp
  have sz: "cas_swip ?h (\<lambda>c. try_swizzle c p (addr s1 i)) u = (oOk True, u\<lparr>bm_swips := (bm_swips s1)(?h \<mapsto> new_cell p (bm_id s1) (Hot (addr s1 i)))\<rparr>)"
    if "bm_swips u = (bm_swips s1)(?h \<mapsto> new_cell p (bm_id s1) (Evicted p))" for u :: "('q, 't, 'p) manager"
    using cas_swizzle[of u ?h "new_cell p (bm_id s1) (Evicted p)" p "Evicted p" "addr s1 i"] p(1) ad that
    by (simp add: move_cell_def cell_state_def)
  have ex: "resident_is_exact ?h p (addr s1 i) i u = (oOk True, u)"
    if "bm_swips u = (bm_swips s1)(?h \<mapsto> new_cell p (bm_id s1) (Hot (addr s1 i)))" "i < fcount u" "fr_pid (fr u i) = p" "fr_owner_swip (fr u i) = Some ?h" for u :: "('q, 't, 'p) manager"
    using that load_swip_ok[of u ?h "Hot (addr s1 i)"] ad p(1)
    by (simp add: resident_is_exact_def op_bind_def op_return_def op_get_def on_meta_get[unfolded op_get_def] cell_state_def frame_pid_of_def on_meta_eq frame_pid_ok)
  have "\<exists>s'. allocate_into E i p s = (oOk \<lparr>eg_index = i, eg_pid = p, eg_swip = ?h\<rparr>, s')
    \<and> bm_frames s' = put_frame i (allocated_frame p ?h (fr s1 i)) (put_data i zero_page (bm_frames s1))
    \<and> bm_swips s' = (bm_swips s1)(?h \<mapsto> new_cell p (bm_id s1) (Hot (addr s1 i)))
    \<and> bm_pages s' = (bm_pages s1)(p \<mapsto> \<lparr>pc_swip = ?h, pc_fault = fault_state_default\<rparr>) \<and> bm_next_handle s' = ?h + 1 \<and> bm_next_pid s' = np
    \<and> ents s' = ents s1 \<and> bm_id s' = bm_id s1 \<and> bm_prefetched s' = bm_prefetched s1 \<and> bm_tiers s' = bm_tiers s1 \<and> bm_stats s' = bm_stats s1
    \<and> bm_stopping s' = bm_stopping s1 \<and> bm_workers s' = bm_workers s1 \<and> bm_prefetch_queue s' = bm_prefetch_queue s1 \<and> bm_prefetch_running s' = bm_prefetch_running s1
    \<and> bm_prefetch_in_flight s' = bm_prefetch_in_flight s1 \<and> bm_prefetch_pending s' = bm_prefetch_pending s1"
    unfolding allocate_into_def new_handle_run[OF p(1) id] using co p id wr
    by (simp add: s step_simps op_get_def on_meta_eq frame_install_ok free_frame_publish_pin_def publish_reserved_pin_eq rs sz ex
        installed_def set_dirty_def allocated_frame_def Let_def)
  then show ?thesis using that by blast
qed

text \<open>A new page, all zero, pinned and exclusively latched.\<close>

definition allotted :: "nat set \<Rightarrow> nat \<Rightarrow> ('q, 't, 'p) manager \<Rightarrow> ('q, 't, 'p) manager \<Rightarrow> bool" where
  "allotted C i s s' \<longleftrightarrow> inv C s' \<and> i < fcount s \<and> held s' i (bm_next_pid s) (bm_next_handle s) \<and> pid_is_valid (bm_next_pid s)
     \<and> page_view contents s' = (page_view contents s)(bm_next_pid s \<mapsto> zero_page)
     \<and> bm_pages s' = (bm_pages s)(bm_next_pid s \<mapsto> \<lparr>pc_swip = bm_next_handle s, pc_fault = fault_state_default\<rparr>)
     \<and> bm_id s' = bm_id s \<and> bm_next_pid s' = bm_next_pid s + 1 \<and> bm_next_handle s' = bm_next_handle s + 1 \<and> bm_stopping s' = bm_stopping s \<and> bm_workers s' = bm_workers s
     \<and> fcount s' = fcount s \<and> addr s' = addr s \<and> length (bm_tiers s') = length (bm_tiers s)
     \<and> bm_prefetch_queue s' = bm_prefetch_queue s \<and> bm_prefetch_running s' = bm_prefetch_running s
     \<and> bm_prefetch_in_flight s' = bm_prefetch_in_flight s \<and> bm_prefetch_pending s' = bm_prefetch_pending s
     \<and> (\<forall>j < fcount s. j \<noteq> i \<longrightarrow> frame_kept s s' j)
     \<and> fr_pin_control (fr s i) = 0 \<and> fr_pin_control (fr s' i) = 1 \<and> latch_state (fr_latch (fr s' i)) = EXCLUSIVE_STATE"

lemma allocate_into_ok:
  assumes inv: "inv C s" and A: "acquired C (oOk i) s s1" and p: "bm_next_pid s \<le> PID_MAX"
  obtains s' where "allocate_into E i (bm_next_pid s) (s1\<lparr>bm_next_pid := bm_next_pid s + 1\<rparr>)
      = (oOk \<lparr>eg_index = i, eg_pid = bm_next_pid s, eg_swip = bm_next_handle s\<rparr>, s')" "allotted C i s s'"
proof -
  note a = acquired_fresh[OF inv A]
  let ?p = "bm_next_pid s" and ?h = "bm_next_handle s"
  have iC: "i \<in> insert i C" and ins: "insert i C - {i} = C" using a(3) by auto
  note co = checked_out[OF a(4) iC] and fp = fresh_pid_facts[OF p]
  have ev: "bm_next_handle s1 = ?h" "bm_next_pid s1 = ?p" "bm_pages s1 = bm_pages s" "bm_id s1 = bm_id s" "page_view contents s1 = page_view contents s"
    "frames_kept s s1" "fcount s1 = fcount s" "addr s1 = addr s" using a(5) by (simp_all add: evolves_def)
  note fresh = fresh_page[OF a(4), unfolded ev(1,2)]
  obtain s' where R: "allocate_into E i ?p (s1\<lparr>bm_next_pid := ?p + 1\<rparr>) = (oOk \<lparr>eg_index = i, eg_pid = ?p, eg_swip = ?h\<rparr>, s')"
    "bm_frames s' = put_frame i (allocated_frame ?p ?h (fr s1 i)) (put_data i zero_page (bm_frames s1))"
    "bm_swips s' = (bm_swips s1)(?h \<mapsto> new_cell ?p (bm_id s1) (Hot (addr s1 i)))"
    "bm_pages s' = (bm_pages s1)(?p \<mapsto> \<lparr>pc_swip = ?h, pc_fault = fault_state_default\<rparr>)"
    "bm_next_handle s' = ?h + 1" "bm_next_pid s' = ?p + 1" "ents s' = ents s1" "bm_id s' = bm_id s1"
    "bm_prefetched s' = bm_prefetched s1" "bm_tiers s' = bm_tiers s1" "bm_stats s' = bm_stats s1" "bm_stopping s' = bm_stopping s1 \<and> bm_workers s' = bm_workers s1"
    "bm_prefetch_queue s' = bm_prefetch_queue s1" "bm_prefetch_running s' = bm_prefetch_running s1"
    "bm_prefetch_in_flight s' = bm_prefetch_in_flight s1" "bm_prefetch_pending s' = bm_prefetch_pending s1"
    using allocate_into_run[OF a(4) iC refl fp(1) fresh(1), where np = "?p + 1"] unfolding ev(1) .
  let ?z = "s1\<lparr>bm_frames := put_data i zero_page (bm_frames s1)\<rparr>" and ?f = "allocated_frame ?p ?h (fr s1 i)"
  have tb: "length (ft_data (bm_frames s1)) = fcount s1" using pool_inv_table[OF a(4)] by (simp add: table_inv_def)
  have zd: "tdata (put_data i zero_page (bm_frames s1)) j = (if j = i then zero_page else fdata s1 j)" for j using tdata_put_data[OF tb co(1)] .
  have "put_data i zero_page (bm_frames s1) = put_frame i (fr s1 i) (put_data i zero_page (bm_frames s1))"
    using put_frame_simps(8)[of i "put_data i zero_page (bm_frames s1)"] by simp
  then have Z: "inv (insert i C) ?z \<and> page_view contents ?z = page_view contents s1"
    using co a(4) by (intro scratch_move[OF a(4) iC, of "fr s1 i" zero_page]) (simp_all add: zero_page_def pool_inv_def)
  have ad: "addr_ok (addr s1 i)" using slice_addr_facts(2)[OF pool_inv_slice[OF a(4)] co(1)] .
  have pin: "pin_ok ?f" "fr_pin_control ?f = 1" "latch_state (fr_latch ?f) = EXCLUSIVE_STATE" "fr_pid ?f = ?p" "fr_owner_swip ?f = Some ?h"
    by (simp_all add: pin_ok_def allocated_frame_def installed_def Let_def)
  have M: "inv (insert i C - {i}) s' \<and> page_view contents s' = (page_view contents ?z)(?p \<mapsto> fdata ?z i)"
  proof (rule occupy_move[OF conjunct1[OF Z] iC, of s' ?f ?p ?h "new_cell ?p (bm_id s1) (Hot (addr s1 i))"])
    show "fr_dirty ?f \<or> (\<exists>l. ents ?z ?p = Some l \<and> stored contents (bm_tiers ?z) l = Some (fdata ?z i))" by (simp add: allocated_frame_def Let_def)
    show "map_option pc_swip \<circ> bm_pages s' = (map_option pc_swip \<circ> bm_pages ?z)(?p \<mapsto> ?h)" by (auto simp: R(4) fun_eq_iff)
  qed (use R pin ad fresh fp ev in \<open>auto simp: cell_state_def\<close>)
  have hd: "held s' i ?p ?h" using co(1) pin ad fp(1) by (simp add: held_def R(2-4) cell_state_def)
  have "frame_kept s s' j" if "j < fcount s" "j \<noteq> i" for j
    using frames_kept_at[OF ev(6) that(1)] that(2) by (simp add: frame_kept_def R(2) zd)
  then have "allotted C i s s'"
    using M hd Z ev a pin fp(1) R(4-16) co(1) zd ins by (simp add: allotted_def R(2) evolves_def)
  then show ?thesis using that R(1) by blast
qed

lemma allocate_ok:
  assumes inv: "inv C s"
  obtains (err) e s' where "allocate E s = (oErr e, s')" "inv C s'" "serves contents s s'"
  | (new) i s' where "allocate E s = (oOk \<lparr>eg_index = i, eg_pid = bm_next_pid s, eg_swip = bm_next_handle s\<rparr>, s')" "allotted C i s s'" "\<not> bm_stopping s"
proof (cases "bm_stopping s")
  case True
  then show ?thesis using err inv by (simp add: allocate_def op_seq_def op_bind_def ensure_running_def)
next
  case False
  obtain r s1 where A: "acquire_frame E s = (r, s1)" "acquired C r s s1" using acquire_frame_ok[OF inv] .
  note run = allocate_def op_seq_def op_bind_def ensure_running_def False A(1)
  consider (got) i where "r = oOk i" | (none) e where "r = oErr e" using A(2) by (cases r) (auto simp: acquired_def)
  then show ?thesis
  proof cases
    case none
    then show ?thesis using err[of e s1] A(2) evolves_serves[of contents s s1] by (simp add: run acquired_def)
  next
    case (got i)
    note a = acquired_fresh[OF inv A(2)[unfolded got]]
    have np: "bm_next_pid s1 = bm_next_pid s" using a(5) by (simp add: evolves_def)
    show ?thesis
    proof (cases "bm_next_pid s \<le> PID_MAX")
      case True
      then obtain s' where "allocate_into E i (bm_next_pid s) (s1\<lparr>bm_next_pid := bm_next_pid s + 1\<rparr>)
          = (oOk \<lparr>eg_index = i, eg_pid = bm_next_pid s, eg_swip = bm_next_handle s\<rparr>, s')" "allotted C i s s'"
        using allocate_into_ok[OF inv] A(2) got by blast
      then show ?thesis using new[of i s'] got True np False by (simp add: run op_try_def allocate_pid_eq)
    next
      case full: False
      have iC: "i \<in> insert i C" and ins: "insert i C - {i} = C" using a(3) by auto
      note D = free_frame_drop_ok[OF a(4) iC]
      have "serves contents s (unpinned_drop i s1)" using D(4-8) by (intro serves_beside[OF a(5,1,2)]) simp_all
      then show ?thesis using err[of _ "unpinned_drop i s1"] got full np D ins by (simp add: run op_try_def allocate_pid_eq op_fail_def)
    qed
  qed
qed

section \<open>Reading, writing and dropping\<close>

lemma guard_read:
  assumes "inv C s" "i < fcount s" "held s i p h"
  shows "on_frames (read_frame i) s = (oOk (fdata s i), s)" "page_view contents s p = Some (fdata s i)" "length (fdata s i) = PAGE_SIZE"
  using read_frame_ok[OF pool_inv_table[OF assms(1)] assms(2)] view_held[OF assms] tdata_length[OF pool_inv_table[OF assms(1)] assms(2)] by simp_all

lemma write_move:
  assumes inv: "inv C s" and i: "i < fcount s" "held s i p h" and d: "length d = PAGE_SIZE"
    and s': "s' = s\<lparr>bm_frames := put_data i d (put_frame i ((fr s i)\<lparr>fr_dirty := True\<rparr>) (bm_frames s))\<rparr>"
  shows "inv C s' \<and> page_view contents s' = (page_view contents s)(p \<mapsto> d)"
proof
  let ?f = "(fr s i)\<lparr>fr_dirty := True\<rparr>"
  note occ = held_occupied[OF inv i]
  have tb: "length (ft_data (put_frame i ?f (bm_frames s))) = frame_count (put_frame i ?f (bm_frames s))"
    using pool_inv_table[OF inv] by (simp add: table_inv_def) (simp add: put_frame_def)
  have fr': "fr s' j = (if j = i then ?f else fr s j)" for j using i(1) by (simp add: s' tfr_put_frame)
  have fd: "fdata s' j = (if j = i then d else fdata s j)" for j using tdata_put_data[OF tb, of i d] i(1) by (simp add: s')
  have sel: "addr s' = addr s" "bm_swips s' = bm_swips s" "bm_pages s' = bm_pages s" "is_free s' = is_free s" "fcount s' = fcount s"
    "ents s' = ents s" "bm_tiers s' = bm_tiers s" "index_of_resident (bm_frames s') = index_of_resident (bm_frames s)" by (simp_all add: s')
  have held: "held s' = held s" by (auto simp: fun_eq_iff held_def fr' sel)
  have "frame_inv contents C s' j" if "j < fcount s" for j
  proof (cases "j = i")
    case True
    have "clean_ok contents s' i p" by (simp add: clean_ok_def fr')
    then show ?thesis using True occ i(2) by (auto simp: frame_inv_def sel fr' held pin_ok_def)
  next
    case False
    then have "clean_ok contents s' j = clean_ok contents s j" by (simp add: fun_eq_iff clean_ok_def fr' fd sel)
    with False show ?thesis using pool_inv_frame[OF inv that] by (auto simp: frame_inv_def fr' held sel split: if_splits)
  qed
  moreover have "page_inv s' = page_inv s" by (simp add: fun_eq_iff page_inv_def held) (simp add: s')
  moreover have "cell_inv s' = cell_inv s" by (simp add: fun_eq_iff cell_inv_def s')
  moreover have "dir_inv contents s' = dir_inv contents s" by (simp add: dir_inv_def sel)
  moreover have "table_inv elems cap (bm_frames s')" using table_inv_put_data[of elems cap "put_frame i ?f (bm_frames s)" d i] d pool_inv_table[OF inv] by (simp add: s')
  ultimately show inv': "inv C s'" using inv by (simp add: pool_inv_def sel) (simp add: s')
  show "page_view contents s' = (page_view contents s)(p \<mapsto> d)"
  proof
    fix q
    show "page_view contents s' q = ((page_view contents s)(p \<mapsto> d)) q"
    proof (cases "bm_pages s q")
      case None
      moreover have "q \<noteq> p" using None i(2) by (auto simp: held_def)
      ultimately show ?thesis by (simp add: page_view_def sel)
    next
      case (Some pc)
      show ?thesis
      proof (cases rule: page_cases[OF inv Some])
        case (1 j)
        have "q = p \<Longrightarrow> j = i" using held_unique[OF inv 1(2) i(2) 1(1) i(1)] by blast
        moreover have "j = i \<Longrightarrow> q = p" using 1(2) i(2) by (simp add: held_def)
        ultimately have "q = p \<longleftrightarrow> j = i" by blast
        then show ?thesis using view_held[OF inv', of j q "pc_swip pc"] view_held[OF inv 1] 1 by (simp add: held sel fd)
      next
        case (2 l)
        have "q \<noteq> p" using 2 Some i(2) by (auto simp: held_def)
        then show ?thesis using 2 view_evicted[of s' q "pc_swip pc" q contents] view_evicted[of s q "pc_swip pc" q contents] Some by (simp add: sel)
      qed
    qed
  qed
qed

text \<open>The state after a write, and after a guard has been dropped.\<close>

definition page_written :: "nat \<Rightarrow> page \<Rightarrow> ('q, 't, 'p) manager \<Rightarrow> ('q, 't, 'p) manager" where
  "page_written i d s = s\<lparr>bm_frames := put_data i d (put_frame i ((fr s i)\<lparr>fr_dirty := True\<rparr>) (bm_frames s))\<rparr>"

lemma exclusive_write_ok:
  assumes inv: "inv C s" and i: "eg_index g < fcount s" "held s (eg_index g) p h" and d: "length (snd (w (fdata s (eg_index g)))) = PAGE_SIZE"
  shows "exclusive_write_with g w s = (oOk (fst (w (fdata s (eg_index g)))), page_written (eg_index g) (snd (w (fdata s (eg_index g)))) s)"
proof -
  let ?i = "eg_index g"
  let ?s1 = "set_frame ?i ((fr s ?i)\<lparr>fr_dirty := True\<rparr>) s"
  have "table_inv elems cap (bm_frames ?s1)" using pool_inv_table[OF inv] by simp
  then show ?thesis
    using i(1) read_frame_ok[of elems cap ?s1 ?i] write_frame_ok[of elems cap ?s1 ?i]
    by (simp add: exclusive_write_with_def op_seq_def op_bind_def op_modify_def op_return_def on_meta_eq set_dirty_def page_written_def)
qed

definition shared_released :: "frame \<Rightarrow> frame" where
  "shared_released f = f\<lparr>fr_pin_control := fr_pin_control f - 1, fr_latch := fr_latch f - 1\<rparr>"

definition exclusive_released :: "frame \<Rightarrow> frame" where
  "exclusive_released f = f\<lparr>fr_pin_control := fr_pin_control f - 1, fr_latch := bump_word (fr_latch f)\<rparr>"

lemma shared_drop_ok:
  assumes "sg_index g < fcount s" "0 < unat (fr_pin_control (fr s (sg_index g)))" "unat (fr_pin_control (fr s (sg_index g))) < 2 ^ 31"
    "1 \<le> latch_state (fr_latch (fr s (sg_index g)))" "latch_state (fr_latch (fr s (sg_index g))) \<le> MAX_SHARED"
  shows "shared_guard_drop g s = (oOk (), set_frame (sg_index g) (shared_released (fr s (sg_index g))) s)"
  using assms by (simp add: shared_guard_drop_def op_seq_def op_bind_def on_meta_eq frame_unpin_ok frame_drop_shared_def release_shared_def
      shared_released_def)

lemma exclusive_drop_ok:
  assumes "eg_index g < fcount s" "0 < unat (fr_pin_control (fr s (eg_index g)))" "unat (fr_pin_control (fr s (eg_index g))) < 2 ^ 31"
    "latch_state (fr_latch (fr s (eg_index g))) = EXCLUSIVE_STATE"
  shows "exclusive_guard_drop g s = (oOk (), set_frame (eg_index g) (exclusive_released (fr s (eg_index g))) s)"
  using assms by (simp add: exclusive_guard_drop_def op_seq_def op_bind_def on_meta_eq frame_unpin_ok exclusive_released_def)

end

end
