(* ===== verification/Pool_Prefetch.thy ===== *)
theory Pool_Prefetch
  imports Pool_Guards
begin

text \<open>
  Correctness of prefetching (src/crates/tierbuf/src/pool.rs): every accepted task owns one frame
  and one reservation until its worker has run it, no page changes its content, and nothing panics.
  The epoch tick, the third background thread, is here too.
\<close>

section \<open>What prefetching may change\<close>

definition same_core :: "('q, 't, 'p) manager \<Rightarrow> ('q, 't, 'p) manager \<Rightarrow> bool" where
  "same_core s s' \<longleftrightarrow> bm_id s' = bm_id s \<and> bm_next_pid s' = bm_next_pid s \<and> bm_next_handle s' = bm_next_handle s
     \<and> bm_stopping s' = bm_stopping s \<and> bm_workers s' = bm_workers s \<and> fcount s' = fcount s \<and> addr s' = addr s \<and> length (bm_tiers s') = length (bm_tiers s)"

lemma same_session_core: "same_session s s' \<Longrightarrow> same_core s s'"
  by (simp add: same_session_def same_core_def)

context buffer_pool
begin

text \<open>The set of checked-out frames changes from \<open>C\<close> to \<open>C'\<close>; a frame that leaves it is unpinned.\<close>

definition shifts :: "nat set \<Rightarrow> ('q, 't, 'p) manager \<Rightarrow> nat set \<Rightarrow> ('q, 't, 'p) manager \<Rightarrow> bool" where
  "shifts C s C' s' \<longleftrightarrow> inv C' s' \<and> page_view contents s' = page_view contents s
     \<and> map_option pc_swip \<circ> bm_pages s' = map_option pc_swip \<circ> bm_pages s \<and> (faults_idle s \<longrightarrow> faults_idle s') \<and> same_core s s'
     \<and> (\<forall>j < fcount s. j \<notin> C \<longrightarrow> frame_kept s s' j) \<and> (\<forall>j < fcount s. j \<in> C \<longrightarrow> j \<notin> C' \<longrightarrow> fr_pin_control (fr s' j) = 0)"

lemma shifts_refl: "inv C s \<Longrightarrow> shifts C s C s"
  by (simp add: shifts_def same_core_def frame_kept_def)

lemma serves_shifts: "inv C s' \<Longrightarrow> serves contents s s' \<Longrightarrow> shifts C s C s'"
  by (auto simp: shifts_def serves_def same_session_core intro: frames_kept_at)

lemma shifts_trans:
  assumes "inv C s" "shifts C s C' s'" "shifts C' s' C'' s''"
  shows "shifts C s C'' s''"
proof -
  have n: "fcount s' = fcount s" using assms(2) by (simp add: shifts_def same_core_def)
  have inv: "inv C' s'" "inv C'' s''" using assms(2,3) by (simp_all add: shifts_def)
  have "frame_kept s s'' j" if j: "j < fcount s" "j \<notin> C" for j
  proof (cases "j \<in> C'")
    case True
    have 1: "frame_kept s s' j" using assms(2) j by (simp add: shifts_def)
    have "fr_pin_control (fr s' j) = EVICTING" using checked_out(3)[OF inv(1) True] .
    moreover have "fr_pin_control (fr s j) \<noteq> EVICTING" using not_evicting[OF assms(1) j] .
    ultimately have "fr_pin_control (fr s j) = 0" using 1 by (auto simp: frame_kept_def split: if_splits)
    moreover have "fr_pin_control (fr s'' j) = 0 \<or> fr_pin_control (fr s'' j) = EVICTING"
      using assms(3) True j(1) n checked_out(3)[OF inv(2), of j] by (cases "j \<in> C''") (simp_all add: shifts_def)
    ultimately show ?thesis by (simp add: frame_kept_def)
  next
    case False
    then have "frame_kept s s' j" "frame_kept s' s'' j" using assms(2,3) j n by (simp_all add: shifts_def)
    moreover have "fr_pin_control (fr s' j) \<noteq> EVICTING" using not_evicting[OF inv(1) _ False] j(1) n by simp
    ultimately show ?thesis by (auto simp: frame_kept_def split: if_splits)
  qed
  moreover have "fr_pin_control (fr s'' j) = 0" if j: "j < fcount s" "j \<in> C" "j \<notin> C''" for j
  proof (cases "j \<in> C'")
    case True
    then show ?thesis using assms(3) j n by (simp add: shifts_def)
  next
    case False
    then have "fr_pin_control (fr s' j) = 0" "frame_kept s' s'' j" using assms(2,3) j n by (simp_all add: shifts_def)
    moreover have "fr_pin_control (fr s'' j) \<noteq> EVICTING" using not_evicting[OF inv(2) _ j(3)] j(1) n assms(3) by (simp add: shifts_def same_core_def)
    ultimately show ?thesis by (auto simp: frame_kept_def)
  qed
  ultimately show ?thesis using assms(2,3) by (simp add: shifts_def same_core_def)
qed

text \<open>A change of fields the pool invariant does not look into.\<close>

lemma shifts_idle:
  assumes "inv C s" "bm_frames s' = bm_frames s" "bm_swips s' = bm_swips s" "ents s' = ents s" "bm_tiers s' = bm_tiers s"
    "bm_pages s' = bm_pages s" "bm_id s' = bm_id s" "bm_next_pid s' = bm_next_pid s" "bm_next_handle s' = bm_next_handle s"
    "bm_stopping s' = bm_stopping s \<and> bm_workers s' = bm_workers s" "\<And>p. bm_prefetched s p = None \<Longrightarrow> bm_prefetched s' p = None"
    "length (st_tiers (bm_stats s')) = length (st_tiers (bm_stats s))"
  shows "shifts C s C s'"
proof -
  have "inv C s' \<and> page_view contents s' = page_view contents s"
    by (rule inv_fields[OF assms(1)]) (use assms in \<open>simp_all add: pool_inv_def\<close>)
  then show ?thesis using assms by (simp add: shifts_def same_core_def frame_kept_def faults_idle_def)
qed

text \<open>A checked-out frame is given back, or receives its page.\<close>

lemma shifts_beside:
  assumes "i \<in> C" "inv (C - {i}) s'" "page_view contents s' = page_view contents s" "bm_pages s' = bm_pages s" "same_session s s'"
    "fr_pin_control (fr s' i) = 0" "\<And>j. j \<noteq> i \<Longrightarrow> fr s' j = fr s j \<and> fdata s' j = fdata s j"
  shows "shifts C s (C - {i}) s'"
proof -
  have "frame_kept s s' j" if "j \<notin> C" for j
  proof -
    have "j \<noteq> i" using that assms(1) by auto
    then show ?thesis using assms(7) by (simp add: frame_kept_def)
  qed
  moreover have "fr_pin_control (fr s' j) = 0" if "j \<in> C" "j \<notin> C - {i}" for j using that assms(6) by auto
  ultimately show ?thesis using assms same_session_core[OF assms(5)] by (simp add: shifts_def faults_idle_def)
qed

lemma shifts_return: "inv C s \<Longrightarrow> i \<in> C \<Longrightarrow> shifts C s (C - {i}) (unpinned_drop i s)"
  by (rule shifts_beside) (simp_all add: free_frame_drop_ok)

section \<open>Filling the frame of a task\<close>

lemma prefetch_fault_into_ok:
  assumes inv: "inv C s" and i: "i \<in> C" and ev: "evicted_at s p h l"
  obtains r s' where "prefetch_fault_into E h p l i s = (r, s')" "shifts C s (C - {i}) s'" "bm_pages s' = bm_pages s"
    "(\<exists>t. r = oOk t) \<or> (\<exists>e. r = oErr e)" "bm_prefetch_queue s' = bm_prefetch_queue s" "bm_prefetch_running s' = bm_prefetch_running s"
    "bm_prefetch_in_flight s' = bm_prefetch_in_flight s" "bm_prefetch_pending s' = bm_prefetch_pending s"
proof -
  obtain d0 where d0: "stored contents (bm_tiers s) l = Some d0" and np: "bm_prefetched s p = None" using evicted_at_facts[OF inv ev] by blast
  show ?thesis
  proof (rule load_run[OF inv i ev d0])
    fix e s1
    assume F: "read_backing_page E i l s = (oErr e, s1)" "inv C s1" "page_view contents s1 = page_view contents s"
      "bm_pages s1 = bm_pages s" "same_session s s1" "\<And>j. j \<noteq> i \<Longrightarrow> fr s1 j = fr s j \<and> fdata s1 j = fdata s j"
    note D = free_frame_drop_ok[OF F(2) i]
    have "prefetch_fault_into E h p l i s = (oErr e, unpinned_drop i s1)"
      using F(1) D(2) by (simp add: prefetch_fault_into_def op_bind_def op_try_def op_seq_def op_fail_def)
    moreover have "shifts C s (C - {i}) (unpinned_drop i s1)" using D F i by (intro shifts_beside) (simp_all add: same_session_def)
    ultimately show ?thesis using that D F by (simp add: same_session_def)
  next
    fix s1 s2
    assume F: "read_backing_page E i l s = (oOk (), s1)"
      "on_stats (record_tier_read (loc_tier_index l) (word_of_nat PAGE_SIZE)) s1 = (oOk (), s2)"
      "inv C s2" "evicted_at s2 p h l" "stored contents (bm_tiers s2) l = Some (fdata s2 i)"
      "page_view contents s2 = page_view contents s" "bm_pages s2 = bm_pages s" "same_session s s2" "addr s2 = addr s"
      "bm_prefetched s2 = bm_prefetched s" "\<And>j. j \<noteq> i \<Longrightarrow> fr s2 j = fr s j \<and> fdata s2 j = fdata s j"
    note co = checked_out[OF F(3) i]
    let ?m = "\<lparr>pm_resident = addr s2 i, pm_generation = fr_generation (fr s2 i) + 1\<rparr>"
    let ?pf = "(bm_prefetched s2)(p \<mapsto> ?m)"
    let ?f = "(installed p h (fr s2 i))\<lparr>fr_pin_control := 1\<rparr>" and ?s' = "(faulted_in i p h s2)\<lparr>bm_prefetched := ?pf\<rparr>"
    note I = faulted_in_ok[OF F(3) i F(4,5), of ?pf]
    have v: "pid_is_valid p" using evicted_at_facts[OF F(3,4)] .
    have rs: "resident_of i (set_frame i ?f s2) = (oOk (addr s2 i), set_frame i ?f s2)"
      using resident_of_ok[of "set_frame i ?f s2" i] pool_inv_slice[OF F(3)] co(1) by simp
    have g: "fr_generation ?f = fr_generation (fr s2 i) + 1" by (simp add: installed_def)
    have sz: "cas_swip h (\<lambda>c. try_swizzle c p (addr s2 i)) (set_frame i ?f s2\<lparr>bm_prefetched := ?pf\<rparr>)
        = (oOk True, move_swip h (Hot (addr s2 i)) (set_frame i ?f s2\<lparr>bm_prefetched := ?pf\<rparr>))"
      by (rule swizzle_ok[OF F(3) i F(4)]) simp
    have "\<exists>u. prefetch_fault_into E h p l i s = (oOk (Some (loc_tier_index l)), u) \<and> u = ?s'"
      using F(1,2) publish_frame_ok[OF F(3) i v] rs co(1) np F(10) sz g
      by (simp add: prefetch_fault_into_def op_bind_def op_try_def op_seq_def op_return_def op_get_def op_modify_def op_assert_def Let_def
          on_meta_get[unfolded op_get_def] on_meta_eq frame_unpin_ok) (simp add: faulted_in_def)
    then have "prefetch_fault_into E h p l i s = (oOk (Some (loc_tier_index l)), ?s')" by blast
    moreover have "inv (C - {i}) ?s'" "page_view contents ?s' = page_view contents s" using I F(6) by simp_all
    moreover have S: "bm_pages ?s' = bm_pages s" "same_session s ?s'" "fr_pin_control (fr ?s' i) = 0"
      "\<And>j. j \<noteq> i \<Longrightarrow> fr ?s' j = fr s j \<and> fdata ?s' j = fdata s j"
      using F(7,8,11) co(1) by (simp_all add: faulted_in_def same_session_def)
    ultimately have "shifts C s (C - {i}) ?s'" using i by (intro shifts_beside) simp_all
    then show ?thesis using that[of "oOk (Some (loc_tier_index l))" ?s'] S \<open>prefetch_fault_into E h p l i s = (oOk (Some (loc_tier_index l)), ?s')\<close>
      by (simp add: same_session_def)
  qed
qed

section \<open>Running a task\<close>

lemma perform_prefetch_fault_ok:
  assumes inv: "inv C s" and pg: "map_option pc_swip (bm_pages s p) = Some h"
    and t: "bm_prefetch_running s = Some t" "pt_checkout t = Some i" "i \<in> C"
  obtains r s' C' where "perform_prefetch_fault E h p s = (r, s')" "(\<exists>k. r = oOk k) \<or> (\<exists>e. r = oErr e)" "shifts C s C' s'" "bm_pages s' = bm_pages s"
    "bm_prefetch_queue s' = bm_prefetch_queue s" "bm_prefetch_in_flight s' = bm_prefetch_in_flight s" "bm_prefetch_pending s' = bm_prefetch_pending s"
    "C' = C \<and> bm_prefetch_running s' = Some t \<or> C' = C - {i} \<and> bm_prefetch_running s' = Some (t\<lparr>pt_checkout := None\<rparr>)"
proof (cases "bm_stopping s")
  case True
  then have "perform_prefetch_fault E h p s = (oErr ShuttingDown, s)"
    by (simp add: perform_prefetch_fault_def fault_location_def op_seq_def op_bind_def ensure_running_def)
  then show ?thesis using that[of "oErr ShuttingDown" s C] shifts_refl[OF inv] t by simp
next
  case False
  show ?thesis
  proof (rule fault_location_ok[OF inv pg False])
    assume "fault_location h p s = (oOk None, s)"
    then show ?thesis using that[of "oOk None" s C] shifts_refl[OF inv] t by (simp add: perform_prefetch_fault_def op_bind_def op_return_def)
  next
    fix l
    let ?s1 = "s\<lparr>bm_directory := (bm_directory s)\<lparr>pd_lookups := pd_lookups (bm_directory s) + 1\<rparr>\<rparr>"
    let ?s3 = "s\<lparr>bm_directory := (bm_directory s)\<lparr>pd_lookups := pd_lookups (bm_directory s) + 1\<rparr>,
      bm_prefetch_running := Some (t\<lparr>pt_checkout := None\<rparr>), bm_stats := record_fault (bm_stats s)\<rparr>"
    assume loc: "fault_location h p s = (oOk (Some l), ?s1)" and ev: "evicted_at s p h l"
    have sh: "shifts C s C ?s3" by (rule shifts_idle[OF inv]) simp_all
    have "evicted_at ?s3 p h l" using ev by (simp add: evicted_at_def)
    moreover have "inv C ?s3" using sh by (simp add: shifts_def)
    ultimately obtain r s' where R: "prefetch_fault_into E h p l i ?s3 = (r, s')" "shifts C ?s3 (C - {i}) s'" "bm_pages s' = bm_pages ?s3"
      "(\<exists>t. r = oOk t) \<or> (\<exists>e. r = oErr e)" "bm_prefetch_queue s' = bm_prefetch_queue ?s3" "bm_prefetch_running s' = bm_prefetch_running ?s3"
      "bm_prefetch_in_flight s' = bm_prefetch_in_flight ?s3" "bm_prefetch_pending s' = bm_prefetch_pending ?s3"
      using prefetch_fault_into_ok[of C ?s3 i p h l] t(3) by blast
    have "perform_prefetch_fault E h p s = (r, s')"
      using loc t R(1) by (simp add: perform_prefetch_fault_def op_bind_def op_seq_def take_checkout_def bump_eq)
    then show ?thesis using that[of r s' "C - {i}"] R shifts_trans[OF inv sh R(2)] by simp
  qed
qed

lemma shifts_relabel:
  assumes "inv C s" "map_option pc_swip \<circ> pgs = map_option pc_swip \<circ> bm_pages s" "faults_idle s \<longrightarrow> faults_idle (s\<lparr>bm_pages := pgs\<rparr>)"
  shows "shifts C s C (s\<lparr>bm_pages := pgs\<rparr>)"
proof -
  have "inv C (s\<lparr>bm_pages := pgs\<rparr>) \<and> page_view contents (s\<lparr>bm_pages := pgs\<rparr>) = page_view contents s"
    by (rule inv_fields[OF assms(1)]) (use assms in \<open>simp_all add: pool_inv_def\<close>)
  then show ?thesis using assms by (simp add: shifts_def same_core_def frame_kept_def)
qed

lemma shifts_led:
  assumes "inv C s" "bm_pages s p = Some pc" "shifts C (led p pc a s) C' u" "faults_idle u"
  shows "shifts C s C' u"
proof -
  note L = led_ok[OF assms(1,2), of a]
  have "map_option pc_swip \<circ> bm_pages (led p pc a s) = map_option pc_swip \<circ> bm_pages s" by (rule ext) (simp add: L(4))
  moreover have "frame_kept (led p pc a s) u j = frame_kept s u j" for j by (simp add: frame_kept_def L(5))
  moreover have "same_core (led p pc a s) u = same_core s u" by (simp add: same_core_def led_def)
  ultimately show ?thesis using assms(3,4) L(2,5) by (simp add: shifts_def)
qed

lemma prefetch_fault_ok:
  assumes inv: "inv C s" and idle: "faults_idle s" and pg: "map_option pc_swip (bm_pages s (pt_pid task)) = Some (pt_swip task)"
    and t: "bm_prefetch_running s = Some t" "pt_checkout t = Some i" "i \<in> C"
  obtains r s' C' where "prefetch_fault E task s = (r, s')" "(\<exists>k. r = oOk k) \<or> (\<exists>e. r = oErr e)" "shifts C s C' s'"
    "bm_prefetch_queue s' = bm_prefetch_queue s" "bm_prefetch_in_flight s' = bm_prefetch_in_flight s" "bm_prefetch_pending s' = bm_prefetch_pending s"
    "C' = C \<and> bm_prefetch_running s' = Some t \<or> C' = C - {i} \<and> bm_prefetch_running s' = Some (t\<lparr>pt_checkout := None\<rparr>)"
proof (cases "bm_stopping s")
  case True
  then have "prefetch_fault E task s = (oErr ShuttingDown, s)" by (simp add: prefetch_fault_def coordinated_def op_seq_def op_bind_def ensure_running_def)
  then show ?thesis using that[of "oErr ShuttingDown" s C] shifts_refl[OF inv] t by simp
next
  case False
  let ?p = "pt_pid task" and ?h = "pt_swip task"
  obtain pc where pc: "bm_pages s ?p = Some pc" "pc_swip pc = ?h" using pg by auto
  let ?a = "Some \<lparr>af_generation = fs_next_generation (pc_fault pc), af_waiters = 0\<rparr>"
  let ?l = "led ?p pc ?a s"
  note L = led_ok[OF inv pc(1), of ?a]
  have tl: "bm_prefetch_running ?l = Some t" "bm_prefetch_queue ?l = bm_prefetch_queue s" "bm_prefetch_in_flight ?l = bm_prefetch_in_flight s"
    "bm_prefetch_pending ?l = bm_prefetch_pending s" using t by (simp_all add: led_def)
  obtain r s' C' where P: "perform_prefetch_fault E ?h ?p ?l = (r, s')" "(\<exists>k. r = oOk k) \<or> (\<exists>e. r = oErr e)" "shifts C ?l C' s'" "bm_pages s' = bm_pages ?l"
    "bm_prefetch_queue s' = bm_prefetch_queue s" "bm_prefetch_in_flight s' = bm_prefetch_in_flight s" "bm_prefetch_pending s' = bm_prefetch_pending s"
    "C' = C \<and> bm_prefetch_running s' = Some t \<or> C' = C - {i} \<and> bm_prefetch_running s' = Some (t\<lparr>pt_checkout := None\<rparr>)"
    using perform_prefetch_fault_ok[OF L(1) _ tl(1) t(2,3), of ?p ?h] L(4)[of ?p] pg unfolding tl by auto
  let ?s = "s'\<lparr>bm_pages := bm_pages (led ?p pc None s)\<rparr>"
  have "coordinated ?h ?p (perform_prefetch_fault E ?h ?p) s = (r, ?s)"
    using False pc idle P by (intro coordinated_eq) (auto simp: faults_idle_def)
  then have run: "prefetch_fault E task s = (case r of oOk k \<Rightarrow> oOk (k \<noteq> None) | oErr e \<Rightarrow> oErr e | oPanic m \<Rightarrow> oPanic m | oBlocks \<Rightarrow> oBlocks, ?s)"
    by (simp add: prefetch_fault_def op_bind_def op_return_def split: outcome.split)
  have eq: "led ?p pc ?a s = s\<lparr>bm_pages := bm_pages ?l\<rparr>" by (simp add: led_def)
  have idle': "faults_idle ?s" using idle pc by (auto simp: faults_idle_def led_def)
  have pgs: "map_option pc_swip \<circ> bm_pages ?s = map_option pc_swip \<circ> bm_pages s'" using P(4) by (auto simp: led_def fun_eq_iff)
  have I: "inv C' s'" using P(3) by (simp add: shifts_def)
  have "shifts C' s' C' ?s" using pgs idle' by (intro shifts_relabel[OF I]) simp_all
  from shifts_trans[OF L(1) P(3) this] have "shifts C ?l C' ?s" .
  then have "shifts C s C' ?s" by (rule shifts_led[OF inv pc(1)]) (rule idle')
  then show ?thesis using that[OF run] P(2,5-8) by (auto split: outcome.splits)
qed

lemma finish_task_ok:
  assumes inv: "inv C s" and t: "bm_prefetch_running s = Some t" "0 < bm_prefetch_in_flight s"
    and co: "\<And>i. pt_checkout t = Some i \<Longrightarrow> i \<in> C"
  obtains s' where "finish_task E s = (oOk (), s')" "shifts C s (C - set_option (pt_checkout t)) s'" "bm_prefetch_running s' = None"
    "bm_prefetch_queue s' = bm_prefetch_queue s" "bm_prefetch_in_flight s' = bm_prefetch_in_flight s - 1"
    "bm_prefetch_pending s' = bm_prefetch_pending s - {pt_pid t}"
proof -
  let ?s1 = "s\<lparr>bm_prefetch_running := None\<rparr>"
  define s2 where "s2 = (case pt_checkout t of None \<Rightarrow> ?s1 | Some i \<Rightarrow> unpinned_drop i ?s1)"
  let ?s' = "s2\<lparr>bm_prefetch_pending := bm_prefetch_pending s2 - {pt_pid t}, bm_prefetch_in_flight := bm_prefetch_in_flight s2 - 1\<rparr>"
  have 1: "shifts C s C ?s1" by (rule shifts_idle[OF inv]) simp_all
  then have inv1: "inv C ?s1" by (simp add: shifts_def)
  have "shifts C ?s1 (C - set_option (pt_checkout t)) s2 \<and> same_session ?s1 s2"
  proof (cases "pt_checkout t")
    case None
    then show ?thesis using shifts_refl[OF inv1] by (simp add: s2_def)
  next
    case (Some i)
    then show ?thesis using shifts_return[OF inv1 co[OF Some]] free_frame_drop_ok(7)[OF inv1 co[OF Some]] by (simp add: s2_def)
  qed
  then have 2: "shifts C ?s1 (C - set_option (pt_checkout t)) s2" "same_session ?s1 s2" by simp_all
  have inv2: "inv (C - set_option (pt_checkout t)) s2" using 2(1) by (simp add: shifts_def)
  have 3: "shifts (C - set_option (pt_checkout t)) s2 (C - set_option (pt_checkout t)) ?s'" by (rule shifts_idle[OF inv2]) simp_all
  have "(case pt_checkout t of None \<Rightarrow> op_return () | Some index \<Rightarrow> owned_frame_drop E True index) ?s1 = (oOk (), s2)"
    using free_frame_drop_ok(2)[OF inv1] co by (simp add: s2_def op_return_def split: option.splits)
  then have "finish_task E s = (oOk (), ?s')"
    using t 2(2) by (simp add: finish_task_def task_drop_def op_seq_def op_bind_def op_modify_def op_get_def reservation_drop_def Let_def same_session_def)
  then show ?thesis using that[of ?s'] shifts_trans[OF inv shifts_trans[OF inv 1 2(1)] 3] 2(2) by (simp add: same_session_def s2_def)
qed

end

section \<open>The prefetch queue\<close>

text \<open>
  Every queued task owns one of the checked-out frames \<open>C\<close> and the reservation of its page; no
  worker is in the middle of a task.
\<close>

definition prefetch_ok :: "nat set \<Rightarrow> ('q, 't, 'p) manager \<Rightarrow> bool" where
  "prefetch_ok C s \<longleftrightarrow> bm_prefetch_running s = None
     \<and> (\<forall>t \<in> set (bm_prefetch_queue s). pt_checkout t \<noteq> None \<and> map_option pc_swip (bm_pages s (pt_pid t)) = Some (pt_swip t))
     \<and> distinct (map (\<lambda>t. the (pt_checkout t)) (bm_prefetch_queue s)) \<and> C = set (map (\<lambda>t. the (pt_checkout t)) (bm_prefetch_queue s))
     \<and> distinct (map pt_pid (bm_prefetch_queue s)) \<and> bm_prefetch_pending s = set (map pt_pid (bm_prefetch_queue s))
     \<and> bm_prefetch_in_flight s = length (bm_prefetch_queue s) \<and> length (bm_prefetch_queue s) \<le> MAX_PREFETCH_IN_FLIGHT"

lemma prefetch_ok_same:
  assumes "prefetch_ok C s" "bm_prefetch_queue s' = bm_prefetch_queue s" "bm_prefetch_running s' = bm_prefetch_running s"
    "bm_prefetch_in_flight s' = bm_prefetch_in_flight s" "bm_prefetch_pending s' = bm_prefetch_pending s"
    "\<And>p h. map_option pc_swip (bm_pages s p) = Some h \<Longrightarrow> map_option pc_swip (bm_pages s' p) = Some h"
  shows "prefetch_ok C s'"
  using assms by (auto simp: prefetch_ok_def)

context buffer_pool
begin

lemma prefetch_worker_step_ok:
  assumes inv: "inv C s" and idle: "faults_idle s" and ok: "prefetch_ok C s"
  obtains (empty) "bm_prefetch_queue s = []" "prefetch_worker_step E s = (if bm_stopping s then oOk False else oBlocks, s)"
  | (ran) t s' where "bm_prefetch_queue s = t # bm_prefetch_queue s'" "prefetch_worker_step E s = (oOk True, s')"
      "shifts C s (C - {the (pt_checkout t)}) s'" "prefetch_ok (C - {the (pt_checkout t)}) s'"
proof (cases "bm_prefetch_queue s")
  case Nil
  then show ?thesis using empty by (simp add: prefetch_worker_step_def receive_prefetch_task_def op_bind_def op_return_def)
next
  case (Cons t ts)
  obtain i where i: "pt_checkout t = Some i" using ok Cons by (auto simp: prefetch_ok_def)
  have iC: "i \<in> C" and pg: "map_option pc_swip (bm_pages s (pt_pid t)) = Some (pt_swip t)" and fl: "bm_prefetch_in_flight s = Suc (length ts)"
    and pend: "bm_prefetch_pending s - {pt_pid t} = set (map pt_pid ts)" and fr: "C - {i} = set (map (\<lambda>t. the (pt_checkout t)) ts)"
    using ok Cons i by (auto simp: prefetch_ok_def)
  let ?s2 = "s\<lparr>bm_prefetch_queue := ts, bm_prefetch_running := Some t\<rparr>"
  have 2: "shifts C s C ?s2" by (rule shifts_idle[OF inv]) simp_all
  then have inv2: "inv C ?s2" and idle2: "faults_idle ?s2" using idle by (simp_all add: shifts_def)
  obtain s3 C3 t3 where 3: "(if bm_stopping s then op_return () else op_seq (op_try (prefetch_fault E t)) (op_return ())) ?s2 = (oOk (), s3)" "shifts C ?s2 C3 s3"
    "bm_prefetch_queue s3 = ts" "bm_prefetch_in_flight s3 = bm_prefetch_in_flight s" "bm_prefetch_pending s3 = bm_prefetch_pending s"
    "bm_prefetch_running s3 = Some t3" "pt_pid t3 = pt_pid t" "\<And>j. pt_checkout t3 = Some j \<Longrightarrow> j \<in> C3" "C3 - set_option (pt_checkout t3) = C - {i}"
  proof (cases "bm_stopping s")
    case True
    then show ?thesis using that[of ?s2 C t] shifts_refl[OF inv2] i iC by (simp add: op_return_def)
  next
    case False
    obtain r s3 C3 where P: "prefetch_fault E t ?s2 = (r, s3)" "(\<exists>k. r = oOk k) \<or> (\<exists>e. r = oErr e)" "shifts C ?s2 C3 s3"
      "bm_prefetch_queue s3 = ts" "bm_prefetch_in_flight s3 = bm_prefetch_in_flight s" "bm_prefetch_pending s3 = bm_prefetch_pending s"
      "C3 = C \<and> bm_prefetch_running s3 = Some t \<or> C3 = C - {i} \<and> bm_prefetch_running s3 = Some (t\<lparr>pt_checkout := None\<rparr>)"
      using prefetch_fault_ok[OF inv2 idle2, of t t i] pg i iC by auto
    have "op_seq (op_try (prefetch_fault E t)) (op_return ()) ?s2 = (oOk (), s3)" using P(1,2) by (auto simp: op_seq_def op_bind_def op_try_def op_return_def)
    from P(7) show ?thesis
    proof
      assume "C3 = C \<and> bm_prefetch_running s3 = Some t"
      then show ?thesis using that[of s3 C3 t] P False i iC \<open>op_seq _ _ ?s2 = (oOk (), s3)\<close> by simp
    next
      assume "C3 = C - {i} \<and> bm_prefetch_running s3 = Some (t\<lparr>pt_checkout := None\<rparr>)"
      then show ?thesis using that[of s3 C3 "t\<lparr>pt_checkout := None\<rparr>"] P False \<open>op_seq _ _ ?s2 = (oOk (), s3)\<close> by simp
    qed
  qed
  have "inv C3 s3" using 3(2) by (simp add: shifts_def)
  then obtain s' where 4: "finish_task E s3 = (oOk (), s')" "shifts C3 s3 (C3 - set_option (pt_checkout t3)) s'" "bm_prefetch_running s' = None"
    "bm_prefetch_queue s' = bm_prefetch_queue s3" "bm_prefetch_in_flight s' = bm_prefetch_in_flight s3 - 1"
    "bm_prefetch_pending s' = bm_prefetch_pending s3 - {pt_pid t3}"
    using finish_task_ok[of C3 s3 t3] 3 fl by auto
  have sh: "shifts C s (C - {i}) s'" using shifts_trans[OF inv shifts_trans[OF inv 2 3(2)] 4(2)] 3(9) by simp
  have "prefetch_worker_step E s = (oOk True, s')"
    using 3(1) 4(1) Cons by (cases "bm_stopping s") (auto simp: prefetch_worker_step_def receive_prefetch_task_def op_bind_def op_seq_def op_modify_def
        op_return_def op_get_def split: prod.splits outcome.splits)
  moreover have "prefetch_ok (C - {i}) s'"
  proof -
    have "map_option pc_swip (bm_pages s' q) = map_option pc_swip (bm_pages s q)" for q using sh by (simp add: shifts_def fun_eq_iff)
    then show ?thesis using ok Cons 3 4 fl pend fr by (simp add: prefetch_ok_def)
  qed
  ultimately show ?thesis using ran[of t s'] Cons 4(4) 3(3) sh i by simp
qed

section \<open>Submitting\<close>

lemma canonical_evicted_pid_ok:
  assumes inv: "inv C s" and h: "h \<in> dom (bm_swips s)"
  obtains r where "canonical_evicted_pid h s = (oOk r, s)" "\<And>p. r = Some p \<Longrightarrow> map_option pc_swip (bm_pages s p) = Some h"
proof -
  obtain c where c: "bm_swips s h = Some c" using h by auto
  then have "swip_wf c" using pool_inv_cell[OF inv c] by (simp add: cell_inv_def)
  then obtain st where "swst s h = Some st" using c by (auto simp: swip_wf_def cell_state_def swip_load_def)
  then have l: "load_swip h s = (oOk st, s)" by (rule load_swip_ok)
  show ?thesis
  proof (cases "belongs_to c (bm_id s) \<and> st = Evicted (sw_pid c)")
    case False
    then have "canonical_evicted_pid h s = (oOk None, s)"
      using c l by (auto simp: canonical_evicted_pid_def op_bind_def op_return_def op_get_def swip_pid_of_def)
    then show ?thesis using that by blast
  next
    case True
    then have "canonical_evicted_pid h s
        = (oOk (case bm_pages s (sw_pid c) of Some pc \<Rightarrow> (if pc_swip pc = h then Some (sw_pid c) else None) | None \<Rightarrow> None), s)"
      using c l by (simp add: canonical_evicted_pid_def op_bind_def op_return_def op_get_def swip_pid_of_def)
    then show ?thesis by (rule that) (auto split: option.splits if_splits)
  qed
qed

lemma evolves_shifts:
  assumes "evolves contents s s'" "inv C' s'" "C \<subseteq> C'"
  shows "shifts C s C' s'"
proof -
  have "serves contents s s'" using assms(1) by (rule evolves_serves)
  then show ?thesis using assms(2,3) frames_kept_at[of s s'] by (auto simp: shifts_def serves_def same_session_core)
qed

lemma try_checkout_ok:
  assumes inv: "inv C s"
  obtains "try_checkout E s = (oOk None, s)"
  | i s' where "try_checkout E s = (oOk (Some i), s')" "i \<notin> C" "inv (insert i C) s'" "evolves contents s s'"
      "bm_swips s' = bm_swips s" "bm_stats s' = bm_stats s"
proof (rule pop_checkout[OF inv])
  assume "on_frames (pop_free (en_queue E)) s = (oOk None, s)"
  then show ?thesis using that(1) by (simp add: try_checkout_def op_bind_def op_return_def)
next
  fix i s1 s'
  assume p: "on_frames (pop_free (en_queue E)) s = (oOk (Some i), s1)" "free_frame_from_index i s1 = (oOk i, s')"
    "i \<notin> C" "inv (insert i C) s'" "evolves contents s s'" "bm_swips s' = bm_swips s" "bm_stats s' = bm_stats s"
  have "on_meta_bool i try_claim_eviction s1 = (oOk True, s')"
    using p(2) by (auto simp: free_frame_from_index_def op_bind_def op_return_def op_blocks_def split: prod.splits outcome.splits if_splits)
  then have "try_checkout E s = (oOk (Some i), s')" using p(1) by (simp add: try_checkout_def op_bind_def op_return_def)
  then show ?thesis using that(2) p by blast
qed

text \<open>One handle: it is skipped and the queue is as before, or one task is added.\<close>

definition submits :: "nat set \<Rightarrow> bool \<Rightarrow> ('q, 't, 'p) manager \<Rightarrow> nat set \<Rightarrow> ('q, 't, 'p) manager \<Rightarrow> bool" where
  "submits C sent s C' s' \<longleftrightarrow> shifts C s C' s' \<and> prefetch_ok C' s' \<and> bm_stats s' = bm_stats s \<and> dom (bm_swips s) \<subseteq> dom (bm_swips s')
     \<and> length (bm_prefetch_queue s') = length (bm_prefetch_queue s) + (if sent then 1 else 0)"

lemma submits_skip: "inv C s \<Longrightarrow> prefetch_ok C s \<Longrightarrow> submits C False s C s"
  by (simp add: submits_def shifts_refl)

lemma prefetch_one_ok:
  assumes inv: "inv C s" and ok: "prefetch_ok C s" and h: "h \<in> dom (bm_swips s)"
  shows "\<exists>sent seen' C' s'. prefetch_one E n seen h s = (oOk (sent, seen'), s') \<and> submits C sent s C' s'
    \<and> (sent \<longrightarrow> \<not> bm_stopping s \<and> n < word_of_nat MAX_PREFETCH_IN_FLIGHT)"
proof -
  note skip = submits_skip[OF inv ok]
  have rest: "bm_prefetch_in_flight s = length (bm_prefetch_queue s)" using ok by (simp add: prefetch_ok_def)
  obtain r where r: "canonical_evicted_pid h s = (oOk r, s)" "\<And>p. r = Some p \<Longrightarrow> map_option pc_swip (bm_pages s p) = Some h"
    using canonical_evicted_pid_ok[OF inv h] by blast
  show ?thesis
  proof (cases "bm_stopping s \<or> word_of_nat MAX_PREFETCH_IN_FLIGHT \<le> n \<or> r = None \<or> the r \<in> seen
      \<or> \<not> po_admit_to_dram (en_policy E) (bm_policy s) (the r) PrefetchHint \<or> the r \<in> bm_prefetch_pending s")
    case True
    then have "\<exists>seen'. prefetch_one E n seen h s = (oOk (False, seen'), s)"
      using r(1) by (cases r) (auto simp: prefetch_one_def op_bind_def op_return_def op_get_def)
    then show ?thesis using skip by blast
  next
    case go: False
    then obtain p where p: "r = Some p" "p \<notin> bm_prefetch_pending s" by auto
    have same: "s\<lparr>bm_prefetch_pending := insert p (bm_prefetch_pending s) - {p}\<rparr> = s" using p(2) by simp
    let ?s1 = "s\<lparr>bm_prefetch_pending := insert p (bm_prefetch_pending s), bm_prefetch_in_flight := bm_prefetch_in_flight s + 1\<rparr>"
    note run = prefetch_one_def op_bind_def op_return_def op_get_def op_seq_def op_modify_def Let_def
    show ?thesis
    proof (cases "bm_prefetch_in_flight s < MAX_PREFETCH_IN_FLIGHT")
      case False
      then have "prefetch_one E n seen h s = (oOk (False, insert p seen), s)" using go p r(1) same by (simp add: run)
      then show ?thesis using skip by blast
    next
      case room: True
      have 1: "shifts C s C ?s1" by (rule shifts_idle[OF inv]) simp_all
      then have inv1: "inv C ?s1" by (simp add: shifts_def)
      show ?thesis
      proof (rule try_checkout_ok[OF inv1])
        assume "try_checkout E ?s1 = (oOk None, ?s1)"
        then have "prefetch_one E n seen h s = (oOk (False, insert p seen), s)" using go p r(1) room same by (simp add: run reservation_drop_def)
        then show ?thesis using skip by blast
      next
        fix i s2
        assume c: "try_checkout E ?s1 = (oOk (Some i), s2)" "i \<notin> C" "inv (insert i C) s2" "evolves contents ?s1 s2"
          "bm_swips s2 = bm_swips ?s1" "bm_stats s2 = bm_stats ?s1"
        let ?t = "\<lparr>pt_pid = p, pt_swip = h, pt_checkout = Some i\<rparr>"
        let ?s3 = "s2\<lparr>bm_prefetch_queue := bm_prefetch_queue s2 @ [?t]\<rparr>"
        have q: "bm_prefetch_queue s2 = bm_prefetch_queue s" "bm_prefetch_running s2 = bm_prefetch_running s" "bm_stopping s2 = bm_stopping s \<and> bm_workers s2 = bm_workers s"
          "bm_prefetch_in_flight s2 = bm_prefetch_in_flight s + 1" "bm_prefetch_pending s2 = insert p (bm_prefetch_pending s)" "bm_pages s2 = bm_pages s"
          using c(4) by (simp_all add: evolves_def)
        have "prefetch_one E n seen h s = (oOk (True, insert p seen), ?s3)" using go p r(1) room c(1) q rest by (simp add: run try_send_def)
        moreover have "shifts C s (insert i C) ?s3"
        proof -
          have "shifts C ?s1 (insert i C) s2" using evolves_shifts[OF c(4,3)] by auto
          moreover have "shifts (insert i C) s2 (insert i C) ?s3" by (rule shifts_idle[OF c(3)]) simp_all
          ultimately show ?thesis using shifts_trans[OF inv 1] shifts_trans[OF inv] by blast
        qed
        moreover have "prefetch_ok (insert i C) ?s3"
          using ok p(2) c(2) q room rest r(2)[OF p(1)] by (auto simp: prefetch_ok_def)
        ultimately show ?thesis using c(5,6) q(1) go
          by (intro exI[of _ True] exI[of _ "insert p seen"] exI[of _ "insert i C"] exI[of _ ?s3]) (simp add: submits_def not_le)
      qed
    qed
  qed
qed

text \<open>A whole call: every handle is either submitted or skipped.\<close>

lemma prefetch_loop_ok:
  assumes "inv C s" "prefetch_ok C s" "set hs \<subseteq> dom (bm_swips s)" "unat n + length hs < 2 ^ 64" "unat m + length hs < 2 ^ 64"
  shows "\<exists>n' m' C' s'. prefetch_loop E hs n m seen s = (oOk (n', m'), s') \<and> shifts C s C' s' \<and> prefetch_ok C' s' \<and> bm_stats s' = bm_stats s
    \<and> unat n' + unat m' = unat n + unat m + length hs \<and> length (bm_prefetch_queue s') + unat n = length (bm_prefetch_queue s) + unat n'"
  using assms
proof (induction hs arbitrary: s C n m seen)
  case Nil
  then show ?case using shifts_refl[OF Nil.prems(1)] by (auto simp: op_return_def)
next
  case (Cons h hs)
  obtain sent seen' C1 s1 where 1: "prefetch_one E n seen h s = (oOk (sent, seen'), s1)" "submits C sent s C1 s1"
    using prefetch_one_ok[OF Cons.prems(1,2), of h n seen] Cons.prems(3) by auto
  have S: "shifts C s C1 s1" "inv C1 s1" "prefetch_ok C1 s1" "bm_stats s1 = bm_stats s" "set hs \<subseteq> dom (bm_swips s1)"
    "length (bm_prefetch_queue s1) = length (bm_prefetch_queue s) + (if sent then 1 else 0)"
  proof -
    show "shifts C s C1 s1" "prefetch_ok C1 s1" "bm_stats s1 = bm_stats s"
      "length (bm_prefetch_queue s1) = length (bm_prefetch_queue s) + (if sent then 1 else 0)" using 1(2) by (simp_all add: submits_def)
    then show "inv C1 s1" by (simp add: shifts_def)
    have "dom (bm_swips s) \<subseteq> dom (bm_swips s1)" using 1(2) by (simp add: submits_def)
    then show "set hs \<subseteq> dom (bm_swips s1)" using Cons.prems(3) by (meson set_subset_Cons subset_trans)
  qed
  have inc: "unat (saturating_add k 1) = unat k + 1" if "unat k + length (h # hs) < 2 ^ 64" for k :: u64
    using that by (simp add: unat_saturating_add)
  let ?n = "if sent then saturating_add n 1 else n" and ?m = "if sent then m else saturating_add m 1"
  have b: "unat ?n + length hs < 2 ^ 64" "unat ?m + length hs < 2 ^ 64" using Cons.prems(4,5) inc[OF Cons.prems(4)] inc[OF Cons.prems(5)] by auto
  obtain n' m' C' s' where 2: "prefetch_loop E hs ?n ?m seen' s1 = (oOk (n', m'), s')" "shifts C1 s1 C' s'" "prefetch_ok C' s'" "bm_stats s' = bm_stats s1"
    "unat n' + unat m' = unat ?n + unat ?m + length hs" "length (bm_prefetch_queue s') + unat ?n = length (bm_prefetch_queue s1) + unat n'"
    using Cons.IH[OF S(2,3,5) b] by blast
  have "prefetch_loop E (h # hs) n m seen s = (oOk (n', m'), s')" using 1(1) 2(1) by (simp add: op_bind_def split: if_splits)
  moreover have "unat n' + unat m' = unat n + unat m + length (h # hs)" using 2(5) inc[OF Cons.prems(4)] inc[OF Cons.prems(5)] by (simp split: if_splits)
  moreover have "length (bm_prefetch_queue s') + unat n = length (bm_prefetch_queue s) + unat n'" using 2(6) S(6) inc[OF Cons.prems(4)] by (simp split: if_splits)
  ultimately show ?case using shifts_trans[OF Cons.prems(1) S(1) 2(2)] 2(3,4) S(4) by auto
qed

lemma prefetch_call_ok:
  assumes inv: "inv C s" and ok: "prefetch_ok C s" and hs: "set hs \<subseteq> dom (bm_swips s)" "length hs < 2 ^ 64"
  obtains n m C' s' where "prefetch E hs s = (oOk (), s')" "shifts C s C' s'" "prefetch_ok C' s'" "unat n + unat m = length hs"
    "bm_stats s' = record_prefetch_skipped m (record_prefetch_submitted n (bm_stats s))"
    "length (bm_prefetch_queue s') = length (bm_prefetch_queue s) + unat n"
proof -
  obtain n m C' s' where L: "prefetch_loop E hs 0 0 {} s = (oOk (n, m), s')" "shifts C s C' s'" "prefetch_ok C' s'" "bm_stats s' = bm_stats s"
    "unat n + unat m = length hs" "length (bm_prefetch_queue s') = length (bm_prefetch_queue s) + unat n"
    using prefetch_loop_ok[OF inv ok hs(1), of 0 0 "{}"] hs(2) by auto
  let ?s' = "s'\<lparr>bm_stats := record_prefetch_skipped m (record_prefetch_submitted n (bm_stats s))\<rparr>"
  have i: "inv C' s'" using L(2) by (simp add: shifts_def)
  have 1: "shifts C' s' C' ?s'" by (rule shifts_idle[OF i]) (simp_all add: record_defs L(4))
  have "prefetch E hs s = (oOk (), ?s')" using L(1,4) by (simp add: prefetch_def op_bind_def op_seq_def bump_eq)
  moreover have "prefetch_ok C' ?s'" using L(3) by (rule prefetch_ok_same) simp_all
  ultimately show ?thesis using that[of ?s' C' n m] shifts_trans[OF inv L(2) 1] L(5,6) by simp
qed

text \<open>Joining: the workers empty the queue, and no frame stays checked out.\<close>

lemma drain_prefetch_ok:
  assumes "inv C s" "faults_idle s" "prefetch_ok C s" "n = length (bm_prefetch_queue s)"
  shows "\<exists>s'. drain_prefetch E n s = (oOk (), s') \<and> shifts C s {} s' \<and> prefetch_ok {} s' \<and> bm_prefetch_queue s' = []"
  using assms
proof (induction n arbitrary: s C)
  case 0
  then have "C = {}" by (auto simp: prefetch_ok_def)
  then show ?case using 0 shifts_refl[OF 0(1)] by (simp add: op_return_def)
next
  case (Suc n)
  obtain t s1 where R: "bm_prefetch_queue s = t # bm_prefetch_queue s1" "prefetch_worker_step E s = (oOk True, s1)"
    "shifts C s (C - {the (pt_checkout t)}) s1" "prefetch_ok (C - {the (pt_checkout t)}) s1"
    using prefetch_worker_step_ok[OF Suc.prems(1-3)] Suc.prems(4) by (metis length_0_conv nat.distinct(1))
  have 1: "inv (C - {the (pt_checkout t)}) s1" "faults_idle s1" "n = length (bm_prefetch_queue s1)"
    using R Suc.prems(2,4) by (simp_all add: shifts_def)
  obtain s' where "drain_prefetch E n s1 = (oOk (), s')" "shifts (C - {the (pt_checkout t)}) s1 {} s'" "prefetch_ok {} s'" "bm_prefetch_queue s' = []"
    using Suc.IH[OF 1(1,2) R(4) 1(3)] by blast
  then show ?case using R(2) shifts_trans[OF Suc.prems(1) R(3)] by (auto simp: op_seq_def op_bind_def)
qed

section \<open>The epoch thread\<close>

text \<open>A tick leaves the pages, the frames and the handles alone; it panics at most in the cost accounting.\<close>

lemma count_resident_ok:
  assumes "inv C s" "set is \<subseteq> {..<fcount s}"
  shows "\<exists>n. count_resident is s = (oOk n, s) \<and> n \<le> length is"
  using assms(2)
proof (induction "is")
  case Nil
  then show ?case by (simp add: op_return_def)
next
  case (Cons i "is")
  then obtain n where "count_resident is s = (oOk n, s)" "n \<le> length is" by auto
  then show ?case using Cons.prems frame_pid_of_ok[OF pool_inv_meta[OF assms(1)], of i] by (simp add: op_bind_def op_return_def)
qed

lemma tick_budget_ok: "tok t \<Longrightarrow> tok (tick_budget E elapsed t) \<and> contents (tick_budget E elapsed t) = contents t"
  using tiers.budget_law by (simp add: tick_budget_def split: option.splits)

lemma residency_tick_returns: "\<exists>r c'. residency_tick elapsed used xs c = (r, c') \<and> (r = oOk () \<or> (\<exists>m. r = oPanic m))"
proof -
  let ?secs = "as_secs_f64 elapsed" and ?g = "gib_seconds used (as_secs_f64 elapsed)"
  let ?c = "c\<lparr>rc_dram := accumulate ?g (rc_dram_price_gib_month c) (rc_dram c)\<rparr>"
  obtain r c1 where r: "tick_samples ?secs xs ?g ?c = (r, c1)" "(\<exists>v. r = oOk v) \<or> (\<exists>m. r = oPanic m)"
    using tick_samples_ok[of xs ?secs ?g ?c] tick_samples_invalid[of xs ?secs ?g ?c] by metis
  then show ?thesis by (auto simp: residency_tick_def Let_def op_bind_def op_return_def op_modify_def)
qed

lemma tick_epoch_ok:
  assumes inv: "inv C s"
  obtains r s' where "tick_epoch E elapsed s = (r, s')" "inv C s'" "serves contents s s'" "r = oOk () \<or> (\<exists>m. r = oPanic m)"
proof -
  let ?ts = "map (tick_budget E elapsed) (bm_tiers s)"
  let ?s1 = "s\<lparr>bm_fault_ins_this_epoch := 0, bm_policy := po_on_epoch (en_policy E) (bm_policy s), bm_tiers := ?ts\<rparr>"
  have ok: "\<forall>t \<in> set (bm_tiers s). tok t" "length (st_tiers (bm_stats s)) = length (bm_tiers s)" using inv by (simp_all add: pool_inv_def)
  have st: "stored contents ?ts = stored contents (bm_tiers s)" using ok(1) tick_budget_ok by (auto simp: stored_def fun_eq_iff)
  have keep: "inv C (?s1\<lparr>bm_residency_cost := c\<rparr>) \<and> serves contents s (?s1\<lparr>bm_residency_cost := c\<rparr>)" for c
  proof -
    have "inv C (?s1\<lparr>bm_residency_cost := c\<rparr>) \<and> page_view contents (?s1\<lparr>bm_residency_cost := c\<rparr>) = page_view contents s"
      by (rule inv_fields[OF inv]) (use ok st tick_budget_ok in auto)
    then show ?thesis by (simp add: serves_def same_session_def faults_idle_def frames_kept_def)
  qed
  have i1: "inv C ?s1" using keep[of "bm_residency_cost s"] by simp
  obtain n where n: "count_resident [0..<fcount s] ?s1 = (oOk n, ?s1)" using count_resident_ok[OF i1, of "[0..<fcount s]"] by (auto simp: atLeast0LessThan)
  show ?thesis
  proof (cases "checked_mul_u64 n PAGE_SIZE")
    case None
    then show ?thesis using that[of _ ?s1] n keep[of "bm_residency_cost s"]
      by (simp add: tick_epoch_def op_seq_def op_bind_def op_modify_def op_get_def op_panic_def)
  next
    case (Some used)
    obtain r c' where "residency_tick elapsed used (map (\<lambda>tier. \<lparr>rs_name = tb_name (en_tier E) tier, rs_used_bytes = tb_used_bytes (en_tier E) tier,
        rs_price_gib_month = tb_price_gb_month (en_tier E) tier\<rparr>) ?ts) (bm_residency_cost s) = (r, c')" "r = oOk () \<or> (\<exists>m. r = oPanic m)"
      using residency_tick_returns by blast
    then show ?thesis using that[of r "?s1\<lparr>bm_residency_cost := c'\<rparr>"] n Some keep[of c']
      by (simp add: tick_epoch_def op_seq_def op_bind_def op_modify_def op_get_def op_lift_def)
  qed
qed

end

end
