(* ===== verification/Pool_Refinement.thy ===== *)
theory Pool_Refinement
  imports Pool_Client Pool_Prefetch "HOL-Library.Multiset"
begin

text \<open>
  The buffer manager with the guards its clients hold, as a labelled transition system over the
  operations of src/crates/tierbuf/src/pool.rs, and its refinement of an abstract store: a map from
  page identifiers to contents, with shared and exclusive holds.  Each operation runs to completion;
  guards stay outstanding across any number of other operations.
\<close>

section \<open>Guards that are outstanding\<close>

datatype guard = SharedGuard shared_guard | ExclusiveGuard exclusive_guard

fun guard_index :: "guard \<Rightarrow> nat" where
  "guard_index (SharedGuard g) = sg_index g" | "guard_index (ExclusiveGuard g) = eg_index g"

fun guard_pid :: "guard \<Rightarrow> page_id" where
  "guard_pid (SharedGuard g) = sg_pid g" | "guard_pid (ExclusiveGuard g) = eg_pid g"

fun guard_swip :: "guard \<Rightarrow> handle" where
  "guard_swip (SharedGuard g) = sg_swip g" | "guard_swip (ExclusiveGuard g) = eg_swip g"

fun is_exclusive :: "guard \<Rightarrow> bool" where
  "is_exclusive (SharedGuard g) = False" | "is_exclusive (ExclusiveGuard g) = True"

abbreviation guards_at :: "nat \<Rightarrow> guard multiset \<Rightarrow> guard multiset" where
  "guards_at i G \<equiv> filter_mset (\<lambda>g. guard_index g = i) G"

text \<open>The latch state that a set of guards accounts for.\<close>

definition latched :: "guard multiset \<Rightarrow> u16 \<Rightarrow> bool" where
  "latched M w \<longleftrightarrow> (\<exists>g. M = {#ExclusiveGuard g#} \<and> w = EXCLUSIVE_STATE)
     \<or> (\<forall>g \<in># M. \<not> is_exclusive g) \<and> unat w = size M \<and> w \<le> MAX_SHARED"

definition accounted :: "guard multiset \<Rightarrow> ('q, 't, 'p) manager \<Rightarrow> nat \<Rightarrow> bool" where
  "accounted G s i \<longleftrightarrow> unat (fr_pin_control (fr s i)) = size (guards_at i G) \<and> latched (guards_at i G) (latch_state (fr_latch (fr s i)))"

definition guard_held :: "('q, 't, 'p) manager \<Rightarrow> guard \<Rightarrow> bool" where
  "guard_held s g \<longleftrightarrow> guard_index g < fcount s \<and> held s (guard_index g) (guard_pid g) (guard_swip g)"

definition guards_ok :: "nat set \<Rightarrow> guard multiset \<Rightarrow> ('q, 't, 'p) manager \<Rightarrow> bool" where
  "guards_ok C G s \<longleftrightarrow> (\<forall>g \<in># G. guard_held s g) \<and> (\<forall>i < fcount s. i \<notin> C \<longrightarrow> accounted G s i)"

lemma latched_empty [simp]: "latched {#} w \<longleftrightarrow> w = 0"
  by (auto simp: latched_def unat_eq_zero)

lemma exclusive_not_MAX: "\<not> EXCLUSIVE_STATE \<le> MAX_SHARED" "\<not> EXCLUSIVE_STATE < MAX_SHARED"
  by (simp_all add: word_le_nat_alt word_less_nat_alt unat_EXCLUSIVE_STATE unat_MAX_SHARED)

lemma latched_add_shared:
  assumes "latched M w" "w < MAX_SHARED" "unat w' = unat w + 1"
  shows "latched (add_mset (SharedGuard g) M) w'"
  using assms exclusive_not_MAX by (auto simp: latched_def word_le_nat_alt word_less_nat_alt)

lemma latched_zero: "latched M 0 \<Longrightarrow> M = {#}"
  by (auto simp: latched_def EXCLUSIVE_STATE_def)

lemma latched_exclusive:
  assumes "latched M w" "ExclusiveGuard g \<in># M"
  shows "M = {#ExclusiveGuard g#}" "w = EXCLUSIVE_STATE"
  using assms by (fastforce simp: latched_def)+

lemma latched_shared:
  assumes "latched M w" "SharedGuard g \<in># M"
  shows "1 \<le> w" "w \<le> MAX_SHARED" "unat w = size M" "\<forall>g \<in># M. \<not> is_exclusive g"
proof -
  show s: "w \<le> MAX_SHARED" "unat w = size M" "\<forall>g \<in># M. \<not> is_exclusive g" using assms by (auto simp: latched_def)
  have "0 < size M" using assms(2) nonempty_has_size by fastforce
  then show "1 \<le> w" using s(2) by (simp add: word_le_nat_alt)
qed

section \<open>The abstract store\<close>

record store =
  st_pages :: "page_id \<Rightarrow> page option"
  st_holds :: "(page_id \<times> bool) multiset"

datatype event =
  Allocated page_id
| HoldShared page_id
| HoldExclusive page_id
| ReadPage page_id page
| PeekPage page_id page
| WritePage page_id "page \<Rightarrow> page"
| Released page_id bool
| Silent

text \<open>A hold is a page with whether it is exclusive.\<close>

inductive store_step :: "store \<Rightarrow> event \<Rightarrow> store \<Rightarrow> bool" where
  store_allocate: "st_pages m p = None \<Longrightarrow>
     store_step m (Allocated p) (m\<lparr>st_pages := (st_pages m)(p \<mapsto> zero_page), st_holds := add_mset (p, True) (st_holds m)\<rparr>)"
| store_shared: "st_pages m p = Some d \<Longrightarrow> (p, True) \<notin># st_holds m \<Longrightarrow>
     store_step m (HoldShared p) (m\<lparr>st_holds := add_mset (p, False) (st_holds m)\<rparr>)"
| store_exclusive: "st_pages m p = Some d \<Longrightarrow> (p, True) \<notin># st_holds m \<Longrightarrow> (p, False) \<notin># st_holds m \<Longrightarrow>
     store_step m (HoldExclusive p) (m\<lparr>st_holds := add_mset (p, True) (st_holds m)\<rparr>)"
| store_read: "(p, x) \<in># st_holds m \<Longrightarrow> st_pages m p = Some d \<Longrightarrow> store_step m (ReadPage p d) m"
| store_peek: "st_pages m p = Some d \<Longrightarrow> (p, True) \<notin># st_holds m \<Longrightarrow> store_step m (PeekPage p d) m"
| store_write: "(p, True) \<in># st_holds m \<Longrightarrow> st_pages m p = Some d \<Longrightarrow>
     store_step m (WritePage p w) (m\<lparr>st_pages := (st_pages m)(p \<mapsto> w d)\<rparr>)"
| store_release: "(p, x) \<in># st_holds m \<Longrightarrow> store_step m (Released p x) (m\<lparr>st_holds := st_holds m - {#(p, x)#}\<rparr>)"
| store_silent: "store_step m Silent m"

inductive_simps store_hold: "store_step m (HoldShared p) m'"
inductive_simps store_get: "store_step m (ReadPage p d) m'"
inductive_simps store_look: "store_step m (PeekPage p d) m'"
inductive_simps store_put_back: "store_step m (Released p x) m'"

inductive store_run :: "store \<Rightarrow> event list \<Rightarrow> store \<Rightarrow> bool" where
  store_done: "store_run m [] m"
| store_more: "store_run m es m' \<Longrightarrow> store_step m' e m'' \<Longrightarrow> store_run m (es @ [e]) m''"

section \<open>The buffer manager with its clients\<close>

text \<open>
  An event of a client is an operation that has returned; \<open>Silent\<close> is a round of the cooler, an
  eviction, a prefetch call, a round of a prefetch worker, or an operation that returned an error.  Two rounds of the loop of a fix are enough.
\<close>

definition keeps_length :: "(page \<Rightarrow> page) \<Rightarrow> bool" where
  "keeps_length w \<longleftrightarrow> (\<forall>d. length d = PAGE_SIZE \<longrightarrow> length (w d) = PAGE_SIZE)"

inductive pool_step :: "('q, 't, 'p) env \<Rightarrow> ('q, 't, 'p) manager \<times> guard multiset \<Rightarrow> event \<Rightarrow> ('q, 't, 'p) manager \<times> guard multiset \<Rightarrow> bool"
  for E :: "('q, 't, 'p) env" where
  do_allocate: "allocate E s = (oOk g, s') \<Longrightarrow> pool_step E (s, G) (Allocated (eg_pid g)) (s', add_mset (ExclusiveGuard g) G)"
| do_fix_shared: "fix_shared_with E fuel h hint s = (oOk g, s') \<Longrightarrow> 2 \<le> fuel \<Longrightarrow> h \<in> dom (bm_swips s) \<Longrightarrow>
     pool_step E (s, G) (HoldShared (sg_pid g)) (s', add_mset (SharedGuard g) G)"
| do_fix_exclusive: "fix_exclusive E fuel h s = (oOk g, s') \<Longrightarrow> 2 \<le> fuel \<Longrightarrow> h \<in> dom (bm_swips s) \<Longrightarrow>
     pool_step E (s, G) (HoldExclusive (eg_pid g)) (s', add_mset (ExclusiveGuard g) G)"
| do_read_shared: "SharedGuard g \<in># G \<Longrightarrow> shared_read_with g (\<lambda>d. d) s = (oOk d, s') \<Longrightarrow> pool_step E (s, G) (ReadPage (sg_pid g) d) (s', G)"
| do_read_exclusive: "ExclusiveGuard g \<in># G \<Longrightarrow> exclusive_read_with g (\<lambda>d. d) s = (oOk d, s') \<Longrightarrow> pool_step E (s, G) (ReadPage (eg_pid g) d) (s', G)"
| do_optimistic: "fix_optimistic E fuel h s = (oOk g, s') \<Longrightarrow> 2 \<le> fuel \<Longrightarrow> h \<in> dom (bm_swips s) \<Longrightarrow>
     pool_step E (s, G) (PeekPage (og_pid g) (og_snapshot g)) (s', G)"
| do_write: "ExclusiveGuard g \<in># G \<Longrightarrow> keeps_length w \<Longrightarrow> exclusive_write_with g (\<lambda>d. ((), w d)) s = (oOk (), s') \<Longrightarrow>
     pool_step E (s, G) (WritePage (eg_pid g) w) (s', G)"
| do_drop_shared: "SharedGuard g \<in># G \<Longrightarrow> shared_guard_drop g s = (oOk (), s') \<Longrightarrow>
     pool_step E (s, G) (Released (sg_pid g) False) (s', G - {#SharedGuard g#})"
| do_drop_exclusive: "ExclusiveGuard g \<in># G \<Longrightarrow> exclusive_guard_drop g s = (oOk (), s') \<Longrightarrow>
     pool_step E (s, G) (Released (eg_pid g) True) (s', G - {#ExclusiveGuard g#})"
| do_cool: "background_cooling_step E s = (oOk (), s') \<Longrightarrow> pool_step E (s, G) Silent (s', G)"
| do_evict: "evict_ticket E t s = (r, s') \<Longrightarrow> (\<exists>x. r = oOk x) \<or> (\<exists>e. r = oErr e) \<Longrightarrow> pool_step E (s, G) Silent (s', G)"
| do_prefetch: "prefetch E hs s = (oOk (), s') \<Longrightarrow> set hs \<subseteq> dom (bm_swips s) \<Longrightarrow> length hs < 2 ^ 64 \<Longrightarrow> pool_step E (s, G) Silent (s', G)"
| do_prefetch_worker: "prefetch_worker_step E s = (oOk b, s') \<Longrightarrow> pool_step E (s, G) Silent (s', G)"
| do_epoch: "tick_epoch E elapsed s = (oOk (), s') \<Longrightarrow> pool_step E (s, G) Silent (s', G)"
| do_allocate_failed: "allocate E s = (oErr e, s') \<Longrightarrow> pool_step E (s, G) Silent (s', G)"
| do_fix_shared_failed: "fix_shared_with E fuel h hint s = (oErr e, s') \<Longrightarrow> 2 \<le> fuel \<Longrightarrow> h \<in> dom (bm_swips s) \<Longrightarrow> pool_step E (s, G) Silent (s', G)"
| do_fix_exclusive_failed: "fix_exclusive E fuel h s = (oErr e, s') \<Longrightarrow> 2 \<le> fuel \<Longrightarrow> h \<in> dom (bm_swips s) \<Longrightarrow> pool_step E (s, G) Silent (s', G)"

inductive pool_run :: "('q, 't, 'p) env \<Rightarrow> ('q, 't, 'p) manager \<times> guard multiset \<Rightarrow> event list \<Rightarrow> ('q, 't, 'p) manager \<times> guard multiset \<Rightarrow> bool"
  for E :: "('q, 't, 'p) env" where
  run_done: "pool_run E x [] x"
| run_more: "pool_run E x es y \<Longrightarrow> pool_step E y e z \<Longrightarrow> pool_run E x (es @ [e]) z"

definition abs_store :: "('t \<Rightarrow> nat \<Rightarrow> page option) \<Rightarrow> ('q, 't, 'p) manager \<times> guard multiset \<Rightarrow> store" where
  "abs_store contents x = \<lparr>st_pages = page_view contents (fst x), st_holds = image_mset (\<lambda>g. (guard_pid g, is_exclusive g)) (snd x)\<rparr>"

section \<open>Accounting for pins and latches\<close>

definition client_inv :: "('q \<Rightarrow> nat list) \<Rightarrow> ('q \<Rightarrow> nat) \<Rightarrow> ('t \<Rightarrow> nat \<Rightarrow> page option) \<Rightarrow> ('t \<Rightarrow> bool) \<Rightarrow> nat set \<Rightarrow>
    ('q, 't, 'p) manager \<times> guard multiset \<Rightarrow> bool" where
  "client_inv elems cap contents tok C x \<longleftrightarrow>
     pool_inv elems cap contents tok C (fst x) \<and> faults_idle (fst x) \<and> prefetch_ok C (fst x) \<and> guards_ok C (snd x) (fst x)
     \<and> (live_prefetch_worker (bm_workers (fst x)) \<or> bm_stopping (fst x))"

context buffer_pool
begin

abbreviation cinv :: "nat set \<Rightarrow> ('q, 't, 'p) manager \<times> guard multiset \<Rightarrow> bool" where
  "cinv \<equiv> client_inv elems cap contents tok"

lemma accounted_kept:
  assumes "inv C s'" "i < fcount s'" "i \<notin> C" "frame_kept s s' i" "accounted G s i"
  shows "accounted G s' i"
proof (cases "fr_pin_control (fr s i) = 0")
  case True
  then have e: "guards_at i G = {#}" using assms(5) by (simp add: accounted_def)
  moreover have "fr_pin_control (fr s' i) = 0" using assms(4) True not_evicting[OF assms(1-3)] by (auto simp: frame_kept_def)
  ultimately show ?thesis using unpinned_unlatched[OF assms(1-3)] unfolding accounted_def e by simp
next
  case False
  then show ?thesis using assms(4,5) by (simp add: frame_kept_def accounted_def)
qed

lemma guard_held_kept:
  assumes "inv C s'" "guard_held s g" "fcount s' = fcount s"
    "fr_pid (fr s' (guard_index g)) = fr_pid (fr s (guard_index g))" "fr_owner_swip (fr s' (guard_index g)) = fr_owner_swip (fr s (guard_index g))"
  shows "guard_held s' g"
  using assms frame_holder[OF assms(1), of "guard_index g"] by (auto simp: guard_held_def held_def)

lemma guard_pinned:
  assumes "inv C s" "guards_ok C G s" "g \<in># G"
  shows "guard_index g < fcount s" "guard_index g \<notin> C" "held s (guard_index g) (guard_pid g) (guard_swip g)" "accounted G s (guard_index g)"
    "g \<in># guards_at (guard_index g) G" "0 < unat (fr_pin_control (fr s (guard_index g)))" "unat (fr_pin_control (fr s (guard_index g))) < 2 ^ 31"
proof -
  show h: "guard_index g < fcount s" "held s (guard_index g) (guard_pid g) (guard_swip g)" using assms(2,3) by (auto simp: guards_ok_def guard_held_def)
  note occ = held_occupied[OF assms(1) h]
  show "guard_index g \<notin> C" "unat (fr_pin_control (fr s (guard_index g))) < 2 ^ 31" using occ by (auto simp: pin_ok_def)
  show a: "accounted G s (guard_index g)" using assms(2) h(1) occ(2) by (simp add: guards_ok_def)
  show m: "g \<in># guards_at (guard_index g) G" using assms(3) by simp
  then have "guards_at (guard_index g) G \<noteq> {#}" by (metis empty_iff set_mset_empty)
  then show "0 < unat (fr_pin_control (fr s (guard_index g)))" using a nonempty_has_size by (metis accounted_def)
qed

text \<open>Frame \<open>i\<close> gets the guards of \<open>G'\<close>, the other frames keep theirs.\<close>

lemma guards_ok_move:
  assumes inv: "inv C s" "inv C s'" and ok: "guards_ok C G s" and n: "fcount s' = fcount s"
    and kept: "\<And>j. j < fcount s \<Longrightarrow> j \<noteq> i \<Longrightarrow> frame_kept s s' j" and at: "\<And>j. j \<noteq> i \<Longrightarrow> guards_at j G' = guards_at j G"
    and i: "i < fcount s \<Longrightarrow> i \<notin> C \<Longrightarrow> accounted G' s' i" "\<And>g. g \<in># guards_at i G' \<Longrightarrow> guard_held s' g"
  shows "guards_ok C G' s'"
  unfolding guards_ok_def
proof (intro conjI ballI allI impI)
  fix g assume g: "g \<in># G'"
  show "guard_held s' g"
  proof (cases "guard_index g = i")
    case True
    then show ?thesis using i(2) g by simp
  next
    case False
    then have "g \<in># guards_at (guard_index g) G" using at[of "guard_index g"] g by (metis (mono_tags, lifting) mem_Collect_eq set_mset_filter)
    then have "g \<in># G" by simp
    note P = guard_pinned[OF inv(1) ok this]
    have "frame_kept s s' (guard_index g)" using kept P(1) False by simp
    then have "fr s' (guard_index g) = fr s (guard_index g)" using P(6) by (auto simp: frame_kept_def unat_gt_0)
    then show ?thesis using P by (intro guard_held_kept[OF inv(2) _ n]) (simp_all add: guard_held_def)
  qed
next
  fix j assume j: "j < fcount s'" "j \<notin> C"
  show "accounted G' s' j"
  proof (cases "j = i")
    case True
    then show ?thesis using i(1) j n by simp
  next
    case False
    have "accounted G s j" using ok j n by (simp add: guards_ok_def)
    then have "accounted G s' j" using accounted_kept[OF inv(2) j] kept[of j] False j n by simp
    then show ?thesis by (simp add: accounted_def at[OF False])
  qed
qed

lemma guards_ok_kept:
  assumes "inv C s" "inv C s'" "guards_ok C G s" "fcount s' = fcount s" "frames_kept s s'"
  shows "guards_ok C G s'"
proof (rule guards_ok_move[OF assms(1-4), of "fcount s"])
  show "guard_held s' g" if "g \<in># guards_at (fcount s) G" for g
    using that assms(3) by (auto simp: guards_ok_def guard_held_def)
qed (use assms(5) in \<open>auto intro: frames_kept_at\<close>)

lemma prefetch_ok_session:
  assumes "prefetch_ok C s" "same_session s s'" "map_option pc_swip \<circ> bm_pages s' = map_option pc_swip \<circ> bm_pages s"
  shows "prefetch_ok C s'"
  using assms(1) by (rule prefetch_ok_same) (use assms(2) fun_cong[OF assms(3)] in \<open>simp_all add: same_session_def\<close>)

lemma client_inv_serves:
  assumes "cinv C (s, G)" "inv C s'" "serves contents s s'"
  shows "cinv C (s', G)" "abs_store contents (s', G) = abs_store contents (s, G)"
  using assms guards_ok_kept[of C s s' G] prefetch_ok_session[of C s s'] by (auto simp: client_inv_def serves_def same_session_def abs_store_def)

text \<open>The prefetcher checks frames out and back in.\<close>

lemma client_inv_shifts:
  assumes ci: "cinv C (s, G)" and sh: "shifts C s C' s'" and ok: "prefetch_ok C' s'"
  shows "cinv C' (s', G)" "abs_store contents (s', G) = abs_store contents (s, G)"
proof -
  have inv: "inv C s" "inv C' s'" "guards_ok C G s" using ci sh by (simp_all add: client_inv_def shifts_def)
  have n: "fcount s' = fcount s" using sh by (simp add: shifts_def same_core_def)
  have "guard_held s' g" if "g \<in># G" for g
  proof -
    note P = guard_pinned[OF inv(1,3) that]
    have "frame_kept s s' (guard_index g)" using sh P(1,2) by (simp add: shifts_def)
    then have "fr s' (guard_index g) = fr s (guard_index g)" using P(6) by (auto simp: frame_kept_def unat_gt_0)
    then show ?thesis using P by (intro guard_held_kept[OF inv(2) _ n]) (simp_all add: guard_held_def)
  qed
  moreover have "accounted G s' j" if j: "j < fcount s'" "j \<notin> C'" for j
  proof (cases "j \<in> C")
    case True
    then have e: "guards_at j G = {#}" using guard_pinned(2)[OF inv(1,3)] by (auto simp: filter_mset_eq_conv)
    have "fr_pin_control (fr s' j) = 0" using sh True j n by (simp add: shifts_def)
    then show ?thesis using unpinned_unlatched[OF inv(2) j] unfolding accounted_def e by simp
  next
    case False
    then show ?thesis using accounted_kept[OF inv(2) j, of s G] inv(3) sh j n by (simp add: guards_ok_def shifts_def)
  qed
  ultimately have "guards_ok C' G s'" by (simp add: guards_ok_def)
  then show "cinv C' (s', G)" using ci sh ok inv(2) by (simp add: client_inv_def shifts_def same_core_def)
  show "abs_store contents (s', G) = abs_store contents (s, G)" using sh by (simp add: abs_store_def shifts_def)
qed

section \<open>Every step refines a step of the store\<close>

lemma client_latched:
  assumes "cinv C (s, G)" "i < fcount s" "i \<notin> C"
  shows "latched (guards_at i G) (latch_state (fr_latch (fr s i)))"
  using assms by (simp add: client_inv_def guards_ok_def accounted_def)

lemma abs_store_simps [simp]:
  "st_pages (abs_store contents (s, G)) = page_view contents s"
  "st_holds (abs_store contents (s, G)) = image_mset (\<lambda>g. (guard_pid g, is_exclusive g)) G"
  by (simp_all add: abs_store_def)

text \<open>Guards on one page are guards on its one frame.\<close>

lemma hold_frame:
  assumes "cinv C (s, G)" "(p, x) \<in># st_holds (abs_store contents (s, G))" "i < fcount s" "held s i p h"
  obtains g where "g \<in># guards_at i G" "is_exclusive g = x" "guard_pid g = p"
proof -
  obtain g where g: "g \<in># G" "guard_pid g = p" "is_exclusive g = x" using assms(2) by auto
  have inv: "inv C s" "guards_ok C G s" using assms(1) by (simp_all add: client_inv_def)
  note P = guard_pinned[OF inv g(1)]
  have "guard_index g = i" using held_unique[OF inv(1) P(3) assms(4) P(1) assms(3)] g(2) by simp
  then show ?thesis using that g by simp
qed

text \<open>The new guard \<open>g\<close> on frame \<open>i\<close>.\<close>

lemma grant_step:
  assumes si: "cinv C (s, G)" and gr: "granted C i p h s s'" and g: "guard_index g = i" "guard_pid g = p" "guard_swip g = h"
    and latch: "latched (guards_at i G) (latch_state (fr_latch (fr s i))) \<Longrightarrow>
      latched (add_mset g (guards_at i G)) (latch_state (fr_latch (fr s' i)))"
  shows "cinv C (s', add_mset g G)" "st_pages (abs_store contents (s', add_mset g G)) = st_pages (abs_store contents (s, G))"
    "\<exists>d. page_view contents s p = Some d"
proof -
  have inv: "inv C s" "guards_ok C G s" using si by (simp_all add: client_inv_def)
  have G: "inv C s'" "i < fcount s" "held s' i p h" "fcount s' = fcount s" using gr by (simp_all add: granted_def same_session_def)
  have occ: "i \<notin> C" using held_occupied(2)[OF G(1) _ G(3)] G(2,4) by simp
  have "guards_ok C (add_mset g G) s'"
  proof (rule guards_ok_move[OF inv(1) G(1) inv(2) G(4), of i])
    show "accounted (add_mset g G) s' i"
      using inv(2) G(2) occ gr g(1) latch unat_pin_inc[of "fr_pin_control (fr s i)"] by (simp add: guards_ok_def accounted_def granted_def)
    fix k assume k: "k \<in># guards_at i (add_mset g G)"
    show "guard_held s' k"
    proof (cases "k = g")
      case True
      then show ?thesis using G g by (simp add: guard_held_def)
    next
      case False
      then have "k \<in># G" "guard_index k = i" using k g(1) by auto
      note P = guard_pinned[OF inv this(1)]
      have "fr_pin_control (fr s i) \<noteq> 0" using P(6) \<open>guard_index k = i\<close> by auto
      then have "fr_pid (fr s' i) = fr_pid (fr s i)" "fr_owner_swip (fr s' i) = fr_owner_swip (fr s i)" using gr by (simp_all add: granted_def)
      then show ?thesis using P \<open>guard_index k = i\<close> G(4) by (intro guard_held_kept[OF G(1), of s]) (simp_all add: guard_held_def)
    qed
  qed (use gr g(1) in \<open>auto simp: granted_def\<close>)
  then show "cinv C (s', add_mset g G)" using si gr prefetch_ok_session[of C s s'] by (simp add: client_inv_def granted_def same_session_def)
  show "st_pages (abs_store contents (s', add_mset g G)) = st_pages (abs_store contents (s, G))"
    using gr by (simp add: granted_def)
  have "page_view contents s' p = Some (fdata s' i)" using view_held[OF G(1) _ G(3)] G(2,4) by simp
  then show "\<exists>d. page_view contents s p = Some d" using gr by (simp add: granted_def)
qed

lemma store_eqI: "st_pages m = st_pages m' \<Longrightarrow> st_holds m = st_holds m' \<Longrightarrow> (m :: store) = m'"
  by (cases m; cases m') simp

lemma shared_grant:
  assumes si: "cinv C (s, G)" and gr: "granted C i p h s s'" and g: "sg_index g = i" "sg_pid g = p" "sg_swip g = h"
    and latch: "latch_state (fr_latch (fr s i)) < MAX_SHARED" "unat (latch_state (fr_latch (fr s' i))) = unat (latch_state (fr_latch (fr s i))) + 1"
  shows "cinv C (s', add_mset (SharedGuard g) G)"
    "store_step (abs_store contents (s, G)) (HoldShared p) (abs_store contents (s', add_mset (SharedGuard g) G))"
proof -
  note S = grant_step[OF si gr, of "SharedGuard g", OF _ _ _ latched_add_shared[OF _ latch]]
  show "cinv C (s', add_mset (SharedGuard g) G)" using S(1) g by simp
  have h: "i < fcount s'" "held s' i p h" "i < fcount s" "inv C s'" using gr by (simp_all add: granted_def same_session_def)
  have "(p, True) \<notin># st_holds (abs_store contents (s, G))"
  proof
    assume "(p, True) \<in># st_holds (abs_store contents (s, G))"
    then have "(p, True) \<in># st_holds (abs_store contents (s', add_mset (SharedGuard g) G))" by simp
    from hold_frame[OF _ this h(1,2)] S(1) g obtain k where k: "k \<in># guards_at i (add_mset (SharedGuard g) G)" "is_exclusive k" by auto
    then obtain k' where "k = ExclusiveGuard k'" "ExclusiveGuard k' \<in># guards_at i G" using g(1) by (cases k) auto
    moreover have "i \<notin> C" using held_occupied(2)[OF h(4,1,2)] .
    then have "latched (guards_at i G) (latch_state (fr_latch (fr s i)))" using client_latched[OF si h(3)] by simp
    ultimately have "latch_state (fr_latch (fr s i)) = EXCLUSIVE_STATE" using latched_exclusive(2) by blast
    then show False using latch(1) exclusive_not_MAX by simp
  qed
  moreover obtain d where "page_view contents s p = Some d" using S(3) g by auto
  ultimately have "store_step (abs_store contents (s, G)) (HoldShared p)
      ((abs_store contents (s, G))\<lparr>st_holds := add_mset (p, False) (st_holds (abs_store contents (s, G)))\<rparr>)" by (intro store_shared) simp_all
  moreover have "(abs_store contents (s, G))\<lparr>st_holds := add_mset (p, False) (st_holds (abs_store contents (s, G)))\<rparr>
      = abs_store contents (s', add_mset (SharedGuard g) G)" using S(2) g by (intro store_eqI) simp_all
  ultimately show "store_step (abs_store contents (s, G)) (HoldShared p) (abs_store contents (s', add_mset (SharedGuard g) G))" by simp
qed

lemma exclusive_grant:
  assumes si: "cinv C (s, G)" and gr: "granted C i p h s s'" and g: "eg_index g = i" "eg_pid g = p" "eg_swip g = h"
    and latch: "latch_state (fr_latch (fr s i)) = 0" "latch_state (fr_latch (fr s' i)) = EXCLUSIVE_STATE"
  shows "cinv C (s', add_mset (ExclusiveGuard g) G)"
    "store_step (abs_store contents (s, G)) (HoldExclusive p) (abs_store contents (s', add_mset (ExclusiveGuard g) G))"
proof -
  have h: "i < fcount s'" "held s' i p h" "i < fcount s" "inv C s'" using gr by (simp_all add: granted_def same_session_def)
  have "i \<notin> C" using held_occupied(2)[OF h(4,1,2)] .
  then have "latched (guards_at i G) 0" using client_latched[OF si h(3)] latch(1) by simp
  then have e: "guards_at i G = {#}" by (rule latched_zero)
  have "latched (add_mset (ExclusiveGuard g) (guards_at i G)) (latch_state (fr_latch (fr s' i)))" unfolding e latch(2) latched_def by blast
  note S = grant_step[OF si gr, of "ExclusiveGuard g", OF _ _ _ this]
  show "cinv C (s', add_mset (ExclusiveGuard g) G)" using S(1) g by simp
  have "(p, x) \<notin># st_holds (abs_store contents (s, G))" for x
  proof
    assume a: "(p, x) \<in># st_holds (abs_store contents (s, G))"
    then obtain k where k: "k \<in># G" "guard_pid k = p" by auto
    have "guard_held s' k" using S(1) g k(1) by (auto simp: client_inv_def guards_ok_def)
    then have "guard_index k = i" using held_unique[of elems cap contents tok C s' "guard_index k" "guard_pid k" "guard_swip k" i p h] k(2) h gr
      by (auto simp: guard_held_def granted_def)
    then have "k \<in># guards_at i G" using k(1) by simp
    then show False unfolding e by simp
  qed
  moreover obtain d where "page_view contents s p = Some d" using S(3) g by auto
  ultimately have "store_step (abs_store contents (s, G)) (HoldExclusive p)
      ((abs_store contents (s, G))\<lparr>st_holds := add_mset (p, True) (st_holds (abs_store contents (s, G)))\<rparr>)" by (intro store_exclusive) simp_all
  moreover have "(abs_store contents (s, G))\<lparr>st_holds := add_mset (p, True) (st_holds (abs_store contents (s, G)))\<rparr>
      = abs_store contents (s', add_mset (ExclusiveGuard g) G)" using S(2) g by (intro store_eqI) simp_all
  ultimately show "store_step (abs_store contents (s, G)) (HoldExclusive p) (abs_store contents (s', add_mset (ExclusiveGuard g) G))" by simp
qed

lemma allocate_step:
  assumes si: "cinv C (s, G)" and al: "allotted C i s s'" and g: "eg_index g = i" "eg_pid g = bm_next_pid s" "eg_swip g = bm_next_handle s"
  shows "cinv C (s', add_mset (ExclusiveGuard g) G)"
    "store_step (abs_store contents (s, G)) (Allocated (bm_next_pid s)) (abs_store contents (s', add_mset (ExclusiveGuard g) G))"
proof -
  have inv: "inv C s" "guards_ok C G s" using si by (simp_all add: client_inv_def)
  have A: "inv C s'" "i < fcount s" "held s' i (bm_next_pid s) (bm_next_handle s)" "fcount s' = fcount s" "fr_pin_control (fr s i) = 0"
    using al by (simp_all add: allotted_def)
  have occ: "i \<notin> C" using held_occupied(2)[OF A(1) _ A(3)] A(2,4) by simp
  have "accounted G s i" using inv(2) A(2) occ by (simp add: guards_ok_def)
  then have e: "guards_at i G = {#}" using A(5) by (simp add: accounted_def)
  have at: "guards_at i (add_mset (ExclusiveGuard g) G) = {#ExclusiveGuard g#}" using e g(1) by simp
  have "guards_ok C (add_mset (ExclusiveGuard g) G) s'"
  proof (rule guards_ok_move[OF inv(1) A(1) inv(2) A(4), of i])
    show "accounted (add_mset (ExclusiveGuard g) G) s' i" unfolding accounted_def at using al by (simp add: allotted_def latched_def)
    show "guard_held s' k" if "k \<in># guards_at i (add_mset (ExclusiveGuard g) G)" for k
      using that A g unfolding at by (simp add: guard_held_def)
  qed (use al g(1) in \<open>auto simp: allotted_def\<close>)
  moreover have "faults_idle s'" using si al by (auto simp: client_inv_def allotted_def faults_idle_def fault_state_default_def)
  moreover have "prefetch_ok C s'"
  proof (rule prefetch_ok_same[of C s])
    show "prefetch_ok C s" using si by (simp add: client_inv_def)
  qed (use al fresh_page(1)[OF inv(1)] in \<open>auto simp: allotted_def\<close>)
  ultimately show "cinv C (s', add_mset (ExclusiveGuard g) G)" using A(1) si al by (simp add: client_inv_def allotted_def)
  have "store_step (abs_store contents (s, G)) (Allocated (bm_next_pid s)) ((abs_store contents (s, G))
      \<lparr>st_pages := (st_pages (abs_store contents (s, G)))(bm_next_pid s \<mapsto> zero_page), st_holds := add_mset (bm_next_pid s, True) (st_holds (abs_store contents (s, G)))\<rparr>)"
    using fresh_page(3)[OF inv(1)] by (intro store_allocate) simp
  moreover have "(abs_store contents (s, G))\<lparr>st_pages := (st_pages (abs_store contents (s, G)))(bm_next_pid s \<mapsto> zero_page),
      st_holds := add_mset (bm_next_pid s, True) (st_holds (abs_store contents (s, G)))\<rparr> = abs_store contents (s', add_mset (ExclusiveGuard g) G)"
    using al g by (intro store_eqI) (simp_all add: allotted_def)
  ultimately show "store_step (abs_store contents (s, G)) (Allocated (bm_next_pid s)) (abs_store contents (s', add_mset (ExclusiveGuard g) G))" by simp
qed

lemma write_step:
  assumes si: "cinv C (s, G)" and g: "ExclusiveGuard g \<in># G" and w: "keeps_length w"
  obtains s' where "exclusive_write_with g (\<lambda>d. ((), w d)) s = (oOk (), s')" "cinv C (s', G)"
    "store_step (abs_store contents (s, G)) (WritePage (eg_pid g) w) (abs_store contents (s', G))"
proof -
  have inv: "inv C s" "guards_ok C G s" using si by (simp_all add: client_inv_def)
  note P = guard_pinned[OF inv g, simplified]
  let ?i = "eg_index g" and ?d = "fdata s (eg_index g)"
  note R = guard_read[OF inv(1) P(1,3)]
  have len: "length (w ?d) = PAGE_SIZE" using w R(3) by (simp add: keeps_length_def)
  let ?s' = "page_written ?i (w ?d) s"
  have run: "exclusive_write_with g (\<lambda>d. ((), w d)) s = (oOk (), ?s')" using exclusive_write_ok[OF inv(1) P(1,3), of "\<lambda>d. ((), w d)"] len by simp
  have W: "inv C ?s'" "page_view contents ?s' = (page_view contents s)(eg_pid g \<mapsto> w ?d)" using write_move[OF inv(1) P(1,3) len refl] by (simp_all add: page_written_def)
  have fr': "fr ?s' j = (if j = ?i then (fr s ?i)\<lparr>fr_dirty := True\<rparr> else fr s j)" for j using P(1) by (simp add: page_written_def tfr_put_frame)
  have n: "fcount ?s' = fcount s" by (simp add: page_written_def)
  have "guard_held ?s' k" if "k \<in># G" for k
    using that inv(2) by (intro guard_held_kept[OF W(1) _ n]) (auto simp: guards_ok_def fr')
  moreover have "accounted G ?s' j \<longleftrightarrow> accounted G s j" for j by (simp add: accounted_def fr')
  ultimately have "guards_ok C G ?s'" using inv(2) n by (simp add: guards_ok_def)
  moreover have "faults_idle ?s'" using si by (simp add: client_inv_def faults_idle_def page_written_def)
  moreover have "prefetch_ok C ?s'" using si by (simp add: client_inv_def prefetch_ok_def page_written_def)
  ultimately have "cinv C (?s', G)" using W(1) si by (simp add: client_inv_def page_written_def)
  moreover have "store_step (abs_store contents (s, G)) (WritePage (eg_pid g) w) ((abs_store contents (s, G))\<lparr>st_pages := (st_pages (abs_store contents (s, G)))(eg_pid g \<mapsto> w ?d)\<rparr>)"
    using R(2) g by (intro store_write) force+
  moreover have "(abs_store contents (s, G))\<lparr>st_pages := (st_pages (abs_store contents (s, G)))(eg_pid g \<mapsto> w ?d)\<rparr> = abs_store contents (?s', G)"
    using W(2) by (intro store_eqI) simp_all
  ultimately show ?thesis using that run by simp
qed

text \<open>A guard is dropped: its frame loses one pin and one hold.\<close>

lemma release_step:
  assumes si: "cinv C (s, G)" and g: "g \<in># G" and s': "s' = set_frame (guard_index g) f s"
    and f: "fr_pid f = fr_pid (fr s (guard_index g))" "fr_owner_swip f = fr_owner_swip (fr s (guard_index g))" "fr_dirty f = fr_dirty (fr s (guard_index g))"
      "fr_pin_control f = fr_pin_control (fr s (guard_index g)) - 1"
    and latch: "latched (guards_at (guard_index g) G - {#g#}) (latch_state (fr_latch f))"
  shows "cinv C (s', G - {#g#})" "store_step (abs_store contents (s, G)) (Released (guard_pid g) (is_exclusive g)) (abs_store contents (s', G - {#g#}))"
proof -
  let ?i = "guard_index g" and ?H = "\<lambda>g. (guard_pid g, is_exclusive g)"
  have inv: "inv C s" "guards_ok C G s" using si by (simp_all add: client_inv_def)
  note P = guard_pinned[OF inv g]
  have at: "guards_at j (G - {#g#}) = (if j = ?i then guards_at ?i G - {#g#} else guards_at j G)" for j by auto
  have pin: "unat (fr_pin_control f) = size (guards_at ?i G - {#g#})"
    using unpin_word_ok[OF P(6,7)] P(4,5) f(4) by (simp add: accounted_def size_Diff_singleton)
  have "pin_ok f" unfolding pin_ok_def
  proof (intro conjI impI)
    show "unat (fr_pin_control f) < 2 ^ 31" using unpin_word_ok[OF P(6,7)] P(7) f(4) by simp
    assume "fr_pin_control f = 0"
    then have "guards_at ?i G - {#g#} = {#}" using pin by simp
    then show "latch_state (fr_latch f) = 0" using latch by simp
  qed
  then have S: "inv C s'" "page_view contents s' = page_view contents s"
    using inv_set_frame[OF inv(1) P(1) held_occupied(1)[OF inv(1) P(1,3)] P(2) f(1-3)] by (simp_all add: s')
  have n: "fcount s' = fcount s" and fr': "fr s' j = (if j = ?i then f else fr s j)" for j using P(1) by (simp_all add: s' tfr_put_frame)
  have "guards_ok C (G - {#g#}) s'"
  proof (rule guards_ok_move[OF inv(1) S(1) inv(2) n, of ?i])
    show "frame_kept s s' j" if "j \<noteq> ?i" for j using that by (simp add: frame_kept_def fr') (simp add: s')
    show "accounted (G - {#g#}) s' ?i" unfolding accounted_def at fr' using pin latch by simp
    show "guard_held s' k" if "k \<in># guards_at ?i (G - {#g#})" for k
    proof -
      have "k \<in># G" using that by (auto dest: in_diffD)
      then show ?thesis using inv(2) f n by (intro guard_held_kept[OF S(1), of s]) (auto simp: guards_ok_def fr')
    qed
  qed (simp add: at)
  moreover have "faults_idle s'" using si by (simp add: client_inv_def faults_idle_def s')
  moreover have "prefetch_ok C s'" using si by (simp add: client_inv_def prefetch_ok_def s')
  ultimately show "cinv C (s', G - {#g#})" using S(1) si by (simp add: client_inv_def s')
  have "store_step (abs_store contents (s, G)) (Released (guard_pid g) (is_exclusive g))
      ((abs_store contents (s, G))\<lparr>st_holds := st_holds (abs_store contents (s, G)) - {#?H g#}\<rparr>)"
    using g by (intro store_release) force
  moreover have "(abs_store contents (s, G))\<lparr>st_holds := st_holds (abs_store contents (s, G)) - {#?H g#}\<rparr> = abs_store contents (s', G - {#g#})"
    using S(2) g by (intro store_eqI) (simp_all add: image_mset_Diff)
  ultimately show "store_step (abs_store contents (s, G)) (Released (guard_pid g) (is_exclusive g)) (abs_store contents (s', G - {#g#}))" by simp
qed

lemma shared_drop_step:
  assumes si: "cinv C (s, G)" and g: "SharedGuard g \<in># G"
  obtains s' where "shared_guard_drop g s = (oOk (), s')" "cinv C (s', G - {#SharedGuard g#})"
    "store_step (abs_store contents (s, G)) (Released (sg_pid g) False) (abs_store contents (s', G - {#SharedGuard g#}))"
proof -
  have inv: "inv C s" "guards_ok C G s" using si by (simp_all add: client_inv_def)
  note P = guard_pinned[OF inv g]
  let ?i = "sg_index g" and ?M = "guards_at (sg_index g) G"
  have L: "latched ?M (latch_state (fr_latch (fr s ?i)))" using P(4) by (simp add: accounted_def)
  have m: "SharedGuard g \<in># ?M" using P(5) by simp
  note l = latched_shared[OF L m]
  have run: "shared_guard_drop g s = (oOk (), set_frame ?i (shared_released (fr s ?i)) s)" using P l by (intro shared_drop_ok) simp_all
  have "unat (latch_state (fr_latch (fr s ?i) - 1)) = size ?M - 1" using state_dec(2)[of "fr_latch (fr s ?i)"] l by (simp add: word_le_nat_alt)
  then have "latched (?M - {#SharedGuard g#}) (latch_state (fr_latch (fr s ?i) - 1))"
    using l m by (auto simp: latched_def size_Diff_singleton word_le_nat_alt dest: in_diffD)
  then show ?thesis
    using that[OF run] release_step[OF si g, of "set_frame ?i (shared_released (fr s ?i)) s" "shared_released (fr s ?i)"] by (simp add: shared_released_def)
qed

lemma exclusive_drop_step:
  assumes si: "cinv C (s, G)" and g: "ExclusiveGuard g \<in># G"
  obtains s' where "exclusive_guard_drop g s = (oOk (), s')" "cinv C (s', G - {#ExclusiveGuard g#})"
    "store_step (abs_store contents (s, G)) (Released (eg_pid g) True) (abs_store contents (s', G - {#ExclusiveGuard g#}))"
proof -
  have inv: "inv C s" "guards_ok C G s" using si by (simp_all add: client_inv_def)
  note P = guard_pinned[OF inv g]
  let ?i = "eg_index g" and ?M = "guards_at (eg_index g) G"
  have L: "latched ?M (latch_state (fr_latch (fr s ?i)))" using P(4) by (simp add: accounted_def)
  have m: "ExclusiveGuard g \<in># ?M" using P(5) by simp
  note l = latched_exclusive[OF L m]
  have run: "exclusive_guard_drop g s = (oOk (), set_frame ?i (exclusive_released (fr s ?i)) s)" using P l(2) by (intro exclusive_drop_ok) simp_all
  have "?M - {#ExclusiveGuard g#} = {#}" unfolding l(1) by simp
  then show ?thesis
    using that[OF run] release_step[OF si g, of "set_frame ?i (exclusive_released (fr s ?i)) s" "exclusive_released (fr s ?i)"] by (simp add: exclusive_released_def)
qed

lemma read_step:
  assumes si: "cinv C (s, G)" and g: "g \<in># G"
  shows "on_frames (read_frame (guard_index g)) s = (oOk (fdata s (guard_index g)), s)"
    "store_step (abs_store contents (s, G)) (ReadPage (guard_pid g) (fdata s (guard_index g))) (abs_store contents (s, G))"
proof -
  have inv: "inv C s" "guards_ok C G s" using si by (simp_all add: client_inv_def)
  note P = guard_pinned[OF inv g]
  show "on_frames (read_frame (guard_index g)) s = (oOk (fdata s (guard_index g)), s)" using guard_read[OF inv(1) P(1,3)] by simp
  show "store_step (abs_store contents (s, G)) (ReadPage (guard_pid g) (fdata s (guard_index g))) (abs_store contents (s, G))"
    using guard_read(2)[OF inv(1) P(1,3)] g by (intro store_read[of _ "is_exclusive g"]) (force simp: abs_store_def)+
qed

text \<open>The outcomes of a fix: an error, a wait, or a guard.\<close>

lemma fix_shared_step:
  assumes si: "cinv C (s, G)" and h: "h \<in> dom (bm_swips s)" and fuel: "2 \<le> fuel"
  obtains (err) e s' where "fix_shared_with E fuel h hint s = (oErr e, s')" "inv C s'" "serves contents s s'"
  | (busy) i s' p where "fix_shared_with E fuel h hint s = (oBlocks, s')" "i < fcount s" "held s i p h" "\<not> shared_free (fr s i)"
  | (got) g s' where "fix_shared_with E fuel h hint s = (oOk g, s')" "cinv C (s', add_mset (SharedGuard g) G)"
      "store_step (abs_store contents (s, G)) (HoldShared (sg_pid g)) (abs_store contents (s', add_mset (SharedGuard g) G))" "sg_swip g = h"
      "map_option pc_swip \<circ> bm_pages s' = map_option pc_swip \<circ> bm_pages s" "bm_stopping s' = bm_stopping s"
proof -
  have inv: "inv C s" and idle: "faults_idle s" using si by (simp_all add: client_inv_def)
  obtain c where c: "bm_swips s h = Some c" using h by auto
  obtain n where n: "fuel = Suc (Suc n)" using le_Suc_ex[OF fuel] by auto
  show ?thesis
  proof (cases "bm_stopping s")
    case True
    then show ?thesis using err[of ShuttingDown s] inv by (simp add: fix_shared_with_def op_seq_def op_bind_def ensure_running_def)
  next
    case run: False
    show ?thesis
    proof (rule validate_handle_ok[OF inv c])
      fix e assume "validate_handle h s = (oErr e, s)"
      then show ?thesis using err[of e s] run inv by (simp add: fix_shared_with_def op_seq_def op_bind_def ensure_running_def)
    next
      assume v: "validate_handle h s = (oOk (sw_pid c), s)" "map_option pc_swip (bm_pages s (sw_pid c)) = Some h"
      have e: "fix_shared_with E fuel h hint s = fix_shared_loop E h hint (sw_pid c) (Suc (Suc n)) False None s"
        using run v(1) by (simp add: fix_shared_with_def op_seq_def op_bind_def ensure_running_def n)
      show ?thesis
      proof (rule fix_shared_loop_ok[OF inv idle run v(2), of hint n])
        fix i src s'
        assume "fix_shared_loop E h hint (sw_pid c) (Suc (Suc n)) False None s = (oOk \<lparr>sg_index = i, sg_pid = sw_pid c, sg_swip = h, sg_source = src\<rparr>, s')"
          "granted C i (sw_pid c) h s s'" "latch_state (fr_latch (fr s i)) < MAX_SHARED"
          "unat (latch_state (fr_latch (fr s' i))) = unat (latch_state (fr_latch (fr s i))) + 1"
        then show ?thesis using got[of "\<lparr>sg_index = i, sg_pid = sw_pid c, sg_swip = h, sg_source = src\<rparr>" s'] e
            shared_grant[OF si, of i "sw_pid c" h s' "\<lparr>sg_index = i, sg_pid = sw_pid c, sg_swip = h, sg_source = src\<rparr>"] by (simp add: granted_def same_session_def)
      qed (use err busy e in \<open>auto\<close>)
    qed
  qed
qed

lemma fix_exclusive_step:
  assumes si: "cinv C (s, G)" and h: "h \<in> dom (bm_swips s)" and fuel: "2 \<le> fuel"
  obtains (err) e s' where "fix_exclusive E fuel h s = (oErr e, s')" "inv C s'" "serves contents s s'"
  | (busy) i s' p where "fix_exclusive E fuel h s = (oBlocks, s')" "i < fcount s" "held s i p h" "\<not> exclusive_free (fr s i)"
  | (got) g s' where "fix_exclusive E fuel h s = (oOk g, s')" "cinv C (s', add_mset (ExclusiveGuard g) G)"
      "store_step (abs_store contents (s, G)) (HoldExclusive (eg_pid g)) (abs_store contents (s', add_mset (ExclusiveGuard g) G))"
proof -
  have inv: "inv C s" and idle: "faults_idle s" using si by (simp_all add: client_inv_def)
  obtain c where c: "bm_swips s h = Some c" using h by auto
  obtain n where n: "fuel = Suc (Suc n)" using le_Suc_ex[OF fuel] by auto
  show ?thesis
  proof (cases "bm_stopping s")
    case True
    then show ?thesis using err[of ShuttingDown s] inv by (simp add: fix_exclusive_def op_seq_def op_bind_def ensure_running_def)
  next
    case run: False
    show ?thesis
    proof (rule validate_handle_ok[OF inv c])
      fix e assume "validate_handle h s = (oErr e, s)"
      then show ?thesis using err[of e s] run inv by (simp add: fix_exclusive_def op_seq_def op_bind_def ensure_running_def)
    next
      assume v: "validate_handle h s = (oOk (sw_pid c), s)" "map_option pc_swip (bm_pages s (sw_pid c)) = Some h"
      have e: "fix_exclusive E fuel h s = fix_exclusive_loop E h (sw_pid c) (Suc (Suc n)) False None s"
        using run v(1) by (simp add: fix_exclusive_def op_seq_def op_bind_def ensure_running_def n)
      show ?thesis
      proof (rule fix_exclusive_loop_ok[OF inv idle run v(2), of n])
        fix i s'
        assume "fix_exclusive_loop E h (sw_pid c) (Suc (Suc n)) False None s = (oOk \<lparr>eg_index = i, eg_pid = sw_pid c, eg_swip = h\<rparr>, s')"
          "granted C i (sw_pid c) h s s'" "latch_state (fr_latch (fr s i)) = 0" "latch_state (fr_latch (fr s' i)) = EXCLUSIVE_STATE"
        then show ?thesis using got[of "\<lparr>eg_index = i, eg_pid = sw_pid c, eg_swip = h\<rparr>" s'] e
            exclusive_grant[OF si, of i "sw_pid c" h s' "\<lparr>eg_index = i, eg_pid = sw_pid c, eg_swip = h\<rparr>"] by simp
      qed (use err busy e in \<open>auto\<close>)
    qed
  qed
qed

text \<open>An optimistic fix takes a snapshot under a shared guard; until a writer comes, it validates.\<close>

lemma fix_optimistic_step:
  assumes si: "cinv C (s, G)" and h: "h \<in> dom (bm_swips s)" and fuel: "2 \<le> fuel"
  obtains (err) e s' where "fix_optimistic E fuel h s = (oErr e, s')" "inv C s'" "serves contents s s'"
  | (busy) i s' p where "fix_optimistic E fuel h s = (oBlocks, s')" "i < fcount s" "held s i p h" "\<not> shared_free (fr s i)"
  | (got) g s' where "fix_optimistic E fuel h s = (oOk g, s')" "cinv C (s', G)"
      "store_step (abs_store contents (s, G)) (PeekPage (og_pid g) (og_snapshot g)) (abs_store contents (s', G))"
      "og_swip g = h" "\<And>f :: page \<Rightarrow> 'b. optimistic_read_with g f s' = (oOk (f (og_snapshot g)), s')"
proof (rule fix_shared_step[OF si h fuel, of NormalHint])
  fix e s' assume "fix_shared_with E fuel h NormalHint s = (oErr e, s')" "inv C s'" "serves contents s s'"
  then show ?thesis using err by (simp add: fix_optimistic_def fix_shared_def op_bind_def)
next
  fix i s' p assume "fix_shared_with E fuel h NormalHint s = (oBlocks, s')" "i < fcount s" "held s i p h" "\<not> shared_free (fr s i)"
  then show ?thesis using busy by (simp add: fix_optimistic_def fix_shared_def op_bind_def)
next
  fix g s1 assume f: "fix_shared_with E fuel h NormalHint s = (oOk g, s1)" "cinv C (s1, add_mset (SharedGuard g) G)"
    "store_step (abs_store contents (s, G)) (HoldShared (sg_pid g)) (abs_store contents (s1, add_mset (SharedGuard g) G))" "sg_swip g = h"
  let ?G = "add_mset (SharedGuard g) G" and ?i = "sg_index g"
  have inv: "inv C s1" "guards_ok C ?G s1" using f(2) by (simp_all add: client_inv_def)
  note P = guard_pinned[OF inv, of "SharedGuard g", simplified]
  have L: "latched (guards_at ?i ?G) (latch_state (fr_latch (fr s1 ?i)))" using P(4) by (simp add: accounted_def)
  note l = latched_shared[OF L, of g, simplified]
  have run: "shared_guard_drop g s1 = (oOk (), set_frame ?i (shared_released (fr s1 ?i)) s1)" using P l by (intro shared_drop_ok) simp_all
  define s' where "s' = set_frame ?i (shared_released (fr s1 ?i)) s1"
  have dr: "cinv C (s', G)" "store_step (abs_store contents (s1, ?G)) (Released (sg_pid g) False) (abs_store contents (s', G))"
    using shared_drop_step[OF f(2), of g] run by (auto simp: s'_def)
  have v: "optimistic (fr_latch (fr s1 ?i)) = Inr (latch_version (fr_latch (fr s1 ?i)))"
    using l(2) exclusive_not_MAX by (auto simp: optimistic_def)
  let ?g = "\<lparr>og_pid = sg_pid g, og_swip = h, og_resident = addr s1 ?i, og_version = latch_version (fr_latch (fr s1 ?i)), og_snapshot = fdata s1 ?i\<rparr>"
  have "fix_optimistic E fuel h s = (oOk ?g, s')"
    using f(1) P(1) v run guard_read(1)[OF inv(1) P(1,3)] resident_of_ok[OF pool_inv_slice[OF inv(1)] P(1)]
    by (simp add: fix_optimistic_def fix_shared_def shared_read_with_def op_bind_def op_seq_def op_return_def op_get_def on_meta_get[unfolded op_get_def] s'_def)
  moreover have "store_step (abs_store contents (s, G)) (PeekPage (sg_pid g) (fdata s1 ?i)) (abs_store contents (s', G))"
  proof -
    have "abs_store contents (s', G) = abs_store contents (s, G)"
      using f(3) dr(2) by (auto simp: store_hold store_put_back abs_store_def)
    moreover have "st_pages (abs_store contents (s, G)) (sg_pid g) = Some (fdata s1 ?i)" "(sg_pid g, True) \<notin># st_holds (abs_store contents (s, G))"
      using f(3) read_step(2)[OF f(2), of "SharedGuard g"] by (auto simp: store_hold store_get simp del: abs_store_simps)
    ultimately show ?thesis using store_peek by metis
  qed
  moreover have "optimistic_read_with ?g k s' = (oOk (k (fdata s1 ?i)), s')" for k :: "page \<Rightarrow> 'b"
  proof -
    have i': "inv C s'" "?i < fcount s'" "held s' ?i (sg_pid g) h" "addr s' ?i = addr s1 ?i"
      using dr(1) P(1,3) f(4) by (simp_all add: client_inv_def s'_def held_def shared_released_def)
    have "latch_version (fr_latch (fr s1 ?i) - 1) = latch_version (fr_latch (fr s1 ?i))" "latch_state (fr_latch (fr s1 ?i) - 1) \<noteq> EXCLUSIVE_STATE"
      using state_dec[of "fr_latch (fr s1 ?i)"] l exclusive_not_MAX by (auto simp: word_le_nat_alt word_unat_eq_iff unat_EXCLUSIVE_STATE unat_MAX_SHARED)
    then have "validate (fr_latch (fr s' ?i)) (og_version ?g)" using P(1) latch_version_bound[of "fr_latch (fr s1 ?i)"]
      by (simp add: validate_def s'_def shared_released_def VERSION_MASK_eq word_less_nat_alt mask_eq_exp_minus_1)
    then show ?thesis
      using resident_is_exact_held[OF i'(1-3), of "addr s1 ?i"] i'(2,4) slice_addr_facts(3)[OF pool_inv_slice[OF i'(1)] i'(2)]
      by (simp add: optimistic_read_with_def op_bind_def op_get_def op_return_def on_meta_get[unfolded op_get_def])
  qed
  ultimately show ?thesis using got dr(1) by simp
qed

lemma pool_step_refines:
  assumes "pool_step E x e y" "cinv C x"
  shows "\<exists>C'. cinv C' y \<and> store_step (abs_store contents x) e (abs_store contents y)"
  using assms
proof (induction rule: pool_step.induct)
  case (do_allocate s g s' G)
  then have inv: "inv C s" by (simp add: client_inv_def)
  obtain i where "g = \<lparr>eg_index = i, eg_pid = bm_next_pid s, eg_swip = bm_next_handle s\<rparr>" "allotted C i s s'"
    by (rule allocate_ok[OF inv]) (use do_allocate.hyps in auto)
  then show ?case using allocate_step[OF do_allocate.prems, of i s' g] by auto
next
  case (do_fix_shared fuel h hint s g s' G)
  then show ?case using fix_shared_step[OF do_fix_shared.prems do_fix_shared.hyps(3,2), of hint] by auto
next
  case (do_fix_exclusive fuel h s g s' G)
  then show ?case using fix_exclusive_step[OF do_fix_exclusive.prems do_fix_exclusive.hyps(3,2)] by auto
next
  case (do_read_shared g G s d s')
  then show ?case using read_step[OF do_read_shared.prems do_read_shared.hyps(1)] by (auto simp: shared_read_with_def op_bind_def op_return_def)
next
  case (do_read_exclusive g G s d s')
  then show ?case using read_step[OF do_read_exclusive.prems do_read_exclusive.hyps(1)] by (auto simp: exclusive_read_with_def op_bind_def op_return_def)
next
  case (do_optimistic fuel h s g s' G)
  then show ?case using fix_optimistic_step[OF do_optimistic.prems do_optimistic.hyps(3,2)] by auto
next
  case (do_write g G w s s')
  then show ?case using write_step[OF do_write.prems do_write.hyps(1,2)] by auto
next
  case (do_drop_shared g G s s')
  then show ?case using shared_drop_step[OF do_drop_shared.prems do_drop_shared.hyps(1)] by auto
next
  case (do_drop_exclusive g G s s')
  then show ?case using exclusive_drop_step[OF do_drop_exclusive.prems do_drop_exclusive.hyps(1)] by auto
next
  case (do_cool s s' G)
  then have "inv C s'" "serves contents s s'" using background_cooling_step_ok[of C s] evolves_serves by (auto simp: client_inv_def)
  then show ?case using client_inv_serves[OF do_cool.prems] using store_silent by auto
next
  case (do_evict t s r s' G)
  then have "inv C s'" "serves contents s s'" using evict_ticket_ok[of C s t] evolves_serves by (auto simp: client_inv_def reclaims_def)
  then show ?case using client_inv_serves[OF do_evict.prems] using store_silent by auto
next
  case (do_prefetch hs s s' G)
  then have "inv C s" "prefetch_ok C s" by (simp_all add: client_inv_def)
  then obtain C' where "shifts C s C' s'" "prefetch_ok C' s'" using prefetch_call_ok[of C s hs] do_prefetch.hyps by auto
  then show ?case using client_inv_shifts[OF do_prefetch.prems] store_silent by auto
next
  case (do_prefetch_worker s b s' G)
  then have i: "inv C s" "faults_idle s" "prefetch_ok C s" by (simp_all add: client_inv_def)
  then obtain C' where "shifts C s C' s'" "prefetch_ok C' s'"
    using prefetch_worker_step_ok[OF i] do_prefetch_worker.hyps shifts_refl[OF i(1)] by (auto split: if_splits)
  then show ?case using client_inv_shifts[OF do_prefetch_worker.prems] store_silent by auto
next
  case (do_epoch elapsed s s' G)
  then have "inv C s'" "serves contents s s'" using tick_epoch_ok[of C s elapsed] by (auto simp: client_inv_def)
  then show ?case using client_inv_serves[OF do_epoch.prems] using store_silent by auto
next
  case (do_allocate_failed s e s' G)
  then have inv: "inv C s" by (simp add: client_inv_def)
  have "inv C s' \<and> serves contents s s'" by (rule allocate_ok[OF inv]) (use do_allocate_failed.hyps in auto)
  then show ?case using client_inv_serves[OF do_allocate_failed.prems] using store_silent by auto
next
  case (do_fix_shared_failed fuel h hint s e s' G)
  then have "inv C s'" "serves contents s s'"
    using fix_shared_step[OF do_fix_shared_failed.prems do_fix_shared_failed.hyps(3,2), of hint] by auto
  then show ?case using client_inv_serves[OF do_fix_shared_failed.prems] using store_silent by auto
next
  case (do_fix_exclusive_failed fuel h s e s' G)
  then have "inv C s'" "serves contents s s'"
    using fix_exclusive_step[OF do_fix_exclusive_failed.prems do_fix_exclusive_failed.hyps(3,2)] by auto
  then show ?case using client_inv_serves[OF do_fix_exclusive_failed.prems] using store_silent by auto
qed

end

end
