(* ===== verification/Pool_Shutdown.thy ===== *)
theory Pool_Shutdown
  imports Pool_Refinement
begin

text \<open>
  The end of a pool (src/crates/tierbuf/src/pool.rs): \<open>shutdown\<close> joins the workers and writes every
  resident page back, and \<open>drop\<close> leaves every handle evicted.
\<close>

definition resident :: "('q, 't, 'p) manager \<Rightarrow> nat \<Rightarrow> bool" where
  "resident s i \<longleftrightarrow> pid_is_valid (fr_pid (fr s i))"

context buffer_pool
begin

lemma resident_held:
  assumes inv: "inv C s" and i: "i < fcount s"
  shows "resident s i \<longleftrightarrow> (\<exists>p h. held s i p h)"
proof -
  show ?thesis using pool_inv_frame[OF inv i] held_valid(1)[OF inv, of i]
    by (auto simp: resident_def frame_inv_def blank_def held_def split: if_splits)
qed

lemma free_vacant:
  assumes "inv C s" "i < fcount s" "is_free s i"
  shows "\<not> resident s i"
  using resident_held[OF assms(1,2)] held_occupied(1)[OF assms(1,2)] assms(3) by blast

section \<open>Writing the resident pages back\<close>

text \<open>One frame of a pass: an unpinned one is freed or the pass ends with the error of the tier; a pinned one stays.\<close>

lemma flush_frame:
  assumes inv: "inv C s" and i: "i < fcount s" and h: "held s i p h"
  obtains e s' where "\<And>rest n b. flush_frames E (i # rest) n b s = (oErr e, s')" "inv C s'" "evolves contents s s'"
  | s' where "\<And>rest n b. flush_frames E (i # rest) n b s = flush_frames E rest (n + 1) (b \<or> fr_pin_control (fr s i) = 0) s'"
      "inv C s'" "evolves contents s s'" "\<And>j. j \<noteq> i \<Longrightarrow> fr s' j = fr s j" "fr_pin_control (fr s i) = 0 \<Longrightarrow> \<not> resident s' i"
      "fr_pin_control (fr s i) \<noteq> 0 \<Longrightarrow> fr s' i = fr s i"
proof -
  let ?t = "\<lparr>ct_frame_index = i, ct_pid = p, ct_generation = fr_generation (fr s i), ct_resident = addr s i\<rparr>"
  define s1 where "s1 = (if swst s h = Some (Hot (addr s i)) then move_swip h (Cooling (addr s i)) s else s)"
  obtain c where c: "bm_swips s h = Some c" "sw_pid c = p" "swip_wf c" and p: "pid_is_valid p" using held_valid[OF inv h] by blast
  have a: "addr_ok (addr s i)" using slice_addr_facts(2)[OF pool_inv_slice[OF inv] i] by simp
  have 1: "inv C s1" "evolves contents s s1" using recolour_evolves[OF inv i h] inv by (simp_all add: s1_def)
  have fs: "bm_frames s1 = bm_frames s" "bm_pages s1 = bm_pages s" by (simp_all add: s1_def)
  have st: "swst s1 h = Some (Cooling (addr s i))" using h a cell_state_move[of "Cooling (addr s i)" "bm_swips s" h h] by (auto simp: held_def s1_def)
  have "map_option sw_pid (bm_swips s1 h) = Some p" using c by (simp add: move_cell_def s1_def)
  then have ex: "exact_at ?t h s1" using h i st fs by (simp add: exact_at_def held_def Let_def)
  have run: "flush_frames E (i # rest) n b s = op_bind (evict_ticket E ?t) (\<lambda>outcome. flush_frames E rest (n + 1) (b \<or> outcome = Freed)) s1" for rest n b
    using h p c a i frame_pid_of_ok[OF pool_inv_meta[OF inv] i] resident_of_ok[OF pool_inv_slice[OF inv] i]
    by (auto simp: held_def op_bind_def op_get_def on_meta_get[unfolded op_get_def] load_swip_ok cas_mark_cooling op_return_def s1_def)
  show ?thesis
  proof (cases "fr_pin_control (fr s i) = 0")
    case True
    obtain r s' where r: "evict_ticket E ?t s1 = (r, s')" "inv C s'" "evolves contents s1 s'" "\<forall>j. j \<noteq> i \<longrightarrow> fr s' j = fr s1 j"
      "r = oOk Freed \<and> is_free s' i \<or> (\<exists>e. r = oErr e)"
      using evict_exact[OF 1(1) ex] True fs by (auto simp: reclaims_def)
    have ev: "evolves contents s s'" using 1(2) r(3) evolves_trans by blast
    then have "i < fcount s'" using i by (simp add: evolves_def)
    then have "r = oOk Freed \<Longrightarrow> \<not> resident s' i" using free_vacant[OF r(2)] r(5) by auto
    then show ?thesis using that(1)[of _ s'] that(2)[of s'] r ev run True fs by (auto simp: op_bind_def)
  next
    case False
    then have "evict_ticket E ?t s1 = (oOk Busy, s1)"
      using exact_cooling_owner_at[OF pool_inv_meta[OF 1(1)] ex] i fs False
      by (simp add: evict_ticket_def step_simps Let_def on_meta_bool_eq try_claim_eviction_eq)
    then show ?thesis using that(2)[of s1] 1 run False fs by (simp add: op_bind_def)
  qed
qed

text \<open>A pass ends with no unpinned page left in its frames; without unpinned pages it makes no progress.\<close>

definition flushed :: "nat set \<Rightarrow> nat list \<Rightarrow> nat \<Rightarrow> bool \<Rightarrow> (nat \<times> bool) outcome \<Rightarrow> ('q, 't, 'p) manager \<Rightarrow> ('q, 't, 'p) manager \<Rightarrow> bool" where
  "flushed C is n b r s s' \<longleftrightarrow> inv C s' \<and> evolves contents s s'
     \<and> ((\<exists>e. r = oErr e) \<or> (\<exists>m b'. r = oOk (m, b') \<and> n \<le> m \<and> (m = n \<longrightarrow> s' = s \<and> (\<forall>i \<in> set is. \<not> resident s i))
          \<and> (\<forall>j. j \<notin> set is \<longrightarrow> fr s' j = fr s j) \<and> (\<forall>i \<in> set is. resident s' i \<longrightarrow> fr_pin_control (fr s' i) \<noteq> 0)
          \<and> ((\<forall>i \<in> set is. resident s i \<longrightarrow> fr_pin_control (fr s i) \<noteq> 0) \<longrightarrow> b' = b)))"

lemma flushed_cons:
  assumes "flushed C is (n + 1) (b \<or> fr_pin_control (fr s i) = 0) r s1 s'" "evolves contents s s1" "i \<notin> set is" "resident s i"
    "\<And>j. j \<noteq> i \<Longrightarrow> fr s1 j = fr s j" "fr_pin_control (fr s i) = 0 \<Longrightarrow> \<not> resident s1 i" "fr_pin_control (fr s i) \<noteq> 0 \<Longrightarrow> fr s1 i = fr s i"
  shows "flushed C (i # is) n b r s s'"
proof -
  have same: "resident s1 j \<longleftrightarrow> resident s j" "fr s1 j = fr s j" if "j \<in> set is" for j
  proof -
    show e: "fr s1 j = fr s j" using that assms(3) by (metis assms(5))
    show "resident s1 j \<longleftrightarrow> resident s j" by (simp add: resident_def e)
  qed
  have last: "resident s' i \<longrightarrow> fr_pin_control (fr s' i) \<noteq> 0" if "fr s' i = fr s1 i"
    using that assms(6,7) by (cases "fr_pin_control (fr s i) = 0") (auto simp: resident_def)
  have ev: "inv C s'" "evolves contents s s'" using assms(1,2) evolves_trans by (auto simp: flushed_def)
  show ?thesis
  proof (cases "\<exists>e. r = oErr e")
    case True
    then show ?thesis using ev by (simp add: flushed_def)
  next
    case False
    then obtain m b' where m: "r = oOk (m, b')" "n + 1 \<le> m" "\<forall>j. j \<notin> set is \<longrightarrow> fr s' j = fr s1 j" "\<forall>i \<in> set is. resident s' i \<longrightarrow> fr_pin_control (fr s' i) \<noteq> 0"
      "(\<forall>i \<in> set is. resident s1 i \<longrightarrow> fr_pin_control (fr s1 i) \<noteq> 0) \<longrightarrow> b' = (b \<or> fr_pin_control (fr s i) = 0)"
      using assms(1) by (auto simp: flushed_def)
    have "(\<forall>i \<in> set (i # is). resident s i \<longrightarrow> fr_pin_control (fr s i) \<noteq> 0) \<longrightarrow> b' = b" using m(5) same assms(4) by auto
    then show ?thesis using m ev last assms(3,5) by (simp add: flushed_def)
  qed
qed

lemma flush_frames_ok:
  assumes "inv C s" "set is \<subseteq> {..<fcount s}" "distinct is"
  shows "\<exists>r s'. flush_frames E is n b s = (r, s') \<and> flushed C is n b r s s'"
  using assms
proof (induction "is" arbitrary: n b s)
  case Nil
  then show ?case by (simp add: flushed_def op_return_def)
next
  case (Cons i "is")
  then have i: "i < fcount s" by simp
  show ?case
  proof (cases "resident s i")
    case False
    obtain r s' where r: "flush_frames E is n b s = (r, s')" "flushed C is n b r s s'" using Cons by (metis distinct.simps(2) list.set_intros(2) subset_code(1))
    have "flush_frames E (i # is) n b s = (r, s')"
      using False r(1) frame_pid_of_ok[OF pool_inv_meta[OF Cons.prems(1)] i] by (simp add: op_bind_def resident_def)
    moreover have "\<not> resident s' i" if "\<forall>j. j \<notin> set is \<longrightarrow> fr s' j = fr s j" using that False Cons.prems(3) by (simp add: resident_def)
    then have "flushed C (i # is) n b r s s'" using r(2) False unfolding flushed_def by auto
    ultimately show ?thesis by blast
  next
    case True
    then obtain p h where "held s i p h" using resident_held[OF Cons.prems(1) i] by blast
    from flush_frame[OF Cons.prems(1) i this] show ?thesis
    proof cases
      case (1 e s')
      then show ?thesis by (auto simp: flushed_def)
    next
      case (2 s1)
      have "set is \<subseteq> {..<fcount s1}" using Cons.prems(2) 2(3) by (simp add: evolves_def)
      then obtain r s' where r: "flush_frames E is (n + 1) (b \<or> fr_pin_control (fr s i) = 0) s1 = (r, s')"
        "flushed C is (n + 1) (b \<or> fr_pin_control (fr s i) = 0) r s1 s'" using Cons.IH[OF 2(2), of "n + 1" "b \<or> fr_pin_control (fr s i) = 0"] Cons.prems(3) by auto
      then have "flushed C (i # is) n b r s s'" using flushed_cons[OF r(2) 2(3)] 2(4-6) True Cons.prems(3) by simp
      then show ?thesis using r(1) 2(1) by auto
    qed
  qed
qed

text \<open>
  The first pass leaves pinned pages only, so a later one makes no progress and the deadline ends the
  loop; without pins the second pass finds nothing.
\<close>

definition settled :: "nat set \<Rightarrow> unit outcome \<Rightarrow> ('q, 't, 'p) manager \<Rightarrow> ('q, 't, 'p) manager \<Rightarrow> bool" where
  "settled C r s s' \<longleftrightarrow> inv C s' \<and> evolves contents s s' \<and> (r = oOk () \<and> (\<forall>i < fcount s'. \<not> resident s' i) \<or> (\<exists>e. r = oErr e))"

lemma flush_pass:
  assumes "inv C s"
  obtains e s' where "\<And>x clock. flush_resident_pages E (x # clock) s = (oErr e, s')" "settled C (oErr e) s s'"
  | s' where "\<And>x clock. flush_resident_pages E (x # clock) s = (oOk (), s')" "settled C (oOk ()) s s'"
  | b s' where "\<And>x clock. flush_resident_pages E (x # clock) s = (if \<not> b \<and> x then (oErr Contended, s') else flush_resident_pages E clock s')"
      "inv C s'" "evolves contents s s'" "\<forall>i < fcount s. resident s' i \<longrightarrow> fr_pin_control (fr s' i) \<noteq> 0" "\<exists>i < fcount s. resident s i"
      "\<forall>i < fcount s. resident s i \<longrightarrow> fr_pin_control (fr s i) \<noteq> 0 \<Longrightarrow> \<not> b"
proof -
  obtain r s' where r: "flush_frames E [0..<fcount s] 0 False s = (r, s')" "flushed C [0..<fcount s] 0 False r s s'"
    using flush_frames_ok[OF assms, of "[0..<fcount s]" 0 False] by (auto simp: atLeast0LessThan)
  have ev: "inv C s'" "evolves contents s s'" using r(2) by (simp_all add: flushed_def)
  note run = op_bind_def op_get_def op_return_def op_fail_def
  consider (err) e where "r = oErr e" | (ok) m b where "r = oOk (m, b)" using r(2) by (auto simp: flushed_def)
  then show ?thesis
  proof cases
    case err
    then show ?thesis using that(1)[of e s'] r(1) ev by (auto simp: run settled_def)
  next
    case ok
    have F: "m = 0 \<longrightarrow> s' = s \<and> (\<forall>i < fcount s. \<not> resident s i)" "\<forall>i < fcount s. resident s' i \<longrightarrow> fr_pin_control (fr s' i) \<noteq> 0"
      "(\<forall>i < fcount s. resident s i \<longrightarrow> fr_pin_control (fr s i) \<noteq> 0) \<longrightarrow> \<not> b"
      using r(2) unfolding ok flushed_def by auto
    show ?thesis
    proof (cases "m = 0")
      case True
      then show ?thesis using that(2)[of s'] r(1) ok ev F(1) by (simp add: run settled_def)
    next
      case False
      have "\<exists>i < fcount s. resident s i"
      proof (rule ccontr)
        assume n: "\<not> (\<exists>i < fcount s. resident s i)"
        have "flush_frames E is k b s = (oOk (k, b), s)" if "set is \<subseteq> {..<fcount s}" for "is" k b
          using that n frame_pid_of_ok[OF pool_inv_meta[OF assms]] by (induction "is") (auto simp: op_bind_def op_return_def resident_def)
        then show False using r(1) ok False by (simp add: atLeast0LessThan)
      qed
      then show ?thesis using that(3)[of b s'] r(1) ok ev F False by (auto simp: run)
    qed
  qed
qed

lemma settled_evolves: "settled C r s1 s' \<Longrightarrow> evolves contents s s1 \<Longrightarrow> settled C r s s'"
  unfolding settled_def using evolves_trans by blast

lemma flush_until_deadline:
  assumes "inv C s" "\<forall>i < fcount s. resident s i \<longrightarrow> fr_pin_control (fr s i) \<noteq> 0" "True \<in> set clock"
  shows "\<exists>r s'. flush_resident_pages E clock s = (r, s') \<and> settled C r s s'"
  using assms
proof (induction clock arbitrary: s)
  case (Cons x clock)
  from flush_pass[OF Cons.prems(1)] show ?case
  proof cases
    case (3 b s1)
    then have b: "\<not> b" using Cons.prems(2) by blast
    have n: "fcount s1 = fcount s" using 3(3) by (simp add: evolves_def)
    show ?thesis
    proof (cases x)
      case True
      then show ?thesis using 3(1-3) b by (auto simp: settled_def)
    next
      case False
      then obtain r s' where "flush_resident_pages E clock s1 = (r, s')" "settled C r s1 s'" using Cons.IH[OF 3(2)] 3(4) n Cons.prems(3) by auto
      then show ?thesis using 3(1)[of x clock] False settled_evolves[OF _ 3(3)] by auto
    qed
  qed blast+
qed simp

lemma flush_resident_pages_ok:
  assumes inv: "inv {} s" and "True \<in> set clock \<or> clock \<noteq> [] \<and> (\<forall>i < fcount s. fr_pin_control (fr s i) = 0)"
  shows "\<exists>r s'. flush_resident_pages E (x # clock) s = (r, s') \<and> settled {} r s s'"
  using flush_pass[OF inv]
proof cases
  case (3 b s1)
  have n: "fcount s1 = fcount s" using 3(3) by (simp add: evolves_def)
  show ?thesis
  proof (cases "\<not> b \<and> x")
    case True
    then show ?thesis using 3(1)[of x clock] 3(2,3) by (auto simp: settled_def)
  next
    case False
    then have run: "flush_resident_pages E (x # clock) s = flush_resident_pages E clock s1" using 3(1)[of x clock] by argo
    have "\<exists>r s'. flush_resident_pages E clock s1 = (r, s') \<and> settled {} r s1 s'"
    proof (cases "True \<in> set clock")
      case True
      then show ?thesis using flush_until_deadline[OF 3(2)] 3(4) n by simp
    next
      case False
      then obtain y ys where c: "clock = y # ys" and p: "\<forall>i < fcount s. fr_pin_control (fr s i) = 0" using assms(2) by (cases clock) auto
      have "\<not> resident s1 i" if i: "i < fcount s" for i
      proof -
        have "fr_pin_control (fr s1 i) = 0" using 3(3) p i not_evicting[OF 3(2), of i] n by (auto simp: evolves_def frames_kept_def)
        then show ?thesis using 3(4) i by blast
      qed
      then have none: "\<not> (\<exists>i < fcount s1. resident s1 i)" using n by simp
      from flush_pass[OF 3(2)] show ?thesis unfolding c by cases (use none in blast)+
    qed
    then show ?thesis using run settled_evolves[OF _ 3(3)] by auto
  qed
qed blast+

section \<open>Shutdown\<close>

text \<open>Every page that has a content has it at the location the directory names.\<close>

definition durable :: "('q, 't, 'p) manager \<Rightarrow> bool" where
  "durable s \<longleftrightarrow> (\<forall>p d. page_view contents s p = Some d \<longrightarrow> (\<exists>l. ents s p = Some l \<and> stored contents (bm_tiers s) l = Some d))"

lemma vacant_durable:
  assumes inv: "inv C s" and none: "\<forall>i < fcount s. \<not> resident s i"
  shows "durable s"
  unfolding durable_def
proof (intro allI impI)
  fix p d assume v: "page_view contents s p = Some d"
  then obtain pc where pc: "bm_pages s p = Some pc" by (auto simp: page_view_def split: option.splits)
  from page_cases[OF inv pc] show "\<exists>l. ents s p = Some l \<and> stored contents (bm_tiers s) l = Some d"
  proof cases
    case (1 i)
    then show ?thesis using none resident_held[OF inv] by blast
  next
    case (2 l)
    then show ?thesis using v pc by (simp add: page_view_def)
  qed
qed

text \<open>The stop flag and the signals; then joining drops the queued prefetch tasks with their frames.\<close>

definition halted :: "('q, 't, 'p) manager \<Rightarrow> ('q, 't, 'p) manager" where
  "halted s = s\<lparr>bm_stopping := True, bm_worker_signal := bm_worker_signal s + 1, bm_cooler_signal := bm_cooler_signal s + 1\<rparr>"

lemma halted_ok:
  assumes "cinv C (s, G)"
  shows "cinv C (halted s, G)" "abs_store contents (halted s, G) = abs_store contents (s, G)"
proof -
  have "inv C (halted s) \<and> page_view contents (halted s) = page_view contents s"
    by (rule inv_fields) (use assms in \<open>simp_all add: halted_def client_inv_def pool_inv_def\<close>)
  then show "cinv C (halted s, G)" "abs_store contents (halted s, G) = abs_store contents (s, G)"
    using assms by (simp_all add: client_inv_def guards_ok_def guard_held_def held_def accounted_def faults_idle_def prefetch_ok_def halted_def abs_store_def)
qed

lemma join_workers_ok:
  assumes ci: "cinv C (s, G)" and live: "live_prefetch_worker (bm_workers s) \<or> bm_prefetch_queue s = []" and stop: "bm_stopping s"
  shows "\<exists>s'. join_workers E s = (if list_ex snd (bm_workers s) then oErr (Io (IoError OtherKind ''a tierbuf background worker panicked'')) else oOk (), s')
    \<and> cinv {} (s', G) \<and> abs_store contents (s', G) = abs_store contents (s, G) \<and> bm_stopping s' = bm_stopping s"
proof -
  let ?s = "s\<lparr>bm_workers := []\<rparr>"
  have "inv C ?s \<and> page_view contents ?s = page_view contents s"
    by (rule inv_fields) (use ci in \<open>simp_all add: client_inv_def pool_inv_def\<close>)
  then have 1: "cinv C (?s, G)" "abs_store contents (?s, G) = abs_store contents (s, G)"
    using ci stop by (simp_all add: client_inv_def guards_ok_def guard_held_def held_def accounted_def faults_idle_def prefetch_ok_def abs_store_def)
  have ok: "inv C ?s" "faults_idle ?s" "prefetch_ok C ?s" using 1(1) by (simp_all add: client_inv_def)
  obtain s' where d: "drain_prefetch E (length (bm_prefetch_queue s)) ?s = (oOk (), s')" "shifts C ?s {} s'" "prefetch_ok {} s'"
    using drain_prefetch_ok[OF ok] by auto
  have c: "cinv {} (s', G)" "abs_store contents (s', G) = abs_store contents (s, G)" "bm_stopping s' = bm_stopping s"
    using client_inv_shifts[OF 1(1) d(2,3)] 1(2) d(2) by (simp_all add: shifts_def same_core_def)
  note run = join_workers_def op_bind_def op_seq_def op_get_def op_modify_def op_when_def op_return_def op_fail_def
  show ?thesis
  proof (cases "live_prefetch_worker (bm_workers s)")
    case True
    then show ?thesis using d(1) c by (intro exI[of _ s']) (simp add: run)
  next
    case False
    then have q: "bm_prefetch_queue s = []" using live by simp
    then have "s' = ?s" using d(1) by (simp add: op_return_def)
    then show ?thesis using False c by (intro exI[of _ s']) (simp add: run)
  qed
qed

lemma guards_none:
  assumes "cinv {} (s, {#})" "i < fcount s"
  shows "fr_pin_control (fr s i) = 0"
  using assms by (simp add: client_inv_def guards_ok_def accounted_def unat_eq_zero)

lemma shutdown_ok:
  assumes ci: "cinv C (s, G)" and live: "live_prefetch_worker (bm_workers s) \<or> bm_prefetch_queue s = []"
    and clock: "True \<in> set clock \<or> clock \<noteq> [] \<and> G = {#}"
  shows "\<exists>r s'. shutdown E (x # clock) s = (r, s') \<and> cinv {} (s', G) \<and> abs_store contents (s', G) = abs_store contents (s, G) \<and> bm_stopping s'
    \<and> (r = oOk () \<and> (\<forall>i < fcount s'. \<not> resident s' i) \<and> durable s' \<and> \<not> list_ex snd (bm_workers s) \<or> (\<exists>e. r = oErr e))"
proof -
  have w: "bm_workers (halted s) = bm_workers s" "bm_prefetch_queue (halted s) = bm_prefetch_queue s" "bm_stopping (halted s)"
    by (simp_all add: halted_def)
  obtain s1 where j: "join_workers E (halted s) = (if list_ex snd (bm_workers s) then oErr (Io (IoError OtherKind ''a tierbuf background worker panicked'')) else oOk (), s1)"
    "cinv {} (s1, G)" "abs_store contents (s1, G) = abs_store contents (s, G)" "bm_stopping s1"
    using join_workers_ok[OF halted_ok(1)[OF ci]] halted_ok(2)[OF ci] live by (auto simp: w)
  have i1: "inv {} s1" using j(2) by (simp add: client_inv_def)
  have "True \<in> set clock \<or> clock \<noteq> [] \<and> (\<forall>i < fcount s1. fr_pin_control (fr s1 i) = 0)" using clock j(2) guards_none[of s1] by auto
  from flush_resident_pages_ok[OF i1 this]
  obtain r s' where f: "flush_resident_pages E (x # clock) s1 = (r, s')" "settled {} r s1 s'" by blast
  have e: "inv {} s'" "serves contents s1 s'" "bm_stopping s'" using f(2) j(4) evolves_serves by (auto simp: settled_def evolves_def)
  note c = client_inv_serves[OF j(2) e(1,2)]
  have "\<forall>i < fcount s'. \<not> resident s' i \<Longrightarrow> durable s'" by (rule vacant_durable[OF e(1)])
  moreover have "shutdown E (x # clock) s = (case r of oErr e \<Rightarrow> oErr e | _ \<Rightarrow> fst (join_workers E (halted s)), s')"
    using j(1) f(1) f(2) by (auto simp: shutdown_def op_seq_def op_bind_def op_modify_def notify_workers_def notify_cooler_def halted_def op_try_def
        op_return_def op_fail_def settled_def simp del: flush_resident_pages.simps)
  ultimately show ?thesis using f(2) c j e(3) by (cases r) (auto simp: settled_def)
qed

section \<open>Dropping the manager\<close>

text \<open>A handle that \<open>drop\<close> visits: its page and, as in every reachable state, where it points.\<close>

definition visited :: "('q, 't, 'p) manager \<Rightarrow> page_id \<Rightarrow> handle \<Rightarrow> bool" where
  "visited s p h \<longleftrightarrow> pid_is_valid p \<and> (\<exists>c. bm_swips s h = Some c \<and> swip_wf c)
     \<and> ((\<exists>a. addr_ok a \<and> (swst s h = Some (Hot a) \<or> swst s h = Some (Cooling a))) \<or> swst s h = Some (Evicted p))"

lemma page_visited:
  assumes inv: "inv C s" and pc: "bm_pages s p = Some pc"
  shows "visited s p (pc_swip pc)"
proof -
  obtain c where c: "pid_is_valid p" "bm_swips s (pc_swip pc) = Some c" using pool_inv_page[OF inv pc] by (auto simp: page_inv_def)
  moreover have "swip_wf c" using pool_inv_cell[OF inv c(2)] by (simp add: cell_inv_def)
  moreover have "addr_ok (addr s i)" if "i < fcount s" for i using slice_addr_facts(2)[OF pool_inv_slice[OF inv] that] by simp
  ultimately show ?thesis using page_cases[OF inv pc] unfolding visited_def held_def by metis
qed

lemma unswizzle_handle_ok:
  assumes "visited s p h"
  shows "\<exists>m. unswizzle_handle 2 p h s = (oOk (), s\<lparr>bm_swips := m\<rparr>) \<and> cell_state m h = Some (Evicted p) \<and> (\<forall>k. k \<noteq> h \<longrightarrow> m k = bm_swips s k)"
proof -
  obtain c where c: "pid_is_valid p" "bm_swips s h = Some c" "swip_wf c" using assms by (auto simp: visited_def)
  note run = numeral_2_eq_2 op_bind_def op_seq_def op_return_def load_swip_ok cas_mark_cooling cas_unswizzle
  have cool: "\<exists>m. unswizzle_handle (Suc n) p h s1 = (oOk (), s1\<lparr>bm_swips := m\<rparr>) \<and> cell_state m h = Some (Evicted p) \<and> (\<forall>k. k \<noteq> h \<longrightarrow> m k = bm_swips s1 k)"
    if "swst s1 h = Some (Cooling a)" "addr_ok a" "bm_swips s1 h = Some c1" "swip_wf c1" for s1 :: "('q, 't, 'p) manager" and a c1 n
    using that c cell_state_move[of "Evicted p" "bm_swips s1" h h]
    by (intro exI[of _ "move_cell h (Evicted p) (bm_swips s1)"]) (simp add: run, simp add: move_cell_def)
  consider (hot) a where "addr_ok a" "swst s h = Some (Hot a)" | (cooling) a where "addr_ok a" "swst s h = Some (Cooling a)" | (evicted) "swst s h = Some (Evicted p)"
    using assms by (auto simp: visited_def)
  then show ?thesis
  proof cases
    case hot
    let ?s1 = "move_swip h (Cooling a) s"
    have st: "swst ?s1 h = Some (Cooling a)" using hot cell_state_move[of "Cooling a" "bm_swips s" h h] by simp
    have cl: "bm_swips ?s1 h = Some (c\<lparr>sw_word := encode_state (Cooling a)\<rparr>)" using c by (simp add: move_cell_def)
    have "swip_wf (c\<lparr>sw_word := encode_state (Cooling a)\<rparr>)" using c(3) hot(1) decode_encode_state[of "Cooling a"] by (simp add: swip_wf_def)
    from cool[OF st hot(1) cl this, of 0]
    obtain m where "unswizzle_handle 1 p h ?s1 = (oOk (), ?s1\<lparr>bm_swips := m\<rparr>)" "cell_state m h = Some (Evicted p)" "\<forall>k. k \<noteq> h \<longrightarrow> m k = bm_swips ?s1 k" by auto
    moreover have "unswizzle_handle 2 p h s = unswizzle_handle 1 p h ?s1" using hot c by (simp add: run)
    ultimately show ?thesis by (intro exI[of _ m]) (simp add: move_cell_def)
  next
    case cooling
    from cool[OF cooling(2,1) c(2,3), of 1] show ?thesis by (simp add: numeral_2_eq_2)
  next
    case evicted
    then show ?thesis by (intro exI[of _ "bm_swips s"]) (simp add: run)
  qed
qed

lemma drop_pages_ok:
  assumes "distinct ps" "\<forall>p \<in> set ps. \<forall>pc. bm_pages s p = Some pc \<longrightarrow> visited s p (pc_swip pc)"
    "\<And>p q pc qc. bm_pages s p = Some pc \<Longrightarrow> bm_pages s q = Some qc \<Longrightarrow> pc_swip pc = pc_swip qc \<Longrightarrow> p = q"
  shows "\<exists>m. drop_pages ps s = (oOk (), s\<lparr>bm_swips := m\<rparr>) \<and> (\<forall>p \<in> set ps. \<forall>pc. bm_pages s p = Some pc \<longrightarrow> cell_state m (pc_swip pc) = Some (Evicted p))
    \<and> (\<forall>k. (\<forall>p \<in> set ps. map_option pc_swip (bm_pages s p) \<noteq> Some k) \<longrightarrow> m k = bm_swips s k)"
  using assms
proof (induction ps arbitrary: s)
  case Nil
  then show ?case by (intro exI[of _ "bm_swips s"]) (simp add: op_return_def)
next
  case (Cons p ps)
  show ?case
  proof (cases "bm_pages s p")
    case None
    then have "drop_pages (p # ps) s = drop_pages ps s" by (simp add: op_bind_def op_get_def op_seq_def op_return_def)
    then show ?thesis using Cons.IH[of s] Cons.prems None by auto
  next
    case (Some pc)
    then obtain m1 where m1: "unswizzle_handle 2 p (pc_swip pc) s = (oOk (), s\<lparr>bm_swips := m1\<rparr>)" "cell_state m1 (pc_swip pc) = Some (Evicted p)"
      "\<forall>k. k \<noteq> pc_swip pc \<longrightarrow> m1 k = bm_swips s k" using unswizzle_handle_ok[of s p "pc_swip pc"] Cons.prems(2) by auto
    let ?s1 = "s\<lparr>bm_swips := m1\<rparr>"
    have other: "pc_swip qc \<noteq> pc_swip pc" if "q \<in> set ps" "bm_pages s q = Some qc" for q qc
      using Cons.prems(1,3) that Some by (metis distinct.simps(2))
    have "visited ?s1 q (pc_swip qc)" if "q \<in> set ps" "bm_pages s q = Some qc" for q qc
      using Cons.prems(2) that other[OF that] m1(3) by (auto simp: visited_def cell_state_def)
    moreover have "distinct ps" "\<And>p q pc qc. bm_pages ?s1 p = Some pc \<Longrightarrow> bm_pages ?s1 q = Some qc \<Longrightarrow> pc_swip pc = pc_swip qc \<Longrightarrow> p = q"
      using Cons.prems(1,3) by auto
    ultimately obtain m where m: "drop_pages ps ?s1 = (oOk (), ?s1\<lparr>bm_swips := m\<rparr>)"
      "\<forall>q \<in> set ps. \<forall>qc. bm_pages s q = Some qc \<longrightarrow> cell_state m (pc_swip qc) = Some (Evicted q)"
      "\<forall>k. (\<forall>q \<in> set ps. map_option pc_swip (bm_pages s q) \<noteq> Some k) \<longrightarrow> m k = m1 k" using Cons.IH[of ?s1] by auto
    have "m (pc_swip pc) = m1 (pc_swip pc)" using m(3) other by fastforce
    then have "cell_state m (pc_swip pc) = Some (Evicted p)" using m1(2) by (simp add: cell_state_def)
    moreover have "drop_pages (p # ps) s = (oOk (), s\<lparr>bm_swips := m\<rparr>)" using Some m1(1) m(1) by (simp add: op_bind_def op_get_def op_seq_def)
    ultimately show ?thesis using m(2,3) m1(3) Some by (intro exI[of _ m]) auto
  qed
qed

lemma manager_drop_ok:
  assumes inv: "inv C s" and ps: "distinct ps" "set ps = dom (bm_pages s)"
  shows "\<exists>s'. manager_drop ps s = (oOk (), s') \<and> bm_stopping s' \<and> bm_pages s' = bm_pages s \<and> bm_tiers s' = bm_tiers s \<and> bm_directory s' = bm_directory s
    \<and> (\<forall>p pc. bm_pages s p = Some pc \<longrightarrow> swst s' (pc_swip pc) = Some (Evicted p))"
proof -
  have pg: "bm_pages (halted s) = bm_pages s" "bm_swips (halted s) = bm_swips s" by (simp_all add: halted_def)
  have inj: "p = q" if "bm_pages s p = Some pc" "bm_pages s q = Some qc" "pc_swip pc = pc_swip qc" for p q pc qc
    using pool_inv_page[OF inv that(1)] pool_inv_page[OF inv that(2)] that(3) by (auto simp: page_inv_def)
  have "\<forall>p \<in> set ps. \<forall>pc. bm_pages (halted s) p = Some pc \<longrightarrow> visited (halted s) p (pc_swip pc)"
    using page_visited[OF inv] by (auto simp: pg visited_def)
  from drop_pages_ok[OF ps(1) this] inj obtain m where m: "drop_pages ps (halted s) = (oOk (), (halted s)\<lparr>bm_swips := m\<rparr>)"
    "\<forall>p \<in> set ps. \<forall>pc. bm_pages s p = Some pc \<longrightarrow> cell_state m (pc_swip pc) = Some (Evicted p)" unfolding pg by blast
  have "manager_drop ps s = (oOk (), (halted s)\<lparr>bm_swips := m\<rparr>)"
    using m(1) by (simp add: manager_drop_def op_seq_def op_bind_def op_modify_def notify_workers_def notify_cooler_def halted_def)
  then show ?thesis using m(2) ps(2) by (intro exI[of _ "(halted s)\<lparr>bm_swips := m\<rparr>"]) (auto simp: halted_def)
qed

end

end
