(* ===== verification/Pool_Start.thy ===== *)
theory Pool_Start
  imports Pool_Shutdown File_Tier
begin

text \<open>
  The manager that \<open>BufferManager::new\<close> builds (src/crates/tierbuf/src/pool.rs) satisfies the
  invariant, holds no page and can allocate; the states reached from it and what holds in all of them;
  the pool over the two tiers of the repository; and a small pool for the witnesses.
\<close>

text \<open>What the allocator guarantees for the boxed slice of frames of a pool of \<open>bytes\<close> bytes.\<close>

definition slice_fits :: "nat \<Rightarrow> nat \<Rightarrow> nat \<Rightarrow> bool" where
  "slice_fits base elem bytes \<longleftrightarrow> 0 < base \<and> 4 dvd base \<and> 4 dvd elem \<and> 0 < elem \<and> base + elem * (bytes div PAGE_SIZE) < 2 ^ 64"

definition empty_store :: store where
  "empty_store = \<lparr>st_pages = Map.empty, st_holds = {#}\<rparr>"

text \<open>A new pool, and what its clients and its threads reach from it by the events \<open>es\<close>.\<close>

definition started :: "('q, 't, 'p) env \<Rightarrow> ('t \<Rightarrow> bool) \<Rightarrow> ('q, 't, 'p) manager \<Rightarrow> bool" where
  "started E tok s \<longleftrightarrow> (\<exists>mmap base elem config policy w w'. new_with_policy E mmap base elem config policy w = (oOk s, w')
     \<and> slice_fits base elem (cfg_dram_pool_bytes config) \<and> (\<forall>t \<in> set (cfg_tiers config). tok t) \<and> w \<noteq> 0)"

definition pool_reaches :: "('q, 't, 'p) env \<Rightarrow> ('t \<Rightarrow> bool) \<Rightarrow> event list \<Rightarrow> ('q, 't, 'p) manager \<times> guard multiset \<Rightarrow> bool" where
  "pool_reaches E tok es y \<longleftrightarrow> (\<exists>s. started E tok s \<and> pool_run E (s, {#}) es y)"

definition no_panic :: "('s, 'a) operation \<Rightarrow> 's \<Rightarrow> bool" where
  "no_panic f s \<longleftrightarrow> (\<forall>m. fst (f s) \<noteq> oPanic m)"

text \<open>Same pages, and every pinned or reserved frame is as it was.\<close>

definition undisturbed :: "('t \<Rightarrow> nat \<Rightarrow> page option) \<Rightarrow> ('q, 't, 'p) manager \<Rightarrow> ('q, 't, 'p) manager \<Rightarrow> bool" where
  "undisturbed contents s s' \<longleftrightarrow> page_view contents s' = page_view contents s
     \<and> (\<forall>i < fcount s. fr_pin_control (fr s i) \<noteq> 0 \<longrightarrow> fr s' i = fr s i \<and> fdata s' i = fdata s i)"

lemma evolves_undisturbed: "evolves contents s s' \<Longrightarrow> undisturbed contents s s'"
  by (auto simp: undisturbed_def evolves_def frames_kept_def)

lemma serves_undisturbed: "serves contents s s' \<Longrightarrow> undisturbed contents s s'"
  by (auto simp: undisturbed_def serves_def frames_kept_def)

lemma blank_frame_new: "blank frame_new" "fr_pin_control frame_new = 0"
  by (simp_all add: blank_def frame_new_def latch_new_def latch_state_def)

lemma start_workers_live: "live_prefetch_worker start_workers"
  by (simp add: live_prefetch_worker_def start_workers_def PREFETCH_WORKERS_def upt_rec)

context buffer_pool
begin

lemma new_table:
  assumes "frame_table_new (en_queue E) mmap base elem bytes = oOk t" "slice_fits base elem bytes"
  shows "table_inv elems cap t" "tfr t i = frame_new \<or> \<not> i < frame_count t" "tfree t i \<or> \<not> i < frame_count t" "elems (ft_free t) = [0..<frame_count t]"
    "frame_count t = bytes div PAGE_SIZE"
proof -
  obtain p where p: "aligned_pool_new mmap bytes = Inr p" using assms(1) by (auto simp: frame_table_new_def split: sum.splits)
  have pc: "ap_frame_count p = bytes div PAGE_SIZE" "0 < ap_frame_count p"
  proof -
    have "ap_frame_count p = bytes div PAGE_SIZE \<and> bytes \<noteq> 0 \<and> bytes mod PAGE_SIZE = 0"
      using p by (auto simp: aligned_pool_new_def checked_add_u64_def Let_def split: if_splits option.splits sum.splits)
    then show "ap_frame_count p = bytes div PAGE_SIZE" "0 < ap_frame_count p" by (auto simp: div_greater_zero_iff mod_eq_0_iff_dvd dvd_imp_le)
  qed
  have T: "free_inv elems cap t" "frame_count t = ap_frame_count p" "ft_pool t = p" "elems (ft_free t) = [0..<ap_frame_count p]"
    "ft_frames t = replicate (ap_frame_count p) frame_new" "ft_data t = replicate (ap_frame_count p) (replicate PAGE_SIZE 0)" "ft_base t = base" "ft_elem t = elem"
    using queue.frame_table_new_ok[OF p, of base elem] assms(1) by auto
  have "slice_ok t" using assms(2) pc by (simp add: slice_ok_def slice_fits_def T)
  moreover have "\<forall>i < frame_count t. \<exists>a. frame_ptr (ft_pool t) i = oOk a" by (simp add: frame_ptr_def T)
  moreover have "length (ft_data t) = frame_count t \<and> (\<forall>d \<in> set (ft_data t). length d = PAGE_SIZE)" by (simp add: T)
  ultimately show "table_inv elems cap t" using T(1,2) pc by (simp add: table_inv_def)
  show "tfr t i = frame_new \<or> \<not> i < frame_count t" by (cases "i < frame_count t") (simp_all add: tfr_def T)
  have "\<forall>i < frame_count t. ft_free_membership t ! i \<longleftrightarrow> i \<in> set (elems (ft_free t))" using T(1) by (simp add: free_inv_def)
  then show "tfree t i \<or> \<not> i < frame_count t" unfolding tfree_def T(2,4) by (cases "i < ap_frame_count p") simp_all
  show "elems (ft_free t) = [0..<frame_count t]" "frame_count t = bytes div PAGE_SIZE" using T(2,4) pc by simp_all
qed

lemma new_with_policy_ok:
  assumes "new_with_policy E mmap base elem config policy w = (oOk s, w')" "slice_fits base elem (cfg_dram_pool_bytes config)"
    "\<forall>t \<in> set (cfg_tiers config). tok t" "w \<noteq> 0"
  shows "cinv {} (s, {#})" "abs_store contents (s, {#}) = empty_store" "elems (ft_free (bm_frames s)) = [0..<fcount s]" "0 < fcount s"
    "\<not> bm_stopping s" "bm_next_pid s = 0" "bm_id s = w" "w' = w + 1" "bm_low_watermark s = max (div_ceil (fcount s) 10) 1"
    "fcount s = cfg_dram_pool_bytes config div PAGE_SIZE" "bm_tiers s = cfg_tiers config"
    "bm_cooling_target s = f_as_u64 (f_ceil (f_mul (f_of_nat (fcount s)) (cfg_cooling_ratio config)))"
proof -
  have v: "of_result (validate_config config) w = (oOk (), w)" if "of_result (validate_config config) w = (oOk (), w0)" for w0
    using that by (cases "validate_config config") (simp_all add: op_return_def op_fail_def)
  obtain t where t: "frame_table_new (en_queue E) mmap base elem (cfg_dram_pool_bytes config) = oOk t"
    and f: "bm_frames s = t" "bm_pages s = Map.empty" "bm_swips s = Map.empty" "bm_directory s = \<lparr>pd_entries = Map.empty, pd_lookups = 0\<rparr>"
      "bm_prefetch_queue s = []" "bm_prefetch_running s = None" "bm_prefetch_in_flight s = 0" "bm_prefetch_pending s = {}" "bm_workers s = start_workers"
      "bm_tiers s = cfg_tiers config" "bm_stats s = stats_new (map (tb_name (en_tier E)) (cfg_tiers config))"
    and g: "\<not> bm_stopping s" "bm_next_pid s = 0" "bm_id s = w" "w' = w + 1" "bm_low_watermark s = max (div_ceil (fcount s) 10) 1"
      "bm_cooling_target s = f_as_u64 (f_ceil (f_mul (f_of_nat (fcount s)) (cfg_cooling_ratio config)))"
    using assms(1) v
    by (auto simp: new_with_policy_def op_seq_def op_bind_def op_outcome_def op_return_def op_fail_def Let_def allocate_manager_id_def
        try_update_def try_update_loop_quiet atomic_update_def checked_add_Some
        split: sum.splits outcome.splits option.splits prod.splits)
  show "\<not> bm_stopping s" "bm_next_pid s = 0" "bm_id s = w" "w' = w + 1" "bm_low_watermark s = max (div_ceil (fcount s) 10) 1"
    "bm_cooling_target s = f_as_u64 (f_ceil (f_mul (f_of_nat (fcount s)) (cfg_cooling_ratio config)))" using g by simp_all
  note T = new_table[OF t assms(2)]
  show "bm_tiers s = cfg_tiers config" "elems (ft_free (bm_frames s)) = [0..<fcount s]" "0 < fcount s" "fcount s = cfg_dram_pool_bytes config div PAGE_SIZE"
    using T f by (auto simp: table_inv_def)
  have "frame_inv contents {} s i" if "i < fcount s" for i
    using T(2,3)[of i] that f(1) blank_frame_new by (auto simp: frame_inv_def)
  then have "inv {} s" using T(1) f g(3) assms(3,4) by (simp add: pool_inv_def dir_inv_def stats_new_def)
  moreover have "accounted {#} s i" if "i < fcount s" for i
    using T(2)[of i] that f(1) blank_frame_new by (auto simp: accounted_def blank_def)
  ultimately show "cinv {} (s, {#})" using f(2,5-9) start_workers_live by (simp add: client_inv_def guards_ok_def faults_idle_def prefetch_ok_def)
  show "abs_store contents (s, {#}) = empty_store" using f(2) by (simp add: abs_store_def empty_store_def page_view_def fun_eq_iff)
qed

lemma pool_run_refines:
  assumes "pool_run E x es y" "cinv C x"
  shows "\<exists>C'. cinv C' y \<and> store_run (abs_store contents x) es (abs_store contents y)"
  using assms
proof (induction rule: pool_run.induct)
  case (run_done x)
  then show ?case using store_done by blast
next
  case (run_more x es y e z)
  then show ?case using pool_step_refines store_more by meson
qed

lemma reaches_ok:
  assumes "pool_reaches E tok es y"
  obtains C where "cinv C y" "store_run empty_store es (abs_store contents y)"
proof -
  obtain s where s: "started E tok s" "pool_run E (s, {#}) es y" using assms by (auto simp: pool_reaches_def)
  then have "cinv {} (s, {#})" "abs_store contents (s, {#}) = empty_store" using new_with_policy_ok unfolding started_def by blast+
  then show ?thesis using pool_run_refines[OF s(2)] that by auto
qed

text \<open>While a frame is free, an allocation succeeds.\<close>

lemma acquire_free:
  assumes inv: "inv C s" and run: "\<not> bm_stopping s" and free: "elems (ft_free (bm_frames s)) \<noteq> []"
  shows "\<exists>i s'. acquire_frame E s = (oOk i, s')"
proof -
  obtain i q where "elems (ft_free (bm_frames s)) = i # q" using free by (cases "elems (ft_free (bm_frames s))") auto
  moreover have "free_inv elems cap (bm_frames s)" using pool_inv_table[OF inv] by (simp add: table_inv_def)
  ultimately have "on_frames (pop_free (en_queue E)) s \<noteq> (oOk None, s)"
    using queue.pop_free_front[of "bm_frames s" i q] by (auto simp: on_frames_def op_lift_def)
  then obtain j s1 s2 where "on_frames (pop_free (en_queue E)) s = (oOk (Some j), s1)" "free_frame_from_index j s1 = (oOk j, s2)"
    using pop_checkout[OF inv] by metis
  then show ?thesis using run by (simp add: acquire_frame_def op_seq_def op_bind_def ensure_running_def)
qed

lemma allocate_free:
  assumes inv: "inv C s" and run: "\<not> bm_stopping s" and free: "elems (ft_free (bm_frames s)) \<noteq> []" and pid: "bm_next_pid s \<le> PID_MAX"
  shows "\<exists>g s'. allocate E s = (oOk g, s')"
proof -
  obtain i s1 where A: "acquire_frame E s = (oOk i, s1)" using acquire_free[OF assms(1-3)] by blast
  then have "acquired C (oOk i) s s1" using acquire_frame_ok[OF inv] by auto
  note ev = acquired_fresh(5)[OF inv this]
  obtain g s' where a: "allocate_into E i (bm_next_pid s) (s1\<lparr>bm_next_pid := bm_next_pid s + 1\<rparr>) = (oOk g, s')"
    using allocate_into_ok[OF inv \<open>acquired C (oOk i) s s1\<close> pid] by blast
  have "bm_next_pid s1 = bm_next_pid s" using ev by (simp add: evolves_def)
  then show ?thesis using a A run pid
    by (auto simp: allocate_def op_seq_def op_bind_def ensure_running_def op_try_def allocate_pid_eq)
qed

section \<open>In every reachable state\<close>

lemma view_defined:
  assumes inv: "inv C s" and pc: "bm_pages s p = Some pc"
  shows "\<exists>d. page_view contents s p = Some d"
  using page_cases[OF inv pc]
proof cases
  case (1 i)
  then show ?thesis using guard_read(2)[OF inv 1] by blast
next
  case (2 l)
  then have "stored contents (bm_tiers s) l \<noteq> None" using pool_inv_dir[OF inv] by (simp add: dir_inv_def)
  then show ?thesis using 2 pc by (simp add: page_view_def)
qed

lemma view_length:
  assumes inv: "inv C s" and v: "page_view contents s p = Some d"
  shows "length d = PAGE_SIZE"
proof -
  obtain pc where pc: "bm_pages s p = Some pc" using v by (auto simp: page_view_def split: option.splits)
  from page_cases[OF inv pc] show ?thesis
  proof cases
    case (1 i)
    then show ?thesis using guard_read[OF inv 1] v by simp
  next
    case (2 l)
    then have "stored contents (bm_tiers s) l = Some d" using v pc by (simp add: page_view_def)
    moreover have "\<forall>t \<in> set (bm_tiers s). tok t" using inv by (simp add: pool_inv_def)
    ultimately show ?thesis using tiers.page_law nth_mem by (fastforce simp: stored_def split: if_splits)
  qed
qed

text \<open>The guards on a page are those on its frame.\<close>

lemma guards_of_page:
  assumes "cinv C (s, G)" "g \<in># G" "i < fcount s" "held s i p h" "guard_pid g = p \<or> guard_swip g = h"
  shows "guard_index g = i" "guard_swip g = h" "guard_pid g = p"
proof -
  have inv: "inv C s" "guards_ok C G s" using assms(1) by (simp_all add: client_inv_def)
  note P = guard_pinned[OF inv assms(2)]
  show "guard_index g = i" "guard_swip g = h" "guard_pid g = p" using held_unique[OF inv(1) P(3) assms(4) P(1) assms(3,5)] by simp_all
qed

lemma exclusive_alone:
  assumes ci: "cinv C (s, G)" and g: "ExclusiveGuard g \<in># G" "g' \<in># G - {#ExclusiveGuard g#}"
  shows "guard_pid g' \<noteq> eg_pid g"
proof
  assume e: "guard_pid g' = eg_pid g"
  have inv: "inv C s" "guards_ok C G s" using ci by (simp_all add: client_inv_def)
  note P = guard_pinned[OF inv g(1), simplified]
  have "guard_index g' = eg_index g" using guards_of_page(1)[OF ci in_diffD[OF g(2)] P(1,3)] e by blast
  then have "g' \<in># guards_at (eg_index g) G - {#ExclusiveGuard g#}" using g by (auto simp: in_diff_count)
  moreover have "latched (guards_at (eg_index g) G) (latch_state (fr_latch (fr s (eg_index g))))" using P(4) by (simp add: accounted_def)
  then have "guards_at (eg_index g) G = {#ExclusiveGuard g#}" by (rule latched_exclusive(1)) (use g(1) in simp)
  ultimately show False by simp
qed

lemma exclusive_only:
  assumes ci: "cinv C (s, G)" and g: "ExclusiveGuard g \<in># G"
  shows "filter_mset (\<lambda>x. guard_pid x = eg_pid g) G = {#ExclusiveGuard g#}"
proof -
  have "filter_mset (\<lambda>x. guard_pid x = eg_pid g) (G - {#ExclusiveGuard g#}) = {#}"
    using exclusive_alone[OF ci g] by (metis (mono_tags, lifting) filter_mset_False filter_mset_cong)
  then show ?thesis using insert_DiffM[OF g] by (metis (mono_tags, lifting) filter_mset_add_mset guard_pid.simps(2))
qed

text \<open>A fix waits only for guards on its page.\<close>

lemma fix_waits:
  assumes ci: "cinv C (s, G)" and i: "i < fcount s" "held s i p h"
  shows "guards_at i G = filter_mset (\<lambda>g. guard_swip g = h) G" "latched (filter_mset (\<lambda>g. guard_swip g = h) G) (latch_state (fr_latch (fr s i)))"
    "unat (fr_pin_control (fr s i)) = size (filter_mset (\<lambda>g. guard_swip g = h) G)"
proof -
  have inv: "inv C s" "guards_ok C G s" using ci by (simp_all add: client_inv_def)
  have "guard_index g = i \<longleftrightarrow> guard_swip g = h" if g: "g \<in># G" for g
  proof
    assume "guard_index g = i"
    then show "guard_swip g = h" using guard_pinned(3)[OF inv g] i(2) by (simp add: held_def)
  next
    assume "guard_swip g = h"
    then show "guard_index g = i" using guards_of_page(1)[OF ci g i] by simp
  qed
  then show e: "guards_at i G = filter_mset (\<lambda>g. guard_swip g = h) G" by (intro filter_mset_cong) auto
  have "accounted G s i" using inv(2) i(1) held_occupied(2)[OF inv(1) i] by (simp add: guards_ok_def)
  then show "latched (filter_mset (\<lambda>g. guard_swip g = h) G) (latch_state (fr_latch (fr s i)))"
    "unat (fr_pin_control (fr s i)) = size (filter_mset (\<lambda>g. guard_swip g = h) G)" by (simp_all add: accounted_def e)
qed

lemma shared_busy:
  assumes "cinv C (s, G)" "i < fcount s" "held s i p h" "\<not> shared_free (fr s i)"
  shows "\<exists>g \<in># G. guard_swip g = h"
proof (rule ccontr)
  assume "\<not> (\<exists>g \<in># G. guard_swip g = h)"
  then have e: "filter_mset (\<lambda>g. guard_swip g = h) G = {#}" by (metis (mono_tags, lifting) filter_mset_False filter_mset_cong)
  show False using fix_waits(2,3)[OF assms(1-3)] assms(4) unfolding e by (simp add: shared_free_def word_less_nat_alt unat_MAX_SHARED)
qed

lemma fix_shared_returns:
  assumes ci: "cinv C (s, G)" and h: "h \<in> dom (bm_swips s)" "2 \<le> fuel"
    and few: "size (filter_mset (\<lambda>g. guard_swip g = h) G) < 2 ^ 16 - 2" "\<forall>g \<in># G. guard_swip g = h \<longrightarrow> \<not> is_exclusive g"
  shows "\<exists>r s'. fix_shared_with E fuel h hint s = (r, s') \<and> ((\<exists>g. r = oOk g) \<or> (\<exists>e. r = oErr e))"
proof -
  have free: "shared_free (fr s i)" if i: "i < fcount s" "held s i p h" for i p
  proof -
    note W = fix_waits[OF ci i]
    let ?M = "filter_mset (\<lambda>g. guard_swip g = h) G"
    have "unat (latch_state (fr_latch (fr s i))) = size ?M"
    proof (cases "\<exists>g. ?M = {#ExclusiveGuard g#}")
      case True
      then obtain g where "ExclusiveGuard g \<in># ?M" by (metis union_single_eq_member)
      then show ?thesis using few(2) by auto
    next
      case False
      then show ?thesis using W(2) unfolding latched_def by auto
    qed
    then show ?thesis using W(3) few(1) by (simp add: shared_free_def word_less_nat_alt unat_MAX_SHARED)
  qed
  show ?thesis by (rule fix_shared_step[OF ci h, of hint]) (use free in auto)
qed

lemma fix_exclusive_returns:
  assumes ci: "cinv C (s, G)" and h: "h \<in> dom (bm_swips s)" "2 \<le> fuel" and none: "\<forall>g \<in># G. guard_swip g \<noteq> h"
  shows "\<exists>r s'. fix_exclusive E fuel h s = (r, s') \<and> ((\<exists>g. r = oOk g) \<or> (\<exists>e. r = oErr e))"
proof -
  have e: "filter_mset (\<lambda>g. guard_swip g = h) G = {#}" using none by (metis (mono_tags, lifting) filter_mset_False filter_mset_cong)
  have free: "exclusive_free (fr s i)" if i: "i < fcount s" "held s i p h" for i p
    using fix_waits(2,3)[OF ci i] unfolding e by (simp add: exclusive_free_def)
  show ?thesis by (rule fix_exclusive_step[OF ci h]) (use free in auto)
qed

end

section \<open>The pool on the tiers of the repository\<close>

definition mock_env :: "(nat list \<times> nat, mock_tier, economic_policy) env" where
  "mock_env = \<lparr>en_queue = list_queue, en_tier = mock_ops, en_policy = economic_ops\<rparr>"

definition file_env :: "(nat list \<times> nat, file_tier, economic_policy) env" where
  "file_env = \<lparr>en_queue = list_queue, en_tier = file_ops, en_policy = economic_ops\<rparr>"

interpretation mock_pool: buffer_pool mock_env fst snd mock_contents mock_wf
  unfolding mock_env_def buffer_pool_def using lq.array_queue_axioms mock.tier_backend_axioms economic.placement_policy_axioms by simp

interpretation file_pool: buffer_pool file_env fst snd file_contents file_wf
  unfolding file_env_def buffer_pool_def using lq.array_queue_axioms filet.tier_backend_axioms economic.placement_policy_axioms by simp

section \<open>A small pool\<close>

text \<open>Two frames over one in-memory tier of four pages.\<close>

type_synonym mock_manager = "(nat list \<times> nat, mock_tier, economic_policy) manager"

definition demo_tier :: mock_tier where
  "demo_tier = \<lparr>mt_name = ''mock'', mt_capacity_bytes = 4 * PAGE_SIZE, mt_slot_count = 4, mt_price_gb_month = f_zero,
     mt_latency = latency_default, mt_write_budget = None, mt_state = mock_state_default\<rparr>"

definition demo_config :: "mock_tier buf_config" where
  "demo_config = \<lparr>cfg_dram_pool_bytes = 2 * PAGE_SIZE, cfg_cooling_ratio = F_Fin False (1 / 2), cfg_eviction_mode = Watermark,
     cfg_economics = economics_default, cfg_tiers = [demo_tier]\<rparr>"

definition demo_policy :: economic_policy where
  "demo_policy = \<lparr>ep_config = economic_config_default, ep_heat = heat_tracker_new\<rparr>"

lemma demo_tier_wf: "mock_wf demo_tier"
  by (auto simp: demo_tier_def mock_wf_def slots_wf_def mock_state_default_def PAGE_SIZE_def)

lemma demo_slice: "slice_fits 64 72 (cfg_dram_pool_bytes demo_config)"
  by (simp add: slice_fits_def demo_config_def PAGE_SIZE_def)

lemma demo_new: "\<exists>s. new_with_policy mock_env (\<lambda>_. Inr 0) 64 72 demo_config demo_policy 1 = (oOk s, 2)"
proof -
  have "validate_config demo_config = Inr ()"
    by (simp add: validate_config_def demo_config_def PAGE_SIZE_def economics_default_def f_zero_def f_signed_def)
  moreover obtain p where "aligned_pool_new (\<lambda>_. Inr 0) (2 * PAGE_SIZE) = Inr p"
    by (simp add: aligned_pool_new_def checked_add_u64_def PAGE_SIZE_def)
  then obtain t where "frame_table_new list_queue (\<lambda>_. Inr 0) 64 72 (2 * PAGE_SIZE) = oOk t"
    using lq.frame_table_new_ok[of "\<lambda>_. Inr 0" "2 * PAGE_SIZE" p 64 72] by blast
  ultimately show ?thesis
    by (simp add: new_with_policy_def op_seq_def op_bind_def op_return_def op_outcome_def allocate_manager_id_def try_update_def
        try_update_loop_quiet atomic_update_def checked_add_def mock_env_def demo_config_def residency_new_def price_valid_def
        economics_default_def Let_def)
qed

text \<open>The small pool, just created and after one allocation.\<close>

lemma demo_start:
  obtains s where "new_with_policy mock_env (\<lambda>_. Inr 0) 64 72 demo_config demo_policy 1 = (oOk s, 2)"
    "client_inv fst snd mock_contents mock_wf {} (s, {#})" "\<not> bm_stopping s" "bm_next_pid s = 0" "fst (ft_free (bm_frames s)) = [0, 1]"
    "bm_pages s = Map.empty"
proof -
  obtain s where s: "new_with_policy mock_env (\<lambda>_. Inr 0) 64 72 demo_config demo_policy 1 = (oOk s, 2)" using demo_new by blast
  have t: "\<forall>t \<in> set (cfg_tiers demo_config). mock_wf t" using demo_tier_wf by (simp add: demo_config_def)
  note N = mock_pool.new_with_policy_ok[OF s demo_slice t]
  have "fcount s = 2" using N(10) by (simp add: demo_config_def PAGE_SIZE_def)
  moreover have "bm_pages s p = None" for p
  proof (rule ccontr)
    assume "bm_pages s p \<noteq> None"
    then obtain d where "page_view mock_contents s p = Some d" using mock_pool.view_defined N(1) by (metis client_inv_def fst_conv not_None_eq one_neq_zero)
    moreover have "st_pages (abs_store mock_contents (s, {#})) p = None" using N(2) by (simp add: empty_store_def)
    ultimately show False by simp
  qed
  ultimately show ?thesis using that[OF s] N by (simp add: upt_rec fun_eq_iff)
qed

lemma demo_allocate:
  obtains s g s1 where "new_with_policy mock_env (\<lambda>_. Inr 0) 64 72 demo_config demo_policy 1 = (oOk s, 2)"
    "client_inv fst snd mock_contents mock_wf {} (s, {#})" "allocate mock_env s = (oOk g, s1)" "\<not> bm_stopping s" "bm_next_pid s = 0"
    "bm_pages s = Map.empty"
    "client_inv fst snd mock_contents mock_wf {} (s1, {#ExclusiveGuard g#})" "bm_swips s1 (eg_swip g) \<noteq> None"
proof -
  obtain s where s: "new_with_policy mock_env (\<lambda>_. Inr 0) 64 72 demo_config demo_policy 1 = (oOk s, 2)"
    "client_inv fst snd mock_contents mock_wf {} (s, {#})" "\<not> bm_stopping s" "bm_next_pid s = 0" "fst (ft_free (bm_frames s)) = [0, 1]"
    "bm_pages s = Map.empty" by (rule demo_start)
  have inv: "pool_inv fst snd mock_contents mock_wf {} s" using s(2) by (simp add: client_inv_def)
  obtain g s1 where a: "allocate mock_env s = (oOk g, s1)" using mock_pool.allocate_free[OF inv s(3)] s(4,5) by auto
  obtain i where "g = \<lparr>eg_index = i, eg_pid = bm_next_pid s, eg_swip = bm_next_handle s\<rparr>" "mock_pool.allotted {} i s s1"
    by (rule mock_pool.allocate_ok[OF inv]) (use a in auto)
  then have c: "client_inv fst snd mock_contents mock_wf {} (s1, {#ExclusiveGuard g#})" using mock_pool.allocate_step(1)[OF s(2)] by simp
  then have "guard_held s1 (ExclusiveGuard g)" "pool_inv fst snd mock_contents mock_wf {} s1" by (simp_all add: client_inv_def guards_ok_def)
  then have "bm_swips s1 (eg_swip g) \<noteq> None" using held_valid(3)[of fst snd mock_contents mock_wf "{}" s1] by (fastforce simp: guard_held_def)
  then show ?thesis using that s a c by blast
qed

lemma demo_started: "started mock_env mock_wf s"
  if "new_with_policy mock_env (\<lambda>_. Inr 0) 64 72 demo_config demo_policy 1 = (oOk s, 2)"
  unfolding started_def using that demo_slice demo_tier_wf
  by (intro exI[of _ "\<lambda>_. Inr 0"] exI[of _ 64] exI[of _ 72] exI[of _ demo_config] exI[of _ demo_policy] exI[of _ 1] exI[of _ 2]) (simp add: demo_config_def)

text \<open>The states of the small pool that the witnesses use.\<close>

lemma demo_empty:
  obtains s where "started mock_env mock_wf s" "pool_reaches mock_env mock_wf [] (s, {#})" "\<not> bm_stopping s" "bm_next_pid s = 0" "fst (ft_free (bm_frames s)) = [0, 1]"
proof (rule demo_start)
  fix s assume s: "new_with_policy mock_env (\<lambda>_. Inr 0) 64 72 demo_config demo_policy 1 = (oOk s, 2)" "\<not> bm_stopping s" "bm_next_pid s = 0"
    "fst (ft_free (bm_frames s)) = [0, 1]"
  then have "started mock_env mock_wf s" by (simp add: demo_started)
  then show ?thesis using that s run_done unfolding pool_reaches_def by blast
qed

lemma demo_page:
  obtains g s where "pool_reaches mock_env mock_wf [Allocated (eg_pid g)] (s, {#ExclusiveGuard g#})" "eg_swip g \<in> dom (bm_swips s)" "\<not> bm_stopping s"
    "client_inv fst snd mock_contents mock_wf {} (s, {#ExclusiveGuard g#})" "eg_pid g = 0" "dom (bm_pages s) = {0}"
proof (rule demo_allocate)
  fix s g s1
  assume s: "new_with_policy mock_env (\<lambda>_. Inr 0) 64 72 demo_config demo_policy 1 = (oOk s, 2)" "allocate mock_env s = (oOk g, s1)" "\<not> bm_stopping s"
    "bm_swips s1 (eg_swip g) \<noteq> None" "client_inv fst snd mock_contents mock_wf {} (s1, {#ExclusiveGuard g#})" "client_inv fst snd mock_contents mock_wf {} (s, {#})"
    "bm_next_pid s = 0" "bm_pages s = Map.empty"
  have "pool_step mock_env (s, {#}) (Allocated (eg_pid g)) (s1, {#ExclusiveGuard g#})" using do_allocate[OF s(2), of "{#}"] by simp
  then have "pool_run mock_env (s, {#}) [Allocated (eg_pid g)] (s1, {#ExclusiveGuard g#})" using run_more[OF run_done] by fastforce
  moreover have "\<not> bm_stopping s1 \<and> eg_pid g = 0 \<and> dom (bm_pages s1) = {0}"
  proof -
    have inv: "pool_inv fst snd mock_contents mock_wf {} s" using s(6) by (simp add: client_inv_def)
    obtain i where "mock_pool.allotted {} i s s1" "g = \<lparr>eg_index = i, eg_pid = bm_next_pid s, eg_swip = bm_next_handle s\<rparr>"
      by (rule mock_pool.allocate_ok[OF inv]) (use s(2) in auto)
    then show ?thesis using s(3,7,8) by (simp add: mock_pool.allotted_def)
  qed
  ultimately show ?thesis using that s demo_started unfolding pool_reaches_def by blast
qed

lemma demo_released:
  obtains h s pc where "pool_reaches mock_env mock_wf [Allocated 0, Released 0 True] (s, {#})" "h \<in> dom (bm_swips s)"
    "bm_pages s 0 = Some pc" "pc_swip pc = h" "client_inv fst snd mock_contents mock_wf {} (s, {#})" "bm_prefetch_queue s = []"
proof (rule demo_page)
  fix g s
  assume d: "pool_reaches mock_env mock_wf [Allocated (eg_pid g)] (s, {#ExclusiveGuard g#})" "client_inv fst snd mock_contents mock_wf {} (s, {#ExclusiveGuard g#})"
    "eg_pid g = 0"
  obtain s' where r: "exclusive_guard_drop g s = (oOk (), s')" "client_inv fst snd mock_contents mock_wf {} (s', {#})"
    "store_step (abs_store mock_contents (s, {#ExclusiveGuard g#})) (Released 0 True) (abs_store mock_contents (s', {#}))"
    using mock_pool.exclusive_drop_step[OF d(2), of g] d(3) by auto
  have inv: "pool_inv fst snd mock_contents mock_wf {} s'" and q: "bm_prefetch_queue s' = []" using r(2) by (simp_all add: client_inv_def prefetch_ok_def)
  have "store_step (abs_store mock_contents (s, {#ExclusiveGuard g#})) (ReadPage 0 (fdata s (eg_index g))) (abs_store mock_contents (s, {#ExclusiveGuard g#}))"
    using mock_pool.read_step(2)[OF d(2), of "ExclusiveGuard g"] d(3) by simp
  then have "page_view mock_contents s' 0 \<noteq> None" using r(3) by (auto simp: store_get store_put_back abs_store_def)
  then obtain pc where pc: "bm_pages s' 0 = Some pc" by (auto simp: page_view_def split: option.splits)
  then have h: "pc_swip pc \<in> dom (bm_swips s')" using pool_inv_page[OF inv pc] by (auto simp: page_inv_def)
  have "pool_step mock_env (s, {#ExclusiveGuard g#}) (Released 0 True) (s', {#})" using do_drop_exclusive[of g "{#ExclusiveGuard g#}", OF _ r(1)] d(3) by simp
  then have "pool_reaches mock_env mock_wf [Allocated 0, Released 0 True] (s', {#})" using d(1,3) run_more unfolding pool_reaches_def by fastforce
  then show ?thesis using that h pc r(2) q by blast
qed

end
