(* ===== verification/Bench_Run.thy ===== *)
theory Bench_Run
  imports Bench_Workload Bench_Report Pool_Start
begin

text \<open>
  The benchmark's use of the pool (src/crates/tierbuf-bench/src/main.rs): the pool it builds, the
  initialisation of the dataset, and a phase in which several workers fix, verify and release pages.
  The threads run under a schedule: a turn lets one worker make its next call into the pool, or lets
  a background thread of the pool make a round.  What a worker reads from the clock in a turn is part
  of the schedule.
\<close>

section \<open>Messages\<close>

fun error_display :: "tierbuf_error \<Rightarrow> string" where
  "error_display (Io e) = ''I/O operation failed: '' @ io_message e"
| "error_display PoolExhausted = ''the DRAM pool is exhausted''"
| "error_display (TierExhausted tier) = ''storage tier '' @ quoted tier @ '' is exhausted''"
| "error_display (InvalidPid pid) = ''invalid page identifier: '' @ u64_str pid"
| "error_display (DuplicateHandle pid) = ''page '' @ u64_str pid @ '' is already registered through a different handle''"
| "error_display (InvalidConfig m) = ''invalid configuration: '' @ m"
| "error_display Contended = ''the operation is contended''"
| "error_display Retry = ''the operation must be retried''"
| "error_display ShuttingDown = ''the buffer manager is shutting down''"

definition pool_exhausted_message :: "string \<Rightarrow> string" where
  "pool_exhausted_message context_text =
     ''DRAM pool exhausted while '' @ context_text
     @ ''; tierbuf'' @ [CHR 0x27] @ ''s automatic cooling did not free a frame within 2.0s. Ensure the cooling workers are integrated and running, or retry with --mock-latency-us 0 to diagnose storage-delay pressure''"

fun hint_debug :: "access_hint \<Rightarrow> string" where
  "hint_debug NormalHint = ''Normal''" | "hint_debug ScanHint = ''Scan''" | "hint_debug PrefetchHint = ''Prefetch''"

definition fix_failed_message :: "access_selection \<Rightarrow> tierbuf_error \<Rightarrow> string" where
  "fix_failed_message access e =
     ''failed to fix logical page '' @ nat_str (as_index access) @ '' with '' @ hint_debug (as_hint access) @ '' hint: '' @ error_display e"

text \<open>\<open>{:#04x}\<close> of a byte.\<close>

definition hex_digit :: "nat \<Rightarrow> char" where
  "hex_digit d = (if d < 10 then char_of (48 + d) else char_of (87 + d))"

definition hex_byte :: "u8 \<Rightarrow> string" where
  "hex_byte b = ''0x'' @ [hex_digit (unat b div 16), hex_digit (unat b mod 16)]"

definition verification_failed_message :: "nat \<Rightarrow> u8 \<Rightarrow> u8 \<Rightarrow> string" where
  "verification_failed_message index expected actual =
     ''page verification failed for index '' @ nat_str index @ '': expected '' @ hex_byte expected @ '', got '' @ hex_byte actual"

section \<open>The pool of a fraction\<close>

definition ECONOMIC_EPOCH :: nat where "ECONOMIC_EPOCH = 100 * 10 ^ 6"
definition DRAM_PRICE_GIB_MONTH :: f64 where "DRAM_PRICE_GIB_MONTH = F_Fin False (9 / 2)"
definition MOCK_PRICE_GIB_MONTH :: f64 where "MOCK_PRICE_GIB_MONTH = f_round False (8 / 100)"
definition MOCK_SEQUENTIAL_GIB_PER_SECOND :: f64 where "MOCK_SEQUENTIAL_GIB_PER_SECOND = F_Fin False 3"

definition bench_latency :: "config \<Rightarrow> latency_profile" where
  "bench_latency c = \<lparr>lp_read_us_p50 = cf_mock_latency_us c, lp_write_us_p50 = cf_mock_latency_us c, lp_seq_gbps = MOCK_SEQUENTIAL_GIB_PER_SECOND\<rparr>"

definition bench_mock_tier :: "config \<Rightarrow> dataset_layout \<Rightarrow> string + mock_tier" where
  "bench_mock_tier c layout =
     (case mock_with_options ''mock'' (dl_tier_capacity_bytes layout) MOCK_PRICE_GIB_MONTH (bench_latency c) None of
        Inl e \<Rightarrow> Inl (''failed to create MockTier: '' @ error_display e)
      | Inr t \<Rightarrow> Inr t)"

definition bench_file_tier :: "open_env \<Rightarrow> config \<Rightarrow> dataset_layout \<Rightarrow> string + file_tier" where
  "bench_file_tier env c layout =
     (case file_tier_open env ((file_tier_config_new (dl_tier_capacity_bytes layout))
             \<lparr>fc_name := ''file'', fc_price_gb_month := MOCK_PRICE_GIB_MONTH, fc_latency := bench_latency c\<rparr>) of
        Inl e \<Rightarrow> Inl (''failed to create FileTier: '' @ error_display e)
      | Inr t \<Rightarrow> Inr t)"

text \<open>The configuration that \<open>make_manager\<close> passes to \<open>BufferManager::new\<close>, once its tier exists.\<close>

definition bench_config :: "config \<Rightarrow> 't \<Rightarrow> nat \<Rightarrow> 't buf_config" where
  "bench_config c tier dram_pool_bytes =
     \<lparr>cfg_dram_pool_bytes = dram_pool_bytes, cfg_cooling_ratio = f_round False (1 / 10), cfg_eviction_mode = cf_eviction_mode c,
      cfg_economics = \<lparr>eco_dram_price_gb_month = DRAM_PRICE_GIB_MONTH, eco_epoch = ECONOMIC_EPOCH\<rparr>, cfg_tiers = [tier]\<rparr>"

definition make_manager :: "('q, 't, economic_policy) env \<Rightarrow> (nat \<Rightarrow> io_error + nat) \<Rightarrow> nat \<Rightarrow> nat \<Rightarrow> string + 't \<Rightarrow> config \<Rightarrow> dataset_layout \<Rightarrow>
    dram_fraction \<Rightarrow> u64 \<Rightarrow> (string + ('q, 't, economic_policy) manager) outcome" where
  "make_manager E mmap base elem made c layout fraction next_id =
     (case made of
        Inl e \<Rightarrow> oOk (Inl e)
      | Inr tier \<Rightarrow>
     (case dram_pages fraction (dl_page_count layout) of
        Inl e \<Rightarrow> oOk (Inl e)
      | Inr pages \<Rightarrow>
     (case checked_mul_u64 pages PAGE_SIZE of
        None \<Rightarrow> oOk (Inl ''DRAM pool size overflowed usize'')
      | Some dram_pool_bytes \<Rightarrow>
     (case fst (manager_new E mmap base elem (bench_config c tier dram_pool_bytes) next_id) of
        oOk s \<Rightarrow> oOk (Inr s)
      | oErr e \<Rightarrow> oOk (Inl (''failed to create buffer manager for fraction '' @ fraction_label fraction @ '': '' @ error_display e))
      | oPanic m \<Rightarrow> oPanic m
      | oBlocks \<Rightarrow> oBlocks))))"

section \<open>The background threads of the pool\<close>

text \<open>A round that cannot proceed yet leaves the pool as it is.\<close>

definition pool_thread :: "('q, 't, 'p) env \<Rightarrow> worker \<Rightarrow> ('q, 't, 'p) manager \<Rightarrow> ('q, 't, 'p) manager" where
  "pool_thread E w s = (case worker_step E w s of (oOk _, s') \<Rightarrow> s' | _ \<Rightarrow> s)"

section \<open>The dataset\<close>

text \<open>
  The loop of \<open>initialize_dataset\<close>.  An entry of the script is one attempt: the rounds of the pool's
  threads before it, and whether the retry deadline has passed when it fails.  \<open>None\<close> is a script that
  ends before the loop.
\<close>

fun initialize_loop :: "('q, 't, 'p) env \<Rightarrow> nat \<Rightarrow> nat \<Rightarrow> handle list \<Rightarrow> (worker list \<times> bool) list \<Rightarrow> ('q, 't, 'p) manager \<Rightarrow>
    (string + handle list) outcome option \<times> ('q, 't, 'p) manager" where
  "initialize_loop E page_count index swips [] s =
     ((if index < page_count then None else Some (oOk (Inr swips))), s)"
| "initialize_loop E page_count index swips ((threads, expired) # script) s =
     (if \<not> index < page_count then (Some (oOk (Inr swips)), s)
      else
      (case allocate E (foldl (\<lambda>s w. pool_thread E w s) s threads) of
         (oOk g, s1) \<Rightarrow>
           (case op_seq (exclusive_write_with g (\<lambda>page. ((), page[0 := page_marker index]))) (exclusive_guard_drop g) s1 of
              (oOk _, s2) \<Rightarrow> initialize_loop E page_count (index + 1) (swips @ [eg_swip g]) script s2
            | (oErr e, s2) \<Rightarrow> (Some (oErr e), s2)
            | (oPanic m, s2) \<Rightarrow> (Some (oPanic m), s2)
            | (oBlocks, s2) \<Rightarrow> (None, s2))
       | (oErr e, s1) \<Rightarrow>
           (if e = PoolExhausted
            then (if \<not> expired then initialize_loop E page_count index swips script s1
                  else (Some (oOk (Inl (pool_exhausted_message (''initializing logical page '' @ nat_str index @ '' of '' @ nat_str page_count)))), s1))
            else (Some (oOk (Inl (''failed to initialize logical page '' @ nat_str index @ '' of '' @ nat_str page_count @ '': '' @ error_display e))), s1))
       | (oPanic m, s1) \<Rightarrow> (Some (oPanic m), s1)
       | (oBlocks, s1) \<Rightarrow> (None, s1)))"

definition initialize_dataset :: "('q, 't, 'p) env \<Rightarrow> nat \<Rightarrow> (worker list \<times> bool) list \<Rightarrow> ('q, 't, 'p) manager \<Rightarrow>
    (string + handle list) outcome option \<times> ('q, 't, 'p) manager" where
  "initialize_dataset E page_count script s = initialize_loop E page_count 0 [] script s"

section \<open>A worker\<close>

definition SCAN_PREFETCH_WINDOW :: nat where "SCAN_PREFETCH_WINDOW = 8"
definition SAMPLE_EVERY_OPERATIONS :: u64 where "SAMPLE_EVERY_OPERATIONS = 64"
definition MAX_LATENCY_SAMPLES_PER_WORKER :: nat where "MAX_LATENCY_SAMPLES_PER_WORKER = 50000"

datatype phase = Warmup | Measurement

record worker_run =
  wr_worker_id :: nat
  wr_worker_count :: nat
  wr_phase :: phase
  wr_prefetch_scan :: bool
  wr_scan_only :: bool

record worker_result =
  wx_operations :: u64
  wx_point_operations :: u64
  wx_scan_operations :: u64
  wx_point_dram_hits :: u64
  wx_scan_dram_hits :: u64
  wx_latencies_ns :: "u64 list"
  wx_point_latencies_ns :: "u64 list"
  wx_scan_latencies_ns :: "u64 list"

text \<open>The local variables of \<open>run_worker\<close>, and where the worker stands in its loop.\<close>

record bench_worker =
  bw_run :: worker_run
  bw_workload :: workload_state
  bw_latency :: latency_sampler
  bw_point_latency :: latency_sampler
  bw_scan_latency :: latency_sampler
  bw_operations :: u64
  bw_point_operations :: u64
  bw_scan_operations :: u64
  bw_point_dram_hits :: u64
  bw_scan_dram_hits :: u64

text \<open>An operation under way: the access, and whether its latency is sampled overall and by kind.\<close>

record bench_op =
  bo_access :: access_selection
  bo_sample_overall :: bool
  bo_sample_kind :: bool

datatype bench_pc =
  AtLoop
| AtPrefetch bench_op
| AtFix bench_op
| AtGuard bench_op shared_guard
| Returned "string + worker_result"
| Panicked string

definition worker_start :: "worker_run \<Rightarrow> nat \<Rightarrow> bench_worker" where
  "worker_start run len =
     (let seed_salt = (case wr_phase run of Warmup \<Rightarrow> 0 | Measurement \<Rightarrow> MEASUREMENT_SEED_SALT);
          seed = worker_seed (wr_worker_id run) seed_salt
      in \<lparr>bw_run = run, bw_workload = workload_new seed (scan_start (wr_worker_id run) (wr_worker_count run) len),
          bw_latency = sampler_new (seed XOR SAMPLE_SEED_SALT) MAX_LATENCY_SAMPLES_PER_WORKER,
          bw_point_latency = sampler_new (seed XOR word_rotl 17 SAMPLE_SEED_SALT) MAX_LATENCY_SAMPLES_PER_WORKER,
          bw_scan_latency = sampler_new (seed XOR word_rotl 31 SAMPLE_SEED_SALT) MAX_LATENCY_SAMPLES_PER_WORKER,
          bw_operations = 0, bw_point_operations = 0, bw_scan_operations = 0, bw_point_dram_hits = 0, bw_scan_dram_hits = 0\<rparr>)"

text \<open>The loop body up to the call of \<open>fix_and_verify\<close>.\<close>

definition begin_operation :: "zipf_sampler \<Rightarrow> bench_worker \<Rightarrow> bench_op \<times> bench_worker" where
  "begin_operation z w =
     (let point_access_percent = (if wr_scan_only (bw_run w) then 0 else POINT_ACCESS_PERCENT) in
      (case next_access z point_access_percent (bw_workload w) of (access, workload) \<Rightarrow>
         (let measurement = (wr_phase (bw_run w) = Measurement);
              sample_overall = (measurement \<and> bw_operations w mod SAMPLE_EVERY_OPERATIONS = 0);
              sample_kind = (measurement \<and>
                (if as_hint access = NormalHint then bw_point_operations w mod SAMPLE_EVERY_OPERATIONS = 0
                 else bw_scan_operations w mod SAMPLE_EVERY_OPERATIONS = 0))
          in (\<lparr>bo_access = access, bo_sample_overall = sample_overall, bo_sample_kind = sample_kind\<rparr>, w\<lparr>bw_workload := workload\<rparr>))))"

text \<open>The loop body after \<open>fix_and_verify\<close> has returned the source of the page.\<close>

definition finish_operation :: "bench_op \<Rightarrow> nat \<Rightarrow> fix_source \<Rightarrow> bench_worker \<Rightarrow> bench_worker" where
  "finish_operation b elapsed source w =
     (let latency_ns = duration_as_nanos_u64 elapsed;
          point = (as_hint (bo_access b) = NormalHint);
          w = (if bo_sample_overall b then w\<lparr>bw_latency := sampler_record latency_ns (bw_latency w)\<rparr> else w);
          w = (if bo_sample_kind b
               then (if point then w\<lparr>bw_point_latency := sampler_record latency_ns (bw_point_latency w)\<rparr>
                     else w\<lparr>bw_scan_latency := sampler_record latency_ns (bw_scan_latency w)\<rparr>)
               else w);
          w = (if point
               then w\<lparr>bw_point_operations := saturating_add (bw_point_operations w) 1,
                      bw_point_dram_hits := (if source = Dram then saturating_add (bw_point_dram_hits w) 1 else bw_point_dram_hits w)\<rparr>
               else w\<lparr>bw_scan_operations := saturating_add (bw_scan_operations w) 1,
                      bw_scan_dram_hits := (if source = Dram then saturating_add (bw_scan_dram_hits w) 1 else bw_scan_dram_hits w)\<rparr>)
      in w\<lparr>bw_operations := saturating_add (bw_operations w) 1\<rparr>)"

definition worker_outcome :: "bench_worker \<Rightarrow> worker_result" where
  "worker_outcome w =
     \<lparr>wx_operations = bw_operations w, wx_point_operations = bw_point_operations w, wx_scan_operations = bw_scan_operations w,
      wx_point_dram_hits = bw_point_dram_hits w, wx_scan_dram_hits = bw_scan_dram_hits w, wx_latencies_ns = into_values (bw_latency w),
      wx_point_latencies_ns = into_values (bw_point_latency w), wx_scan_latencies_ns = into_values (bw_scan_latency w)\<rparr>"

text \<open>What the worker reads from the clock in its turn.\<close>

record clock =
  ck_deadline_passed :: bool
  ck_retry_expired :: bool
  ck_elapsed :: nat

definition scan_lookahead :: "handle list \<Rightarrow> nat \<Rightarrow> handle list" where
  "scan_lookahead swips index = map (\<lambda>offset. swips ! ((index + offset + 1) mod length swips)) [0..<SCAN_PREFETCH_WINDOW]"

text \<open>The part of \<open>fix_and_verify\<close> under the guard, which is dropped on both returns.\<close>

definition verify_page :: "access_selection \<Rightarrow> shared_guard \<Rightarrow> (('q, 't, 'p) manager, string + fix_source) operation" where
  "verify_page access g =
     op_bind (shared_read_with g (\<lambda>page. (page ! 0, if as_hint access = ScanHint then full_page_digest page else 0))) (\<lambda>(actual, scan_digest).
     op_seq (shared_guard_drop g)
     (op_return (let expected = page_marker (as_index access) in
        if actual \<noteq> expected then Inl (verification_failed_message (as_index access) expected actual) else Inr (sg_source g))))"

text \<open>The message of the \<open>unreachable!\<close> branches on the hint of an access.\<close>

definition prefetch_access_message :: string where
  "prefetch_access_message = ''workload never emits prefetch accesses''"

text \<open>Two rounds of the loop of a fix are enough.\<close>

definition FIX_ROUNDS :: nat where "FIX_ROUNDS = 2"

definition worker_turn :: "('q, 't, 'p) env \<Rightarrow> handle list \<Rightarrow> zipf_sampler \<Rightarrow> clock \<Rightarrow> bench_worker \<times> bench_pc \<Rightarrow> ('q, 't, 'p) manager \<Rightarrow>
    (bench_worker \<times> bench_pc) \<times> ('q, 't, 'p) manager" where
  "worker_turn E swips z now wp s =
     (case wp of (w, pc) \<Rightarrow>
     (case pc of
        AtLoop \<Rightarrow>
          (if ck_deadline_passed now then ((w, Returned (Inr (worker_outcome w))), s)
           else (case begin_operation z w of (b, w') \<Rightarrow>
             (if wr_phase (bw_run w) = Measurement \<and> as_hint (bo_access b) = PrefetchHint
              then ((w', Panicked prefetch_access_message), s)
              else if wr_prefetch_scan (bw_run w) \<and> as_hint (bo_access b) = ScanHint \<and> as_index (bo_access b) mod SCAN_PREFETCH_WINDOW = 0
              then ((w', AtPrefetch b), s) else ((w', AtFix b), s))))
      | AtPrefetch b \<Rightarrow>
          (case prefetch E (scan_lookahead swips (as_index (bo_access b))) s of
             (oOk _, s') \<Rightarrow> ((w, AtFix b), s')
           | (oPanic m, s') \<Rightarrow> ((w, Panicked m), s')
           | _ \<Rightarrow> ((w, pc), s))
      | AtFix b \<Rightarrow>
          (case fix_shared_with E FIX_ROUNDS (swips ! as_index (bo_access b)) (as_hint (bo_access b)) s of
             (oOk g, s') \<Rightarrow> ((w, AtGuard b g), s')
           | (oErr e, s') \<Rightarrow>
               (if (e = PoolExhausted \<or> e = Contended) \<and> \<not> ck_retry_expired now then ((w, AtFix b), s')
                else if e = PoolExhausted
                then ((w, Returned (Inl (pool_exhausted_message (''fixing logical page '' @ nat_str (as_index (bo_access b)))))), s')
                else ((w, Returned (Inl (fix_failed_message (bo_access b) e))), s'))
           | (oPanic m, s') \<Rightarrow> ((w, Panicked m), s')
           | (oBlocks, s') \<Rightarrow> ((w, pc), s))
      | AtGuard b g \<Rightarrow>
          (case verify_page (bo_access b) g s of
             (oOk (Inr source), s') \<Rightarrow>
               (if as_hint (bo_access b) = PrefetchHint then ((w, Panicked prefetch_access_message), s')
                else ((finish_operation b (ck_elapsed now) source w, AtLoop), s'))
           | (oOk (Inl e), s') \<Rightarrow> ((w, Returned (Inl e)), s')
           | (oPanic m, s') \<Rightarrow> ((w, Panicked m), s')
           | _ \<Rightarrow> ((w, pc), s))
      | _ \<Rightarrow> (wp, s)))"

section \<open>A phase\<close>

record phase_config =
  ph_worker_count :: nat
  ph_phase :: phase
  ph_prefetch_scan :: bool
  ph_scan_only :: bool

datatype turn = WorkerTurn nat clock | PoolTurn worker

definition phase_turn :: "('q, 't, 'p) env \<Rightarrow> handle list \<Rightarrow> zipf_sampler \<Rightarrow> (bench_worker \<times> bench_pc) list \<times> ('q, 't, 'p) manager \<Rightarrow> turn \<Rightarrow>
    (bench_worker \<times> bench_pc) list \<times> ('q, 't, 'p) manager" where
  "phase_turn E swips z x t =
     (case x of (ws, s) \<Rightarrow>
     (case t of
        WorkerTurn i now \<Rightarrow>
          (if i < length ws then (case worker_turn E swips z now (ws ! i) s of (wp, s') \<Rightarrow> (ws[i := wp], s')) else (ws, s))
      | PoolTurn w \<Rightarrow> (ws, pool_thread E w s)))"

definition phase_start :: "phase_config \<Rightarrow> nat \<Rightarrow> (bench_worker \<times> bench_pc) list" where
  "phase_start p len =
     map (\<lambda>worker_id. (worker_start \<lparr>wr_worker_id = worker_id, wr_worker_count = ph_worker_count p, wr_phase = ph_phase p,
            wr_prefetch_scan = ph_prefetch_scan p, wr_scan_only = ph_scan_only p\<rparr> len, AtLoop)) [0..<ph_worker_count p]"

text \<open>Joining the workers in order: the sums, and the first error; \<open>None\<close> while one has not returned.\<close>

fun join_loop :: "(bench_worker \<times> bench_pc) list \<Rightarrow> phase_result \<Rightarrow> string option \<Rightarrow> (phase_result \<times> string option) option" where
  "join_loop [] r first_error = Some (r, first_error)"
| "join_loop ((w, pc) # ws) r first_error =
     (case pc of
        Returned (Inr x) \<Rightarrow>
          join_loop ws (r\<lparr>pr_operations := saturating_add (pr_operations r) (wx_operations x),
            pr_point_operations := saturating_add (pr_point_operations r) (wx_point_operations x),
            pr_scan_operations := saturating_add (pr_scan_operations r) (wx_scan_operations x),
            pr_point_dram_hits := saturating_add (pr_point_dram_hits r) (wx_point_dram_hits x),
            pr_scan_dram_hits := saturating_add (pr_scan_dram_hits r) (wx_scan_dram_hits x),
            pr_latencies_ns := pr_latencies_ns r @ wx_latencies_ns x,
            pr_point_latencies_ns := pr_point_latencies_ns r @ wx_point_latencies_ns x,
            pr_scan_latencies_ns := pr_scan_latencies_ns r @ wx_scan_latencies_ns x\<rparr>) first_error
      | Returned (Inl e) \<Rightarrow> join_loop ws r (case first_error of None \<Rightarrow> Some e | Some e' \<Rightarrow> Some e')
      | Panicked m \<Rightarrow> join_loop ws r (case first_error of None \<Rightarrow> Some ''a benchmark worker panicked'' | Some e' \<Rightarrow> Some e')
      | _ \<Rightarrow> None)"

definition phase_join :: "(bench_worker \<times> bench_pc) list \<Rightarrow> nat \<Rightarrow> (string + phase_result) option" where
  "phase_join ws elapsed =
     (case join_loop ws \<lparr>pr_operations = 0, pr_point_operations = 0, pr_scan_operations = 0, pr_point_dram_hits = 0, pr_scan_dram_hits = 0,
          pr_elapsed = elapsed, pr_latencies_ns = [], pr_point_latencies_ns = [], pr_scan_latencies_ns = []\<rparr> None of
        None \<Rightarrow> None
      | Some (r, None) \<Rightarrow> Some (Inr r)
      | Some (r, Some e) \<Rightarrow> Some (Inl e))"

definition run_phase :: "('q, 't, 'p) env \<Rightarrow> handle list \<Rightarrow> zipf_sampler \<Rightarrow> phase_config \<Rightarrow> turn list \<Rightarrow> nat \<Rightarrow> ('q, 't, 'p) manager \<Rightarrow>
    (string + phase_result) option \<times> ('q, 't, 'p) manager" where
  "run_phase E swips z p schedule elapsed s =
     (case foldl (phase_turn E swips z) (phase_start p (length swips), s) schedule of (ws, s') \<Rightarrow> (phase_join ws elapsed, s'))"

section \<open>The dump of the counters\<close>

text \<open>The values that \<open>json!\<close> builds; an object lists its members as the code does.\<close>

datatype json = JStr string | JInt u64 | JFloat f64 | JList "json list" | JObj "(string \<times> json) list"

text \<open>The sum over the tiers wraps, as in a release build.\<close>

definition tier_stats_json :: "stats \<Rightarrow> json" where
  "tier_stats_json s =
     (let lower_tier_fixes = sum_list (map tc_demand_hits (st_tiers s)) in
      JObj [(''total_fixes'', JInt (saturating_add (st_dram_hits s) lower_tier_fixes)), (''dram_hits'', JInt (st_dram_hits s)),
        (''faults'', JInt (st_faults s)), (''evictions'', JInt (st_evictions s)), (''second_chances'', JInt (st_second_chances s)),
        (''prefetch_submitted'', JInt (st_prefetch_submitted s)), (''prefetch_hits'', JInt (st_prefetch_hits s)),
        (''prefetch_skipped'', JInt (st_prefetch_skipped s)), (''budget_denied'', JInt (st_budget_denied s)),
        (''tiers'', JList (map (\<lambda>tier. JObj [(''name'', JStr (tc_name tier)), (''demand_hits'', JInt (tc_demand_hits tier)),
           (''reads'', JInt (tc_reads tier)), (''writes'', JInt (tc_writes tier)), (''bytes_read'', JInt (tc_bytes_read tier)),
           (''bytes_written'', JInt (tc_bytes_written tier))]) (st_tiers s)))])"

definition fraction_stats_json :: "dram_fraction \<Rightarrow> phase_result \<Rightarrow> stats \<Rightarrow> stats \<Rightarrow> string + json" where
  "fraction_stats_json fraction measured stats_before stats_after =
     res_bind (tier_stats_delta stats_before stats_after) (\<lambda>measurement_stats.
     Inr (JObj [(''fraction'', JStr (fraction_label fraction)), (''measurement_seconds'', JFloat (as_secs_f64 (pr_elapsed measured))),
       (''measurement_operations'', JObj [(''total'', JInt (pr_operations measured)), (''point'', JInt (pr_point_operations measured)),
          (''scan'', JInt (pr_scan_operations measured)), (''point_dram_hits'', JInt (pr_point_dram_hits measured)),
          (''scan_dram_hits'', JInt (pr_scan_dram_hits measured))]),
       (''measurement_stats'', tier_stats_json measurement_stats), (''cumulative_stats'', tier_stats_json stats_after)]))"

section \<open>A fraction\<close>

text \<open>What the threads and the clock do during the run of one fraction.\<close>

record fraction_script =
  sc_initialize :: "(worker list \<times> bool) list"
  sc_warmup :: "turn list"
  sc_warmup_elapsed :: nat
  sc_measure :: "turn list"
  sc_measure_elapsed :: nat
  sc_shutdown :: "bool list"

definition fraction_phase :: "config \<Rightarrow> phase \<Rightarrow> phase_config" where
  "fraction_phase c ph = \<lparr>ph_worker_count = cf_workers c, ph_phase = ph, ph_prefetch_scan = cf_prefetch_scan c, ph_scan_only = cf_scan_only c\<rparr>"

text \<open>The closure of \<open>run_fraction\<close>; \<open>None\<close> is a script that ends before it.\<close>

definition measure_fraction :: "('q, 't, 'p) env \<Rightarrow> (f64 \<Rightarrow> f64 \<Rightarrow> f64) \<Rightarrow> config \<Rightarrow> dataset_layout \<Rightarrow> dram_fraction \<Rightarrow> fraction_script \<Rightarrow>
    ('q, 't, 'p) manager \<Rightarrow> (string + bench_row \<times> json) outcome option \<times> ('q, 't, 'p) manager" where
  "measure_fraction E powf c layout fraction script s =
     (case initialize_dataset E (dl_page_count layout) (sc_initialize script) s of
        (None, s1) \<Rightarrow> (None, s1)
      | (Some (oErr e), s1) \<Rightarrow> (Some (oErr e), s1)
      | (Some (oPanic m), s1) \<Rightarrow> (Some (oPanic m), s1)
      | (Some oBlocks, s1) \<Rightarrow> (None, s1)
      | (Some (oOk (Inl e)), s1) \<Rightarrow> (Some (oOk (Inl e)), s1)
      | (Some (oOk (Inr swips)), s1) \<Rightarrow>
     (case zipf_new powf (dl_page_count layout) of
        Inl e \<Rightarrow> (Some (oOk (Inl e)), s1)
      | Inr z \<Rightarrow>
     (case run_phase E swips z (fraction_phase c Warmup) (sc_warmup script) (sc_warmup_elapsed script) s1 of
        (None, s2) \<Rightarrow> (None, s2)
      | (Some (Inl e), s2) \<Rightarrow> (Some (oOk (Inl e)), s2)
      | (Some (Inr _), s2) \<Rightarrow>
     (let cost_before = cr_actual_cost_usd (manager_cost_report s2);
          stats_before = manager_stats s2
      in (case run_phase E swips z (fraction_phase c Measurement) (sc_measure script) (sc_measure_elapsed script) s2 of
        (None, s3) \<Rightarrow> (None, s3)
      | (Some (Inl e), s3) \<Rightarrow> (Some (oOk (Inl e)), s3)
      | (Some (Inr measured), s3) \<Rightarrow>
          (let cost_after = cr_actual_cost_usd (manager_cost_report s3);
               stats_after = manager_stats s3
           in (Some (oOk (res_bind (fraction_stats_json fraction measured stats_before stats_after) (\<lambda>stats_dump.
                 res_bind (from_measurement fraction measured (f_max (f_sub cost_after cost_before) f_zero) stats_before stats_after) (\<lambda>row.
                 Inr (row, stats_dump))))), s3)))))))"

text \<open>The shutdown, and the two results combined.\<close>

definition finish_fraction :: "('q, 't, 'p) env \<Rightarrow> dram_fraction \<Rightarrow> bool list \<Rightarrow> string + bench_row \<times> json \<Rightarrow> ('q, 't, 'p) manager \<Rightarrow>
    (string + bench_row \<times> json) outcome option" where
  "finish_fraction E fraction clock benchmark_result s =
     (case fst (shutdown E clock s) of
        oOk _ \<Rightarrow> Some (oOk benchmark_result)
      | oErr e \<Rightarrow>
          (let shutdown_error = ''failed to shut down fraction '' @ fraction_label fraction @ '': '' @ error_display e in
           Some (oOk (Inl (case benchmark_result of Inr _ \<Rightarrow> shutdown_error | Inl e \<Rightarrow> e @ ''; additionally, '' @ shutdown_error))))
      | oPanic m \<Rightarrow> Some (oPanic m)
      | oBlocks \<Rightarrow> None)"

definition run_fraction :: "('q, 't, economic_policy) env \<Rightarrow> (nat \<Rightarrow> io_error + nat) \<Rightarrow> nat \<Rightarrow> nat \<Rightarrow> string + 't \<Rightarrow> u64 \<Rightarrow> (f64 \<Rightarrow> f64 \<Rightarrow> f64) \<Rightarrow>
    config \<Rightarrow> dataset_layout \<Rightarrow> dram_fraction \<Rightarrow> fraction_script \<Rightarrow> (string + bench_row \<times> json) outcome option" where
  "run_fraction E mmap base elem made next_id powf c layout fraction script =
     (case make_manager E mmap base elem made c layout fraction next_id of
        oOk (Inl e) \<Rightarrow> Some (oOk (Inl e))
      | oOk (Inr s) \<Rightarrow>
          (case measure_fraction E powf c layout fraction script s of
             (Some (oOk benchmark_result), s1) \<Rightarrow> finish_fraction E fraction (sc_shutdown script) benchmark_result s1
           | (r, s1) \<Rightarrow> r)
      | oErr e \<Rightarrow> Some (oErr e)
      | oPanic m \<Rightarrow> Some (oPanic m)
      | oBlocks \<Rightarrow> None)"

end
