(* ===== verification/Bench_Safety.thy ===== *)
theory Bench_Safety
  imports Bench_Run
begin

text \<open>
  What the benchmark checks while it runs (src/crates/tierbuf-bench/src/main.rs): the pages it has
  initialised carry their markers, no operation of the pool changes that, and therefore no worker ever
  reads a wrong byte, whatever the schedule of the workers and of the pool's threads.
\<close>

inductive_simps store_put: "store_step m (WritePage p w) m'"

section \<open>The dataset\<close>

text \<open>Handle \<open>i\<close> of the dataset is a page of the pool that begins with the marker of \<open>i\<close>.\<close>

definition marked :: "('t \<Rightarrow> nat \<Rightarrow> page option) \<Rightarrow> handle list \<Rightarrow> ('q, 't, 'p) manager \<Rightarrow> bool" where
  "marked contents swips s \<longleftrightarrow> (\<forall>i < length swips. \<exists>p d. map_option pc_swip (bm_pages s p) = Some (swips ! i)
     \<and> page_view contents s p = Some d \<and> d ! 0 = page_marker i)"

text \<open>The same pages under the same handles, and the pool still running if it was.\<close>

definition kept :: "('t \<Rightarrow> nat \<Rightarrow> page option) \<Rightarrow> ('q, 't, 'p) manager \<Rightarrow> ('q, 't, 'p) manager \<Rightarrow> bool" where
  "kept contents s s' \<longleftrightarrow> page_view contents s' = page_view contents s \<and> map_option pc_swip \<circ> bm_pages s' = map_option pc_swip \<circ> bm_pages s
     \<and> bm_stopping s' = bm_stopping s"

lemma kept_refl [simp]: "kept contents s s"
  by (simp add: kept_def)

lemma kept_trans: "kept contents s s' \<Longrightarrow> kept contents s' s'' \<Longrightarrow> kept contents s s''"
  by (simp add: kept_def)

lemma kept_marked: "kept contents s s' \<Longrightarrow> marked contents swips s' \<longleftrightarrow> marked contents swips s"
  unfolding kept_def marked_def by (metis comp_apply)

lemma serves_kept: "serves contents s s' \<Longrightarrow> kept contents s s'"
  by (simp add: serves_def kept_def same_session_def)

lemma frames_only:
  "shared_guard_drop g s = (r, s') \<Longrightarrow> bm_pages s' = bm_pages s \<and> bm_stopping s' = bm_stopping s \<and> bm_swips s' = bm_swips s" "exclusive_guard_drop x s = (r', s') \<Longrightarrow> bm_pages s' = bm_pages s \<and> bm_stopping s' = bm_stopping s \<and> bm_swips s' = bm_swips s"
  "exclusive_write_with x w s = (r'', s') \<Longrightarrow> bm_pages s' = bm_pages s \<and> bm_stopping s' = bm_stopping s \<and> bm_swips s' = bm_swips s"
  by (auto simp: shared_guard_drop_def exclusive_guard_drop_def exclusive_write_with_def op_seq_def op_bind_def on_meta_def on_frames_def op_lift_def
      op_modify_def op_return_def on_frame_def split: prod.splits outcome.splits)

section \<open>Where a worker may stand\<close>

text \<open>The errors of a worker: the pool stayed exhausted until the retry deadline, or a fix was refused.\<close>

definition fix_message :: "string \<Rightarrow> bool" where
  "fix_message e \<longleftrightarrow> (\<exists>i. e = pool_exhausted_message (''fixing logical page '' @ nat_str i)) \<or> (\<exists>a x. e = fix_failed_message a x)"

fun pc_ok :: "handle list \<Rightarrow> bench_pc \<Rightarrow> bool" where
  "pc_ok swips AtLoop = True"
| "pc_ok swips (AtPrefetch b) = (as_index (bo_access b) < length swips \<and> as_hint (bo_access b) \<noteq> PrefetchHint)"
| "pc_ok swips (AtFix b) = (as_index (bo_access b) < length swips \<and> as_hint (bo_access b) \<noteq> PrefetchHint)"
| "pc_ok swips (AtGuard b g) = (as_index (bo_access b) < length swips \<and> as_hint (bo_access b) \<noteq> PrefetchHint \<and> sg_swip g = swips ! as_index (bo_access b))"
| "pc_ok swips (Returned (Inl e)) = fix_message e"
| "pc_ok swips (Returned (Inr x)) = True"
| "pc_ok swips (Panicked m) = False"

definition worker_ok :: "handle list \<Rightarrow> bench_worker \<times> bench_pc \<Rightarrow> bool" where
  "worker_ok swips wp \<longleftrightarrow> ws_scan_cursor (bw_workload (fst wp)) < length swips \<and> pc_ok swips (snd wp)"

fun guard_of :: "bench_pc \<Rightarrow> guard multiset" where
  "guard_of (AtGuard b g) = {#SharedGuard g#}"
| "guard_of _ = {#}"

definition guards_of :: "(bench_worker \<times> bench_pc) list \<Rightarrow> guard multiset" where
  "guards_of ws = sum_list (map (guard_of \<circ> snd) ws)"

lemma guards_of_update:
  assumes "i < length ws"
  shows "\<exists>R. guards_of ws = R + guard_of (snd (ws ! i)) \<and> (\<forall>wp. guards_of (ws[i := wp]) = R + guard_of (snd wp))"
proof (intro exI conjI allI)
  let ?R = "guards_of (take i ws) + guards_of (drop (Suc i) ws)"
  have e: "ws = take i ws @ ws ! i # drop (Suc i) ws" using id_take_nth_drop[OF assms] .
  show "guards_of ws = ?R + guard_of (snd (ws ! i))" by (subst e) (simp add: guards_of_def ac_simps)
  show "guards_of (ws[i := wp]) = ?R + guard_of (snd wp)" for wp
    using assms by (simp add: guards_of_def upd_conv_take_nth_drop ac_simps)
qed

lemma finish_operation_fields [simp]:
  "bw_workload (finish_operation b t src w) = bw_workload w" "bw_run (finish_operation b t src w) = bw_run w"
  by (simp_all add: finish_operation_def Let_def)

lemma begin_operation_ok:
  assumes "zipf_new powf n = Inr z" "ws_scan_cursor (bw_workload w) < n" "begin_operation z w = (b, w')"
  shows "as_index (bo_access b) < n" "ws_scan_cursor (bw_workload w') < n" "as_hint (bo_access b) \<noteq> PrefetchHint"
proof -
  let ?p = "if wr_scan_only (bw_run w) then 0 else POINT_ACCESS_PERCENT"
  have "as_index (fst (next_access z ?p (bw_workload w))) < n \<and> ws_scan_cursor (snd (next_access z ?p (bw_workload w))) < n
      \<and> as_hint (fst (next_access z ?p (bw_workload w))) \<noteq> PrefetchHint"
    by (rule next_access_cases[of z ?p "bw_workload w"]) (use assms(1,2) zipf_sample_lt[OF assms(1)] zipf_new_len[OF assms(1)] in auto)
  then show "as_index (bo_access b) < n" "ws_scan_cursor (bw_workload w') < n" "as_hint (bo_access b) \<noteq> PrefetchHint"
    using assms(3) by (auto simp: begin_operation_def Let_def split: prod.splits)
qed

lemma scan_lookahead_subset: "swips \<noteq> [] \<Longrightarrow> set (scan_lookahead swips i) \<subseteq> set swips"
  by (auto simp: scan_lookahead_def)

section \<open>Between the phases\<close>

text \<open>A new pool whose dataset has been initialised, after any number of finished phases.\<close>

inductive bench_ready :: "('q, 't, 'p) env \<Rightarrow> ('t \<Rightarrow> bool) \<Rightarrow> zipf_sampler \<Rightarrow> handle list \<Rightarrow> ('q, 't, 'p) manager \<Rightarrow> bool"
  for E :: "('q, 't, 'p) env" and tok z swips where
  ready_dataset: "started E tok s \<Longrightarrow> initialize_dataset E n script s = (Some (oOk (Inr swips)), s') \<Longrightarrow> zipf_new powf n = Inr z \<Longrightarrow> bench_ready E tok z swips s'"
| ready_phase: "bench_ready E tok z swips s \<Longrightarrow> run_phase E swips z p schedule elapsed s = (Some r, s') \<Longrightarrow> bench_ready E tok z swips s'"

lemma join_no_guards:
  assumes "join_loop ws r e = Some x"
  shows "guards_of ws = {#}"
  using assms
proof (induction ws arbitrary: r e)
  case (Cons wp ws)
  obtain w pc where "wp = (w, pc)" by (cases wp)
  then show ?case using Cons by (cases pc) (auto simp: guards_of_def split: sum.splits)
qed (simp add: guards_of_def)

lemma join_errors:
  assumes "join_loop ws r e0 = Some (m, Some e)" "\<forall>wp \<in> set ws. worker_ok swips wp" "\<forall>x. e0 = Some x \<longrightarrow> fix_message x"
  shows "fix_message e"
  using assms
proof (induction ws arbitrary: r e0)
  case (Cons wp ws)
  obtain w pc where wp: "wp = (w, pc)" by (cases wp)
  have ok: "pc_ok swips pc" "\<forall>wp \<in> set ws. worker_ok swips wp" using Cons.prems(2) by (simp_all add: wp worker_ok_def)
  show ?case
  proof (cases pc)
    case (Returned y)
    then show ?thesis using Cons.prems(1,3) ok Cons.IH[OF _ ok(2)] by (cases y) (auto simp: wp split: option.splits)
  qed (use Cons.prems(1) ok(1) wp in simp_all)
qed simp

context buffer_pool
begin

lemma handle_page_unique:
  assumes inv: "inv C s" and p: "map_option pc_swip (bm_pages s p) = Some h" and q: "map_option pc_swip (bm_pages s q) = Some h"
  shows "p = q"
  using pool_inv_page[OF inv, of p] pool_inv_page[OF inv, of q] p q by (auto simp: page_inv_def)

lemma marked_handles:
  assumes inv: "inv C s" and m: "marked contents swips s"
  shows "set swips \<subseteq> dom (bm_swips s)"
proof
  fix h assume "h \<in> set swips"
  then obtain i where "i < length swips" "swips ! i = h" by (auto simp: in_set_conv_nth)
  then obtain p pc where "bm_pages s p = Some pc" "pc_swip pc = h" using m by (auto simp: marked_def)
  then show "h \<in> dom (bm_swips s)" using pool_inv_page[OF inv] by (auto simp: page_inv_def)
qed

section \<open>The pool's own threads\<close>

text \<open>A panic of the epoch thread is only recorded.\<close>

lemma epoch_panicked:
  fixes s :: "('q, 't, 'p) manager"
  assumes "cinv C (s, G)"
  defines "s' \<equiv> s\<lparr>bm_workers := map (\<lambda>(v, b). (v, b \<or> v = EpochWorker)) (bm_workers s)\<rparr>"
  shows "cinv C (s', G)" "kept contents s s'"
proof -
  have "live_prefetch_worker (map (\<lambda>(v, b). (v, b \<or> v = EpochWorker)) ws) = live_prefetch_worker ws" for ws
    by (induction ws) (auto simp: live_prefetch_worker_def split: worker.splits)
  moreover have "inv C s' \<and> page_view contents s' = page_view contents s"
    by (rule inv_fields) (use assms(1) in \<open>simp_all add: s'_def client_inv_def pool_inv_def\<close>)
  ultimately show "cinv C (s', G)" "kept contents s s'"
    using assms(1) by (simp_all add: client_inv_def guards_ok_def guard_held_def held_def accounted_def faults_idle_def prefetch_ok_def s'_def kept_def)
qed

lemma pool_thread_ok:
  assumes ci: "cinv C (s, G)"
  obtains (found) C' where "cinv C' (pool_thread E w s, G)" "kept contents s (pool_thread E w s)"
proof -
  have inv: "inv C s" "faults_idle s" "prefetch_ok C s" using ci by (simp_all add: client_inv_def)
  have idle: ?thesis if "pool_thread E w s = s" using found[of C] ci that by simp
  show ?thesis
  proof (cases w)
    case CoolerWorker
    obtain s' where "background_cooling_step E s = (oOk (), s')" "inv C s'" "evolves contents s s'" using background_cooling_step_ok[OF inv(1)] .
    then show ?thesis
      using found[of C] idle client_inv_serves[OF ci] evolves_serves serves_kept CoolerWorker
      by (fastforce simp: pool_thread_def worker_step_def worker_iteration_def op_bind_def op_get_def op_return_def op_seq_def split: if_splits)
  next
    case EpochWorker
    obtain r s' where t: "tick_epoch E (bm_epoch s) s = (r, s')" "inv C s'" "serves contents s s'" "r = oOk () \<or> (\<exists>m. r = oPanic m)"
      using tick_epoch_ok[OF inv(1)] .
    have c: "cinv C (s', G)" using client_inv_serves[OF ci t(2,3)] by simp
    note p = epoch_panicked[OF c]
    have "pool_thread E w s = (if bm_stopping s then s else if r = oOk () then s'
        else s'\<lparr>bm_workers := map (\<lambda>(v, b). (v, b \<or> v = EpochWorker)) (bm_workers s')\<rparr>)"
      using t(1,4) EpochWorker
      by (auto simp: pool_thread_def worker_step_def worker_iteration_def op_bind_def op_get_def op_return_def op_seq_def)
    then show ?thesis
      using found[of C] ci c p serves_kept[OF t(3)] kept_trans[OF serves_kept[OF t(3)] p(2)] by (simp split: if_splits)
  next
    case (PrefetchWorker n)
    show ?thesis
    proof (rule prefetch_worker_step_ok[OF inv])
      assume "prefetch_worker_step E s = (if bm_stopping s then oOk False else oBlocks, s)"
      then show ?thesis by (intro idle) (auto simp: pool_thread_def worker_step_def worker_iteration_def PrefetchWorker split: if_splits)
    next
      fix t s' assume r: "prefetch_worker_step E s = (oOk True, s')" "shifts C s (C - {the (pt_checkout t)}) s'" "prefetch_ok (C - {the (pt_checkout t)}) s'"
      then have "pool_thread E w s = s'" by (simp add: pool_thread_def worker_step_def worker_iteration_def PrefetchWorker)
      then show ?thesis using found client_inv_shifts(1)[OF ci r(2,3)] r(2) by (simp add: kept_def shifts_def same_core_def)
    qed
  qed
qed

section \<open>A worker's turn\<close>

lemma shared_read:
  assumes ci: "cinv C (s, G)" and g: "SharedGuard g \<in># G"
  shows "shared_read_with g f s = (oOk (f (fdata s (sg_index g))), s)" "page_view contents s (sg_pid g) = Some (fdata s (sg_index g))"
    "map_option pc_swip (bm_pages s (sg_pid g)) = Some (sg_swip g)"
  using read_step[OF ci g] ci g
  by (auto simp: shared_read_with_def op_bind_def op_return_def store_get client_inv_def guards_ok_def guard_held_def held_def)

lemma verify_page_ok:
  assumes ci: "cinv C (s, G)" and g: "SharedGuard g \<in># G" and m: "marked contents swips s" "as_index a < length swips" "sg_swip g = swips ! as_index a"
  obtains s' where "verify_page a g s = (oOk (Inr (sg_source g)), s')" "cinv C (s', G - {#SharedGuard g#})" "kept contents s s'"
proof -
  have inv: "inv C s" using ci by (simp add: client_inv_def)
  note R = shared_read[OF ci g]
  obtain p d where p: "map_option pc_swip (bm_pages s p) = Some (sg_swip g)" "page_view contents s p = Some d" "d ! 0 = page_marker (as_index a)"
    unfolding m(3) using m(1,2) unfolding marked_def by blast
  have "p = sg_pid g" using handle_page_unique[OF inv p(1) R(3)] .
  then have d: "fdata s (sg_index g) ! 0 = page_marker (as_index a)" using p R(2) by simp
  obtain s' where s': "shared_guard_drop g s = (oOk (), s')" "cinv C (s', G - {#SharedGuard g#})"
    "store_step (abs_store contents (s, G)) (Released (sg_pid g) False) (abs_store contents (s', G - {#SharedGuard g#}))"
    using shared_drop_step[OF ci g] .
  have "kept contents s s'" using s'(3) frames_only(1)[OF s'(1)] by (auto simp: kept_def store_put_back abs_store_def)
  moreover have "verify_page a g s = (oOk (Inr (sg_source g)), s')"
    using s'(1) d by (simp add: verify_page_def op_bind_def op_seq_def op_return_def R(1))
  ultimately show ?thesis using that s'(2) by blast
qed

lemma worker_turn_ok:
  assumes z: "zipf_new powf (length swips) = Inr z" and ci: "cinv C (s, R + guard_of (snd wp))" and m: "marked contents swips s" and ok: "worker_ok swips wp"
  obtains (turn) C' wp' s' where "worker_turn E swips z now wp s = (wp', s')" "cinv C' (s', R + guard_of (snd wp'))" "kept contents s s'" "worker_ok swips wp'"
proof -
  obtain w pc where wp: "wp = (w, pc)" by (cases wp)
  have inv: "inv C s" "prefetch_ok C s" using ci by (simp_all add: client_inv_def)
  have hs: "set swips \<subseteq> dom (bm_swips s)" using marked_handles[OF inv(1) m] .
  have ne: "swips \<noteq> []" using zipf_new_len[OF z] by auto
  have cur: "ws_scan_cursor (bw_workload w) < length swips" "pc_ok swips pc" using ok by (simp_all add: worker_ok_def wp)
  have stay: ?thesis if "worker_turn E swips z now wp s = (wp, s)" using turn[OF that] ci ok by simp
  note T = worker_turn_def wp
  show ?thesis
  proof (cases pc)
    case AtLoop
    obtain b w' where b: "begin_operation z w = (b, w')" by (cases "begin_operation z w")
    note B = begin_operation_ok[OF z cur(1) b]
    let ?wp = "if ck_deadline_passed now then (w, Returned (Inr (worker_outcome w)))
      else (w', if wr_prefetch_scan (bw_run w) \<and> as_hint (bo_access b) = ScanHint \<and> as_index (bo_access b) mod SCAN_PREFETCH_WINDOW = 0 then AtPrefetch b else AtFix b)"
    have "worker_turn E swips z now wp s = (?wp, s)" using b B(3) by (simp add: T AtLoop)
    then show ?thesis by (rule turn[of _ s C]) (use B ci cur in \<open>simp_all add: wp AtLoop worker_ok_def\<close>)
  next
    case (AtPrefetch b)
    let ?hs = "scan_lookahead swips (as_index (bo_access b))"
    have "set ?hs \<subseteq> dom (bm_swips s)" "length ?hs < 2 ^ 64" using scan_lookahead_subset[OF ne] hs by (auto simp: scan_lookahead_def SCAN_PREFETCH_WINDOW_def)
    then obtain C' s' where p: "prefetch E ?hs s = (oOk (), s')" "shifts C s C' s'" "prefetch_ok C' s'" by (rule prefetch_call_ok[OF inv])
    then show ?thesis using turn[of "(w, AtFix b)" s' C'] client_inv_shifts(1)[OF ci p(2,3)] cur
      by (simp add: T AtPrefetch worker_ok_def kept_def shifts_def same_core_def)
  next
    case (AtFix b)
    let ?h = "swips ! as_index (bo_access b)"
    have h: "?h \<in> dom (bm_swips s)" using cur(2) AtFix by (intro subsetD[OF hs] nth_mem) simp
    show ?thesis
    proof (rule fix_shared_step[OF ci h, of FIX_ROUNDS "as_hint (bo_access b)"])
      show "2 \<le> FIX_ROUNDS" by (simp add: FIX_ROUNDS_def)
    next
      fix e s' assume f: "fix_shared_with E FIX_ROUNDS ?h (as_hint (bo_access b)) s = (oErr e, s')" "inv C s'" "serves contents s s'"
      note c = client_inv_serves(1)[OF ci f(2,3)] serves_kept[OF f(3)]
      let ?wp = "(w, if (e = PoolExhausted \<or> e = Contended) \<and> \<not> ck_retry_expired now then AtFix b else Returned (Inl (if e = PoolExhausted
         then pool_exhausted_message (''fixing logical page '' @ nat_str (as_index (bo_access b))) else fix_failed_message (bo_access b) e)))"
      have "worker_turn E swips z now wp s = (?wp, s')" using f(1) by (simp add: T AtFix)
      moreover have "guard_of (snd ?wp) = guard_of (snd wp)" by (simp add: wp AtFix)
      moreover have "worker_ok swips ?wp" using cur AtFix by (auto simp: worker_ok_def fix_message_def)
      ultimately show ?thesis using turn[of ?wp s' C] c by simp
    next
      fix i s' p assume "fix_shared_with E FIX_ROUNDS ?h (as_hint (bo_access b)) s = (oBlocks, s')"
      then show ?thesis by (intro stay) (simp add: T AtFix)
    next
      fix g s' assume f: "fix_shared_with E FIX_ROUNDS ?h (as_hint (bo_access b)) s = (oOk g, s')"
        "cinv C (s', add_mset (SharedGuard g) (R + guard_of (snd wp)))"
        "store_step (abs_store contents (s, R + guard_of (snd wp))) (HoldShared (sg_pid g)) (abs_store contents (s', add_mset (SharedGuard g) (R + guard_of (snd wp))))"
        "sg_swip g = ?h" "map_option pc_swip \<circ> bm_pages s' = map_option pc_swip \<circ> bm_pages s" "bm_stopping s' = bm_stopping s"
      then have "kept contents s s'" by (auto simp: kept_def store_hold abs_store_def)
      then show ?thesis using turn[of "(w, AtGuard b g)" s' C] f cur by (simp add: T AtFix worker_ok_def)
    qed
  next
    case (AtGuard b g)
    have g: "SharedGuard g \<in># R + guard_of (snd wp)" by (simp add: wp AtGuard)
    obtain s' where "verify_page (bo_access b) g s = (oOk (Inr (sg_source g)), s')" "cinv C (s', R + guard_of (snd wp) - {#SharedGuard g#})" "kept contents s s'"
      by (rule verify_page_ok[OF ci g m, of "bo_access b"]) (use cur(2) AtGuard in auto)
    then show ?thesis using turn[of "(finish_operation b (ck_elapsed now) (sg_source g) w, AtLoop)" s' C] cur by (simp add: T AtGuard worker_ok_def)
  qed (use stay in \<open>simp_all add: T\<close>)
qed

section \<open>A phase under any schedule\<close>

definition phase_inv :: "handle list \<Rightarrow> ('q, 't, 'p) manager \<Rightarrow> (bench_worker \<times> bench_pc) list \<times> ('q, 't, 'p) manager \<Rightarrow> bool" where
  "phase_inv swips s0 x \<longleftrightarrow> (\<exists>C. cinv C (snd x, guards_of (fst x))) \<and> marked contents swips (snd x) \<and> kept contents s0 (snd x)
     \<and> (\<forall>wp \<in> set (fst x). worker_ok swips wp)"

lemma phase_turn_ok:
  assumes z: "zipf_new powf (length swips) = Inr z" and p: "phase_inv swips s0 x"
  shows "phase_inv swips s0 (phase_turn E swips z x t) \<and> length (fst (phase_turn E swips z x t)) = length (fst x)"
proof -
  obtain ws s where x: "x = (ws, s)" by (cases x)
  obtain C where ci: "cinv C (s, guards_of ws)" and m: "marked contents swips s" and k: "kept contents s0 s" and ok: "\<forall>wp \<in> set ws. worker_ok swips wp"
    using p by (auto simp: phase_inv_def x)
  show ?thesis
  proof (cases t)
    case (WorkerTurn i now)
    show ?thesis
    proof (cases "i < length ws")
      case True
      obtain R where R: "guards_of ws = R + guard_of (snd (ws ! i))" "\<And>wp. guards_of (ws[i := wp]) = R + guard_of (snd wp)"
        using guards_of_update[OF True] by blast
      obtain C' wp' s' where t: "worker_turn E swips z now (ws ! i) s = (wp', s')" "cinv C' (s', R + guard_of (snd wp'))" "kept contents s s'" "worker_ok swips wp'"
        by (rule worker_turn_ok[OF z ci[unfolded R(1)] m]) (use ok True in auto)
      have "\<forall>wp \<in> set (ws[i := wp']). worker_ok swips wp" using ok t(4) set_update_subset_insert[of ws i wp'] by auto
      then show ?thesis using True t R(2)[of wp'] kept_trans[OF k t(3)] kept_marked[OF t(3)] m
        by (auto simp: phase_inv_def phase_turn_def x WorkerTurn)
    qed (use p in \<open>simp add: phase_turn_def x WorkerTurn\<close>)
  next
    case (PoolTurn w)
    obtain C' where c: "cinv C' (pool_thread E w s, guards_of ws)" "kept contents s (pool_thread E w s)" using pool_thread_ok[OF ci] .
    then show ?thesis using m ok kept_trans[OF k c(2)] kept_marked[OF c(2)] by (auto simp: phase_inv_def phase_turn_def x PoolTurn)
  qed
qed

lemma phase_turns_ok:
  assumes "zipf_new powf (length swips) = Inr z" "phase_inv swips s0 x"
  shows "phase_inv swips s0 (foldl (phase_turn E swips z) x ts) \<and> length (fst (foldl (phase_turn E swips z) x ts)) = length (fst x)"
  using assms(2)
proof (induction ts arbitrary: x)
  case (Cons t ts)
  show ?case using Cons.IH[of "phase_turn E swips z x t"] phase_turn_ok[OF assms(1) Cons.prems, of t] by simp
qed simp

lemma phase_start_ok:
  assumes "cinv C (s, {#})" "marked contents swips s" "swips \<noteq> []"
  shows "phase_inv swips s (phase_start p (length swips), s)"
proof -
  have "guards_of (phase_start p (length swips)) = {#}" by (auto simp: guards_of_def phase_start_def comp_def sum_list_triv)
  then show ?thesis using assms scan_start_lt
    by (auto simp: phase_inv_def phase_start_def worker_ok_def worker_start_def workload_new_def Let_def)
qed

section \<open>Initialising the dataset\<close>

lemma pool_threads_ok:
  assumes "cinv C (s, G)"
  shows "\<exists>C'. cinv C' (foldl (\<lambda>s w. pool_thread E w s) s ws, G) \<and> kept contents s (foldl (\<lambda>s w. pool_thread E w s) s ws)"
  using assms
proof (induction ws arbitrary: C s)
  case (Cons w ws)
  obtain C' where c: "cinv C' (pool_thread E w s, G)" "kept contents s (pool_thread E w s)" using pool_thread_ok[OF Cons.prems] .
  show ?case using Cons.IH[OF c(1)] kept_trans[OF c(2)] by auto
qed auto

lemma set_marker_ok: "keeps_length (\<lambda>page. page[0 := v])"
  by (simp add: keeps_length_def)

text \<open>One page: allocated, marked and released.\<close>

lemma initialize_page:
  assumes ci: "cinv C (s, {#})" and m: "marked contents swips s" "distinct swips" and a: "allocate E s = (oOk g, s1)"
  obtains s2 where "op_seq (exclusive_write_with g (\<lambda>page. ((), page[0 := page_marker (length swips)]))) (exclusive_guard_drop g) s1 = (oOk (), s2)"
    "cinv C (s2, {#})" "marked contents (swips @ [eg_swip g]) s2" "distinct (swips @ [eg_swip g])" "bm_stopping s2 = bm_stopping s" "bm_swips s2 = bm_swips s1"
proof -
  have inv: "inv C s" using ci by (simp add: client_inv_def)
  obtain i where A: "g = \<lparr>eg_index = i, eg_pid = bm_next_pid s, eg_swip = bm_next_handle s\<rparr>" "allotted C i s s1"
    by (rule allocate_ok[OF inv]) (use a in auto)
  note fresh = fresh_page[OF inv]
  let ?w = "\<lambda>page :: page. page[0 := page_marker (length swips)]" and ?G = "{#ExclusiveGuard g#}"
  have c1: "cinv C (s1, ?G)" using allocate_step(1)[OF ci A(2), of g] A(1) by simp
  obtain s' where w: "exclusive_write_with g (\<lambda>d. ((), ?w d)) s1 = (oOk (), s')" "cinv C (s', ?G)"
    "store_step (abs_store contents (s1, ?G)) (WritePage (eg_pid g) ?w) (abs_store contents (s', ?G))"
    by (rule write_step[OF c1 _ set_marker_ok]) auto
  obtain s2 where d: "exclusive_guard_drop g s' = (oOk (), s2)" "cinv C (s2, ?G - ?G)"
    "store_step (abs_store contents (s', ?G)) (Released (eg_pid g) True) (abs_store contents (s2, ?G - ?G))"
    by (rule exclusive_drop_step[OF w(2)]) auto
  have pages: "bm_pages s2 = (bm_pages s)(bm_next_pid s \<mapsto> \<lparr>pc_swip = bm_next_handle s, pc_fault = fault_state_default\<rparr>)"
    using frames_only(2)[OF d(1)] frames_only(3)[OF w(1)] A(2) by (simp add: allotted_def)
  have view: "page_view contents s2 = (page_view contents s)(bm_next_pid s \<mapsto> ?w zero_page)"
    using d(3) w(3) A by (auto simp: store_put_back store_put abs_store_def allotted_def)
  have "marked contents (swips @ [eg_swip g]) s2"
    unfolding marked_def
  proof (intro allI impI)
    fix k assume k: "k < length (swips @ [eg_swip g])"
    show "\<exists>p d. map_option pc_swip (bm_pages s2 p) = Some ((swips @ [eg_swip g]) ! k) \<and> page_view contents s2 p = Some d \<and> d ! 0 = page_marker k"
    proof (cases "k < length swips")
      case True
      then obtain p d where p: "map_option pc_swip (bm_pages s p) = Some (swips ! k)" "page_view contents s p = Some d" "d ! 0 = page_marker k"
        using m(1) unfolding marked_def by blast
      then have "p \<noteq> bm_next_pid s" using fresh(1) by auto
      then show ?thesis using p True by (intro exI[of _ p] exI[of _ d]) (simp add: pages view nth_append)
    next
      case False
      then have "k = length swips" using k by simp
      then show ?thesis
        by (intro exI[of _ "bm_next_pid s"] exI[of _ "?w zero_page"]) (simp add: pages view A(1) zero_page_def PAGE_SIZE_def)
    qed
  qed
  moreover have "eg_swip g \<notin> set swips" using marked_handles[OF inv m(1)] fresh A(1) by auto
  moreover have "bm_stopping s2 = bm_stopping s" "bm_swips s2 = bm_swips s1" using frames_only(2)[OF d(1)] frames_only(3)[OF w(1)] A(2) by (simp_all add: allotted_def)
  ultimately show ?thesis using that d w(1) m(2) by (simp add: op_seq_def op_bind_def)
qed

lemma initialize_loop_ok:
  assumes "cinv C (s, {#})" "marked contents swips s" "distinct swips" "length swips \<le> n"
  shows "\<exists>r s' C'. initialize_loop E n (length swips) swips script s = (r, s') \<and> cinv C' (s', {#}) \<and> bm_stopping s' = bm_stopping s
    \<and> (case r of None \<Rightarrow> True
       | Some x \<Rightarrow> (\<exists>e. x = oOk (Inl e)) \<or> (\<exists>hs. x = oOk (Inr hs) \<and> length hs = n \<and> distinct hs \<and> marked contents hs s'))"
  using assms
proof (induction script arbitrary: C s swips)
  case Nil
  then show ?case by auto
next
  case (Cons t script)
  obtain threads expired where t: "t = (threads, expired)" by (cases t)
  let ?s = "foldl (\<lambda>s w. pool_thread E w s) s threads"
  show ?case
  proof (cases "length swips < n")
    case True
    obtain C1 where c: "cinv C1 (?s, {#})" "kept contents s ?s" using pool_threads_ok[OF Cons.prems(1)] by blast
    have m: "marked contents swips ?s" using kept_marked[OF c(2)] Cons.prems(2) by simp
    have inv: "inv C1 ?s" using c(1) by (simp add: client_inv_def)
    show ?thesis
    proof (rule allocate_ok[OF inv])
      fix e s' assume a: "allocate E ?s = (oErr e, s')" "inv C1 s'" "serves contents ?s s'"
      have c': "cinv C1 (s', {#})" using client_inv_serves(1)[OF c(1) a(2,3)] .
      have "marked contents swips s'" "bm_stopping s' = bm_stopping s" using kept_marked[OF serves_kept[OF a(3)]] m serves_kept[OF a(3)] c(2) by (simp_all add: kept_def)
      then show ?thesis using Cons.IH[OF c' _ Cons.prems(3,4)] a(1) c' True by (auto simp: t)
    next
      fix i s1 assume a: "allocate E ?s = (oOk \<lparr>eg_index = i, eg_pid = bm_next_pid ?s, eg_swip = bm_next_handle ?s\<rparr>, s1)"
      obtain s2 where i: "op_seq (exclusive_write_with \<lparr>eg_index = i, eg_pid = bm_next_pid ?s, eg_swip = bm_next_handle ?s\<rparr>
          (\<lambda>page. ((), page[0 := page_marker (length swips)]))) (exclusive_guard_drop \<lparr>eg_index = i, eg_pid = bm_next_pid ?s, eg_swip = bm_next_handle ?s\<rparr>) s1 = (oOk (), s2)"
        "cinv C1 (s2, {#})" "marked contents (swips @ [bm_next_handle ?s]) s2" "distinct (swips @ [bm_next_handle ?s])" "bm_stopping s2 = bm_stopping ?s"
        using initialize_page[OF c(1) m Cons.prems(3) a] by auto
      show ?thesis using Cons.IH[OF i(2,3,4)] a i(1,5) c(2) True by (auto simp: t kept_def)
    qed
  next
    case False
    then show ?thesis using Cons.prems by (auto simp: t)
  qed
qed

lemma started_ok:
  assumes "started E tok s"
  shows "cinv {} (s, {#})" "\<not> bm_stopping s"
proof -
  obtain mmap base elem config policy w w' where s: "new_with_policy E mmap base elem config policy w = (oOk s, w')"
    "slice_fits base elem (cfg_dram_pool_bytes config)" "\<forall>t \<in> set (cfg_tiers config). tok t" "w \<noteq> 0" using assms unfolding started_def by blast
  show "cinv {} (s, {#})" "\<not> bm_stopping s" using new_with_policy_ok(1,5)[OF s] by simp_all
qed

lemma initialize_dataset_ok:
  assumes "started E tok s"
  shows "\<exists>r s' C. initialize_dataset E n script s = (r, s') \<and> cinv C (s', {#}) \<and> \<not> bm_stopping s'
    \<and> (case r of None \<Rightarrow> True
       | Some x \<Rightarrow> (\<exists>e. x = oOk (Inl e)) \<or> (\<exists>hs. x = oOk (Inr hs) \<and> length hs = n \<and> distinct hs \<and> marked contents hs s'))"
  using initialize_loop_ok[OF started_ok(1)[OF assms], of "[]" n script] started_ok(2)[OF assms]
  by (auto simp: initialize_dataset_def marked_def)

lemma run_phase_ok:
  assumes z: "zipf_new powf (length swips) = Inr z" and ci: "cinv C (s, {#})" and m: "marked contents swips s"
    and r: "run_phase E swips z p schedule elapsed s = (Some r, s')"
  shows "\<exists>C'. cinv C' (s', {#})" "kept contents s s'" "marked contents swips s'" "\<forall>e. r = Inl e \<longrightarrow> fix_message e"
proof -
  have ne: "swips \<noteq> []" using zipf_new_len[OF z] by auto
  obtain ws where ws: "foldl (phase_turn E swips z) (phase_start p (length swips), s) schedule = (ws, s')" "phase_join ws elapsed = Some r"
    using r by (auto simp: run_phase_def split: prod.splits)
  have p: "phase_inv swips s (ws, s')" using phase_turns_ok[OF z phase_start_ok[OF ci m ne, of p], of schedule] ws(1) by simp
  obtain x y y' where j: "join_loop ws x None = Some (y, y')" "\<forall>e. r = Inl e \<longrightarrow> y' = Some e"
    using ws(2) by (auto simp: phase_join_def split: option.splits)
  show "\<exists>C'. cinv C' (s', {#})" "kept contents s s'" "marked contents swips s'" using p join_no_guards[OF j(1)] by (auto simp: phase_inv_def)
  show "\<forall>e. r = Inl e \<longrightarrow> fix_message e" using j join_errors[of ws x None y _ swips] p by (auto simp: phase_inv_def)
qed

lemma bench_ready_ok:
  assumes "bench_ready E tok z swips s"
  shows "\<exists>C powf. cinv C (s, {#}) \<and> zipf_new powf (length swips) = Inr z \<and> marked contents swips s \<and> distinct swips \<and> \<not> bm_stopping s"
  using assms
proof (induction rule: bench_ready.induct)
  case (ready_dataset s n script s' powf)
  then show ?case using initialize_dataset_ok[OF ready_dataset(1), of n script] by auto
next
  case (ready_phase s p schedule elapsed r s')
  then obtain C powf where c: "cinv C (s, {#})" "zipf_new powf (length swips) = Inr z" "marked contents swips s" "distinct swips" "\<not> bm_stopping s" by blast
  show ?case using run_phase_ok[OF c(2,1,3) ready_phase.hyps(2)] c by (auto simp: kept_def)
qed

end

section \<open>The properties\<close>

text \<open>A dataset of one page in the small pool, for the witnesses.\<close>

lemma demo_dataset:
  obtains s h s' i where "started mock_env mock_wf s" "initialize_dataset mock_env 1 [([], False)] s = (Some (oOk (Inr [h])), s')"
    "client_inv fst snd mock_contents mock_wf {} (s', {#})" "marked mock_contents [h] s'" "\<not> bm_stopping s'" "i < fcount s'" "held s' i 0 h"
    "no_hit (bm_stats s) (bm_stats s')"
proof (rule demo_allocate)
  fix s g s1
  assume s: "new_with_policy mock_env (\<lambda>_. Inr 0) 64 72 demo_config demo_policy 1 = (oOk s, 2)" "client_inv fst snd mock_contents mock_wf {} (s, {#})"
    "allocate mock_env s = (oOk g, s1)" "\<not> bm_stopping s" "bm_next_pid s = 0"
  have m: "marked mock_contents [] s" by (simp add: marked_def)
  have inv: "pool_inv fst snd mock_contents mock_wf {} s" using s(2) by (simp add: client_inv_def)
  obtain s2 where i: "op_seq (exclusive_write_with g (\<lambda>page. ((), page[0 := page_marker (length ([] :: handle list))]))) (exclusive_guard_drop g) s1 = (oOk (), s2)"
    "client_inv fst snd mock_contents mock_wf {} (s2, {#})" "marked mock_contents [eg_swip g] s2" "bm_stopping s2 = bm_stopping s" "bm_swips s2 = bm_swips s1"
    using mock_pool.initialize_page[OF s(2) m distinct.simps(1)[THEN iffD2, OF TrueI] s(3)] by auto
  obtain k where A: "g = \<lparr>eg_index = k, eg_pid = bm_next_pid s, eg_swip = bm_next_handle s\<rparr>" "mock_pool.allotted {} k s s1"
    by (rule mock_pool.allocate_ok[OF inv]) (use s(3) in auto)
  have inv2: "pool_inv fst snd mock_contents mock_wf {} s2" using i(2) by (simp add: client_inv_def)
  obtain p pc where p: "bm_pages s2 p = Some pc" "pc_swip pc = eg_swip g" using i(3) by (auto simp: marked_def)
  have sw: "\<exists>a. swst s1 (eg_swip g) = Some (Hot a) \<or> swst s1 (eg_swip g) = Some (Cooling a)" using A by (auto simp: mock_pool.allotted_def held_def)
  then have ev: "swst s2 (eg_swip g) \<noteq> Some (Evicted p)" using i(5) by auto
  obtain j where j: "j < fcount s2" "held s2 j p (eg_swip g)" using page_cases[OF inv2 p(1)] p(2) ev by metis
  have "p = 0"
  proof -
    obtain c where c: "bm_swips s2 (eg_swip g) = Some c" "sw_pid c = p" using pool_inv_page[OF inv2 p(1)] p(2) by (auto simp: page_inv_def)
    have "pool_inv fst snd mock_contents mock_wf {} s1" "held s1 k 0 (eg_swip g)" using A s(5) by (simp_all add: mock_pool.allotted_def)
    then show ?thesis using held_valid(3) c i(5) by fastforce
  qed
  have "counts_kept (op_seq (exclusive_write_with g (\<lambda>page. ((), page[0 := page_marker (length ([] :: handle list))]))) (exclusive_guard_drop g)
      :: (mock_manager, unit) operation)" by (intro counts)
  then have "no_hit (bm_stats s) (bm_stats s2)" using no_hit_trans[OF counts_keptD[OF counts_allocate s(3)]] counts_keptD i(1) by blast
  moreover have "initialize_dataset mock_env 1 [([], False)] s = (Some (oOk (Inr [eg_swip g])), s2)" using s(3) i(1) by (simp add: initialize_dataset_def)
  ultimately show ?thesis using that[OF demo_started[OF s(1)] _ i(2,3)] i(4) s(4) j \<open>p = 0\<close> by simp
qed

definition demo_zipf :: zipf_sampler where
  "demo_zipf = (case zipf_new (\<lambda>x y. F_Fin False 1) 1 of Inr z \<Rightarrow> z)"

lemma demo_zipf_ok: "zipf_new (\<lambda>x y. F_Fin False 1) 1 = Inr demo_zipf"
  using zipf_new_ok[of 1 "\<lambda>x y. F_Fin False 1"] by (auto simp: demo_zipf_def)

lemma demo_ready:
  obtains h s where "bench_ready mock_env mock_wf demo_zipf [h] s"
  by (rule demo_dataset) (blast intro: ready_dataset demo_zipf_ok)

text \<open>
  The dataset: whatever the pool's threads do in between, the initialisation of a new pool never
  panics, and when it succeeds it returns one handle per page, all different, each the handle of a
  page of the pool that begins with its marker.
\<close>

theorem dataset_initialised:
  assumes P: "buffer_pool E elems cap contents tok" and S: "started E tok s"
  shows "case fst (initialize_dataset E n script s) of
      Some (oOk (Inr swips)) \<Rightarrow> length swips = n \<and> distinct swips \<and> marked contents swips (snd (initialize_dataset E n script s))
    | Some (oOk (Inl e)) \<Rightarrow> True
    | None \<Rightarrow> True
    | _ \<Rightarrow> False"
  using buffer_pool.initialize_dataset_ok[OF P S, of n script] by (auto split: option.splits)

theorem dataset_initialised_witness:
  "\<exists>s h s'. initialize_dataset mock_env 1 [([], False)] s = (Some (oOk (Inr [h])), s') \<and> marked mock_contents [h] s'"
proof (rule demo_dataset)
  fix s h s' assume s: "started mock_env mock_wf s" "initialize_dataset mock_env 1 [([], False)] s = (Some (oOk (Inr [h])), s')"
  show ?thesis using dataset_initialised[OF mock_pool.buffer_pool_axioms s(1), of 1 "[([], False)]"] s(2) by auto
qed

text \<open>
  C17. The benchmark never reads a wrong page: at every moment of a phase, under any schedule of the
  workers and of the pool's threads and after any earlier phases, no worker has panicked, a worker
  that has returned an error was refused a fix, and the pages are those of the dataset.
\<close>

theorem bench_pages_verify:
  assumes P: "buffer_pool E elems cap contents tok" and R: "bench_ready E tok z swips s"
  shows "case foldl (phase_turn E swips z) (phase_start p (length swips), s) schedule of (ws, s') \<Rightarrow>
    (\<forall>(w, pc) \<in> set ws. (\<forall>m. pc \<noteq> Panicked m) \<and> (\<forall>e. pc = Returned (Inl e) \<longrightarrow> fix_message e))
    \<and> marked contents swips s' \<and> page_view contents s' = page_view contents s"
proof -
  obtain C powf where c: "client_inv elems cap contents tok C (s, {#})" "zipf_new powf (length swips) = Inr z" "marked contents swips s"
    using buffer_pool.bench_ready_ok[OF P R] by blast
  obtain ws s' where ws: "foldl (phase_turn E swips z) (phase_start p (length swips), s) schedule = (ws, s')" by fastforce
  have "swips \<noteq> []" using zipf_new_len[OF c(2)] by auto
  then have "buffer_pool.phase_inv elems cap contents tok swips s (ws, s')"
    using buffer_pool.phase_turns_ok[OF P c(2) buffer_pool.phase_start_ok[OF P c(1,3)], of p schedule] ws by simp
  then have k: "kept contents s s'" "marked contents swips s'" "\<forall>wp \<in> set ws. worker_ok swips wp" by (simp_all add: buffer_pool.phase_inv_def[OF P])
  then show ?thesis unfolding ws by (auto simp: kept_def worker_ok_def)
qed

theorem bench_pages_verify_witness:
  "\<exists>h s ws s'. bench_ready mock_env mock_wf demo_zipf [h] s
    \<and> foldl (phase_turn mock_env [h] demo_zipf) (phase_start \<lparr>ph_worker_count = 2, ph_phase = Warmup, ph_prefetch_scan = True, ph_scan_only = True\<rparr> 1, s)
        [WorkerTurn 0 \<lparr>ck_deadline_passed = False, ck_retry_expired = False, ck_elapsed = 0\<rparr>, PoolTurn CoolerWorker] = (ws, s')
    \<and> (\<forall>(w, pc) \<in> set ws. \<forall>m. pc \<noteq> Panicked m) \<and> page_view mock_contents s' = page_view mock_contents s"
proof (rule demo_ready)
  fix h s assume r: "bench_ready mock_env mock_wf demo_zipf [h] s"
  let ?p = "\<lparr>ph_worker_count = 2, ph_phase = Warmup, ph_prefetch_scan = True, ph_scan_only = True\<rparr>"
  let ?ts = "[WorkerTurn 0 \<lparr>ck_deadline_passed = False, ck_retry_expired = False, ck_elapsed = 0\<rparr>, PoolTurn CoolerWorker]"
  obtain ws s' where ws: "foldl (phase_turn mock_env [h] demo_zipf) (phase_start ?p 1, s) ?ts = (ws, s')" by fastforce
  show ?thesis using bench_pages_verify[OF mock_pool.buffer_pool_axioms r, of ?p ?ts] r ws by (intro exI[of _ h] exI[of _ s] exI[of _ ws] exI[of _ s']) auto
qed

end
