(* ===== verification/Bench_Counts.thy ===== *)
theory Bench_Counts
  imports Bench_Safety
begin

text \<open>
  The counts of a phase (src/crates/tierbuf-bench/src/main.rs) against the counters of the pool: every
  operation that a worker completes is one demand hit of the pool, of the source the worker counted,
  and each worker samples the latency of its first operation of every kind.  So a phase in which no
  worker fails passes all the consistency checks of the report.
\<close>

section \<open>One worker\<close>

definition dram_done :: "bench_worker \<Rightarrow> nat" where
  "dram_done w = unat (bw_point_dram_hits w) + unat (bw_scan_dram_hits w)"

text \<open>The hits a worker has counted or holds a guard for.\<close>

fun dram_of :: "bench_worker \<times> bench_pc \<Rightarrow> nat" where
  "dram_of (w, AtGuard b g) = dram_done w + (if sg_source g = Dram then 1 else 0)"
| "dram_of (w, pc) = dram_done w"

fun lower_of :: "bench_worker \<times> bench_pc \<Rightarrow> nat" where
  "lower_of (w, AtGuard b g) = unat (bw_operations w) - dram_done w + (if sg_source g = Dram then 0 else 1)"
| "lower_of (w, pc) = unat (bw_operations w) - dram_done w"

fun ops_of :: "bench_worker \<times> bench_pc \<Rightarrow> nat" where
  "ops_of (w, AtGuard b g) = unat (bw_operations w) + 1"
| "ops_of (w, pc) = unat (bw_operations w)"

fun failed :: "bench_worker \<times> bench_pc \<Rightarrow> bool" where
  "failed (w, Returned (Inl e)) = True"
| "failed (w, Panicked m) = True"
| "failed (w, pc) = False"

text \<open>The samples of a kind of operation of which \<open>n\<close> have been completed.\<close>

definition sampling :: "bench_worker \<Rightarrow> nat \<Rightarrow> latency_sampler \<Rightarrow> bool" where
  "sampling w n s \<longleftrightarrow> 0 < ls_capacity s \<and> length (ls_values s) \<le> n \<and> (wr_phase (bw_run w) = Measurement \<longrightarrow> 0 < n \<longrightarrow> ls_values s \<noteq> [])"

definition sane :: "bench_worker \<Rightarrow> bool" where
  "sane w \<longleftrightarrow> unat (bw_operations w) = unat (bw_point_operations w) + unat (bw_scan_operations w)
     \<and> bw_point_dram_hits w \<le> bw_point_operations w \<and> bw_scan_dram_hits w \<le> bw_scan_operations w
     \<and> sampling w (unat (bw_operations w)) (bw_latency w) \<and> sampling w (unat (bw_point_operations w)) (bw_point_latency w)
     \<and> sampling w (unat (bw_scan_operations w)) (bw_scan_latency w)"

text \<open>The sampling flags of an operation under way are those of the counts of its worker.\<close>

definition flags_ok :: "bench_worker \<Rightarrow> bench_op \<Rightarrow> bool" where
  "flags_ok w b \<longleftrightarrow> (wr_phase (bw_run w) = Measurement \<longrightarrow>
     (bw_operations w = 0 \<longrightarrow> bo_sample_overall b)
     \<and> (if as_hint (bo_access b) = NormalHint then bw_point_operations w = 0 \<longrightarrow> bo_sample_kind b else bw_scan_operations w = 0 \<longrightarrow> bo_sample_kind b))"

fun sane_at :: "bench_worker \<times> bench_pc \<Rightarrow> bool" where
  "sane_at (w, AtLoop) = sane w"
| "sane_at (w, AtPrefetch b) = (sane w \<and> flags_ok w b)"
| "sane_at (w, AtFix b) = (sane w \<and> flags_ok w b)"
| "sane_at (w, AtGuard b g) = (sane w \<and> flags_ok w b)"
| "sane_at (w, Returned (Inr x)) = (sane w \<and> x = worker_outcome w)"
| "sane_at (w, Returned (Inl e)) = sane w"
| "sane_at (w, Panicked m) = sane w"

lemma sane_at_sane: "sane_at (w, pc) \<Longrightarrow> sane w"
  by (cases "(w, pc)" rule: sane_at.cases) auto

lemma dram_le_ops: "sane w \<Longrightarrow> dram_done w \<le> unat (bw_operations w)"
  by (simp add: sane_def dram_done_def word_le_nat_alt)

lemma sampler_record_fields:
  "ls_capacity (sampler_record x s) = ls_capacity s" "length (ls_values (sampler_record x s)) \<le> Suc (length (ls_values s))"
  "0 < ls_capacity s \<Longrightarrow> ls_values (sampler_record x s) \<noteq> []"
  by (auto simp: sampler_record_def Let_def split: prod.splits)

lemma sampling_record:
  assumes "sampling w n s" "wr_phase (bw_run w') = wr_phase (bw_run w)"
  shows "sampling w' (Suc n) (sampler_record x s)" "(wr_phase (bw_run w) = Measurement \<longrightarrow> 0 < n) \<Longrightarrow> sampling w' (Suc n) s" "sampling w' n s"
  using assms sampler_record_fields[where x = x and s = s] by (auto simp: sampling_def)

lemma worker_start_sane: "sane (worker_start run n)"
  by (simp add: sane_def sampling_def worker_start_def sampler_new_def MAX_LATENCY_SAMPLES_PER_WORKER_def Let_def)

lemma begin_operation_sane:
  assumes "begin_operation z w = (b, w')" "sane w"
  shows "sane w'" "flags_ok w' b" "dram_done w' = dram_done w" "bw_operations w' = bw_operations w"
proof -
  obtain v where w': "w' = w\<lparr>bw_workload := v\<rparr>" using assms(1) by (auto simp: begin_operation_def Let_def split: prod.splits)
  then show "sane w'" "dram_done w' = dram_done w" "bw_operations w' = bw_operations w" using assms(2) by (simp_all add: sane_def sampling_def dram_done_def)
  show "flags_ok w' b" using assms(1) by (auto simp: begin_operation_def Let_def flags_ok_def split: prod.splits)
qed

lemma finish_operation_sane:
  assumes s: "sane w" "flags_ok w b" and n: "unat (bw_operations w) + 1 < 2 ^ 64"
  shows "sane (finish_operation b t src w)" "unat (bw_operations (finish_operation b t src w)) = unat (bw_operations w) + 1"
    "dram_done (finish_operation b t src w) = dram_done w + (if src = Dram then 1 else 0)"
proof -
  let ?w = "finish_operation b t src w"
  note S = s(1)[unfolded sane_def]
  have b: "unat (bw_point_operations w) + 1 < 2 ^ 64" "unat (bw_scan_operations w) + 1 < 2 ^ 64" "unat (bw_point_dram_hits w) + 1 < 2 ^ 64"
    "unat (bw_scan_dram_hits w) + 1 < 2 ^ 64" using S n by (auto simp: word_le_nat_alt)
  have r: "bw_run ?w = bw_run w" by (simp add: finish_operation_def Let_def)
  show o: "unat (bw_operations ?w) = unat (bw_operations w) + 1"
    using n by (simp add: finish_operation_def Let_def unat_saturating_add)
  show "dram_done ?w = dram_done w + (if src = Dram then 1 else 0)"
    using b by (simp add: finish_operation_def Let_def unat_saturating_add dram_done_def)
  have p: "unat (bw_point_operations ?w) = unat (bw_point_operations w) + (if as_hint (bo_access b) = NormalHint then 1 else 0)"
    "unat (bw_scan_operations ?w) = unat (bw_scan_operations w) + (if as_hint (bo_access b) = NormalHint then 0 else 1)"
    using b by (simp_all add: finish_operation_def Let_def unat_saturating_add)
  have h: "bw_point_dram_hits ?w \<le> bw_point_operations ?w" "bw_scan_dram_hits ?w \<le> bw_scan_operations ?w"
    using b S by (auto simp: finish_operation_def Let_def unat_saturating_add word_le_nat_alt)
  have l: "bw_latency ?w = (if bo_sample_overall b then sampler_record (duration_as_nanos_u64 t) (bw_latency w) else bw_latency w)"
    "bw_point_latency ?w = (if bo_sample_kind b \<and> as_hint (bo_access b) = NormalHint then sampler_record (duration_as_nanos_u64 t) (bw_point_latency w) else bw_point_latency w)"
    "bw_scan_latency ?w = (if bo_sample_kind b \<and> as_hint (bo_access b) \<noteq> NormalHint then sampler_record (duration_as_nanos_u64 t) (bw_scan_latency w) else bw_scan_latency w)"
    by (simp_all add: finish_operation_def Let_def)
  have first: "wr_phase (bw_run w) = Measurement \<Longrightarrow> \<not> bo_sample_overall b \<Longrightarrow> 0 < unat (bw_operations w)"
    "wr_phase (bw_run w) = Measurement \<Longrightarrow> \<not> bo_sample_kind b \<Longrightarrow> as_hint (bo_access b) = NormalHint \<Longrightarrow> 0 < unat (bw_point_operations w)"
    "wr_phase (bw_run w) = Measurement \<Longrightarrow> \<not> bo_sample_kind b \<Longrightarrow> as_hint (bo_access b) \<noteq> NormalHint \<Longrightarrow> 0 < unat (bw_scan_operations w)"
    using s(2) by (auto simp: flags_ok_def unat_gt_0)
  have "sampling ?w (unat (bw_operations ?w)) (bw_latency ?w)"
    unfolding o l(1) using S first(1) sampling_record[of w "unat (bw_operations w)" "bw_latency w" ?w] r by auto
  moreover have "sampling ?w (unat (bw_point_operations ?w)) (bw_point_latency ?w)"
    unfolding p(1) l(2) using S first(2) sampling_record[of w "unat (bw_point_operations w)" "bw_point_latency w" ?w] r by auto
  moreover have "sampling ?w (unat (bw_scan_operations ?w)) (bw_scan_latency ?w)"
    unfolding p(2) l(3) using S first(3) sampling_record[of w "unat (bw_scan_operations w)" "bw_scan_latency w" ?w] r by auto
  ultimately show "sane ?w" using S o p h by (simp add: sane_def)
qed

section \<open>The counters of the pool\<close>

definition dram_hits :: "stats \<Rightarrow> nat" where
  "dram_hits t = unat (fst (hits t))"

definition lower_hits :: "stats \<Rightarrow> nat" where
  "lower_hits t = sum_list (map unat (snd (hits t)))"

lemma no_hit_counts: "no_hit t t' \<Longrightarrow> stats_grown t t' \<and> dram_hits t' = dram_hits t \<and> lower_hits t' = lower_hits t"
  by (simp add: no_hit_def dram_hits_def lower_hits_def)

lemma sum_list_change:
  fixes f :: "'a \<Rightarrow> nat"
  assumes "i < length xs"
  shows "sum_list (map f (xs[i := x])) + f (xs ! i) = sum_list (map f xs) + f x"
proof -
  have e: "xs = take i xs @ xs ! i # drop (Suc i) xs" using id_take_nth_drop[OF assms] .
  have "sum_list (map f xs) = sum_list (map f (take i xs)) + f (xs ! i) + sum_list (map f (drop (Suc i) xs))" by (subst e) simp
  then show ?thesis using assms by (simp add: upd_conv_take_nth_drop)
qed

lemma sum_list_member: "x \<in> set xs \<Longrightarrow> f x \<le> sum_list (map f xs)" for f :: "'a \<Rightarrow> nat"
  by (induction xs) auto

lemma hit_counts:
  assumes "hit_from source t t'" "dram_hits t + lower_hits t + 1 < 2 ^ 64"
  shows "stats_grown t t'" "dram_hits t' = dram_hits t + (if source = Dram then 1 else 0)" "lower_hits t' = lower_hits t + (if source = Dram then 0 else 1)"
proof -
  show "stats_grown t t'" using assms(1) by (simp add: hit_from_def)
  have add: "unat (counter_add 1 c) = unat c + 1" if "unat c + 1 < 2 ^ 64" for c using that by (simp add: counter_add_eq unat_saturating_add)
  have "dram_hits t' = dram_hits t + (if source = Dram then 1 else 0) \<and> lower_hits t' = lower_hits t + (if source = Dram then 0 else 1)"
  proof (cases source)
    case Dram
    then show ?thesis using assms add[of "fst (hits t)"] by (simp add: hit_from_def dram_hits_def lower_hits_def)
  next
    case LowerTier
    then obtain i where i: "i < length (snd (hits t))" "hits t' = (fst (hits t), (snd (hits t))[i := counter_add 1 (snd (hits t) ! i)])"
      using assms(1) by (auto simp: hit_from_def)
    have "unat (snd (hits t) ! i) \<le> lower_hits t" using sum_list_member[of "snd (hits t) ! i" "snd (hits t)" unat] i(1) by (simp add: lower_hits_def)
    then have "unat (counter_add 1 (snd (hits t) ! i)) = unat (snd (hits t) ! i) + 1" using assms(2) by (intro add) simp
    then show ?thesis using sum_list_change[OF i(1), of unat "counter_add 1 (snd (hits t) ! i)"] LowerTier i(2) by (simp add: dram_hits_def lower_hits_def)
  qed
  then show "dram_hits t' = dram_hits t + (if source = Dram then 1 else 0)" "lower_hits t' = lower_hits t + (if source = Dram then 0 else 1)" by simp_all
qed

lemma verify_page_counts [counts]: "counts_kept (verify_page a g)"
  unfolding verify_page_def by (auto intro!: counts)

lemma verify_page_source: "verify_page a g s = (oOk (Inr src), s') \<Longrightarrow> src = sg_source g"
  by (auto simp: verify_page_def op_bind_def op_seq_def op_return_def Let_def split: prod.splits outcome.splits if_splits)

section \<open>A turn\<close>

text \<open>What a turn of a worker counts in the pool is what it adds to the worker's own counts.\<close>

definition turn_counts :: "bench_worker \<times> bench_pc \<Rightarrow> stats \<Rightarrow> bench_worker \<times> bench_pc \<Rightarrow> stats \<Rightarrow> bool" where
  "turn_counts x t x' t' \<longleftrightarrow> sane_at x' \<and> ops_of x' \<le> ops_of x + 1 \<and> (failed x \<longrightarrow> failed x')
     \<and> (\<not> failed x' \<longrightarrow> dram_hits t + lower_hits t + 1 < 2 ^ 64 \<longrightarrow> stats_grown t t' \<and> dram_hits t' + dram_of x = dram_hits t + dram_of x' \<and> lower_hits t' + lower_of x = lower_hits t + lower_of x')"

lemma turn_counts_same: "sane_at x \<Longrightarrow> turn_counts x t x t"
  by (simp add: turn_counts_def)

lemma turn_counts_quiet:
  assumes "no_hit t t'" "sane_at x'" "ops_of x' \<le> ops_of x + 1" "failed x \<longrightarrow> failed x'" "\<not> failed x' \<longrightarrow> dram_of x' = dram_of x \<and> lower_of x' = lower_of x"
  shows "turn_counts x t x' t'"
  using assms no_hit_counts[OF assms(1)] by (simp add: turn_counts_def)

lemma worker_turn_counts:
  assumes t: "worker_turn E swips z now x s = (x', s')" and ok: "sane_at x" and n: "ops_of x + 1 < 2 ^ 64"
  shows "turn_counts x (bm_stats s) x' (bm_stats s')"
proof -
  obtain w pc where x: "x = (w, pc)" by (cases x)
  have w: "sane w" using ok sane_at_sane by (simp add: x)
  note T = t[unfolded worker_turn_def x]
  note same = turn_counts_same[OF ok]
  show ?thesis
  proof (cases pc)
    case AtLoop
    obtain b w' where b: "begin_operation z w = (b, w')" by (cases "begin_operation z w")
    have B: "sane w'" "flags_ok w' b" "dram_done w' = dram_done w" "bw_operations w' = bw_operations w" using begin_operation_sane[OF b w] .
    show ?thesis using T b B w by (auto simp: AtLoop x intro!: turn_counts_quiet split: if_splits)
  next
    case (AtPrefetch b)
    obtain r s1 where p: "prefetch E (scan_lookahead swips (as_index (bo_access b))) s = (r, s1)" by fastforce
    then have "no_hit (bm_stats s) (bm_stats s1)" using counts_keptD[OF counts_prefetch] by blast
    then show ?thesis using T p ok same by (cases r) (auto simp: AtPrefetch x intro!: turn_counts_quiet)
  next
    case (AtFix b)
    obtain r s1 where p: "fix_shared_with E FIX_ROUNDS (swips ! as_index (bo_access b)) (as_hint (bo_access b)) s = (r, s1)" by fastforce
    show ?thesis
    proof (cases r)
      case (oOk g)
      then have "hit_from (sg_source g) (bm_stats s) (bm_stats s1)" using fix_shared_counts(1) p by blast
      note H = hit_counts[OF this]
      have "x' = (w, AtGuard b g)" "s' = s1" using T p oOk by (simp_all add: AtFix)
      then show ?thesis using H ok dram_le_ops[OF w] by (simp add: turn_counts_def AtFix x)
    next
      case (oErr e)
      then have "no_hit (bm_stats s) (bm_stats s1)" using fix_shared_counts(2) p by blast
      then show ?thesis using T p ok oErr by (auto simp: AtFix x intro!: turn_counts_quiet split: if_splits)
    next
      case (oPanic m)
      then have "x' = (w, Panicked m)" "s' = s1" using T p by (simp_all add: AtFix)
      then show ?thesis using w by (simp add: turn_counts_def AtFix x)
    qed (use T p same in \<open>simp add: AtFix x\<close>)
  next
    case (AtGuard b g)
    obtain r s1 where p: "verify_page (bo_access b) g s = (r, s1)" by fastforce
    have k: "no_hit (bm_stats s) (bm_stats s1)" using counts_keptD[OF verify_page_counts p] .
    have n': "unat (bw_operations w) + 1 < 2 ^ 64" and f: "flags_ok w b" using n ok by (simp_all add: x AtGuard)
    note F = finish_operation_sane[OF w f n']
    show ?thesis
    proof (cases "\<exists>src. r = oOk (Inr src)")
      case True
      then have r: "r = oOk (Inr (sg_source g))" using verify_page_source p by blast
      have "x' = (if as_hint (bo_access b) = PrefetchHint then (w, Panicked prefetch_access_message) else (finish_operation b (ck_elapsed now) (sg_source g) w, AtLoop))"
        "s' = s1" using T p r by (simp_all add: AtGuard split: if_splits)
      then show ?thesis using k F dram_le_ops[OF w] w by (auto simp: AtGuard x intro!: turn_counts_quiet)
    next
      case False
      then show ?thesis using T p k ok w same by (auto simp: AtGuard x intro!: turn_counts_quiet split: outcome.splits sum.splits)
    qed
  next
    case (Returned y)
    then show ?thesis using T same by (simp add: x)
  next
    case (Panicked m)
    then show ?thesis using T same by (simp add: x)
  qed
qed

section \<open>A phase\<close>

definition phase_counts :: "stats \<Rightarrow> nat \<Rightarrow> (bench_worker \<times> bench_pc) list \<times> ('q, 't, 'p) manager \<Rightarrow> bool" where
  "phase_counts t0 k y \<longleftrightarrow> (\<forall>x \<in> set (fst y). sane_at x) \<and> sum_list (map ops_of (fst y)) \<le> k
     \<and> ((\<exists>x \<in> set (fst y). failed x)
        \<or> stats_grown t0 (bm_stats (snd y)) \<and> dram_hits (bm_stats (snd y)) = dram_hits t0 + sum_list (map dram_of (fst y))
          \<and> lower_hits (bm_stats (snd y)) = lower_hits t0 + sum_list (map lower_of (fst y)))"

lemma hits_bounded:
  assumes "sane_at x"
  shows "dram_of x + lower_of x = ops_of x"
proof -
  obtain w pc where x: "x = (w, pc)" by (cases x)
  show ?thesis using dram_le_ops[OF sane_at_sane[OF assms[unfolded x]]] by (cases pc) (simp_all add: x)
qed

lemma sum_hits_bounded: "\<forall>x \<in> set xs. sane_at x \<Longrightarrow> sum_list (map dram_of xs) + sum_list (map lower_of xs) = sum_list (map ops_of xs)"
proof (induction xs)
  case (Cons x xs)
  then show ?case using hits_bounded[of x] by simp
qed simp

lemma phase_turn_counts:
  assumes p: "phase_counts t0 k y" and b: "dram_hits t0 + lower_hits t0 + k + 1 < 2 ^ 64"
  shows "phase_counts t0 (k + 1) (phase_turn E swips z y t)"
proof -
  obtain ws s where y: "y = (ws, s)" by (cases y)
  note P = p[unfolded phase_counts_def y, simplified]
  show ?thesis
  proof (cases t)
    case (PoolTurn v)
    obtain r s1 where "worker_step E v s = (r, s1)" by fastforce
    then have "no_hit (bm_stats s) (bm_stats (pool_thread E v s))"
      using counts_keptD[OF counts_worker, of E v s r s1] by (auto simp: pool_thread_def split: outcome.splits)
    note N = no_hit_counts[OF this]
    have "stats_grown t0 (bm_stats s) \<Longrightarrow> stats_grown t0 (bm_stats (pool_thread E v s))" by (rule stats_grown_trans[OF _ conjunct1[OF N]])
    moreover have "phase_turn E swips z y t = (ws, pool_thread E v s)" by (simp add: phase_turn_def y PoolTurn)
    ultimately show ?thesis using P N unfolding phase_counts_def by force
  next
    case (WorkerTurn i now)
    show ?thesis
    proof (cases "i < length ws")
      case True
      obtain x' s' where x': "worker_turn E swips z now (ws ! i) s = (x', s')" by fastforce
      let ?x = "ws ! i" and ?ws = "ws[i := x']"
      have x: "?x \<in> set ws" "sane_at ?x" using P True by simp_all
      have "ops_of ?x \<le> sum_list (map ops_of ws)" using x(1) by (rule sum_list_member)
      then have "ops_of ?x + 1 < 2 ^ 64" using P b by linarith
      note C = worker_turn_counts[OF x' x(2) this, unfolded turn_counts_def]
      note O = sum_list_change[OF True, of ops_of x'] and D = sum_list_change[OF True, of dram_of x'] and L = sum_list_change[OF True, of lower_of x']
      have sane: "\<forall>x \<in> set ?ws. sane_at x" using C P set_update_subset_insert[of ws i x'] by auto
      have "(\<exists>x \<in> set ?ws. failed x) \<or> stats_grown t0 (bm_stats s') \<and> dram_hits (bm_stats s') = dram_hits t0 + sum_list (map dram_of ?ws)
          \<and> lower_hits (bm_stats s') = lower_hits t0 + sum_list (map lower_of ?ws)"
      proof (cases "\<exists>x \<in> set ?ws. failed x")
        case False
        have f': "\<not> failed x'" using False set_update_memI[OF True] by blast
        have "\<not> failed x" if "x \<in> set ws" for x
        proof -
          obtain j where j: "j < length ws" "x = ws ! j" using \<open>x \<in> set ws\<close> by (auto simp: in_set_conv_nth)
          show ?thesis
          proof (cases "j = i")
            case False
            then have "x = ?ws ! j" using j by simp
            then show ?thesis using \<open>\<not> (\<exists>x \<in> set ?ws. failed x)\<close> j(1) by (metis length_list_update nth_mem)
          qed (use C f' j in auto)
        qed
        then have g: "stats_grown t0 (bm_stats s)" "dram_hits (bm_stats s) = dram_hits t0 + sum_list (map dram_of ws)"
          "lower_hits (bm_stats s) = lower_hits t0 + sum_list (map lower_of ws)" using P by blast+
        then have "dram_hits (bm_stats s) + lower_hits (bm_stats s) + 1 < 2 ^ 64" using P b sum_hits_bounded[of ws] by simp
        then have "stats_grown (bm_stats s) (bm_stats s')" "dram_hits (bm_stats s') + dram_of ?x = dram_hits (bm_stats s) + dram_of x'"
          "lower_hits (bm_stats s') + lower_of ?x = lower_hits (bm_stats s) + lower_of x'" using C f' by blast+
        then show ?thesis using g D L stats_grown_trans[OF g(1)] by simp
      qed simp
      moreover have "sum_list (map ops_of ?ws) \<le> k + 1" using O C P by linarith
      ultimately show ?thesis using sane True x' by (simp add: phase_counts_def phase_turn_def y WorkerTurn)
    qed (use P in \<open>auto simp: phase_counts_def phase_turn_def y WorkerTurn\<close>)
  qed
qed

lemma phase_turns_counts:
  assumes "phase_counts t0 k y" "dram_hits t0 + lower_hits t0 + k + length ts < 2 ^ 64"
  shows "phase_counts t0 (k + length ts) (foldl (phase_turn E swips z) y ts)"
  using assms
proof (induction ts arbitrary: k y)
  case (Cons t ts)
  have "phase_counts t0 (k + 1) (phase_turn E swips z y t)" using phase_turn_counts[OF Cons.prems(1)] Cons.prems(2) by simp
  then show ?case using Cons.IH[of "k + 1" "phase_turn E swips z y t"] Cons.prems(2) by simp
qed simp

lemma phase_start_counts: "phase_counts (bm_stats s) 0 (phase_start p n, s)"
proof -
  have z: "ops_of (worker_start r n, AtLoop) = 0 \<and> dram_of (worker_start r n, AtLoop) = 0 \<and> lower_of (worker_start r n, AtLoop) = 0" for r
    by (simp add: worker_start_def dram_done_def Let_def)
  have "sum_list (map f (phase_start p n)) = 0" if "\<And>r. f (worker_start r n, AtLoop) = (0::nat)" for f
    by (simp add: phase_start_def comp_def that sum_list_triv)
  then show ?thesis using z worker_start_sane by (auto simp: phase_counts_def phase_start_def)
qed

section \<open>Joining the workers\<close>

lemma worker_turn_run: "worker_turn E swips z now x s = (x', s') \<Longrightarrow> bw_run (fst x') = bw_run (fst x)"
  by (cases x; cases "snd x")
    (auto simp: worker_turn_def begin_operation_def finish_operation_def Let_def split: prod.splits if_splits outcome.splits sum.splits)

lemma phase_turns_run: "map (bw_run \<circ> fst) (fst (foldl (phase_turn E swips z) y ts)) = map (bw_run \<circ> fst) (fst y)"
proof (induction ts arbitrary: y)
  case (Cons t ts)
  obtain ws s where y: "y = (ws, s)" by (cases y)
  have "map (bw_run \<circ> fst) (fst (phase_turn E swips z y t)) = map (bw_run \<circ> fst) ws"
  proof (cases t)
    case (WorkerTurn i now)
    obtain x' s' where x': "worker_turn E swips z now (ws ! i) s = (x', s')" by fastforce
    show ?thesis using worker_turn_run[OF x'] x' by (auto simp: phase_turn_def y WorkerTurn map_update list_update_same_conv)
  qed (simp add: phase_turn_def y)
  then show ?case using Cons.IH[of "phase_turn E swips z y t"] unfolding y by (simp only: foldl_Cons fst_conv)
qed simp

text \<open>A measured result that the report accepts, apart from the counters of the pool.\<close>

definition row_ready :: "phase_result \<Rightarrow> bool" where
  "row_ready m \<longleftrightarrow> unat (pr_operations m) = unat (pr_point_operations m) + unat (pr_scan_operations m)
     \<and> pr_point_dram_hits m \<le> pr_point_operations m \<and> pr_scan_dram_hits m \<le> pr_scan_operations m
     \<and> (pr_operations m \<noteq> 0 \<longrightarrow> pr_latencies_ns m \<noteq> []) \<and> length (pr_latencies_ns m) \<le> unat (pr_operations m)
     \<and> (pr_point_operations m \<noteq> 0 \<longrightarrow> pr_point_latencies_ns m \<noteq> []) \<and> length (pr_point_latencies_ns m) \<le> unat (pr_operations m)
     \<and> (pr_scan_operations m \<noteq> 0 \<longrightarrow> pr_scan_latencies_ns m \<noteq> []) \<and> length (pr_scan_latencies_ns m) \<le> unat (pr_operations m)"

definition result_dram :: "phase_result \<Rightarrow> nat" where
  "result_dram m = unat (pr_point_dram_hits m) + unat (pr_scan_dram_hits m)"

definition add_result :: "phase_result \<Rightarrow> worker_result \<Rightarrow> phase_result" where
  "add_result r x = r\<lparr>pr_operations := saturating_add (pr_operations r) (wx_operations x),
     pr_point_operations := saturating_add (pr_point_operations r) (wx_point_operations x),
     pr_scan_operations := saturating_add (pr_scan_operations r) (wx_scan_operations x),
     pr_point_dram_hits := saturating_add (pr_point_dram_hits r) (wx_point_dram_hits x),
     pr_scan_dram_hits := saturating_add (pr_scan_dram_hits r) (wx_scan_dram_hits x),
     pr_latencies_ns := pr_latencies_ns r @ wx_latencies_ns x,
     pr_point_latencies_ns := pr_point_latencies_ns r @ wx_point_latencies_ns x,
     pr_scan_latencies_ns := pr_scan_latencies_ns r @ wx_scan_latencies_ns x\<rparr>"

lemma join_loop_result: "join_loop ((w, Returned (Inr x)) # ws) r e = join_loop ws (add_result r x) e"
  by (simp add: add_result_def)

lemma join_loop_error: "join_loop ws r (Some e) \<noteq> Some (m, None)"
proof (induction ws arbitrary: r)
  case (Cons x ws)
  obtain w pc where "x = (w, pc)" by (cases x)
  then show ?case using Cons.IH by (cases pc) (auto split: sum.splits)
qed simp

lemma add_result_ready:
  assumes r: "row_ready r" and w: "sane w" "wr_phase (bw_run w) = Measurement" and b: "unat (pr_operations r) + unat (bw_operations w) < 2 ^ 64"
  defines "m \<equiv> add_result r (worker_outcome w)"
  shows "row_ready m" "unat (pr_operations m) = unat (pr_operations r) + unat (bw_operations w)" "result_dram m = result_dram r + dram_done w"
    "pr_elapsed m = pr_elapsed r"
proof -
  note R = r[unfolded row_ready_def] and W = w(1)[unfolded sane_def sampling_def w(2)]
  have c: "unat (pr_point_operations r) + unat (bw_point_operations w) < 2 ^ 64" "unat (pr_scan_operations r) + unat (bw_scan_operations w) < 2 ^ 64"
    "unat (pr_point_dram_hits r) + unat (bw_point_dram_hits w) < 2 ^ 64" "unat (pr_scan_dram_hits r) + unat (bw_scan_dram_hits w) < 2 ^ 64"
    using R W b by (simp_all add: word_le_nat_alt)
  have u: "unat (pr_operations m) = unat (pr_operations r) + unat (bw_operations w)"
    "unat (pr_point_operations m) = unat (pr_point_operations r) + unat (bw_point_operations w)"
    "unat (pr_scan_operations m) = unat (pr_scan_operations r) + unat (bw_scan_operations w)"
    "unat (pr_point_dram_hits m) = unat (pr_point_dram_hits r) + unat (bw_point_dram_hits w)"
    "unat (pr_scan_dram_hits m) = unat (pr_scan_dram_hits r) + unat (bw_scan_dram_hits w)"
    using b c by (simp_all add: m_def add_result_def worker_outcome_def unat_saturating_add)
  have l: "pr_latencies_ns m = pr_latencies_ns r @ ls_values (bw_latency w)" "pr_point_latencies_ns m = pr_point_latencies_ns r @ ls_values (bw_point_latency w)"
    "pr_scan_latencies_ns m = pr_scan_latencies_ns r @ ls_values (bw_scan_latency w)"
    by (simp_all add: m_def add_result_def worker_outcome_def into_values_def)
  show "unat (pr_operations m) = unat (pr_operations r) + unat (bw_operations w)" "result_dram m = result_dram r + dram_done w"
    using u by (simp_all add: result_dram_def dram_done_def)
  show "pr_elapsed m = pr_elapsed r" by (simp add: m_def add_result_def)
  have z: "x \<noteq> 0 \<longleftrightarrow> 0 < unat x" for x :: u64 by (simp add: unat_gt_0)
  show "row_ready m" unfolding row_ready_def l z word_le_nat_alt u
    using R[unfolded z word_le_nat_alt] W[unfolded word_le_nat_alt] by (intro conjI impI) auto
qed

lemma join_counts:
  assumes "join_loop ws r None = Some (m, None)" "\<forall>x \<in> set ws. sane_at x \<and> wr_phase (bw_run (fst x)) = Measurement" "row_ready r"
    "unat (pr_operations r) + sum_list (map ops_of ws) < 2 ^ 64"
  shows "row_ready m \<and> unat (pr_operations m) = unat (pr_operations r) + sum_list (map ops_of ws)
    \<and> result_dram m = result_dram r + sum_list (map dram_of ws) \<and> pr_elapsed m = pr_elapsed r \<and> (\<forall>x \<in> set ws. \<not> failed x)"
  using assms
proof (induction ws arbitrary: r)
  case (Cons x ws)
  obtain w pc where x: "x = (w, pc)" by (cases x)
  show ?case
  proof (cases "\<exists>y. pc = Returned (Inr y)")
    case True
    then have pc: "pc = Returned (Inr (worker_outcome w))" "sane w" "wr_phase (bw_run w) = Measurement" using Cons.prems(2) by (auto simp: x)
    have b: "unat (pr_operations r) + unat (bw_operations w) < 2 ^ 64" using Cons.prems(4) by (simp add: x pc(1))
    note A = add_result_ready[OF Cons.prems(3) pc(2,3) b]
    have "join_loop ws (add_result r (worker_outcome w)) None = Some (m, None)" using Cons.prems(1) by (simp add: x pc(1) join_loop_result del: join_loop.simps)
    then show ?thesis using Cons.IH[OF _ _ A(1)] Cons.prems(2,4) A(2-4) by (simp add: x pc(1))
  next
    case False
    then show ?thesis using Cons.prems(1) by (cases pc) (auto simp: x join_loop_error split: sum.splits)
  qed
qed simp

section \<open>The report accepts the phase\<close>

lemma percentile_some:
  assumes "samples \<noteq> []" "length samples * 100 < 2 ^ 64" "1 \<le> p" "p \<le> 100"
  shows "\<exists>v. percentile_value samples p = Some v"
proof -
  let ?n = "length samples * p"
  have n: "0 < ?n" "?n \<le> length samples * 100" using assms(1,3,4) by simp_all
  have "div_ceil ?n 100 * 100 < ?n + 100" "?n \<le> div_ceil ?n 100 * 100" using div_ceil_bounds[of 100 ?n] by simp_all
  then have "div_ceil ?n 100 - 1 < length samples" using n assms(1) by linarith
  moreover have "?n < 2 ^ 64" using n(2) assms(2) by linarith
  ultimately show ?thesis using assms by (simp add: percentile_value_def percentile_def checked_mul_u64_def Let_def)
qed

lemma operation_latency_some:
  assumes "n \<noteq> 0 \<longrightarrow> samples \<noteq> []" "length samples * 100 < 2 ^ 64"
  shows "\<exists>a b. operation_latency_us n samples name = Inr (a, b)"
proof (cases "n = 0")
  case False
  then obtain v v' where "percentile_value samples 50 = Some v" "percentile_value samples 99 = Some v'"
    using percentile_some[of samples 50] percentile_some[of samples 99] assms by auto
  then show ?thesis using False by (simp add: operation_latency_us_def Let_def res_bind_def ok_or_def)
qed (simp add: operation_latency_us_def)

lemma word_diff_exact: "(b :: u64) \<le> b + d \<Longrightarrow> unat (b + d) = unat b + unat d"
  by (simp add: no_olen_add_nat unat_word_ariths)

lemma lower_hits_plus:
  assumes "list_all2 tier_grown bs (map2 tier_plus bs ds)" "length ds = length bs"
  shows "sum_list (map (unat \<circ> tc_demand_hits) (map2 tier_plus bs ds)) = sum_list (map (unat \<circ> tc_demand_hits) bs) + sum_list (map (unat \<circ> tc_demand_hits) ds)"
  using assms(2,1)
proof (induction ds bs rule: list_induct2)
  case (Cons d ds b bs)
  then have "unat (tc_demand_hits b + tc_demand_hits d) = unat (tc_demand_hits b) + unat (tc_demand_hits d)"
    by (intro word_diff_exact) (simp add: tier_grown_def tier_plus_def)
  then show ?case using Cons by (simp add: tier_plus_def)
qed simp

lemma demand_hits_exact:
  assumes "stats_grown b a" "lower_hits a < 2 ^ 64"
  shows "\<exists>d h l. tier_stats_delta b a = Inr d \<and> demand_hit_delta b a = Inr (h, l) \<and> dram_hits a = dram_hits b + unat h \<and> lower_hits a = lower_hits b + unat l"
proof -
  obtain d where d: "tier_stats_delta b a = Inr d" using stats_delta_cases[of b a] assms(1) by (auto split: sum.splits)
  let ?n = "sum_list (map (unat \<circ> tc_demand_hits) (st_tiers d))"
  have e: "stats_plus b d = a" "length (st_tiers d) = length (st_tiers b)" and
    h: "demand_hit_delta b a = (if ?n < 2 ^ 64 then Inr (st_dram_hits d, word_of_nat ?n) else Inl ''lower-tier demand hit count overflowed u64'')"
    using stats_delta_cases[of b a] by (simp_all add: d Let_def)
  have l: "lower_hits t = sum_list (map (unat \<circ> tc_demand_hits) (st_tiers t))" for t by (simp add: lower_hits_def hits_def comp_def)
  have t: "st_tiers a = map2 tier_plus (st_tiers b) (st_tiers d)" "st_dram_hits a = st_dram_hits b + st_dram_hits d" using e(1) by (auto simp: stats_plus_def)
  have "lower_hits a = lower_hits b + ?n" unfolding l t(1) using assms(1) t(1) e(2) by (intro lower_hits_plus) (simp_all add: stats_grown_def)
  moreover have "dram_hits a = dram_hits b + unat (st_dram_hits d)"
    using assms(1) t(2) word_diff_exact[of "st_dram_hits b" "st_dram_hits d"] by (simp add: dram_hits_def hits_def stats_grown_def)
  moreover from calculation(1) have "?n < 2 ^ 64" using assms(2) by linarith
  ultimately show ?thesis using d h by (auto simp: unsigned_of_nat take_bit_eq_mod)
qed

text \<open>A result whose counts are those of the pool.\<close>

lemma ready_row_accepted:
  assumes m: "row_ready m" "pr_operations m \<noteq> 0" "0 < pr_elapsed m" "unat (pr_operations m) * 100 < 2 ^ 64"
    and d: "demand_hit_delta before after = Inr (h, l)" "unat h = result_dram m" "unat h + unat l = unat (pr_operations m)"
  shows "\<exists>row. from_measurement fraction m cost before after = Inr row"
proof -
  note R = m(1)[unfolded row_ready_def]
  have add: "checked_add a b = Some c" if "unat a + unat b = unat c" for a b c :: u64
    using that unat_less_pow[of c] by (auto simp: checked_add_Some word_unat_eq_iff unat_word_ariths)
  have lat: "length (pr_latencies_ns m) * 100 < 2 ^ 64" "length (pr_point_latencies_ns m) * 100 < 2 ^ 64" "length (pr_scan_latencies_ns m) * 100 < 2 ^ 64"
    using R m(4) by linarith+
  obtain p50 p99 where p: "percentile_value (pr_latencies_ns m) 50 = Some p50" "percentile_value (pr_latencies_ns m) 99 = Some p99"
    using percentile_some[of "pr_latencies_ns m" 50] percentile_some[of "pr_latencies_ns m" 99] R m(2) lat(1) by auto
  obtain a b c e where o: "operation_latency_us (pr_point_operations m) (pr_point_latencies_ns m) ''point'' = Inr (a, b)"
    "operation_latency_us (pr_scan_operations m) (pr_scan_latencies_ns m) ''scan'' = Inr (c, e)"
    using operation_latency_some R lat by metis
  have "checked_add (pr_point_operations m) (pr_scan_operations m) = Some (pr_operations m)" "checked_add h l = Some (pr_operations m)"
    "checked_add (pr_point_dram_hits m) (pr_scan_dram_hits m) = Some h"
    using R d by (simp_all add: add result_dram_def)
  then show ?thesis using m(2,3) p o d(1) R by (simp add: from_measurement_def res_bind_def ok_or_def Let_def not_less)
qed

text \<open>
  C18. A measured phase that no worker failed is always reported: with at least one operation, a
  positive duration and no counter near its end, the counters of the pool differ by exactly the
  operations the workers counted, whatever the schedule, so the row and the dump are produced.
\<close>

theorem measured_phase_reported:
  assumes r: "run_phase E swips z p schedule elapsed s = (Some (Inr m), s')" and p: "ph_phase p = Measurement"
    and m: "pr_operations m \<noteq> 0" "0 < elapsed" and b: "dram_hits (bm_stats s) + lower_hits (bm_stats s) + 100 * length schedule < 2 ^ 64"
  shows "\<exists>row dump. from_measurement fraction m cost (manager_stats s) (manager_stats s') = Inr row
    \<and> fraction_stats_json fraction m (manager_stats s) (manager_stats s') = Inr dump
    \<and> dram_hits (bm_stats s') + lower_hits (bm_stats s') = dram_hits (bm_stats s) + lower_hits (bm_stats s) + unat (pr_operations m)"
proof -
  let ?k = "length schedule"
  obtain ws where ws: "foldl (phase_turn E swips z) (phase_start p (length swips), s) schedule = (ws, s')" "phase_join ws elapsed = Some (Inr m)"
    using r by (auto simp: run_phase_def split: prod.splits)
  let ?r = "\<lparr>pr_operations = 0, pr_point_operations = 0, pr_scan_operations = 0, pr_point_dram_hits = 0, pr_scan_dram_hits = 0,
     pr_elapsed = elapsed, pr_latencies_ns = [], pr_point_latencies_ns = [], pr_scan_latencies_ns = []\<rparr>"
  have j: "join_loop ws ?r None = Some (m, None)" using ws(2) by (auto simp: phase_join_def split: option.splits)
  have c: "phase_counts (bm_stats s) ?k (ws, s')"
    using phase_turns_counts[OF phase_start_counts[of s p "length swips"], of schedule E swips z] ws(1) b by simp
  note C = c[unfolded phase_counts_def, simplified]
  have run: "map (bw_run \<circ> fst) ws = map (bw_run \<circ> fst) (phase_start p (length swips))" using phase_turns_run[of E swips z _ schedule] ws(1) by (metis fst_conv)
  have "wr_phase (bw_run (fst x)) = Measurement" if "x \<in> set ws" for x
  proof -
    have "(bw_run \<circ> fst) x \<in> set (map (bw_run \<circ> fst) ws)" using that by simp
    then show ?thesis unfolding run using p by (auto simp: phase_start_def worker_start_def Let_def)
  qed
  then have J: "row_ready m" "unat (pr_operations m) = sum_list (map ops_of ws)" "result_dram m = sum_list (map dram_of ws)" "pr_elapsed m = elapsed"
    "\<forall>x \<in> set ws. \<not> failed x" using join_counts[OF j] C b by (auto simp: row_ready_def result_dram_def)
  have h: "stats_grown (bm_stats s) (bm_stats s')" "dram_hits (bm_stats s') = dram_hits (bm_stats s) + sum_list (map dram_of ws)"
    "lower_hits (bm_stats s') = lower_hits (bm_stats s) + sum_list (map lower_of ws)" using C J(5) by blast+
  have t: "sum_list (map dram_of ws) + sum_list (map lower_of ws) = unat (pr_operations m)" using sum_hits_bounded[of ws] C J(2) by simp
  have k: "unat (pr_operations m) \<le> ?k" using C J(2) by simp
  have "lower_hits (bm_stats s') < 2 ^ 64" using h(3) t k b by linarith
  then obtain d x y where d: "tier_stats_delta (bm_stats s) (bm_stats s') = Inr d" "demand_hit_delta (bm_stats s) (bm_stats s') = Inr (x, y)"
    "dram_hits (bm_stats s') = dram_hits (bm_stats s) + unat x" "lower_hits (bm_stats s') = lower_hits (bm_stats s) + unat y"
    using demand_hits_exact[OF h(1)] by blast
  have "\<exists>row. from_measurement fraction m cost (bm_stats s) (bm_stats s') = Inr row"
    by (rule ready_row_accepted[OF J(1) m(1) _ _ d(2)]) (use m(2) J(3,4) h t k b d(3,4) in linarith)+
  moreover have "\<exists>dump. fraction_stats_json fraction m (bm_stats s) (bm_stats s') = Inr dump" by (simp add: fraction_stats_json_def d(1) res_bind_def)
  ultimately show ?thesis using h t by (auto simp: manager_stats_def snapshot_def)
qed

section \<open>A measured phase of the small pool\<close>

lemma started_counts:
  assumes "started E tok s"
  shows "dram_hits (bm_stats s) = 0 \<and> lower_hits (bm_stats s) = 0"
proof -
  obtain mmap base elem config policy w w' where s: "new_with_policy E mmap base elem config policy w = (oOk s, w')" using assms unfolding started_def by blast
  have v: "of_result r w = (oOk (), w) \<or> (\<exists>e. of_result r w = (oErr e, w))" for r :: "tierbuf_error + unit" and w :: u64
    by (cases r) (simp_all add: op_return_def op_fail_def)
  have "bm_stats s = stats_new (map (tb_name (en_tier E)) (cfg_tiers config))"
    using s v[of "validate_config config" w]
    by (auto simp: new_with_policy_def op_seq_def op_bind_def op_outcome_def op_return_def Let_def allocate_manager_id_def split: outcome.splits sum.splits option.splits prod.splits)
  then show ?thesis by (simp add: dram_hits_def lower_hits_def hits_def stats_new_def comp_def sum_list_triv)
qed

definition demo_clock :: "bool \<Rightarrow> clock" where
  "demo_clock passed = \<lparr>ck_deadline_passed = passed, ck_retry_expired = False, ck_elapsed = 700\<rparr>"

definition demo_schedule :: "turn list" where
  "demo_schedule = [WorkerTurn 0 (demo_clock False), WorkerTurn 0 (demo_clock False), WorkerTurn 0 (demo_clock False), WorkerTurn 0 (demo_clock True)]"

definition demo_phase_config :: phase_config where
  "demo_phase_config = \<lparr>ph_worker_count = 1, ph_phase = Measurement, ph_prefetch_scan = False, ph_scan_only = True\<rparr>"

lemma demo_measured:
  obtains h s m s' where "bench_ready mock_env mock_wf demo_zipf [h] s" "run_phase mock_env [h] demo_zipf demo_phase_config demo_schedule 1000 s = (Some (Inr m), s')"
    "pr_operations m = 1" "dram_hits (bm_stats s) + lower_hits (bm_stats s) = 0"
proof (rule demo_dataset)
  fix s0 h s i
  assume d: "started mock_env mock_wf s0" "initialize_dataset mock_env 1 [([], False)] s0 = (Some (oOk (Inr [h])), s)"
    "client_inv fst snd mock_contents mock_wf {} (s, {#})" "marked mock_contents [h] s" "\<not> bm_stopping s" "i < fcount s" "held s i 0 h"
    "no_hit (bm_stats s0) (bm_stats s)"
  define w0 where "w0 = fst (phase_start demo_phase_config 1 ! 0)"
  have start: "phase_start demo_phase_config 1 = [(w0, AtLoop)]" by (simp add: w0_def phase_start_def demo_phase_config_def)
  have ws: "sane w0" using worker_start_sane by (simp add: w0_def phase_start_def demo_phase_config_def)
  have w: "ws_scan_cursor (bw_workload w0) = 0" "wr_scan_only (bw_run w0)" "\<not> wr_prefetch_scan (bw_run w0)" "bw_operations w0 = 0"
    by (simp_all add: w0_def phase_start_def demo_phase_config_def worker_start_def workload_new_def scan_start_def checked_mul_u64_def Let_def)
  obtain b w1 where b: "begin_operation demo_zipf w0 = (b, w1)" by fastforce
  have a: "as_index (bo_access b) < 1" "as_hint (bo_access b) \<noteq> PrefetchHint" using begin_operation_ok(1,3)[OF demo_zipf_ok _ b] w(1) by simp_all
  note B = begin_operation_sane[OF b ws]
  have run1: "wr_prefetch_scan (bw_run w0) = False" using w(3) by simp
  have inv: "pool_inv fst snd mock_contents mock_wf {} s" using d(3) by (simp add: client_inv_def)
  have "mock_pool.shared_free (fr s i)" using mock_pool.shared_busy[OF d(3,6,7)] by auto
  then obtain s1 where f: "fix_shared_loop mock_env h (as_hint (bo_access b)) 0 (Suc (Suc 0)) False None s
      = (oOk \<lparr>sg_index = i, sg_pid = 0, sg_swip = h, sg_source = Dram\<rparr>, s1)"
    using mock_pool.fix_shared_resident[OF inv d(5,6,7), of None "as_hint (bo_access b)" "Suc 0" False] by auto
  obtain c where c: "bm_swips s h = Some c" "sw_pid c = 0" "sw_owner_id c = bm_id s" using held_valid(3)[OF inv d(7)] by auto
  have v: "validate_handle h s = (oOk 0, s)" by (rule mock_pool.validate_handle_ok[OF inv c(1)]) (use c in auto)
  let ?g = "\<lparr>sg_index = i, sg_pid = 0, sg_swip = h, sg_source = Dram\<rparr>"
  have fx: "fix_shared_with mock_env FIX_ROUNDS h (as_hint (bo_access b)) s = (oOk ?g, s1)"
    using f v d(5) by (simp add: fix_shared_with_def op_seq_def op_bind_def ensure_running_def FIX_ROUNDS_def numeral_2_eq_2 del: fix_shared_loop.simps)
  have h: "h \<in> dom (bm_swips s)" using c by auto
  have k: "client_inv fst snd mock_contents mock_wf {} (s1, {#SharedGuard ?g#})" "marked mock_contents [h] s1"
  proof -
    have "client_inv fst snd mock_contents mock_wf {} (s1, {#SharedGuard ?g#}) \<and> kept mock_contents s s1"
      by (rule mock_pool.fix_shared_step[OF d(3) h, of FIX_ROUNDS "as_hint (bo_access b)"]) (use fx in \<open>auto simp: FIX_ROUNDS_def kept_def store_hold abs_store_def\<close>)
    then show "client_inv fst snd mock_contents mock_wf {} (s1, {#SharedGuard ?g#})" "marked mock_contents [h] s1" using kept_marked d(4) by auto
  qed
  obtain s2 where v2: "verify_page (bo_access b) ?g s1 = (oOk (Inr Dram), s2)"
    by (rule mock_pool.verify_page_ok[OF k(1) _ k(2), of ?g "bo_access b"]) (use a in auto)
  let ?w' = "finish_operation b 700 Dram w1"
  have turns: "worker_turn mock_env [h] demo_zipf (demo_clock False) (w0, AtLoop) s = ((w1, AtFix b), s)"
    "worker_turn mock_env [h] demo_zipf (demo_clock False) (w1, AtFix b) s = ((w1, AtGuard b ?g), s1)"
    "worker_turn mock_env [h] demo_zipf (demo_clock False) (w1, AtGuard b ?g) s1 = ((?w', AtLoop), s2)"
    "worker_turn mock_env [h] demo_zipf (demo_clock True) (?w', AtLoop) s2 = ((?w', Returned (Inr (worker_outcome ?w'))), s2)"
    using b run1 a fx v2 by (simp_all add: worker_turn_def demo_clock_def)
  have "foldl (phase_turn mock_env [h] demo_zipf) ([(w0, AtLoop)], s) demo_schedule = ([(?w', Returned (Inr (worker_outcome ?w')))], s2)"
    by (simp add: demo_schedule_def phase_turn_def turns)
  then obtain m where m: "run_phase mock_env [h] demo_zipf demo_phase_config demo_schedule 1000 s = (Some (Inr m), s2)" "pr_operations m = saturating_add 0 (bw_operations ?w')"
    by (auto simp: run_phase_def start[unfolded One_nat_def] phase_join_def worker_outcome_def)
  have "unat (bw_operations ?w') = 1" using finish_operation_sane(2)[OF B(1,2), of 700 Dram] B(4) w(4) by simp
  then have one: "pr_operations m = 1" unfolding m(2) word_unat_eq_iff by (simp add: unat_saturating_add)
  have rd: "bench_ready mock_env mock_wf demo_zipf [h] s" using ready_dataset[OF d(1,2) demo_zipf_ok] .
  have z: "dram_hits (bm_stats s) + lower_hits (bm_stats s) = 0" using no_hit_counts[OF d(8)] started_counts[OF d(1)] by simp
  show ?thesis by (rule that[OF rd m(1) one z])
qed

theorem measured_phase_reported_witness:
  "\<exists>h (s :: mock_manager) m s' row. run_phase mock_env [h] demo_zipf demo_phase_config demo_schedule 1000 s = (Some (Inr m), s')
    \<and> from_measurement (fraction_new 6) m f_zero (manager_stats s) (manager_stats s') = Inr row"
proof (rule demo_measured)
  fix h s m s'
  assume d: "run_phase mock_env [h] demo_zipf demo_phase_config demo_schedule 1000 s = (Some (Inr m), s')" "pr_operations m = 1"
    "dram_hits (bm_stats s) + lower_hits (bm_stats s) = 0"
  have "ph_phase demo_phase_config = Measurement" "length demo_schedule = 4" by (simp_all add: demo_phase_config_def demo_schedule_def)
  then show ?thesis using measured_phase_reported[OF d(1), of "fraction_new 6" f_zero] d by fastforce
qed

end
