(* ===== verification/Bench_Fraction.thy ===== *)
theory Bench_Fraction
  imports Bench_Counts
begin

text \<open>
  The run of one DRAM fraction as a whole (src/crates/tierbuf-bench/src/main.rs): every accepted
  command line leads to pools that can be built, and a run returns a row or an error message, never a
  panic, and shuts its pool down.
\<close>

section \<open>The constants are valid\<close>

lemma f_round_below:
  assumes "0 \<le> q" "q \<le> of_nat n" "n \<le> 2 ^ 53"
  shows "\<exists>m. f_round False q = F_Fin False m \<and> 0 \<le> m"
proof -
  have "round_mag q \<le> of_nat n" using round_mag_mono[OF assms(1,2)] round_mag_of_nat[OF assms(3)] by simp
  also have "(of_nat n :: rat) \<le> of_nat (2 ^ 53)" using assms(3) unfolding of_nat_le_iff .
  also have "\<dots> < 2 ^ 1024" by simp
  finally show ?thesis using round_mag_nonneg[OF assms(1)] by (simp add: f_round_def Let_def)
qed

lemma tenth: "f_round False (1 / 10) = F_Fin False (3602879701896397 / 36028797018963968)"
  by code_simp

lemma tenth_round: "f_round False (3602879701896397 / 36028797018963968) = F_Fin False (3602879701896397 / 36028797018963968)"
proof -
  have "round_mag (1 / 10) = 3602879701896397 / 36028797018963968" using tenth by (simp add: f_round_def Let_def split: if_splits)
  then have "round_mag (3602879701896397 / 36028797018963968) = 3602879701896397 / 36028797018963968" using round_mag_idem[of "1 / 10"] by (metis zero_less_divide_1_iff zero_less_numeral)
  then show ?thesis by (simp add: f_round_def)
qed

lemma epoch_seconds: "as_secs_f64 ECONOMIC_EPOCH = F_Fin False (3602879701896397 / 36028797018963968)"
proof -
  have "f_of_nat 100000000 = F_Fin False 100000000" "f_of_nat 0 = F_Fin False 0" using f_of_nat_exact[of 100000000] f_of_nat_exact[of 0] by simp_all
  then show ?thesis using tenth tenth_round by (simp add: as_secs_f64_def ECONOMIC_EPOCH_def f_round_signed_def f_signed_def)
qed

lemma mock_price: "f_is_finite MOCK_PRICE_GIB_MONTH" "\<not> f_lt MOCK_PRICE_GIB_MONTH f_zero"
  using f_round_below[of "8 / 100" 1] by (auto simp: MOCK_PRICE_GIB_MONTH_def f_lt_def f_zero_def f_signed_def)

lemma bench_economic_new:
  "\<exists>policy. economic_new \<lparr>ec_dram_price_gb_month = DRAM_PRICE_GIB_MONTH, ec_epoch_seconds = as_secs_f64 ECONOMIC_EPOCH,
     ec_cpu_cost_usd_per_us = ec_cpu_cost_usd_per_us economic_config_default,
     ec_read_opportunity_cost_usd = ec_read_opportunity_cost_usd economic_config_default\<rparr> = Inr policy"
proof -
  obtain a b where "f_round False (1 / 10 ^ 9) = F_Fin False a" "0 \<le> a" "f_round False (1 / 10 ^ 7) = F_Fin False b" "0 \<le> b"
    using f_round_below[of "1 / 10 ^ 9" 1] f_round_below[of "1 / 10 ^ 7" 1] by auto
  then show ?thesis
    by (simp add: economic_new_def economic_validate_config_def economic_config_default_def epoch_seconds DRAM_PRICE_GIB_MONTH_def f_zero_def f_signed_def f_lt_def)
qed

lemma bench_config_valid:
  assumes "0 < k"
  shows "validate_config (bench_config c t (k * PAGE_SIZE)) = Inr ()"
  using assms by (simp add: validate_config_def bench_config_def PAGE_SIZE_def tenth f_zero_def f_signed_def DRAM_PRICE_GIB_MONTH_def ECONOMIC_EPOCH_def)

context buffer_pool
begin

text \<open>A pool of the benchmark, once its tier exists: built, or an error of the allocation of its frames.\<close>

lemma bench_new:
  assumes k: "0 < k" and id: "unat next_id + 1 < 2 ^ 64" "next_id \<noteq> 0" and slice: "slice_fits base elem (k * PAGE_SIZE)" and t: "tok t"
  obtains (err) e w where "new_with_policy E mmap base elem (bench_config c t (k * PAGE_SIZE)) policy next_id = (oErr e, w)" "aligned_pool_new mmap (k * PAGE_SIZE) = Inl e"
  | (new) s w where "new_with_policy E mmap base elem (bench_config c t (k * PAGE_SIZE)) policy next_id = (oOk s, w)" "started E tok s" "fcount s = k"
proof -
  let ?c = "bench_config c t (k * PAGE_SIZE)"
  have cb: "cfg_dram_pool_bytes ?c = k * PAGE_SIZE" "cfg_tiers ?c = [t]" by (simp_all add: bench_config_def)
  have b: "k * PAGE_SIZE div PAGE_SIZE = k" by (simp add: PAGE_SIZE_def)
  have price: "residency_new (eco_dram_price_gb_month (cfg_economics ?c)) = oOk r" if "residency_new DRAM_PRICE_GIB_MONTH = oOk r" for r
    using that by (simp add: bench_config_def)
  have mid: "allocate_manager_id next_id = (oOk next_id, next_id + 1)"
  proof -
    have "checked_add next_id 1 = Some (next_id + 1)" using id(1) by (simp add: checked_add_Some)
    then show ?thesis by (simp add: allocate_manager_id_def try_update_def try_update_loop_quiet atomic_update_def)
  qed
  obtain r where r: "residency_new DRAM_PRICE_GIB_MONTH = oOk r" by (simp add: residency_new_def price_valid_def DRAM_PRICE_GIB_MONTH_def)
  note run = new_with_policy_def bench_config_valid[OF k] op_seq_def op_bind_def op_return_def op_outcome_def mid price[OF r] cb
  show ?thesis
  proof (cases "aligned_pool_new mmap (k * PAGE_SIZE)")
    case (Inl e)
    then show ?thesis using err[of e "next_id + 1"] by (simp add: run frame_table_new_def)
  next
    case (Inr p)
    obtain ft where "frame_table_new (en_queue E) mmap base elem (k * PAGE_SIZE) = oOk ft" using queue.frame_table_new_ok[OF Inr] by blast
    then obtain s w where s: "new_with_policy E mmap base elem ?c policy next_id = (oOk s, w)" by (simp add: run Let_def)
    have "started E tok s" unfolding started_def using s slice t id(2) cb by force
    moreover have "fcount s = k" using new_with_policy_ok(10)[OF s] slice t id(2) b by (simp add: cb)
    ultimately show ?thesis using new s by blast
  qed
qed

lemma measure_fraction_ok:
  assumes "started E tok s" "measure_fraction E powf c layout fraction script s = (Some x, s')"
  shows "\<exists>C r. x = oOk r \<and> cinv C (s', {#}) \<and> \<not> bm_stopping s'"
proof -
  let ?n = "dl_page_count layout"
  obtain r s1 C where i: "initialize_dataset E ?n (sc_initialize script) s = (r, s1)" "cinv C (s1, {#})" "\<not> bm_stopping s1"
    "case r of None \<Rightarrow> True | Some x \<Rightarrow> (\<exists>e. x = oOk (Inl e)) \<or> (\<exists>hs. x = oOk (Inr hs) \<and> length hs = ?n \<and> distinct hs \<and> marked contents hs s1)"
    using initialize_dataset_ok[OF assms(1), of ?n "sc_initialize script"] by blast
  note M = assms(2)[unfolded measure_fraction_def i(1)]
  show ?thesis
  proof (cases "\<exists>swips. r = Some (oOk (Inr swips))")
    case False
    then show ?thesis using M i by (auto split: option.splits)
  next
    case True
    then obtain swips where r: "r = Some (oOk (Inr swips))" "length swips = ?n" "marked contents swips s1" using i(4) by auto
    show ?thesis
    proof (cases "zipf_new powf ?n")
      case (Inl e)
      then show ?thesis using M r i by auto
    next
      case (Inr z)
      then have z: "zipf_new powf (length swips) = Inr z" using r(2) by simp
      obtain r2 s2 where p: "run_phase E swips z (fraction_phase c Warmup) (sc_warmup script) (sc_warmup_elapsed script) s1 = (r2, s2)" by fastforce
      have "r2 \<noteq> None" using M r(1) Inr p by (cases r2) auto
      then obtain y where y: "r2 = Some y" by auto
      note W = run_phase_ok[OF z i(2) r(3) p[unfolded y]]
      obtain C2 where c2: "cinv C2 (s2, {#})" "\<not> bm_stopping s2" using W(1,2) i(3) by (auto simp: kept_def)
      show ?thesis
      proof (cases y)
        case (Inl e)
        then show ?thesis using M r(1) Inr p y c2 by auto
      next
        case (Inr m)
        obtain r3 s3 where q: "run_phase E swips z (fraction_phase c Measurement) (sc_measure script) (sc_measure_elapsed script) s2 = (r3, s3)" by fastforce
        have "r3 \<noteq> None" using M r(1) \<open>zipf_new powf ?n = Inr z\<close> p q y Inr by (cases r3) (auto simp: Let_def)
        then obtain y' where y': "r3 = Some y'" by auto
        note V = run_phase_ok[OF z c2(1) W(3) q[unfolded y']]
        have "s' = s3" "\<exists>b. x = oOk b" using M r(1) \<open>zipf_new powf ?n = Inr z\<close> p q y y' Inr by (auto simp: Let_def split: sum.splits)
        then show ?thesis using V(1,2) c2(2) by (auto simp: kept_def)
      qed
    qed
  qed
qed

lemma finish_fraction_ok:
  assumes "cinv C (s, {#})" "\<not> bm_stopping s" "1 < length clock"
  shows "\<exists>r. finish_fraction E fraction clock b s = Some (oOk r)"
proof -
  obtain x y rest where clock: "clock = x # y # rest" using assms(3) by (cases clock; cases "tl clock") auto
  have "live_prefetch_worker (bm_workers s)" using assms(1,2) by (simp add: client_inv_def)
  then obtain r s' where "shutdown E clock s = (r, s')" "r = oOk () \<or> (\<exists>e. r = oErr e)"
    using shutdown_ok[OF assms(1), of "y # rest" x] unfolding clock by auto
  then show ?thesis by (auto simp: finish_fraction_def Let_def)
qed

end

lemma make_manager_eq:
  assumes "dram_pages fraction (dl_page_count layout) = Inr k" "checked_mul_u64 k PAGE_SIZE = Some b"
  shows "0 < k" "b = k * PAGE_SIZE"
    "\<exists>policy. make_manager E mmap base elem (Inr tier) c layout fraction next_id =
      (case fst (new_with_policy E mmap base elem (bench_config c tier (k * PAGE_SIZE)) policy next_id) of
         oOk s \<Rightarrow> oOk (Inr s)
       | oErr e \<Rightarrow> oOk (Inl (''failed to create buffer manager for fraction '' @ fraction_label fraction @ '': '' @ error_display e))
       | oPanic m \<Rightarrow> oPanic m
       | oBlocks \<Rightarrow> oBlocks)"
proof -
  show k: "0 < k" "b = k * PAGE_SIZE" using assms by (auto simp: dram_pages_def checked_mul_u64_def split: option.splits if_splits)
  obtain policy where "economic_new \<lparr>ec_dram_price_gb_month = DRAM_PRICE_GIB_MONTH, ec_epoch_seconds = as_secs_f64 ECONOMIC_EPOCH,
     ec_cpu_cost_usd_per_us = ec_cpu_cost_usd_per_us economic_config_default,
     ec_read_opportunity_cost_usd = ec_read_opportunity_cost_usd economic_config_default\<rparr> = Inr policy" using bench_economic_new by blast
  then have "manager_new E mmap base elem (bench_config c tier b) next_id = new_with_policy E mmap base elem (bench_config c tier b) policy next_id"
    by (simp add: manager_new_def bench_config_def op_bind_def op_return_def)
  then show "\<exists>policy. make_manager E mmap base elem (Inr tier) c layout fraction next_id =
      (case fst (new_with_policy E mmap base elem (bench_config c tier (k * PAGE_SIZE)) policy next_id) of
         oOk s \<Rightarrow> oOk (Inr s)
       | oErr e \<Rightarrow> oOk (Inl (''failed to create buffer manager for fraction '' @ fraction_label fraction @ '': '' @ error_display e))
       | oPanic m \<Rightarrow> oPanic m
       | oBlocks \<Rightarrow> oBlocks)" using assms k by (intro exI[of _ policy]) (simp add: make_manager_def)
qed

lemma make_manager_cases:
  assumes P: "buffer_pool E elems cap contents tok" and t: "\<forall>t. made = Inr t \<longrightarrow> tok t" and id: "next_id \<noteq> 0" "unat next_id + 1 < 2 ^ 64"
    and slice: "\<forall>k. dram_pages fraction (dl_page_count layout) = Inr k \<longrightarrow> slice_fits base elem (k * PAGE_SIZE)"
  obtains (err) e where "make_manager E mmap base elem made c layout fraction next_id = oOk (Inl e)"
    "made = Inr tier \<Longrightarrow> dram_pages fraction (dl_page_count layout) = Inr k \<Longrightarrow> k * PAGE_SIZE < 2 ^ 64 \<Longrightarrow> \<exists>e. aligned_pool_new mmap (k * PAGE_SIZE) = Inl e"
  | (new) s where "make_manager E mmap base elem made c layout fraction next_id = oOk (Inr s)" "started E tok s"
    "dram_pages fraction (dl_page_count layout) = Inr (fcount s)"
proof (cases "\<exists>tier k b. made = Inr tier \<and> dram_pages fraction (dl_page_count layout) = Inr k \<and> checked_mul_u64 k PAGE_SIZE = Some b")
  case False
  then have "\<exists>e. make_manager E mmap base elem made c layout fraction next_id = oOk (Inl e)"
    by (auto simp: make_manager_def split: sum.split option.split)
  then obtain e where e: "make_manager E mmap base elem made c layout fraction next_id = oOk (Inl e)" ..
  have "\<not> k * PAGE_SIZE < 2 ^ 64" if "made = Inr tier" "dram_pages fraction (dl_page_count layout) = Inr k"
    using False that by (metis checked_mul_u64_def)
  then show ?thesis using err[OF e] by blast
next
  case True
  then obtain tier k b where m: "made = Inr tier" "dram_pages fraction (dl_page_count layout) = Inr k" "checked_mul_u64 k PAGE_SIZE = Some b" by blast
  note K = make_manager_eq[OF m(2,3)]
  obtain policy where e: "make_manager E mmap base elem made c layout fraction next_id =
      (case fst (new_with_policy E mmap base elem (bench_config c tier (k * PAGE_SIZE)) policy next_id) of
         oOk s \<Rightarrow> oOk (Inr s)
       | oErr e \<Rightarrow> oOk (Inl (''failed to create buffer manager for fraction '' @ fraction_label fraction @ '': '' @ error_display e))
       | oPanic m \<Rightarrow> oPanic m
       | oBlocks \<Rightarrow> oBlocks)" using K(3)[of E mmap base elem tier c next_id] unfolding m(1) by blast
  show ?thesis
    by (rule buffer_pool.bench_new[OF P K(1) id(2,1), where t = tier and base = base and elem = elem and mmap = mmap and c = c and policy = policy])
      (use slice t m e err new in auto)
qed

lemma run_fraction_returns:
  assumes P: "buffer_pool E elems cap contents tok" and t: "\<forall>t. made = Inr t \<longrightarrow> tok t" and id: "next_id \<noteq> 0" "unat next_id + 1 < 2 ^ 64"
    and slice: "\<forall>k. dram_pages fraction (dl_page_count layout) = Inr k \<longrightarrow> slice_fits base elem (k * PAGE_SIZE)" and clock: "1 < length (sc_shutdown script)"
  shows "case run_fraction E mmap base elem made next_id powf c layout fraction script of
      Some x \<Rightarrow> \<exists>r. x = oOk r
    | None \<Rightarrow> \<exists>s. make_manager E mmap base elem made c layout fraction next_id = oOk (Inr s) \<and> fst (measure_fraction E powf c layout fraction script s) = None"
proof (rule make_manager_cases[OF P t id slice, where mmap = mmap and c = c])
  fix e assume "make_manager E mmap base elem made c layout fraction next_id = oOk (Inl e)"
  then show ?thesis by (simp add: run_fraction_def)
next
  fix s assume s: "make_manager E mmap base elem made c layout fraction next_id = oOk (Inr s)" "started E tok s"
  obtain x s' where x: "measure_fraction E powf c layout fraction script s = (x, s')" by fastforce
  show ?thesis
  proof (cases x)
    case None
    then show ?thesis using s x by (simp add: run_fraction_def)
  next
    case (Some y)
    obtain C r where "y = oOk r" "client_inv elems cap contents tok C (s', {#})" "\<not> bm_stopping s'"
      using buffer_pool.measure_fraction_ok[OF P s(2) x[unfolded Some]] by blast
    then show ?thesis using buffer_pool.finish_fraction_ok[OF P _ _ clock, of C s' fraction r] s x Some by (auto simp: run_fraction_def)
  qed
qed

section \<open>The properties\<close>



text \<open>
  C39. For a command line that the driver accepts and each of its fractions, the in-memory tier of the
  benchmark can be created and, if the system maps the memory, so can its pool, with as many frames
  as the fraction asks for and a tier that holds the dataset twice.
\<close>

theorem accepted_cli_builds_pools:
  assumes c: "parse_cli arguments = Inr (Run c)" "fraction \<in> set (cf_fractions c)" "dataset_layout_of c = Inr layout"
    and mmap: "\<forall>n. \<exists>a. mmap n = Inr a" and id: "next_id \<noteq> 0" "unat next_id + 1 < 2 ^ 64"
    and slice: "\<forall>k. dram_pages fraction (dl_page_count layout) = Inr k \<longrightarrow> slice_fits base elem (k * PAGE_SIZE)"
  shows "\<exists>tier k s. bench_mock_tier c layout = Inr tier \<and> mt_slot_count tier = 2 * dl_page_count layout \<and> dram_pages fraction (dl_page_count layout) = Inr k
    \<and> make_manager mock_env mmap base elem (Inr tier) c layout fraction next_id = oOk (Inr s) \<and> started mock_env mock_wf s \<and> fcount s = k \<and> k \<le> dl_page_count layout"
proof -
  have B: "0 < dl_page_count layout" "dl_tier_capacity_bytes layout = 2 * (dl_page_count layout * PAGE_SIZE)" "dl_tier_capacity_bytes layout < 2 ^ 64"
    using cli_runnable[OF c(1)] c(3) by auto
  obtain k where k: "dram_pages fraction (dl_page_count layout) = Inr k" "1 \<le> k" "k \<le> dl_page_count layout" "k * PAGE_SIZE < 2 ^ 63"
    using cli_runnable[OF c(1)] c(2,3) by auto
  obtain tier where t: "bench_mock_tier c layout = Inr tier" "mock_with_options ''mock'' (dl_tier_capacity_bytes layout) MOCK_PRICE_GIB_MONTH (bench_latency c) None = Inr tier"
    "mt_slot_count tier = 2 * dl_page_count layout"
    using B mock_price by (auto simp: bench_mock_tier_def mock_with_options_def bench_latency_def MOCK_SEQUENTIAL_GIB_PER_SECOND_def f_lt_def f_zero_def f_signed_def PAGE_SIZE_def)
  have wf: "mock_wf tier" using mock_new_wf[OF t(2)] B(3) by simp
  obtain m where "mmap (k * PAGE_SIZE + (PAGE_SIZE - 1)) = Inr m" using mmap by blast
  then obtain p where a: "aligned_pool_new mmap (k * PAGE_SIZE) = Inr p"
    using k(2,4) by (simp add: aligned_pool_new_def checked_add_u64_def PAGE_SIZE_def Let_def)
  show ?thesis
  proof (rule make_manager_cases[OF mock_pool.buffer_pool_axioms _ id slice, where mmap = mmap and c = c and made = "Inr tier" and tier = tier and k = k])
    fix e assume "Inr tier = Inr tier \<Longrightarrow> dram_pages fraction (dl_page_count layout) = Inr k \<Longrightarrow> k * PAGE_SIZE < 2 ^ 64 \<Longrightarrow> \<exists>e. aligned_pool_new mmap (k * PAGE_SIZE) = Inl e"
    then show ?thesis using a k by simp
  qed (use wf t k in auto)
qed

theorem accepted_cli_builds_pools_witness:
  "\<exists>c layout tier s. parse_cli [''--ci''] = Inr (Run c) \<and> bench_mock_tier c layout = Inr tier
     \<and> make_manager mock_env (\<lambda>_. Inr 0) 64 72 (Inr tier) c layout (fraction_new 10) 1 = oOk (Inr s) \<and> started mock_env mock_wf s"
proof -
  obtain c where c: "parse_cli [''--ci''] = Inr (Run c)" "fraction_new 10 \<in> set (cf_fractions c)" "cf_dataset_mib c = 32"
    by (simp add: parse_cli_def set_profile_def cli_empty_def config_validate_def cli_config_def config_ci_def config_default_def
        dataset_layout_of_def checked_mul_u64_def MIB_def PAGE_SIZE_def Let_def DEFAULT_WARMUP_def DEFAULT_MEASUREMENT_def
        DEFAULT_WORKERS_def DEFAULT_OUTPUT_def DEFAULT_STATS_OUTPUT_def DRAM_FRACTIONS_def)
  obtain layout where l: "dataset_layout_of c = Inr layout" "dl_page_count layout = 512"
    using c(3) by (simp add: dataset_layout_of_def checked_mul_u64_def MIB_def PAGE_SIZE_def Let_def)
  have "\<forall>k. dram_pages (fraction_new 10) (dl_page_count layout) = Inr k \<longrightarrow> slice_fits 64 72 (k * PAGE_SIZE)"
    unfolding l(2) by (simp add: dram_pages_def fraction_new_def checked_mul_u64_def slice_fits_def PAGE_SIZE_def)
  then show ?thesis using accepted_cli_builds_pools[OF c(1,2) l(1), of "\<lambda>_. Inr 0" 1 64 72] c(1) by fastforce
qed

end
