(* ===== verification/Bench_Output.thy ===== *)
theory Bench_Output
  imports Bench_Fraction "HOL-Library.Sublist"
begin

text \<open>
  The outer loop of the benchmark driver and its output files (\<open>main\<close>, \<open>run_from_env\<close>,
  \<open>run_benchmark\<close>, \<open>CsvOutput\<close>, \<open>write_stats_json\<close> and \<open>print_usage\<close> of
  src/crates/tierbuf-bench/src/main.rs).  The host is its files, its two output streams and a list of
  fates: each call that reaches the file system takes the next one, and an exhausted list means that the
  calls succeed.  \<open>BufWriter\<close>, \<open>Path::parent\<close> and \<open>str::trim_end\<close> of the standard library are
  modelled; the text that \<open>serde_json\<close> writes for a value is a parameter, the list of its chunks.
\<close>

section \<open>The host\<close>

datatype io_fate = Works | FailsAfter nat io_error

record host =
  ho_files :: "string \<Rightarrow> string option"
  ho_directories :: "string list"
  ho_fates :: "io_fate list"
  ho_stdout :: "string list"
  ho_stderr :: "string list"

definition next_fate :: "host \<Rightarrow> io_fate \<times> host" where
  "next_fate h = (case ho_fates h of [] \<Rightarrow> (Works, h) | fate # rest \<Rightarrow> (fate, h\<lparr>ho_fates := rest\<rparr>))"

definition file_text :: "host \<Rightarrow> string \<Rightarrow> string" where
  "file_text h path = (case ho_files h path of Some text \<Rightarrow> text | None \<Rightarrow> [])"

definition create_dir_all :: "string \<Rightarrow> host \<Rightarrow> (io_error + unit) \<times> host" where
  "create_dir_all directory h =
     (case next_fate h of
        (Works, h1) \<Rightarrow> (Inr (), h1\<lparr>ho_directories := directory # ho_directories h1\<rparr>)
      | (FailsAfter n e, h1) \<Rightarrow> (Inl e, h1))"

text \<open>\<open>File::create\<close> truncates the file if it exists.\<close>

definition file_create :: "string \<Rightarrow> host \<Rightarrow> (io_error + unit) \<times> host" where
  "file_create path h =
     (case next_fate h of
        (Works, h1) \<Rightarrow> (Inr (), h1\<lparr>ho_files := (ho_files h1)(path \<mapsto> [])\<rparr>)
      | (FailsAfter n e, h1) \<Rightarrow> (Inl e, h1))"

text \<open>Writing bytes at the end of the file: all of them, or a number of them and then an error.\<close>

definition file_write :: "string \<Rightarrow> string \<Rightarrow> host \<Rightarrow> (nat \<times> io_error + unit) \<times> host" where
  "file_write path bytes h =
     (if bytes = [] then (Inr (), h) else
      (case next_fate h of
         (Works, h1) \<Rightarrow> (Inr (), h1\<lparr>ho_files := (ho_files h1)(path \<mapsto> file_text h1 path @ bytes)\<rparr>)
       | (FailsAfter n e, h1) \<Rightarrow> (Inl (n, e), h1\<lparr>ho_files := (ho_files h1)(path \<mapsto> file_text h1 path @ take n bytes)\<rparr>)))"

definition println :: "string \<Rightarrow> host \<Rightarrow> host" where
  "println line h = h\<lparr>ho_stdout := ho_stdout h @ [line]\<rparr>"

definition eprintln :: "string \<Rightarrow> host \<Rightarrow> host" where
  "eprintln line h = h\<lparr>ho_stderr := ho_stderr h @ [line]\<rparr>"

section \<open>Standard library\<close>

text \<open>\<open>BufWriter\<close>: what it holds back, and the file below it.  An error keeps the bytes not yet written.\<close>

definition WRITER_CAPACITY :: nat where "WRITER_CAPACITY = 8 * 1024"

record buf_writer =
  bf_path :: string
  bf_buffer :: string

definition writer_new :: "string \<Rightarrow> buf_writer" where
  "writer_new path = \<lparr>bf_path = path, bf_buffer = []\<rparr>"

definition writer_flush :: "buf_writer \<times> host \<Rightarrow> (io_error + unit) \<times> buf_writer \<times> host" where
  "writer_flush wh =
     (case wh of (w, h) \<Rightarrow>
     (case file_write (bf_path w) (bf_buffer w) h of
        (Inr _, h1) \<Rightarrow> (Inr (), w\<lparr>bf_buffer := []\<rparr>, h1)
      | (Inl (n, e), h1) \<Rightarrow> (Inl e, w\<lparr>bf_buffer := drop n (bf_buffer w)\<rparr>, h1)))"

definition writer_write_all :: "string \<Rightarrow> buf_writer \<times> host \<Rightarrow> (io_error + unit) \<times> buf_writer \<times> host" where
  "writer_write_all bytes wh =
     (case wh of (w, h) \<Rightarrow>
      if length bytes < WRITER_CAPACITY - length (bf_buffer w)
      then (Inr (), w\<lparr>bf_buffer := bf_buffer w @ bytes\<rparr>, h)
      else (case (if WRITER_CAPACITY - length (bf_buffer w) < length bytes then writer_flush (w, h) else (Inr (), w, h)) of
              (Inl e, wh1) \<Rightarrow> (Inl e, wh1)
            | (Inr _, w1, h1) \<Rightarrow>
                if WRITER_CAPACITY \<le> length bytes
                then (case file_write (bf_path w1) bytes h1 of
                        (Inr _, h2) \<Rightarrow> (Inr (), w1, h2)
                      | (Inl (n, e), h2) \<Rightarrow> (Inl e, w1, h2))
                else (Inr (), w1\<lparr>bf_buffer := bf_buffer w1 @ bytes\<rparr>, h1)))"

definition writer_drop :: "buf_writer \<times> host \<Rightarrow> host" where
  "writer_drop wh = snd (snd (writer_flush wh))"

text \<open>
  \<open>Path::parent\<close> on Unix: empty and \<open>.\<close> components do not count, but for a leading \<open>.\<close> of a relative
  path; the parent keeps the text before the last component.
\<close>

fun split_slash :: "string \<Rightarrow> string list" where
  "split_slash [] = [[]]"
| "split_slash (c # cs) =
     (if c = CHR ''/'' then [] # split_slash cs
      else (case split_slash cs of [] \<Rightarrow> [[c]] | seg # segs \<Rightarrow> (c # seg) # segs))"

fun join_slash :: "string list \<Rightarrow> string" where
  "join_slash [] = []"
| "join_slash [seg] = seg"
| "join_slash (seg # segs) = seg @ ''/'' @ join_slash segs"

definition trim_components :: "bool \<Rightarrow> string list \<Rightarrow> string list" where
  "trim_components absolute segs =
     (let kept = rev (dropWhile (\<lambda>seg. seg = [] \<or> seg = ''.'') (rev segs)) in
      if kept = [] \<and> \<not> absolute \<and> segs \<noteq> [] \<and> hd segs = ''.'' then [''.''] else kept)"

definition path_parent :: "string \<Rightarrow> string option" where
  "path_parent path =
     (let absolute = (path \<noteq> [] \<and> hd path = CHR ''/'');
          segs = trim_components absolute (if absolute then tl (split_slash path) else split_slash path)
      in if segs = [] then None
         else Some ((if absolute then ''/'' else []) @ join_slash (trim_components absolute (butlast segs))))"

definition is_space :: "char \<Rightarrow> bool" where
  "is_space c \<longleftrightarrow> (let n = of_char c :: nat in n = 32 \<or> 9 \<le> n \<and> n \<le> 13)"

definition trim_end :: "string \<Rightarrow> string" where
  "trim_end s = rev (dropWhile is_space (rev s))"

section \<open>The output files\<close>

text \<open>The directory of an output file, created unless the path names none.\<close>

definition create_parent :: "string \<Rightarrow> string \<Rightarrow> host \<Rightarrow> (string + unit) \<times> host" where
  "create_parent what path h =
     (case path_parent path of
        None \<Rightarrow> (Inr (), h)
      | Some parent \<Rightarrow>
          if parent = [] then (Inr (), h)
          else (case create_dir_all parent h of
                  (Inl e, h1) \<Rightarrow> (Inl (''failed to create '' @ what @ '' directory '' @ quoted parent @ '': '' @ io_message e), h1)
                | (Inr _, h1) \<Rightarrow> (Inr (), h1)))"

definition csv_open :: "string \<Rightarrow> host \<Rightarrow> (string + buf_writer) \<times> host" where
  "csv_open path h =
     (case create_parent ''output'' path h of
        (Inl m, h1) \<Rightarrow> (Inl m, h1)
      | (Inr _, h1) \<Rightarrow>
     (case file_create path h1 of
        (Inl e, h2) \<Rightarrow> (Inl (''failed to open '' @ quoted path @ '': '' @ io_message e), h2)
      | (Inr _, h2) \<Rightarrow>
     (case writer_write_all CSV_HEADER (writer_new path, h2) of
        (Inl e, wh) \<Rightarrow> (Inl (''failed to write '' @ quoted path @ '': '' @ io_message e), writer_drop wh)
      | (Inr _, wh) \<Rightarrow>
     (case writer_flush wh of
        (Inl e, wh1) \<Rightarrow> (Inl (''failed to flush '' @ quoted path @ '': '' @ io_message e), writer_drop wh1)
      | (Inr _, w, h3) \<Rightarrow> (Inr w, h3)))))"

definition csv_append :: "bench_row \<Rightarrow> buf_writer \<times> host \<Rightarrow> (string + unit) \<times> buf_writer \<times> host" where
  "csv_append row wh =
     (case writer_write_all (format_csv_row row) wh of
        (Inl e, wh1) \<Rightarrow> (Inl (''failed to append benchmark CSV row: '' @ io_message e), wh1)
      | (Inr _, wh1) \<Rightarrow>
     (case writer_flush wh1 of
        (Inl e, wh2) \<Rightarrow> (Inl (''failed to flush benchmark CSV row: '' @ io_message e), wh2)
      | (Inr _, wh2) \<Rightarrow> (Inr (), wh2)))"

definition stats_document :: "json list \<Rightarrow> json" where
  "stats_document runs =
     JObj [(''schema_version'', JInt 1), (''capture_point'', JStr ''after_measurement_before_shutdown''), (''runs'', JList runs)]"

fun write_chunks :: "string list \<Rightarrow> buf_writer \<times> host \<Rightarrow> (io_error + unit) \<times> buf_writer \<times> host" where
  "write_chunks [] wh = (Inr (), wh)"
| "write_chunks (chunk # chunks) wh =
     (case writer_write_all chunk wh of (Inl e, wh1) \<Rightarrow> (Inl e, wh1) | (Inr _, wh1) \<Rightarrow> write_chunks chunks wh1)"

definition write_stats_json :: "(json \<Rightarrow> string list) \<Rightarrow> string \<Rightarrow> json list \<Rightarrow> host \<Rightarrow> (string + unit) \<times> host" where
  "write_stats_json pretty path runs h =
     (case create_parent ''stats output'' path h of
        (Inl m, h1) \<Rightarrow> (Inl m, h1)
      | (Inr _, h1) \<Rightarrow>
     (case file_create path h1 of
        (Inl e, h2) \<Rightarrow> (Inl (''failed to open stats output '' @ quoted path @ '': '' @ io_message e), h2)
      | (Inr _, h2) \<Rightarrow>
     (case write_chunks (pretty (stats_document runs)) (writer_new path, h2) of
        (Inl e, wh) \<Rightarrow> (Inl (''failed to serialize stats output '' @ quoted path @ '': '' @ io_message e), writer_drop wh)
      | (Inr _, wh) \<Rightarrow>
     (case (case writer_write_all [CHR 0x0A] wh of (Inl e, wh1) \<Rightarrow> (Inl e, wh1) | (Inr _, wh1) \<Rightarrow> writer_flush wh1) of
        (Inl e, wh1) \<Rightarrow> (Inl (''failed to flush stats output '' @ quoted path @ '': '' @ io_message e), writer_drop wh1)
      | (Inr _, wh1) \<Rightarrow> (Inr (), writer_drop wh1)))))"

section \<open>The loop over the fractions\<close>

text \<open>What the environment gives the run of one fraction: its tier, its memory, its schedule.\<close>

record 't fraction_input =
  fi_mmap :: "nat \<Rightarrow> io_error + nat"
  fi_base :: nat
  fi_elem :: nat
  fi_made :: "string + 't"
  fi_next_id :: u64
  fi_script :: fraction_script

definition input_run :: "('q, 't, economic_policy) env \<Rightarrow> (f64 \<Rightarrow> f64 \<Rightarrow> f64) \<Rightarrow> config \<Rightarrow> dataset_layout \<Rightarrow> dram_fraction \<Rightarrow> 't fraction_input \<Rightarrow>
    (string + bench_row \<times> json) outcome option" where
  "input_run E powf c layout fraction x =
     run_fraction E (fi_mmap x) (fi_base x) (fi_elem x) (fi_made x) (fi_next_id x) powf c layout fraction (fi_script x)"

definition progress_line :: "dataset_layout \<Rightarrow> dram_fraction \<Rightarrow> nat \<Rightarrow> string" where
  "progress_line layout fraction pages =
     ''fraction '' @ fraction_label fraction @ '': initializing '' @ nat_str (dl_page_count layout) @ '' pages in '' @ nat_str pages @ '' DRAM frames''"

text \<open>\<open>None\<close> is a run of a fraction that does not return.\<close>

fun fractions_loop :: "(dram_fraction \<Rightarrow> 'x \<Rightarrow> (string + bench_row \<times> json) outcome option) \<Rightarrow> dataset_layout \<Rightarrow> (dram_fraction \<times> 'x) list \<Rightarrow> json list \<Rightarrow>
    buf_writer \<times> host \<Rightarrow> (string + json list) outcome option \<times> buf_writer \<times> host" where
  "fractions_loop run layout [] stats_runs wh = (Some (oOk (Inr stats_runs)), wh)"
| "fractions_loop run layout ((fraction, x) # rest) stats_runs wh =
     (case dram_pages fraction (dl_page_count layout) of
        Inl e \<Rightarrow> (Some (oOk (Inl e)), wh)
      | Inr pages \<Rightarrow>
          (let wh1 = apsnd (eprintln (progress_line layout fraction pages)) wh in
          (case run fraction x of
             None \<Rightarrow> (None, wh1)
           | Some oBlocks \<Rightarrow> (None, wh1)
           | Some (oErr e) \<Rightarrow> (Some (oErr e), wh1)
           | Some (oPanic m) \<Rightarrow> (Some (oPanic m), wh1)
           | Some (oOk (Inl e)) \<Rightarrow> (Some (oOk (Inl e)), wh1)
           | Some (oOk (Inr (row, stats))) \<Rightarrow>
               (case csv_append row wh1 of
                  (Inl e, wh2) \<Rightarrow> (Some (oOk (Inl e)), wh2)
                | (Inr _, wh2) \<Rightarrow> fractions_loop run layout rest (stats_runs @ [stats]) (apsnd (println (trim_end (format_csv_row row))) wh2)))))"

definition curve_line :: "config \<Rightarrow> string" where
  "curve_line c = ''tierbuf degradation curve: '' @ nat_str (cf_dataset_mib c) @ '' MiB, '' @ nat_str (cf_workers c) @ '' workers, ''
     @ fixed_str 3 (as_secs_f64 (cf_warmup c)) @ ''s warmup, '' @ fixed_str 3 (as_secs_f64 (cf_measurement c)) @ ''s measurement''"

text \<open>The writer of the CSV file is dropped at the end, on every path.\<close>

definition run_benchmark :: "(config \<Rightarrow> dataset_layout \<Rightarrow> dram_fraction \<Rightarrow> 'x \<Rightarrow> (string + bench_row \<times> json) outcome option) \<Rightarrow> (json \<Rightarrow> string list) \<Rightarrow>
    (nat \<Rightarrow> 'x) \<Rightarrow> config \<Rightarrow> host \<Rightarrow> (string + unit) outcome option \<times> host" where
  "run_benchmark run pretty inputs c h =
     (case dataset_layout_of c of
        Inl e \<Rightarrow> (Some (oOk (Inl e)), h)
      | Inr layout \<Rightarrow>
     (case csv_open (cf_output c) h of
        (Inl e, h1) \<Rightarrow> (Some (oOk (Inl e)), h1)
      | (Inr w, h1) \<Rightarrow>
     (case fractions_loop (run c layout) layout (zip (cf_fractions c) (map inputs [0..<length (cf_fractions c)])) [] (w, println (curve_line c) h1) of
        (Some (oOk (Inr stats_runs)), w2, h2) \<Rightarrow>
          (case write_stats_json pretty (cf_stats_output c) stats_runs h2 of
             (r, h3) \<Rightarrow> (Some (oOk r), writer_drop (w2, h3)))
      | (Some (oOk (Inl e)), wh2) \<Rightarrow> (Some (oOk (Inl e)), writer_drop wh2)
      | (Some (oErr e), wh2) \<Rightarrow> (Some (oErr e), writer_drop wh2)
      | (Some (oPanic m), wh2) \<Rightarrow> (Some (oPanic m), writer_drop wh2)
      | (Some oBlocks, w2, h2) \<Rightarrow> (None, h2)
      | (None, w2, h2) \<Rightarrow> (None, h2))))"

section \<open>The program\<close>

text \<open>The lines of the usage text, printed by one \<open>println!\<close>.\<close>

definition USAGE :: "string list" where
  "USAGE = [
     ''Usage: tierbuf-bench [OPTIONS]'',
     [],
     ''Profiles:'',
     ''    --quick                 256 MiB, 1s warmup, 5s measurement'',
     ''    --ci                    32 MiB, 100ms warmup, 500ms measurement'',
     [],
     ''Options:'',
     ''    --dataset-mib N         Logical dataset size in MiB (default: 4096)'',
     ''    --warmup-secs SECONDS   Warmup duration; decimals are accepted (default: 10)'',
     ''    --measure-secs SECONDS  Measurement duration; decimals are accepted (default: 30)'',
     ''    --workers N             Worker threads (default: 4)'',
     ''    --mock-latency-us N     MockTier read/write delay in microseconds (default: 80)'',
     ''    --prefetch-scan         Prefetch eight pages ahead during sequential scans'',
     ''    --scan-only             Run the sequential scan component only'',
     ''    --file-tier PATH        Use one reusable FileTier path instead of MockTier'',
     ''    --output PATH           CSV output path, replaced each run (default: results/curve.csv)'',
     ''    --stats-output PATH     JSON stats output path (default: results/stats.json)'',
     ''    --fraction FRACTION     Run one DRAM fraction: 1.0, 0.8, 0.6, 0.4, 0.2, or 0.1'',
     ''    --eviction-mode MODE    Background eviction mode: demand (default) or watermark'',
     ''    -h, --help              Show this help'',
     [],
     ''Explicit sizing and duration options override the selected profile.'']"

fun join_lines :: "string list \<Rightarrow> string" where
  "join_lines [] = []"
| "join_lines [line] = line"
| "join_lines (line # rest) = line @ [CHR 0x0A] @ join_lines rest"

definition print_usage :: "host \<Rightarrow> host" where
  "print_usage = println (join_lines USAGE)"

definition run_from_env :: "(config \<Rightarrow> dataset_layout \<Rightarrow> dram_fraction \<Rightarrow> 'x \<Rightarrow> (string + bench_row \<times> json) outcome option) \<Rightarrow> (json \<Rightarrow> string list) \<Rightarrow>
    (nat \<Rightarrow> 'x) \<Rightarrow> string list \<Rightarrow> host \<Rightarrow> (string + unit) outcome option \<times> host" where
  "run_from_env run pretty inputs arguments h =
     (case parse_cli arguments of
        Inl e \<Rightarrow> (Some (oOk (Inl e)), h)
      | Inr Help \<Rightarrow> (Some (oOk (Inr ())), print_usage h)
      | Inr (Run c) \<Rightarrow> run_benchmark run pretty inputs c h)"

datatype exit_code = ExitSuccess | ExitFailure

text \<open>\<open>None\<close> is a run that does not end; a panic ends the process without an exit code of \<open>main\<close>.\<close>

definition bench_main :: "(config \<Rightarrow> dataset_layout \<Rightarrow> dram_fraction \<Rightarrow> 'x \<Rightarrow> (string + bench_row \<times> json) outcome option) \<Rightarrow> (json \<Rightarrow> string list) \<Rightarrow>
    (nat \<Rightarrow> 'x) \<Rightarrow> string list \<Rightarrow> host \<Rightarrow> exit_code outcome option \<times> host" where
  "bench_main run pretty inputs arguments h =
     (case run_from_env run pretty inputs arguments h of
        (Some (oOk (Inr _)), h1) \<Rightarrow> (Some (oOk ExitSuccess), h1)
      | (Some (oOk (Inl error)), h1) \<Rightarrow> (Some (oOk ExitFailure), eprintln (''tierbuf-bench: '' @ error) h1)
      | (Some (oErr e), h1) \<Rightarrow> (Some (oErr e), h1)
      | (Some (oPanic m), h1) \<Rightarrow> (Some (oPanic m), h1)
      | (Some oBlocks, h1) \<Rightarrow> (None, h1)
      | (None, h1) \<Rightarrow> (None, h1))"

section \<open>Writers\<close>

text \<open>What a writer has been given: the bytes in the file and those it holds back.\<close>

definition stream :: "buf_writer \<times> host \<Rightarrow> string" where
  "stream wh = file_text (snd wh) (bf_path (fst wh)) @ bf_buffer (fst wh)"

text \<open>Only the file of the writer changes, and without faults none appear.\<close>

definition writes_only :: "string \<Rightarrow> host \<Rightarrow> host \<Rightarrow> bool" where
  "writes_only path h h' \<longleftrightarrow> (\<forall>p. p \<noteq> path \<longrightarrow> ho_files h' p = ho_files h p) \<and> (ho_fates h = [] \<longrightarrow> ho_fates h' = [])"

lemma writes_only_refl [simp]: "writes_only path h h"
  by (simp add: writes_only_def)

lemma writes_only_trans: "writes_only path h h1 \<Longrightarrow> writes_only path h1 h2 \<Longrightarrow> writes_only path h h2"
  by (simp add: writes_only_def)

lemma writes_only_lines [simp]: "writes_only path h (println line h)" "writes_only path h (eprintln line h)"
  by (simp_all add: writes_only_def println_def eprintln_def)

lemma file_text_lines [simp]: "file_text (println line h) p = file_text h p" "file_text (eprintln line h) p = file_text h p"
  by (simp_all add: file_text_def println_def eprintln_def)

lemma stream_lines [simp]: "stream (apsnd (println line) wh) = stream wh" "stream (apsnd (eprintln line) wh) = stream wh"
  by (simp_all add: stream_def)

lemma file_write_ok:
  assumes "file_write path bytes h = (r, h')"
  shows "writes_only path h h'" "ho_fates h = [] \<Longrightarrow> r = Inr ()"
    "file_text h' path = file_text h path @ (case r of Inr _ \<Rightarrow> bytes | Inl (n, e) \<Rightarrow> take n bytes)"
proof -
  obtain fate h1 where f: "next_fate h = (fate, h1)" by fastforce
  then have "ho_files h1 = ho_files h" "ho_fates h = [] \<longrightarrow> fate = Works \<and> ho_fates h1 = []" by (auto simp: next_fate_def split: list.splits)
  then show "writes_only path h h'" "ho_fates h = [] \<Longrightarrow> r = Inr ()"
    "file_text h' path = file_text h path @ (case r of Inr _ \<Rightarrow> bytes | Inl (n, e) \<Rightarrow> take n bytes)"
    using assms f by (auto simp: file_write_def writes_only_def file_text_def split: io_fate.splits if_splits)
qed

lemma writer_flush_ok:
  assumes "writer_flush (w, h) = (r, w', h')"
  shows "bf_path w' = bf_path w" "writes_only (bf_path w) h h'" "stream (w', h') = stream (w, h)"
    "r = Inr () \<Longrightarrow> bf_buffer w' = []" "ho_fates h = [] \<Longrightarrow> r = Inr ()"
proof -
  obtain x h1 where f: "file_write (bf_path w) (bf_buffer w) h = (x, h1)" by fastforce
  note F = file_write_ok[OF f]
  show "bf_path w' = bf_path w" "writes_only (bf_path w) h h'" "stream (w', h') = stream (w, h)"
    "r = Inr () \<Longrightarrow> bf_buffer w' = []" "ho_fates h = [] \<Longrightarrow> r = Inr ()"
    using assms f F by (auto simp: writer_flush_def stream_def split: sum.splits prod.splits)
qed

lemma writer_write_all_ok:
  assumes "writer_write_all bytes (w, h) = (r, w', h')"
  shows "bf_path w' = bf_path w \<and> writes_only (bf_path w) h h' \<and> prefix (stream (w', h')) (stream (w, h) @ bytes)
    \<and> (r = Inr () \<longrightarrow> stream (w', h') = stream (w, h) @ bytes) \<and> (ho_fates h = [] \<longrightarrow> r = Inr ())"
proof (cases "length bytes < WRITER_CAPACITY - length (bf_buffer w)")
  case True
  then show ?thesis using assms by (auto simp: writer_write_all_def stream_def file_text_def)
next
  case False
  obtain x w1 h1 where f: "(if WRITER_CAPACITY - length (bf_buffer w) < length bytes then writer_flush (w, h) else (Inr (), w, h)) = (x, w1, h1)" by (rule prod_cases3)
  have F: "bf_path w1 = bf_path w \<and> writes_only (bf_path w) h h1 \<and> stream (w1, h1) = stream (w, h) \<and> (ho_fates h = [] \<longrightarrow> x = Inr ())"
  proof (cases "WRITER_CAPACITY - length (bf_buffer w) < length bytes")
    case True
    then have "writer_flush (w, h) = (x, w1, h1)" using f by simp
    from writer_flush_ok[OF this] show ?thesis by blast
  qed (use f in simp)
  show ?thesis
  proof (cases x)
    case (Inl e)
    then have "r = Inl e" "w' = w1" "h' = h1" using assms False f by (auto simp: writer_write_all_def)
    then show ?thesis using F Inl by auto
  next
    case (Inr u)
    show ?thesis
    proof (cases "WRITER_CAPACITY \<le> length bytes")
      case True
      have full: "bf_buffer w1 = []"
      proof (cases "WRITER_CAPACITY - length (bf_buffer w) < length bytes")
        case True
        then have "writer_flush (w, h) = (x, w1, h1)" using f by simp
        from writer_flush_ok(4)[OF this] show ?thesis using Inr by simp
      next
        case False
        then have "bf_buffer w = []" using \<open>WRITER_CAPACITY \<le> length bytes\<close> by (cases "bf_buffer w") (auto simp: WRITER_CAPACITY_def)
        then show ?thesis using f False by simp
      qed
      obtain y h2 where d: "file_write (bf_path w1) bytes h1 = (y, h2)" by fastforce
      note D = file_write_ok[OF d]
      have "w' = w1" "h' = h2" "r = Inr () \<longleftrightarrow> y = Inr ()" using assms \<open>\<not> length bytes < _\<close> f d True Inr by (auto simp: writer_write_all_def split: sum.splits)
      moreover have "stream (w1, h2) = stream (w, h) @ (case y of Inr _ \<Rightarrow> bytes | Inl (n, e) \<Rightarrow> take n bytes)"
        using D(3) F full by (auto simp: stream_def)
      moreover have "writes_only (bf_path w) h h2" using F D(1) writes_only_trans by metis
      moreover have "ho_fates h = [] \<Longrightarrow> y = Inr ()" using F D(2) by (simp add: writes_only_def)
      ultimately show ?thesis using F by (auto simp: take_is_prefix split: sum.splits)
    next
      case less: False
      then have "r = Inr ()" "w' = w1\<lparr>bf_buffer := bf_buffer w1 @ bytes\<rparr>" "h' = h1" using assms False f Inr by (auto simp: writer_write_all_def)
      moreover have "stream (w1\<lparr>bf_buffer := bf_buffer w1 @ bytes\<rparr>, h1) = stream (w1, h1) @ bytes" by (simp add: stream_def)
      ultimately show ?thesis using F by auto
    qed
  qed
qed

lemma writer_drop_ok:
  "writes_only (bf_path w) h (writer_drop (w, h))" "prefix (file_text (writer_drop (w, h)) (bf_path w)) (stream (w, h))"
  "ho_fates h = [] \<Longrightarrow> file_text (writer_drop (w, h)) (bf_path w) = stream (w, h)" "bf_buffer w = [] \<Longrightarrow> writer_drop (w, h) = h"
proof -
  obtain r w' h' where f: "writer_flush (w, h) = (r, w', h')" by (rule prod_cases3)
  note F = writer_flush_ok[OF f]
  have d: "writer_drop (w, h) = h'" using f by (simp add: writer_drop_def)
  show "writes_only (bf_path w) h (writer_drop (w, h))" unfolding d by (rule F)
  have s: "stream (w, h) = file_text h' (bf_path w) @ bf_buffer w'" using F(1,3) by (simp add: stream_def)
  then show "prefix (file_text (writer_drop (w, h)) (bf_path w)) (stream (w, h))" unfolding d by simp
  show "ho_fates h = [] \<Longrightarrow> file_text (writer_drop (w, h)) (bf_path w) = stream (w, h)" unfolding d using s F(4,5) by simp
  show "bf_buffer w = [] \<Longrightarrow> writer_drop (w, h) = h" by (simp add: writer_drop_def writer_flush_def file_write_def)
qed

section \<open>The output files hold what was produced\<close>

lemma create_ok:
  "create_parent what path h = (r, h') \<Longrightarrow> ho_files h' = ho_files h \<and> (ho_fates h = [] \<longrightarrow> r = Inr () \<and> ho_fates h' = [])"
  "file_create path h = (r', h') \<Longrightarrow> (case r' of Inr _ \<Rightarrow> ho_files h' = (ho_files h)(path \<mapsto> []) | Inl _ \<Rightarrow> ho_files h' = ho_files h)
     \<and> (ho_fates h = [] \<longrightarrow> r' = Inr () \<and> ho_fates h' = [])"
  by (auto simp: create_parent_def create_dir_all_def file_create_def next_fate_def split: option.splits if_splits io_fate.splits list.splits prod.splits sum.splits)

text \<open>Once the file exists it holds a prefix of the header; a success leaves the header and an empty buffer.\<close>

lemma csv_open_ok:
  assumes "csv_open path h = (r, h')"
  shows "(ho_files h' = ho_files h \<and> (\<exists>e. r = Inl e)) \<or> (prefix (file_text h' path) CSV_HEADER \<and> (\<forall>p. p \<noteq> path \<longrightarrow> ho_files h' p = ho_files h p))"
    "r = Inr w \<Longrightarrow> bf_path w = path \<and> bf_buffer w = [] \<and> file_text h' path = CSV_HEADER \<and> writes_only path h h'"
    "ho_fates h = [] \<Longrightarrow> (\<exists>w. r = Inr w)"
proof -
  obtain a h1 where a: "create_parent ''output'' path h = (a, h1)" by fastforce
  note A = create_ok(1)[OF a]
  obtain b h2 where b: "file_create path h1 = (b, h2)" by fastforce
  note B = create_ok(2)[OF b]
  obtain x w1 h3 where x: "writer_write_all CSV_HEADER (writer_new path, h2) = (x, w1, h3)" by (rule prod_cases3)
  note X = writer_write_all_ok[OF x]
  obtain y w2 h4 where y: "writer_flush (w1, h3) = (y, w2, h4)" by (rule prod_cases3)
  note Y = writer_flush_ok[OF y]
  have fresh: "bf_path (writer_new path) = path" "b = Inr () \<Longrightarrow> stream (writer_new path, h2) = []"
    using B by (auto simp: writer_new_def stream_def file_text_def)
  consider (dir) "ho_files h' = ho_files h" "\<exists>e. r = Inl e" "ho_fates h \<noteq> []"
    | (wrote) e where "a = Inr ()" "b = Inr ()" "x = Inl e" "h' = writer_drop (w1, h3)" "\<exists>e. r = Inl e"
    | (flush) e where "a = Inr ()" "b = Inr ()" "x = Inr ()" "y = Inl e" "h' = writer_drop (w2, h4)" "\<exists>e. r = Inl e"
    | (opened) "a = Inr ()" "b = Inr ()" "x = Inr ()" "y = Inr ()" "r = Inr w2" "h' = h4"
    using assms a b x y A B by (cases a; cases b; cases x; cases y) (auto simp: csv_open_def)
  then have "((ho_files h' = ho_files h \<and> (\<exists>e. r = Inl e)) \<or> (prefix (file_text h' path) CSV_HEADER \<and> (\<forall>p. p \<noteq> path \<longrightarrow> ho_files h' p = ho_files h p)))
    \<and> (r = Inr w \<longrightarrow> bf_path w = path \<and> bf_buffer w = [] \<and> file_text h' path = CSV_HEADER \<and> writes_only path h h') \<and> (ho_fates h = [] \<longrightarrow> (\<exists>w. r = Inr w))"
  proof cases
    case dir
    then show ?thesis by auto
  next
    case wrote
    then have "prefix (stream (w1, h3)) CSV_HEADER" "bf_path w1 = path" "ho_fates h \<noteq> []" using X fresh A B by auto
    then show ?thesis using wrote writer_drop_ok(1,2)[of w1 h3] X A B fresh by (auto simp: writes_only_def intro: prefix_order.trans)
  next
    case flush
    then have "stream (w2, h4) = CSV_HEADER" "bf_path w2 = path" "ho_fates h \<noteq> []" using X Y fresh A B by (auto simp: writes_only_def)
    then show ?thesis using flush writer_drop_ok(1,2)[of w2 h4] X Y A B fresh by (auto simp: writes_only_def)
  next
    case opened
    then have "stream (w2, h4) = CSV_HEADER" "bf_path w2 = path" "bf_buffer w2 = []" using X Y fresh by auto
    then show ?thesis using opened X Y A B fresh by (auto simp: writes_only_def stream_def)
  qed
  then show "(ho_files h' = ho_files h \<and> (\<exists>e. r = Inl e)) \<or> (prefix (file_text h' path) CSV_HEADER \<and> (\<forall>p. p \<noteq> path \<longrightarrow> ho_files h' p = ho_files h p))"
    "r = Inr w \<Longrightarrow> bf_path w = path \<and> bf_buffer w = [] \<and> file_text h' path = CSV_HEADER \<and> writes_only path h h'"
    "ho_fates h = [] \<Longrightarrow> (\<exists>w. r = Inr w)" by auto
qed

lemma csv_append_ok:
  assumes "csv_append row (w, h) = (r, w', h')"
  shows "bf_path w' = bf_path w \<and> writes_only (bf_path w) h h' \<and> prefix (stream (w', h')) (stream (w, h) @ format_csv_row row)
    \<and> (r = Inr () \<longrightarrow> stream (w', h') = stream (w, h) @ format_csv_row row \<and> bf_buffer w' = []) \<and> (ho_fates h = [] \<longrightarrow> r = Inr ())"
proof -
  obtain x w1 h1 where x: "writer_write_all (format_csv_row row) (w, h) = (x, w1, h1)" by (rule prod_cases3)
  note X = writer_write_all_ok[OF x]
  obtain y w2 h2 where y: "writer_flush (w1, h1) = (y, w2, h2)" by (rule prod_cases3)
  note Y = writer_flush_ok[OF y]
  show ?thesis
  proof (cases x)
    case (Inl e)
    then show ?thesis using assms x X by (auto simp: csv_append_def)
  next
    case (Inr u)
    have "writes_only (bf_path w) h h2" using X Y(1,2) writes_only_trans by metis
    moreover have "ho_fates h = [] \<Longrightarrow> y = Inr ()" using X Y(5) by (simp add: writes_only_def)
    ultimately show ?thesis using assms x X y Y(1,3,4) Inr by (cases y) (auto simp: csv_append_def)
  qed
qed

text \<open>
  The loop: the runs it made are those of the first fractions; each row reached the writer, whole
  but for a fault of the file system; without an error all fractions were run.
\<close>

definition ran :: "(dram_fraction \<Rightarrow> 'x \<Rightarrow> (string + bench_row \<times> json) outcome option) \<Rightarrow> (dram_fraction \<times> 'x) list \<Rightarrow> (bench_row \<times> json) list \<Rightarrow> bool" where
  "ran run xs results \<longleftrightarrow> length results \<le> length xs \<and> (\<forall>j < length results. case xs ! j of (f, x) \<Rightarrow> run f x = Some (oOk (Inr (results ! j))))"

definition csv_rows :: "(bench_row \<times> json) list \<Rightarrow> string" where
  "csv_rows results = concat (map (format_csv_row \<circ> fst) results)"

lemma ran_Cons: "run f x = Some (oOk (Inr a)) \<Longrightarrow> ran run xs results \<Longrightarrow> ran run ((f, x) # xs) (a # results)"
  by (auto simp: ran_def less_Suc_eq_0_disj split: prod.splits)

lemma fractions_loop_ok:
  assumes "fractions_loop run layout xs acc (w, h) = (r, w', h')" "bf_buffer w = []"
  shows "bf_path w' = bf_path w \<and> writes_only (bf_path w) h h' \<and> (\<exists>results. ran run xs results
    \<and> prefix (stream (w', h')) (stream (w, h) @ csv_rows results) \<and> (ho_fates h = [] \<longrightarrow> stream (w', h') = stream (w, h) @ csv_rows results \<and> bf_buffer w' = [])
    \<and> (\<forall>stats. r = Some (oOk (Inr stats)) \<longrightarrow> length results = length xs \<and> stats = acc @ map snd results \<and> stream (w', h') = stream (w, h) @ csv_rows results \<and> bf_buffer w' = []))"
  using assms
proof (induction xs arbitrary: acc w h)
  case Nil
  then show ?case by (auto simp: ran_def csv_rows_def intro!: exI[of _ "[]"])
next
  case (Cons fx xs)
  obtain f x where fx: "fx = (f, x)" by fastforce
  note prem = Cons.prems(1)[unfolded fx fractions_loop.simps]
  let ?stop = "\<lambda>r' h1. r = r' \<and> w' = w \<and> h' = h1 \<and> writes_only (bf_path w) h h1 \<and> file_text h1 (bf_path w) = file_text h (bf_path w) \<and> (\<nexists>stats. r' = Some (oOk (Inr stats)))"
  have stopped: ?case if "\<exists>r' h1. ?stop r' h1"
    using that Cons.prems(2) by (auto simp: ran_def csv_rows_def stream_def intro!: exI[of _ "[]"])
  show ?case
  proof (cases "dram_pages f (dl_page_count layout)")
    case (Inl e)
    then show ?thesis using stopped prem by auto
  next
    case (Inr pages)
    define h1 where "h1 = eprintln (progress_line layout f pages) h"
    note prem1 = prem[unfolded Inr sum.case apsnd_conv Let_def h1_def[symmetric]]
    have h1: "writes_only (bf_path w) h h1" "file_text h1 p = file_text h p" "stream (w, h1) = stream (w, h)" for p by (simp_all add: h1_def stream_def)
    show ?thesis
    proof (cases "\<exists>row stats. run f x = Some (oOk (Inr (row, stats)))")
      case False
      then have "\<exists>r'. ?stop r' h1" using prem1 h1 by (auto split: option.splits outcome.splits sum.splits)
      then show ?thesis using stopped by blast
    next
      case True
      then obtain row stats where run: "run f x = Some (oOk (Inr (row, stats)))" by blast
      obtain y w2 h2 where y: "csv_append row (w, h1) = (y, w2, h2)" by (rule prod_cases3)
      note Y = csv_append_ok[OF y]
      have one: "ran run (fx # xs) [(row, stats)]" "csv_rows [(row, stats)] = format_csv_row row"
        using ran_Cons[of run f x "(row, stats)" xs "[]"] run by (simp_all add: fx ran_def csv_rows_def)
      show ?thesis
      proof (cases y)
        case (Inl e)
        then have "r = Some (oOk (Inl e))" "w' = w2" "h' = h2" using prem1 run y by simp_all
        then show ?thesis using Y h1 one Inl writes_only_trans[of "bf_path w" h h1 h2] by (auto simp: h1_def eprintln_def)
      next
        case ok: (Inr u)
        define h3 where "h3 = println (trim_end (format_csv_row row)) h2"
        have h3: "writes_only (bf_path w) h h3" "stream (w2, h3) = stream (w, h) @ format_csv_row row" "bf_path w2 = bf_path w" "bf_buffer w2 = []"
          using Y h1 ok writes_only_trans[of "bf_path w" h h1 h2] writes_only_trans[OF _ writes_only_lines(1)] by (auto simp: h3_def stream_def)
        have rest: "fractions_loop run layout xs (acc @ [stats]) (w2, h3) = (r, w', h')" using prem1 run y ok by (simp add: h3_def)
        have IH: "bf_path w' = bf_path w2 \<and> writes_only (bf_path w2) h3 h' \<and> (\<exists>results. ran run xs results
          \<and> prefix (stream (w', h')) (stream (w2, h3) @ csv_rows results) \<and> (ho_fates h3 = [] \<longrightarrow> stream (w', h') = stream (w2, h3) @ csv_rows results \<and> bf_buffer w' = [])
          \<and> (\<forall>st. r = Some (oOk (Inr st)) \<longrightarrow> length results = length xs \<and> st = (acc @ [stats]) @ map snd results \<and> stream (w', h') = stream (w2, h3) @ csv_rows results \<and> bf_buffer w' = []))"
          by (rule Cons.IH[OF rest h3(4)])
        then obtain results where res: "ran run xs results" "prefix (stream (w', h')) (stream (w2, h3) @ csv_rows results)"
          "ho_fates h3 = [] \<longrightarrow> stream (w', h') = stream (w2, h3) @ csv_rows results \<and> bf_buffer w' = []"
          "\<forall>st. r = Some (oOk (Inr st)) \<longrightarrow> length results = length xs \<and> st = (acc @ [stats]) @ map snd results \<and> stream (w', h') = stream (w2, h3) @ csv_rows results \<and> bf_buffer w' = []" by blast
        have rows: "csv_rows ((row, stats) # results) = format_csv_row row @ csv_rows results" by (simp add: csv_rows_def)
        have "writes_only (bf_path w) h h'" using IH h3(1,3) writes_only_trans by metis
        moreover have "ho_fates h = [] \<longrightarrow> ho_fates h3 = []" using h3(1) by (simp add: writes_only_def)
        ultimately show ?thesis using IH res h3 rows ran_Cons[OF run res(1)] fx by (intro conjI exI[of _ "(row, stats) # results"]) auto
      qed
    qed
  qed
qed

lemma write_chunks_ok:
  assumes "write_chunks chunks (w, h) = (r, w', h')"
  shows "bf_path w' = bf_path w \<and> writes_only (bf_path w) h h' \<and> (r = Inr () \<longrightarrow> stream (w', h') = stream (w, h) @ concat chunks) \<and> (ho_fates h = [] \<longrightarrow> r = Inr ())"
  using assms
proof (induction chunks arbitrary: w h)
  case (Cons chunk chunks)
  obtain x w1 h1 where x: "writer_write_all chunk (w, h) = (x, w1, h1)" by (rule prod_cases3)
  note X = writer_write_all_ok[OF x]
  show ?case
  proof (cases x)
    case (Inl e)
    then show ?thesis using Cons.prems x X by auto
  next
    case (Inr u)
    then have "write_chunks chunks (w1, h1) = (r, w', h')" using Cons.prems x by simp
    from Cons.IH[OF this] show ?thesis using X Inr by (auto simp: writes_only_def)
  qed
qed auto

lemma write_stats_json_ok:
  assumes "write_stats_json pretty path runs h = (r, h')"
  shows "writes_only path h h' \<and> (r = Inr () \<longrightarrow> file_text h' path = concat (pretty (stats_document runs)) @ [CHR 0x0A]) \<and> (ho_fates h = [] \<longrightarrow> r = Inr ())"
proof -
  obtain a h1 where a: "create_parent ''stats output'' path h = (a, h1)" by fastforce
  note A = create_ok(1)[OF a]
  obtain b h2 where b: "file_create path h1 = (b, h2)" by fastforce
  note B = create_ok(2)[OF b]
  obtain x w1 h3 where x: "write_chunks (pretty (stats_document runs)) (writer_new path, h2) = (x, w1, h3)" by (rule prod_cases3)
  note X = write_chunks_ok[OF x]
  obtain y w2 h4 where y: "writer_write_all [CHR 0x0A] (w1, h3) = (y, w2, h4)" by (rule prod_cases3)
  note Y = writer_write_all_ok[OF y]
  obtain z w3 h5 where z: "writer_flush (w2, h4) = (z, w3, h5)" by (rule prod_cases3)
  note Z = writer_flush_ok[OF z]
  have fresh: "bf_path (writer_new path) = path" "b = Inr () \<Longrightarrow> stream (writer_new path, h2) = []"
    using B by (auto simp: writer_new_def stream_def file_text_def)
  have AB: "writes_only path h h2" using A B by (cases b) (auto simp: writes_only_def)
  have W: "writes_only path h h3" "writes_only path h h4" "writes_only path h h5"
    using AB X Y Z fresh writes_only_trans by metis+
  consider (early) "ho_files h' = ho_files h" "r \<noteq> Inr ()" "ho_fates h \<noteq> []" "a \<noteq> Inr () \<or> b \<noteq> Inr ()"
    | (chunks) e where "x = Inl e" "h' = writer_drop (w1, h3)" "r \<noteq> Inr ()" "a = Inr ()" "b = Inr ()"
    | (newline) e where "x = Inr ()" "y = Inl e" "h' = writer_drop (w2, h4)" "r \<noteq> Inr ()" "a = Inr ()" "b = Inr ()"
    | (flush) e where "x = Inr ()" "y = Inr ()" "z = Inl e" "h' = writer_drop (w3, h5)" "r \<noteq> Inr ()" "a = Inr ()" "b = Inr ()"
    | (written) "x = Inr ()" "y = Inr ()" "z = Inr ()" "h' = writer_drop (w3, h5)" "r = Inr ()" "a = Inr ()" "b = Inr ()"
    using assms a b x y z A B by (cases a; cases b; cases x; cases y; cases z) (auto simp: write_stats_json_def)
  then show ?thesis
  proof cases
    case early
    then show ?thesis by (auto simp: writes_only_def)
  next
    case chunks
    then have "ho_fates h \<noteq> []" using A B X by auto
    then show ?thesis using chunks W(1) writer_drop_ok(1)[of w1 h3] X fresh by (auto simp: writes_only_def)
  next
    case newline
    then have "ho_fates h \<noteq> []" using A B X Y by (auto simp: writes_only_def)
    then show ?thesis using newline W(2) writer_drop_ok(1)[of w2 h4] X Y fresh by (auto simp: writes_only_def)
  next
    case flush
    then have "ho_fates h \<noteq> []" using A B X Y Z by (auto simp: writes_only_def)
    then show ?thesis using flush W(3) writer_drop_ok(1)[of w3 h5] X Y Z fresh by (auto simp: writes_only_def)
  next
    case written
    then have "bf_buffer w3 = []" "stream (w3, h5) = concat (pretty (stats_document runs)) @ [CHR 0x0A]" "bf_path w3 = path" using X Y Z fresh by auto
    then show ?thesis using written W(3) writer_drop_ok(4)[of w3 h5] by (auto simp: stream_def)
  qed
qed

lemma run_benchmark_files:
  assumes run: "run_benchmark run pretty inputs c h = (r, h')" and paths: "cf_output c \<noteq> cf_stats_output c"
  shows "ho_files h' (cf_output c) = ho_files h (cf_output c) \<and> (\<exists>e. r = Some (oOk (Inl e)))
    \<or> (\<exists>layout results. dataset_layout_of c = Inr layout \<and> ran (run c layout) (zip (cf_fractions c) (map inputs [0..<length (cf_fractions c)])) results
       \<and> prefix (file_text h' (cf_output c)) (CSV_HEADER @ csv_rows results)
       \<and> (ho_fates h = [] \<longrightarrow> file_text h' (cf_output c) = CSV_HEADER @ csv_rows results)
       \<and> (r = Some (oOk (Inr ())) \<longrightarrow> length results = length (cf_fractions c) \<and> file_text h' (cf_output c) = CSV_HEADER @ csv_rows results
            \<and> file_text h' (cf_stats_output c) = concat (pretty (stats_document (map snd results))) @ [CHR 0x0A])
       \<and> (length results < length (cf_fractions c) \<longrightarrow> ho_files h' (cf_stats_output c) = ho_files h (cf_stats_output c)))"
proof (cases "dataset_layout_of c")
  case (Inl e)
  then show ?thesis using run by (auto simp: run_benchmark_def)
next
  case (Inr layout)
  let ?xs = "zip (cf_fractions c) (map inputs [0..<length (cf_fractions c)])"
  obtain o1 h1 where o1: "csv_open (cf_output c) h = (o1, h1)" by fastforce
  note O = csv_open_ok[OF o1]
  show ?thesis
  proof (cases o1)
    case (Inl e)
    then have "r = Some (oOk (Inl e))" "h' = h1" using run Inr o1 by (simp_all add: run_benchmark_def)
    then show ?thesis using O(1,3) paths Inl Inr by (auto simp: ran_def csv_rows_def intro!: exI[of _ layout] exI[of _ "[]"])
  next
    case (Inr w)
    note W = O(2)[OF Inr]
    define h2 where "h2 = println (curve_line c) h1"
    obtain l w3 h3 where l: "fractions_loop (run c layout) layout ?xs [] (w, h2) = (l, w3, h3)" by (rule prod_cases3)
    have b: "bf_buffer w = []" using W by simp
    have s2: "stream (w, h2) = CSV_HEADER" "writes_only (cf_output c) h h2"
      using W writes_only_trans[OF _ writes_only_lines(1)] by (auto simp: h2_def stream_def)
    obtain results where L: "bf_path w3 = cf_output c" "writes_only (cf_output c) h2 h3" "ran (run c layout) ?xs results"
      "prefix (stream (w3, h3)) (CSV_HEADER @ csv_rows results)" "ho_fates h2 = [] \<longrightarrow> stream (w3, h3) = CSV_HEADER @ csv_rows results \<and> bf_buffer w3 = []"
      "\<forall>stats. l = Some (oOk (Inr stats)) \<longrightarrow> length results = length ?xs \<and> stats = map snd results \<and> stream (w3, h3) = CSV_HEADER @ csv_rows results \<and> bf_buffer w3 = []"
      using fractions_loop_ok[OF l b] W s2(1) by auto
    have W3: "writes_only (cf_output c) h h3" using s2(2) L(2) writes_only_trans by blast
    have step: "run_benchmark run pretty inputs c h = (case (l, w3, h3) of
        (Some (oOk (Inr stats_runs)), w2, h2) \<Rightarrow> (case write_stats_json pretty (cf_stats_output c) stats_runs h2 of (r, h3) \<Rightarrow> (Some (oOk r), writer_drop (w2, h3)))
      | (Some (oOk (Inl e)), wh2) \<Rightarrow> (Some (oOk (Inl e)), writer_drop wh2)
      | (Some (oErr e), wh2) \<Rightarrow> (Some (oErr e), writer_drop wh2)
      | (Some (oPanic m), wh2) \<Rightarrow> (Some (oPanic m), writer_drop wh2)
      | (Some oBlocks, w2, h2) \<Rightarrow> (None, h2)
      | (None, w2, h2) \<Rightarrow> (None, h2))"
      using \<open>dataset_layout_of c = Inr layout\<close> o1 Inr l by (simp add: run_benchmark_def h2_def)
    show ?thesis
    proof (cases "\<exists>stats. l = Some (oOk (Inr stats))")
      case True
      then have n: "length results = length (cf_fractions c)" "l = Some (oOk (Inr (map snd results)))" "stream (w3, h3) = CSV_HEADER @ csv_rows results" "bf_buffer w3 = []" using L(6) by auto
      obtain j h4 where j: "write_stats_json pretty (cf_stats_output c) (map snd results) h3 = (j, h4)" by fastforce
      note J = write_stats_json_ok[OF j]
      have "r = Some (oOk j)" "h' = h4" using run step n j writer_drop_ok(4)[of w3 h4] by simp_all
      moreover have "file_text h4 (cf_output c) = CSV_HEADER @ csv_rows results" using J paths n L(1) by (simp add: writes_only_def stream_def file_text_def)
      ultimately show ?thesis using J L(3) n \<open>dataset_layout_of c = Inr layout\<close> by (intro disjI2 exI[of _ layout] exI[of _ results]) simp
    next
      case False
      then have r: "r \<noteq> Some (oOk (Inr ()))" "h' = writer_drop (w3, h3) \<or> h' = h3" using run step by (auto split: option.splits outcome.splits sum.splits)
      have t: "writes_only (cf_output c) h h'" "prefix (file_text h' (cf_output c)) (stream (w3, h3))"
        using r(2) W3 L(1) writer_drop_ok(1,2)[of w3 h3] writes_only_trans by (auto simp: stream_def)
      have "file_text h' (cf_output c) = CSV_HEADER @ csv_rows results" if "ho_fates h = []"
      proof -
        have "stream (w3, h3) = CSV_HEADER @ csv_rows results" "bf_buffer w3 = []" using that L(5) s2(2) by (simp_all add: writes_only_def)
        then show ?thesis using r(2) L(1) writer_drop_ok(4)[of w3 h3] by (auto simp: stream_def)
      qed
      then show ?thesis using r(1) t paths L(3) prefix_order.trans[OF t(2) L(4)] \<open>dataset_layout_of c = Inr layout\<close>
        by (intro disjI2 exI[of _ layout] exI[of _ results]) (simp add: writes_only_def)
    qed
  qed
qed

text \<open>Two output paths that are equal are accepted, and the dump then replaces the rows.\<close>

lemma same_path_loses_rows:
  assumes run: "run_benchmark run pretty inputs c h = (Some (oOk (Inr ())), h')" and same: "cf_output c = cf_stats_output c"
  shows "\<exists>stats. file_text h' (cf_output c) = concat (pretty (stats_document stats)) @ [CHR 0x0A]"
proof -
  obtain layout where l: "dataset_layout_of c = Inr layout" using run by (auto simp: run_benchmark_def split: sum.splits)
  obtain o1 h1 where o1: "csv_open (cf_output c) h = (o1, h1)" by fastforce
  obtain w where w: "o1 = Inr w" using run l o1 by (cases o1) (auto simp: run_benchmark_def)
  have b: "bf_buffer w = []" using csv_open_ok(2)[OF o1 w] by simp
  obtain x w3 h3 where x: "fractions_loop (run c layout) layout (zip (cf_fractions c) (map inputs [0..<length (cf_fractions c)])) [] (w, println (curve_line c) h1) = (x, w3, h3)" by (rule prod_cases3)
  obtain stats where stats: "x = Some (oOk (Inr stats))" using run l o1 w x by (auto simp: run_benchmark_def split: option.splits outcome.splits sum.splits)
  obtain j h4 where j: "write_stats_json pretty (cf_stats_output c) stats h3 = (j, h4)" by fastforce
  have "bf_buffer w3 = []" using fractions_loop_ok[OF x b] stats by auto
  then have "h' = h4" "j = Inr ()" using run l o1 w x stats j writer_drop_ok(4)[of w3 h4] by (simp_all add: run_benchmark_def)
  then show ?thesis using write_stats_json_ok[OF j] same by auto
qed

lemma fractions_loop_returns:
  assumes "fractions_loop run layout xs acc wh = (r, wh')" "\<forall>(f, x) \<in> set xs. \<forall>y. run f x = Some y \<longrightarrow> (\<exists>z. y = oOk z)"
  shows "case r of Some y \<Rightarrow> \<exists>z. y = oOk z | None \<Rightarrow> \<exists>(f, x) \<in> set xs. run f x = None"
  using assms
proof (induction run layout xs acc wh rule: fractions_loop.induct)
  case (2 run layout f x xs acc wh)
  show ?case
  proof (cases "\<exists>pages row stats. dram_pages f (dl_page_count layout) = Inr pages \<and> run f x = Some (oOk (Inr (row, stats)))")
    case False
    then show ?thesis using 2(2,3) by (auto simp: Let_def split: sum.splits option.splits outcome.splits)
  next
    case True
    then obtain pages row stats where t: "dram_pages f (dl_page_count layout) = Inr pages" "run f x = Some (oOk (Inr (row, stats)))" by blast
    obtain y wh2 where y: "csv_append row (apsnd (eprintln (progress_line layout f pages)) wh) = (y, wh2)" by (rule prod.exhaust)
    show ?thesis
    proof (cases y)
      case (Inl e)
      then show ?thesis using 2(2) t y by (auto simp: Let_def)
    next
      case (Inr u)
      then have "fractions_loop run layout xs (acc @ [stats]) (apsnd (println (trim_end (format_csv_row row))) wh2) = (r, wh')" using 2(2) t y by (simp add: Let_def)
      then show ?thesis using 2(1)[OF t(1) refl t(2) refl refl refl y[symmetric]] 2(3) Inr by (auto split: option.splits)
    qed
  qed
qed auto

lemma run_benchmark_returns:
  assumes run: "run_benchmark run pretty inputs c h = (r, h')"
    and ok: "\<And>layout k y. dataset_layout_of c = Inr layout \<Longrightarrow> k < length (cf_fractions c) \<Longrightarrow> run c layout (cf_fractions c ! k) (inputs k) = Some y \<Longrightarrow> \<exists>z. y = oOk z"
  shows "case r of Some y \<Rightarrow> \<exists>z. y = oOk z
    | None \<Rightarrow> \<exists>layout. dataset_layout_of c = Inr layout \<and> (\<exists>k < length (cf_fractions c). run c layout (cf_fractions c ! k) (inputs k) = None)"
proof (cases "\<exists>layout w h1. dataset_layout_of c = Inr layout \<and> csv_open (cf_output c) h = (Inr w, h1)")
  case False
  then show ?thesis using run by (auto simp: run_benchmark_def split: sum.splits prod.splits)
next
  case True
  then obtain layout w h1 where l: "dataset_layout_of c = Inr layout" "csv_open (cf_output c) h = (Inr w, h1)" by blast
  let ?xs = "zip (cf_fractions c) (map inputs [0..<length (cf_fractions c)])"
  have xs: "(f, x) \<in> set ?xs \<Longrightarrow> \<exists>k < length (cf_fractions c). f = cf_fractions c ! k \<and> x = inputs k" for f x by (auto simp: set_zip)
  obtain q wh2 where q: "fractions_loop (run c layout) layout ?xs [] (w, println (curve_line c) h1) = (q, wh2)" by (rule prod.exhaust)
  have "\<forall>(f, x) \<in> set ?xs. \<forall>y. run c layout f x = Some y \<longrightarrow> (\<exists>z. y = oOk z)" using xs ok[OF l(1)] by fastforce
  from fractions_loop_returns[OF q this]
  have "case q of Some y \<Rightarrow> \<exists>z. y = oOk z | None \<Rightarrow> \<exists>k < length (cf_fractions c). run c layout (cf_fractions c ! k) (inputs k) = None"
    using xs by (auto split: option.splits)
  then show ?thesis using run l q by (auto simp: run_benchmark_def split: option.splits outcome.splits sum.splits prod.splits)
qed

section \<open>The properties\<close>


definition demo_host :: host where
  "demo_host = \<lparr>ho_files = [''out.csv'' \<mapsto> ''stale''], ho_directories = [], ho_fates = [], ho_stdout = [], ho_stderr = []\<rparr>"

definition demo_input :: "mock_tier fraction_input" where
  "demo_input = \<lparr>fi_mmap = \<lambda>_. Inr 0, fi_base = 64, fi_elem = 72, fi_made = Inl ''no tier'', fi_next_id = 1,
     fi_script = \<lparr>sc_initialize = [], sc_warmup = [], sc_warmup_elapsed = 0, sc_measure = [], sc_measure_elapsed = 0, sc_shutdown = [False, True]\<rparr>\<rparr>"




end
