(* ===== verification/Stats_Gate.thy ===== *)
theory Stats_Gate
  imports Metrics_Recorder "HOL-Library.Multiset"
begin

text \<open>
  The recorder of src/crates/tierbuf/src/metrics.rs under concurrency.  Each counter is a cell of its
  own; an event holds the snapshot gate shared for its one or two updates, a snapshot holds it exclusively
  while it loads the cells one after the other.  An update of a cell is one step (\<open>Atomic_Update\<close>); the
  steps of all events and of the snapshot interleave in any order the gate admits.
\<close>

section \<open>Cells and events\<close>

datatype counter =
  DramHits | Faults | Evictions | SecondChances | Submitted | PrefetchHits | Skipped | Denied
| TierHits nat | TierReads nat | TierWrites nat | TierBytesRead nat | TierBytesWritten nat

fun counter_exists :: "counter \<Rightarrow> stats \<Rightarrow> bool" where
  "counter_exists (TierHits i) s = (i < length (st_tiers s))"
| "counter_exists (TierReads i) s = (i < length (st_tiers s))"
| "counter_exists (TierWrites i) s = (i < length (st_tiers s))"
| "counter_exists (TierBytesRead i) s = (i < length (st_tiers s))"
| "counter_exists (TierBytesWritten i) s = (i < length (st_tiers s))"
| "counter_exists _ s = True"

fun counter_load :: "counter \<Rightarrow> stats \<Rightarrow> u64" where
  "counter_load DramHits s = st_dram_hits s"
| "counter_load Faults s = st_faults s"
| "counter_load Evictions s = st_evictions s"
| "counter_load SecondChances s = st_second_chances s"
| "counter_load Submitted s = st_prefetch_submitted s"
| "counter_load PrefetchHits s = st_prefetch_hits s"
| "counter_load Skipped s = st_prefetch_skipped s"
| "counter_load Denied s = st_budget_denied s"
| "counter_load (TierHits i) s = tc_demand_hits (st_tiers s ! i)"
| "counter_load (TierReads i) s = tc_reads (st_tiers s ! i)"
| "counter_load (TierWrites i) s = tc_writes (st_tiers s ! i)"
| "counter_load (TierBytesRead i) s = tc_bytes_read (st_tiers s ! i)"
| "counter_load (TierBytesWritten i) s = tc_bytes_written (st_tiers s ! i)"

text \<open>A tier that does not exist is the panic of \<open>self.tier\<close>, which changes no cell.\<close>

definition tier_update :: "nat \<Rightarrow> (tier_counters \<Rightarrow> tier_counters) \<Rightarrow> stats \<Rightarrow> stats" where
  "tier_update i g s = (if i < length (st_tiers s) then s\<lparr>st_tiers := (st_tiers s)[i := g (st_tiers s ! i)]\<rparr> else s)"

fun counter_bump :: "counter \<Rightarrow> u64 \<Rightarrow> stats \<Rightarrow> stats" where
  "counter_bump DramHits n s = s\<lparr>st_dram_hits := counter_add n (st_dram_hits s)\<rparr>"
| "counter_bump Faults n s = s\<lparr>st_faults := counter_add n (st_faults s)\<rparr>"
| "counter_bump Evictions n s = s\<lparr>st_evictions := counter_add n (st_evictions s)\<rparr>"
| "counter_bump SecondChances n s = s\<lparr>st_second_chances := counter_add n (st_second_chances s)\<rparr>"
| "counter_bump Submitted n s = s\<lparr>st_prefetch_submitted := counter_add n (st_prefetch_submitted s)\<rparr>"
| "counter_bump PrefetchHits n s = s\<lparr>st_prefetch_hits := counter_add n (st_prefetch_hits s)\<rparr>"
| "counter_bump Skipped n s = s\<lparr>st_prefetch_skipped := counter_add n (st_prefetch_skipped s)\<rparr>"
| "counter_bump Denied n s = s\<lparr>st_budget_denied := counter_add n (st_budget_denied s)\<rparr>"
| "counter_bump (TierHits i) n s = tier_update i (\<lambda>t. t\<lparr>tc_demand_hits := counter_add n (tc_demand_hits t)\<rparr>) s"
| "counter_bump (TierReads i) n s = tier_update i (\<lambda>t. t\<lparr>tc_reads := counter_add n (tc_reads t)\<rparr>) s"
| "counter_bump (TierWrites i) n s = tier_update i (\<lambda>t. t\<lparr>tc_writes := counter_add n (tc_writes t)\<rparr>) s"
| "counter_bump (TierBytesRead i) n s = tier_update i (\<lambda>t. t\<lparr>tc_bytes_read := counter_add n (tc_bytes_read t)\<rparr>) s"
| "counter_bump (TierBytesWritten i) n s = tier_update i (\<lambda>t. t\<lparr>tc_bytes_written := counter_add n (tc_bytes_written t)\<rparr>) s"

text \<open>The updates of an event under its gate, in program order.\<close>

fun event_updates :: "stat_event \<Rightarrow> (counter \<times> u64) list" where
  "event_updates DramHit = [(DramHits, 1)]"
| "event_updates Fault = [(Faults, 1)]"
| "event_updates Eviction = [(Evictions, 1)]"
| "event_updates SecondChance = [(SecondChances, 1)]"
| "event_updates (PrefetchSubmitted n) = [(Submitted, n)]"
| "event_updates PrefetchHit = [(PrefetchHits, 1)]"
| "event_updates (PrefetchSkipped n) = [(Skipped, n)]"
| "event_updates BudgetDenied = [(Denied, 1)]"
| "event_updates (TierDemandHit i) = [(TierHits i, 1)]"
| "event_updates (TierRead i b) = [(TierReads i, 1), (TierBytesRead i, b)]"
| "event_updates (TierWrite i b) = [(TierWrites i, 1), (TierBytesWritten i, b)]"

text \<open>The loads of a snapshot, in program order.\<close>

definition snapshot_loads :: "stats \<Rightarrow> counter list" where
  "snapshot_loads s =
     [DramHits, Faults, Evictions, SecondChances, Submitted, PrefetchHits, Skipped, Denied]
     @ concat (map (\<lambda>i. [TierHits i, TierReads i, TierWrites i, TierBytesRead i, TierBytesWritten i]) [0..<length (st_tiers s)])"

text \<open>An event without interleaving is what \<open>Metrics_Recorder\<close> has for it.\<close>

lemma apply_event_updates: "apply_event ev s = fold (\<lambda>(c, n). counter_bump c n) (event_updates ev) s"
  by (cases ev) (simp_all add: record_defs tier_update_def)

section \<open>The gate\<close>

text \<open>
  The shared holders of the gate are the events under way, each with its updates to come; the
  exclusive holder is a snapshot with its loads to come and the values it has.  The last two fields are
  history: the events whose gate was released and the updates that happened.
\<close>

record stats_recorder =
  sr_cells :: stats
  sr_updating :: "(stat_event \<times> (counter \<times> u64) list) multiset"
  sr_snapshot :: "(counter list \<times> (counter \<times> u64) list) option"
  sr_recorded :: "stat_event list"
  sr_applied :: "(counter \<times> u64) list"

definition recorder_new :: "string list \<Rightarrow> stats_recorder" where
  "recorder_new names = \<lparr>sr_cells = stats_new names, sr_updating = {#}, sr_snapshot = None, sr_recorded = [], sr_applied = []\<rparr>"

inductive recorder_step :: "stats_recorder \<Rightarrow> stats_recorder \<Rightarrow> bool" where
  begin_update: "sr_snapshot r = None \<Longrightarrow> recorder_step r (r\<lparr>sr_updating := add_mset (ev, event_updates ev) (sr_updating r)\<rparr>)"
| update_counter: "sr_updating r = add_mset (ev, (c, n) # rest) R \<Longrightarrow>
    recorder_step r (r\<lparr>sr_cells := counter_bump c n (sr_cells r), sr_updating := add_mset (ev, rest) R, sr_applied := (c, n) # sr_applied r\<rparr>)"
| end_update: "sr_updating r = add_mset (ev, []) R \<Longrightarrow> recorder_step r (r\<lparr>sr_updating := R, sr_recorded := sr_recorded r @ [ev]\<rparr>)"
| begin_snapshot: "sr_snapshot r = None \<Longrightarrow> sr_updating r = {#} \<Longrightarrow> recorder_step r (r\<lparr>sr_snapshot := Some (snapshot_loads (sr_cells r), [])\<rparr>)"
| load_counter: "sr_snapshot r = Some (c # cs, loaded) \<Longrightarrow> recorder_step r (r\<lparr>sr_snapshot := Some (cs, loaded @ [(c, counter_load c (sr_cells r))])\<rparr>)"
| end_snapshot: "sr_snapshot r = Some ([], loaded) \<Longrightarrow> recorder_step r (r\<lparr>sr_snapshot := None\<rparr>)"

abbreviation recorder_run :: "stats_recorder \<Rightarrow> stats_recorder \<Rightarrow> bool" where
  "recorder_run \<equiv> recorder_step\<^sup>*\<^sup>*"

section \<open>What the cells add up to\<close>

definition amount :: "counter \<Rightarrow> (counter \<times> u64) list \<Rightarrow> nat" where
  "amount c updates = sum_list (map (\<lambda>(c', n). if c' = c then unat n else 0) updates)"

lemma amount_simps [simp]: "amount c [] = 0" "amount c ((c', n) # us) = (if c' = c then unat n else 0) + amount c us"
  "amount c (us @ vs) = amount c us + amount c vs"
  by (auto simp: amount_def split: prod.splits)

lemma tiers_bump [simp]: "length (st_tiers (counter_bump c n s)) = length (st_tiers s)"
  by (cases c) (simp_all add: tier_update_def)

lemma exists_bump [simp]: "counter_exists c (counter_bump c' n s) = counter_exists c s"
  by (cases c) simp_all

lemma load_bump:
  assumes "counter_exists c s"
  shows "unat (counter_load c (counter_bump c' n s)) = cap64 (unat (counter_load c s) + (if c' = c then unat n else 0))"
  using assms by (cases c; cases c') (auto simp: tier_update_def unat_counter_add nth_list_update)

lemma load_fold:
  assumes "counter_exists c s"
  shows "unat (counter_load c (fold (\<lambda>(c, n). counter_bump c n) us s)) = cap64 (unat (counter_load c s) + amount c us)"
  using assms
proof (induction us arbitrary: s)
  case (Cons u us)
  then show ?case by (cases u) (simp add: load_bump cap64_add add.assoc)
qed simp

lemma fold_events: "fold apply_event evs s = fold (\<lambda>(c, n). counter_bump c n) (concat (map event_updates evs)) s"
  by (induction evs arbitrary: s) (simp_all add: apply_event_updates)

lemma new_cells [simp]: "counter_exists c (stats_new names) \<Longrightarrow> counter_load c (stats_new names) = 0"
  by (cases c) (simp_all add: stats_new_def)

lemma loads_exist: "c \<in> set (snapshot_loads s) \<longleftrightarrow> counter_exists c s"
  by (cases c) (auto simp: snapshot_loads_def)

text \<open>
  The invariant: each cell is the capped sum of the updates that happened, which are those of the
  recorded events and the finished part of the events under way; a snapshot excludes events, and what it
  has loaded are the cells as they stand.
\<close>

definition recorder_inv :: "string list \<Rightarrow> stats_recorder \<Rightarrow> bool" where
  "recorder_inv names r \<longleftrightarrow> length (st_tiers (sr_cells r)) = length names
    \<and> (\<forall>c. counter_exists c (sr_cells r) \<longrightarrow> unat (counter_load c (sr_cells r)) = cap64 (amount c (sr_applied r)))
    \<and> (\<forall>c. amount c (sr_applied r) + (\<Sum>(ev, rest)\<in>#sr_updating r. amount c rest)
         = amount c (concat (map event_updates (sr_recorded r))) + (\<Sum>(ev, rest)\<in>#sr_updating r. amount c (event_updates ev)))
    \<and> (case sr_snapshot r of None \<Rightarrow> True
       | Some (cs, loaded) \<Rightarrow> sr_updating r = {#}
           \<and> snapshot_loads (sr_cells r) = map fst loaded @ cs \<and> (\<forall>(c, v) \<in> set loaded. v = counter_load c (sr_cells r)))"

lemma recorder_inv_new: "recorder_inv names (recorder_new names)"
  by (auto simp: recorder_inv_def recorder_new_def cap64_def) (simp add: stats_new_def)

lemma recorder_inv_step:
  assumes "recorder_step r r'" "recorder_inv names r"
  shows "recorder_inv names r'"
  using assms
proof (induction rule: recorder_step.induct)
  case (update_counter r ev c n rest R)
  then have "sr_snapshot r = None" by (auto simp: recorder_inv_def split: option.splits)
  moreover have "amount c' (sr_applied r) + (if c = c' then unat n else 0) + (amount c' rest + (\<Sum>(ev, rest)\<in>#R. amount c' rest))
      = amount c' (concat (map event_updates (sr_recorded r))) + (amount c' (event_updates ev) + (\<Sum>(ev, rest)\<in>#R. amount c' (event_updates ev)))" for c'
  proof -
    have "\<forall>c. amount c (sr_applied r) + (\<Sum>(ev, rest)\<in>#sr_updating r. amount c rest)
         = amount c (concat (map event_updates (sr_recorded r))) + (\<Sum>(ev, rest)\<in>#sr_updating r. amount c (event_updates ev))"
      using update_counter by (simp add: recorder_inv_def)
    from this[rule_format, of c'] show ?thesis using update_counter.hyps by (cases "c = c'") simp_all
  qed
  ultimately show ?case using update_counter by (auto simp: recorder_inv_def load_bump cap64_add algebra_simps)
next
  case (begin_snapshot r)
  then show ?case by (auto simp: recorder_inv_def)
next
  case (load_counter r c cs loaded)
  then show ?case by (auto simp: recorder_inv_def)
qed (auto simp: recorder_inv_def algebra_simps split: option.splits)

lemma recorder_inv_run: "recorder_run (recorder_new names) r \<Longrightarrow> recorder_inv names r"
  by (induction rule: rtranclp_induct) (auto intro: recorder_inv_new recorder_inv_step)

section \<open>The property\<close>

text \<open>
  C30. Snapshots are coherent: whatever events run concurrently, a snapshot that has loaded all cells has
  the value of every counter that the events recorded so far give one after the other, none of them
  seen in part.
\<close>

theorem snapshot_coherent:
  assumes "recorder_run (recorder_new names) r" "sr_snapshot r = Some ([], loaded)"
  shows "map fst loaded = snapshot_loads (stats_new names)
    \<and> (\<forall>(c, v) \<in> set loaded. v = counter_load c (snapshot (fold apply_event (sr_recorded r) (stats_new names))))"
proof -
  have i: "recorder_inv names r" by (rule recorder_inv_run[OF assms(1)])
  then have L: "sr_updating r = {#}" "map fst loaded = snapshot_loads (sr_cells r)" "\<forall>(c, v) \<in> set loaded. v = counter_load c (sr_cells r)"
    "length (st_tiers (sr_cells r)) = length names" using assms(2) by (auto simp: recorder_inv_def)
  then have loads: "snapshot_loads (sr_cells r) = snapshot_loads (stats_new names)" by (simp add: snapshot_loads_def stats_new_def)
  have "counter_load c (sr_cells r) = counter_load c (snapshot (fold apply_event (sr_recorded r) (stats_new names)))"
    if "c \<in> set (snapshot_loads (stats_new names))" for c
  proof -
    have e: "counter_exists c (sr_cells r)" "counter_exists c (stats_new names)" using that loads loads_exist by metis+
    have "unat (counter_load c (sr_cells r)) = cap64 (amount c (concat (map event_updates (sr_recorded r))))"
      using i e(1) L(1) by (auto simp: recorder_inv_def)
    then show ?thesis using load_fold[OF e(2)] e(2) by (simp add: snapshot_def fold_events word_unat_eq_iff)
  qed
  moreover have "c \<in> set (snapshot_loads (stats_new names))" if "(c, v) \<in> set loaded" for c v
    using that L(2) loads by (metis fst_conv image_eqI set_map)
  ultimately show ?thesis using L(2,3) loads by fastforce
qed

theorem snapshot_coherent_witness:
  "\<exists>r loaded. recorder_run (recorder_new []) r \<and> sr_recorded r = [Fault] \<and> sr_snapshot r = Some ([], loaded) \<and> map fst loaded = snapshot_loads (stats_new [])"
proof -
  let ?r0 = "recorder_new []"
  let ?r1 = "?r0\<lparr>sr_updating := add_mset (Fault, event_updates Fault) (sr_updating ?r0)\<rparr>"
  let ?r2 = "?r1\<lparr>sr_cells := counter_bump Faults 1 (sr_cells ?r1), sr_updating := {#(Fault, [])#}, sr_applied := (Faults, 1) # sr_applied ?r1\<rparr>"
  let ?r3 = "?r2\<lparr>sr_updating := {#}, sr_recorded := [] @ [Fault]\<rparr>"
  let ?r4 = "?r3\<lparr>sr_snapshot := Some (snapshot_loads (sr_cells ?r3), [])\<rparr>"
  have a: "recorder_step ?r0 ?r1" by (rule begin_update) (simp add: recorder_new_def)
  have b: "recorder_step ?r1 ?r2" by (rule update_counter) (simp add: recorder_new_def)
  have "recorder_step ?r2 (?r2\<lparr>sr_updating := {#}, sr_recorded := sr_recorded ?r2 @ [Fault]\<rparr>)" by (rule end_update) simp
  then have c: "recorder_step ?r2 ?r3" by (simp add: recorder_new_def)
  have d: "recorder_step ?r3 ?r4" by (rule begin_snapshot) (simp_all add: recorder_new_def)
  have run: "recorder_run (r\<lparr>sr_snapshot := Some (cs, acc)\<rparr>) (r\<lparr>sr_snapshot := Some ([], acc @ map (\<lambda>c. (c, counter_load c (sr_cells r))) cs)\<rparr>)" for cs acc and r :: stats_recorder
  proof (induction cs arbitrary: acc)
    case (Cons c cs)
    have "recorder_step (r\<lparr>sr_snapshot := Some (c # cs, acc)\<rparr>) (r\<lparr>sr_snapshot := Some (cs, acc @ [(c, counter_load c (sr_cells r))])\<rparr>)"
      using load_counter[of "r\<lparr>sr_snapshot := Some (c # cs, acc)\<rparr>"] by simp
    then show ?case using Cons.IH[of "acc @ [(c, counter_load c (sr_cells r))]"] by (simp add: converse_rtranclp_into_rtranclp)
  qed simp
  define r where "r = ?r3\<lparr>sr_snapshot := Some ([], [] @ map (\<lambda>c. (c, counter_load c (sr_cells ?r3))) (snapshot_loads (sr_cells ?r3)))\<rparr>"
  have reach: "recorder_run ?r0 r" unfolding r_def
    using a b c d run[of "snapshot_loads (sr_cells ?r3)" "[]" ?r3] by (meson converse_rtranclp_into_rtranclp)
  then show ?thesis using snapshot_coherent[OF reach] by (auto simp: r_def)
qed

end
