(* ===== verification/Metrics_Export.thy ===== *)
theory Metrics_Export
  imports Bench_Report Stats_Gate
begin

text \<open>
  What the counters and the cost report of src/crates/tierbuf/src/metrics.rs hand out: the calls of
  \<open>emit_to_metrics\<close> to the facade of the \<open>metrics\<close> crate, in order (what a recorder installed by the
  embedder does with them is that crate's), and the text of a cost report.  Strings are their UTF-8 bytes.
\<close>

section \<open>Emission\<close>

datatype metric_call =
  CounterAbsolute (call_name: string) (call_tier: "string option") (call_count: u64)
| GaugeSet (call_name: string) (call_tier: "string option") (call_gauge: f64)

definition emit_tier :: "tier_counters \<Rightarrow> metric_call list" where
  "emit_tier tier =
     [CounterAbsolute ''tierbuf_tier_demand_hits_total'' (Some (tc_name tier)) (tc_demand_hits tier),
      CounterAbsolute ''tierbuf_tier_reads_total'' (Some (tc_name tier)) (tc_reads tier),
      CounterAbsolute ''tierbuf_tier_writes_total'' (Some (tc_name tier)) (tc_writes tier),
      CounterAbsolute ''tierbuf_tier_bytes_read_total'' (Some (tc_name tier)) (tc_bytes_read tier),
      CounterAbsolute ''tierbuf_tier_bytes_written_total'' (Some (tc_name tier)) (tc_bytes_written tier)]"

definition emit_stats :: "stats \<Rightarrow> metric_call list" where
  "emit_stats s =
     [CounterAbsolute ''tierbuf_dram_hits_total'' None (st_dram_hits s),
      CounterAbsolute ''tierbuf_faults_total'' None (st_faults s),
      CounterAbsolute ''tierbuf_evictions_total'' None (st_evictions s),
      CounterAbsolute ''tierbuf_second_chances_total'' None (st_second_chances s),
      CounterAbsolute ''tierbuf_prefetch_submitted_total'' None (st_prefetch_submitted s),
      CounterAbsolute ''tierbuf_prefetch_hits_total'' None (st_prefetch_hits s),
      CounterAbsolute ''tierbuf_prefetch_skipped_total'' None (st_prefetch_skipped s),
      CounterAbsolute ''tierbuf_budget_denied_total'' None (st_budget_denied s)]
     @ concat (map emit_tier (st_tiers s))"

definition emit_cost :: "cost_report \<Rightarrow> metric_call list" where
  "emit_cost r =
     [GaugeSet ''tierbuf_cost_actual_usd'' None (cr_actual_cost_usd r), GaugeSet ''tierbuf_cost_all_dram_usd'' None (cr_all_dram_cost_usd r)]
     @ concat (map (\<lambda>tier. [GaugeSet ''tierbuf_residency_gib_seconds'' (Some (tco_name tier)) (tco_gib_seconds tier),
         GaugeSet ''tierbuf_residency_cost_usd'' (Some (tco_name tier)) (tco_cost_usd tier)]) (cr_tiers r))"

section \<open>Text\<close>

definition tier_cost_line :: "tier_cost \<Rightarrow> string" where
  "tier_cost_line tier = [CHR 0x0A] @ ''  '' @ tco_name tier @ '': '' @ fixed_str 6 (tco_gib_seconds tier)
     @ '' GiB'' @ [CHR 0xC2, CHR 0xB7] @ ''s, $'' @ fixed_str 9 (tco_cost_usd tier)"

definition cost_report_display :: "cost_report \<Rightarrow> string" where
  "cost_report_display r =
     ''tierbuf cost: actual $'' @ fixed_str 9 (cr_actual_cost_usd r) @ '', all-DRAM $'' @ fixed_str 9 (cr_all_dram_cost_usd r)
     @ (case actual_to_all_dram_ratio r of Some ratio \<Rightarrow> '' ('' @ fixed_str 3 ratio @ ''x)'' | None \<Rightarrow> [])
     @ concat (map tier_cost_line (cr_tiers r))"

section \<open>The calls name each value once\<close>

text \<open>
  With distinct tier names no two calls of an emission have the same key, so that the embedder's recorder
  ends up with each counter of the snapshot.
\<close>

abbreviation call_key :: "metric_call \<Rightarrow> string \<times> string option" where
  "call_key c \<equiv> (call_name c, call_tier c)"

lemma distinct_concat_keys:
  assumes "distinct (map name xs)" "\<And>x k. x \<in> set xs \<Longrightarrow> k \<in> set (f x) \<Longrightarrow> snd (g k) = Some (name x)" "\<And>x. x \<in> set xs \<Longrightarrow> distinct (map g (f x))"
  shows "distinct (map g (concat (map f xs)))"
  using assms
proof (induction xs)
  case (Cons x xs)
  then have "distinct (map g (concat (map f xs)))" by simp
  moreover have "g k \<noteq> g k'" if "k \<in> set (f x)" "y \<in> set xs" "k' \<in> set (f y)" for k y k'
  proof
    assume "g k = g k'"
    then have "name x = name y" using Cons.prems(2)[of x k] Cons.prems(2)[of y k'] that by simp
    then show False using Cons.prems(1) that(2) by (metis distinct.simps(2) image_eqI list.map(2) set_map)
  qed
  moreover have "distinct (map g (f x))" using Cons.prems(3) by simp
  ultimately show ?case by fastforce
qed simp

lemma emit_stats_keys:
  assumes "distinct (map tc_name (st_tiers s))"
  shows "distinct (map call_key (emit_stats s))"
proof -
  have "distinct (map call_key (concat (map emit_tier (st_tiers s))))"
    by (rule distinct_concat_keys[OF assms]) (auto simp: emit_tier_def)
  moreover have "call_tier c \<noteq> None" if "c \<in> set (concat (map emit_tier (st_tiers s)))" for c using that by (auto simp: emit_tier_def)
  ultimately show ?thesis by (fastforce simp: emit_stats_def)
qed

lemma emit_stats_values:
  "counter_exists c s \<Longrightarrow> \<exists>call \<in> set (emit_stats s). call_count call = counter_load c s
     \<and> call_tier call = (case c of TierHits i \<Rightarrow> Some (tc_name (st_tiers s ! i)) | TierReads i \<Rightarrow> Some (tc_name (st_tiers s ! i))
         | TierWrites i \<Rightarrow> Some (tc_name (st_tiers s ! i)) | TierBytesRead i \<Rightarrow> Some (tc_name (st_tiers s ! i))
         | TierBytesWritten i \<Rightarrow> Some (tc_name (st_tiers s ! i)) | _ \<Rightarrow> None)"
  by (cases c) (auto simp: emit_stats_def emit_tier_def)

lemma cost_report_display_lines:
  "filter (\<lambda>c. c = CHR 0x0A) (cost_report_display r) = replicate (length (cr_tiers r)) (CHR 0x0A)"
  if "\<forall>t \<in> set (cr_tiers r). CHR 0x0A \<notin> set (tco_name t)"
proof -
  have f: "filter (\<lambda>c. c = CHR 0x0A) (fixed_str k x) = []" for k x using fixed_str_field field_char_plain by (auto simp: filter_empty_conv)
  have l: "filter (\<lambda>c. c = CHR 0x0A) (tier_cost_line t) = [CHR 0x0A]" if "CHR 0x0A \<notin> set (tco_name t)" for t
    using that by (auto simp: tier_cost_line_def f filter_empty_conv)
  have "filter (\<lambda>c. c = CHR 0x0A) (concat (map tier_cost_line ts)) = replicate (length ts) (CHR 0x0A)"
    if "\<forall>t \<in> set ts. CHR 0x0A \<notin> set (tco_name t)" for ts
    using that by (induction ts) (simp_all add: l)
  then show ?thesis using that by (simp add: cost_report_display_def f split: option.split)
qed

end
