(* ===== verification/Uring_Engine.thy ===== *)
theory Uring_Engine
  imports Tier_Backend "HOL-Library.Multiset" "HOL-Library.AList"
begin

text \<open>
  The io_uring read engine: src/crates/tierbuf/src/uring.rs and src/crates/tierbuf/src/sys/uring.rs,
  on Linux with the feature \<open>uring\<close>.

  The ring of the \<open>io_uring\<close> crate is a parameter \<open>R\<close> with the operations the engine calls; what the
  engine relies on is \<open>ring_contract\<close> and, for progress, \<open>ring_serves\<close>.  A request is answered on its own
  channel; the answers are the list \<open>rt_replies\<close>, and a request whose channel is closed unanswered is in
  \<open>ne_dropped\<close>.  The map of requests in flight is an association list, whose order stands for the
  iteration order of the \<open>HashMap\<close>.
\<close>

section \<open>Requests and the ring\<close>

record read_request =
  rr_raw_fd :: int
  rr_location :: nat
  rr_page :: page
  rr_completion :: nat

datatype uring_command = UringRead read_request | UringShutdown

record sqe =
  sqe_fd :: int
  sqe_offset :: nat
  sqe_user_data :: u64

text \<open>A completion is the user data, the result and what the buffer of the request then holds.\<close>

record 'r ring_ops =
  ro_push :: "sqe \<Rightarrow> 'r \<Rightarrow> bool \<times> 'r"
  ro_submit_and_wait :: "nat \<Rightarrow> 'r \<Rightarrow> (io_error + nat) \<times> 'r"
  ro_completion :: "'r \<Rightarrow> (u64 \<times> int \<times> page) list \<times> 'r"

definition boxed_zeroed :: page where
  "boxed_zeroed = replicate PAGE_SIZE 0"

definition push_read :: "'r ring_ops \<Rightarrow> int \<Rightarrow> nat \<Rightarrow> u64 \<Rightarrow> 'r \<Rightarrow> (io_error + unit) \<times> 'r" where
  "push_read R raw_fd offset user_data ring =
     (case ro_push R \<lparr>sqe_fd = raw_fd, sqe_offset = offset, sqe_user_data = user_data\<rparr> ring of
        (pushed, ring') \<Rightarrow> (if pushed then Inr () else Inl (IoError WouldBlock ''io_uring SQ is full''), ring'))"

definition engine_stopped :: io_error where
  "engine_stopped = IoError BrokenPipe ''io_uring completion thread is stopped''"

definition validate_read :: "int \<Rightarrow> nat \<Rightarrow> nat \<Rightarrow> tierbuf_error + unit" where
  "validate_read raw_fd location buffer_len =
     (if raw_fd < 0 then Inl (invalid_input ''io_uring raw fd must be non-negative'')
      else if buffer_len \<noteq> PAGE_SIZE then Inl (invalid_input ''io_uring read buffer length must equal PAGE_SIZE'')
      else if location mod PAGE_SIZE \<noteq> 0 then Inl (invalid_input ''io_uring TierOffset must be PAGE_SIZE-aligned'')
      else if checked_add_u64 location PAGE_SIZE = None then Inl (invalid_input ''io_uring read offset overflows u64'')
      else Inr ())"

section \<open>The state of the completion thread\<close>

record 'r ring_thread =
  rt_pending :: "read_request list"
  rt_inflight :: "(u64 \<times> read_request) list"
  rt_ring :: 'r
  rt_next_user_data :: u64
  rt_shutting_down :: bool
  rt_replies :: "(read_request \<times> (io_error + page)) list"
  rt_leaked :: "(u64 \<times> read_request) list"

definition complete_request :: "read_request \<Rightarrow> io_error + page \<Rightarrow> 'r ring_thread \<Rightarrow> 'r ring_thread" where
  "complete_request request result t = t\<lparr>rt_replies := rt_replies t @ [(request, result)]\<rparr>"

text \<open>The result of a completion is an \<open>i32\<close>; \<open>bytes\<close> is the buffer, which the caller gets on success.\<close>

definition saturating_neg_i32 :: "int \<Rightarrow> int" where
  "saturating_neg_i32 i = (if i = - (2 ^ 31) then 2 ^ 31 - 1 else - i)"

definition complete_cqe :: "read_request \<Rightarrow> int \<Rightarrow> page \<Rightarrow> 'r ring_thread \<Rightarrow> 'r ring_thread" where
  "complete_cqe request result bytes =
     (if result < 0 then complete_request request (Inl (IoError (OsKind (nat (saturating_neg_i32 result))) []))
      else if nat result \<noteq> PAGE_SIZE
      then complete_request request (Inl (IoError UnexpectedEof
             (''io_uring read completed with '' @ nat_str (nat result) @ '' bytes, expected '' @ nat_str PAGE_SIZE)))
      else complete_request request (Inr bytes))"

partial_function (option) allocate_user_data :: "u64 \<Rightarrow> (u64 \<times> read_request) list \<Rightarrow> (u64 \<times> u64) option" where
  "allocate_user_data next_user_data inflight =
     (let candidate = next_user_data;
          next' = (if next_user_data + 1 = 0 then 1 else next_user_data + 1)
      in if candidate \<noteq> 0 \<and> candidate \<notin> fst ` set inflight then Some (candidate, next')
         else allocate_user_data next' inflight)"

declare allocate_user_data.simps [code]

text \<open>
  \<open>pending.pop_front()\<close> until the queue is empty or the submission queue is full; \<open>None\<close> when no user
  data is free.
\<close>

fun submit_pending :: "'r ring_ops \<Rightarrow> read_request list \<Rightarrow> 'r ring_thread \<Rightarrow> 'r ring_thread option" where
  "submit_pending R [] t = Some (t\<lparr>rt_pending := []\<rparr>)"
| "submit_pending R (request # rest) t =
     (case allocate_user_data (rt_next_user_data t) (rt_inflight t) of
        None \<Rightarrow> None
      | Some (user_data, next') \<Rightarrow>
          (case push_read R (rr_raw_fd request) (rr_location request) user_data (rt_ring t) of
             (Inr _, ring') \<Rightarrow>
               submit_pending R rest (t\<lparr>rt_next_user_data := next', rt_inflight := (user_data, request) # rt_inflight t, rt_ring := ring'\<rparr>)
           | (Inl e, ring') \<Rightarrow>
               (let t' = t\<lparr>rt_next_user_data := next', rt_ring := ring'\<rparr> in
                if io_kind_of e = WouldBlock then Some (t'\<lparr>rt_pending := request # rest\<rparr>)
                else submit_pending R rest (complete_request request (Inl e) t'))))"

section \<open>The completion thread\<close>

fun receive_command :: "uring_command \<Rightarrow> 'r ring_thread \<Rightarrow> 'r ring_thread" where
  "receive_command (UringRead request) t = t\<lparr>rt_pending := rt_pending t @ [request]\<rparr>"
| "receive_command UringShutdown t = t\<lparr>rt_shutting_down := True\<rparr>"

text \<open>\<open>try_recv\<close> until the channel is empty or disconnected.\<close>

fun drain_commands :: "bool \<Rightarrow> uring_command list \<Rightarrow> 'r ring_thread \<Rightarrow> 'r ring_thread" where
  "drain_commands alive [] t = (if alive then t else t\<lparr>rt_shutting_down := True\<rparr>)"
| "drain_commands alive (UringRead request # rest) t =
     (if \<not> rt_shutting_down t then drain_commands alive rest (receive_command (UringRead request) t)
      else drain_commands alive rest (complete_request request (Inl engine_stopped) t))"
| "drain_commands alive (UringShutdown # rest) t = drain_commands alive rest (receive_command UringShutdown t)"

text \<open>\<open>submit_and_wait(1)\<close>, repeated while it is interrupted; \<open>None\<close> when the fuel is used up.\<close>

fun wait_completion :: "'r ring_ops \<Rightarrow> nat \<Rightarrow> 'r \<Rightarrow> (io_error + nat) option \<times> 'r" where
  "wait_completion R 0 ring = (None, ring)"
| "wait_completion R (Suc fuel) ring =
     (case ro_submit_and_wait R 1 ring of
        (Inl e, ring') \<Rightarrow> if io_kind_of e = Interrupted then wait_completion R fuel ring' else (Some (Inl e), ring')
      | (Inr n, ring') \<Rightarrow> (Some (Inr n), ring'))"

fun process_completions :: "(u64 \<times> int \<times> page) list \<Rightarrow> 'r ring_thread \<Rightarrow> io_error option \<times> 'r ring_thread" where
  "process_completions [] t = (None, t)"
| "process_completions ((user_data, result, bytes) # rest) t =
     (case map_of (rt_inflight t) user_data of
        None \<Rightarrow> (Some (IoError InvalidData (''io_uring returned unknown completion user_data '' @ nat_str (unat user_data))), t)
      | Some request \<Rightarrow>
          process_completions rest (complete_cqe request result bytes (t\<lparr>rt_inflight := AList.delete user_data (rt_inflight t)\<rparr>)))"

text \<open>How a round of the loop ends: with the next round, or by leaving the loop with or without an error.\<close>

datatype round_end = Goes_on | Leaves "io_error option"

definition wait_and_complete :: "'r ring_ops \<Rightarrow> nat \<Rightarrow> 'r ring_thread \<Rightarrow> (round_end \<times> 'r ring_thread) option" where
  "wait_and_complete R fuel t =
     (case wait_completion R fuel (rt_ring t) of
        (None, ring') \<Rightarrow> None
      | (Some (Inl e), ring') \<Rightarrow> Some (Leaves (Some (IoError (io_kind_of e) (io_message e))), t\<lparr>rt_ring := ring'\<rparr>)
      | (Some (Inr _), ring') \<Rightarrow>
          (case ro_completion R ring' of
             (completions, ring'') \<Rightarrow>
               if completions = []
               then Some (Leaves (Some (IoError InvalidData ''io_uring reported readiness without a completion'')), t\<lparr>rt_ring := ring''\<rparr>)
               else (case process_completions completions (t\<lparr>rt_ring := ring''\<rparr>) of
                       (None, t') \<Rightarrow> Some (Goes_on, t')
                     | (Some e, t') \<Rightarrow> Some (Leaves (Some e), t'))))"

text \<open>
  One round; \<open>None\<close> when the thread waits for a command or for the ring.  The channel is empty after it.
\<close>

definition completion_round :: "'r ring_ops \<Rightarrow> nat \<Rightarrow> bool \<Rightarrow> uring_command list \<Rightarrow> 'r ring_thread \<Rightarrow> (round_end \<times> 'r ring_thread) option" where
  "completion_round R fuel alive channel t =
     (if rt_pending t = [] \<and> rt_inflight t = [] \<and> \<not> rt_shutting_down t \<and> channel = [] \<and> alive then None
      else
        (let t1 = (if rt_pending t = [] \<and> rt_inflight t = [] \<and> \<not> rt_shutting_down t
                   then (case channel of
                           [] \<Rightarrow> drain_commands alive [] (t\<lparr>rt_shutting_down := True\<rparr>)
                         | c # rest \<Rightarrow> drain_commands alive rest (receive_command c t))
                   else drain_commands alive channel t)
         in case submit_pending R (rt_pending t1) t1 of
              None \<Rightarrow> None
            | Some t2 \<Rightarrow>
                if rt_inflight t2 = []
                then Some (if rt_shutting_down t2 \<and> rt_pending t2 = [] then Leaves None else Goes_on, t2)
                else wait_and_complete R fuel t2))"

definition fail_all :: "io_error \<Rightarrow> 'r ring_thread \<Rightarrow> 'r ring_thread" where
  "fail_all e t =
     t\<lparr>rt_pending := [], rt_inflight := [], rt_leaked := rt_leaked t @ rt_inflight t,
       rt_replies := rt_replies t @ map (\<lambda>request. (request, Inl e)) (rt_pending t) @ map (\<lambda>(_, request). (request, Inl e)) (rt_inflight t)\<rparr>"

section \<open>The engine\<close>

record 'r native_engine =
  ne_thread :: "'r ring_thread"
  ne_channel :: "uring_command list"
  ne_capacity :: nat
  ne_connected :: bool
  ne_running :: bool
  ne_stopping :: bool
  ne_dropped :: "read_request list"

definition native_engine_new :: "'r \<Rightarrow> nat \<Rightarrow> 'r native_engine" where
  "native_engine_new ring entries =
     \<lparr>ne_thread = \<lparr>rt_pending = [], rt_inflight = [], rt_ring = ring, rt_next_user_data = 1, rt_shutting_down = False, rt_replies = [], rt_leaked = []\<rparr>,
      ne_channel = [], ne_capacity = entries, ne_connected = True, ne_running = True, ne_stopping = False, ne_dropped = []\<rparr>"

text \<open>The constructor: \<open>setup\<close> is what the kernel answers to the setup of a ring.\<close>

definition uring_reader_new :: "(nat \<Rightarrow> io_error + 'r) \<Rightarrow> nat \<Rightarrow> tierbuf_error + 'r native_engine" where
  "uring_reader_new setup entries =
     (if entries = 0 then Inl (invalid_input ''io_uring entries must be greater than zero'')
      else case setup entries of Inl e \<Rightarrow> Inl (Io e) | Inr ring \<Rightarrow> Inr (native_engine_new ring entries))"

definition channel_reads :: "uring_command list \<Rightarrow> read_request list" where
  "channel_reads cs = List.map_filter (\<lambda>c. case c of UringRead q \<Rightarrow> Some q | UringShutdown \<Rightarrow> None) cs"

text \<open>The thread ends: the ring is closed, and with the receiver the commands left in the channel go.\<close>

definition thread_exit :: "io_error option \<Rightarrow> 'r native_engine \<Rightarrow> 'r native_engine" where
  "thread_exit fatal s =
     s\<lparr>ne_thread := (case fatal of None \<Rightarrow> ne_thread s | Some e \<Rightarrow> fail_all e (ne_thread s)),
       ne_running := False, ne_dropped := ne_dropped s @ channel_reads (ne_channel s), ne_channel := []\<rparr>"

definition run_completion_thread :: "'r ring_ops \<Rightarrow> nat \<Rightarrow> ('r native_engine, bool) operation" where
  "run_completion_thread R fuel s =
     (if \<not> ne_running s then (oOk False, s)
      else case completion_round R fuel (ne_connected s) (ne_channel s) (ne_thread s) of
             None \<Rightarrow> (oBlocks, s)
           | Some (Goes_on, t) \<Rightarrow> (oOk True, s\<lparr>ne_thread := t, ne_channel := []\<rparr>)
           | Some (Leaves fatal, t) \<Rightarrow> (oOk False, thread_exit fatal (s\<lparr>ne_thread := t, ne_channel := []\<rparr>)))"

text \<open>
  \<open>NativeEngine::read\<close> up to the point where it waits: the bounded channel makes it wait when full.
  \<open>completion\<close> names the channel of the answer.
\<close>

definition native_read_submit :: "int \<Rightarrow> nat \<Rightarrow> nat \<Rightarrow> ('r native_engine, read_request) operation" where
  "native_read_submit raw_fd location completion s =
     (if ne_stopping s then (oErr (Io engine_stopped), s)
      else let request = \<lparr>rr_raw_fd = raw_fd, rr_location = location, rr_page = boxed_zeroed, rr_completion = completion\<rparr> in
           if \<not> ne_running s then (oErr (Io engine_stopped), s)
           else if ne_capacity s \<le> length (ne_channel s) then (oBlocks, s)
           else (oOk request, s\<lparr>ne_channel := ne_channel s @ [UringRead request]\<rparr>))"

text \<open>The rest of \<open>NativeEngine::read\<close>: the answer becomes the result, the page is copied into the destination.\<close>

definition native_read_finish :: "read_request \<Rightarrow> ('r native_engine, page) operation" where
  "native_read_finish request s =
     (case map_of (rt_replies (ne_thread s)) request of
        Some (Inr p) \<Rightarrow> (oOk p, s)
      | Some (Inl e) \<Rightarrow> (oErr (Io e), s)
      | None \<Rightarrow> if request \<in> set (ne_dropped s) then (oErr (Io engine_stopped), s) else (oBlocks, s))"

definition uring_read_submit :: "int \<Rightarrow> nat \<Rightarrow> nat \<Rightarrow> nat \<Rightarrow> ('r native_engine, read_request) operation" where
  "uring_read_submit raw_fd location buffer_len completion =
     op_seq (of_result (validate_read raw_fd location buffer_len)) (native_read_submit raw_fd location completion)"

text \<open>
  \<open>NativeEngine::shutdown\<close>: setting the flag, which answers whether this is the first shutdown, the
  send, which waits while the channel is full and answers its error, and the join.
\<close>

definition native_shutdown_begin :: "('r native_engine, bool) operation" where
  "native_shutdown_begin s = (oOk (\<not> ne_stopping s), s\<lparr>ne_stopping := True\<rparr>)"

definition native_shutdown_send :: "bool \<Rightarrow> ('r native_engine, io_error option) operation" where
  "native_shutdown_send first s =
     (if \<not> first then (oOk None, s)
      else if \<not> ne_running s then (oOk (Some engine_stopped), s)
      else if ne_capacity s \<le> length (ne_channel s) then (oBlocks, s)
      else (oOk None, s\<lparr>ne_channel := ne_channel s @ [UringShutdown]\<rparr>))"

definition native_shutdown_join :: "io_error option \<Rightarrow> ('r native_engine, unit) operation" where
  "native_shutdown_join send_error s =
     (if ne_running s then (oBlocks, s)
      else case send_error of Some e \<Rightarrow> (oErr (Io e), s) | None \<Rightarrow> (oOk (), s))"

section \<open>What the engine relies on\<close>

text \<open>
  \<open>out\<close> is what the kernel has accepted and not completed: a push that succeeds adds its entry, waiting
  changes nothing, and the completions are pairwise different, answer accepted entries and remove them; a
  completion with a full page has put into the buffer what the kernel \<open>delivers\<close> for that descriptor and offset.
\<close>

definition ring_contract :: "'r ring_ops \<Rightarrow> ('r \<Rightarrow> bool) \<Rightarrow> ('r \<Rightarrow> u64 \<Rightarrow> sqe option) \<Rightarrow> (int \<Rightarrow> nat \<Rightarrow> page \<Rightarrow> bool) \<Rightarrow> bool" where
  "ring_contract R ok out delivers \<longleftrightarrow>
     (\<forall>r e b r'. ok r \<longrightarrow> sqe_user_data e \<notin> dom (out r) \<longrightarrow> ro_push R e r = (b, r') \<longrightarrow>
        ok r' \<and> out r' = (if b then (out r)(sqe_user_data e \<mapsto> e) else out r))
   \<and> (\<forall>r n x r'. ok r \<longrightarrow> ro_submit_and_wait R n r = (x, r') \<longrightarrow> ok r' \<and> out r' = out r)
   \<and> (\<forall>r cs r'. ok r \<longrightarrow> ro_completion R r = (cs, r') \<longrightarrow>
        ok r' \<and> distinct (map fst cs) \<and> fst ` set cs \<subseteq> dom (out r) \<and> out r' = out r |` (- fst ` set cs)
        \<and> (\<forall>(u, result, bytes) \<in> set cs. \<forall>e. out r u = Some e \<longrightarrow> length bytes = PAGE_SIZE
              \<and> (result = int PAGE_SIZE \<longrightarrow> delivers (sqe_fd e) (sqe_offset e) bytes)))"

text \<open>A ring that makes progress: an empty one accepts an entry, waiting succeeds, and it then has a completion.\<close>

definition ring_serves :: "'r ring_ops \<Rightarrow> ('r \<Rightarrow> bool) \<Rightarrow> ('r \<Rightarrow> u64 \<Rightarrow> sqe option) \<Rightarrow> bool" where
  "ring_serves R ok out \<longleftrightarrow>
     (\<forall>r e. ok r \<longrightarrow> out r = Map.empty \<longrightarrow> fst (ro_push R e r))
   \<and> (\<forall>r. ok r \<longrightarrow> out r \<noteq> Map.empty \<longrightarrow> (\<exists>n r' c cs r''. ro_submit_and_wait R 1 r = (Inr n, r') \<and> ro_completion R r' = (c # cs, r'')))"

section \<open>Runs of the engine\<close>

text \<open>The requests in the list are those that \<open>read\<close> has accepted.\<close>

inductive uring_run :: "'r ring_ops \<Rightarrow> 'r native_engine \<Rightarrow> read_request list \<Rightarrow> 'r native_engine \<Rightarrow> bool"
  for R :: "'r ring_ops" and s0 :: "'r native_engine" where
  uring_init: "uring_run R s0 [] s0"
| uring_accept: "uring_run R s0 qs s \<Longrightarrow> uring_read_submit fd l n c s = (oOk q, s') \<Longrightarrow> uring_run R s0 (q # qs) s'"
| uring_round: "uring_run R s0 qs s \<Longrightarrow> run_completion_thread R fuel s = (oOk b, s') \<Longrightarrow> uring_run R s0 qs s'"
| uring_stop: "uring_run R s0 qs s \<Longrightarrow> native_shutdown_begin s = (oOk b, s') \<Longrightarrow> uring_run R s0 qs s'"
| uring_send: "uring_run R s0 qs s \<Longrightarrow> native_shutdown_send b s = (oOk x, s') \<Longrightarrow> uring_run R s0 qs s'"

definition sqe_of :: "u64 \<Rightarrow> read_request \<Rightarrow> sqe" where
  "sqe_of u q = \<lparr>sqe_fd = rr_raw_fd q, sqe_offset = rr_location q, sqe_user_data = u\<rparr>"

text \<open>The requests of a thread, wherever they are.\<close>

definition thread_requests :: "'r ring_thread \<Rightarrow> read_request multiset" where
  "thread_requests t = mset (rt_pending t) + mset (map snd (rt_inflight t)) + mset (map fst (rt_replies t))"

definition answers_ok :: "(int \<Rightarrow> nat \<Rightarrow> page \<Rightarrow> bool) \<Rightarrow> 'r ring_thread \<Rightarrow> bool" where
  "answers_ok delivers t \<longleftrightarrow> (\<forall>q p. (q, Inr p) \<in> set (rt_replies t) \<longrightarrow> length p = PAGE_SIZE \<and> delivers (rr_raw_fd q) (rr_location q) p)"

text \<open>The invariant of the running thread: what is in flight is exactly what the kernel has.\<close>

definition thread_inv :: "('r \<Rightarrow> bool) \<Rightarrow> ('r \<Rightarrow> u64 \<Rightarrow> sqe option) \<Rightarrow> (int \<Rightarrow> nat \<Rightarrow> page \<Rightarrow> bool) \<Rightarrow> 'r ring_thread \<Rightarrow> bool" where
  "thread_inv ok out delivers t \<longleftrightarrow> ok (rt_ring t) \<and> distinct (map fst (rt_inflight t))
     \<and> (\<forall>u. out (rt_ring t) u = map_option (sqe_of u) (map_of (rt_inflight t) u)) \<and> answers_ok delivers t \<and> rt_leaked t = []"

section \<open>Each part of a round keeps the requests and the invariant\<close>

lemma complete_request_simps [simp]:
  "rt_pending (complete_request q r t) = rt_pending t" "rt_inflight (complete_request q r t) = rt_inflight t"
  "rt_ring (complete_request q r t) = rt_ring t" "rt_shutting_down (complete_request q r t) = rt_shutting_down t"
  "rt_leaked (complete_request q r t) = rt_leaked t" "rt_replies (complete_request q r t) = rt_replies t @ [(q, r)]"
  "rt_next_user_data (complete_request q r t) = rt_next_user_data t"
  by (simp_all add: complete_request_def)

lemma complete_request_inv:
  "thread_inv ok out delivers t \<Longrightarrow> (\<And>p. r = Inr p \<Longrightarrow> length p = PAGE_SIZE \<and> delivers (rr_raw_fd q) (rr_location q) p) \<Longrightarrow>
   thread_inv ok out delivers (complete_request q r t)"
  by (auto simp: thread_inv_def answers_ok_def)

lemma channel_reads_simps [simp]:
  "channel_reads [] = []" "channel_reads (UringRead q # cs) = q # channel_reads cs" "channel_reads (UringShutdown # cs) = channel_reads cs"
  "channel_reads (cs @ ds) = channel_reads cs @ channel_reads ds"
  by (simp_all add: channel_reads_def map_filter_def)

lemma receive_command_ok:
  "thread_inv ok out delivers t \<Longrightarrow> thread_inv ok out delivers (receive_command c t)"
  "thread_requests (receive_command c t) = thread_requests t + mset (channel_reads [c])"
  by (cases c; simp add: thread_inv_def answers_ok_def thread_requests_def)+

lemma drain_commands_ok:
  "thread_inv ok out delivers t \<Longrightarrow> thread_inv ok out delivers (drain_commands alive cs t)"
  "thread_requests (drain_commands alive cs t) = thread_requests t + mset (channel_reads cs)"
proof (induction alive cs t rule: drain_commands.induct)
  case (1 alive t)
  {
    case 1
    then show ?case by (simp add: thread_inv_def answers_ok_def)
  next
    case 2
    then show ?case by (simp add: thread_requests_def)
  }
next
  case (2 alive q cs t)
  {
    case 1
    then show ?case using "2.IH" complete_request_inv[of ok out delivers t "Inl engine_stopped" q] receive_command_ok(1)[of ok out delivers t "UringRead q"]
      by (simp del: receive_command.simps)
  next
    case 2
    then show ?case using "2.IH" receive_command_ok(2)[of "UringRead q" t] by (simp add: thread_requests_def)
  }
next
  case (3 alive cs t)
  {
    case 1
    then show ?case using "3.IH" receive_command_ok(1)[of ok out delivers t UringShutdown] by (simp del: receive_command.simps)
  next
    case 2
    then show ?case using "3.IH" receive_command_ok(2)[of UringShutdown t] by simp
  }
qed

lemma allocate_user_data_fresh:
  assumes "allocate_user_data n m = Some r"
  shows "fst r \<noteq> 0 \<and> fst r \<notin> fst ` set m"
proof (rule allocate_user_data.raw_induct[OF _ assms])
  fix f :: "u64 \<Rightarrow> (u64 \<times> read_request) list \<Rightarrow> (u64 \<times> u64) option" and n m r
  assume "\<And>x y z. f x y = Some z \<Longrightarrow> fst z \<noteq> 0 \<and> fst z \<notin> fst ` set y"
    "(let candidate = n; next' = if n + 1 = 0 then 1 else n + 1 in if candidate \<noteq> 0 \<and> candidate \<notin> fst ` set m then Some (candidate, next') else f next' m) = Some r"
  then show "fst r \<noteq> 0 \<and> fst r \<notin> fst ` set m" by (auto simp: Let_def image_iff split: if_splits)
qed

text \<open>
  The counter passes every value but zero, so it finds a free one within the distance to any free value \<open>t\<close>.
\<close>

lemma allocate_user_data_finds:
  assumes t: "t \<noteq> 0" "t \<notin> fst ` set m"
  shows "\<exists>r. allocate_user_data n m = Some r"
proof (induction "if unat n \<le> unat t then unat t - unat n else 2 ^ 64 - unat n + unat t" arbitrary: n rule: less_induct)
  case less
  let ?n = "if n + 1 = 0 then 1 else n + 1"
  show ?case
  proof (cases "n \<noteq> 0 \<and> n \<notin> fst ` set m")
    case True
    then show ?thesis by (subst allocate_user_data.simps) (simp add: Let_def)
  next
    case False
    have nt: "n \<noteq> t" using False t by auto
    then have u: "unat n \<noteq> unat t" by (simp add: word_unat_eq_iff)
    have pos: "0 < unat t" "unat t < 2 ^ 64" "unat n < 2 ^ 64" using t(1) unat_less_pow[of t] unat_less_pow[of n] by (auto simp: unat_gt_0)
    have suc: "unat (n + 1) = (if unat n = 2 ^ 64 - 1 then 0 else unat n + 1)" using pos(3) by (auto simp: unat_word_ariths)
    have next': "unat ?n = (if unat n = 2 ^ 64 - 1 then 1 else unat n + 1)"
      using suc pos(3) by (cases "n + 1 = 0") (auto simp: word_unat_eq_iff)
    have "(if unat ?n \<le> unat t then unat t - unat ?n else 2 ^ 64 - unat ?n + unat t) < (if unat n \<le> unat t then unat t - unat n else 2 ^ 64 - unat n + unat t)"
      unfolding next' using u pos by auto
    from less[OF this] show ?thesis using False by (subst allocate_user_data.simps) (simp add: Let_def)
  qed
qed

lemma push_read_ok:
  assumes "ring_contract R ok out delivers" "ok r" "u \<notin> dom (out r)" "push_read R fd l u r = (x, r')"
  shows "ok r'" "out r' = (if x = Inr () then (out r)(u \<mapsto> \<lparr>sqe_fd = fd, sqe_offset = l, sqe_user_data = u\<rparr>) else out r)"
proof -
  obtain b where b: "ro_push R \<lparr>sqe_fd = fd, sqe_offset = l, sqe_user_data = u\<rparr> r = (b, r')" "x = (if b then Inr () else Inl (IoError WouldBlock ''io_uring SQ is full''))"
    using assms(4) by (auto simp: push_read_def split: prod.splits)
  have "ok r' \<and> out r' = (if b then (out r)(u \<mapsto> \<lparr>sqe_fd = fd, sqe_offset = l, sqe_user_data = u\<rparr>) else out r)"
    using assms(1-3) b(1) unfolding ring_contract_def by (metis sqe.select_convs(3))
  then show "ok r'" "out r' = (if x = Inr () then (out r)(u \<mapsto> \<lparr>sqe_fd = fd, sqe_offset = l, sqe_user_data = u\<rparr>) else out r)" by (simp_all add: b(2))
qed

lemma submit_pending_ok:
  assumes R: "ring_contract R ok out delivers" and "thread_inv ok out delivers t" "submit_pending R qs t = Some t'"
  shows "thread_inv ok out delivers t' \<and> thread_requests t' + mset (rt_pending t) = thread_requests t + mset qs \<and> rt_shutting_down t' = rt_shutting_down t"
  using assms(2,3)
proof (induction qs arbitrary: t)
  case Nil
  then show ?case by (auto simp: thread_inv_def answers_ok_def thread_requests_def)
next
  case (Cons q qs t)
  obtain u n where a: "allocate_user_data (rt_next_user_data t) (rt_inflight t) = Some (u, n)" using Cons.prems(2) by (auto split: option.splits)
  obtain x r' where p: "push_read R (rr_raw_fd q) (rr_location q) u (rt_ring t) = (x, r')" by fastforce
  let ?in = "t\<lparr>rt_next_user_data := n, rt_inflight := (u, q) # rt_inflight t, rt_ring := r'\<rparr>" and ?t = "t\<lparr>rt_next_user_data := n, rt_ring := r'\<rparr>"
  have i: "ok (rt_ring t)" "\<And>u. out (rt_ring t) u = map_option (sqe_of u) (map_of (rt_inflight t) u)" using Cons.prems(1) by (simp_all add: thread_inv_def)
  have u: "u \<notin> fst ` set (rt_inflight t)" using allocate_user_data_fresh[OF a] by simp
  then have o: "u \<notin> dom (out (rt_ring t))" using i(2) by (simp add: dom_def map_of_eq_None_iff)
  note P = push_read_ok[OF R i(1) o p]
  show ?case
  proof (cases x)
    case (Inr y)
    have "thread_inv ok out delivers ?in" using Cons.prems(1) P u Inr by (simp add: thread_inv_def answers_ok_def sqe_of_def)
    moreover have "submit_pending R qs ?in = Some t'" using Cons.prems(2) a p Inr by simp
    ultimately show ?thesis using Cons.IH[of ?in] by (simp add: thread_requests_def)
  next
    case (Inl e)
    have t: "thread_inv ok out delivers ?t" using Cons.prems(1) P Inl by (simp add: thread_inv_def answers_ok_def)
    show ?thesis
    proof (cases "io_kind_of e = WouldBlock")
      case True
      then have "t' = ?t\<lparr>rt_pending := q # qs\<rparr>" using Cons.prems(2) a p Inl by (simp add: Let_def)
      then show ?thesis using t by (simp add: thread_inv_def answers_ok_def thread_requests_def)
    next
      case False
      then have "submit_pending R qs (complete_request q (Inl e) ?t) = Some t'" using Cons.prems(2) a p Inl by (simp add: Let_def)
      moreover have "thread_inv ok out delivers (complete_request q (Inl e) ?t)" by (rule complete_request_inv[OF t]) simp
      ultimately show ?thesis using Cons.IH[of "complete_request q (Inl e) ?t"] by (simp add: thread_requests_def)
    qed
  qed
qed

lemma wait_completion_ok:
  assumes R: "ring_contract R ok out delivers" and "ok r" "wait_completion R fuel r = (x, r')"
  shows "ok r' \<and> out r' = out r"
  using assms(2,3)
proof (induction fuel arbitrary: r)
  case (Suc fuel)
  obtain y r1 where y: "ro_submit_and_wait R 1 r = (y, r1)" by fastforce
  have "ok r1 \<and> out r1 = out r" using R Suc.prems(1) y unfolding ring_contract_def by blast
  then show ?case using Suc y by (auto split: sum.splits if_splits)
qed simp

text \<open>The completions of the ring answer requests in flight, so none is unknown.\<close>

lemma complete_cqe_simps [simp]:
  "rt_pending (complete_cqe q r b t) = rt_pending t" "rt_inflight (complete_cqe q r b t) = rt_inflight t" "rt_ring (complete_cqe q r b t) = rt_ring t"
  "rt_leaked (complete_cqe q r b t) = rt_leaked t" "map fst (rt_replies (complete_cqe q r b t)) = map fst (rt_replies t) @ [q]"
  "rt_shutting_down (complete_cqe q r b t) = rt_shutting_down t"
  by (simp_all add: complete_cqe_def)

lemma complete_cqe_answers:
  "answers_ok delivers t \<Longrightarrow> length b = PAGE_SIZE \<Longrightarrow> (r = int PAGE_SIZE \<Longrightarrow> delivers (rr_raw_fd q) (rr_location q) b) \<Longrightarrow>
   answers_ok delivers (complete_cqe q r b t)"
  by (auto simp: answers_ok_def complete_cqe_def)

lemma mset_delete:
  assumes "distinct (map fst m)" "map_of m u = Some q"
  shows "mset (map snd m) = add_mset q (mset (map snd (AList.delete u m)))"
  using assms
proof (induction m)
  case (Cons a m)
  show ?case
  proof (cases "fst a = u")
    case True
    then have "AList.delete u m = m" using Cons.prems(1) by (intro AList.delete_id) auto
    then show ?thesis using True Cons.prems(2) by (cases a) (simp add: AList.delete_eq)
  next
    case False
    then show ?thesis using Cons by (cases a) (simp add: AList.delete_eq)
  qed
qed simp

lemma process_completions_ok:
  assumes "distinct (map fst cs)" "distinct (map fst (rt_inflight t))" "fst ` set cs \<subseteq> dom (map_of (rt_inflight t))" "answers_ok delivers t"
    "\<forall>(u, result, b) \<in> set cs. \<forall>q. map_of (rt_inflight t) u = Some q \<longrightarrow> length b = PAGE_SIZE \<and> (result = int PAGE_SIZE \<longrightarrow> delivers (rr_raw_fd q) (rr_location q) b)"
  shows "\<exists>t'. process_completions cs t = (None, t') \<and> answers_ok delivers t' \<and> distinct (map fst (rt_inflight t'))
     \<and> map_of (rt_inflight t') = map_of (rt_inflight t) |` (- fst ` set cs) \<and> rt_ring t' = rt_ring t \<and> rt_leaked t' = rt_leaked t
     \<and> rt_pending t' = rt_pending t \<and> rt_shutting_down t' = rt_shutting_down t \<and> thread_requests t' = thread_requests t
     \<and> length (rt_inflight t') + length cs = length (rt_inflight t)"
  using assms
proof (induction cs arbitrary: t)
  case Nil
  then show ?case by (simp add: restrict_map_def fun_eq_iff)
next
  case (Cons c cs)
  obtain u r b where c: "c = (u, r, b)" by (cases c) auto
  obtain q where q: "map_of (rt_inflight t) u = Some q" using Cons.prems(3) c by auto
  let ?t = "complete_cqe q r b (t\<lparr>rt_inflight := AList.delete u (rt_inflight t)\<rparr>)"
  have m: "map_of (rt_inflight ?t) = (map_of (rt_inflight t))(u := None)" by (simp add: AList.delete_conv')
  have 1: "distinct (map fst cs)" "distinct (map fst (rt_inflight ?t))" using Cons.prems(1,2) by (simp_all add: AList.distinct_delete)
  have uc: "u \<notin> fst ` set cs" using Cons.prems(1) c by simp
  have 2: "fst ` set cs \<subseteq> dom (map_of (rt_inflight ?t))" using Cons.prems(3) uc unfolding m by auto
  have 3: "answers_ok delivers ?t" using Cons.prems(4,5) q c by (intro complete_cqe_answers) (auto simp: answers_ok_def)
  have 4: "\<forall>(v, result, b) \<in> set cs. \<forall>q. map_of (rt_inflight ?t) v = Some q \<longrightarrow> length b = PAGE_SIZE \<and> (result = int PAGE_SIZE \<longrightarrow> delivers (rr_raw_fd q) (rr_location q) b)"
    using Cons.prems(5) unfolding m by (auto split: if_splits)
  have 5: "thread_requests ?t = thread_requests t" using mset_delete[OF Cons.prems(2) q] by (simp add: thread_requests_def)
  have 6: "Suc (length (rt_inflight ?t)) = length (rt_inflight t)" using arg_cong[OF mset_delete[OF Cons.prems(2) q], of size] by simp
  have "process_completions (c # cs) t = process_completions cs ?t" using q by (simp add: c)
  then show ?case using Cons.IH[OF 1 2 3 4] 5 6 unfolding m by (auto simp: c restrict_map_def fun_eq_iff)
qed

section \<open>A round\<close>

text \<open>What is in flight when the thread leaves its loop is what the kernel still has.\<close>

definition round_ok :: "('r \<Rightarrow> bool) \<Rightarrow> ('r \<Rightarrow> u64 \<Rightarrow> sqe option) \<Rightarrow> (int \<Rightarrow> nat \<Rightarrow> page \<Rightarrow> bool) \<Rightarrow> round_end \<Rightarrow> 'r ring_thread \<Rightarrow> bool" where
  "round_ok ok out delivers x t \<longleftrightarrow> thread_inv ok out delivers t \<and> (x = Leaves None \<longrightarrow> rt_pending t = [] \<and> rt_inflight t = [])"

lemma wait_and_complete_ok:
  assumes R: "ring_contract R ok out delivers" and inv: "thread_inv ok out delivers t" and w: "wait_and_complete R fuel t = Some (x, t')"
  shows "round_ok ok out delivers x t' \<and> thread_requests t' = thread_requests t \<and> rt_shutting_down t' = rt_shutting_down t \<and> rt_pending t' = rt_pending t
     \<and> (x = Goes_on \<longrightarrow> length (rt_inflight t') < length (rt_inflight t)) \<and> x \<noteq> Leaves None
     \<and> (x \<noteq> Goes_on \<longrightarrow> (\<exists>e r1. wait_completion R fuel (rt_ring t) = (Some (Inl e), r1))
          \<or> (\<exists>n r1 r2. wait_completion R fuel (rt_ring t) = (Some (Inr n), r1) \<and> ro_completion R r1 = ([], r2)))"
proof -
  have i: "ok (rt_ring t)" "\<And>u. out (rt_ring t) u = map_option (sqe_of u) (map_of (rt_inflight t) u)" "distinct (map fst (rt_inflight t))"
    "answers_ok delivers t" "rt_leaked t = []" using inv by (simp_all add: thread_inv_def)
  obtain y r1 where y: "wait_completion R fuel (rt_ring t) = (y, r1)" by fastforce
  note W = wait_completion_ok[OF R i(1) y]
  obtain z where z: "y = Some z" using w y by (auto simp: wait_and_complete_def split: option.splits)
  show ?thesis
  proof (cases z)
    case (Inl e)
    then show ?thesis using w y z W i by (auto simp: wait_and_complete_def round_ok_def thread_inv_def answers_ok_def thread_requests_def)
  next
    case (Inr n)
    obtain cs r2 where c: "ro_completion R r1 = (cs, r2)" by fastforce
    have C: "ok r2" "distinct (map fst cs)" "fst ` set cs \<subseteq> dom (out r1)" "out r2 = out r1 |` (- fst ` set cs)"
      "\<forall>(u, result, b) \<in> set cs. \<forall>e. out r1 u = Some e \<longrightarrow> length b = PAGE_SIZE \<and> (result = int PAGE_SIZE \<longrightarrow> delivers (sqe_fd e) (sqe_offset e) b)"
      using R W c unfolding ring_contract_def by blast+
    have o: "out r1 u = map_option (sqe_of u) (map_of (rt_inflight t) u)" for u using W i(2) by simp
    show ?thesis
    proof (cases "cs = []")
      case True
      then show ?thesis using w y z Inr c W C(1,4) i(3-5) o
        by (auto simp: wait_and_complete_def round_ok_def thread_inv_def answers_ok_def thread_requests_def restrict_map_def)
    next
      case False
      let ?t = "t\<lparr>rt_ring := r2\<rparr>"
      have s: "fst ` set cs \<subseteq> dom (map_of (rt_inflight ?t))" using C(3) o by (fastforce simp: dom_def)
      have d: "\<forall>(u, result, b) \<in> set cs. \<forall>q. map_of (rt_inflight ?t) u = Some q \<longrightarrow> length b = PAGE_SIZE \<and> (result = int PAGE_SIZE \<longrightarrow> delivers (rr_raw_fd q) (rr_location q) b)"
        using C(5) o by (fastforce simp: sqe_of_def)
      obtain t1 where t1: "process_completions cs ?t = (None, t1)" "answers_ok delivers t1" "distinct (map fst (rt_inflight t1))"
        "map_of (rt_inflight t1) = map_of (rt_inflight t) |` (- fst ` set cs)" "rt_ring t1 = r2" "rt_leaked t1 = []" "rt_pending t1 = rt_pending t"
        "rt_shutting_down t1 = rt_shutting_down t" "thread_requests t1 = thread_requests ?t" "length (rt_inflight t1) + length cs = length (rt_inflight t)"
        using process_completions_ok[OF C(2) _ s _ d] i(3-5) by (auto simp: answers_ok_def)
      have "x = Goes_on" "t' = t1" using w y z Inr c False t1(1) by (simp_all add: wait_and_complete_def)
      moreover have "length (rt_inflight t1) < length (rt_inflight t)" using t1(10) False by (cases cs) simp_all
      ultimately show ?thesis using t1 C(1,4) o False by (auto simp: round_ok_def thread_inv_def thread_requests_def restrict_map_def)
    qed
  qed
qed

lemma completion_round_ok:
  assumes R: "ring_contract R ok out delivers" and inv: "thread_inv ok out delivers t" and r: "completion_round R fuel alive cs t = Some (x, t')"
  shows "round_ok ok out delivers x t' \<and> thread_requests t' = thread_requests t + mset (channel_reads cs)"
proof -
  obtain t1 where t1: "thread_inv ok out delivers t1" "thread_requests t1 = thread_requests t + mset (channel_reads cs)"
    "(case submit_pending R (rt_pending t1) t1 of None \<Rightarrow> None | Some t2 \<Rightarrow>
       if rt_inflight t2 = [] then Some (if rt_shutting_down t2 \<and> rt_pending t2 = [] then Leaves None else Goes_on, t2) else wait_and_complete R fuel t2)
     = Some (x, t')"
  proof -
    let ?t1 = "if rt_pending t = [] \<and> rt_inflight t = [] \<and> \<not> rt_shutting_down t
       then (case cs of [] \<Rightarrow> drain_commands alive [] (t\<lparr>rt_shutting_down := True\<rparr>) | c # rest \<Rightarrow> drain_commands alive rest (receive_command c t))
       else drain_commands alive cs t"
    have s: "thread_inv ok out delivers (t\<lparr>rt_shutting_down := True\<rparr>)" "thread_requests (t\<lparr>rt_shutting_down := True\<rparr>) = thread_requests t"
      using inv by (simp_all add: thread_inv_def answers_ok_def thread_requests_def)
    have "mset (channel_reads [c]) + mset (channel_reads rest) = mset (channel_reads (c # rest))" for c rest by (cases c) simp_all
    then have "thread_inv ok out delivers ?t1 \<and> thread_requests ?t1 = thread_requests t + mset (channel_reads cs)"
      using drain_commands_ok(1)[OF inv] drain_commands_ok(1)[OF s(1)] drain_commands_ok(1)[OF receive_command_ok(1)[OF inv]] s
      by (simp add: drain_commands_ok(2) receive_command_ok(2) add.assoc split: list.split)
    then show ?thesis using that[of ?t1] r by (auto simp: completion_round_def Let_def split: if_splits)
  qed
  obtain t2 where t2: "submit_pending R (rt_pending t1) t1 = Some t2" using t1(3) by (auto split: option.splits)
  have S: "thread_inv ok out delivers t2" "thread_requests t2 = thread_requests t1" using submit_pending_ok[OF R t1(1) t2] by simp_all
  show ?thesis
  proof (cases "rt_inflight t2 = []")
    case True
    then show ?thesis using t1(2,3) t2 S by (auto simp: round_ok_def split: if_splits)
  next
    case False
    then have "wait_and_complete R fuel t2 = Some (x, t')" using t1(3) t2 by simp
    from wait_and_complete_ok[OF R S(1) this] show ?thesis using t1(2) S(2) by simp
  qed
qed

section \<open>Every run\<close>

definition engine_inv :: "('r \<Rightarrow> bool) \<Rightarrow> ('r \<Rightarrow> u64 \<Rightarrow> sqe option) \<Rightarrow> (int \<Rightarrow> nat \<Rightarrow> page \<Rightarrow> bool) \<Rightarrow> read_request list \<Rightarrow> 'r native_engine \<Rightarrow> bool" where
  "engine_inv ok out delivers qs s \<longleftrightarrow>
     mset qs = thread_requests (ne_thread s) + mset (channel_reads (ne_channel s)) + mset (ne_dropped s) \<and> answers_ok delivers (ne_thread s)
     \<and> (if ne_running s then thread_inv ok out delivers (ne_thread s) \<and> ne_dropped s = []
        else rt_pending (ne_thread s) = [] \<and> rt_inflight (ne_thread s) = [] \<and> ne_channel s = []
          \<and> (\<forall>u e. out (rt_ring (ne_thread s)) u = Some e \<longrightarrow> (\<exists>q. (u, q) \<in> set (rt_leaked (ne_thread s)) \<and> e = sqe_of u q)))"

lemma fail_all_ok:
  assumes "thread_inv ok out delivers t"
  shows "thread_requests (fail_all e t) = thread_requests t" "answers_ok delivers (fail_all e t)"
    "out (rt_ring (fail_all e t)) u = Some x \<Longrightarrow> \<exists>q. (u, q) \<in> set (rt_leaked (fail_all e t)) \<and> x = sqe_of u q"
  using assms by (auto simp: fail_all_def thread_requests_def thread_inv_def answers_ok_def comp_def case_prod_unfold dest: map_of_SomeD)

lemma run_completion_thread_ok:
  assumes R: "ring_contract R ok out delivers" and inv: "engine_inv ok out delivers qs s" and r: "run_completion_thread R fuel s = (oOk b, s')"
  shows "engine_inv ok out delivers qs s'"
proof (cases "ne_running s")
  case False
  then show ?thesis using inv r by (simp add: run_completion_thread_def)
next
  case True
  then have t: "thread_inv ok out delivers (ne_thread s)" "ne_dropped s = []" "mset qs = thread_requests (ne_thread s) + mset (channel_reads (ne_channel s))"
    using inv by (simp_all add: engine_inv_def)
  obtain x t' where x: "completion_round R fuel (ne_connected s) (ne_channel s) (ne_thread s) = Some (x, t')"
    using r True by (auto simp: run_completion_thread_def split: option.splits)
  note C = completion_round_ok[OF R t(1) x]
  have i: "thread_inv ok out delivers t'" "thread_requests t' = mset qs" "answers_ok delivers t'" using C t(3) by (simp_all add: round_ok_def thread_inv_def)
  show ?thesis
  proof (cases x)
    case Goes_on
    then show ?thesis using r True x i t(2) by (auto simp: run_completion_thread_def engine_inv_def)
  next
    case (Leaves fatal)
    have s': "s' = thread_exit fatal (s\<lparr>ne_thread := t', ne_channel := []\<rparr>)" using r True x Leaves by (simp add: run_completion_thread_def)
    show ?thesis
    proof (cases fatal)
      case None
      then have "rt_pending t' = []" "rt_inflight t' = []" using C Leaves by (simp_all add: round_ok_def)
      then show ?thesis using i t(2) None by (auto simp: s' thread_exit_def engine_inv_def thread_inv_def)
    next
      case (Some e)
      then show ?thesis using i t(2) fail_all_ok[OF i(1), of e] by (auto simp: s' thread_exit_def engine_inv_def) (simp_all add: fail_all_def)
    qed
  qed
qed

lemma uring_run_inv:
  assumes R: "ring_contract R ok out delivers" and s0: "s0 = native_engine_new r n" "ok r" "out r = Map.empty" and run: "uring_run R s0 qs s"
  shows "engine_inv ok out delivers qs s"
  using run
proof (induction rule: uring_run.induct)
  case uring_init
  then show ?case using s0 by (simp add: native_engine_new_def engine_inv_def thread_inv_def answers_ok_def thread_requests_def)
next
  case (uring_accept qs s fd l n c q s')
  then have "validate_read fd l n = Inr ()" by (cases "validate_read fd l n") (simp_all add: uring_read_submit_def op_seq_def op_bind_def op_fail_def)
  then show ?case using uring_accept by (auto simp: uring_read_submit_def native_read_submit_def op_seq_def op_bind_def op_return_def engine_inv_def Let_def split: if_splits)
next
  case (uring_round qs s fuel b s')
  then show ?case using run_completion_thread_ok[OF R] by blast
next
  case (uring_stop qs s b s')
  then show ?case by (auto simp: native_shutdown_begin_def engine_inv_def)
next
  case (uring_send qs s b x s')
  then show ?case by (auto simp: native_shutdown_send_def engine_inv_def split: if_splits)
qed

section \<open>Draining\<close>

text \<open>Pushing makes no progress only when the queue is full, and then something is in flight.\<close>

lemma submit_pending_serves:
  assumes R: "ring_contract R ok out delivers" "ring_serves R ok out" and "thread_inv ok out delivers t" "length (rt_inflight t) + length qs < 2 ^ 64 - 1"
  shows "\<exists>t'. submit_pending R qs t = Some t' \<and> (rt_inflight t' = [] \<longrightarrow> qs = [] \<and> rt_inflight t = []) \<and> length (rt_inflight t') + length (rt_pending t') \<le> length (rt_inflight t) + length qs"
  using assms(3,4)
proof (induction qs arbitrary: t)
  case Nil
  then show ?case by simp
next
  case (Cons q qs t)
  have i: "ok (rt_ring t)" "\<And>u. out (rt_ring t) u = map_option (sqe_of u) (map_of (rt_inflight t) u)" using Cons.prems(1) by (simp_all add: thread_inv_def)
  have "\<exists>v. v \<noteq> 0 \<and> v \<notin> fst ` set (rt_inflight t)"
  proof (rule ccontr)
    assume "\<not> ?thesis"
    then have "UNIV - {0} \<subseteq> fst ` set (rt_inflight t)" by auto
    then have "card (UNIV - {0 :: u64}) \<le> length (rt_inflight t)" by (meson List.finite_set card_image_le card_length card_mono finite_imageI le_trans)
    then show False using Cons.prems(2) by (simp add: card_word)
  qed
  then obtain u n where a: "allocate_user_data (rt_next_user_data t) (rt_inflight t) = Some (u, n)" using allocate_user_data_finds by (metis surj_pair)
  obtain x r' where p: "push_read R (rr_raw_fd q) (rr_location q) u (rt_ring t) = (x, r')" by fastforce
  have u: "u \<notin> fst ` set (rt_inflight t)" using allocate_user_data_fresh[OF a] by simp
  then have o: "u \<notin> dom (out (rt_ring t))" using i(2) by (simp add: dom_def map_of_eq_None_iff)
  note P = push_read_ok[OF R(1) i(1) o p]
  show ?case
  proof (cases x)
    case (Inr y)
    let ?in = "t\<lparr>rt_next_user_data := n, rt_inflight := (u, q) # rt_inflight t, rt_ring := r'\<rparr>"
    have "thread_inv ok out delivers ?in" using Cons.prems(1) P u Inr by (simp add: thread_inv_def answers_ok_def sqe_of_def)
    then have "\<exists>t'. submit_pending R qs ?in = Some t' \<and> rt_inflight t' \<noteq> [] \<and> length (rt_inflight t') + length (rt_pending t') \<le> Suc (length (rt_inflight t)) + length qs"
      using Cons.IH[of ?in] Cons.prems(2) by auto
    then show ?thesis using a p Inr by auto
  next
    case (Inl e)
    have e: "io_kind_of e = WouldBlock" and b: "\<not> fst (ro_push R \<lparr>sqe_fd = rr_raw_fd q, sqe_offset = rr_location q, sqe_user_data = u\<rparr> (rt_ring t))"
      using p Inl by (auto simp: push_read_def split: prod.splits if_splits)
    have "rt_inflight t \<noteq> []"
    proof
      assume "rt_inflight t = []"
      then have "out (rt_ring t) = Map.empty" using i(2) by (simp add: fun_eq_iff)
      then show False using R(2) i(1) b by (simp add: ring_serves_def)
    qed
    then show ?thesis using a p Inl e by (simp add: Let_def)
  qed
qed

lemma wait_and_complete_serves:
  assumes R: "ring_contract R ok out delivers" "ring_serves R ok out" and inv: "thread_inv ok out delivers t" and ne: "rt_inflight t \<noteq> []"
  shows "\<exists>t'. wait_and_complete R (Suc fuel) t = Some (Goes_on, t')"
proof -
  have i: "ok (rt_ring t)" "\<And>u. out (rt_ring t) u = map_option (sqe_of u) (map_of (rt_inflight t) u)" "distinct (map fst (rt_inflight t))" "answers_ok delivers t"
    using inv by (simp_all add: thread_inv_def)
  obtain u q where "map_of (rt_inflight t) u = Some q" using ne by (metis list.exhaust map_of_Cons_code(2) surj_pair)
  then have "out (rt_ring t) \<noteq> Map.empty" using i(2)[of u] by auto
  then obtain n r1 c cs r2 where w: "ro_submit_and_wait R 1 (rt_ring t) = (Inr n, r1)" "ro_completion R r1 = (c # cs, r2)"
    using R(2) i(1) unfolding ring_serves_def by blast
  then obtain x t' where "wait_and_complete R (Suc fuel) t = Some (x, t')"
    by (cases "process_completions (c # cs) (t\<lparr>rt_ring := r2\<rparr>)"; cases "fst (process_completions (c # cs) (t\<lparr>rt_ring := r2\<rparr>))") (auto simp: wait_and_complete_def)
  moreover have "wait_completion R (Suc fuel) (rt_ring t) = (Some (Inr n), r1)" using w(1) by simp
  then have "x = Goes_on" using wait_and_complete_ok[OF R(1) inv calculation] w(2) by auto
  ultimately show ?thesis by blast
qed

lemma drain_commands_size:
  "rt_inflight (drain_commands alive cs t) = rt_inflight t" "length (rt_pending (drain_commands alive cs t)) \<le> length (rt_pending t) + length (channel_reads cs)"
  "rt_shutting_down (drain_commands alive cs t) \<longleftrightarrow> rt_shutting_down t \<or> UringShutdown \<in> set cs \<or> \<not> alive"
  by (induction alive cs t rule: drain_commands.induct) auto

text \<open>A round of a thread that is told to stop ends it or takes a request out of it.\<close>

lemma round_drains:
  assumes R: "ring_contract R ok out delivers" "ring_serves R ok out" and inv: "thread_inv ok out delivers t"
    and stop: "rt_shutting_down t \<or> UringShutdown \<in> set cs" and size: "length (rt_pending t) + length (rt_inflight t) + length (channel_reads cs) < 2 ^ 64 - 1"
  shows "\<exists>x t'. completion_round R (Suc fuel) alive cs t = Some (x, t') \<and> (x = Leaves None \<or> x = Goes_on \<and> rt_shutting_down t'
     \<and> length (rt_pending t') + length (rt_inflight t') < length (rt_pending t) + length (rt_inflight t) + length (channel_reads cs))"
proof -
  define t1 where "t1 = (if rt_pending t = [] \<and> rt_inflight t = [] \<and> \<not> rt_shutting_down t
       then (case cs of [] \<Rightarrow> drain_commands alive [] (t\<lparr>rt_shutting_down := True\<rparr>) | c # rest \<Rightarrow> drain_commands alive rest (receive_command c t))
       else drain_commands alive cs t)"
  have c: "channel_reads [c] = channel_reads [c]" "rt_shutting_down (receive_command c t) \<longleftrightarrow> rt_shutting_down t \<or> c = UringShutdown"
    "rt_inflight (receive_command c t) = rt_inflight t" "length (rt_pending (receive_command c t)) + length (channel_reads rest) = length (rt_pending t) + length (channel_reads (c # rest))" for c rest
    by (cases c; simp)+
  have 1: "thread_inv ok out delivers t1"
    using drain_commands_ok(1)[OF inv] drain_commands_ok(1)[OF receive_command_ok(1)[OF inv]] stop by (auto simp: t1_def split: list.split)
  have 2: "rt_shutting_down t1" "rt_inflight t1 = rt_inflight t" "length (rt_pending t1) \<le> length (rt_pending t) + length (channel_reads cs)"
    using stop drain_commands_size[of alive _ "receive_command _ t"] drain_commands_size[of alive cs t] c(2-4)
    by (auto simp: t1_def drain_commands_size split: list.split)
  obtain t2 where t2: "submit_pending R (rt_pending t1) t1 = Some t2" "rt_inflight t2 = [] \<longrightarrow> rt_pending t1 = [] \<and> rt_inflight t1 = []"
    "length (rt_inflight t2) + length (rt_pending t2) \<le> length (rt_inflight t1) + length (rt_pending t1)"
    using submit_pending_serves[OF R 1, of "rt_pending t1"] 2 size by auto
  have S: "thread_inv ok out delivers t2" "rt_shutting_down t2" using submit_pending_ok[OF R(1) 1 t2(1)] 2(1) by simp_all
  have run: "completion_round R (Suc fuel) alive cs t = (if rt_inflight t2 = [] then Some (if rt_shutting_down t2 \<and> rt_pending t2 = [] then Leaves None else Goes_on, t2) else wait_and_complete R (Suc fuel) t2)"
    using stop t2(1) unfolding completion_round_def t1_def[symmetric] by (auto simp: Let_def)
  show ?thesis
  proof (cases "rt_inflight t2 = []")
    case True
    then have "rt_pending t2 = []" using t2 by auto
    then show ?thesis using True run S(2) by simp
  next
    case False
    obtain t' where t': "wait_and_complete R (Suc fuel) t2 = Some (Goes_on, t')" using wait_and_complete_serves[OF R S(1) False] by blast
    from wait_and_complete_ok[OF R(1) S(1) this] have "rt_shutting_down t'" "rt_pending t' = rt_pending t2" "length (rt_inflight t') < length (rt_inflight t2)" using S(2) by simp_all
    then show ?thesis using run False t' t2(3) 2(2,3) by simp
  qed
qed

fun thread_rounds :: "'r ring_ops \<Rightarrow> nat \<Rightarrow> 'r native_engine \<Rightarrow> 'r native_engine" where
  "thread_rounds R 0 s = s"
| "thread_rounds R (Suc k) s = thread_rounds R k (snd (run_completion_thread R 1 s))"

lemma rounds_stop:
  assumes R: "ring_contract R ok out delivers" "ring_serves R ok out" and "engine_inv ok out delivers qs s" "length qs < 2 ^ 64 - 1"
    "ne_running s \<Longrightarrow> rt_shutting_down (ne_thread s) \<or> UringShutdown \<in> set (ne_channel s)"
    "length (rt_pending (ne_thread s)) + length (rt_inflight (ne_thread s)) + length (channel_reads (ne_channel s)) < k \<or> \<not> ne_running s"
  shows "\<not> ne_running (thread_rounds R k s) \<and> engine_inv ok out delivers qs (thread_rounds R k s)"
  using assms(3-6)
proof (induction k arbitrary: s)
  case 0
  then show ?case by simp
next
  case (Suc k)
  show ?case
  proof (cases "ne_running s")
    case False
    then show ?thesis using Suc.IH[of s] Suc.prems by (simp add: run_completion_thread_def)
  next
    case True
    let ?t = "ne_thread s"
    have inv: "thread_inv ok out delivers ?t" "mset qs = thread_requests ?t + mset (channel_reads (ne_channel s))"
      using Suc.prems(1) True by (simp_all add: engine_inv_def)
    have sz: "length (rt_pending ?t) + length (rt_inflight ?t) + length (channel_reads (ne_channel s)) \<le> length qs"
      using arg_cong[OF inv(2), of size] by (simp add: thread_requests_def)
    obtain x t' where x: "completion_round R 1 (ne_connected s) (ne_channel s) ?t = Some (x, t')"
      "x = Leaves None \<or> x = Goes_on \<and> rt_shutting_down t' \<and> length (rt_pending t') + length (rt_inflight t') < length (rt_pending ?t) + length (rt_inflight ?t) + length (channel_reads (ne_channel s))"
      using round_drains[OF R inv(1) Suc.prems(3)[OF True], of 0 "ne_connected s"] sz Suc.prems(2) by auto
    let ?s = "snd (run_completion_thread R 1 s)"
    have b: "run_completion_thread R 1 s = (oOk (x = Goes_on), ?s)" using x True by (auto simp: run_completion_thread_def)
    have e: "engine_inv ok out delivers qs ?s" by (rule run_completion_thread_ok[OF R(1) Suc.prems(1) b])
    have "(x = Goes_on \<longrightarrow> ne_thread ?s = t' \<and> ne_channel ?s = []) \<and> (x = Leaves None \<longrightarrow> \<not> ne_running ?s)"
      using x(1) True by (simp add: run_completion_thread_def thread_exit_def)
    then show ?thesis using Suc.IH[OF e Suc.prems(2)] x(2) Suc.prems(4) True by auto
  qed
qed

section \<open>A small ring\<close>

text \<open>A ring of two entries over descriptors that read as zeros.\<close>

definition distinct_sqes :: "sqe list \<Rightarrow> bool" where
  "distinct_sqes r \<longleftrightarrow> distinct (map sqe_user_data r)"

definition sqes_out :: "sqe list \<Rightarrow> u64 \<Rightarrow> sqe option" where
  "sqes_out r = map_of (map (\<lambda>e. (sqe_user_data e, e)) r)"

definition demo_ring :: "sqe list ring_ops" where
  "demo_ring = \<lparr>ro_push = (\<lambda>e r. if length r < 2 then (True, r @ [e]) else (False, r)), ro_submit_and_wait = (\<lambda>n r. (Inr (length r), r)),
     ro_completion = (\<lambda>r. (map (\<lambda>e. (sqe_user_data e, int PAGE_SIZE, boxed_zeroed)) r, []))\<rparr>"

lemma sqes_out_snoc: "sqe_user_data e \<notin> dom (sqes_out r) \<Longrightarrow> sqes_out (r @ [e]) = (sqes_out r)(sqe_user_data e \<mapsto> e)"
  by (auto simp: sqes_out_def fun_eq_iff map_add_def split: option.splits)

lemma dom_sqes_out: "dom (sqes_out r) = sqe_user_data ` set r"
  by (simp add: sqes_out_def dom_map_of_conv_image_fst image_image)

lemma demo_contract: "ring_contract demo_ring distinct_sqes sqes_out (\<lambda>fd l p. p = boxed_zeroed)"
proof -
  have "sqes_out r |` (- sqe_user_data ` set r) = Map.empty" for r
    using dom_sqes_out[of r] by (auto simp: restrict_map_def fun_eq_iff dom_def)
  then show ?thesis
    by (auto simp: ring_contract_def demo_ring_def sqes_out_snoc distinct_sqes_def dom_sqes_out boxed_zeroed_def comp_def image_image sqes_out_def[of "[]"]
        split: if_splits)
qed

lemma demo_serves: "ring_serves demo_ring distinct_sqes sqes_out"
  unfolding ring_serves_def
proof (intro conjI allI impI)
  fix r e assume "sqes_out r = Map.empty"
  then have "r = []" using dom_sqes_out[of r] by simp
  then show "fst (ro_push demo_ring e r)" by (simp add: demo_ring_def)
next
  fix r assume "sqes_out r \<noteq> Map.empty"
  then obtain e es where "r = e # es" by (cases r) (auto simp: sqes_out_def)
  then show "\<exists>n r' c cs r''. ro_submit_and_wait demo_ring 1 r = (Inr n, r') \<and> ro_completion demo_ring r' = (c # cs, r'')" by (simp add: demo_ring_def)
qed

lemma demo_accept:
  obtains q s where "uring_run demo_ring (native_engine_new [] 4) [q] s" "ne_running s" "UringShutdown \<in> set (ne_channel s)"
proof -
  let ?s0 = "native_engine_new [] 4 :: sqe list native_engine"
  obtain q s1 where 1: "uring_read_submit 3 0 PAGE_SIZE 7 ?s0 = (oOk q, s1)" "s1 = ?s0\<lparr>ne_channel := [UringRead q]\<rparr>"
    by (simp add: uring_read_submit_def validate_read_def checked_add_u64_def op_seq_def op_bind_def op_return_def native_read_submit_def native_engine_new_def PAGE_SIZE_def Let_def)
  obtain b s2 where 2: "native_shutdown_begin s1 = (oOk b, s2)" "b" "s2 = s1\<lparr>ne_stopping := True\<rparr>" by (simp add: native_shutdown_begin_def 1(2) native_engine_new_def)
  obtain s3 where 3: "native_shutdown_send b s2 = (oOk None, s3)" "s3 = s2\<lparr>ne_channel := [UringRead q, UringShutdown]\<rparr>"
    by (simp add: native_shutdown_send_def 2 1(2) native_engine_new_def)
  have "uring_run demo_ring ?s0 [q] s3" using uring_send[OF uring_stop[OF uring_accept[OF uring_init 1(1)] 2(1)] 3(1)] .
  then show ?thesis using that 3(2) 2(3) 1(2) by (simp add: native_engine_new_def)
qed

section \<open>Properties\<close>

text \<open>
  C22. The io_uring engine under every sequence of accepted reads, rounds of its thread and shutdowns, over
  a ring that keeps its contract: the accepted requests are exactly those waiting, in flight, answered or
  dropped with the channel, each once; a read is answered with a page only if the kernel delivered that full page
  for its descriptor and offset; every buffer the kernel may still write is owned by the thread or leaked; and once the
  thread has ended every request has been answered or dropped.
\<close>

theorem uring_answers_once:
  assumes "ring_contract R ok out delivers" "ok r" "out r = Map.empty" "uring_run R (native_engine_new r n) qs s"
  shows "mset qs = mset (rt_pending (ne_thread s)) + mset (map snd (rt_inflight (ne_thread s))) + mset (channel_reads (ne_channel s))
        + mset (map fst (rt_replies (ne_thread s))) + mset (ne_dropped s)
    \<and> (\<forall>q p. (q, Inr p) \<in> set (rt_replies (ne_thread s)) \<longrightarrow> length p = PAGE_SIZE \<and> delivers (rr_raw_fd q) (rr_location q) p)
    \<and> (\<forall>u e. out (rt_ring (ne_thread s)) u = Some e \<longrightarrow> (\<exists>q. (u, q) \<in> set (rt_inflight (ne_thread s)) \<union> set (rt_leaked (ne_thread s)) \<and> e = sqe_of u q))
    \<and> (\<not> ne_running s \<longrightarrow> mset qs = mset (map fst (rt_replies (ne_thread s))) + mset (ne_dropped s))"
proof -
  have e: "engine_inv ok out delivers qs s" by (rule uring_run_inv[OF assms(1) refl assms(2-4)])
  have "\<exists>q. (u, q) \<in> set (rt_inflight (ne_thread s)) \<union> set (rt_leaked (ne_thread s)) \<and> x = sqe_of u q" if "out (rt_ring (ne_thread s)) u = Some x" for u x
    using e that by (cases "ne_running s") (auto simp: engine_inv_def thread_inv_def dest: map_of_SomeD)
  then show ?thesis using e by (auto simp: engine_inv_def answers_ok_def thread_requests_def)
qed

theorem uring_answers_once_witness:
  "\<exists>q s. uring_run demo_ring (native_engine_new [] 4) [q] s \<and> ne_running s
     \<and> mset [q] = mset (rt_pending (ne_thread s)) + mset (map snd (rt_inflight (ne_thread s))) + mset (channel_reads (ne_channel s))
        + mset (map fst (rt_replies (ne_thread s))) + mset (ne_dropped s)"
proof -
  obtain q s where d: "uring_run demo_ring (native_engine_new [] 4) [q] s" "ne_running s" using demo_accept by metis
  show ?thesis using uring_answers_once[OF demo_contract _ _ d(1)] d by (auto simp: distinct_sqes_def sqes_out_def)
qed

text \<open>
  C23. Shutdown of the engine: once the shutdown command is in the channel, or the thread has seen it, a
  ring that makes progress lets the thread end after at most one round more than requests were accepted,
  so the join returns; every accepted request then has an answer or a closed channel, none is waiting.
\<close>

theorem uring_shutdown_drains:
  assumes "ring_contract R ok out delivers" "ring_serves R ok out" "ok r" "out r = Map.empty" "uring_run R (native_engine_new r n) qs s"
    "rt_shutting_down (ne_thread s) \<or> UringShutdown \<in> set (ne_channel s)" "length qs < 2 ^ 64 - 1"
  shows "native_shutdown_join None (thread_rounds R (length qs + 1) s) = (oOk (), thread_rounds R (length qs + 1) s)
    \<and> mset qs = mset (map fst (rt_replies (ne_thread (thread_rounds R (length qs + 1) s)))) + mset (ne_dropped (thread_rounds R (length qs + 1) s))"
proof -
  have e: "engine_inv ok out delivers qs s" by (rule uring_run_inv[OF assms(1) refl assms(3-5)])
  have "length (rt_pending (ne_thread s)) + length (rt_inflight (ne_thread s)) + length (channel_reads (ne_channel s)) < length qs + 1 \<or> \<not> ne_running s"
  proof -
    have "mset qs = thread_requests (ne_thread s) + mset (channel_reads (ne_channel s)) + mset (ne_dropped s)" using e by (simp add: engine_inv_def)
    from arg_cong[OF this, of size] show ?thesis by (simp add: thread_requests_def)
  qed
  from rounds_stop[OF assms(1,2) e assms(7) assms(6) this] show ?thesis by (simp add: native_shutdown_join_def engine_inv_def thread_requests_def)
qed

theorem uring_shutdown_drains_witness:
  "\<exists>q s. uring_run demo_ring (native_engine_new [] 4) [q] s \<and> UringShutdown \<in> set (ne_channel s)
     \<and> native_shutdown_join None (thread_rounds demo_ring 2 s) = (oOk (), thread_rounds demo_ring 2 s)"
proof -
  obtain q s where d: "uring_run demo_ring (native_engine_new [] 4) [q] s" "UringShutdown \<in> set (ne_channel s)" using demo_accept by metis
  have "distinct_sqes []" "sqes_out [] = Map.empty" "length [q] < 2 ^ 64 - 1" by (simp_all add: distinct_sqes_def sqes_out_def)
  from uring_shutdown_drains[OF demo_contract demo_serves this(1,2) d(1) disjI2[OF d(2)] this(3)] d show ?thesis by (auto simp: numeral_2_eq_2)
qed

end
