(* ===== verification/Pool_Interleaving.thy ===== *)
theory Pool_Interleaving
  imports Buffer_Pool
begin

text \<open>
  The residency protocol of src/crates/tierbuf/src/pool.rs at the granularity of its shared accesses.
  Any number of activities (a fix up to the drop of its guard, a fault, a prefetch task, an allocation, the eviction
  of a ticket) run at once; every rule of \<open>act\<close> is one atomic access or one section that a reservation and
  a latch protect, and the rules of different activities interleave in any order.  What the other
  theories show for one operation at a time is shown here for all interleavings.

  \<^item> Pins, reservations and latches are the words of the frame, changed by the operations of \<open>Frame_Meta\<close>.
  \<^item> A page, its identifier and the address of its handle correspond one to one, so the handle of page
    \<open>p\<close> is named \<open>unat p\<close>; the word of a handle is given decoded, with frame indices for the
    addresses (\<open>Swip\<close>, \<open>Frame_Table\<close>).
  \<^item> The free queue hands out any free index (\<open>Free_List\<close>), and a fault has one leader (\<open>Fault_Coordinator\<close>).
  \<^item> Looks that no reservation protects, and whose outcome only decides what is tried next (the first
    check of a ticket, the sampling of the cooler), may see anything: their outcome is left open.
  \<^item> An eviction that \<open>acquire_frame\<close> runs on behalf of a fault or an allocation is an activity of its own.
\<close>

section \<open>Shared memory\<close>

datatype place = InHot nat | InCooling nat | InTier

fun place_at :: "place \<Rightarrow> nat option" where
  "place_at (InHot i) = Some i"
| "place_at (InCooling i) = Some i"
| "place_at InTier = None"

record pool_memory =
  sh_frame :: "nat \<Rightarrow> frame"
  sh_data :: "nat \<Rightarrow> page"
  sh_swip :: "page_id \<Rightarrow> place"
  sh_dir :: "page_id \<Rightarrow> location option"
  sh_store :: "location \<Rightarrow> page option"
  sh_free :: "nat set"
  sh_leaders :: "page_id set"
  sh_known :: "page_id set"
  sh_pages :: "page_id set"

definition zeros :: page where
  "zeros = replicate PAGE_SIZE 0"

definition memory_new :: "nat \<Rightarrow> pool_memory" where
  "memory_new n = \<lparr>sh_frame = (\<lambda>_. frame_new), sh_data = (\<lambda>_. zeros), sh_swip = (\<lambda>_. InTier), sh_dir = (\<lambda>_. None),
     sh_store = (\<lambda>_. None), sh_free = {..<n}, sh_leaders = {}, sh_known = {}, sh_pages = {}\<rparr>"

abbreviation frame_to :: "nat \<Rightarrow> frame \<Rightarrow> pool_memory \<Rightarrow> pool_memory" where
  "frame_to i f s \<equiv> s\<lparr>sh_frame := (sh_frame s)(i := f)\<rparr>"

abbreviation place_to :: "page_id \<Rightarrow> place \<Rightarrow> pool_memory \<Rightarrow> pool_memory" where
  "place_to p v s \<equiv> s\<lparr>sh_swip := (sh_swip s)(p := v)\<rparr>"

text \<open>\<open>try_resurrect\<close>, \<open>resident_is_exact\<close> and the second \<open>exact_cooling_owner\<close>, whose loads of the
  page identifier, the owner and the generation see fields that the pin or the reservation keeps.\<close>

definition resurrect :: "page_id \<Rightarrow> nat \<Rightarrow> pool_memory \<Rightarrow> pool_memory" where
  "resurrect p i s = (if sh_swip s p = InCooling i then place_to p (InHot i) s else s)"

definition resident_exact :: "pool_memory \<Rightarrow> page_id \<Rightarrow> nat \<Rightarrow> bool" where
  "resident_exact s p i \<longleftrightarrow> place_at (sh_swip s p) = Some i \<and> fr_owner_swip (sh_frame s i) = Some (unat p) \<and> fr_pid (sh_frame s i) = p"

definition same_occupant :: "pool_memory \<Rightarrow> nat \<Rightarrow> page_id \<Rightarrow> u32 \<Rightarrow> bool" where
  "same_occupant s i p g \<longleftrightarrow> fr_pid (sh_frame s i) = p \<and> fr_generation (sh_frame s i) = g \<and> fr_owner_swip (sh_frame s i) = Some (unat p)"

definition ticket_exact :: "pool_memory \<Rightarrow> nat \<Rightarrow> page_id \<Rightarrow> u32 \<Rightarrow> bool" where
  "ticket_exact s i p g \<longleftrightarrow> same_occupant s i p g \<and> sh_swip s p = InCooling i \<and> p \<in> sh_pages s"

definition take_latch :: "bool \<Rightarrow> (frame, unit) operation" where
  "take_latch exclusive = (if exclusive then frame_lock_exclusive else frame_lock_shared)"

definition drop_latch :: "bool \<Rightarrow> (frame, unit) operation" where
  "drop_latch exclusive = (if exclusive then frame_drop_exclusive else frame_drop_shared)"

text \<open>A write of a frame that is not published: the exclusive latch around it.\<close>

definition latched_write :: "frame \<Rightarrow> frame \<Rightarrow> bool" where
  "latched_write f f' \<longleftrightarrow> (\<exists>g. frame_lock_exclusive f = (oOk (), g) \<and> frame_drop_exclusive g = (oOk (), f'))"

section \<open>Where an activity stands\<close>

text \<open>Who runs a fault: a fix, a prefetch task with its frame, or one whose frame has been used.\<close>

datatype caller = Fixer bool | Prefetcher nat | Prefetched

datatype fix_pc =
  Look bool page_id | Pin bool page_id nat | Latch bool page_id nat | Exact bool page_id nat | Wake bool page_id nat
| Guard bool page_id nat | Write page_id nat | Unlatch bool page_id nat | Unpin bool page_id nat | Leave bool nat

datatype fault_pc =
  Prefetch nat page_id | Enter caller page_id | Load caller page_id | Lookup caller page_id
| Acquire bool page_id location | Claim bool page_id location nat | Fill caller page_id location nat
| Install caller page_id nat | Publish caller page_id nat | Swizzle caller page_id nat | Settle caller page_id nat | Finish caller page_id bool

text \<open>A checkout that is given back; the flag says whether a fault of the page is still to be finished.\<close>

datatype undo_pc =
  Undo bool page_id nat | UndoClaim bool page_id nat | UndoClear bool page_id nat | Release bool page_id nat | Push bool page_id nat

text \<open>An eviction: the frame and the page of its ticket; the old and the new location; whether the frame was dirty.\<close>

datatype evict_pc =
  Evict nat page_id u32 | EvLatch nat page_id u32 | EvCheck nat page_id u32 | EvBack nat page_id
| EvWrite nat page_id "location option" bool | EvInsert nat page_id "location option" location bool
| EvClean nat page_id "location option" "location option" bool | EvUnswizzle nat page_id "location option" "location option" bool
| EvRestore nat page_id "location option" "location option" bool | EvResurrect nat page_id | EvGiveUp nat | EvGiveUpRelease nat

datatype evicted_pc =
  EvUnlatch nat "location option" | EvClear nat "location option" | EvRelease nat "location option" | EvPush nat "location option" | EvFree location

datatype alloc_pc =
  AClaim nat | APid nat | AFill nat page_id | AInstall nat page_id | ADirty nat page_id | APublish nat page_id
| ASwizzle nat page_id | ALatch nat page_id | AInsert nat page_id

datatype pc =
  Idle | Fixing fix_pc | Faulting fault_pc | Returning undo_pc | Evicting evict_pc | Clearing evicted_pc | Allocating alloc_pc

text \<open>What a client sees of a step.\<close>

datatype action =
  Silent | GotGuard nat bool page_id | ReadPage nat page_id page | WrotePage nat page_id page
| DroppedGuard nat bool page_id | NewPage nat page_id

section \<open>The steps\<close>

text \<open>A fix, the use and the drop of its guard; last, the marking of a page as cooling, by a fix or by the cooler.\<close>

inductive fix_step :: "nat \<Rightarrow> pc \<Rightarrow> pool_memory \<Rightarrow> action \<Rightarrow> pc \<Rightarrow> pool_memory \<Rightarrow> bool" where
  start_fix: "p \<in> sh_pages s \<Longrightarrow> fix_step t Idle s Silent (Fixing (Look x p)) s"
| look_resident: "place_at (sh_swip s p) = Some i \<Longrightarrow> fix_step t (Fixing (Look x p)) s Silent (Fixing (Pin x p i)) s"
| look_evicted: "sh_swip s p = InTier \<Longrightarrow> fix_step t (Fixing (Look x p)) s Silent (Faulting (Enter (Fixer x) p)) s"
| look_stops: "fix_step t (Fixing (Look x p)) s Silent Idle s"
| pin_taken: "frame_try_pin (sh_frame s i) = (True, f) \<Longrightarrow> fix_step t (Fixing (Pin x p i)) s Silent (Fixing (Latch x p i)) (frame_to i f s)"
| pin_refused: "fst (frame_try_pin (sh_frame s i)) = False \<Longrightarrow> fix_step t (Fixing (Pin x p i)) s Silent (Fixing (Look x p)) s"
| latch_taken: "take_latch x (sh_frame s i) = (oOk (), f) \<Longrightarrow> fix_step t (Fixing (Latch x p i)) s Silent (Fixing (Exact x p i)) (frame_to i f s)"
| exact_yes: "resident_exact s p i \<Longrightarrow> fix_step t (Fixing (Exact x p i)) s Silent (Fixing (Wake x p i)) s"
| exact_no: "\<not> resident_exact s p i \<Longrightarrow> fix_step t (Fixing (Exact x p i)) s Silent (Fixing (Unlatch x p i)) s"
| wake: "fix_step t (Fixing (Wake x p i)) s (GotGuard t x p) (Fixing (Guard x p i)) (resurrect p i s)"
| unlatch: "drop_latch x (sh_frame s i) = (oOk (), f) \<Longrightarrow> fix_step t (Fixing (Unlatch x p i)) s Silent (Fixing (Unpin x p i)) (frame_to i f s)"
| unpin: "frame_unpin (sh_frame s i) = (oOk (), f) \<Longrightarrow> fix_step t (Fixing (Unpin x p i)) s Silent (Fixing (Look x p)) (frame_to i f s)"
| read_page: "fix_step t (Fixing (Guard x p i)) s (ReadPage t p (sh_data s i)) (Fixing (Guard x p i)) s"
| mark_dirty: "fix_step t (Fixing (Guard True p i)) s Silent (Fixing (Write p i)) (frame_to i (set_dirty True (sh_frame s i)) s)"
| write_page: "fix_step t (Fixing (Write p i)) s (WrotePage t p d) (Fixing (Guard True p i)) (s\<lparr>sh_data := (sh_data s)(i := d)\<rparr>)"
| guard_drop: "frame_unpin (sh_frame s i) = (oOk (), f) \<Longrightarrow> fix_step t (Fixing (Guard x p i)) s (DroppedGuard t x p) (Fixing (Leave x i)) (frame_to i f s)"
| leave: "drop_latch x (sh_frame s i) = (oOk (), f) \<Longrightarrow> fix_step t (Fixing (Leave x i)) s Silent Idle (frame_to i f s)"
| cool: "sh_swip s p = InHot i \<Longrightarrow> fix_step t Idle s Silent Idle (place_to p (InCooling i) s)"

text \<open>A fault: of a fix, which acquires a frame, or of a prefetch task, which has one.\<close>

inductive fault_step :: "nat \<Rightarrow> pc \<Rightarrow> pool_memory \<Rightarrow> action \<Rightarrow> pc \<Rightarrow> pool_memory \<Rightarrow> bool" where
  start_prefetch: "i \<in> sh_free s \<Longrightarrow> p \<in> sh_pages s \<Longrightarrow> fault_step t Idle s Silent (Faulting (Prefetch i p)) (s\<lparr>sh_free := sh_free s - {i}\<rparr>)"
| prefetch_claim: "try_claim_eviction (sh_frame s i) = (True, f) \<Longrightarrow> fault_step t (Faulting (Prefetch i p)) s Silent (Faulting (Enter (Prefetcher i) p)) (frame_to i f s)"
| prefetch_busy: "fst (try_claim_eviction (sh_frame s i)) = False \<Longrightarrow> fault_step t (Faulting (Prefetch i p)) s Silent (Returning (Push False p i)) s"
| enter_leader: "p \<notin> sh_leaders s \<Longrightarrow> fault_step t (Faulting (Enter w p)) s Silent (Faulting (Load w p)) (s\<lparr>sh_leaders := insert p (sh_leaders s)\<rparr>)"
| follow_fix: "fault_step t (Faulting (Enter (Fixer x) p)) s Silent (Fixing (Look x p)) s"
| follow_fix_error: "fault_step t (Faulting (Enter (Fixer x) p)) s Silent Idle s"
| follow_prefetch: "fault_step t (Faulting (Enter (Prefetcher i) p)) s Silent (Returning (Release False p i)) s"
| load_resident: "place_at (sh_swip s p) \<noteq> None \<Longrightarrow> fault_step t (Faulting (Load w p)) s Silent (Faulting (Finish w p True)) s"
| load_evicted: "sh_swip s p = InTier \<Longrightarrow> fault_step t (Faulting (Load w p)) s Silent (Faulting (Lookup w p)) s"
| lookup_fix: "sh_dir s p = Some l \<Longrightarrow> fault_step t (Faulting (Lookup (Fixer x) p)) s Silent (Faulting (Acquire x p l)) s"
| lookup_prefetch: "sh_dir s p = Some l \<Longrightarrow> fault_step t (Faulting (Lookup (Prefetcher i) p)) s Silent (Faulting (Fill Prefetched p l i)) s"
| lookup_missing: "sh_dir s p = None \<Longrightarrow> fault_step t (Faulting (Lookup w p)) s Silent (Faulting (Finish w p False)) s"
| acquire: "i \<in> sh_free s \<Longrightarrow> fault_step t (Faulting (Acquire x p l)) s Silent (Faulting (Claim x p l i)) (s\<lparr>sh_free := sh_free s - {i}\<rparr>)"
| acquire_fails: "fault_step t (Faulting (Acquire x p l)) s Silent (Faulting (Finish (Fixer x) p False)) s"
| claim: "try_claim_eviction (sh_frame s i) = (True, f) \<Longrightarrow> fault_step t (Faulting (Claim x p l i)) s Silent (Faulting (Fill (Fixer x) p l i)) (frame_to i f s)"
| fill: "latched_write (sh_frame s i) f \<Longrightarrow> sh_store s l = Some d \<Longrightarrow> fault_step t (Faulting (Fill w p l i)) s Silent (Faulting (Install w p i)) (frame_to i f (s\<lparr>sh_data := (sh_data s)(i := d)\<rparr>))"
| fill_fails: "latched_write (sh_frame s i) f \<Longrightarrow> fault_step t (Faulting (Fill w p l i)) s Silent (Returning (Release True p i)) (frame_to i f (s\<lparr>sh_data := (sh_data s)(i := d)\<rparr>))"
| install: "frame_install p (unat p) (sh_frame s i) = (oOk g, f) \<Longrightarrow> fault_step t (Faulting (Install w p i)) s Silent (Faulting (Publish w p i)) (frame_to i f s)"
| publish: "publish_reserved_pin (sh_frame s i) = (oOk (), f) \<Longrightarrow> fault_step t (Faulting (Publish w p i)) s Silent (Faulting (Swizzle w p i)) (frame_to i f s)"
| swizzle: "sh_swip s p = InTier \<Longrightarrow> fault_step t (Faulting (Swizzle w p i)) s Silent (Faulting (Settle w p i)) (place_to p (InHot i) s)"
| swizzle_fails: "sh_swip s p \<noteq> InTier \<Longrightarrow> fault_step t (Faulting (Swizzle w p i)) s Silent (Returning (Undo True p i)) s"
| settle: "frame_unpin (sh_frame s i) = (oOk (), f) \<Longrightarrow> fault_step t (Faulting (Settle w p i)) s Silent (Faulting (Finish w p True)) (frame_to i f s)"
| finish_fix: "fault_step t (Faulting (Finish (Fixer x) p ok)) s Silent (if ok then Fixing (Look x p) else Idle) (s\<lparr>sh_leaders := sh_leaders s - {p}\<rparr>)"
| finish_prefetch: "fault_step t (Faulting (Finish Prefetched p ok)) s Silent Idle (s\<lparr>sh_leaders := sh_leaders s - {p}\<rparr>)"
| finish_unused: "fault_step t (Faulting (Finish (Prefetcher i) p ok)) s Silent (Returning (Release False p i)) (s\<lparr>sh_leaders := sh_leaders s - {p}\<rparr>)"

text \<open>The way back of a checkout that is not committed.\<close>

inductive return_step :: "nat \<Rightarrow> pc \<Rightarrow> pool_memory \<Rightarrow> action \<Rightarrow> pc \<Rightarrow> pool_memory \<Rightarrow> bool" where
  undo: "frame_unpin (sh_frame s i) = (oOk (), f) \<Longrightarrow> return_step t (Returning (Undo led p i)) s Silent (Returning (UndoClaim led p i)) (frame_to i f s)"
| undo_claim: "try_claim_eviction (sh_frame s i) = (True, f) \<Longrightarrow> return_step t (Returning (UndoClaim led p i)) s Silent (Returning (UndoClear led p i)) (frame_to i f s)"
| undo_clear: "clear_after_eviction (sh_frame s i) = (oOk (), f) \<Longrightarrow> return_step t (Returning (UndoClear led p i)) s Silent (Returning (Release led p i)) (frame_to i f s)"
| release: "release_eviction (sh_frame s i) = (oOk (), f) \<Longrightarrow> return_step t (Returning (Release led p i)) s Silent (Returning (Push led p i)) (frame_to i f s)"
| push: "return_step t (Returning (Push led p i)) s Silent (if led then Faulting (Finish Prefetched p False) else Idle) (s\<lparr>sh_free := insert i (sh_free s)\<rparr>)"

text \<open>The eviction of a ticket.\<close>

inductive evict_step :: "nat \<Rightarrow> pc \<Rightarrow> pool_memory \<Rightarrow> action \<Rightarrow> pc \<Rightarrow> pool_memory \<Rightarrow> bool" where
  start_evict: "evict_step t Idle s Silent (Evicting (Evict i p g)) s"
| evict_claim: "try_claim_eviction (sh_frame s i) = (True, f) \<Longrightarrow> evict_step t (Evicting (Evict i p g)) s Silent (Evicting (EvLatch i p g)) (frame_to i f s)"
| evict_busy: "evict_step t (Evicting (Evict i p g)) s Silent Idle s"
| evict_latch: "frame_lock_exclusive (sh_frame s i) = (oOk (), f) \<Longrightarrow> evict_step t (Evicting (EvLatch i p g)) s Silent (Evicting (EvCheck i p g)) (frame_to i f s)"
| evict_exact: "ticket_exact s i p g \<Longrightarrow> evict_step t (Evicting (EvCheck i p g)) s Silent (Evicting (EvBack i p)) s"
| evict_stale: "\<not> ticket_exact s i p g \<Longrightarrow> evict_step t (Evicting (EvCheck i p g)) s Silent (Evicting (if same_occupant s i p g then EvResurrect i p else EvGiveUp i)) s"
| evict_dirty: "fr_dirty (sh_frame s i) \<or> sh_dir s p = None \<Longrightarrow> evict_step t (Evicting (EvBack i p)) s Silent (Evicting (EvWrite i p (sh_dir s p) (fr_dirty (sh_frame s i)))) s"
| evict_backed: "\<not> fr_dirty (sh_frame s i) \<Longrightarrow> sh_dir s p \<noteq> None \<Longrightarrow> evict_step t (Evicting (EvBack i p)) s Silent (Evicting (EvClean i p (sh_dir s p) None False)) s"
| evict_write: "sh_store s l = None \<Longrightarrow> evict_step t (Evicting (EvWrite i p old dirty)) s Silent (Evicting (EvInsert i p old l dirty)) (s\<lparr>sh_store := (sh_store s)(l \<mapsto> sh_data s i)\<rparr>)"
| evict_write_fails: "evict_step t (Evicting (EvWrite i p old dirty)) s Silent (Evicting (EvResurrect i p)) s"
| evict_insert: "evict_step t (Evicting (EvInsert i p old l dirty)) s Silent (Evicting (EvClean i p old (Some l) dirty)) (s\<lparr>sh_dir := (sh_dir s)(p \<mapsto> l)\<rparr>)"
| evict_clean: "evict_step t (Evicting (EvClean i p old new dirty)) s Silent (Evicting (EvUnswizzle i p old new dirty)) (frame_to i (set_dirty False (sh_frame s i)) s)"
| evict_unswizzle: "sh_swip s p = InCooling i \<Longrightarrow> evict_step t (Evicting (EvUnswizzle i p old new dirty)) s Silent (Clearing (EvUnlatch i (if new = None then None else old))) (place_to p InTier s)"
| evict_unswizzle_fails: "sh_swip s p \<noteq> InCooling i \<Longrightarrow> evict_step t (Evicting (EvUnswizzle i p old new dirty)) s Silent (Evicting (EvRestore i p old new dirty)) s"
| evict_restore: "evict_step t (Evicting (EvRestore i p old new dirty)) s Silent (Evicting (EvResurrect i p)) (frame_to i (set_dirty dirty (sh_frame s i)) (case new of None \<Rightarrow> s | Some l \<Rightarrow> s\<lparr>sh_dir := (sh_dir s)(p := old), sh_store := (sh_store s)(l := None)\<rparr>))"
| evict_resurrect: "evict_step t (Evicting (EvResurrect i p)) s Silent (Evicting (EvGiveUp i)) (resurrect p i s)"
| evict_give_up: "frame_drop_exclusive (sh_frame s i) = (oOk (), f) \<Longrightarrow> evict_step t (Evicting (EvGiveUp i)) s Silent (Evicting (EvGiveUpRelease i)) (frame_to i f s)"
| evict_give_up_release: "release_eviction (sh_frame s i) = (oOk (), f) \<Longrightarrow> evict_step t (Evicting (EvGiveUpRelease i)) s Silent Idle (frame_to i f s)"
| evict_unlatch: "frame_drop_exclusive (sh_frame s i) = (oOk (), f) \<Longrightarrow> evict_step t (Clearing (EvUnlatch i old)) s Silent (Clearing (EvClear i old)) (frame_to i f s)"
| evict_clear: "clear_after_eviction (sh_frame s i) = (oOk (), f) \<Longrightarrow> evict_step t (Clearing (EvClear i old)) s Silent (Clearing (EvRelease i old)) (frame_to i f s)"
| evict_release: "release_eviction (sh_frame s i) = (oOk (), f) \<Longrightarrow> evict_step t (Clearing (EvRelease i old)) s Silent (Clearing (EvPush i old)) (frame_to i f s)"
| evict_push: "evict_step t (Clearing (EvPush i old)) s Silent (case old of None \<Rightarrow> Idle | Some l \<Rightarrow> Clearing (EvFree l)) (s\<lparr>sh_free := insert i (sh_free s)\<rparr>)"
| evict_free: "evict_step t (Clearing (EvFree l)) s Silent Idle (s\<lparr>sh_store := (sh_store s)(l := None)\<rparr>)"

text \<open>An allocation.\<close>

inductive allocate_step :: "nat \<Rightarrow> pc \<Rightarrow> pool_memory \<Rightarrow> action \<Rightarrow> pc \<Rightarrow> pool_memory \<Rightarrow> bool" where
  start_allocate: "i \<in> sh_free s \<Longrightarrow> allocate_step t Idle s Silent (Allocating (AClaim i)) (s\<lparr>sh_free := sh_free s - {i}\<rparr>)"
| allocate_claim: "try_claim_eviction (sh_frame s i) = (True, f) \<Longrightarrow> allocate_step t (Allocating (AClaim i)) s Silent (Allocating (APid i)) (frame_to i f s)"
| allocate_pid_fresh: "p \<notin> sh_known s \<Longrightarrow> pid_is_valid p \<Longrightarrow> allocate_step t (Allocating (APid i)) s Silent (Allocating (AFill i p)) (s\<lparr>sh_known := insert p (sh_known s)\<rparr>)"
| allocate_pid_fails: "allocate_step t (Allocating (APid i)) s Silent (Returning (Release False PID_INVALID i)) s"
| allocate_fill: "latched_write (sh_frame s i) f \<Longrightarrow> allocate_step t (Allocating (AFill i p)) s Silent (Allocating (AInstall i p)) (frame_to i f (s\<lparr>sh_data := (sh_data s)(i := zeros)\<rparr>))"
| allocate_install: "frame_install p (unat p) (sh_frame s i) = (oOk g, f) \<Longrightarrow> allocate_step t (Allocating (AInstall i p)) s Silent (Allocating (ADirty i p)) (frame_to i f s)"
| allocate_dirty: "allocate_step t (Allocating (ADirty i p)) s Silent (Allocating (APublish i p)) (frame_to i (set_dirty True (sh_frame s i)) s)"
| allocate_publish: "publish_reserved_pin (sh_frame s i) = (oOk (), f) \<Longrightarrow> allocate_step t (Allocating (APublish i p)) s Silent (Allocating (ASwizzle i p)) (frame_to i f s)"
| allocate_swizzle: "sh_swip s p = InTier \<Longrightarrow> allocate_step t (Allocating (ASwizzle i p)) s Silent (Allocating (ALatch i p)) (place_to p (InHot i) s)"
| allocate_swizzle_fails: "sh_swip s p \<noteq> InTier \<Longrightarrow> allocate_step t (Allocating (ASwizzle i p)) s Silent (Returning (Undo False p i)) s"
| allocate_latch: "frame_lock_exclusive (sh_frame s i) = (oOk (), f) \<Longrightarrow> allocate_step t (Allocating (ALatch i p)) s Silent (Allocating (AInsert i p)) (frame_to i f s)"
| allocate_insert: "resident_exact s p i \<Longrightarrow> p \<notin> sh_pages s \<Longrightarrow> allocate_step t (Allocating (AInsert i p)) s (NewPage t p) (Fixing (Guard True p i)) (s\<lparr>sh_pages := insert p (sh_pages s)\<rparr>)"

definition act :: "nat \<Rightarrow> pc \<Rightarrow> pool_memory \<Rightarrow> action \<Rightarrow> pc \<Rightarrow> pool_memory \<Rightarrow> bool" where
  "act t pc s a pc' s' \<longleftrightarrow> fix_step t pc s a pc' s' \<or> fault_step t pc s a pc' s' \<or> return_step t pc s a pc' s' \<or> evict_step t pc s a pc' s' \<or> allocate_step t pc s a pc' s'"

type_synonym pool_state = "(nat \<Rightarrow> pc) \<times> pool_memory"

inductive pool_runs :: "nat \<Rightarrow> action list \<Rightarrow> pool_state \<Rightarrow> bool" for n where
  runs_start: "pool_runs n [] (\<lambda>_. Idle, memory_new n)"
| runs_step: "pool_runs n as (l, s) \<Longrightarrow> act t (l t) s a pc' s' \<Longrightarrow> pool_runs n (as @ [a]) (l(t := pc'), s')"

end
