(* ===== verification/Interleaving_Safety.thy ===== *)
theory Interleaving_Safety
  imports Pool_Interleaving Pool_Invariant
begin

text \<open>
  What each activity holds at each point of its code (pins, reservations, latches, frames, roles, locations), what it
  knows there, the invariant that ties the shared memory to it, and what a step may change.
\<close>

lemma actE:
  assumes "act t pc s a pc' s'"
  obtains "fix_step t pc s a pc' s'" | "fault_step t pc s a pc' s'" | "return_step t pc s a pc' s'" | "evict_step t pc s a pc' s'"
  | "allocate_step t pc s a pc' s'"
  using assms by (auto simp: act_def)

lemmas act_cases = actE fix_step.cases fault_step.cases return_step.cases evict_step.cases allocate_step.cases

lemma act_intros:
  "fix_step t pc s a pc' s' \<Longrightarrow> act t pc s a pc' s'" "fault_step t pc s a pc' s' \<Longrightarrow> act t pc s a pc' s'"
  "return_step t pc s a pc' s' \<Longrightarrow> act t pc s a pc' s'" "evict_step t pc s a pc' s' \<Longrightarrow> act t pc s a pc' s'"
  "allocate_step t pc s a pc' s' \<Longrightarrow> act t pc s a pc' s'"
  by (simp_all add: act_def)

section \<open>What an activity holds\<close>

fun carried :: "caller \<Rightarrow> nat option" where
  "carried (Prefetcher i) = Some i" | "carried _ = None"

fun pinned :: "pc \<Rightarrow> nat option" where
  "pinned (Fixing (Latch x p i)) = Some i"
| "pinned (Fixing (Exact x p i)) = Some i"
| "pinned (Fixing (Wake x p i)) = Some i"
| "pinned (Fixing (Guard x p i)) = Some i"
| "pinned (Fixing (Write p i)) = Some i"
| "pinned (Fixing (Unlatch x p i)) = Some i"
| "pinned (Fixing (Unpin x p i)) = Some i"
| "pinned (Faulting (Swizzle w p i)) = Some i"
| "pinned (Faulting (Settle w p i)) = Some i"
| "pinned (Returning (Undo led p i)) = Some i"
| "pinned (Allocating (ASwizzle i p)) = Some i"
| "pinned (Allocating (ALatch i p)) = Some i"
| "pinned (Allocating (AInsert i p)) = Some i"
| "pinned _ = None"

fun evict_frame :: "evict_pc \<Rightarrow> nat" where
  "evict_frame (Evict i p g) = i"
| "evict_frame (EvLatch i p g) = i"
| "evict_frame (EvCheck i p g) = i"
| "evict_frame (EvBack i p) = i"
| "evict_frame (EvWrite i p old dirty) = i"
| "evict_frame (EvInsert i p old l dirty) = i"
| "evict_frame (EvClean i p old new dirty) = i"
| "evict_frame (EvUnswizzle i p old new dirty) = i"
| "evict_frame (EvRestore i p old new dirty) = i"
| "evict_frame (EvResurrect i p) = i"
| "evict_frame (EvGiveUp i) = i"
| "evict_frame (EvGiveUpRelease i) = i"

fun reserves :: "pc \<Rightarrow> nat option" where
  "reserves (Faulting (Enter w p)) = carried w"
| "reserves (Faulting (Load w p)) = carried w"
| "reserves (Faulting (Lookup w p)) = carried w"
| "reserves (Faulting (Finish w p ok)) = carried w"
| "reserves (Faulting (Fill w p l i)) = Some i"
| "reserves (Faulting (Install w p i)) = Some i"
| "reserves (Faulting (Publish w p i)) = Some i"
| "reserves (Returning (UndoClear led p i)) = Some i"
| "reserves (Returning (Release led p i)) = Some i"
| "reserves (Evicting (Evict i p g)) = None"
| "reserves (Evicting e) = Some (evict_frame e)"
| "reserves (Clearing (EvUnlatch i old)) = Some i"
| "reserves (Clearing (EvClear i old)) = Some i"
| "reserves (Clearing (EvRelease i old)) = Some i"
| "reserves (Allocating (APid i)) = Some i"
| "reserves (Allocating (AFill i p)) = Some i"
| "reserves (Allocating (AInstall i p)) = Some i"
| "reserves (Allocating (ADirty i p)) = Some i"
| "reserves (Allocating (APublish i p)) = Some i"
| "reserves _ = None"

text \<open>The latch an activity holds, and whether exclusively.\<close>

fun holds_latch :: "pc \<Rightarrow> (bool \<times> nat) option" where
  "holds_latch (Fixing (Exact x p i)) = Some (x, i)"
| "holds_latch (Fixing (Wake x p i)) = Some (x, i)"
| "holds_latch (Fixing (Guard x p i)) = Some (x, i)"
| "holds_latch (Fixing (Write p i)) = Some (True, i)"
| "holds_latch (Fixing (Unlatch x p i)) = Some (x, i)"
| "holds_latch (Fixing (Leave x i)) = Some (x, i)"
| "holds_latch (Evicting (Evict i p g)) = None"
| "holds_latch (Evicting (EvLatch i p g)) = None"
| "holds_latch (Evicting (EvGiveUpRelease i)) = None"
| "holds_latch (Evicting e) = Some (True, evict_frame e)"
| "holds_latch (Clearing (EvUnlatch i old)) = Some (True, i)"
| "holds_latch (Allocating (AInsert i p)) = Some (True, i)"
| "holds_latch _ = None"

text \<open>The frame that an activity has for itself: checked out, or being cleared.\<close>

fun holds_frame :: "pc \<Rightarrow> nat option" where
  "holds_frame (Faulting (Prefetch i p)) = Some i"
| "holds_frame (Faulting (Enter w p)) = carried w"
| "holds_frame (Faulting (Load w p)) = carried w"
| "holds_frame (Faulting (Lookup w p)) = carried w"
| "holds_frame (Faulting (Finish w p ok)) = carried w"
| "holds_frame (Faulting (Claim x p l i)) = Some i"
| "holds_frame (Faulting (Fill w p l i)) = Some i"
| "holds_frame (Faulting (Install w p i)) = Some i"
| "holds_frame (Faulting (Publish w p i)) = Some i"
| "holds_frame (Faulting (Swizzle w p i)) = Some i"
| "holds_frame (Returning (Undo led p i)) = Some i"
| "holds_frame (Returning (UndoClaim led p i)) = Some i"
| "holds_frame (Returning (UndoClear led p i)) = Some i"
| "holds_frame (Returning (Release led p i)) = Some i"
| "holds_frame (Returning (Push led p i)) = Some i"
| "holds_frame (Clearing (EvUnlatch i old)) = Some i"
| "holds_frame (Clearing (EvClear i old)) = Some i"
| "holds_frame (Clearing (EvRelease i old)) = Some i"
| "holds_frame (Clearing (EvPush i old)) = Some i"
| "holds_frame (Allocating (AClaim i)) = Some i"
| "holds_frame (Allocating (APid i)) = Some i"
| "holds_frame (Allocating (AFill i p)) = Some i"
| "holds_frame (Allocating (AInstall i p)) = Some i"
| "holds_frame (Allocating (ADirty i p)) = Some i"
| "holds_frame (Allocating (APublish i p)) = Some i"
| "holds_frame (Allocating (ASwizzle i p)) = Some i"
| "holds_frame _ = None"

text \<open>The page whose fault an activity leads, and the new page that it allocates.\<close>

fun leads :: "pc \<Rightarrow> page_id option" where
  "leads (Faulting (Load w p)) = Some p"
| "leads (Faulting (Lookup w p)) = Some p"
| "leads (Faulting (Acquire x p l)) = Some p"
| "leads (Faulting (Claim x p l i)) = Some p"
| "leads (Faulting (Fill w p l i)) = Some p"
| "leads (Faulting (Install w p i)) = Some p"
| "leads (Faulting (Publish w p i)) = Some p"
| "leads (Faulting (Swizzle w p i)) = Some p"
| "leads (Faulting (Settle w p i)) = Some p"
| "leads (Faulting (Finish w p ok)) = Some p"
| "leads (Returning (Undo led p i)) = (if led then Some p else None)"
| "leads (Returning (UndoClaim led p i)) = (if led then Some p else None)"
| "leads (Returning (UndoClear led p i)) = (if led then Some p else None)"
| "leads (Returning (Release led p i)) = (if led then Some p else None)"
| "leads (Returning (Push led p i)) = (if led then Some p else None)"
| "leads _ = None"

fun creates :: "pc \<Rightarrow> page_id option" where
  "creates (Allocating (AFill i p)) = Some p"
| "creates (Allocating (AInstall i p)) = Some p"
| "creates (Allocating (ADirty i p)) = Some p"
| "creates (Allocating (APublish i p)) = Some p"
| "creates (Allocating (ASwizzle i p)) = Some p"
| "creates (Allocating (ALatch i p)) = Some p"
| "creates (Allocating (AInsert i p)) = Some p"
| "creates _ = None"

text \<open>The location in a tier that an activity has for itself: written and not yet entered, or replaced and not yet freed.\<close>

fun has_location :: "pc \<Rightarrow> location option" where
  "has_location (Evicting (EvInsert i p old l dirty)) = Some l"
| "has_location (Evicting (EvClean i p old new dirty)) = (if new = None then None else old)"
| "has_location (Evicting (EvUnswizzle i p old new dirty)) = (if new = None then None else old)"
| "has_location (Clearing (EvUnlatch i old)) = old"
| "has_location (Clearing (EvClear i old)) = old"
| "has_location (Clearing (EvRelease i old)) = old"
| "has_location (Clearing (EvPush i old)) = old"
| "has_location (Clearing (EvFree l)) = Some l"
| "has_location _ = None"

section \<open>What an activity knows\<close>

abbreviation in_frame :: "pool_memory \<Rightarrow> page_id \<Rightarrow> nat \<Rightarrow> bool" where
  "in_frame s p i \<equiv> place_at (sh_swip s p) = Some i"

definition backed :: "pool_memory \<Rightarrow> page_id \<Rightarrow> page \<Rightarrow> bool" where
  "backed s p d \<longleftrightarrow> (\<exists>l. sh_dir s p = Some l \<and> sh_store s l = Some d)"

definition occupies :: "pool_memory \<Rightarrow> page_id \<Rightarrow> nat \<Rightarrow> bool" where
  "occupies s p i \<longleftrightarrow> fr_owner_swip (sh_frame s i) = Some (unat p) \<and> fr_pid (sh_frame s i) = p"

fun knows :: "pool_memory \<Rightarrow> pc \<Rightarrow> bool" where
  "knows s (Fixing (Look x p)) = (p \<in> sh_pages s)"
| "knows s (Fixing (Pin x p i)) = (p \<in> sh_pages s)"
| "knows s (Fixing (Latch x p i)) = (p \<in> sh_pages s)"
| "knows s (Fixing (Exact x p i)) = (p \<in> sh_pages s)"
| "knows s (Fixing (Unlatch x p i)) = (p \<in> sh_pages s)"
| "knows s (Fixing (Unpin x p i)) = (p \<in> sh_pages s)"
| "knows s (Fixing (Wake x p i)) = (p \<in> sh_pages s \<and> in_frame s p i)"
| "knows s (Fixing (Guard x p i)) = (p \<in> sh_pages s \<and> in_frame s p i)"
| "knows s (Fixing (Write p i)) = (p \<in> sh_pages s \<and> in_frame s p i \<and> fr_dirty (sh_frame s i))"
| "knows s (Faulting (Prefetch i p)) = (p \<in> sh_pages s)"
| "knows s (Faulting (Enter w p)) = (p \<in> sh_pages s \<and> w \<noteq> Prefetched)"
| "knows s (Faulting (Load w p)) = (p \<in> sh_pages s \<and> w \<noteq> Prefetched)"
| "knows s (Faulting (Lookup w p)) = (p \<in> sh_pages s \<and> sh_swip s p = InTier \<and> w \<noteq> Prefetched)"
| "knows s (Faulting (Acquire x p l)) = (p \<in> sh_pages s \<and> sh_swip s p = InTier \<and> sh_dir s p = Some l)"
| "knows s (Faulting (Claim x p l i)) = (p \<in> sh_pages s \<and> sh_swip s p = InTier \<and> sh_dir s p = Some l)"
| "knows s (Faulting (Fill w p l i)) = (p \<in> sh_pages s \<and> sh_swip s p = InTier \<and> sh_dir s p = Some l \<and> carried w = None)"
| "knows s (Faulting (Install w p i)) = (p \<in> sh_pages s \<and> sh_swip s p = InTier \<and> backed s p (sh_data s i) \<and> carried w = None)"
| "knows s (Faulting (Publish w p i)) = (p \<in> sh_pages s \<and> sh_swip s p = InTier \<and> backed s p (sh_data s i) \<and> occupies s p i \<and> carried w = None)"
| "knows s (Faulting (Swizzle w p i)) = (p \<in> sh_pages s \<and> sh_swip s p = InTier \<and> backed s p (sh_data s i) \<and> occupies s p i \<and> carried w = None)"
| "knows s (Faulting (Settle w p i)) = (p \<in> sh_pages s \<and> carried w = None)"
| "knows s (Faulting (Finish w p ok)) = (p \<in> sh_pages s)"
| "knows s (Returning (Undo led p i)) = False"
| "knows s (Returning (UndoClaim led p i)) = False"
| "knows s (Returning (UndoClear led p i)) = False"
| "knows s (Returning (Release led p i)) = (led \<longrightarrow> p \<in> sh_pages s)"
| "knows s (Returning (Push led p i)) = (led \<longrightarrow> p \<in> sh_pages s)"
| "knows s (Evicting (EvBack i p)) = (p \<in> sh_pages s \<and> sh_swip s p = InCooling i)"
| "knows s (Evicting (EvWrite i p old dirty)) = (p \<in> sh_pages s \<and> sh_swip s p = InCooling i \<and> sh_dir s p = old)"
| "knows s (Evicting (EvInsert i p old l dirty)) = (p \<in> sh_pages s \<and> sh_swip s p = InCooling i \<and> sh_dir s p = old \<and> sh_store s l = Some (sh_data s i))"
| "knows s (Evicting (EvClean i p old new dirty)) = (p \<in> sh_pages s \<and> sh_swip s p = InCooling i \<and> backed s p (sh_data s i))"
| "knows s (Evicting (EvUnswizzle i p old new dirty)) = (p \<in> sh_pages s \<and> sh_swip s p = InCooling i \<and> backed s p (sh_data s i))"
| "knows s (Evicting (EvRestore i p old new dirty)) = False"
| "knows s (Allocating (AFill i p)) = (sh_swip s p = InTier)"
| "knows s (Allocating (AInstall i p)) = (sh_swip s p = InTier \<and> sh_data s i = zeros)"
| "knows s (Allocating (ADirty i p)) = (sh_swip s p = InTier \<and> sh_data s i = zeros \<and> occupies s p i)"
| "knows s (Allocating (APublish i p)) = (sh_swip s p = InTier \<and> sh_data s i = zeros \<and> occupies s p i \<and> fr_dirty (sh_frame s i))"
| "knows s (Allocating (ASwizzle i p)) = (sh_swip s p = InTier \<and> sh_data s i = zeros \<and> occupies s p i \<and> fr_dirty (sh_frame s i))"
| "knows s (Allocating (ALatch i p)) = (in_frame s p i \<and> sh_data s i = zeros)"
| "knows s (Allocating (AInsert i p)) = (in_frame s p i \<and> sh_data s i = zeros)"
| "knows s _ = True"

section \<open>The invariant\<close>

text \<open>The words of a frame count their holders; \<open>P\<close> and \<open>R\<close> are the activities with a pin and with the reservation.\<close>

definition pin_word_ok :: "u32 \<Rightarrow> nat set \<Rightarrow> nat set \<Rightarrow> bool" where
  "pin_word_ok w P R \<longleftrightarrow> finite P \<and> (if R = {} then unat w = card P \<and> card P < 2 ^ 31 else (\<exists>t. R = {t}) \<and> P = {} \<and> w = EVICTING)"

definition latch_word_ok :: "u64 \<Rightarrow> nat set \<Rightarrow> nat set \<Rightarrow> bool" where
  "latch_word_ok w S X \<longleftrightarrow> finite S \<and> (if X = {} then unat (latch_state w) = card S \<and> card S < 2 ^ 16 - 1
     else (\<exists>t. X = {t}) \<and> S = {} \<and> latch_state w = EXCLUSIVE_STATE)"

definition holders :: "(pc \<Rightarrow> 'a option) \<Rightarrow> (nat \<Rightarrow> pc) \<Rightarrow> 'a \<Rightarrow> nat set" where
  "holders f l a = {t. f (l t) = Some a}"

definition pins_inv :: "pool_state \<Rightarrow> bool" where
  "pins_inv st \<longleftrightarrow> (case st of (l, s) \<Rightarrow> \<forall>i. pin_word_ok (fr_pin_control (sh_frame s i)) (holders pinned l i) (holders reserves l i))"

definition latches_inv :: "pool_state \<Rightarrow> bool" where
  "latches_inv st \<longleftrightarrow> (case st of (l, s) \<Rightarrow> \<forall>i. latch_word_ok (fr_latch (sh_frame s i)) (holders holds_latch l (False, i)) (holders holds_latch l (True, i)))"

text \<open>No two activities have the same frame, location or page for themselves.\<close>

definition alone :: "(pc \<Rightarrow> 'a option) \<Rightarrow> (nat \<Rightarrow> pc) \<Rightarrow> bool" where
  "alone f l \<longleftrightarrow> (\<forall>t t' a. f (l t) = Some a \<longrightarrow> f (l t') = Some a \<longrightarrow> t = t')"

definition frames_inv :: "pool_state \<Rightarrow> bool" where
  "frames_inv st \<longleftrightarrow> (case st of (l, s) \<Rightarrow> alone holds_frame l
    \<and> (\<forall>t i. holds_frame (l t) = Some i \<longrightarrow> i \<notin> sh_free s \<and> (\<forall>p. \<not> in_frame s p i))
    \<and> (\<forall>i \<in> sh_free s. \<forall>p. \<not> in_frame s p i)
    \<and> (\<forall>p i. in_frame s p i \<longrightarrow> occupies s p i \<and> p \<in> sh_known s))"

definition roles_inv :: "pool_state \<Rightarrow> bool" where
  "roles_inv st \<longleftrightarrow> (case st of (l, s) \<Rightarrow> alone leads l \<and> alone creates l \<and> sh_leaders s \<subseteq> sh_pages s \<and> sh_pages s \<subseteq> sh_known s
    \<and> (\<forall>p \<in> sh_known s. pid_is_valid p)
    \<and> (\<forall>t p. leads (l t) = Some p \<longrightarrow> p \<in> sh_leaders s) \<and> (\<forall>t p. creates (l t) = Some p \<longrightarrow> p \<in> sh_known s - sh_pages s))"

definition tiers_inv :: "pool_state \<Rightarrow> bool" where
  "tiers_inv st \<longleftrightarrow> (case st of (l, s) \<Rightarrow> alone has_location l
    \<and> (\<forall>t loc. has_location (l t) = Some loc \<longrightarrow> sh_store s loc \<noteq> None \<and> loc \<notin> ran (sh_dir s))
    \<and> (\<forall>p loc. sh_dir s p = Some loc \<longrightarrow> sh_store s loc \<noteq> None \<and> p \<in> sh_pages s)
    \<and> (\<forall>p q loc. sh_dir s p = Some loc \<longrightarrow> sh_dir s q = Some loc \<longrightarrow> p = q))"

definition content_inv :: "pool_state \<Rightarrow> bool" where
  "content_inv st \<longleftrightarrow> (case st of (l, s) \<Rightarrow>
      (\<forall>p \<in> sh_pages s. sh_swip s p = InTier \<longrightarrow> sh_dir s p \<noteq> None)
    \<and> (\<forall>p i. in_frame s p i \<longrightarrow> \<not> fr_dirty (sh_frame s i) \<longrightarrow> backed s p (sh_data s i)))"

definition knows_inv :: "pool_state \<Rightarrow> bool" where
  "knows_inv st \<longleftrightarrow> (case st of (l, s) \<Rightarrow> \<forall>t. knows s (l t))"

definition interleaving_inv :: "pool_state \<Rightarrow> bool" where
  "interleaving_inv st \<longleftrightarrow> pins_inv st \<and> latches_inv st \<and> frames_inv st \<and> roles_inv st \<and> tiers_inv st \<and> content_inv st \<and> knows_inv st"

section \<open>Words and their holders\<close>

lemma holders_upd: "holders f (l(t := pc)) a = (if f pc = Some a then insert t (holders f l a) else holders f l a - {t})"
  by (auto simp: holders_def)

lemma holders_mem [simp]: "t \<in> holders f l a \<longleftrightarrow> f (l t) = Some a"
  by (simp add: holders_def)

lemma pin_word_pin: "pin_word_ok w P R \<Longrightarrow> pin_update w = Some v \<Longrightarrow> t \<notin> P \<Longrightarrow> R = {} \<and> pin_word_ok v (insert t P) R"
  by (auto simp: pin_word_ok_def pin_update_Some unat_pin_inc EVICTING_value split: if_splits)

lemma pin_word_unpin:
  assumes "pin_word_ok w P R" "t \<in> P"
  shows "R = {} \<and> unpin_word w = oOk (w - 1) \<and> pin_word_ok (w - 1) (P - {t}) R"
proof -
  have "R = {}" "finite P" "unat w = card P" "card P < 2 ^ 31" "0 < card P" using assms by (auto simp: pin_word_ok_def card_gt_0_iff split: if_splits)
  then show ?thesis using unpin_word_ok[of w] assms(2) by (auto simp: pin_word_ok_def)
qed

lemma pin_word_claim: "pin_word_ok 0 P R \<Longrightarrow> P = {} \<and> R = {} \<and> pin_word_ok EVICTING P {t}"
  by (auto simp: pin_word_ok_def split: if_splits)

lemma pin_word_release:
  "pin_word_ok w P R \<Longrightarrow> t \<in> R \<Longrightarrow> w = EVICTING \<and> P = {} \<and> R = {t} \<and> pin_word_ok 0 {} {} \<and> pin_word_ok 1 {t} {}"
  by (auto simp: pin_word_ok_def split: if_splits)

lemma latch_word_take:
  assumes "latch_word_ok w S X" "t \<notin> S"
  shows "latch_state w < MAX_SHARED \<Longrightarrow> X = {} \<and> latch_word_ok (w + 1) (insert t S) X"
    "latch_state w = 0 \<Longrightarrow> S = {} \<and> X = {} \<and> latch_word_ok (with_state w EXCLUSIVE_STATE) S {t}"
proof -
  show "X = {} \<and> latch_word_ok (w + 1) (insert t S) X" if m: "latch_state w < MAX_SHARED"
  proof -
    have u: "unat (latch_state w) < 2 ^ 16 - 2" using m by (simp add: word_less_nat_alt unat_MAX_SHARED)
    then have "latch_state w \<noteq> EXCLUSIVE_STATE" using unat_EXCLUSIVE_STATE by auto
    then have "X = {}" "finite S" "unat (latch_state w) = card S" using assms(1) by (auto simp: latch_word_ok_def split: if_splits)
    then show ?thesis using assms(2) state_inc(2)[of w] u by (auto simp: latch_word_ok_def)
  qed
  show "S = {} \<and> X = {} \<and> latch_word_ok (with_state w EXCLUSIVE_STATE) S {t}" if "latch_state w = 0"
    using that assms(1) by (auto simp: latch_word_ok_def EXCLUSIVE_STATE_def split: if_splits)
qed

lemma latch_word_drop:
  assumes "latch_word_ok w S X"
  shows "t \<in> S \<Longrightarrow> X = {} \<and> release_shared w = Some (w - 1) \<and> latch_word_ok (w - 1) (S - {t}) X"
    "t \<in> X \<Longrightarrow> S = {} \<and> X = {t} \<and> latch_state w = EXCLUSIVE_STATE \<and> latch_word_ok (bump_word w) S {}"
proof -
  show "X = {} \<and> release_shared w = Some (w - 1) \<and> latch_word_ok (w - 1) (S - {t}) X" if "t \<in> S"
  proof -
    have c: "X = {}" "finite S" "unat (latch_state w) = card S" "card S < 2 ^ 16 - 1" "0 < card S"
      using assms that by (auto simp: latch_word_ok_def card_gt_0_iff split: if_splits)
    then have "1 \<le> latch_state w \<and> latch_state w \<le> MAX_SHARED" by (simp add: word_le_nat_alt unat_MAX_SHARED)
    then show ?thesis using c state_dec(2)[of w] that by (auto simp: latch_word_ok_def release_shared_def)
  qed
  show "S = {} \<and> X = {t} \<and> latch_state w = EXCLUSIVE_STATE \<and> latch_word_ok (bump_word w) S {}" if "t \<in> X"
    using that assms by (auto simp: latch_word_ok_def split: if_splits)
qed

text \<open>What the operations of a frame do, in every state.\<close>

lemma lock_eq:
  "frame_lock_exclusive f = (if latch_state (fr_latch f) = 0 then (oOk (), f\<lparr>fr_latch := with_state (fr_latch f) EXCLUSIVE_STATE\<rparr>) else (oBlocks, f))"
  "frame_lock_shared f = (if latch_state (fr_latch f) < MAX_SHARED then (oOk (), f\<lparr>fr_latch := fr_latch f + 1\<rparr>) else (oBlocks, f))"
  by (simp_all add: frame_lock_exclusive_def lock_exclusive_def try_lock_exclusive_once_quiet frame_lock_shared_def lock_shared_def try_lock_shared_once_quiet)

lemma drop_eq:
  "frame_drop_exclusive f = (if latch_state (fr_latch f) = EXCLUSIVE_STATE then (oOk (), f\<lparr>fr_latch := bump_word (fr_latch f)\<rparr>)
     else (oPanic ''exclusive guard released an invalid latch state'', f))"
  by (simp add: frame_drop_exclusive_def release_exclusive_def bump_word_def)

lemma install_eq:
  "frame_install p h f = (oOk g, f') \<longleftrightarrow> pid_is_valid p \<and> fr_pin_control f = EVICTING \<and> latch_state (fr_latch f) = 0 \<and> g = fr_generation f + 1 \<and> f' = installed p h f"
  by (auto simp: frame_install_def installed_def op_bind_def op_get_def op_modify_def op_assert_def op_panic_def op_return_def lock_eq split: if_splits)

lemma clear_eq:
  "clear_after_eviction f = (oOk (), f') \<longleftrightarrow> fr_pin_control f = EVICTING \<and> latch_state (fr_latch f) = 0 \<and> f' = cleared f"
  by (auto simp: clear_after_eviction_def cleared_def is_evicting_def op_bind_def op_get_def op_modify_def op_assert_def op_panic_def op_return_def lock_eq split: if_splits)

lemma latched_write_eq:
  "latched_write f f' \<longleftrightarrow> latch_state (fr_latch f) = 0 \<and> f' = f\<lparr>fr_latch := bump_word (with_state (fr_latch f) EXCLUSIVE_STATE)\<rparr>"
  by (auto simp: latched_write_def lock_eq split: if_splits)

lemma try_pin_D: "frame_try_pin f = (True, f') \<Longrightarrow> \<exists>w. pin_update (fr_pin_control f) = Some w \<and> f' = f\<lparr>fr_pin_control := w\<rparr>"
  by (auto simp: frame_try_pin_eq split: option.splits)

lemma unpin_D: "frame_unpin f = (oOk (), f') \<Longrightarrow> \<exists>w. unpin_word (fr_pin_control f) = oOk w \<and> f' = f\<lparr>fr_pin_control := w\<rparr>"
  by (auto simp: frame_unpin_def split: outcome.splits)

lemma drop_shared_D: "frame_drop_shared f = (oOk (), f') \<Longrightarrow> \<exists>w. release_shared (fr_latch f) = Some w \<and> f' = f\<lparr>fr_latch := w\<rparr>"
  by (auto simp: frame_drop_shared_def split: option.splits)

section \<open>Pins and reservations\<close>

abbreviation same_pins :: "pool_memory \<Rightarrow> pool_memory \<Rightarrow> bool" where
  "same_pins s s' \<equiv> \<forall>i. fr_pin_control (sh_frame s' i) = fr_pin_control (sh_frame s i)"

lemma pins_keep:
  assumes "pins_inv (l, s)" "pinned pc' = pinned (l t)" "reserves pc' = reserves (l t)" "same_pins s s'"
  shows "pins_inv (l(t := pc'), s')"
proof -
  have "holders pinned (l(t := pc')) i = holders pinned l i" "holders reserves (l(t := pc')) i = holders reserves l i" for i
    using assms(2,3) by (auto simp: holders_upd)
  then show ?thesis using assms(1,4) by (simp add: pins_inv_def)
qed

lemma pins_change:
  assumes "pins_inv (l, s)" "\<And>j. j \<noteq> i \<Longrightarrow> pinned pc' \<noteq> Some j \<and> pinned (l t) \<noteq> Some j \<and> reserves pc' \<noteq> Some j \<and> reserves (l t) \<noteq> Some j"
    and "pin_word_ok (fr_pin_control f) (holders pinned (l(t := pc')) i) (holders reserves (l(t := pc')) i)"
  shows "pins_inv (l(t := pc'), frame_to i f s)"
  using assms by (auto simp: pins_inv_def holders_upd)

lemma pins_pin:
  assumes "pins_inv (l, s)" "s' = frame_to i f s" "pinned (l t) = None" "reserves (l t) = None" "pinned pc' = Some i" "reserves pc' = None" "frame_try_pin (sh_frame s i) = (True, f)"
  shows "pins_inv (l(t := pc'), s')"
unfolding assms(2)
proof (rule pins_change[OF assms(1)])
  show "pin_word_ok (fr_pin_control f) (holders pinned (l(t := pc')) i) (holders reserves (l(t := pc')) i)"
    using assms pin_word_pin[of "fr_pin_control (sh_frame s i)" "holders pinned l i" "holders reserves l i"] try_pin_D[OF assms(7)]
    by (auto simp: holders_upd pins_inv_def)
qed (use assms in auto)

lemma pins_unpin:
  assumes "pins_inv (l, s)" "s' = frame_to i f s" "pinned (l t) = Some i" "reserves (l t) = None" "pinned pc' = None" "reserves pc' = None" "frame_unpin (sh_frame s i) = (oOk (), f)"
  shows "pins_inv (l(t := pc'), s')"
unfolding assms(2)
proof (rule pins_change[OF assms(1)])
  show "pin_word_ok (fr_pin_control f) (holders pinned (l(t := pc')) i) (holders reserves (l(t := pc')) i)"
    using assms pin_word_unpin[of "fr_pin_control (sh_frame s i)" "holders pinned l i" "holders reserves l i" t] unpin_D[OF assms(7)]
    by (auto simp: holders_upd pins_inv_def)
qed (use assms in auto)

lemma pins_claim:
  assumes "pins_inv (l, s)" "s' = frame_to i f s" "pinned (l t) = None" "reserves (l t) = None" "pinned pc' = None" "reserves pc' = Some i" "try_claim_eviction (sh_frame s i) = (True, f)"
  shows "pins_inv (l(t := pc'), s')"
unfolding assms(2)
proof (rule pins_change[OF assms(1)])
  have "fr_pin_control (sh_frame s i) = 0" "f = (sh_frame s i)\<lparr>fr_pin_control := EVICTING\<rparr>" using assms(7) by (auto simp: try_claim_eviction_eq split: if_splits)
  then show "pin_word_ok (fr_pin_control f) (holders pinned (l(t := pc')) i) (holders reserves (l(t := pc')) i)"
    using assms pin_word_claim[of "holders pinned l i" "holders reserves l i" t]
    by (auto simp: holders_upd pins_inv_def) metis
qed (use assms in auto)

lemma pins_release:
  assumes "pins_inv (l, s)" "s' = frame_to i f s" "pinned (l t) = None" "reserves (l t) = Some i" "pinned pc' = None" "reserves pc' = None" "release_eviction (sh_frame s i) = (oOk (), f)"
  shows "pins_inv (l(t := pc'), s')"
unfolding assms(2)
proof (rule pins_change[OF assms(1)])
  have "pin_word_ok (fr_pin_control (sh_frame s i)) (holders pinned l i) (holders reserves l i)" using assms(1) by (simp add: pins_inv_def)
  then show "pin_word_ok (fr_pin_control f) (holders pinned (l(t := pc')) i) (holders reserves (l(t := pc')) i)"
    using assms pin_word_release[of "fr_pin_control (sh_frame s i)" "holders pinned l i" "holders reserves l i" t]
    by (auto simp: holders_upd release_eviction_eq split: if_splits)
qed (use assms in auto)

lemma pins_publish:
  assumes "pins_inv (l, s)" "s' = frame_to i f s" "pinned (l t) = None" "reserves (l t) = Some i" "pinned pc' = Some i" "reserves pc' = None" "publish_reserved_pin (sh_frame s i) = (oOk (), f)"
  shows "pins_inv (l(t := pc'), s')"
unfolding assms(2)
proof (rule pins_change[OF assms(1)])
  have "pin_word_ok (fr_pin_control (sh_frame s i)) (holders pinned l i) (holders reserves l i)" using assms(1) by (simp add: pins_inv_def)
  then show "pin_word_ok (fr_pin_control f) (holders pinned (l(t := pc')) i) (holders reserves (l(t := pc')) i)"
    using assms pin_word_release[of "fr_pin_control (sh_frame s i)" "holders pinned l i" "holders reserves l i" t]
    by (auto simp: holders_upd publish_reserved_pin_eq split: if_splits)
qed (use assms in auto)

lemma drop_latch_pins: "drop_latch x f = (oOk (), f') \<Longrightarrow> fr_pin_control f' = fr_pin_control f"
  by (auto simp: drop_latch_def drop_eq split: if_splits dest!: drop_shared_D)

text \<open>What a step does to the word with the pins of a frame.\<close>

definition pin_effect :: "pc \<Rightarrow> pool_memory \<Rightarrow> pc \<Rightarrow> pool_memory \<Rightarrow> bool" where
  "pin_effect pc s pc' s' \<longleftrightarrow> (pinned pc' = pinned pc \<and> reserves pc' = reserves pc \<and> same_pins s s') \<or> (\<exists>i f. s' = frame_to i f s \<and>
     (pinned pc = None \<and> reserves pc = None \<and> pinned pc' = Some i \<and> reserves pc' = None \<and> frame_try_pin (sh_frame s i) = (True, f)
      \<or> pinned pc = Some i \<and> reserves pc = None \<and> pinned pc' = None \<and> reserves pc' = None \<and> frame_unpin (sh_frame s i) = (oOk (), f)
      \<or> pinned pc = None \<and> reserves pc = None \<and> pinned pc' = None \<and> reserves pc' = Some i \<and> try_claim_eviction (sh_frame s i) = (True, f)
      \<or> pinned pc = None \<and> reserves pc = Some i \<and> pinned pc' = None \<and> reserves pc' = None \<and> release_eviction (sh_frame s i) = (oOk (), f)
      \<or> pinned pc = None \<and> reserves pc = Some i \<and> pinned pc' = Some i \<and> reserves pc' = None \<and> publish_reserved_pin (sh_frame s i) = (oOk (), f)))"

lemma take_latch_pins: "take_latch x f = (oOk (), f') \<Longrightarrow> fr_pin_control f' = fr_pin_control f"
  by (auto simp: take_latch_def lock_eq split: if_splits)

lemmas keeps_pins = take_latch_pins drop_latch_pins take_latch_pins[of True, unfolded take_latch_def, simplified] drop_latch_pins[of True, unfolded drop_latch_def, simplified]

lemma act_pins: "act t pc s a pc' s' \<Longrightarrow> knows s pc \<Longrightarrow> pin_effect pc s pc' s'"
  by (elim act_cases)
    (auto simp: pin_effect_def keeps_pins install_eq clear_eq latched_write_eq installed_def cleared_def set_dirty_def resurrect_def split: option.splits)

lemma pins_step:
  assumes "act t (l t) s a pc' s'" "pins_inv (l, s)" "knows s (l t)"
  shows "pins_inv (l(t := pc'), s')"
  using act_pins[OF assms(1,3)] unfolding pin_effect_def
  by (elim disjE exE conjE)
    (blast intro: pins_keep[OF assms(2)] pins_pin[OF assms(2)] pins_unpin[OF assms(2)] pins_claim[OF assms(2)] pins_release[OF assms(2)] pins_publish[OF assms(2)])+

text \<open>What the counts say of two activities.\<close>

lemma reserved_excludes:
  assumes "pins_inv (l, s)" "reserves (l t) = Some i"
  shows "pinned (l t') \<noteq> Some i" "reserves (l t') = Some i \<Longrightarrow> t' = t"
proof -
  have "t \<in> holders reserves l i" "pin_word_ok (fr_pin_control (sh_frame s i)) (holders pinned l i) (holders reserves l i)"
    using assms by (auto simp: pins_inv_def)
  from pin_word_release[OF this(2,1)] have "holders pinned l i = {}" "holders reserves l i = {t}" by auto
  then show "pinned (l t') \<noteq> Some i" "reserves (l t') = Some i \<Longrightarrow> t' = t" by (auto simp: holders_def)
qed

section \<open>Latches\<close>

definition latch_effect :: "pc \<Rightarrow> pool_memory \<Rightarrow> pc \<Rightarrow> pool_memory \<Rightarrow> bool" where
  "latch_effect pc s pc' s' \<longleftrightarrow> (holds_latch pc' = holds_latch pc \<and> (\<forall>i. latch_state (fr_latch (sh_frame s' i)) = latch_state (fr_latch (sh_frame s i))))
     \<or> (\<exists>x i f. s' = frame_to i f s \<and>
      (holds_latch pc = None \<and> holds_latch pc' = Some (x, i) \<and> take_latch x (sh_frame s i) = (oOk (), f)
      \<or> holds_latch pc = Some (x, i) \<and> holds_latch pc' = None \<and> drop_latch x (sh_frame s i) = (oOk (), f)))"

lemma keeps_latch:
  "frame_try_pin f = (b, f') \<Longrightarrow> fr_latch f' = fr_latch f"
  "frame_unpin f = (oOk (), f') \<Longrightarrow> fr_latch f' = fr_latch f"
  "try_claim_eviction f = (b, f') \<Longrightarrow> fr_latch f' = fr_latch f"
  "release_eviction f = (oOk (), f') \<Longrightarrow> fr_latch f' = fr_latch f"
  "publish_reserved_pin f = (oOk (), f') \<Longrightarrow> fr_latch f' = fr_latch f"
  by (auto simp: frame_try_pin_eq try_claim_eviction_eq release_eviction_eq publish_reserved_pin_eq split: option.splits if_splits dest!: unpin_D)

lemma act_latches: "act t pc s a pc' s' \<Longrightarrow> knows s pc \<Longrightarrow> latch_effect pc s pc' s'"
  by (elim act_cases)
    (auto simp: latch_effect_def take_latch_def drop_latch_def keeps_latch install_eq clear_eq latched_write_eq installed_def cleared_def
      set_dirty_def resurrect_def split: option.splits)

lemma latch_word_state: "latch_state w = latch_state v \<Longrightarrow> latch_word_ok w S X = latch_word_ok v S X"
  by (simp add: latch_word_ok_def)

lemma latches_change:
  assumes "latches_inv (l, s)" "\<And>x j. j \<noteq> i \<Longrightarrow> holds_latch pc' \<noteq> Some (x, j) \<and> holds_latch (l t) \<noteq> Some (x, j)"
    and "latch_word_ok (fr_latch f) (holders holds_latch (l(t := pc')) (False, i)) (holders holds_latch (l(t := pc')) (True, i))"
  shows "latches_inv (l(t := pc'), frame_to i f s)"
  using assms by (auto simp: latches_inv_def holders_upd)

lemma take_latch_word:
  assumes "latch_word_ok (fr_latch f) S X" "take_latch x f = (oOk (), f')" "t \<notin> S"
  shows "latch_word_ok (fr_latch f') (if x then S else insert t S) (if x then insert t X else X)"
  using assms latch_word_take[OF assms(1,3)] by (auto simp: take_latch_def lock_eq split: if_splits)

lemma drop_latch_word:
  assumes "latch_word_ok (fr_latch f) S X" "drop_latch x f = (oOk (), f')" "t \<in> (if x then X else S)"
  shows "latch_word_ok (fr_latch f') (S - {t}) (X - {t})"
  using assms latch_word_drop[OF assms(1), of t] by (cases x) (auto simp: drop_latch_def drop_eq split: if_splits dest!: drop_shared_D)

lemma latches_step:
  assumes "act t (l t) s a pc' s'" "latches_inv (l, s)" "knows s (l t)"
  shows "latches_inv (l(t := pc'), s')"
proof -
  consider (same) "holds_latch pc' = holds_latch (l t)" "\<And>i. latch_state (fr_latch (sh_frame s' i)) = latch_state (fr_latch (sh_frame s i))"
    | (take) x i f where "s' = frame_to i f s" "holds_latch (l t) = None" "holds_latch pc' = Some (x, i)" "take_latch x (sh_frame s i) = (oOk (), f)"
    | (drop) x i f where "s' = frame_to i f s" "holds_latch (l t) = Some (x, i)" "holds_latch pc' = None" "drop_latch x (sh_frame s i) = (oOk (), f)"
    using act_latches[OF assms(1,3)] unfolding latch_effect_def by blast
  then show ?thesis
  proof cases
    case same
    then have "holders holds_latch (l(t := pc')) = holders holds_latch l" by (auto simp: holders_def fun_eq_iff)
    then show ?thesis using assms(2) by (simp add: latches_inv_def latch_word_state[OF same(2)])
  next
    case take
    have "latch_word_ok (fr_latch (sh_frame s i)) (holders holds_latch l (False, i)) (holders holds_latch l (True, i))" using assms(2) by (auto simp: latches_inv_def)
    from take_latch_word[OF this take(4), of t] show ?thesis unfolding take(1)
      by (intro latches_change[OF assms(2)]) (use take in \<open>auto simp: holders_upd split: if_splits\<close>)
  next
    case drop
    have "latch_word_ok (fr_latch (sh_frame s i)) (holders holds_latch l (False, i)) (holders holds_latch l (True, i))" using assms(2) by (auto simp: latches_inv_def)
    from drop_latch_word[OF this drop(4), of t] show ?thesis unfolding drop(1)
      by (intro latches_change[OF assms(2)]) (use drop in \<open>auto simp: holders_upd split: if_splits\<close>)
  qed
qed

lemma exclusive_excludes:
  assumes "latches_inv (l, s)" "holds_latch (l t) = Some (True, i)" "holds_latch (l t') = Some (x, i)"
  shows "t' = t"
proof -
  have "t \<in> holders holds_latch l (True, i)" "latch_word_ok (fr_latch (sh_frame s i)) (holders holds_latch l (False, i)) (holders holds_latch l (True, i))"
    using assms by (auto simp: latches_inv_def)
  from latch_word_drop(2)[OF this(2,1)] have "holders holds_latch l (False, i) = {}" "holders holds_latch l (True, i) = {t}" by auto
  then show ?thesis using assms(3) by (cases x) (auto simp: holders_def)
qed

section \<open>What a step leaves to the others\<close>

text \<open>Who may change the word of a handle, a directory entry, a location and the fields of a frame.\<close>

lemma act_grows: "act t pc s a pc' s' \<Longrightarrow> sh_pages s \<subseteq> sh_pages s' \<and> sh_known s \<subseteq> sh_known s'"
  by (elim act_cases) (auto simp: resurrect_def split: option.splits)

definition place_change :: "pc \<Rightarrow> pool_memory \<Rightarrow> pc \<Rightarrow> pool_memory \<Rightarrow> page_id \<Rightarrow> bool" where
  "place_change pc s pc' s' p \<longleftrightarrow>
      (\<exists>i. sh_swip s p = InHot i \<and> sh_swip s' p = InCooling i)
    \<or> (\<exists>i. sh_swip s p = InCooling i \<and> sh_swip s' p = InHot i \<and> (pinned pc = Some i \<or> reserves pc = Some i))
    \<or> (\<exists>i. sh_swip s p = InCooling i \<and> sh_swip s' p = InTier \<and> reserves pc = Some i \<and> holds_frame pc' = Some i \<and> backed s' p (sh_data s i))
    \<or> (\<exists>i. sh_swip s p = InTier \<and> sh_swip s' p = InHot i \<and> holds_frame pc = Some i \<and> holds_frame pc' = None \<and> occupies s' p i \<and> sh_free s' = sh_free s
        \<and> (leads pc = Some p \<and> backed s p (sh_data s' i) \<and> backed s' p (sh_data s' i) \<or> creates pc = Some p \<and> fr_dirty (sh_frame s' i)))"

lemma act_place: "act t pc s a pc' s' \<Longrightarrow> knows s pc \<Longrightarrow> sh_swip s' p \<noteq> sh_swip s p \<Longrightarrow> place_change pc s pc' s' p"
  unfolding place_change_def by (elim act_cases) (auto simp: resurrect_def backed_def occupies_def split: option.splits if_splits)

lemma act_dir:
  "act t pc s a pc' s' \<Longrightarrow> knows s pc \<Longrightarrow> sh_dir s' p \<noteq> sh_dir s p \<Longrightarrow>
    (\<exists>i old l dirty. pc = Evicting (EvInsert i p old l dirty) \<and> sh_dir s' p = Some l)"
  by (elim act_cases) (auto simp: resurrect_def split: option.splits if_splits)

lemma act_store:
  "act t pc s a pc' s' \<Longrightarrow> knows s pc \<Longrightarrow> sh_store s' k \<noteq> sh_store s k \<Longrightarrow>
    sh_store s k = None \<and> has_location pc' = Some k \<or> has_location pc = Some k \<and> pc = Clearing (EvFree k)"
  by (elim act_cases) (auto simp: resurrect_def split: option.splits if_splits)

lemma act_data:
  "act t pc s a pc' s' \<Longrightarrow> knows s pc \<Longrightarrow> sh_data s' i \<noteq> sh_data s i \<Longrightarrow>
    (\<exists>p. pc = Fixing (Write p i)) \<or> reserves pc = Some i \<and> holds_frame pc = Some i"
  by (elim act_cases) (auto simp: resurrect_def split: option.splits if_splits)

lemma keeps_fields:
  "take_latch x f = (oOk (), f') \<Longrightarrow> (fr_dirty f', fr_owner_swip f', fr_pid f') = (fr_dirty f, fr_owner_swip f, fr_pid f)"
  "drop_latch x f = (oOk (), f') \<Longrightarrow> (fr_dirty f', fr_owner_swip f', fr_pid f') = (fr_dirty f, fr_owner_swip f, fr_pid f)"
  "frame_try_pin f = (b, f') \<Longrightarrow> (fr_dirty f', fr_owner_swip f', fr_pid f') = (fr_dirty f, fr_owner_swip f, fr_pid f)"
  "frame_unpin f = (oOk (), f') \<Longrightarrow> (fr_dirty f', fr_owner_swip f', fr_pid f') = (fr_dirty f, fr_owner_swip f, fr_pid f)"
  "try_claim_eviction f = (b, f') \<Longrightarrow> (fr_dirty f', fr_owner_swip f', fr_pid f') = (fr_dirty f, fr_owner_swip f, fr_pid f)"
  "release_eviction f = (oOk (), f') \<Longrightarrow> (fr_dirty f', fr_owner_swip f', fr_pid f') = (fr_dirty f, fr_owner_swip f, fr_pid f)"
  "publish_reserved_pin f = (oOk (), f') \<Longrightarrow> (fr_dirty f', fr_owner_swip f', fr_pid f') = (fr_dirty f, fr_owner_swip f, fr_pid f)"
  by (auto simp: take_latch_def drop_latch_def lock_eq drop_eq frame_try_pin_eq try_claim_eviction_eq release_eviction_eq publish_reserved_pin_eq
      split: option.splits if_splits dest!: unpin_D drop_shared_D)

lemmas field_facts = keeps_fields[simplified] keeps_fields(1)[of True, unfolded take_latch_def, simplified] keeps_fields(2)[of True, unfolded drop_latch_def, simplified]

lemma act_dirty:
  "act t pc s a pc' s' \<Longrightarrow> knows s pc \<Longrightarrow> fr_dirty (sh_frame s' i) \<noteq> fr_dirty (sh_frame s i) \<Longrightarrow>
    (fr_dirty (sh_frame s' i) \<and> sh_data s' i = sh_data s i) \<or> reserves pc = Some i \<and> (holds_frame pc = Some i \<or> (\<exists>p old new dirty. pc = Evicting (EvClean i p old new dirty)))"
  by (elim act_cases)
    (auto simp: resurrect_def field_facts install_eq clear_eq latched_write_eq set_dirty_def split: option.splits if_splits)

lemma act_occupies:
  "act t pc s a pc' s' \<Longrightarrow> knows s pc \<Longrightarrow> occupies s' p i \<noteq> occupies s p i \<Longrightarrow> reserves pc = Some i \<and> holds_frame pc = Some i"
  by (elim act_cases)
    (auto simp: occupies_def resurrect_def field_facts install_eq clear_eq latched_write_eq set_dirty_def split: option.splits if_splits)

text \<open>How the roles, the frames and the locations of an activity change hands.\<close>

lemma act_owned:
  "act t pc s a pc' s' \<Longrightarrow> knows s pc \<Longrightarrow>
    (holds_frame pc' = holds_frame pc \<or> holds_frame pc' = None) \<and> sh_free s' = sh_free s
    \<or> (\<exists>i. holds_frame pc = Some i \<and> holds_frame pc' = None \<and> sh_free s' = insert i (sh_free s))
    \<or> (\<exists>i. holds_frame pc = None \<and> holds_frame pc' = Some i \<and> (i \<in> sh_free s \<and> sh_free s' = sh_free s - {i}
        \<or> sh_free s' = sh_free s \<and> (\<exists>p. sh_swip s p = InCooling i \<and> sh_swip s' p = InTier)))"
  by (elim act_cases) (auto simp: resurrect_def split: option.splits if_splits)

lemma act_leads:
  "act t pc s a pc' s' \<Longrightarrow> knows s pc \<Longrightarrow>
    leads pc' = leads pc \<and> sh_leaders s' = sh_leaders s
    \<or> (\<exists>p. leads pc = None \<and> leads pc' = Some p \<and> p \<in> sh_pages s \<and> p \<notin> sh_leaders s \<and> sh_leaders s' = insert p (sh_leaders s))
    \<or> (\<exists>p. leads pc = Some p \<and> leads pc' = None \<and> sh_leaders s' = sh_leaders s - {p})"
  by (elim act_cases) (auto simp: resurrect_def split: option.splits if_splits)

lemma act_creates:
  "act t pc s a pc' s' \<Longrightarrow> knows s pc \<Longrightarrow>
    creates pc' = creates pc \<and> sh_known s' = sh_known s \<and> sh_pages s' = sh_pages s
    \<or> (\<exists>p. creates pc = None \<and> creates pc' = Some p \<and> p \<notin> sh_known s \<and> pid_is_valid p \<and> sh_known s' = insert p (sh_known s) \<and> sh_pages s' = sh_pages s)
    \<or> (\<exists>p. creates pc = Some p \<and> creates pc' = None \<and> sh_swip s' p \<noteq> InTier \<and> sh_known s' = sh_known s \<and> sh_pages s' = insert p (sh_pages s))"
  by (elim act_cases) (auto simp: resurrect_def resident_exact_def split: option.splits if_splits)

lemma act_location:
  "act t pc s a pc' s' \<Longrightarrow> knows s pc \<Longrightarrow>
    has_location pc' = has_location pc \<and> sh_dir s' = sh_dir s \<and> sh_store s' = sh_store s
    \<or> (\<exists>k d. has_location pc = None \<and> has_location pc' = Some k \<and> sh_store s k = None \<and> sh_store s' = (sh_store s)(k \<mapsto> d) \<and> sh_dir s' = sh_dir s)
    \<or> (\<exists>k. has_location pc = Some k \<and> has_location pc' = None \<and> sh_store s' = (sh_store s)(k := None) \<and> sh_dir s' = sh_dir s)
    \<or> (\<exists>p k. has_location pc = Some k \<and> has_location pc' = sh_dir s p \<and> p \<in> sh_pages s \<and> sh_dir s' = (sh_dir s)(p \<mapsto> k) \<and> sh_store s' = sh_store s)"
  by (elim act_cases) (auto simp: resurrect_def split: option.splits if_splits)

lemma act_knows:
  "act t pc s a pc' s' \<Longrightarrow> knows s pc \<Longrightarrow> (\<And>p i. in_frame s p i \<Longrightarrow> \<not> fr_dirty (sh_frame s i) \<Longrightarrow> backed s p (sh_data s i)) \<Longrightarrow>
    (\<And>p. p \<notin> sh_known s \<Longrightarrow> sh_swip s p = InTier) \<Longrightarrow> knows s' pc'"
  by (elim act_cases)
    (auto simp: resurrect_def resident_exact_def ticket_exact_def backed_def occupies_def field_facts install_eq installed_def set_dirty_def split: option.splits if_splits)

end
