(* ===== verification/Interleaving_Invariant.thy ===== *)
theory Interleaving_Invariant
  imports Interleaving_Safety
begin

text \<open>The invariant of all interleavings: what an activity knows is stable under the steps of the others.\<close>

section \<open>Stability\<close>

lemma invD:
  assumes "interleaving_inv (l, s)"
  shows "pins_inv (l, s)" "latches_inv (l, s)" "frames_inv (l, s)" "roles_inv (l, s)" "tiers_inv (l, s)" "content_inv (l, s)" "knows s (l t)"
  using assms by (auto simp: interleaving_inv_def knows_inv_def)

lemma ownedD:
  assumes "frames_inv (l, s)"
  shows "holds_frame (l t) = Some i \<Longrightarrow> i \<notin> sh_free s" "holds_frame (l t) = Some i \<Longrightarrow> \<not> in_frame s p i"
    "holds_frame (l t) = Some i \<Longrightarrow> holds_frame (l t') = Some i \<Longrightarrow> t = t'" "i \<in> sh_free s \<Longrightarrow> \<not> in_frame s p i"
    "in_frame s p i \<Longrightarrow> occupies s p i" "in_frame s p i \<Longrightarrow> p \<in> sh_known s"
  using assms by (auto simp: frames_inv_def alone_def)

lemma rolesD:
  assumes "roles_inv (l, s)"
  shows "leads (l t) = Some p \<Longrightarrow> leads (l t') = Some p \<Longrightarrow> t = t'" "creates (l t) = Some p \<Longrightarrow> creates (l t') = Some p \<Longrightarrow> t = t'"
    "leads (l t) = Some p \<Longrightarrow> p \<in> sh_leaders s" "leads (l t) = Some p \<Longrightarrow> p \<in> sh_pages s" "creates (l t) = Some p \<Longrightarrow> p \<in> sh_known s"
    "creates (l t) = Some p \<Longrightarrow> p \<notin> sh_pages s" "p \<in> sh_pages s \<Longrightarrow> p \<in> sh_known s" "p \<in> sh_leaders s \<Longrightarrow> p \<in> sh_pages s" "p \<in> sh_known s \<Longrightarrow> pid_is_valid p"
  using assms by (auto simp: roles_inv_def alone_def)

lemma tiersD:
  assumes "tiers_inv (l, s)"
  shows "has_location (l t) = Some k \<Longrightarrow> has_location (l t') = Some k \<Longrightarrow> t = t'" "has_location (l t) = Some k \<Longrightarrow> sh_store s k \<noteq> None"
    "has_location (l t) = Some k \<Longrightarrow> sh_dir s p \<noteq> Some k" "sh_dir s p = Some k \<Longrightarrow> sh_store s k \<noteq> None" "sh_dir s p = Some k \<Longrightarrow> p \<in> sh_pages s"
    "sh_dir s p = Some k \<Longrightarrow> sh_dir s q = Some k \<Longrightarrow> p = q"
  using assms by (auto simp: tiers_inv_def alone_def ran_def)

lemma occupies_unique: "occupies s p i \<Longrightarrow> occupies s q i \<Longrightarrow> p = q"
  by (simp add: occupies_def)

lemma in_frame_Cooling [simp]: "sh_swip s p = InCooling i \<Longrightarrow> in_frame s p i" "sh_swip s p = InHot i \<Longrightarrow> in_frame s p i"
  by simp_all

text \<open>The frame of an insertion into the directory holds the page.\<close>

lemma insert_place: "interleaving_inv (l, s) \<Longrightarrow> l t = Evicting (EvInsert i p old k dirty) \<Longrightarrow> sh_swip s p = InCooling i \<and> reserves (l t) = Some i"
  using invD(7)[of l s t] by auto

text \<open>
  The contract that every step keeps towards the other activities: a handle, a directory entry, a location, the data
  and the fields of a frame change only at the hands of an activity with the pin, the reservation or the role for it.
\<close>

locale residency_protocol =
  fixes stp :: "nat \<Rightarrow> pc \<Rightarrow> pool_memory \<Rightarrow> action \<Rightarrow> pc \<Rightarrow> pool_memory \<Rightarrow> bool"
  assumes grows: "stp t pc s a pc' s' \<Longrightarrow> sh_pages s \<subseteq> sh_pages s' \<and> sh_known s \<subseteq> sh_known s'"
    and place: "stp t pc s a pc' s' \<Longrightarrow> knows s pc \<Longrightarrow> sh_swip s' p \<noteq> sh_swip s p \<Longrightarrow> place_change pc s pc' s' p"
    and dir: "stp t pc s a pc' s' \<Longrightarrow> knows s pc \<Longrightarrow> sh_dir s' p \<noteq> sh_dir s p \<Longrightarrow> \<exists>i old k dirty. pc = Evicting (EvInsert i p old k dirty) \<and> sh_dir s' p = Some k"
    and store: "stp t pc s a pc' s' \<Longrightarrow> knows s pc \<Longrightarrow> sh_store s' k \<noteq> sh_store s k \<Longrightarrow>
      sh_store s k = None \<and> has_location pc' = Some k \<or> has_location pc = Some k \<and> pc = Clearing (EvFree k)"
    and data: "stp t pc s a pc' s' \<Longrightarrow> knows s pc \<Longrightarrow> sh_data s' i \<noteq> sh_data s i \<Longrightarrow> (\<exists>p. pc = Fixing (Write p i)) \<or> reserves pc = Some i \<and> holds_frame pc = Some i"
    and dirty: "stp t pc s a pc' s' \<Longrightarrow> knows s pc \<Longrightarrow> fr_dirty (sh_frame s' i) \<noteq> fr_dirty (sh_frame s i) \<Longrightarrow>
      (fr_dirty (sh_frame s' i) \<and> sh_data s' i = sh_data s i) \<or> reserves pc = Some i \<and> (holds_frame pc = Some i \<or> (\<exists>p old new dirty. pc = Evicting (EvClean i p old new dirty)))"
    and occupied: "stp t pc s a pc' s' \<Longrightarrow> knows s pc \<Longrightarrow> occupies s' p i \<noteq> occupies s p i \<Longrightarrow> reserves pc = Some i \<and> holds_frame pc = Some i"
begin

lemma keeps_in_frame:
  assumes inv: "interleaving_inv (l, s)" and act: "stp t (l t) s a pc' s'" and other: "t' \<noteq> t"
    and "pinned (l t') = Some i" "in_frame s p i"
  shows "in_frame s' p i"
proof (cases "sh_swip s' p = sh_swip s p")
  case False
  from place[OF act invD(7)[OF inv] this, unfolded place_change_def] show ?thesis
    using assms(4-) reserved_excludes(1)[OF invD(1)[OF inv], of t i t'] by auto
qed (use assms(4-) in simp)

lemma keeps_tier:
  assumes inv: "interleaving_inv (l, s)" and act: "stp t (l t) s a pc' s'" and other: "t' \<noteq> t"
    and "leads (l t') = Some p \<or> creates (l t') = Some p" "sh_swip s p = InTier"
  shows "sh_swip s' p = InTier"
proof (rule ccontr)
  assume "sh_swip s' p \<noteq> InTier"
  then have "leads (l t) = Some p \<or> creates (l t) = Some p" using place[OF act invD(7)[OF inv], of p, unfolded place_change_def] assms(5) by auto
  then show False using assms(4) other rolesD(1,2,4,6)[OF invD(4)[OF inv]] by blast
qed

lemma keeps_cooling:
  assumes inv: "interleaving_inv (l, s)" and act: "stp t (l t) s a pc' s'" and other: "t' \<noteq> t"
    and "reserves (l t') = Some i" "sh_swip s p = InCooling i"
  shows "sh_swip s' p = InCooling i"
proof (rule ccontr)
  assume "sh_swip s' p \<noteq> InCooling i"
  then have "pinned (l t) = Some i \<or> reserves (l t) = Some i" using place[OF act invD(7)[OF inv], of p, unfolded place_change_def] assms(5) by auto
  then show False using reserved_excludes[OF invD(1)[OF inv] assms(4), of t] other by blast
qed

lemma keeps_dir:
  assumes inv: "interleaving_inv (l, s)" and act: "stp t (l t) s a pc' s'" and other: "t' \<noteq> t"
    and "sh_swip s p = InTier \<or> (\<exists>i. reserves (l t') = Some i \<and> sh_swip s p = InCooling i)"
  shows "sh_dir s' p = sh_dir s p"
proof (rule ccontr)
  assume "sh_dir s' p \<noteq> sh_dir s p"
  from dir[OF act invD(7)[OF inv] this] obtain i old k dirty where e: "l t = Evicting (EvInsert i p old k dirty)" by blast
  from insert_place[OF inv e] assms(4) have "reserves (l t') = Some i" "reserves (l t) = Some i" by auto
  then show False using reserved_excludes(2)[OF invD(1)[OF inv]] other by blast
qed

lemma keeps_store:
  assumes inv: "interleaving_inv (l, s)" and act: "stp t (l t) s a pc' s'" and other: "t' \<noteq> t"
    and "has_location (l t') = Some k \<or> sh_dir s p = Some k"
  shows "sh_store s' k = sh_store s k"
proof (rule ccontr)
  have some: "sh_store s k \<noteq> None" using assms(4-) tiersD(2,4)[OF invD(5)[OF inv]] by blast
  assume "sh_store s' k \<noteq> sh_store s k"
  from store[OF act invD(7)[OF inv] this] some have "has_location (l t) = Some k" by blast
  then show False using assms(4-) other tiersD(1,3)[OF invD(5)[OF inv]] by blast
qed

lemma keeps_backed:
  assumes inv: "interleaving_inv (l, s)" and act: "stp t (l t) s a pc' s'" and other: "t' \<noteq> t"
  shows "sh_dir s' p = sh_dir s p \<Longrightarrow> backed s p d \<Longrightarrow> backed s' p d"
  unfolding backed_def using keeps_store[OF inv act other] by metis

lemma keeps_data:
  assumes inv: "interleaving_inv (l, s)" and act: "stp t (l t) s a pc' s'" and other: "t' \<noteq> t"
    and "reserves (l t') = Some i \<or> holds_frame (l t') = Some i \<or> (\<exists>p. in_frame s p i \<and> creates (l t') = Some p)"
  shows "sh_data s' i = sh_data s i"
proof (rule ccontr)
  assume "sh_data s' i \<noteq> sh_data s i"
  then consider (writes) p where "l t = Fixing (Write p i)" | (fills) "reserves (l t) = Some i" "holds_frame (l t) = Some i"
    using data[OF act invD(7)[OF inv]] by blast
  then show False
  proof cases
    case writes
    then have "p \<in> sh_pages s" "in_frame s p i" "pinned (l t) = Some i" using invD(7)[OF inv, of t] by auto
    then show False using assms(4-) reserved_excludes(1)[OF invD(1)[OF inv]] ownedD(2,5)[OF invD(3)[OF inv]] rolesD(6)[OF invD(4)[OF inv]] occupies_unique
      by metis
  next
    case fills
    then show False using assms(4-) other reserved_excludes(2)[OF invD(1)[OF inv]] ownedD(2,3)[OF invD(3)[OF inv]] by metis
  qed
qed

lemma keeps_dirty:
  assumes inv: "interleaving_inv (l, s)" and act: "stp t (l t) s a pc' s'" and other: "t' \<noteq> t"
  shows "reserves (l t') = Some i \<or> pinned (l t') = Some i \<Longrightarrow> fr_dirty (sh_frame s i) \<Longrightarrow> fr_dirty (sh_frame s' i)"
  using dirty[OF act invD(7)[OF inv], of i] reserved_excludes[OF invD(1)[OF inv]] other by metis

lemma keeps_occupies:
  assumes inv: "interleaving_inv (l, s)" and act: "stp t (l t) s a pc' s'" and other: "t' \<noteq> t"
  shows "reserves (l t') = Some i \<or> pinned (l t') = Some i \<Longrightarrow> occupies s' p i = occupies s p i"
  using occupied[OF act invD(7)[OF inv], of p i] reserved_excludes[OF invD(1)[OF inv]] other by metis

lemma keeps_pages:
  assumes act: "stp t pc s a pc' s'"
  shows "p \<in> sh_pages s \<Longrightarrow> p \<in> sh_pages s'"
  using grows[OF act] by blast

lemma keeps_knows:
  assumes inv: "interleaving_inv (l, s)" and act: "stp t (l t) s a pc' s'" and other: "t' \<noteq> t"
    and "knows s (l t')"
  shows "knows s' (l t')"
  using assms(4)
  by (cases "(s, l t')" rule: knows.cases)
    (auto simp: keeps_pages[OF act] keeps_in_frame[OF inv act other] keeps_tier[OF inv act other] keeps_cooling[OF inv act other] keeps_dir[OF inv act other]
      keeps_store[OF inv act other] keeps_data[OF inv act other] keeps_dirty[OF inv act other] keeps_occupies[OF inv act other]
      intro: keeps_backed[OF inv act other])

end

interpretation residency: residency_protocol act
  by unfold_locales (fact act_grows act_place act_dir act_store act_data act_dirty act_occupies)+

section \<open>Preservation\<close>

lemma alone_upd: "alone f (l(t := pc)) \<longleftrightarrow> (\<forall>u v a. u \<noteq> t \<longrightarrow> v \<noteq> t \<longrightarrow> f (l u) = Some a \<longrightarrow> f (l v) = Some a \<longrightarrow> u = v)
    \<and> (\<forall>u a. u \<noteq> t \<longrightarrow> f (l u) = Some a \<longrightarrow> f pc \<noteq> Some a)"
  by (auto simp: alone_def)

text \<open>A page that was not in a frame before a step is there because the step has brought it.\<close>

lemma placed_now:
  assumes "interleaving_inv (l, s)" "act t (l t) s a pc' s'" "in_frame s' p i" "\<not> in_frame s p i"
  shows "holds_frame (l t) = Some i" "holds_frame pc' = None" "sh_free s' = sh_free s" "leads (l t) = Some p \<or> creates (l t) = Some p" "occupies s' p i"
    "fr_dirty (sh_frame s' i) \<or> backed s' p (sh_data s' i)"
proof -
  have "sh_swip s' p \<noteq> sh_swip s p" using assms(3,4) by auto
  from act_place[OF assms(2) invD(7)[OF assms(1)] this] assms(3,4)
  show "holds_frame (l t) = Some i" "holds_frame pc' = None" "sh_free s' = sh_free s" "leads (l t) = Some p \<or> creates (l t) = Some p" "occupies s' p i"
    "fr_dirty (sh_frame s' i) \<or> backed s' p (sh_data s' i)"
    by (auto simp: place_change_def)
qed

lemma frames_step:
  assumes inv: "interleaving_inv (l, s)" and act: "act t (l t) s a pc' s'"
  shows "frames_inv (l(t := pc'), s')"
proof -
  note f = ownedD[OF invD(3)[OF inv]]
  note o = act_owned[OF act invD(7)[OF inv]]
  have fresh: "holds_frame pc' \<noteq> Some i" if "holds_frame (l u) = Some i" "u \<noteq> t" for u i
    using o that f(1)[of u i] f(2)[of u i] f(3)[of u i t] by (auto dest: in_frame_Cooling(1))
  have gone: "\<not> in_frame s' p i" if own: "holds_frame ((l(t := pc')) u) = Some i" for u p i
  proof
    assume p: "in_frame s' p i"
    show False
    proof (cases "in_frame s p i")
      case True
      then have "holds_frame (l u) \<noteq> Some i" using f(2) by blast
      then have "u = t" using own by (simp split: if_splits)
      then obtain q where q: "sh_swip s q = InCooling i" "sh_swip s' q = InTier" using own o True f(2)[of t i p] f(4)[of i p] by auto
      then have "q = p" using f(5) True occupies_unique by (metis in_frame_Cooling(1))
      then show False using q(2) p by simp
    next
      case False
      from placed_now(1,2)[OF inv act p this] show False using own f(3)[of u i t] by (auto split: if_splits)
    qed
  qed
  have notfree: "i \<notin> sh_free s'" if "holds_frame ((l(t := pc')) u) = Some i" for u i
  proof (cases "u = t")
    case True
    then show ?thesis using o that f(1)[of t i] f(4)[of i] by (auto dest: in_frame_Cooling(1))
  next
    case False
    then show ?thesis using o that f(1)[of u i] f(3)[of u i t] by auto
  qed
  have free: "\<not> in_frame s' p i" if "i \<in> sh_free s'" for p i
  proof
    assume p: "in_frame s' p i"
    show False
    proof (cases "in_frame s p i")
      case True
      then show False using that o f(2)[of t i p] f(4)[of i p] by auto
    next
      case False
      from placed_now(1,3)[OF inv act p this] show False using that f(1) by auto
    qed
  qed
  have occ: "occupies s' p i \<and> p \<in> sh_known s'" if p: "in_frame s' p i" for p i
  proof (cases "in_frame s p i")
    case True
    then show ?thesis using act_occupies[OF act invD(7)[OF inv], of p i] f(2,5,6) act_grows[OF act] by blast
  next
    case False
    from placed_now(4,5)[OF inv act p this] show ?thesis using rolesD(4,5,7)[OF invD(4)[OF inv]] act_grows[OF act] by blast
  qed
  have "alone holds_frame (l(t := pc'))" unfolding alone_upd using f(3) fresh by blast
  then show ?thesis using gone notfree free occ by (auto simp: frames_inv_def)
qed

lemma roles_step:
  assumes inv: "interleaving_inv (l, s)" and act: "act t (l t) s a pc' s'"
  shows "roles_inv (l(t := pc'), s')"
proof -
  note r = rolesD[OF invD(4)[OF inv]]
  have k: "knows s (l t)" using invD(7)[OF inv] .
  have c: "alone creates (l(t := pc'))" "sh_pages s' \<subseteq> sh_known s'" "\<forall>p \<in> sh_known s'. pid_is_valid p"
    "\<forall>u p. creates ((l(t := pc')) u) = Some p \<longrightarrow> p \<in> sh_known s' - sh_pages s'"
    using act_creates[OF act k] r(2,5,6,7,9) by (auto simp: alone_upd)
  have "alone leads (l(t := pc'))" "sh_leaders s' \<subseteq> sh_pages s" "\<forall>u p. leads ((l(t := pc')) u) = Some p \<longrightarrow> p \<in> sh_leaders s'"
    using act_leads[OF act k] r(1,3,8) by (auto simp: alone_upd)
  then show ?thesis using c act_grows[OF act] by (auto simp: roles_inv_def)
qed

lemma tiers_step:
  assumes inv: "interleaving_inv (l, s)" and act: "act t (l t) s a pc' s'"
  shows "tiers_inv (l(t := pc'), s')"
proof -
  note d = tiersD[OF invD(5)[OF inv]]
  have k: "knows s (l t)" using invD(7)[OF inv] .
  have pages: "sh_pages s \<subseteq> sh_pages s'" using act_grows[OF act] by blast
  have 1: "alone has_location (l(t := pc'))"
    unfolding alone_upd
  proof (intro conjI allI impI)
    show "u = v" if "has_location (l u) = Some c" "has_location (l v) = Some c" for u v c using d(1) that by blast
    show "has_location pc' \<noteq> Some c" if "u \<noteq> t" "has_location (l u) = Some c" for u c
      using act_location[OF act k] d(1)[of u c t] d(2)[of u c] d(3)[of u c] that by (elim disjE exE conjE) auto
  qed
  have 2: "sh_store s' k \<noteq> None \<and> sh_dir s' p \<noteq> Some k" if "has_location ((l(t := pc')) u) = Some k" for u k p
  proof (cases "u = t")
    case True
    then show ?thesis using act_location[OF act k] d(2)[of t k] d(3)[of t] d(4)[of _ k] d(6)[of p k] that
      by (elim disjE exE conjE) (auto split: if_splits)
  next
    case False
    then show ?thesis using act_location[OF act k] d(1)[of u k t] d(2)[of u k] d(3)[of u k] that by (elim disjE exE conjE) (auto split: if_splits)
  qed
  have 3: "sh_store s' k \<noteq> None \<and> p \<in> sh_pages s'" if "sh_dir s' p = Some k" for p k
    using act_location[OF act k] d(2,3,4,5) that pages by (elim disjE exE conjE) (auto split: if_splits)
  have 4: "p = q" if "sh_dir s' p = Some k" "sh_dir s' q = Some k" for p q k
    using act_location[OF act k] d(3,6) that by (elim disjE exE conjE) (auto split: if_splits)
  show ?thesis using 1 2 3 4 unfolding tiers_inv_def ran_def by blast
qed

lemma own_backed:
  assumes inv: "interleaving_inv (l, s)" and act: "act t (l t) s a pc' s'" and "sh_dir s' p = sh_dir s p" "backed s p d"
  shows "backed s' p d"
proof -
  obtain k where k: "sh_dir s p = Some k" "sh_store s k = Some d" using assms(4) by (auto simp: backed_def)
  then have "sh_store s' k = sh_store s k" using act_store[OF act invD(7)[OF inv], of k] tiersD(3)[OF invD(5)[OF inv]] by auto
  then show ?thesis using k assms(3) by (auto simp: backed_def)
qed

lemma clean_backed:
  assumes inv: "interleaving_inv (l, s)" and act: "act t (l t) s a pc' s'" and p: "in_frame s p i" "\<not> fr_dirty (sh_frame s' i)"
  shows "backed s' p (sh_data s' i)"
proof -
  have k: "knows s (l t)" using invD(7)[OF inv] .
  have own: "holds_frame (l t) \<noteq> Some i" using p(1) ownedD(2)[OF invD(3)[OF inv]] by blast
  have unique: "q = p" if "in_frame s q i" for q using that p(1) ownedD(5)[OF invD(3)[OF inv]] occupies_unique by blast
  have data: "sh_data s' i = sh_data s i"
  proof (rule ccontr)
    assume "sh_data s' i \<noteq> sh_data s i"
    with act_data[OF act k] own obtain q where "l t = Fixing (Write q i)" by blast
    then show False using act_dirty[OF act k, of i] p(2) k by auto
  qed
  have before: "backed s p (sh_data s i)"
  proof (cases "fr_dirty (sh_frame s i)")
    case True
    then obtain q old new dirty where "l t = Evicting (EvClean i q old new dirty)" using act_dirty[OF act k, of i] own p(2) by auto
    then show ?thesis using k unique[of q] by auto
  next
    case False
    then show ?thesis using invD(6)[OF inv] p(1) by (auto simp: content_inv_def)
  qed
  show ?thesis
  proof (cases "sh_dir s' p = sh_dir s p")
    case True
    then show ?thesis using own_backed[OF inv act] before data by simp
  next
    case False
    from act_dir[OF act k this] obtain j old c dirty where e: "l t = Evicting (EvInsert j p old c dirty)" "sh_dir s' p = Some c" by blast
    then have "j = i" "sh_store s c = Some (sh_data s i)" using k p(1) by auto
    moreover have "sh_store s' c = sh_store s c" using act_store[OF act k, of c] e(1) calculation(2) by auto
    ultimately show ?thesis using e(2) data by (auto simp: backed_def)
  qed
qed

lemma content_step:
  assumes inv: "interleaving_inv (l, s)" and act: "act t (l t) s a pc' s'"
  shows "content_inv (l(t := pc'), s')"
proof -
  have k: "knows s (l t)" using invD(7)[OF inv] .
  have 1: "sh_dir s' p \<noteq> None" if p: "p \<in> sh_pages s'" "sh_swip s' p = InTier" for p
  proof (cases "sh_swip s p = InTier")
    case True
    then have "p \<in> sh_pages s" using act_creates[OF act k] p by auto
    then have "sh_dir s p \<noteq> None" using True invD(6)[OF inv] by (auto simp: content_inv_def)
    then show ?thesis using act_dir[OF act k, of p] by (cases "sh_dir s' p = sh_dir s p") auto
  next
    case False
    then show ?thesis using act_place[OF act k, of p] p(2) by (auto simp: place_change_def backed_def)
  qed
  have 2: "backed s' p (sh_data s' i)" if "in_frame s' p i" "\<not> fr_dirty (sh_frame s' i)" for p i
    using clean_backed[OF inv act _ that(2)] placed_now(6)[OF inv act that(1)] that(2) by blast
  show ?thesis using 1 2 by (auto simp: content_inv_def)
qed

lemma knows_step:
  assumes inv: "interleaving_inv (l, s)" and act: "act t (l t) s a pc' s'"
  shows "knows_inv (l(t := pc'), s')"
proof -
  have "knows s' pc'"
  proof (rule act_knows[OF act invD(7)[OF inv]])
    show "backed s p (sh_data s i)" if "in_frame s p i" "\<not> fr_dirty (sh_frame s i)" for p i using that invD(6)[OF inv] by (auto simp: content_inv_def)
    show "sh_swip s p = InTier" if "p \<notin> sh_known s" for p using that ownedD(6)[OF invD(3)[OF inv]] by (cases "sh_swip s p") auto
  qed
  moreover have "knows s' (l u)" if "u \<noteq> t" for u using residency.keeps_knows[OF inv act that invD(7)[OF inv]] .
  ultimately show ?thesis by (auto simp: knows_inv_def)
qed

lemma interleaving_step:
  assumes "interleaving_inv (l, s)" "act t (l t) s a pc' s'"
  shows "interleaving_inv (l(t := pc'), s')"
  using pins_step[OF assms(2) invD(1,7)[OF assms(1)]] latches_step[OF assms(2) invD(2,7)[OF assms(1)]] frames_step[OF assms] roles_step[OF assms]
    tiers_step[OF assms] content_step[OF assms] knows_step[OF assms] by (simp add: interleaving_inv_def)

lemma interleaving_start: "interleaving_inv (\<lambda>_. Idle, memory_new n)"
  by (simp add: interleaving_inv_def pins_inv_def latches_inv_def frames_inv_def roles_inv_def tiers_inv_def content_inv_def knows_inv_def
      memory_new_def holders_def alone_def pin_word_ok_def latch_word_ok_def frame_new_def latch_new_def latch_state_def)

lemma runs_inv: "pool_runs n as st \<Longrightarrow> interleaving_inv st"
  by (induction rule: pool_runs.induct) (auto intro: interleaving_start interleaving_step)

end
