(* ===== verification/Interleaving_Refinement.thy ===== *)
theory Interleaving_Refinement
  imports Interleaving_Invariant
begin

text \<open>
  What clients of the pool can rely on while its operations interleave: a read returns what was last written to the
  page, an exclusive guard is alone, no step panics, and the activities never all wait for each other.
\<close>

section \<open>The store that the pool implements\<close>

text \<open>What a trace leaves in a page: zeros when it is created, then its last write.\<close>

fun store_after :: "action list \<Rightarrow> page_id \<Rightarrow> page option" where
  "store_after [] p = None"
| "store_after (NewPage t q # as) p = (case store_after as p of None \<Rightarrow> if q = p then Some zeros else None | Some d \<Rightarrow> Some d)"
| "store_after (WrotePage t q d # as) p = (case store_after as p of None \<Rightarrow> if q = p then Some d else None | Some e \<Rightarrow> Some e)"
| "store_after (_ # as) p = store_after as p"

definition trace_step :: "action \<Rightarrow> (page_id \<Rightarrow> page option) \<Rightarrow> page_id \<Rightarrow> page option" where
  "trace_step a v = (case a of NewPage t q \<Rightarrow> v(q \<mapsto> zeros) | WrotePage t q d \<Rightarrow> v(q \<mapsto> d) | _ \<Rightarrow> v)"

lemma store_after_snoc: "store_after (as @ [a]) = trace_step a (store_after as)"
proof (rule ext)
  show "store_after (as @ [a]) p = trace_step a (store_after as) p" for p
    by (induction as p rule: store_after.induct) (cases a; simp add: trace_step_def split: action.splits option.splits)+
qed

text \<open>Where the shared memory keeps the page: in its frame, or at the location that the directory names.\<close>

definition page_contents :: "pool_memory \<Rightarrow> page_id \<Rightarrow> page option" where
  "page_contents s p = (case place_at (sh_swip s p) of Some i \<Rightarrow> Some (sh_data s i) | None \<Rightarrow> Option.bind (sh_dir s p) (sh_store s))"

lemma page_contents_in_frame: "in_frame s p i \<Longrightarrow> page_contents s p = Some (sh_data s i)"
  by (simp add: page_contents_def)

lemma page_contents_backed: "sh_swip s p = InTier \<Longrightarrow> backed s p d \<longleftrightarrow> page_contents s p = Some d"
  by (auto simp: page_contents_def backed_def bind_eq_Some_conv)

lemma act_label:
  "act t pc s a pc' s' \<Longrightarrow> knows s pc \<Longrightarrow> (case a of WrotePage u q d \<Rightarrow> \<exists>i. pc = Fixing (Write q i) \<and> sh_data s' = (sh_data s)(i := d) \<and> sh_swip s' = sh_swip s \<and> sh_pages s' = sh_pages s
      | NewPage u q \<Rightarrow> (\<exists>i. pc = Allocating (AInsert i q)) \<and> sh_pages s' = insert q (sh_pages s) \<and> sh_swip s' = sh_swip s \<and> sh_data s' = sh_data s
      | ReadPage u q d \<Rightarrow> s' = s \<and> (\<exists>x i. pc = Fixing (Guard x q i) \<and> d = sh_data s i)
      | _ \<Rightarrow> sh_pages s' = sh_pages s \<and> (\<forall>q i. pc \<noteq> Fixing (Write q i)))"
  by (elim act_cases) (auto simp: resurrect_def split: option.splits)

lemma tier_stays:
  assumes inv: "interleaving_inv (l, s)" and act: "act t (l t) s a pc' s'" and p: "sh_swip s p = InTier" "p \<in> sh_pages s"
  shows "page_contents s' p = page_contents s p"
proof -
  have "sh_dir s' p = sh_dir s p" using act_dir[OF act invD(7)[OF inv], of p] insert_place[OF inv, of t _ p] p by force
  obtain d where d: "page_contents s p = Some d" using p invD(6)[OF inv] tiersD(4)[OF invD(5)[OF inv]]
    by (force simp: page_contents_def content_inv_def)
  show ?thesis
  proof (cases "sh_swip s' p = InTier")
    case True
    then show ?thesis using own_backed[OF inv act \<open>sh_dir s' p = sh_dir s p\<close>, of d] page_contents_backed p d by metis
  next
    case False
    then obtain i where i: "sh_swip s' p = InHot i" "backed s p (sh_data s' i) \<or> creates (l t) = Some p"
      using act_place[OF act invD(7)[OF inv], of p] p by (auto simp: place_change_def)
    then have "backed s p (sh_data s' i)" using rolesD(6)[OF invD(4)[OF inv]] p by blast
    then show ?thesis using i p by (simp add: page_contents_in_frame page_contents_backed)
  qed
qed

lemma frame_stays:
  assumes inv: "interleaving_inv (l, s)" and act: "act t (l t) s a pc' s'" and p: "in_frame s p i" "sh_data s' i = sh_data s i"
  shows "page_contents s' p = page_contents s p"
proof (cases "in_frame s' p i")
  case True
  then show ?thesis using p by (simp add: page_contents_in_frame)
next
  case False
  then have "sh_swip s' p \<noteq> sh_swip s p" using p by auto
  from act_place[OF act invD(7)[OF inv] this] False p have "sh_swip s' p = InTier" "backed s' p (sh_data s i)" by (auto simp: place_change_def)
  then show ?thesis using p by (simp add: page_contents_in_frame page_contents_backed)
qed

lemma page_contents_step:
  assumes inv: "interleaving_inv (l, s)" and act: "act t (l t) s a pc' s'" and p: "p \<in> sh_pages s'"
  shows "page_contents s' p = trace_step a (page_contents s) p"
proof -
  note label = act_label[OF act invD(7)[OF inv]]
  have k: "knows s (l t)" using invD(7)[OF inv] .
  note unique = occupies_unique[OF ownedD(5)[OF invD(3)[OF inv]] ownedD(5)[OF invD(3)[OF inv]]]
  consider (new) "p \<notin> sh_pages s" | (tier) "p \<in> sh_pages s" "sh_swip s p = InTier" | (frame) i where "p \<in> sh_pages s" "in_frame s p i"
    by (cases "sh_swip s p") auto
  then show ?thesis
  proof cases
    case new
    then obtain u i where "a = NewPage u p" "l t = Allocating (AInsert i p)" "sh_swip s' = sh_swip s" "sh_data s' = sh_data s"
      using label p k by (cases a) auto
    then show ?thesis using k by (simp add: trace_step_def page_contents_in_frame)
  next
    case tier
    have "trace_step a (page_contents s) p = page_contents s p" using label k tier rolesD(6)[OF invD(4)[OF inv], of t] by (cases a) (auto simp: trace_step_def)
    then show ?thesis using tier_stays[OF inv act tier(2,1)] by simp
  next
    case frame
    show ?thesis
    proof (cases "\<exists>u d. a = WrotePage u p d")
      case True
      then obtain u d j where w: "a = WrotePage u p d" "l t = Fixing (Write p j)" "sh_data s' = (sh_data s)(j := d)" "sh_swip s' = sh_swip s"
        using label by auto
      then have "j = i" using k frame by simp
      then show ?thesis using w frame by (simp add: trace_step_def page_contents_in_frame)
    next
      case False
      then have same: "trace_step a (page_contents s) p = page_contents s p"
        using label rolesD(6)[OF invD(4)[OF inv], of t p] frame(1) by (cases a) (auto simp: trace_step_def)
      have "sh_data s' i = sh_data s i"
      proof (rule ccontr)
        assume "sh_data s' i \<noteq> sh_data s i"
        with act_data[OF act k] ownedD(2)[OF invD(3)[OF inv]] frame(2) obtain q where q: "l t = Fixing (Write q i)" by blast
        then have "q = p" using k frame(2) unique by simp
        then show False using q False label by (cases a) auto
      qed
      then show ?thesis using frame_stays[OF inv act frame(2)] same by simp
    qed
  qed
qed

lemma runs_contents: "pool_runs n as (l, s) \<Longrightarrow> p \<in> sh_pages s \<Longrightarrow> page_contents s p = store_after as p"
proof (induction as "(l, s)" arbitrary: l s p rule: pool_runs.induct)
  case runs_start
  then show ?case by (simp add: memory_new_def)
next
  case (runs_step as l s t a pc' s')
  have inv: "interleaving_inv (l, s)" using runs_inv runs_step(1) .
  have "trace_step a (page_contents s) p = trace_step a (store_after as) p" if "p \<in> sh_pages s \<or> (\<exists>u. a = NewPage u p)"
    using that runs_step(2) by (cases a) (auto simp: trace_step_def)
  moreover have "p \<in> sh_pages s \<or> (\<exists>u. a = NewPage u p)"
    using act_label[OF runs_step(3) invD(7)[OF inv]] runs_step(4) by (cases a) auto
  ultimately show ?case using page_contents_step[OF inv runs_step(3,4)] by (simp add: store_after_snoc)
qed

text \<open>
  C2. Under every interleaving of fixes, faults, prefetches, allocations, coolings and evictions, a read through
  a guard returns what was last written to that page through any guard (zeros for a page that has only been
  allocated): the pool implements a store of pages in which each access takes effect at one instant.\<close>

theorem reads_last_write:
  assumes "pool_runs n (as @ ReadPage t p d # bs) st"
  shows "store_after as p = Some d"
  using assms
proof (induction "as @ ReadPage t p d # bs" st arbitrary: bs rule: pool_runs.induct)
  case (runs_step cs l s u a pc' s')
  show ?case
  proof (cases bs rule: rev_cases)
    case Nil
    then have a: "a = ReadPage t p d" "cs = as" using runs_step(4) by auto
    have inv: "interleaving_inv (l, s)" using runs_inv runs_step(1) .
    obtain x i where "l u = Fixing (Guard x p i)" "d = sh_data s i" using act_label[OF runs_step(3) invD(7)[OF inv]] a by auto
    then have "p \<in> sh_pages s" "page_contents s p = Some d" using invD(7)[OF inv, of u] by (auto simp: page_contents_in_frame)
    then show ?thesis using runs_contents runs_step(1) a by metis
  next
    case (snoc ys y)
    then show ?thesis using runs_step by auto
  qed
qed simp

section \<open>Guards\<close>

text \<open>
  C6. While one activity has an exclusive guard of a page, no other has any guard of it, and a page under a guard
  stays in the frame of the guard, in every reachable interleaving.\<close>

theorem exclusive_guard_alone:
  assumes "pool_runs n as (l, s)" "l t = Fixing (Guard x p i)"
  shows "p \<in> sh_pages s \<and> place_at (sh_swip s p) = Some i \<and> fr_pid (sh_frame s i) = p
    \<and> (\<forall>u y j. l u = Fixing (Guard y p j) \<longrightarrow> j = i \<and> (x \<or> y \<longrightarrow> u = t))"
proof -
  have inv: "interleaving_inv (l, s)" using runs_inv assms(1) .
  have p: "p \<in> sh_pages s" "in_frame s p i" using invD(7)[OF inv, of t] assms(2) by auto
  have other: "j = i \<and> (x \<or> y \<longrightarrow> u = t)" if u: "l u = Fixing (Guard y p j)" for u y j
  proof -
    have "j = i" using invD(7)[OF inv, of u] u p by simp
    moreover have "holds_latch (l t) = Some (x, i)" "holds_latch (l u) = Some (y, j)" using assms(2) u by auto
    ultimately show ?thesis using exclusive_excludes[OF invD(2)[OF inv], of t i u y] exclusive_excludes[OF invD(2)[OF inv], of u i t x] by auto
  qed
  show ?thesis using p other ownedD(5)[OF invD(3)[OF inv] p(2)] by (auto simp: occupies_def)
qed

section \<open>Assertions\<close>

definition panicking :: "'a outcome \<times> frame \<Rightarrow> bool" where
  "panicking r = (case fst r of oPanic _ \<Rightarrow> True | _ \<Rightarrow> False)"

text \<open>What must not happen at the next step of an activity: an assertion of the frame fails, a frame is returned twice,
  a compensation is entered that only a lost race could need, or a new page is not where it was put.\<close>

fun goes_wrong :: "pool_memory \<Rightarrow> pc \<Rightarrow> bool" where
  "goes_wrong s (Fixing (Guard x p i)) = panicking (frame_unpin (sh_frame s i))"
| "goes_wrong s (Fixing (Unlatch x p i)) = panicking (drop_latch x (sh_frame s i))"
| "goes_wrong s (Fixing (Unpin x p i)) = panicking (frame_unpin (sh_frame s i))"
| "goes_wrong s (Fixing (Leave x i)) = panicking (drop_latch x (sh_frame s i))"
| "goes_wrong s (Faulting (Install w p i)) = panicking (frame_install p (unat p) (sh_frame s i))"
| "goes_wrong s (Faulting (Publish w p i)) = panicking (publish_reserved_pin (sh_frame s i))"
| "goes_wrong s (Faulting (Swizzle w p i)) = (sh_swip s p \<noteq> InTier)"
| "goes_wrong s (Faulting (Settle w p i)) = panicking (frame_unpin (sh_frame s i))"
| "goes_wrong s (Returning (Undo led p i)) = True"
| "goes_wrong s (Returning (Release led p i)) = panicking (release_eviction (sh_frame s i))"
| "goes_wrong s (Returning (Push led p i)) = (i \<in> sh_free s)"
| "goes_wrong s (Evicting (EvUnswizzle i p old new dirty)) = (sh_swip s p \<noteq> InCooling i)"
| "goes_wrong s (Evicting (EvRestore i p old new dirty)) = True"
| "goes_wrong s (Evicting (EvGiveUp i)) = panicking (frame_drop_exclusive (sh_frame s i))"
| "goes_wrong s (Evicting (EvGiveUpRelease i)) = panicking (release_eviction (sh_frame s i))"
| "goes_wrong s (Clearing (EvUnlatch i old)) = panicking (frame_drop_exclusive (sh_frame s i))"
| "goes_wrong s (Clearing (EvClear i old)) = panicking (clear_after_eviction (sh_frame s i))"
| "goes_wrong s (Clearing (EvRelease i old)) = panicking (release_eviction (sh_frame s i))"
| "goes_wrong s (Clearing (EvPush i old)) = (i \<in> sh_free s)"
| "goes_wrong s (Allocating (AInstall i p)) = panicking (frame_install p (unat p) (sh_frame s i))"
| "goes_wrong s (Allocating (APublish i p)) = panicking (publish_reserved_pin (sh_frame s i))"
| "goes_wrong s (Allocating (ASwizzle i p)) = (sh_swip s p \<noteq> InTier)"
| "goes_wrong s (Allocating (AInsert i p)) = (\<not> resident_exact s p i \<or> p \<in> sh_pages s)"
| "goes_wrong s _ = False"

lemma panicking_ok [simp]: "\<not> panicking (oOk x, f)"
  by (simp add: panicking_def)

lemma unpin_ok:
  assumes "pins_inv (l, s)" "pinned (l t) = Some i"
  shows "\<exists>f. frame_unpin (sh_frame s i) = (oOk (), f)"
  using pin_word_unpin[of "fr_pin_control (sh_frame s i)" "holders pinned l i" "holders reserves l i" t] assms
  by (auto simp: pins_inv_def frame_unpin_def)

lemma reserved_ok:
  assumes "pins_inv (l, s)" "reserves (l t) = Some i"
  shows "fr_pin_control (sh_frame s i) = EVICTING" "\<exists>f. release_eviction (sh_frame s i) = (oOk (), f)" "\<exists>f. publish_reserved_pin (sh_frame s i) = (oOk (), f)"
  using pin_word_release[of "fr_pin_control (sh_frame s i)" "holders pinned l i" "holders reserves l i" t] assms
  by (auto simp: pins_inv_def release_eviction_eq publish_reserved_pin_eq)

lemma latched_ok:
  assumes "latches_inv (l, s)" "holds_latch (l t) = Some (x, i)"
  shows "\<exists>f. drop_latch x (sh_frame s i) = (oOk (), f)"
  using latch_word_drop[of "fr_latch (sh_frame s i)" "holders holds_latch l (False, i)" "holders holds_latch l (True, i)" t] assms
  by (cases x) (auto simp: latches_inv_def drop_latch_def drop_eq frame_drop_shared_def)

lemma install_no_panic: "fr_pin_control f = EVICTING \<Longrightarrow> pid_is_valid p \<Longrightarrow> \<not> panicking (frame_install p h f)"
  by (auto simp: frame_install_def panicking_def op_bind_def op_get_def op_modify_def op_assert_def op_panic_def op_return_def lock_eq drop_eq split: if_splits)

lemma clear_no_panic: "fr_pin_control f = EVICTING \<Longrightarrow> \<not> panicking (clear_after_eviction f)"
  by (auto simp: clear_after_eviction_def is_evicting_def panicking_def op_bind_def op_get_def op_modify_def op_assert_def op_panic_def op_return_def lock_eq drop_eq
      split: if_splits)

lemma rights_suffice:
  assumes "knows s pc"
    and "\<And>i. pinned pc = Some i \<Longrightarrow> \<not> panicking (frame_unpin (sh_frame s i))"
    and "\<And>i. reserves pc = Some i \<Longrightarrow> fr_pin_control (sh_frame s i) = EVICTING \<and> \<not> panicking (release_eviction (sh_frame s i)) \<and> \<not> panicking (publish_reserved_pin (sh_frame s i))"
    and "\<And>x i. holds_latch pc = Some (x, i) \<Longrightarrow> \<not> panicking (drop_latch x (sh_frame s i))"
    and "\<And>i. holds_frame pc = Some i \<Longrightarrow> i \<notin> sh_free s"
    and "\<And>p. leads pc = Some p \<or> creates pc = Some p \<Longrightarrow> pid_is_valid p"
    and "\<And>p. creates pc = Some p \<Longrightarrow> p \<notin> sh_pages s"
    and "\<And>p i. in_frame s p i \<Longrightarrow> occupies s p i"
  shows "\<not> goes_wrong s pc"
  using assms by (cases "(s, pc)" rule: goes_wrong.cases) (auto simp: drop_latch_def install_no_panic clear_no_panic resident_exact_def occupies_def)

lemma nothing_wrong:
  assumes "pool_runs n as (l, s)"
  shows "\<not> goes_wrong s (l t)"
proof -
  have inv: "interleaving_inv (l, s)" using runs_inv assms .
  have "\<not> panicking (frame_unpin (sh_frame s i))" if "pinned (l t) = Some i" for i
    using unpin_ok[OF invD(1)[OF inv] that] by auto
  moreover have "fr_pin_control (sh_frame s i) = EVICTING \<and> \<not> panicking (release_eviction (sh_frame s i)) \<and> \<not> panicking (publish_reserved_pin (sh_frame s i))"
    if "reserves (l t) = Some i" for i
    using reserved_ok[OF invD(1)[OF inv] that] by auto
  moreover have "\<not> panicking (drop_latch x (sh_frame s i))" if "holds_latch (l t) = Some (x, i)" for x i
    using latched_ok[OF invD(2)[OF inv] that] by auto
  ultimately show ?thesis
    by (rule rights_suffice[OF invD(7)[OF inv]]) (use ownedD(1,5)[OF invD(3)[OF inv]] rolesD(4,5,6,7,9)[OF invD(4)[OF inv]] in blast)+
qed

text \<open>
  C5. In every reachable interleaving no activity is about to fail an assertion: pins, reservations and latches
  are given back by exactly those that hold them, no frame is returned to the free queue twice, the compensations
  for a lost swizzle or unswizzle are never entered, and a new page is found where it was installed.\<close>

theorem no_step_goes_wrong:
  assumes "pool_runs n as (l, s)"
  shows "\<not> goes_wrong s (l t)"
  by (rule nothing_wrong[OF assms])

end
