(* ===== verification/Interleaving_Progress.thy ===== *)
theory Interleaving_Progress
  imports Interleaving_Refinement
begin

text \<open>Activities wait only for latches, and for the pins that a stale lookup leaves on a free frame; whoever holds a
  latch can always go on, so the activities never all wait.\<close>

definition moves :: "nat \<Rightarrow> pc \<Rightarrow> pool_memory \<Rightarrow> bool" where
  "moves t pc s \<longleftrightarrow> (\<exists>a pc' s'. act t pc s a pc' s' \<and> pc' \<noteq> pc)"

lemma act_moves: "act t pc s a pc' s' \<Longrightarrow> pc' \<noteq> pc \<Longrightarrow> moves t pc s"
  by (auto simp: moves_def)

lemmas fix_moves = act_moves[OF act_intros(1)] and fault_moves = act_moves[OF act_intros(2)] and return_moves = act_moves[OF act_intros(3)]
  and evict_moves = act_moves[OF act_intros(4)] and allocate_moves = act_moves[OF act_intros(5)]

lemmas all_moves = fix_step.intros[THEN fix_moves] fault_step.intros[THEN fault_moves] return_step.intros[THEN return_moves]
  evict_step.intros[THEN evict_moves] allocate_step.intros[THEN allocate_moves]

lemma drop_latch_ok: "\<exists>f. drop_latch True g = (oOk (), f) \<Longrightarrow> \<exists>f. frame_drop_exclusive g = (oOk (), f)"
  by (simp add: drop_latch_def)

lemma check_moves: "moves t (Evicting (EvCheck i p g)) s"
  by (cases "ticket_exact s i p g") (use evict_moves[OF evict_exact] evict_moves[OF evict_stale] in auto)

text \<open>The holder of a latch goes on: no step before it gives the latch back waits.\<close>

lemma holder_moves:
  assumes "knows s pc" "holds_latch pc = Some (x, i)" "\<exists>f. drop_latch x (sh_frame s i) = (oOk (), f)" "\<not> goes_wrong s pc"
    and "\<And>i. pinned pc = Some i \<Longrightarrow> \<exists>f. frame_unpin (sh_frame s i) = (oOk (), f)"
  shows "moves t pc s"
  using assms
  by (cases "pc" rule: holds_latch.cases) (auto simp: drop_latch_def check_moves intro: all_moves)

text \<open>With every latch free, an activity waits only to reserve the free frame that it has been given.\<close>

fun waits_for_frame :: "pc \<Rightarrow> nat option" where
  "waits_for_frame (Faulting (Claim x p l i)) = Some i"
| "waits_for_frame (Allocating (AClaim i)) = Some i"
| "waits_for_frame _ = None"

lemma free_latch:
  assumes "latch_state (fr_latch g) = 0"
  shows "\<exists>f. frame_lock_exclusive g = (oOk (), f)" "\<exists>f. take_latch x g = (oOk (), f)" "\<exists>f. latched_write g f"
  using assms by (auto simp: lock_eq take_latch_def latched_write_eq word_less_nat_alt unat_MAX_SHARED)

lemma free_latch_installs:
  assumes "latch_state (fr_latch g) = 0" "fr_pin_control g = EVICTING" "pid_is_valid p"
  shows "\<exists>u f. frame_install p h g = (oOk u, f)" "\<exists>f. clear_after_eviction g = (oOk (), f)"
  using assms by (auto simp: install_eq clear_eq)

lemma claim_unless_pinned: "fst (try_claim_eviction g) = False \<or> (\<exists>f. try_claim_eviction g = (True, f))"
  by (cases "try_claim_eviction g") auto

lemma pin_or_not: "fst (frame_try_pin g) = False \<or> (\<exists>f. frame_try_pin g = (True, f))"
  by (cases "frame_try_pin g") auto

lemma pin_moves: "moves t (Fixing (Pin x p i)) s"
  using pin_or_not[of "sh_frame s i"] fix_moves[OF pin_taken] fix_moves[OF pin_refused] by blast

lemma prefetch_moves: "moves t (Faulting (Prefetch i p)) s"
  using claim_unless_pinned[of "sh_frame s i"] fault_moves[OF prefetch_claim] fault_moves[OF prefetch_busy] by blast

lemma enter_moves: "w \<noteq> Prefetched \<Longrightarrow> moves t (Faulting (Enter w p)) s"
  by (cases w) (use fault_moves[OF follow_fix] fault_moves[OF follow_prefetch] in auto)

lemma load_moves: "moves t (Faulting (Load w p)) s"
  by (cases "sh_swip s p") (use fault_moves[OF load_resident] fault_moves[OF load_evicted] in auto)

lemma lookup_moves: "w \<noteq> Prefetched \<Longrightarrow> moves t (Faulting (Lookup w p)) s"
  by (cases w; cases "sh_dir s p") (use fault_moves[OF lookup_fix] fault_moves[OF lookup_prefetch] fault_moves[OF lookup_missing] in auto)

lemma finish_moves: "moves t (Faulting (Finish w p ok)) s"
  by (cases w) (use fault_moves[OF finish_fix] fault_moves[OF finish_prefetch] fault_moves[OF finish_unused] in auto)

lemma evict_push_moves: "moves t (Clearing (EvPush i old)) s"
  by (cases old) (use evict_moves[OF evict_push] in auto)

lemmas own_pace = evict_push_moves pin_moves prefetch_moves enter_moves load_moves lookup_moves finish_moves fix_moves[OF look_stops] fault_moves[OF acquire_fails]
  fault_moves[OF swizzle] return_moves[OF push] evict_moves[OF evict_busy] evict_moves[OF evict_free] allocate_moves[OF allocate_pid_fails]
  allocate_moves[OF allocate_dirty] allocate_moves[OF allocate_swizzle]

text \<open>The steps that return a pin or a reservation, and those that need a free latch.\<close>

lemma gives_back_moves:
  assumes "\<And>i. pinned pc = Some i \<Longrightarrow> \<exists>f. frame_unpin (sh_frame s i) = (oOk (), f)"
    and "\<And>i. reserves pc = Some i \<Longrightarrow> (\<exists>f. release_eviction (sh_frame s i) = (oOk (), f)) \<and> (\<exists>f. publish_reserved_pin (sh_frame s i) = (oOk (), f))"
  shows "pc = Fixing (Unpin x p i) \<Longrightarrow> moves t pc s" "pc = Faulting (Settle w p i) \<Longrightarrow> moves t pc s"
    "pc = Faulting (Publish w p i) \<Longrightarrow> moves t pc s" "pc = Returning (Release led p i) \<Longrightarrow> moves t pc s"
    "pc = Evicting (EvGiveUpRelease i) \<Longrightarrow> moves t pc s" "pc = Clearing (EvRelease i old) \<Longrightarrow> moves t pc s"
    "pc = Allocating (APublish i p) \<Longrightarrow> moves t pc s"
  using assms fix_moves[OF unpin] fault_moves[OF settle] fault_moves[OF publish] return_moves[OF release] evict_moves[OF evict_give_up_release]
    evict_moves[OF evict_release] allocate_moves[OF allocate_publish] by auto

lemma latching_moves:
  assumes "\<And>i. latch_state (fr_latch (sh_frame s i)) = 0"
  shows "moves t (Fixing (Latch x p i)) s" "moves t (Faulting (Fill w p k i)) s" "moves t (Evicting (EvLatch i p g)) s"
    "moves t (Allocating (AFill i p)) s" "moves t (Allocating (ALatch i p)) s"
    "fr_pin_control (sh_frame s i) = EVICTING \<Longrightarrow> pid_is_valid p \<Longrightarrow> moves t (Faulting (Install w p i)) s"
    "fr_pin_control (sh_frame s i) = EVICTING \<Longrightarrow> pid_is_valid p \<Longrightarrow> moves t (Allocating (AInstall i p)) s"
    "fr_pin_control (sh_frame s i) = EVICTING \<Longrightarrow> moves t (Clearing (EvClear i old)) s"
proof -
  show "moves t (Fixing (Latch x p i)) s" using free_latch(2)[OF assms, of x i] fix_moves[OF latch_taken] by auto
  show "moves t (Faulting (Fill w p k i)) s" using free_latch(3)[OF assms, of i] fault_moves[OF fill_fails] by auto
  show "moves t (Evicting (EvLatch i p g)) s" using free_latch(1)[OF assms, of i] evict_moves[OF evict_latch] by auto
  show "moves t (Allocating (AFill i p)) s" using free_latch(3)[OF assms, of i] allocate_moves[OF allocate_fill] by auto
  show "moves t (Allocating (ALatch i p)) s" using free_latch(1)[OF assms, of i] allocate_moves[OF allocate_latch] by auto
  assume e: "fr_pin_control (sh_frame s i) = EVICTING"
  show "moves t (Clearing (EvClear i old)) s" using free_latch_installs(2)[OF assms e] evict_moves[OF evict_clear] e by (auto simp: clear_eq assms)
  assume v: "pid_is_valid p"
  from free_latch_installs(1)[OF assms e v, of "unat p"] obtain u f where "frame_install p (unat p) (sh_frame s i) = (oOk u, f)" by blast
  then show "moves t (Faulting (Install w p i)) s" "moves t (Allocating (AInstall i p)) s" using fault_moves[OF install] allocate_moves[OF allocate_install] by auto
qed

lemma free_latches_move:
  assumes latches: "\<And>i. latch_state (fr_latch (sh_frame s i)) = 0" and k: "knows s pc" "\<not> goes_wrong s pc" "holds_latch pc = None" "pc \<noteq> Idle" "waits_for_frame pc = None"
    and p: "\<And>i. pinned pc = Some i \<Longrightarrow> \<exists>f. frame_unpin (sh_frame s i) = (oOk (), f)"
    and r: "\<And>i. reserves pc = Some i \<Longrightarrow> (\<exists>f. release_eviction (sh_frame s i) = (oOk (), f)) \<and> (\<exists>f. publish_reserved_pin (sh_frame s i) = (oOk (), f))"
    and e: "\<And>i. reserves pc = Some i \<Longrightarrow> fr_pin_control (sh_frame s i) = EVICTING"
    and v: "\<And>p. leads pc = Some p \<or> creates pc = Some p \<Longrightarrow> pid_is_valid p"
  shows "moves t pc s"
proof -
  note facts = k e v gives_back_moves[OF p r, where t = t]
  show ?thesis
  proof (cases pc)
    case (Fixing c)
    then show ?thesis using facts by (cases c) (auto simp: own_pace latching_moves[OF latches])
  next
    case (Faulting c)
    then show ?thesis using facts by (cases c) (auto simp: own_pace latching_moves[OF latches])
  next
    case (Returning c)
    then show ?thesis using facts by (cases c) (auto simp: own_pace latching_moves[OF latches])
  next
    case (Evicting c)
    then show ?thesis using facts by (cases c) (auto simp: own_pace latching_moves[OF latches])
  next
    case (Clearing c)
    then show ?thesis using facts by (cases c) (auto simp: own_pace latching_moves[OF latches])
  next
    case (Allocating c)
    then show ?thesis using facts by (cases c) (auto simp: own_pace latching_moves[OF latches])
  qed (use k in simp)
qed

lemma holder_or_free:
  assumes "latches_inv (l, s)"
  shows "latch_state (fr_latch (sh_frame s i)) = 0 \<or> (\<exists>u x. holds_latch (l u) = Some (x, i))"
proof (rule disjCI)
  assume "\<nexists>u x. holds_latch (l u) = Some (x, i)"
  then have "holders holds_latch l (x, i) = {}" for x by (auto simp: holders_def)
  then show "latch_state (fr_latch (sh_frame s i)) = 0" using assms by (auto simp: latches_inv_def latch_word_ok_def unat_eq_0 dest!: spec[of _ i])
qed

lemma pinner_or_free:
  assumes "pins_inv (l, s)"
  shows "fr_pin_control (sh_frame s i) = 0 \<or> (\<exists>u. pinned (l u) = Some i \<or> reserves (l u) = Some i)"
proof (rule disjCI)
  assume "\<nexists>u. pinned (l u) = Some i \<or> reserves (l u) = Some i"
  then have "holders pinned l i = {}" "holders reserves l i = {}" by (auto simp: holders_def)
  then show "fr_pin_control (sh_frame s i) = 0" using assms by (auto simp: pins_inv_def pin_word_ok_def unat_eq_0 dest!: spec[of _ i])
qed

lemma held_state:
  assumes "latches_inv (l, s)" "holds_latch (l u) = Some (x, i)"
  shows "latch_state (fr_latch (sh_frame s i)) \<noteq> 0"
proof -
  have "holders holds_latch l (x, i) \<noteq> {}" using assms(2) by (auto simp: holders_def)
  moreover have "latch_word_ok (fr_latch (sh_frame s i)) (holders holds_latch l (False, i)) (holders holds_latch l (True, i))" using assms(1) by (auto simp: latches_inv_def)
  ultimately show ?thesis by (cases x) (auto simp: latch_word_ok_def EXCLUSIVE_STATE_def split: if_splits)
qed

lemma latch_holder_moves:
  assumes "pool_runs n as (l, s)" "holds_latch (l u) = Some (x, i)"
  shows "moves u (l u) s"
  using holder_moves[OF invD(7)[OF runs_inv[OF assms(1)]] assms(2) latched_ok[OF invD(2)[OF runs_inv[OF assms(1)]] assms(2)] nothing_wrong[OF assms(1)]]
    unpin_ok[OF invD(1)[OF runs_inv[OF assms(1)]]] by blast

lemma others_move:
  assumes "pool_runs n as (l, s)" "\<And>i. latch_state (fr_latch (sh_frame s i)) = 0" "l u \<noteq> Idle" "waits_for_frame (l u) = None"
  shows "moves u (l u) s"
proof -
  note inv = runs_inv[OF assms(1)]
  have free: "holds_latch (l u) = None" using held_state[OF invD(2)[OF inv], of u] assms(2) by (cases "holds_latch (l u)") auto
  show ?thesis
    by (rule free_latches_move[OF assms(2) invD(7)[OF inv] nothing_wrong[OF assms(1)] free assms(3,4)])
      (use unpin_ok[OF invD(1)[OF inv]] reserved_ok[OF invD(1)[OF inv]] rolesD(4,5,7,9)[OF invD(4)[OF inv]] in blast)+
qed


end
