(* ===== verification/Interleaving_Runs.thy ===== *)
theory Interleaving_Runs
  imports Interleaving_Progress
begin

text \<open>Runs that show the theorems at work: an activity allocates page 0, writes it and reads it back.\<close>

abbreviation only :: "pc \<Rightarrow> nat \<Rightarrow> pc" where
  "only pc \<equiv> (\<lambda>_. Idle)(0 := pc)"

lemma only_step: "pool_runs n as (only pc, s) \<Longrightarrow> act 0 pc s a pc' s' \<Longrightarrow> pool_runs n (as @ [a]) (only pc', s')"
  using runs_step[of n as "only pc" s 0 a pc' s'] by simp

lemma only_free:
  assumes "pool_runs n as (only pc, s)"
  shows "holds_latch pc = None \<Longrightarrow> latch_state (fr_latch (sh_frame s i)) = 0" "reserves pc = Some i \<Longrightarrow> fr_pin_control (sh_frame s i) = EVICTING"
    "reserves pc = Some i \<Longrightarrow> \<exists>f. publish_reserved_pin (sh_frame s i) = (oOk (), f)" "knows s pc" "\<not> goes_wrong s pc"
proof -
  note inv = runs_inv[OF assms]
  show "holds_latch pc = None \<Longrightarrow> latch_state (fr_latch (sh_frame s i)) = 0" using holder_or_free[OF invD(2)[OF inv], of i] by (auto split: if_splits)
  show "reserves pc = Some i \<Longrightarrow> fr_pin_control (sh_frame s i) = EVICTING" "reserves pc = Some i \<Longrightarrow> \<exists>f. publish_reserved_pin (sh_frame s i) = (oOk (), f)"
    using reserved_ok(1,3)[OF invD(1)[OF inv], of 0 i] by auto
  show "knows s pc" using invD(7)[OF inv, of 0] by simp
  show "\<not> goes_wrong s pc" using nothing_wrong[OF assms, of 0] by simp
qed

lemma allocating_run: "\<exists>s. pool_runs 1 [Silent, Silent, Silent] (only (Allocating (AFill 0 0)), s)"
proof -
  have "only Idle = (\<lambda>_. Idle)" by (simp add: fun_eq_iff)
  then have "pool_runs 1 [] (only Idle, memory_new 1)" using runs_start[of 1] by (simp only:)
  from only_step[OF this act_intros(5)[OF start_allocate[of 0]]]
  have "pool_runs 1 [Silent] (only (Allocating (AClaim 0)), (memory_new 1)\<lparr>sh_free := {}\<rparr>)" by (simp add: memory_new_def lessThan_Suc)
  from only_step[OF this act_intros(5)[OF allocate_claim[of _ _ "frame_new\<lparr>fr_pin_control := EVICTING\<rparr>"]]]
  have "pool_runs 1 [Silent, Silent] (only (Allocating (APid 0)), frame_to 0 (frame_new\<lparr>fr_pin_control := EVICTING\<rparr>) ((memory_new 1)\<lparr>sh_free := {}\<rparr>))"
    by (simp add: memory_new_def try_claim_eviction_eq frame_new_def)
  from only_step[OF this act_intros(5)[OF allocate_pid_fresh[of 0]]] show ?thesis by (auto simp: memory_new_def pid_is_valid_def PID_INVALID_def)
qed

lemma new_page_run: "\<exists>s. pool_runs 1 (replicate 9 Silent @ [NewPage 0 0]) (only (Fixing (Guard True 0 0)), s)"
proof -
  obtain s3 where r3: "pool_runs 1 [Silent, Silent, Silent] (only (Allocating (AFill 0 0)), s3)" using allocating_run by blast
  obtain f4 where "latched_write (sh_frame s3 0) f4" using free_latch(3)[OF only_free(1)[OF r3]] by auto
  from only_step[OF r3 act_intros(5)[OF allocate_fill[OF this]]] obtain s4 where r4: "pool_runs 1 [Silent, Silent, Silent, Silent] (only (Allocating (AInstall 0 0)), s4)" by auto
  have "pid_is_valid 0" by (simp add: pid_is_valid_def PID_INVALID_def)
  then obtain g f5 where "frame_install 0 (unat (0::page_id)) (sh_frame s4 0) = (oOk g, f5)" using free_latch_installs(1)[OF only_free(1,2)[OF r4]] by (metis holds_latch.simps reserves.simps)
  from only_step[OF r4 act_intros(5)[OF allocate_install[OF this]]] obtain s5 where r5: "pool_runs 1 [Silent, Silent, Silent, Silent, Silent] (only (Allocating (ADirty 0 0)), s5)" by auto
  from only_step[OF r5 act_intros(5)[OF allocate_dirty]] obtain s6 where r6: "pool_runs 1 [Silent, Silent, Silent, Silent, Silent, Silent] (only (Allocating (APublish 0 0)), s6)" by auto
  obtain f7 where "publish_reserved_pin (sh_frame s6 0) = (oOk (), f7)" using only_free(3)[OF r6, of 0] by auto
  from only_step[OF r6 act_intros(5)[OF allocate_publish[OF this]]] obtain s7 where r7: "pool_runs 1 [Silent, Silent, Silent, Silent, Silent, Silent, Silent] (only (Allocating (ASwizzle 0 0)), s7)" by auto
  have "sh_swip s7 0 = InTier" using only_free(4)[OF r7] by simp
  from only_step[OF r7 act_intros(5)[OF allocate_swizzle[OF this]]] obtain s8
    where r8: "pool_runs 1 [Silent, Silent, Silent, Silent, Silent, Silent, Silent, Silent] (only (Allocating (ALatch 0 0)), s8)" by auto
  obtain f9 where "frame_lock_exclusive (sh_frame s8 0) = (oOk (), f9)" using free_latch(1)[OF only_free(1)[OF r8]] by auto
  from only_step[OF r8 act_intros(5)[OF allocate_latch[OF this]]] obtain s9
    where r9: "pool_runs 1 [Silent, Silent, Silent, Silent, Silent, Silent, Silent, Silent, Silent] (only (Allocating (AInsert 0 0)), s9)" by auto
  have "resident_exact s9 0 0" "0 \<notin> sh_pages s9" using only_free(5)[OF r9] by auto
  from only_step[OF r9 act_intros(5)[OF allocate_insert[OF this]]] show ?thesis by (auto simp: numeral_eq_Suc)
qed

lemma guarded_run: "\<exists>s. pool_runs 1 (replicate 9 Silent @ [NewPage 0 0, Silent, WrotePage 0 0 d]) (only (Fixing (Guard True 0 0)), s)"
proof -
  obtain s where "pool_runs 1 (replicate 9 Silent @ [NewPage 0 0]) (only (Fixing (Guard True 0 0)), s)" using new_page_run by blast
  from only_step[OF only_step[OF this act_intros(1)[OF mark_dirty]] act_intros(1)[OF write_page[of _ _ _ _ d]]] show ?thesis by auto
qed

theorem reads_last_write_witness:
  "\<exists>st e. pool_runs 1 (replicate 9 Silent @ [NewPage 0 0, Silent, WrotePage 0 0 [7], ReadPage 0 0 e]) st \<and> e = [7]"
proof -
  obtain s where "pool_runs 1 (replicate 9 Silent @ [NewPage 0 0, Silent, WrotePage 0 0 [7]]) (only (Fixing (Guard True 0 0)), s)" using guarded_run by blast
  from only_step[OF this act_intros(1)[OF read_page]]
  have r: "pool_runs 1 ((replicate 9 Silent @ [NewPage 0 0, Silent, WrotePage 0 0 [7]]) @ ReadPage 0 0 (sh_data s 0) # []) (only (Fixing (Guard True 0 0)), s)" by simp
  from reads_last_write[OF this] have "sh_data s 0 = [7]" by (simp add: numeral_eq_Suc)
  then show ?thesis using r by auto
qed

theorem exclusive_guard_alone_witness:
  "\<exists>as l s. pool_runs 1 as (l, s) \<and> l 0 = Fixing (Guard True 0 0) \<and> 0 \<in> sh_pages s \<and> fr_pid (sh_frame s 0) = 0"
proof -
  obtain s where r: "pool_runs 1 (replicate 9 Silent @ [NewPage 0 0]) (only (Fixing (Guard True 0 0)), s)" using new_page_run by blast
  moreover have "only (Fixing (Guard True 0 0)) 0 = Fixing (Guard True 0 0)" by simp
  ultimately show ?thesis using exclusive_guard_alone[OF r, of 0 True 0 0] by blast
qed

theorem no_step_goes_wrong_witness: "\<exists>as l s. pool_runs 1 as (l, s) \<and> l 0 = Fixing (Guard True 0 0) \<and> \<not> goes_wrong s (l 0)"
proof -
  obtain s where r: "pool_runs 1 (replicate 9 Silent @ [NewPage 0 0]) (only (Fixing (Guard True 0 0)), s)" using new_page_run by blast
  moreover have "only (Fixing (Guard True 0 0)) 0 = Fixing (Guard True 0 0)" by simp
  ultimately show ?thesis using no_step_goes_wrong[OF r, of 0] by blast
qed


end
