(* ===== verification/Spec2Isabelle.thy ===== *)
theory Spec2Isabelle
  imports Bench_Output Metrics_Export Uring_Engine Interleaving_Runs
begin

text \<open>
  Verification of \<open>tierbuf\<close>, a tiered buffer manager (src/crates/tierbuf/src), and of its benchmark driver
  (src/crates/tierbuf-bench/src/main.rs).

  \<^bold>\<open>The program.\<close>  A pool of page frames in DRAM caches pages whose cold copies lie in storage tiers.  A
  page has one tagged handle (swip) that says whether it is hot or cooling in a frame or evicted.
  Clients allocate pages and fix them shared, exclusive or optimistic; a fix of an evicted page faults
  it in, one leader per page, after acquiring a frame, which may evict another page through the
  cooling queue, the placement policy and the write budgets of the tiers.  A cooler thread, an epoch
  thread and prefetch workers run beside the clients; shutdown writes every page back.  The benchmark
  builds a pool for each DRAM fraction, fills it with marked pages, lets workers fix and verify pages in
  a warm-up and a measured phase, and reports a row of figures checked against the pool's counters.

  \<^bold>\<open>The theories, in the order of the imports.\<close>
  \<^item> \<open>Rust_Prelude\<close>: machine integers with checked and saturating operations, the error type (lib.rs),
    outcomes (\<open>oOk\<close>, \<open>oErr\<close>, \<open>oPanic\<close>, \<open>oBlocks\<close>) and the state-passing operations all models use.
  \<^item> \<open>Atomic_Update\<close> (atomic.rs), \<open>Swip\<close> (swip.rs), \<open>Hybrid_Latch\<close> (latch.rs): the retry loop under
    interference is one atomic update; every handle transition is an exact compare-exchange of legal
    words; latch holders exclude each other under every interleaving, and a validated optimistic
    version means no writer came in between, up to the wrap of 48 bits.
  \<^item> \<open>Frame_Meta\<close>, \<open>Frame_Table\<close>, \<open>Free_List\<close> (frame.rs, sys/mmap.rs, sys/mod.rs): pins against eviction
    reservations, frame addresses inside the mapping, and the free list under interleaved accesses.
  \<^item> \<open>Cooling_Queue\<close> (cooling.rs), \<open>Heat_Tracker\<close> (policy/heat.rs), \<open>Float64\<close> and \<open>Economic_Policy\<close>
    (policy/mod.rs, policy/economic.rs): FIFO of tickets, lazy heat against an eager reference, and the
    optimality of the demotion target over a model of binary64.
  \<^item> \<open>Write_Budget\<close>, \<open>Tier_Backend\<close> (tier/mod.rs), \<open>Mock_Tier\<close> (tier/mock.rs), \<open>File_Tier\<close> (tier/file.rs,
    sys/file.rs): the token bucket, the contract of a backend as the locale \<open>tier_backend\<close>, and its two
    implementations, the file one over short, interrupted and failing transfers.
  \<^item> \<open>Metrics_Recorder\<close>, \<open>Stats_Gate\<close>, \<open>Metrics_Export\<close> (metrics.rs), \<open>Fault_Coordinator\<close> (pool.rs): counters and
    cost accounting, the coherence of snapshots under concurrent events, and the calls and the text that
    are made of them; one leader per fault and an exact replay of its result to the waiters under every interleaving.
  \<^item> \<open>Buffer_Pool\<close>, \<open>Pool_Fix\<close>, \<open>Pool_Lifecycle\<close> (pool.rs): the manager as a record (\<open>manager\<close>) and every
    operation of it, one definition per method or per loop of a method.
  \<^item> \<open>Pool_Invariant\<close> and \<open>Pool_Eviction\<close>, \<open>Pool_Reclaim\<close>, \<open>Pool_Access\<close>, \<open>Pool_Guards\<close>, \<open>Pool_Client\<close>,
    \<open>Pool_Prefetch\<close>: the invariant (\<open>pool_inv\<close>), the content of each page (\<open>page_view\<close>) and, per operation, that
    it returns or fails as the code says, keeps the invariant, all page contents and all pinned
    frames.  They are proved in the locale \<open>buffer_pool\<close>, which joins the contracts of the queue
    (\<open>array_queue\<close>), of the tiers (\<open>tier_backend\<close>) and of the policy (\<open>placement_policy\<close>).
  \<^item> \<open>Pool_Refinement\<close>: the manager with the outstanding guards as a transition system (\<open>pool_step\<close>) and
    its simulation by an abstract store (\<open>store_step\<close>); \<open>Pool_Shutdown\<close>: flushing, shutdown, drop;
    \<open>Pool_Start\<close>: the new manager, the reachable states (\<open>pool_reaches\<close>), the interpretations of
    \<open>buffer_pool\<close> on both tiers, and a small pool whose states are the witnesses.
  \<^item> \<open>Uring_Engine\<close> (uring.rs, sys/uring.rs): the asynchronous reader and its completion thread over a
    parameter for the ring of the \<open>io_uring\<close> crate; what is assumed of it is \<open>ring_contract\<close>, and
    \<open>ring_serves\<close> where progress is claimed.
  \<^item> \<open>Pool_Interleaving\<close> (pool.rs again): fixes, faults, prefetches, allocations, coolings and evictions as activities
    whose single shared accesses interleave in any order (\<open>fix_step\<close>, \<open>fault_step\<close>, \<open>return_step\<close>, \<open>evict_step\<close>,
    \<open>allocate_step\<close>).  \<open>Interleaving_Safety\<close> says what an activity holds and knows at each point of its code
    and what a step may change; \<open>Interleaving_Invariant\<close> that this knowledge is stable under the steps of the
    others (locale \<open>residency_protocol\<close>); \<open>Interleaving_Refinement\<close> that reads return the last write, exclusive guards
    are alone and no assertion fails; \<open>Interleaving_Progress\<close> that the activities never all wait;
    \<open>Interleaving_Runs\<close> has the witnesses.
  \<^item> \<open>Pool_Counters\<close>: how each operation of the pool moves its counters: a fix that returns a guard counts
    one hit of the source it reports, and nothing else counts a hit.
  \<^item> The benchmark driver (main.rs): \<open>Bench_Random\<close> (generator, reservoir of latencies, percentile),
    \<open>Bench_Workload\<close> (Zipf sampler, accesses, markers), \<open>Bench_Config\<close> (command line), \<open>Bench_Report\<close> (counter
    differences, row, CSV line), \<open>Bench_Run\<close> (messages, pool of a fraction, dataset, workers, phases, dump, the
    run of a fraction).  \<open>Bench_Safety\<close>: under any schedule of workers and pool threads no worker panics or
    reads a wrong marker; \<open>Bench_Counts\<close>: the workers' counts are the pool's, so a phase without failures is
    always reported; \<open>Bench_Fraction\<close>: accepted command lines give pools that can be built, and the run of a
    fraction returns.  \<open>Bench_Output\<close>: the loop over the fractions, the two output files over a file system
    that may fail at any call, the usage text and the exit code.
  \<^item> This theory: the properties of the whole pool, over every state its operations can reach.

  \<^bold>\<open>Code outside the repository.\<close>  The lock-free queue of crossbeam is the parameter \<open>queue_ops\<close> with the laws of
  \<open>array_queue\<close>; the system allocator and \<open>mmap\<close> are arguments of the constructors, with \<open>slice_fits\<close> for
  the placement of the frame slice; the kernel's answers to file operations are scripts in the state
  of the file; the completions of the ring are those of the parameter \<open>R\<close>.  The platform's power function is an
  argument of the Zipf sampler (\<open>powf_positive\<close> where its sign matters).  The fates of the calls into the file
  system are a list in the state of the host.

  \<^bold>\<open>Bounds and fuel.\<close>  The loop of a fix takes fuel; two rounds are enough, since the first faults the page in
  and the second finds it (\<open>fix_terminates\<close>), unless a guard makes it wait, which is \<open>oBlocks\<close>.  The
  passes of the final flush take one entry of a clock each, whether the deadline has passed; the
  last pass needed is proved in \<open>shutdown_makes_durable\<close>.  Dropping a handle takes at most two rounds.
  The completion thread takes fuel for interrupted waits only.  A phase of the benchmark takes a schedule:
  a turn lets one worker make its next call into the pool, with what it reads from the clock, or lets a
  thread of the pool make a round; a fix that must wait leaves the worker where it is.  \<open>None\<close> is a schedule
  that ends before the loop it drives.

  \<^bold>\<open>Not modelled.\<close>  The interleaving model keeps what decides residency: pins, reservations, latches, handles, the
  directory, the stored pages, the free frames, the leaders of faults.  Statistics, heat, the choice of the tier and
  of the victim, and prefetch markers are in the sequential model of the pool only, where each operation is one
  step; so are shutdown, the final flush and the drop of the manager, which do not interleave with anything here.
  Weak memory orderings, wall-clock timing and thread scheduling are not modelled.
  The pool reads tiers through the backend, not through the ring (the branch of \<open>read_backing_page\<close> for
  the feature \<open>uring\<close>).  The release of in-flight buffers when the completion thread panics, the stub of builds
  without the ring, \<open>munmap\<close> and the allocation path for miri are left out.  The barriers that start a phase of the
  benchmark are part of its schedule, and the text that \<open>serde_json\<close> gives a value is a parameter.
\<close>

section \<open>The pool implements an abstract store\<close>

text \<open>
  C1. Whatever the clients and the background threads of a new pool do, step by step, the pool behaves
  as a map from page identifiers to page contents with shared and exclusive holds: allocation adds a
  zero page, a fix grants a hold only when the store allows it, a read returns the last content
  written, and cooling, eviction, prefetching, epoch ticks and failed operations change nothing.
\<close>

theorem pool_refines_store:
  assumes "buffer_pool E elems cap contents tok" "pool_reaches E tok es y"
  shows "store_run empty_store es (abs_store contents y)"
  using buffer_pool.reaches_ok[OF assms] by blast

theorem pool_refines_store_witness:
  "\<exists>g s. pool_reaches mock_env mock_wf [Allocated (eg_pid g)] (s, {#ExclusiveGuard g#})
     \<and> store_run empty_store [Allocated (eg_pid g)] (abs_store mock_contents (s, {#ExclusiveGuard g#}))"
proof (rule demo_page)
  fix g s assume "pool_reaches mock_env mock_wf [Allocated (eg_pid g)] (s, {#ExclusiveGuard g#})"
  then show ?thesis using pool_refines_store[OF mock_pool.buffer_pool_axioms] by blast
qed

text \<open>
  In every reachable state the guards of clients exclude each other: while a client holds a page
  exclusively, no other guard on that page exists.
\<close>

theorem exclusive_guards_alone:
  assumes "buffer_pool E elems cap contents tok" "pool_reaches E tok es (s, G)" "ExclusiveGuard g \<in># G"
  shows "filter_mset (\<lambda>x. guard_pid x = eg_pid g) G = {#ExclusiveGuard g#}"
  using buffer_pool.reaches_ok[OF assms(1,2)] buffer_pool.exclusive_only[OF assms(1) _ assms(3)] by metis

theorem exclusive_guards_alone_witness:
  "\<exists>g s. pool_reaches mock_env mock_wf [Allocated (eg_pid g)] (s, {#ExclusiveGuard g#})
     \<and> filter_mset (\<lambda>x. guard_pid x = eg_pid g) {#ExclusiveGuard g#} = {#ExclusiveGuard g#}"
proof (rule demo_page)
  fix g s assume d: "pool_reaches mock_env mock_wf [Allocated (eg_pid g)] (s, {#ExclusiveGuard g#})"
  then have "filter_mset (\<lambda>x. guard_pid x = eg_pid g) {#ExclusiveGuard g#} = {#ExclusiveGuard g#}"
    by (rule exclusive_guards_alone[OF mock_pool.buffer_pool_axioms]) simp
  then show ?thesis using d by blast
qed



text \<open>
  C7. In a reachable state a fix returns within two rounds of its retry loop: a shared fix unless an
  exclusive guard or 65534 shared guards on the page are outstanding, an exclusive one unless some
  guard on the page is.
\<close>

theorem fix_terminates:
  assumes P: "buffer_pool E elems cap contents tok" and R: "pool_reaches E tok es (s, G)" and h: "h \<in> dom (bm_swips s)" "2 \<le> fuel"
  shows "(size (filter_mset (\<lambda>g. guard_swip g = h) G) < 2 ^ 16 - 2 \<and> (\<forall>g \<in># G. guard_swip g = h \<longrightarrow> \<not> is_exclusive g) \<longrightarrow>
      (\<exists>r s'. fix_shared_with E fuel h hint s = (r, s') \<and> ((\<exists>g. r = oOk g) \<or> (\<exists>e. r = oErr e))))
    \<and> ((\<forall>g \<in># G. guard_swip g \<noteq> h) \<longrightarrow>
      (\<exists>r s'. fix_exclusive E fuel h s = (r, s') \<and> ((\<exists>g. r = oOk g) \<or> (\<exists>e. r = oErr e))))"
proof -
  obtain C where ci: "client_inv elems cap contents tok C (s, G)" using buffer_pool.reaches_ok[OF P R] by blast
  show ?thesis using buffer_pool.fix_shared_returns[OF P ci h] buffer_pool.fix_exclusive_returns[OF P ci h] by blast
qed

theorem fix_terminates_witness:
  "\<exists>s. pool_reaches mock_env mock_wf [Allocated 0, Released 0 True] (s, {#}) \<and> (\<exists>h \<in> dom (bm_swips s). \<exists>r s'. fix_exclusive mock_env 2 h s = (r, s') \<and> ((\<exists>g. r = oOk g) \<or> (\<exists>e. r = oErr e)))"
proof (rule demo_released)
  fix h s assume d: "pool_reaches mock_env mock_wf [Allocated 0, Released 0 True] (s, {#})" "h \<in> dom (bm_swips s)"
  then have "\<exists>r s'. fix_exclusive mock_env 2 h s = (r, s') \<and> ((\<exists>g. r = oOk g) \<or> (\<exists>e. r = oErr e))"
    using fix_terminates[OF mock_pool.buffer_pool_axioms d, of 2] by simp
  then show ?thesis using d by blast
qed

text \<open>
  C9. Every page of a reachable state has a content of exactly \<open>PAGE_SIZE\<close> bytes, wherever it lies,
  and its handle decodes, names the page and belongs to the manager.
\<close>

theorem pages_well_typed:
  assumes P: "buffer_pool E elems cap contents tok" and R: "pool_reaches E tok es (s, G)" and pc: "bm_pages s p = Some pc"
  shows "(\<exists>d. page_view contents s p = Some d \<and> length d = PAGE_SIZE)
    \<and> (\<exists>c. bm_swips s (pc_swip pc) = Some c \<and> swip_wf c \<and> sw_pid c = p \<and> sw_owner_id c = bm_id s)"
proof -
  obtain C where i: "pool_inv elems cap contents tok C s" using buffer_pool.reaches_ok[OF P R] by (metis client_inv_def fst_conv)
  obtain c where c: "bm_swips s (pc_swip pc) = Some c" "sw_pid c = p" "sw_owner_id c = bm_id s" using pool_inv_page[OF i pc] by (auto simp: page_inv_def)
  obtain d where "page_view contents s p = Some d" using buffer_pool.view_defined[OF P i pc] by blast
  then show ?thesis using buffer_pool.view_length[OF P i] c pool_inv_cell[OF i c(1)] by (simp add: cell_inv_def)
qed

theorem pages_well_typed_witness:
  "\<exists>(s :: mock_manager) pc. bm_pages s 0 = Some pc \<and> (\<exists>d. page_view mock_contents s 0 = Some d \<and> length d = PAGE_SIZE)"
proof (rule demo_released)
  fix h s pc assume d: "pool_reaches mock_env mock_wf [Allocated 0, Released 0 True] (s, {#})" "bm_pages s 0 = Some pc"
  show ?thesis using pages_well_typed[OF mock_pool.buffer_pool_axioms d] d(2) by blast
qed

text \<open>
  C12. Allocation: in a reachable running pool with a free frame and identifiers left it succeeds, and
  the new page is a page of zeros under an identifier that no page had.
\<close>

theorem allocate_succeeds:
  assumes P: "buffer_pool E elems cap contents tok" and R: "pool_reaches E tok es (s, G)"
    and run: "\<not> bm_stopping s" "elems (ft_free (bm_frames s)) \<noteq> []" "bm_next_pid s \<le> PID_MAX"
  shows "\<exists>g s'. allocate E s = (oOk g, s') \<and> page_view contents s (eg_pid g) = None
    \<and> page_view contents s' = (page_view contents s)(eg_pid g \<mapsto> replicate PAGE_SIZE 0) \<and> bm_next_pid s' = eg_pid g + 1"
proof -
  obtain C where i: "pool_inv elems cap contents tok C s" using buffer_pool.reaches_ok[OF P R] by (metis client_inv_def fst_conv)
  obtain g s' where a: "allocate E s = (oOk g, s')" using buffer_pool.allocate_free[OF P i run] by blast
  obtain j where j: "g = \<lparr>eg_index = j, eg_pid = bm_next_pid s, eg_swip = bm_next_handle s\<rparr>" "buffer_pool.allotted elems cap contents tok C j s s'"
    by (rule buffer_pool.allocate_ok[OF P i]) (use a in auto)
  have "bm_pages s (bm_next_pid s) = None" by (rule buffer_pool.fresh_page(1)[OF P i])
  then show ?thesis using a j by (simp add: buffer_pool.allotted_def[OF P] zero_page_def page_view_def)
qed

theorem allocate_succeeds_witness:
  "\<exists>s g s'. pool_reaches mock_env mock_wf [] (s, {#}) \<and> allocate mock_env s = (oOk g, s') \<and> page_view mock_contents s' (eg_pid g) = Some (replicate PAGE_SIZE 0)"
proof (rule demo_empty)
  fix s assume d: "pool_reaches mock_env mock_wf [] (s, {#})" "\<not> bm_stopping s" "bm_next_pid s = 0" "fst (ft_free (bm_frames s)) = [0, 1]"
  then show ?thesis using allocate_succeeds[OF mock_pool.buffer_pool_axioms d(1,2)] by fastforce
qed

text \<open>
  C10. Eviction and the background cooler of a reachable state return, keep the content of every page
  and leave every pinned or reserved frame as it is, metadata and bytes.
\<close>

theorem reclaiming_keeps_pages:
  assumes P: "buffer_pool E elems cap contents tok" and R: "pool_reaches E tok es (s, G)"
  shows "(\<exists>r s'. evict_ticket E t s = (r, s') \<and> ((\<exists>x. r = oOk x) \<or> (\<exists>e. r = oErr e)) \<and> undisturbed contents s s')
    \<and> (\<exists>s'. background_cooling_step E s = (oOk (), s') \<and> undisturbed contents s s')"
proof -
  obtain C where i: "pool_inv elems cap contents tok C s" using buffer_pool.reaches_ok[OF P R] by (metis client_inv_def fst_conv)
  obtain r s' where "evict_ticket E t s = (r, s')" "(\<exists>x. r = oOk x) \<or> (\<exists>e. r = oErr e)" "evolves contents s s'"
    by (rule buffer_pool.evict_ticket_ok[OF P i, of t]) (auto simp: buffer_pool.reclaims_def[OF P])
  moreover obtain s'' where "background_cooling_step E s = (oOk (), s'')" "evolves contents s s''" using buffer_pool.background_cooling_step_ok[OF P i] by blast
  ultimately show ?thesis using evolves_undisturbed by blast
qed

theorem reclaiming_keeps_pages_witness:
  "\<exists>s s'. pool_reaches mock_env mock_wf [Allocated 0, Released 0 True] (s, {#}) \<and> background_cooling_step mock_env s = (oOk (), s') \<and> undisturbed mock_contents s s'"
proof (rule demo_released)
  fix s assume d: "pool_reaches mock_env mock_wf [Allocated 0, Released 0 True] (s, {#})"
  show ?thesis using reclaiming_keeps_pages[OF mock_pool.buffer_pool_axioms d] d by blast
qed

text \<open>
  C11. A fault in a reachable state returns; on success the page is in a frame that names it and its
  handle points there, on every outcome each page has its content and no pinned frame is touched.
\<close>

theorem fault_brings_page_in:
  assumes P: "buffer_pool E elems cap contents tok" and R: "pool_reaches E tok es (s, G)" and pc: "bm_pages s p = Some pc"
  shows "\<exists>r s'. fault E (pc_swip pc) p s = (r, s') \<and> undisturbed contents s s'
    \<and> ((\<exists>tier i. r = oOk tier \<and> i < fcount s' \<and> held s' i p (pc_swip pc) \<and> page_view contents s p = Some (fdata s' i)) \<or> (\<exists>e. r = oErr e))"
proof -
  obtain C where "client_inv elems cap contents tok C (s, G)" using buffer_pool.reaches_ok[OF P R] by blast
  then have i: "pool_inv elems cap contents tok C s" "faults_idle s" by (simp_all add: client_inv_def)
  obtain r s' where f: "fault E (pc_swip pc) p s = (r, s')" "buffer_pool.fault_served elems cap contents tok C r p (pc_swip pc) s s'"
    using buffer_pool.fault_ok[OF P i, of p "pc_swip pc"] pc by auto
  then have k: "pool_inv elems cap contents tok C s'" "serves contents s s'" by (simp_all add: buffer_pool.fault_served_def[OF P])
  have "page_view contents s p = Some (fdata s' j)" if "j < fcount s'" "held s' j p (pc_swip pc)" for j
    using buffer_pool.guard_read(2)[OF P k(1) that] k(2) by (simp add: serves_def)
  then show ?thesis using f serves_undisturbed[OF k(2)] unfolding buffer_pool.fault_served_def[OF P] by (cases r) auto
qed

theorem fault_brings_page_in_witness:
  "\<exists>s pc r s'. pool_reaches mock_env mock_wf [Allocated 0, Released 0 True] (s, {#}) \<and> bm_pages s 0 = Some pc
     \<and> fault mock_env (pc_swip pc) 0 s = (r, s') \<and> undisturbed mock_contents s s'"
proof (rule demo_released)
  fix s pc assume d: "pool_reaches mock_env mock_wf [Allocated 0, Released 0 True] (s, {#})" "bm_pages s 0 = Some pc"
  show ?thesis using fault_brings_page_in[OF mock_pool.buffer_pool_axioms d] d by blast
qed

text \<open>
  C13. Prefetching in a reachable state: a call returns, each of its handles is counted exactly once as
  submitted or as skipped, the queue grows by the submitted ones and stays within its bound, and no page changes.
\<close>

theorem prefetch_accounts:
  assumes P: "buffer_pool E elems cap contents tok" and R: "pool_reaches E tok es (s, G)"
    and hs: "set hs \<subseteq> dom (bm_swips s)" "length hs < 2 ^ 64"
  shows "\<exists>n m s'. prefetch E hs s = (oOk (), s') \<and> unat n + unat m = length hs
    \<and> bm_stats s' = record_prefetch_skipped m (record_prefetch_submitted n (bm_stats s)) \<and> length (bm_prefetch_queue s') = length (bm_prefetch_queue s) + unat n
    \<and> length (bm_prefetch_queue s') \<le> MAX_PREFETCH_IN_FLIGHT \<and> bm_prefetch_in_flight s' = length (bm_prefetch_queue s') \<and> page_view contents s' = page_view contents s"
proof -
  obtain C where "client_inv elems cap contents tok C (s, G)" using buffer_pool.reaches_ok[OF P R] by blast
  then have i: "pool_inv elems cap contents tok C s" "prefetch_ok C s" by (simp_all add: client_inv_def)
  show ?thesis by (rule buffer_pool.prefetch_call_ok[OF P i hs]) (auto simp: buffer_pool.shifts_def[OF P] prefetch_ok_def)
qed

theorem prefetch_accounts_witness:
  "\<exists>s h s'. pool_reaches mock_env mock_wf [Allocated 0, Released 0 True] (s, {#}) \<and> prefetch mock_env [h, h] s = (oOk (), s')
     \<and> length (bm_prefetch_queue s') \<le> MAX_PREFETCH_IN_FLIGHT"
proof (rule demo_released)
  fix h s assume d: "pool_reaches mock_env mock_wf [Allocated 0, Released 0 True] (s, {#})" "h \<in> dom (bm_swips s)"
  then have "set [h, h] \<subseteq> dom (bm_swips s)" "length [h, h] < 2 ^ 64" by auto
  then show ?thesis using prefetch_accounts[OF mock_pool.buffer_pool_axioms d(1)] d by blast
qed

text \<open>
  C3. Shutdown of a reachable pool, its workers alive, with any guards outstanding: once the deadline
  has passed at the end of a later pass, or in the second pass when no guard is outstanding, it returns;
  if it returns \<open>Ok\<close>, no frame holds a page and every page has its content stored in a tier at the
  location the directory names; in every case it keeps all pages, and the pool is stopped.
\<close>

theorem shutdown_makes_durable:
  assumes P: "buffer_pool E elems cap contents tok" and R: "pool_reaches E tok es (s, G)"
    and run: "\<not> bm_stopping s" and clock: "True \<in> set clock \<or> clock \<noteq> [] \<and> G = {#}"
  shows "\<exists>r s'. shutdown E (x # clock) s = (r, s') \<and> bm_stopping s' \<and> page_view contents s' = page_view contents s
    \<and> (r = oOk () \<and> (\<forall>i < fcount s'. \<not> resident s' i)
         \<and> (\<forall>p d. page_view contents s p = Some d \<longrightarrow> (\<exists>l. ents s' p = Some l \<and> stored contents (bm_tiers s') l = Some d)) \<or> (\<exists>e. r = oErr e))"
proof -
  obtain C where ci: "client_inv elems cap contents tok C (s, G)" using buffer_pool.reaches_ok[OF P R] by blast
  then have "live_prefetch_worker (bm_workers s)" using run by (simp add: client_inv_def)
  then show ?thesis using buffer_pool.shutdown_ok[OF P ci disjI1 clock, of x]
    by (auto simp: abs_store_def buffer_pool.durable_def[OF P])
qed

theorem shutdown_makes_durable_witness:
  "\<exists>g s r s'. pool_reaches mock_env mock_wf [Allocated (eg_pid g)] (s, {#ExclusiveGuard g#}) \<and> shutdown mock_env [False, True] s = (r, s')
     \<and> bm_stopping s' \<and> page_view mock_contents s' = page_view mock_contents s"
proof (rule demo_page)
  fix g s assume d: "pool_reaches mock_env mock_wf [Allocated (eg_pid g)] (s, {#ExclusiveGuard g#})" "\<not> bm_stopping s"
  show ?thesis using shutdown_makes_durable[OF mock_pool.buffer_pool_axioms d, of "[True]" False] d(1) by auto
qed



text \<open>
  C15. Dropping the manager of a reachable state leaves the handle of every page evicted, without
  touching the tiers or the directory; two rounds per handle are enough.
\<close>

theorem drop_evicts_handles:
  assumes P: "buffer_pool E elems cap contents tok" and R: "pool_reaches E tok es (s, G)" and ps: "distinct ps" "set ps = dom (bm_pages s)"
  shows "\<exists>s'. manager_drop ps s = (oOk (), s') \<and> bm_stopping s' \<and> bm_tiers s' = bm_tiers s \<and> bm_directory s' = bm_directory s
    \<and> (\<forall>p pc. bm_pages s p = Some pc \<longrightarrow> swst s' (pc_swip pc) = Some (Evicted p))"
proof -
  obtain C where i: "pool_inv elems cap contents tok C s" using buffer_pool.reaches_ok[OF P R] by (metis client_inv_def fst_conv)
  show ?thesis using buffer_pool.manager_drop_ok[OF P i ps] by blast
qed

theorem drop_evicts_handles_witness:
  "\<exists>g s s'. pool_reaches mock_env mock_wf [Allocated (eg_pid g)] (s, {#ExclusiveGuard g#}) \<and> manager_drop [0] s = (oOk (), s') \<and> bm_stopping s'"
proof (rule demo_page)
  fix g s assume d: "pool_reaches mock_env mock_wf [Allocated (eg_pid g)] (s, {#ExclusiveGuard g#})" "dom (bm_pages s) = {0}"
  show ?thesis using drop_evicts_handles[OF mock_pool.buffer_pool_axioms d(1), of "[0]"] d by auto
qed

text \<open>
  C16. Once the stop flag is set, allocation, every kind of fix and faults are refused without any
  effect, and a prefetch call only counts its handles as skipped.
\<close>

theorem stopped_pool_refuses:
  assumes "bm_stopping s" "length hs < 2 ^ 64"
  shows "allocate E s = (oErr ShuttingDown, s) \<and> fix_shared_with E fuel h hint s = (oErr ShuttingDown, s) \<and> fix_exclusive E fuel h s = (oErr ShuttingDown, s)
    \<and> fix_optimistic E fuel h s = (oErr ShuttingDown, s) \<and> fault E h p s = (oErr ShuttingDown, s)
    \<and> prefetch E hs s = (oOk (), s\<lparr>bm_stats := record_prefetch_skipped (word_of_nat (length hs)) (record_prefetch_submitted 0 (bm_stats s))\<rparr>)"
proof -
  note run = op_seq_def op_bind_def ensure_running_def op_return_def op_get_def
  have loop: "prefetch_loop E hs n k seen s = (oOk (n, word_of_nat (unat k + length hs)), s)" if "unat k + length hs < 2 ^ 64" for n k seen
    using that
  proof (induction hs arbitrary: k)
    case (Cons h hs)
    have "unat (saturating_add k 1) = unat k + 1" using Cons.prems by (simp add: unat_saturating_add)
    moreover from this have "saturating_add k 1 = word_of_nat (unat k + 1)" by (metis of_nat_unat ucast_id)
    then have "saturating_add k 1 = 1 + k" by simp
    ultimately show ?case using Cons assms(1) by (simp add: run prefetch_one_def)
  qed (simp add: run)
  have "prefetch_loop E hs 0 0 {} s = (oOk (0, word_of_nat (length hs)), s)" using loop[of 0 0 "{}"] assms(2) by simp
  then show ?thesis using assms(1)
    by (simp add: run allocate_def fix_shared_with_def fix_exclusive_def fix_optimistic_def fix_shared_def fault_def coordinated_def prefetch_def bump_eq)
qed

theorem stopped_pool_refuses_witness:
  "\<exists>s :: mock_manager. bm_stopping s \<and> allocate mock_env s = (oErr ShuttingDown, s) \<and> fix_exclusive mock_env 2 0 s = (oErr ShuttingDown, s)"
proof (rule demo_empty)
  fix s :: mock_manager
  have "bm_stopping (s\<lparr>bm_stopping := True\<rparr>)" by simp
  then show ?thesis using stopped_pool_refuses[of "s\<lparr>bm_stopping := True\<rparr>" "[]" mock_env 2 0] by (intro exI[of _ "s\<lparr>bm_stopping := True\<rparr>"]) simp
qed

text \<open>
  In demand mode the background cooler leaves the pool alone, however few frames are free, as long
  as no page was faulted in during the epoch and no frame request found the pool exhausted.
\<close>

theorem demand_mode_idle:
  assumes "bm_eviction_mode s = Demand" "bm_fault_ins_this_epoch s = 0" "\<not> bm_exhausted_frame_request s"
  shows "background_cooling_step E s = (oOk (), s)"
  using assms by (simp add: background_cooling_step_def op_seq_def op_bind_def op_get_def op_return_def op_modify_def)

theorem demand_mode_idle_witness:
  "\<exists>s :: mock_manager. bm_eviction_mode s = Demand \<and> background_cooling_step mock_env s = (oOk (), s)"
proof (rule demo_empty)
  fix s :: mock_manager
  let ?s = "s\<lparr>bm_eviction_mode := Demand, bm_fault_ins_this_epoch := 0, bm_exhausted_frame_request := False\<rparr>"
  show ?thesis using demand_mode_idle[of ?s mock_env] by (intro exI[of _ ?s]) simp
qed

end
